(* ===== verification/Halo_Prelude.thy ===== *)
theory Halo_Prelude
  imports Main "HOL-Library.Word"
begin

text \<open>
  Shared vocabulary of the development.

  Go strings and byte slices are both sequences of bytes; they are modelled by Isabelle's
  \<open>string\<close> (a list of 8-bit characters), so that the literals of the source can be written as
  they are. A Go \<open>int\<close> or \<open>int64\<close> is a mathematical integer together with the wrap-around
  functions below wherever a conversion or an arithmetic step of the source can leave the
  64-bit range; bit masks are \<open>64 word\<close> values. Go's integer division and remainder truncate
  towards zero, which \<open>go_div\<close> and \<open>go_mod\<close> write out.

  The theory also holds the decimal printer behind \<open>strconv.Itoa\<close> with its parser, and the
  generic lemmas the component theories share.
\<close>

unbundle bit_operations_syntax

named_theorems halo_defs "definitions of the components' operations, unfolded together"
named_theorems halo_inv "preservation of the components' invariants"

type_synonym bytes = string
type_synonym u64 = "64 word"

section \<open>Log levels\<close>

definition TraceLevel :: nat where "TraceLevel = 0"
definition DebugLevel :: nat where "DebugLevel = 1"
definition InfoLevel :: nat where "InfoLevel = 2"
definition WarnLevel :: nat where "WarnLevel = 3"
definition ErrorLevel :: nat where "ErrorLevel = 4"
definition FatalLevel :: nat where "FatalLevel = 5"
definition PanicLevel :: nat where "PanicLevel = 6"

lemmas level_defs = TraceLevel_def DebugLevel_def InfoLevel_def WarnLevel_def ErrorLevel_def FatalLevel_def PanicLevel_def

section \<open>Go integers\<close>

definition wrap_s64 :: "int \<Rightarrow> int" where
  "wrap_s64 x = (x + 2 ^ 63) mod 2 ^ 64 - 2 ^ 63"

definition wrap_u64 :: "int \<Rightarrow> int" where
  "wrap_u64 x = x mod 2 ^ 64"

definition wrap_u32 :: "int \<Rightarrow> int" where
  "wrap_u32 x = x mod 2 ^ 32"

definition wrap_u8 :: "int \<Rightarrow> int" where
  "wrap_u8 x = x mod 256"

definition max_int :: int where
  "max_int = 2 ^ 63 - 1"

definition is_s64 :: "int \<Rightarrow> bool" where
  "is_s64 x \<longleftrightarrow> - (2 ^ 63) \<le> x \<and> x < 2 ^ 63"

definition go_div :: "int \<Rightarrow> int \<Rightarrow> int" where
  "go_div a b = sgn a * sgn b * (\<bar>a\<bar> div \<bar>b\<bar>)"

definition go_mod :: "int \<Rightarrow> int \<Rightarrow> int" where
  "go_mod a b = a - b * go_div a b"

lemma wrap_s64_id [simp]: "is_s64 x \<Longrightarrow> wrap_s64 x = x"
  by (simp add: is_s64_def wrap_s64_def)

lemma is_s64_wrap_s64 [simp, intro]: "is_s64 (wrap_s64 x)"
proof -
  have "0 \<le> (x + 2 ^ 63) mod 2 ^ 64" and "(x + 2 ^ 63) mod 2 ^ 64 < 2 ^ 64"
    by simp_all
  then show ?thesis by (simp add: is_s64_def wrap_s64_def)
qed

lemma go_div_nonneg [simp]: "0 \<le> a \<Longrightarrow> 0 < b \<Longrightarrow> go_div a b = a div b"
  by (cases "a = 0") (simp_all add: go_div_def)

lemma go_mod_nonneg [simp]: "0 \<le> a \<Longrightarrow> 0 < b \<Longrightarrow> go_mod a b = a mod b"
  by (simp add: go_mod_def minus_mult_div_eq_mod)

lemma go_div_mod_eq: "b * go_div a b + go_mod a b = a"
  by (simp add: go_mod_def)

lemma go_div_neg: "a < 0 \<Longrightarrow> 0 < b \<Longrightarrow> go_div a b = - ((- a) div b)"
  by (simp add: go_div_def)

lemma go_mod_neg: "a < 0 \<Longrightarrow> 0 < b \<Longrightarrow> go_mod a b = - ((- a) mod b)"
  by (simp add: go_mod_def go_div_neg minus_mult_div_eq_mod [symmetric])

section \<open>Decimal digits\<close>

definition byte :: "int \<Rightarrow> char" where
  "byte n = char_of (nat (wrap_u8 n))"

definition digit :: "nat \<Rightarrow> char" where
  "digit d = char_of (48 + d)"

fun dec :: "nat \<Rightarrow> string" where
  "dec n = (if n < 10 then [digit n] else dec (n div 10) @ [digit (n mod 10)])"

declare dec.simps [simp del]

text \<open>\<open>strconv.Itoa\<close>, \<open>strconv.FormatInt(_, 10)\<close> and \<open>strconv.AppendInt\<close>'s suffix.\<close>

definition itoa :: "int \<Rightarrow> string" where
  "itoa i = (if i < 0 then CHR ''-'' # dec (nat (- i)) else dec (nat i))"

definition is_digit :: "char \<Rightarrow> bool" where
  "is_digit c \<longleftrightarrow> 48 \<le> (of_char c :: nat) \<and> (of_char c :: nat) \<le> 57"

fun dec_val :: "nat \<Rightarrow> string \<Rightarrow> nat" where
  "dec_val acc [] = acc"
| "dec_val acc (c # cs) = dec_val (10 * acc + (of_char c - 48)) cs"

definition atoi :: "string \<Rightarrow> int" where
  "atoi s = (case s of
       [] \<Rightarrow> 0
     | c # cs \<Rightarrow> if c = CHR ''-'' then - int (dec_val 0 cs) else int (dec_val 0 (c # cs)))"

lemma of_char_digit [simp]: "d < 10 \<Longrightarrow> of_char (digit d) = (48 + d :: nat)"
  by (simp add: digit_def)

lemma is_digit_digit [simp]: "d < 10 \<Longrightarrow> is_digit (digit d)"
  by (simp add: is_digit_def)

lemma dec_val_append: "dec_val acc (xs @ ys) = dec_val (dec_val acc xs) ys"
  by (induction xs arbitrary: acc) auto

lemma dec_val_dec [simp]: "dec_val 0 (dec n) = n"
proof (induction n rule: dec.induct)
  case (1 n)
  show ?case
  proof (cases "n < 10")
    case True
    then show ?thesis by (simp add: dec.simps [of n])
  next
    case False
    with "1.IH" show ?thesis
      by (simp add: dec.simps [of n] dec_val_append)
  qed
qed

lemma dec_digits: "c \<in> set (dec n) \<Longrightarrow> is_digit c"
proof (induction n rule: dec.induct)
  case (1 n)
  show ?case
  proof (cases "n < 10")
    case True
    with "1.prems" show ?thesis by (simp add: dec.simps [of n])
  next
    case False
    with "1.prems" "1.IH" show ?thesis by (auto simp: dec.simps [of n])
  qed
qed

lemma dec_nonempty [simp]: "dec n \<noteq> []"
  by (subst dec.simps) simp

lemma is_digit_minus [simp]: "\<not> is_digit (CHR ''-'')"
  by (simp add: is_digit_def)

lemma dec_no_minus: "dec n = c # cs \<Longrightarrow> c \<noteq> CHR ''-''"
  using dec_digits [of c n] by auto

text \<open>The parser inverts the printer on every integer.\<close>

lemma atoi_itoa [simp]: "atoi (itoa i) = i"
proof (cases "i < 0")
  case True
  then show ?thesis by (simp add: atoi_def itoa_def)
next
  case False
  obtain c cs where d: "dec (nat i) = c # cs"
    by (cases "dec (nat i)") auto
  with dec_no_minus have "c \<noteq> CHR ''-''" by blast
  moreover have "dec_val 0 (c # cs) = nat i"
    using dec_val_dec [of "nat i"] by (simp only: d)
  ultimately show ?thesis using False d
    by (simp add: atoi_def itoa_def del: dec_val.simps)
qed

lemma itoa_inj: "itoa i = itoa j \<Longrightarrow> i = j"
  using atoi_itoa by metis

section \<open>Lists and options\<close>

lemma foldl_invariant:
  assumes "P s" and "\<And>s x. P s \<Longrightarrow> x \<in> set xs \<Longrightarrow> P (f s x)"
  shows "P (foldl f s xs)"
  using assms by (induction xs arbitrary: s) auto

lemma nth_append_singleton:
  "i < length (xs @ [x]) \<Longrightarrow> (xs @ [x]) ! i = (if i < length xs then xs ! i else x)"
  by (auto simp: nth_append)

lemma map_upt_nth [simp]: "map ((!) xs) [0..<length xs] = xs"
  by (rule map_nth)

text \<open>A loop that rewrites the entries of a list at distinct indices.\<close>

lemma foldl_update:
  "length (foldl (\<lambda>vs i. if P i then vs[i := g i (vs ! i)] else vs) vs is) = length vs"
  by (induction "is" arbitrary: vs) auto

lemma foldl_update_nth:
  "distinct is \<Longrightarrow> j < length vs \<Longrightarrow>
   foldl (\<lambda>vs i. if P i then vs[i := g i (vs ! i)] else vs) vs is ! j =
     (if j \<in> set is \<and> P j then g j (vs ! j) else vs ! j)"
proof (induction "is" arbitrary: vs)
  case (Cons i "is")
  then show ?case by (cases "i = j") (auto simp: nth_list_update)
qed simp

lemma filter_upt_eqI:
  assumes "\<And>i. i < a \<and> P i \<longleftrightarrow> i < b \<and> Q i"
  shows "filter P [0..<a] = filter Q [0..<b]"
proof (rule sorted_distinct_set_unique)
  show "set (filter P [0..<a]) = set (filter Q [0..<b])" using assms by auto
qed (simp_all add: sorted_wrt_filter sorted_filter)

text \<open>Counting the entries of a list with a property, when one entry changes.\<close>

lemma count_update:
  "i < length xs \<Longrightarrow> length (filter P (xs[i := v])) + of_bool (P (xs ! i)) = length (filter P xs) + of_bool (P v)"
proof (induction xs arbitrary: i)
  case (Cons x xs)
  then show ?case by (cases i) (auto simp: of_bool_def split: if_splits)
qed simp

lemma count_zero: "length (filter P xs) = 0 \<Longrightarrow> i < length xs \<Longrightarrow> \<not> P (xs ! i)"
  by (simp add: filter_empty_conv)

end
