(* ===== verification/String_Helpers.thy ===== *)
theory String_Helpers
  imports Halo_Prelude
begin

text \<open>
  The formatting helpers of \<^verbatim>\<open>utils/string_helpers.go\<close>: the integer string cache and its packed
  hit counter, the Append and Format families, the restricted \<open>FormatString\<close> formatter and the
  RFC 3339 timestamp printers. Dynamic values are the datatype \<open>any_value\<close>, one constructor per
  case of the source's type switches; floats are carried as the text \<open>strconv\<close> prints for them.
  Builders come from a pool but are reset on acquire, so a builder is just the text written to it.
\<close>

section \<open>Dynamic values\<close>

datatype any_value =
    AInt int | AInt64 int | AInt32 int | AInt16 int | AInt8 int
  | AUint int | AUint64 int | AUint32 int | AUint16 int | AUint8 int
  | AString string | ABool bool
  | AFloat64 string | AFloat32 string
  | ANil | AComplex string

section \<open>The integer string cache\<close>

definition cache_size :: nat where
  "cache_size = 600"

text \<open>\<open>init\<close> fills the table with \<open>strconv.Itoa(i)\<close>.\<close>

definition intStringCache :: "string list" where
  "intStringCache = map (\<lambda>i. itoa (int i)) [0..<cache_size]"

text \<open>\<open>cacheHitRate\<close> packs the hits in its high and the calls in its low 32 bits.\<close>

definition getCacheStats :: "u64 \<Rightarrow> 32 word \<times> 32 word" where
  "getCacheStats val = (ucast (drop_bit 32 val), ucast val)"

definition FormatInt :: "int \<Rightarrow> u64 \<Rightarrow> string \<times> u64" where
  "FormatInt value rate =
     (if 0 \<le> value \<and> value < int (length intStringCache)
      then (intStringCache ! nat value, rate + (push_bit 32 1 OR 1))
      else (itoa value, rate + 1))"

definition AppendInt :: "bytes \<Rightarrow> int \<Rightarrow> bytes" where
  "AppendInt buf value =
     (if 0 \<le> value \<and> value < int (length intStringCache)
      then buf @ intStringCache ! nat value
      else buf @ itoa value)"

definition FormatIntWithPrefix :: "string \<Rightarrow> int \<Rightarrow> string" where
  "FormatIntWithPrefix prefix value =
     (if 0 \<le> value \<and> value < int (length intStringCache)
      then prefix @ intStringCache ! nat value
      else prefix @ itoa value)"

definition FormatStringWithSuffix :: "string \<Rightarrow> string \<Rightarrow> string" where
  "FormatStringWithSuffix value suffix = (let buf = []; buf = buf @ value; buf = buf @ suffix in buf)"

definition AppendStringWithSufix :: "bytes \<Rightarrow> string \<Rightarrow> string \<Rightarrow> bytes" where
  "AppendStringWithSufix buf value suffix = (let buf = buf @ value in buf @ suffix)"

definition AppendIntWithPrefix :: "bytes \<Rightarrow> string \<Rightarrow> int \<Rightarrow> bytes" where
  "AppendIntWithPrefix buf prefix value = (let buf = buf @ prefix in AppendInt buf value)"

text \<open>The text part of \<open>FormatInt\<close>, for the composite helpers that do not return the counter.\<close>

definition fmt_int :: "int \<Rightarrow> string" where
  "fmt_int value = fst (FormatInt value 0)"

fun FormatAny :: "any_value \<Rightarrow> string" where
  "FormatAny (AInt v) = fmt_int v"
| "FormatAny (AInt64 v) =
     (if 0 \<le> v \<and> v < int (length intStringCache) then intStringCache ! nat v else itoa v)"
| "FormatAny (AInt32 v) = fmt_int v"
| "FormatAny (AInt16 v) = fmt_int v"
| "FormatAny (AInt8 v) = fmt_int v"
| "FormatAny (AUint v) = (if v < int (length intStringCache) then intStringCache ! nat v else itoa v)"
| "FormatAny (AUint64 v) = (if v < int (length intStringCache) then intStringCache ! nat v else itoa v)"
| "FormatAny (AUint32 v) = (if v < int (length intStringCache) then intStringCache ! nat v else itoa v)"
| "FormatAny (AUint16 v) = fmt_int v"
| "FormatAny (AUint8 v) = fmt_int v"
| "FormatAny (AString v) = v"
| "FormatAny (ABool v) = (if v then ''true'' else ''false'')"
| "FormatAny (AFloat64 v) = v"
| "FormatAny (AFloat32 v) = v"
| "FormatAny ANil = ''<nil>''"
| "FormatAny (AComplex _) = ''<complex>''"

text \<open>
  A value the type switch can hold: the fixed-width kinds are within their ranges.
\<close>

fun any_ok :: "any_value \<Rightarrow> bool" where
  "any_ok (AInt v) = is_s64 v"
| "any_ok (AInt64 v) = is_s64 v"
| "any_ok (AInt32 v) = (- (2 ^ 31) \<le> v \<and> v < 2 ^ 31)"
| "any_ok (AInt16 v) = (- (2 ^ 15) \<le> v \<and> v < 2 ^ 15)"
| "any_ok (AInt8 v) = (- (2 ^ 7) \<le> v \<and> v < 2 ^ 7)"
| "any_ok (AUint v) = (0 \<le> v \<and> v < 2 ^ 64)"
| "any_ok (AUint64 v) = (0 \<le> v \<and> v < 2 ^ 64)"
| "any_ok (AUint32 v) = (0 \<le> v \<and> v < 2 ^ 32)"
| "any_ok (AUint16 v) = (0 \<le> v \<and> v < 2 ^ 16)"
| "any_ok (AUint8 v) = (0 \<le> v \<and> v < 2 ^ 8)"
| "any_ok _ = True"

section \<open>Composite helpers\<close>

definition FormatKeyValueAny :: "string \<Rightarrow> any_value \<Rightarrow> string" where
  "FormatKeyValueAny key value = key @ ''='' @ FormatAny value"

definition FormatKeyValueAnySep :: "string \<Rightarrow> string \<Rightarrow> any_value \<Rightarrow> string" where
  "FormatKeyValueAnySep key separator value = key @ separator @ FormatAny value"

definition AppendKeyValueAny :: "bytes \<Rightarrow> string \<Rightarrow> any_value \<Rightarrow> bytes" where
  "AppendKeyValueAny buf key value =
     (let buf = buf @ key; buf = buf @ ''='' in
      case value of
        AInt v \<Rightarrow> AppendInt buf v
      | AInt64 v \<Rightarrow>
          if 0 \<le> v \<and> v < 600 then buf @ intStringCache ! nat v else buf @ itoa v
      | AString v \<Rightarrow> buf @ v
      | ABool v \<Rightarrow> if v then buf @ ''true'' else buf @ ''false''
      | AFloat64 v \<Rightarrow> buf @ FormatAny (AFloat64 v)
      | v \<Rightarrow> buf @ FormatAny v)"

definition FormatStringWithTwoIntsAndLabels ::
  "string \<Rightarrow> int \<Rightarrow> string \<Rightarrow> string \<Rightarrow> int \<Rightarrow> string" where
  "FormatStringWithTwoIntsAndLabels label1 a separator label2 b =
     label1 @ fmt_int a @ separator @ label2 @ fmt_int b"

definition FormatTwoInts :: "string \<Rightarrow> int \<Rightarrow> string \<Rightarrow> string \<Rightarrow> int \<Rightarrow> string" where
  "FormatTwoInts label1 a separator label2 b =
     label1 @ fmt_int a @ (if separator \<noteq> [] then separator else []) @ label2 @ fmt_int b"

definition AppendTwoInts :: "bytes \<Rightarrow> string \<Rightarrow> int \<Rightarrow> string \<Rightarrow> string \<Rightarrow> int \<Rightarrow> bytes" where
  "AppendTwoInts buf label1 a sep label2 b =
     (let buf = buf @ label1;
          buf = AppendInt buf a;
          buf = (if sep \<noteq> [] then buf @ sep else buf);
          buf = buf @ label2
      in AppendInt buf b)"

definition FormatTwoIntsSimple :: "string \<Rightarrow> int \<Rightarrow> char \<Rightarrow> int \<Rightarrow> string \<Rightarrow> string" where
  "FormatTwoIntsSimple prefix a separator b suffix =
     prefix @ fmt_int a @ (if separator \<noteq> CHR 0x00 then [separator] else []) @ fmt_int b @
     (if suffix \<noteq> [] then suffix else [])"

definition FormatWithPrefixAndSuffix :: "any_value \<Rightarrow> any_value \<Rightarrow> string \<Rightarrow> string" where
  "FormatWithPrefixAndSuffix prefix value suffix = FormatAny prefix @ FormatAny value @ suffix"

definition AppendWithPrefixAndSuffix :: "bytes \<Rightarrow> string \<Rightarrow> string \<Rightarrow> string \<Rightarrow> bytes" where
  "AppendWithPrefixAndSuffix buf prefix value suffix =
     (let buf = buf @ prefix; buf = buf @ value in buf @ suffix)"

definition FormatTwoAny :: "string \<Rightarrow> any_value \<Rightarrow> string \<Rightarrow> string \<Rightarrow> any_value \<Rightarrow> string" where
  "FormatTwoAny label1 a sep label2 b =
     label1 @ FormatAny a @ (if sep \<noteq> [] then sep else []) @ label2 @ FormatAny b"

definition FormatError :: "int \<Rightarrow> string \<Rightarrow> string" where
  "FormatError code message = ''Error '' @ fmt_int code @ '': '' @ message"

definition FormatErrorMsg :: "string \<Rightarrow> string option \<Rightarrow> string" where
  "FormatErrorMsg message err =
     message @ (case err of None \<Rightarrow> [] | Some e \<Rightarrow> '': '' @ e)"

definition AppendHTTPStatus :: "bytes \<Rightarrow> int \<Rightarrow> string \<Rightarrow> bytes" where
  "AppendHTTPStatus buf code reason =
     (let buf = buf @ ''HTTP/1.1 ''; buf = AppendInt buf code; buf = buf @ '' '';
          buf = buf @ reason
      in buf @ [CHR 0x0D, CHR 0x0A])"

definition AppendHTTPHeader :: "bytes \<Rightarrow> string \<Rightarrow> string \<Rightarrow> bytes" where
  "AppendHTTPHeader buf key value =
     (let buf = buf @ key; buf = buf @ '': ''; buf = buf @ value in buf @ [CHR 0x0D, CHR 0x0A])"

definition FormatIntAndText :: "string \<Rightarrow> char \<Rightarrow> int \<Rightarrow> string \<Rightarrow> string" where
  "FormatIntAndText prefix sep num text =
     (let buf = prefix; buf = buf @ [sep]; buf = AppendInt buf num; buf = buf @ [sep]
      in buf @ text)"

definition AppendIntAndText :: "bytes \<Rightarrow> string \<Rightarrow> char \<Rightarrow> int \<Rightarrow> string \<Rightarrow> bytes" where
  "AppendIntAndText buf prefix sep num text =
     (let buf = buf @ prefix; buf = buf @ [sep]; buf = AppendInt buf num; buf = buf @ [sep]
      in buf @ text)"

text \<open>
  \<open>FormatString\<close> walks the format; \<open>sprint\<close> is \<open>fmt.Sprint\<close>, which only the fallback case of
  the \<open>d\<close> verb reaches. A verb without an argument left prints nothing, an \<open>s\<close> verb whose argument is not a
  string consumes it silently.
\<close>

definition format_d :: "(any_value \<Rightarrow> string) \<Rightarrow> bytes \<Rightarrow> any_value \<Rightarrow> bytes" where
  "format_d sprint buf v = (case v of
       AInt i \<Rightarrow> AppendInt buf i
     | AInt64 i \<Rightarrow> AppendInt buf i
     | AUint i \<Rightarrow> AppendInt buf (wrap_s64 i)
     | _ \<Rightarrow> buf @ sprint v)"

fun format_loop :: "(any_value \<Rightarrow> string) \<Rightarrow> bytes \<Rightarrow> string \<Rightarrow> any_value list \<Rightarrow> bytes" where
  "format_loop sprint buf [] args = buf"
| "format_loop sprint buf [ch] args = buf @ [ch]"
| "format_loop sprint buf (ch # nxt # rest) args =
     (if ch = CHR ''%'' \<and> nxt = CHR ''s'' then
        (case args of
           [] \<Rightarrow> format_loop sprint buf rest []
         | AString s # as \<Rightarrow> format_loop sprint (buf @ s) rest as
         | _ # as \<Rightarrow> format_loop sprint buf rest as)
      else if ch = CHR ''%'' \<and> nxt = CHR ''d'' then
        (case args of
           [] \<Rightarrow> format_loop sprint buf rest []
         | v # as \<Rightarrow> format_loop sprint (format_d sprint buf v) rest as)
      else format_loop sprint (buf @ [ch]) (nxt # rest) args)"

definition FormatString :: "(any_value \<Rightarrow> string) \<Rightarrow> string \<Rightarrow> any_value list \<Rightarrow> string" where
  "FormatString sprint format args = format_loop sprint [] format args"

section \<open>Facts about the cache\<close>

lemma length_intStringCache [simp]: "length intStringCache = 600"
  by (simp add: intStringCache_def cache_size_def)

lemma intStringCache_nth [simp]:
  "0 \<le> v \<Longrightarrow> v < 600 \<Longrightarrow> intStringCache ! nat v = itoa v"
  by (simp add: intStringCache_def cache_size_def nat_less_iff)

lemma AppendInt_eq [simp]: "AppendInt buf v = buf @ itoa v"
  by (simp add: AppendInt_def)

lemma fmt_int_eq [simp]: "fmt_int v = itoa v"
  by (simp add: fmt_int_def FormatInt_def)

lemma FormatIntWithPrefix_eq [simp]: "FormatIntWithPrefix p v = p @ itoa v"
  by (simp add: FormatIntWithPrefix_def)

text \<open>The integer a dynamic value of an integer kind holds.\<close>

fun any_int :: "any_value \<Rightarrow> int option" where
  "any_int (AInt v) = Some v" | "any_int (AInt64 v) = Some v" | "any_int (AInt32 v) = Some v"
| "any_int (AInt16 v) = Some v" | "any_int (AInt8 v) = Some v" | "any_int (AUint v) = Some v"
| "any_int (AUint64 v) = Some v" | "any_int (AUint32 v) = Some v" | "any_int (AUint16 v) = Some v"
| "any_int (AUint8 v) = Some v"
| "any_int _ = None"

lemma FormatAny_int: "any_ok v \<Longrightarrow> any_int v = Some i \<Longrightarrow> FormatAny v = itoa i"
  by (cases v) auto

lemma AppendKeyValueAny_eq: "AppendKeyValueAny buf k v = buf @ FormatKeyValueAny k v"
  by (cases v) (simp_all add: AppendKeyValueAny_def FormatKeyValueAny_def Let_def)

lemma format_d_append: "format_d sp buf v = buf @ format_d sp [] v"
  by (cases v) (simp_all add: format_d_def)

text \<open>The buffer is only ever extended: what is printed does not depend on what it holds.\<close>

lemma format_loop_prefix:
  "format_loop sp buf f args = buf @ format_loop sp [] f args"
proof (induction f arbitrary: buf args rule: induct_list012)
  case (3 ch nxt rest)
  note IH1 = "3.IH"(1) and IH2 = "3.IH"(2)
  consider (s) "ch = CHR ''%''" "nxt = CHR ''s''" | (d) "ch = CHR ''%''" "nxt = CHR ''d''"
    | (c) "\<not> (ch = CHR ''%'' \<and> (nxt = CHR ''s'' \<or> nxt = CHR ''d''))" by blast
  then show ?case
  proof cases
    case s
    show ?thesis
    proof (cases args)
      case Nil
      with s IH1 [of buf "[]"] show ?thesis by simp
    next
      case (Cons a as)
      show ?thesis
      proof (cases a)
        case (AString t)
        with s Cons IH1 [of "buf @ t" as] IH1 [of t as] show ?thesis by simp
      qed (use s Cons IH1 [of buf as] in simp_all)
    qed
  next
    case d
    show ?thesis
    proof (cases args)
      case Nil
      with d IH1 [of buf "[]"] show ?thesis by simp
    next
      case (Cons a as)
      with d IH1 [of "format_d sp buf a" as] IH1 [of "format_d sp [] a" as]
        format_d_append [of sp buf a]
      show ?thesis by simp
    qed
  next
    case c
    with IH2 [of "buf @ [ch]" args] IH2 [of "[ch]" args] show ?thesis by auto
  qed
qed auto

section \<open>Timestamps\<close>

text \<open>
  \<open>pad2\<close> converts through \<open>byte\<close>, so a negative argument wraps. \<open>civil\<close> is the proleptic
  Gregorian date of a day number (1970-01-01 is day 0), as the standard library's \<open>Time.Date\<close>
  computes it for a UTC time; \<open>time.Unix\<close> normalises the seconds by rounding down, while the
  source's own \<open>sec\<close> and \<open>nsec\<close> come from Go's truncating operators.
\<close>

definition pad2 :: "int \<Rightarrow> bytes" where
  "pad2 n = (if n \<ge> 100 then itoa n
             else if n \<ge> 10 then [byte (48 + go_div n 10), byte (48 + go_mod n 10)]
             else [CHR ''0'', byte (48 + n)])"

definition pow10 :: "nat \<Rightarrow> nat" where
  "pow10 n = [1, 10, 100, 1000, 10000, 100000, 1000000, 10000000, 100000000] ! n"

definition civil :: "int \<Rightarrow> int \<times> int \<times> int" where
  "civil days =
     (let z = days + 719468;
          era = z div 146097;
          doe = z mod 146097;
          yoe = (doe - doe div 1460 + doe div 36524 - doe div 146096) div 365;
          doy = doe - (365 * yoe + yoe div 4 - yoe div 100);
          mp = (5 * doy + 2) div 153;
          d = doy - (153 * mp + 2) div 5 + 1;
          m = (if mp < 10 then mp + 3 else mp - 9)
      in (yoe + era * 400 + (if m \<le> 2 then 1 else 0), m, d))"

definition clock :: "int \<Rightarrow> int \<times> int \<times> int" where
  "clock s = (let r = s mod 86400 in (r div 3600, r div 60 mod 60, r mod 60))"

fun nano_loop :: "nat \<Rightarrow> int \<Rightarrow> bytes \<Rightarrow> bytes" where
  "nano_loop 0 ns buf = buf"
| "nano_loop (Suc i) ns buf =
     nano_loop i (ns mod int (pow10 i)) (buf @ [byte (48 + wrap_u8 (ns div int (pow10 i)))])"

definition AppendTimestampNano :: "bytes \<Rightarrow> int \<Rightarrow> bytes" where
  "AppendTimestampNano buf unixNano =
     (let sec = go_div unixNano (1000000000);
          nsec = go_mod unixNano (1000000000);
          t = sec + nsec div 1000000000;
          (year, month, day) = civil (t div 86400);
          (hour, mn, _) = clock t;
          buf = buf @ itoa year @ ''-'' @ pad2 month @ ''-'' @ pad2 day @ ''T'';
          buf = buf @ pad2 hour @ '':'' @ pad2 mn @ '':'' @ pad2 (go_mod sec 60) @ ''.'';
          buf = nano_loop 9 (wrap_u32 nsec) buf
      in buf @ ''Z'')"

definition AppendTimestamp :: "bytes \<Rightarrow> int \<Rightarrow> bytes" where
  "AppendTimestamp buf unixSec =
     (let (year, month, day) = civil (unixSec div 86400);
          (hour, mn, sec) = clock unixSec;
          buf = buf @ itoa year @ ''-'' @ pad2 month @ ''-'' @ pad2 day @ ''T''
      in buf @ pad2 hour @ '':'' @ pad2 mn @ '':'' @ pad2 sec @ ''Z'')"

lemma digit_0: "CHR ''0'' = digit 0"
  by code_simp

lemma byte_digit [simp]: "0 \<le> n \<Longrightarrow> n < 10 \<Longrightarrow> byte (48 + n) = digit (nat n)"
  by (simp add: byte_def wrap_u8_def digit_def nat_add_distrib)

lemma pad2_two_digits:
  assumes "0 \<le> n" and "n < 100"
  shows "pad2 n = [digit (nat (n div 10)), digit (nat (n mod 10))]"
proof (cases "n < 10")
  case True
  with assms show ?thesis by (simp add: pad2_def digit_0)
next
  case False
  with assms have "0 \<le> n div 10" and "n div 10 < 10" and "0 \<le> n mod 10" and "n mod 10 < 10"
    by simp_all
  with False assms show ?thesis by (simp add: pad2_def)
qed

lemma pow10_eq [simp]: "i < 9 \<Longrightarrow> pow10 i = 10 ^ i"
proof -
  assume "i < 9"
  then have "i \<in> {0, 1, 2, 3, 4, 5, 6, 7, 8}" by auto
  then show ?thesis by (elim insertE) (simp_all add: pow10_def)
qed

lemma nano_loop_digits:
  "i \<le> 9 \<Longrightarrow> n < 10 ^ i \<Longrightarrow>
   \<exists>ds. nano_loop i (int n) buf = buf @ ds \<and> length ds = i \<and> (\<forall>c \<in> set ds. is_digit c)
      \<and> (\<forall>acc. dec_val acc ds = acc * 10 ^ i + n)"
proof (induction i arbitrary: n buf)
  case 0
  then show ?case by simp
next
  case (Suc i)
  let ?q = "n div 10 ^ i"
  let ?r = "n mod 10 ^ i"
  have q: "?q < 10" using Suc.prems by (simp add: less_mult_imp_div_less)
  have "?r < 10 ^ i" by simp
  with Suc.IH [of ?r "buf @ [digit ?q]"] Suc.prems
  obtain ds where ds: "nano_loop i (int ?r) (buf @ [digit ?q]) = (buf @ [digit ?q]) @ ds"
      "length ds = i" "\<forall>c \<in> set ds. is_digit c" "\<forall>acc. dec_val acc ds = acc * 10 ^ i + ?r"
    by auto
  have "int n div int (10 ^ i) = int ?q" and "int n mod int (10 ^ i) = int ?r"
    by (simp_all add: zdiv_int zmod_int)
  then have step: "nano_loop (Suc i) (int n) buf = nano_loop i (int ?r) (buf @ [digit ?q])"
    using q Suc.prems by (simp add: wrap_u8_def)
  have split: "n = ?q * 10 ^ i + ?r" by (rule div_mult_mod_eq [symmetric])
  show ?case
  proof (intro exI conjI)
    show "nano_loop (Suc i) (int n) buf = buf @ (digit ?q # ds)"
      using ds(1) step by simp
    show "\<forall>acc. dec_val acc (digit ?q # ds) = acc * 10 ^ Suc i + n"
      using ds(4) q by (subst split) (simp add: algebra_simps)
  qed (use ds q in auto)
qed

section \<open>The format string as a template\<close>

text \<open>
  An abstract format: literal text without a percent sign, and the two verbs. \<open>render\<close> is what
  the formatter promises for it.
\<close>

datatype piece = Lit string | VerbS | VerbD

fun fmt_of :: "piece \<Rightarrow> string" where
  "fmt_of (Lit l) = l"
| "fmt_of VerbS = ''%s''"
| "fmt_of VerbD = ''%d''"

fun piece_ok :: "piece \<Rightarrow> bool" where
  "piece_ok (Lit l) = (CHR ''%'' \<notin> set l)"
| "piece_ok _ = True"

fun render :: "(any_value \<Rightarrow> string) \<Rightarrow> piece list \<Rightarrow> any_value list \<Rightarrow> string" where
  "render sp [] args = []"
| "render sp (Lit l # ps) args = l @ render sp ps args"
| "render sp (VerbS # ps) [] = render sp ps []"
| "render sp (VerbS # ps) (AString s # as) = s @ render sp ps as"
| "render sp (VerbS # ps) (_ # as) = render sp ps as"
| "render sp (VerbD # ps) [] = render sp ps []"
| "render sp (VerbD # ps) (v # as) = format_d sp [] v @ render sp ps as"

lemma format_loop_lit:
  "CHR ''%'' \<notin> set l \<Longrightarrow> format_loop sp buf (l @ rest) args = format_loop sp (buf @ l) rest args"
proof (induction l arbitrary: buf)
  case (Cons c l)
  then have c: "c \<noteq> CHR ''%''" and IH: "\<And>b. format_loop sp b (l @ rest) args = format_loop sp (b @ l) rest args"
    by auto
  from c have "format_loop sp buf (c # (l @ rest)) args = format_loop sp (buf @ [c]) (l @ rest) args"
    by (cases "l @ rest") auto
  then show ?case using IH [of "buf @ [c]"] by simp
qed simp

lemma format_loop_render:
  "list_all piece_ok ps \<Longrightarrow> format_loop sp buf (concat (map fmt_of ps)) args = buf @ render sp ps args"
proof (induction sp ps args arbitrary: buf rule: render.induct)
  case (2 sp l ps args)
  then show ?case by (simp add: format_loop_lit)
next
  case (7 sp ps v as)
  then show ?case by (simp add: format_d_append [of sp buf])
qed auto

section \<open>The hit counter\<close>

definition count_calls :: "int list \<Rightarrow> u64" where
  "count_calls vs = foldl (\<lambda>rate v. snd (FormatInt v rate)) 0 vs"

abbreviation cached :: "int \<Rightarrow> bool" where
  "cached v \<equiv> 0 \<le> v \<and> v < 600"

lemma count_calls_packed:
  "count_calls vs = of_nat (length (filter cached vs) * 2 ^ 32 + length vs)"
proof (induction vs rule: rev_induct)
  case Nil
  then show ?case by (simp add: count_calls_def)
next
  case (snoc v vs)
  have "push_bit 32 1 OR (1 :: u64) = of_nat (2 ^ 32 + 1)" by simp
  with snoc show ?case
    by (auto simp: count_calls_def FormatInt_def algebra_simps)
qed

lemma getCacheStats_of_nat:
  "getCacheStats (of_nat m) = (of_nat (m div 2 ^ 32), of_nat m)"
proof -
  have "ucast (drop_bit 32 (of_nat m :: u64)) = (of_nat (drop_bit 32 m) :: 32 word)"
    by (rule bit_word_eqI) (auto simp: bit_simps)
  moreover have "ucast (of_nat m :: u64) = (of_nat m :: 32 word)"
    by (rule bit_word_eqI) (auto simp: bit_simps)
  ultimately show ?thesis by (simp add: getCacheStats_def drop_bit_eq_div)
qed

lemma nano_loop_buf: "nano_loop i ns buf = buf @ nano_loop i ns []"
proof (induction i arbitrary: ns buf)
  case (Suc i)
  from Suc [of "ns mod int (pow10 i)" "buf @ [c]" for c] Suc [of "ns mod int (pow10 i)" "[c]" for c]
  show ?case by simp
qed simp

lemma nano_loop_numeral:
  "nano_loop (numeral k) ns buf =
     nano_loop (pred_numeral k) (ns mod int (pow10 (pred_numeral k)))
       (buf @ [byte (48 + wrap_u8 (ns div int (pow10 (pred_numeral k))))])"
  by (simp add: numeral_eq_Suc)

lemma byte_codes:
  "byte 90 = CHR ''Z''" "byte 50 = CHR ''2''" "byte 52 = CHR ''4''" "byte 53 = CHR ''5''"
  "byte 54 = CHR ''6''" "byte 55 = CHR ''7''" "byte 57 = CHR ''9''"
  by code_simp+

section \<open>Properties\<close>

text \<open>
  The formatter prints every value of an integer kind, through the 600-entry cache or not, so
  that parsing the text gives the integer back; the appending key-value printer writes the same
  text after the key and an equals sign.
\<close>

theorem FormatAny_parses_back:
  assumes "any_ok v" and "any_int v = Some i"
  shows "atoi (FormatAny v) = i \<and> AppendKeyValueAny buf k v = buf @ k @ ''='' @ itoa i"
  using FormatAny_int [OF assms] by (simp add: AppendKeyValueAny_eq FormatKeyValueAny_def)

theorem FormatAny_parses_back_witness:
  "any_ok (AUint16 404) \<and> atoi (FormatAny (AUint16 404)) = 404"
  using FormatAny_parses_back [of "AUint16 404" 404 "[]" "[]"] by simp

text \<open>
  On a format made of percent-free text and the two verbs, the byte loop of FormatString
  renders exactly the template: a string verb consumes one argument and prints it if it is a
  string, an integer verb prints its argument, and a verb without an argument prints nothing.
\<close>

theorem FormatString_renders_template:
  assumes "list_all piece_ok ps"
  shows "FormatString sprint (concat (map fmt_of ps)) args = render sprint ps args"
  using format_loop_render [OF assms, of sprint "[]" args] by (simp add: FormatString_def)

theorem FormatString_renders_template_witness:
  "list_all piece_ok [Lit ''user '', VerbS, Lit ''='', VerbD]
   \<and> FormatString FormatAny ''user %s=%d'' [AString ''bob'', AInt 7] = ''user bob='' @ itoa 7"
  using FormatString_renders_template [of "[Lit ''user '', VerbS, Lit ''='', VerbD]" FormatAny
      "[AString ''bob'', AInt 7]"]
  by (simp add: format_d_def)

text \<open>
  After any sequence of FormatInt calls the packed counter reads back the number of calls
  modulo \<open>2 ^ 32\<close>, and the number of cache hits plus one for every \<open>2 ^ 32\<close> calls: the low half
  carries into the high half, so the two halves are exact only below that many calls.
\<close>

theorem cache_stats_after_calls:
  "getCacheStats (count_calls vs) =
     (of_nat (length (filter cached vs) + length vs div 2 ^ 32), of_nat (length vs))"
proof -
  let ?h = "length (filter cached vs)" and ?n = "length vs"
  have d: "(?h * 2 ^ 32 + ?n) div 2 ^ 32 = ?h + ?n div 2 ^ 32" by simp
  have "(of_nat (?h * 2 ^ 32 + ?n) :: 32 word) = of_nat ?n"
    unfolding word_of_nat_eq_iff by (simp add: take_bit_eq_mod)
  then show ?thesis unfolding count_calls_packed getCacheStats_of_nat d by simp
qed

text \<open>
  For a time at or after the epoch, the nanosecond printer ends with the two-digit second, a
  point, nine digits whose value is the sub-second part, and a Z.
\<close>

theorem AppendTimestampNano_fraction:
  assumes "0 \<le> u"
  shows "\<exists>pre ds. AppendTimestampNano buf u = buf @ pre @ pad2 (u div 1000000000 mod 60) @ ''.'' @ ds @ ''Z''
       \<and> length (pad2 (u div 1000000000 mod 60)) = 2
       \<and> length ds = 9 \<and> (\<forall>c \<in> set ds. is_digit c) \<and> int (dec_val 0 ds) = u mod 1000000000"
proof -
  let ?n = "nat (u mod 1000000000)"
  obtain y m d where c: "civil ((u div 1000000000) div 86400) = (y, m, d)"
    by (cases "civil ((u div 1000000000) div 86400)") auto
  obtain h mn sc where k: "clock (u div 1000000000) = (h, mn, sc)"
    by (cases "clock (u div 1000000000)") auto
  let ?pre = "itoa y @ ''-'' @ pad2 m @ ''-'' @ pad2 d @ ''T'' @ pad2 h @ '':'' @ pad2 mn @ '':''"
  have sec: "go_div u (1000000000) = u div 1000000000" and nsec: "go_mod u (1000000000) = int ?n"
    and sec60: "go_mod (u div 1000000000) 60 = u div 1000000000 mod 60"
    using assms by (simp_all add: pos_imp_zdiv_nonneg_iff)
  have n: "?n < 1000000000" by (simp add: nat_less_iff)
  then have small: "int ?n div 1000000000 = 0" by simp
  have "u mod 1000000000 < 2 ^ 32"
    by (rule less_trans [OF pos_mod_bound]) simp_all
  then have u32: "wrap_u32 (u mod 1000000000) = u mod 1000000000"
    by (simp add: wrap_u32_def)
  from nano_loop_digits [of 9 ?n "buf @ ?pre @ pad2 (u div 1000000000 mod 60) @ ''.''"] n
  obtain ds where ds: "nano_loop 9 (int ?n) (buf @ ?pre @ pad2 (u div 1000000000 mod 60) @ ''.'')
        = (buf @ ?pre @ pad2 (u div 1000000000 mod 60) @ ''.'') @ ds"
      "length ds = 9" "\<forall>c \<in> set ds. is_digit c" "dec_val 0 ds = ?n"
    by auto
  have "AppendTimestampNano buf u = buf @ ?pre @ pad2 (u div 1000000000 mod 60) @ ''.'' @ ds @ ''Z''"
    using ds(1) by (simp add: AppendTimestampNano_def Let_def sec nsec sec60 small u32 c k del: nano_loop.simps)
  moreover have "length (pad2 (u div 1000000000 mod 60)) = 2"
    using pad2_two_digits [of "u div 1000000000 mod 60"] by simp
  ultimately show ?thesis using ds(2-4) by (intro exI [of _ ?pre] exI [of _ ds]) simp
qed

theorem AppendTimestampNano_fraction_witness:
  "\<exists>pre ds. AppendTimestampNano [] 1500000000 = [] @ pre @ pad2 (1500000000 div 1000000000 mod 60) @ ''.'' @ ds @ ''Z''
       \<and> length (pad2 (1500000000 div 1000000000 mod 60)) = 2
       \<and> length ds = 9 \<and> (\<forall>c \<in> set ds. is_digit c) \<and> int (dec_val 0 ds) = 1500000000 mod 1000000000"
  by (rule AppendTimestampNano_fraction) simp

text \<open>
  One nanosecond before the epoch the truncated remainder is negative, its conversion to an
  unsigned number is huge, and the printed fraction starts with a letter: the output is not a
  timestamp.
\<close>

theorem AppendTimestampNano_before_epoch: "AppendTimestampNano [] (-1) = ''1969-12-31T23:59:00.Z94967295Z''"
proof -
  have "go_div (-1) 1000000000 = 0" "go_mod (-1) 1000000000 = -1"
    "(-1 :: int) div 1000000000 = -1" "(-1 :: int) div 86400 = -1" "go_mod 0 60 = 0"
    by code_simp+
  moreover have "civil (-1) = (1969, 12, 31)" "clock (-1) = (23, 59, 59)" by code_simp+
  moreover have "itoa 1969 = ''1969''" "pad2 12 = ''12''" "pad2 31 = ''31''" "pad2 23 = ''23''"
    "pad2 59 = ''59''" "pad2 0 = ''00''" "wrap_u32 (-1) = 4294967295" by code_simp+
  moreover have "nano_loop 9 4294967295 [] = ''Z94967295''"
    by (simp add: nano_loop_numeral wrap_u8_def byte_codes)
  ultimately show ?thesis
    unfolding AppendTimestampNano_def Let_def by (subst nano_loop_buf) simp
qed


end
