(* ===== verification/Bit_Fields.thy ===== *)
theory Bit_Fields
  imports Halo_Prelude
begin

text \<open>
  Numbers read as sequences of fixed-width fields: the generic facts behind the SWAR routines of
  the source (the popcount of \<^verbatim>\<open>fielddict/bitvector.go\<close> and the escape scan of
  \<^verbatim>\<open>adapters/formatters/json/formatter.go\<close>). \<open>pack k fs\<close> is the number whose k-bit fields, least
  significant first, are \<open>fs\<close>.
\<close>

fun pack :: "nat \<Rightarrow> nat list \<Rightarrow> nat" where
  "pack k [] = 0"
| "pack k (f # fs) = f + 2 ^ k * pack k fs"

lemma pack_bound: "\<forall>f \<in> set fs. f < 2 ^ k \<Longrightarrow> pack k fs < 2 ^ (k * length fs)"
proof (induction fs)
  case (Cons f fs)
  then have f: "f < 2 ^ k" and r: "Suc (pack k fs) \<le> 2 ^ (k * length fs)" by auto
  have "f + 2 ^ k * pack k fs < 2 ^ k * Suc (pack k fs)" using f by simp
  also have "\<dots> \<le> 2 ^ k * 2 ^ (k * length fs)" using r by (intro mult_le_mono2)
  finally show ?case by (simp add: power_add)
qed simp

lemma bit_field_add:
  assumes "(a :: nat) < 2 ^ k"
  shows "bit (a + 2 ^ k * x) n = (if n < k then bit a n else bit x (n - k))"
proof (cases "n < k")
  case True
  have "take_bit k (a + 2 ^ k * x) = a" using assms by (simp add: take_bit_eq_mod)
  moreover have "bit (take_bit k (a + 2 ^ k * x)) n = bit (a + 2 ^ k * x) n"
    using True by (simp add: bit_take_bit_iff)
  ultimately show ?thesis using True by simp
next
  case False
  then obtain m where n: "n = k + m" by (metis le_Suc_ex not_less)
  have "drop_bit k (a + 2 ^ k * x) = x" using assms by (simp add: drop_bit_eq_div)
  then have "bit x m = bit (a + 2 ^ k * x) (k + m)" by (metis bit_drop_bit_eq comp_apply)
  with n show ?thesis by simp
qed

lemma and_field_add:
  assumes "(a :: nat) < 2 ^ k" and "b < 2 ^ k"
  shows "(a + 2 ^ k * x) AND (b + 2 ^ k * y) = (a AND b) + 2 ^ k * (x AND y)"
proof -
  have "take_bit k (a AND b) = a AND b"
    using assms by (simp add: take_bit_and take_bit_nat_eq_self)
  then have "a AND b < 2 ^ k" by (metis take_bit_nat_less_exp)
  with assms show ?thesis
    by (intro bit_eqI) (simp add: bit_and_iff bit_field_add)
qed

lemma drop_bit_field_add: "(a :: nat) < 2 ^ k \<Longrightarrow> drop_bit k (a + 2 ^ k * x) = x"
  by (simp add: drop_bit_eq_div)

lemma bit_u64_less: "bit (w :: u64) n \<Longrightarrow> n < 64"
  using bit_imp_le_length [of w n] by simp

section \<open>Summing neighbouring fields\<close>

text \<open>\<open>alt k n\<close> is the mask that keeps every second field; \<open>halve\<close> adds the fields in pairs.\<close>

fun alt :: "nat \<Rightarrow> nat \<Rightarrow> nat list" where
  "alt k 0 = []"
| "alt k (Suc n) = (2 ^ k - 1) # 0 # alt k n"

fun halve :: "nat list \<Rightarrow> nat list" where
  "halve (a # b # r) = (a + b) # halve r"
| "halve r = r"

lemma sum_list_halve [simp]: "sum_list (halve fs) = sum_list fs"
  by (induction fs rule: halve.induct) auto

lemma length_halve [simp]: "length fs = 2 * n \<Longrightarrow> length (halve fs) = n"
  by (induction fs arbitrary: n rule: halve.induct) (auto, case_tac n, auto)

lemma halve_bound: "length fs = 2 * n \<Longrightarrow> \<forall>f \<in> set fs. f \<le> k \<Longrightarrow> \<forall>f \<in> set (halve fs). f \<le> 2 * k"
  by (induction fs arbitrary: n rule: halve.induct) (auto, (case_tac n; force)+)

lemma and_mask_nat: "(a :: nat) < 2 ^ k \<Longrightarrow> a AND (2 ^ k - Suc 0) = a"
  using take_bit_eq_mask [of k a] take_bit_nat_eq_self [of a k] by (simp add: mask_eq_exp_minus_1)

lemma pack_halve:
  assumes "length fs = 2 * n" and "\<forall>f \<in> set fs. f < 2 ^ k"
  shows "(pack k fs AND pack k (alt k n)) + (drop_bit k (pack k fs) AND pack k (alt k n))
       = pack (2 * k) (halve fs)"
  using assms
proof (induction n arbitrary: fs)
  case (Suc n)
  then obtain a b r where fs: "fs = a # b # r" and r: "length r = 2 * n" "\<forall>f \<in> set r. f < 2 ^ k"
    and ab: "a < 2 ^ k" "b < 2 ^ k"
    by (cases fs; cases "tl fs") auto
  let ?P = "pack k r" and ?M = "pack k (alt k n)"
  have m: "2 ^ k - 1 < (2 :: nat) ^ k" by simp
  have split: "?P = ?P mod 2 ^ k + 2 ^ k * drop_bit k ?P"
    by (simp add: drop_bit_eq_div)
  have one: "pack k fs AND pack k (alt k (Suc n)) = a + 2 ^ (2 * k) * (?P AND ?M)"
    using and_field_add [of a k "2 ^ k - 1" "b + 2 ^ k * ?P" "0 + 2 ^ k * ?M"]
      and_field_add [of b k 0 ?P ?M] ab m
    by (simp add: fs and_mask_nat power_add mult_2)
  have "?P AND (0 + 2 ^ k * ?M) = 2 ^ k * (drop_bit k ?P AND ?M)"
    using and_field_add [of "?P mod 2 ^ k" k 0 "drop_bit k ?P" ?M] split by simp
  then have two: "drop_bit k (pack k fs) AND pack k (alt k (Suc n))
      = b + 2 ^ (2 * k) * (drop_bit k ?P AND ?M)"
    using and_field_add [of b k "2 ^ k - 1" ?P "0 + 2 ^ k * ?M"] ab m
    by (simp add: fs drop_bit_field_add and_mask_nat power_add mult_2)
  have "pack (2 * k) (halve fs) = a + b + 2 ^ (2 * k) * pack (2 * k) (halve r)"
    by (simp add: fs)
  then show ?case unfolding one two Suc.IH [OF r, symmetric] by (simp add: distrib_left)
qed simp

section \<open>Words as fields\<close>

lemma pack_bits: "pack 1 (map of_bool bs) = horner_sum of_bool 2 bs"
  by (induction bs) auto

definition word_bits :: "u64 \<Rightarrow> nat list" where
  "word_bits x = map (\<lambda>i. of_bool (bit x i)) [0..<64]"

lemma unat_word_bits: "unat x = pack 1 (word_bits x)"
proof -
  have "horner_sum of_bool 2 (map (bit (unat x)) [0..<64]) = take_bit 64 (unat x)"
    by (rule horner_sum_bit_eq_take_bit)
  also have "\<dots> = unat x"
    by (intro take_bit_nat_eq_self) (use unsigned_less [of x, where 'a = nat] in simp)
  finally have "unat x = horner_sum of_bool 2 (map (bit (unat x)) [0..<64])" by simp
  moreover have "map (bit (unat x)) [0..<64] = map (bit x) [0..<64]"
    by (simp add: bit_unsigned_iff)
  ultimately show ?thesis
    by (simp add: word_bits_def pack_bits [symmetric] comp_def del: upt_rec_numeral)
qed

text \<open>One step of the word-level sum: the step keeps the sum of the fields.\<close>

lemma word_halve:
  fixes x m :: u64
  assumes x: "unat x = pack k fs" and fs: "length fs = 2 * n" "\<forall>f \<in> set fs. f \<le> k"
    and k: "0 < k" "k * length fs = 64" and m: "unat m = pack k (alt k n)"
  shows "unat ((x AND m) + (drop_bit k x AND m)) = pack (2 * k) (halve fs)"
proof -
  have k2: "j < (2 :: nat) ^ j" for j by (rule less_exp)
  have lt: "\<forall>f \<in> set fs. f < 2 ^ k" using fs(2) k2 [of k] by (meson le_less_trans)
  have "\<forall>f \<in> set (halve fs). f < 2 ^ (2 * k)"
    using halve_bound [OF fs] k2 [of "2 * k"] by (meson le_less_trans)
  then have "pack (2 * k) (halve fs) < 2 ^ (2 * k * length (halve fs))" by (rule pack_bound)
  also have "2 * k * length (halve fs) = 64" using fs(1) k(2) by simp
  finally have b: "pack (2 * k) (halve fs) < 2 ^ 64" .
  have "unat (x AND m) + unat (drop_bit k x AND m) = pack (2 * k) (halve fs)"
    using pack_halve [OF fs(1) lt] x m by (simp add: unsigned_and_eq unat_drop_bit_eq)
  with b show ?thesis by (simp add: unat_word_ariths)
qed

end
