(* ===== verification/Bit_Vector.thy ===== *)
theory Bit_Vector
  imports Bit_Fields
begin

text \<open>
  \<^verbatim>\<open>fielddict/bitvector.go\<close>: a fixed-size bit vector over 64-bit words with its SWAR popcount.
  The abstraction is the set of positions whose bit reads true; every operation holds the vector's
  mutex for its whole body, so each is one atomic step.
\<close>

record bit_vector =
  bv_bits :: "u64 list"
  bv_size :: int

text \<open>\<open>make\<close> panics on a negative length: \<open>None\<close>.\<close>

definition NewBitVector :: "int \<Rightarrow> bit_vector option" where
  "NewBitVector sz =
     (let n = go_div (sz + 63) 64 in
      if n < 0 then None else Some \<lparr>bv_bits = replicate (nat n) 0, bv_size = sz\<rparr>)"

definition bv_Set :: "bit_vector \<Rightarrow> int \<Rightarrow> bit_vector" where
  "bv_Set bv pos =
     (if 0 \<le> pos \<and> pos < bv_size bv then
        let i = nat (pos div 64) in
        bv\<lparr>bv_bits := (bv_bits bv)[i := bv_bits bv ! i OR push_bit (nat (pos mod 64)) 1]\<rparr>
      else bv)"

definition bv_Get :: "bit_vector \<Rightarrow> int \<Rightarrow> bool" where
  "bv_Get bv pos =
     (if 0 \<le> pos \<and> pos < bv_size bv then
        bv_bits bv ! nat (pos div 64) AND push_bit (nat (pos mod 64)) 1 \<noteq> 0
      else False)"

definition bv_Clear :: "bit_vector \<Rightarrow> int \<Rightarrow> bit_vector" where
  "bv_Clear bv pos =
     (if 0 \<le> pos \<and> pos < bv_size bv then
        let i = nat (pos div 64) in
        bv\<lparr>bv_bits := (bv_bits bv)[i := bv_bits bv ! i AND NOT (push_bit (nat (pos mod 64)) 1)]\<rparr>
      else bv)"

definition bv_Size :: "bit_vector \<Rightarrow> int" where
  "bv_Size bv = bv_size bv"

definition popcount :: "u64 \<Rightarrow> nat" where
  "popcount x =
     (let x = (x AND 0x5555555555555555) + (drop_bit 1 x AND 0x5555555555555555);
          x = (x AND 0x3333333333333333) + (drop_bit 2 x AND 0x3333333333333333);
          x = (x AND 0x0F0F0F0F0F0F0F0F) + (drop_bit 4 x AND 0x0F0F0F0F0F0F0F0F);
          x = (x AND 0x00FF00FF00FF00FF) + (drop_bit 8 x AND 0x00FF00FF00FF00FF);
          x = (x AND 0x0000FFFF0000FFFF) + (drop_bit 16 x AND 0x0000FFFF0000FFFF);
          x = (x AND 0x00000000FFFFFFFF) + (drop_bit 32 x AND 0x00000000FFFFFFFF)
      in unat x)"

definition bv_Count :: "bit_vector \<Rightarrow> nat" where
  "bv_Count bv = foldl (\<lambda>count word. count + popcount word) 0 (bv_bits bv)"

section \<open>The popcount counts\<close>

lemma alt_numeral [simp]:
  "alt k (numeral n) = (2 ^ k - 1) # 0 # alt k (pred_numeral n)"
  by (simp add: numeral_eq_Suc)

lemma masks:
  "unat (0x5555555555555555 :: u64) = pack 1 (alt 1 32)"
  "unat (0x3333333333333333 :: u64) = pack 2 (alt 2 16)"
  "unat (0x0F0F0F0F0F0F0F0F :: u64) = pack 4 (alt 4 8)"
  "unat (0x00FF00FF00FF00FF :: u64) = pack 8 (alt 8 4)"
  "unat (0x0000FFFF0000FFFF :: u64) = pack 16 (alt 16 2)"
  "unat (0x00000000FFFFFFFF :: u64) = pack 32 (alt 32 1)"
  by simp_all

definition bit_count :: "u64 \<Rightarrow> nat" where
  "bit_count x = card {n. n < 64 \<and> bit x n}"

lemma sum_word_bits: "sum_list (word_bits x) = bit_count x"
proof -
  have "sum_list (word_bits x) = (\<Sum>i \<in> {0..<64}. of_bool (bit x i))"
    by (simp add: word_bits_def sum.list_conv_set_nth interv_sum_list_conv_sum_set_nat
        atLeastLessThan_upt[symmetric] del: upt_rec_numeral)
  also have "\<dots> = card ({0..<64} \<inter> {i. bit x i})" by (simp add: sum_of_bool_eq)
  also have "{0..<64} \<inter> {i. bit x i} = {n. n < 64 \<and> bit x n}" by auto
  finally show ?thesis by (simp add: bit_count_def)
qed

text \<open>A level of the tree of sums: the word holds \<open>2 * n\<close> fields of \<open>k\<close> bits, each at most \<open>k\<close>.\<close>

definition level :: "nat \<Rightarrow> nat \<Rightarrow> nat \<Rightarrow> u64 \<Rightarrow> bool" where
  "level s k n x \<longleftrightarrow>
     (\<exists>fs. unat x = pack k fs \<and> length fs = n \<and> (\<forall>f \<in> set fs. f \<le> k) \<and> sum_list fs = s)"

lemma level_step:
  assumes "level s k (2 * n) x" and "0 < k" and "k * (2 * n) = 64"
    and "unat m = pack k (alt k n)"
  shows "level s (2 * k) n ((x AND m) + (drop_bit k x AND m))"
proof -
  from assms(1) obtain fs where fs: "unat x = pack k fs" "length fs = 2 * n"
      "\<forall>f \<in> set fs. f \<le> k" "sum_list fs = s"
    by (auto simp: level_def)
  have "unat ((x AND m) + (drop_bit k x AND m)) = pack (2 * k) (halve fs)"
    by (rule word_halve) (use assms fs in auto)
  with fs halve_bound [OF fs(2,3)] show ?thesis unfolding level_def
    by (intro exI [of _ "halve fs"]) simp
qed

lemma level_start: "level (bit_count x) 1 64 x"
  unfolding level_def
  by (intro exI [of _ "word_bits x"]) (auto simp: unat_word_bits sum_word_bits, auto simp: word_bits_def)

lemma popcount_eq: "popcount x = bit_count x"
proof -
  let ?c = "bit_count x"
  let ?x1 = "(x AND 0x5555555555555555) + (drop_bit 1 x AND 0x5555555555555555)"
  let ?x2 = "(?x1 AND 0x3333333333333333) + (drop_bit 2 ?x1 AND 0x3333333333333333)"
  let ?x3 = "(?x2 AND 0x0F0F0F0F0F0F0F0F) + (drop_bit 4 ?x2 AND 0x0F0F0F0F0F0F0F0F)"
  let ?x4 = "(?x3 AND 0x00FF00FF00FF00FF) + (drop_bit 8 ?x3 AND 0x00FF00FF00FF00FF)"
  let ?x5 = "(?x4 AND 0x0000FFFF0000FFFF) + (drop_bit 16 ?x4 AND 0x0000FFFF0000FFFF)"
  let ?x6 = "(?x5 AND 0x00000000FFFFFFFF) + (drop_bit 32 ?x5 AND 0x00000000FFFFFFFF)"
  have "level ?c 2 32 ?x1"
    using level_step [of ?c 1 32 x "0x5555555555555555"] level_start [of x] masks(1) by simp
  then have "level ?c 4 16 ?x2"
    using level_step [of ?c 2 16 ?x1 "0x3333333333333333"] masks(2) by simp
  then have "level ?c 8 8 ?x3"
    using level_step [of ?c 4 8 ?x2 "0x0F0F0F0F0F0F0F0F"] masks(3) by simp
  then have "level ?c 16 4 ?x4"
    using level_step [of ?c 8 4 ?x3 "0x00FF00FF00FF00FF"] masks(4) by simp
  then have "level ?c 32 2 ?x5"
    using level_step [of ?c 16 2 ?x4 "0x0000FFFF0000FFFF"] masks(5) by simp
  then have "level ?c 64 1 ?x6"
    using level_step [of ?c 32 1 ?x5 "0x00000000FFFFFFFF"] masks(6) by simp
  then have "unat ?x6 = ?c"
    by (auto simp: level_def length_Suc_conv)
  then show ?thesis by (simp only: popcount_def Let_def)
qed


section \<open>The vector as a set of positions\<close>

definition word_count :: "int \<Rightarrow> nat" where
  "word_count sz = nat ((sz + 63) div 64)"

definition raw_bit :: "bit_vector \<Rightarrow> nat \<Rightarrow> bool" where
  "raw_bit bv p \<longleftrightarrow> bit (bv_bits bv ! (p div 64)) (p mod 64)"

text \<open>The invariant: the words cover the size, and no bit past the size is set.\<close>

definition bv_ok :: "bit_vector \<Rightarrow> bool" where
  "bv_ok bv \<longleftrightarrow> 0 \<le> bv_size bv \<and> length (bv_bits bv) = word_count (bv_size bv)
     \<and> list_all (\<lambda>p. \<not> raw_bit bv p) [nat (bv_size bv)..<64 * length (bv_bits bv)]"

definition bv_set :: "bit_vector \<Rightarrow> int set" where
  "bv_set bv = {p. bv_Get bv p}"

lemma and_single_bit: "(w :: u64) AND 2 ^ i \<noteq> 0 \<longleftrightarrow> bit w i"
  using bit_iff_and_push_bit_not_eq_0 [of w i] by simp

lemma nat_div_mod_64:
  "0 \<le> p \<Longrightarrow> nat (p div 64) = nat p div 64 \<and> nat (p mod 64) = nat p mod 64"
  by (simp add: nat_div_distrib nat_mod_distrib)

lemma bv_Get_raw: "bv_Get bv p \<longleftrightarrow> 0 \<le> p \<and> p < bv_size bv \<and> raw_bit bv (nat p)"
  by (auto simp: bv_Get_def and_single_bit raw_bit_def nat_div_mod_64)

lemma word_index: "0 \<le> p \<Longrightarrow> p < sz \<Longrightarrow> nat p div 64 < word_count sz"
  by (simp add: word_count_def)

lemma raw_bit_update:
  assumes "i div 64 < length (bv_bits bv)"
  shows "raw_bit (bv\<lparr>bv_bits := (bv_bits bv)[i div 64 := bv_bits bv ! (i div 64) OR push_bit (i mod 64) 1]\<rparr>) p
           \<longleftrightarrow> p = i \<or> raw_bit bv p"
    and "raw_bit (bv\<lparr>bv_bits := (bv_bits bv)[i div 64 := bv_bits bv ! (i div 64) AND NOT (push_bit (i mod 64) 1)]\<rparr>) p
           \<longleftrightarrow> p \<noteq> i \<and> raw_bit bv p"
proof -
  have pi: "p = i \<longleftrightarrow> p div 64 = i div 64 \<and> p mod 64 = i mod 64"
    by (metis div_mult_mod_eq)
  have lt: "p mod 64 < 64" by simp
  show "raw_bit (bv\<lparr>bv_bits := (bv_bits bv)[i div 64 := bv_bits bv ! (i div 64) OR push_bit (i mod 64) 1]\<rparr>) p
           \<longleftrightarrow> p = i \<or> raw_bit bv p"
    using assms lt by (auto simp: raw_bit_def pi bit_simps nth_list_update)
  show "raw_bit (bv\<lparr>bv_bits := (bv_bits bv)[i div 64 := bv_bits bv ! (i div 64) AND NOT (push_bit (i mod 64) 1)]\<rparr>) p
           \<longleftrightarrow> p \<noteq> i \<and> raw_bit bv p"
    using assms lt by (auto simp: raw_bit_def pi bit_simps nth_list_update)
qed

lemma bv_ok_New: "NewBitVector sz = Some bv \<Longrightarrow> 0 \<le> sz \<Longrightarrow> bv_ok bv \<and> bv_set bv = {}"
  by (auto simp: NewBitVector_def Let_def bv_ok_def bv_set_def bv_Get_raw raw_bit_def word_count_def
      list_all_iff div_less_iff_less_mult split: if_splits)

lemma bv_Set_eq:
  "0 \<le> p \<Longrightarrow> p < bv_size bv \<Longrightarrow> bv_Set bv p =
     bv\<lparr>bv_bits := (bv_bits bv)[nat p div 64 := bv_bits bv ! (nat p div 64) OR push_bit (nat p mod 64) 1]\<rparr>"
  by (simp add: bv_Set_def nat_div_mod_64 Let_def)

lemma bv_Clear_eq:
  "0 \<le> p \<Longrightarrow> p < bv_size bv \<Longrightarrow> bv_Clear bv p =
     bv\<lparr>bv_bits := (bv_bits bv)[nat p div 64 := bv_bits bv ! (nat p div 64) AND NOT (push_bit (nat p mod 64) 1)]\<rparr>"
  by (simp add: bv_Clear_def nat_div_mod_64 Let_def)

lemma bv_Set_raw:
  assumes "bv_ok bv" and "0 \<le> p" and "p < bv_size bv"
  shows "raw_bit (bv_Set bv p) q \<longleftrightarrow> q = nat p \<or> raw_bit bv q"
    and "raw_bit (bv_Clear bv p) q \<longleftrightarrow> q \<noteq> nat p \<and> raw_bit bv q"
proof -
  have "nat p div 64 < length (bv_bits bv)"
    using assms word_index [of p "bv_size bv"] by (simp add: bv_ok_def)
  note up = raw_bit_update [OF this, of q]
  show "raw_bit (bv_Set bv p) q \<longleftrightarrow> q = nat p \<or> raw_bit bv q"
    using up(1) assms by (simp only: bv_Set_eq)
  show "raw_bit (bv_Clear bv p) q \<longleftrightarrow> q \<noteq> nat p \<and> raw_bit bv q"
    using up(2) assms by (simp only: bv_Clear_eq)
qed

lemma bv_frame [simp]:
  "bv_size (bv_Set bv p) = bv_size bv" "bv_size (bv_Clear bv p) = bv_size bv"
  "length (bv_bits (bv_Set bv p)) = length (bv_bits bv)"
  "length (bv_bits (bv_Clear bv p)) = length (bv_bits bv)"
  by (simp_all add: bv_Set_def bv_Clear_def Let_def)

lemma bv_ok_ops [halo_inv]:
  assumes "bv_ok bv"
  shows "bv_ok (bv_Set bv p)" and "bv_ok (bv_Clear bv p)"
proof -
  have out: "\<not> (0 \<le> p \<and> p < bv_size bv) \<Longrightarrow> bv_Set bv p = bv \<and> bv_Clear bv p = bv"
    by (auto simp: bv_Set_def bv_Clear_def)
  show "bv_ok (bv_Set bv p)" and "bv_ok (bv_Clear bv p)"
    using assms out bv_Set_raw [OF assms, of p]
    by (cases "0 \<le> p \<and> p < bv_size bv"; auto simp: bv_ok_def list_all_iff)+
qed

lemma bv_out: "\<not> (0 \<le> p \<and> p < bv_size bv) \<Longrightarrow> bv_Set bv p = bv"
  "\<not> (0 \<le> p \<and> p < bv_size bv) \<Longrightarrow> bv_Clear bv p = bv"
  by (auto simp: bv_Set_def bv_Clear_def)

lemma bv_set_ops:
  assumes "bv_ok bv"
  shows "bv_set (bv_Set bv p) = (if 0 \<le> p \<and> p < bv_size bv then insert p (bv_set bv) else bv_set bv)"
    and "bv_set (bv_Clear bv p) = bv_set bv - {p}"
proof -
  consider (inside) "0 \<le> p" "p < bv_size bv" | (outside) "\<not> (0 \<le> p \<and> p < bv_size bv)" by blast
  then have "bv_set (bv_Set bv p) = (if 0 \<le> p \<and> p < bv_size bv then insert p (bv_set bv) else bv_set bv)
      \<and> bv_set (bv_Clear bv p) = bv_set bv - {p}"
  proof cases
    case inside
    with bv_Set_raw [OF assms, of p] show ?thesis by (auto simp: bv_set_def bv_Get_raw)
  next
    case outside
    then show ?thesis by (subst bv_out, assumption)+ (auto simp: bv_set_def bv_Get_raw)
  qed
  then show "bv_set (bv_Set bv p) = (if 0 \<le> p \<and> p < bv_size bv then insert p (bv_set bv) else bv_set bv)"
    and "bv_set (bv_Clear bv p) = bv_set bv - {p}" by blast+
qed

section \<open>Counting\<close>

definition raw_set :: "u64 list \<Rightarrow> nat set" where
  "raw_set ws = {p. p < 64 * length ws \<and> bit (ws ! (p div 64)) (p mod 64)}"

lemma raw_set_snoc:
  "raw_set (ws @ [w]) = raw_set ws \<union> (\<lambda>n. 64 * length ws + n) ` {n. n < 64 \<and> bit w n}"
proof (intro set_eqI iffI)
  fix p assume p: "p \<in> raw_set (ws @ [w])"
  show "p \<in> raw_set ws \<union> (\<lambda>n. 64 * length ws + n) ` {n. n < 64 \<and> bit w n}"
  proof (cases "p < 64 * length ws")
    case True
    with p show ?thesis by (simp add: raw_set_def nth_append div_less_iff_less_mult mult.commute)
  next
    case False
    then obtain n where n: "p = 64 * length ws + n" by (metis le_Suc_ex not_less)
    with p have "n < 64" by (simp add: raw_set_def)
    with p n show ?thesis by (simp add: raw_set_def nth_append)
  qed
qed (auto simp: raw_set_def nth_append div_less_iff_less_mult mult.commute)

lemma finite_raw_set [simp]: "finite (raw_set ws)"
  by (simp add: raw_set_def)

lemma card_raw_set: "card (raw_set ws) = sum_list (map bit_count ws)"
proof (induction ws rule: rev_induct)
  case (snoc w ws)
  have "raw_set ws \<inter> (\<lambda>n. 64 * length ws + n) ` {n. n < 64 \<and> bit w n} = {}"
    by (auto simp: raw_set_def)
  then have "card (raw_set (ws @ [w])) = card (raw_set ws) + card {n. n < 64 \<and> bit w n}"
    unfolding raw_set_snoc by (subst card_Un_disjoint) (auto simp: card_image)
  with snoc show ?case by (simp add: bit_count_def)
qed (simp add: raw_set_def)

lemma bv_Count_eq: "bv_Count bv = card (raw_set (bv_bits bv))"
proof -
  have "foldl (\<lambda>c w. c + popcount w) n ws = n + sum_list (map bit_count ws)" for n ws
    by (induction ws arbitrary: n) (auto simp: popcount_eq)
  then show ?thesis by (simp add: bv_Count_def card_raw_set)
qed

lemma bv_set_raw_set: "bv_ok bv \<Longrightarrow> bv_set bv = int ` raw_set (bv_bits bv)"
proof (intro set_eqI iffI)
  fix p assume ok: "bv_ok bv" and p: "p \<in> bv_set bv"
  then have "nat p div 64 < length (bv_bits bv)"
    using word_index [of p "bv_size bv"] by (simp add: bv_ok_def bv_set_def bv_Get_raw)
  with p show "p \<in> int ` raw_set (bv_bits bv)"
    by (intro image_eqI [of _ _ "nat p"])
      (auto simp: raw_set_def bv_set_def bv_Get_raw raw_bit_def div_less_iff_less_mult mult.commute)
next
  fix p assume ok: "bv_ok bv" and "p \<in> int ` raw_set (bv_bits bv)"
  then obtain n where n: "p = int n" "n < 64 * length (bv_bits bv)" "raw_bit bv n"
    by (auto simp: raw_set_def raw_bit_def)
  with ok have "n < nat (bv_size bv)"
    by (auto simp: bv_ok_def list_all_iff not_less)
  with n show "p \<in> bv_set bv" by (simp add: bv_set_def bv_Get_raw)
qed

section \<open>Properties\<close>

text \<open>
  The SWAR popcount returns the number of set bits, for every 64-bit word.
\<close>

theorem popcount_counts_bits: "popcount x = card {n. n < 64 \<and> bit x n}"
  by (simp add: popcount_eq bit_count_def)

text \<open>
  The bit vector refines a set of positions: setting inserts, clearing removes, positions
  outside the size are ignored, the invariant is kept, and the count is the set's cardinality.
\<close>

theorem bit_vector_refines_set:
  assumes "bv_ok bv"
  shows "bv_ok (bv_Set bv p) \<and> bv_ok (bv_Clear bv p)
    \<and> bv_set (bv_Set bv p) = (if 0 \<le> p \<and> p < bv_Size bv then insert p (bv_set bv) else bv_set bv)
    \<and> bv_set (bv_Clear bv p) = bv_set bv - {p}
    \<and> bv_Count bv = card (bv_set bv)"
  using assms bv_ok_ops bv_set_ops
  by (simp add: bv_Size_def bv_Count_eq bv_set_raw_set card_image)

theorem bit_vector_refines_set_witness:
  "\<exists>bv. NewBitVector 70 = Some bv \<and> bv_ok bv \<and> bv_set (bv_Set bv 65) = {65}"
proof -
  obtain bv where bv: "NewBitVector 70 = Some bv" "bv_size bv = 70"
    by (auto simp: NewBitVector_def Let_def)
  with bv_ok_New [of 70 bv] have ok: "bv_ok bv" and "bv_set bv = {}" by simp_all
  with bit_vector_refines_set [OF ok, of 65] bv show ?thesis by (auto simp: bv_Size_def)
qed

end
