(* ===== verification/Field_Dict.thy ===== *)
theory Field_Dict
  imports Halo_Prelude
begin

text \<open>
  \<^verbatim>\<open>fielddict/fielddict.go\<close>: the dictionary that gives every field name a small dense id, with
  the single-bit masks of the first 64 ids and its hit counters, and the interface
  \<^verbatim>\<open>types.FieldDictionary\<close> through which the indexed field store uses it. Every method holds the
  mutex for its whole body (\<open>GetOrRegisterFieldID\<close> re-checks after taking the write lock), so each
  is one atomic step. A Go map is a partial function; the map a caller passes to
  \<open>RegisterCustomFieldsWithIDs\<close> is a list of pairs in the order its iteration yields them.
\<close>

record field_dictionary =
  fd_keys :: "string \<rightharpoonup> nat"
  fd_values :: "string list"
  fd_bitmasks :: "string \<rightharpoonup> u64"
  fd_fieldCounter :: "32 word"
  fd_fastPathHit :: u64
  fd_slowPathHit :: u64
  fd_startupRegistered :: "32 word"
  fd_runtimeRegistered :: "32 word"

definition NewFieldDictionary :: field_dictionary where
  "NewFieldDictionary = \<lparr>fd_keys = Map.empty, fd_values = [], fd_bitmasks = Map.empty,
     fd_fieldCounter = 0, fd_fastPathHit = 0, fd_slowPathHit = 0,
     fd_startupRegistered = 0, fd_runtimeRegistered = 0\<rparr>"

section \<open>Registration\<close>

text \<open>The insertion the registering methods share (they repeat it inline).\<close>

definition fd_insert :: "field_dictionary \<Rightarrow> string \<Rightarrow> field_dictionary" where
  "fd_insert fd key =
     (let fid = length (fd_values fd);
          fd = fd\<lparr>fd_keys := (fd_keys fd)(key \<mapsto> fid), fd_values := fd_values fd @ [key]\<rparr>
      in if fid < 64 then fd\<lparr>fd_bitmasks := (fd_bitmasks fd)(key \<mapsto> push_bit fid 1)\<rparr> else fd)"

definition fd_Register :: "field_dictionary \<Rightarrow> string \<Rightarrow> field_dictionary \<times> nat" where
  "fd_Register fd key =
     (case fd_keys fd key of
        Some fid \<Rightarrow> (fd, fid)
      | None \<Rightarrow> (fd_insert fd key, length (fd_values fd)))"

definition registerNewField :: "field_dictionary \<Rightarrow> string \<Rightarrow> field_dictionary \<times> nat" where
  "registerNewField fd key =
     (case fd_keys fd key of
        Some fid \<Rightarrow> (fd\<lparr>fd_fastPathHit := fd_fastPathHit fd + 1\<rparr>, fid)
      | None \<Rightarrow>
          (let fid = length (fd_values fd); fd = fd_insert fd key in
           (fd\<lparr>fd_fieldCounter := fd_fieldCounter fd + 1,
               fd_slowPathHit := fd_slowPathHit fd + 1,
               fd_runtimeRegistered := fd_runtimeRegistered fd + 1\<rparr>, fid)))"

definition GetOrRegisterFieldID :: "field_dictionary \<Rightarrow> string \<Rightarrow> field_dictionary \<times> nat" where
  "GetOrRegisterFieldID fd key =
     (case fd_keys fd key of
        Some fid \<Rightarrow> (fd\<lparr>fd_fastPathHit := fd_fastPathHit fd + 1\<rparr>, fid)
      | None \<Rightarrow> registerNewField fd key)"

definition GetOrRegisterFieldIDFast ::
  "field_dictionary \<Rightarrow> string \<Rightarrow> field_dictionary \<times> nat \<times> bool \<times> nat" where
  "GetOrRegisterFieldIDFast fd key =
     (case fd_keys fd key of
        Some fid \<Rightarrow> (fd\<lparr>fd_fastPathHit := fd_fastPathHit fd + 1\<rparr>, fid, False, 0)
      | None \<Rightarrow> (let (fd, fid) = registerNewField fd key in (fd, fid, True, 1)))"

fun RegisterBulk :: "field_dictionary \<Rightarrow> string list \<Rightarrow> field_dictionary \<times> nat list" where
  "RegisterBulk fd [] = (fd, [])"
| "RegisterBulk fd (key # keys) =
     (case fd_keys fd key of
        Some fid \<Rightarrow> (let (fd', ids) = RegisterBulk fd keys in (fd', fid # ids))
      | None \<Rightarrow>
          (let fid = length (fd_values fd); (fd', ids) = RegisterBulk (fd_insert fd key) keys
           in (fd', fid # ids)))"

fun register_startup :: "field_dictionary \<Rightarrow> string list \<Rightarrow> field_dictionary" where
  "register_startup fd [] = fd"
| "register_startup fd (fieldName # rest) =
     (case fd_keys fd fieldName of
        Some _ \<Rightarrow> register_startup fd rest
      | None \<Rightarrow>
          (let fd = fd_insert fd fieldName in
           register_startup (fd\<lparr>fd_startupRegistered := fd_startupRegistered fd + 1\<rparr>) rest))"

definition RegisterFromConfig ::
  "field_dictionary \<Rightarrow> string list \<Rightarrow> string list \<Rightarrow> field_dictionary" where
  "RegisterFromConfig fd customFields sensitiveFields =
     (let fd = register_startup fd customFields in register_startup fd sensitiveFields)"

text \<open>
  A negative id makes the slice assignment panic: \<open>None\<close>. The padding loop appends empty names
  until the id is inside the slice.
\<close>

fun pad_values :: "nat \<Rightarrow> string list \<Rightarrow> string list" where
  "pad_values n vs = (if length vs \<le> n then vs @ replicate (Suc n - length vs) [] else vs)"

definition register_custom :: "field_dictionary \<Rightarrow> string \<Rightarrow> nat \<Rightarrow> field_dictionary" where
  "register_custom fd fieldName fieldID =
     (let values = pad_values fieldID (fd_values fd);
          fd = fd\<lparr>fd_keys := (fd_keys fd)(fieldName \<mapsto> fieldID),
                  fd_values := values[fieldID := fieldName]\<rparr>;
          fd = (if fieldID < 64
                then fd\<lparr>fd_bitmasks := (fd_bitmasks fd)(fieldName \<mapsto> push_bit fieldID 1)\<rparr> else fd)
      in fd\<lparr>fd_startupRegistered := fd_startupRegistered fd + 1\<rparr>)"

fun RegisterCustomFieldsWithIDs ::
  "field_dictionary \<Rightarrow> (string \<times> int) list \<Rightarrow> field_dictionary option" where
  "RegisterCustomFieldsWithIDs fd [] = Some fd"
| "RegisterCustomFieldsWithIDs fd ((fieldName, fieldID) # rest) =
     (if fieldID < 0 then None
      else RegisterCustomFieldsWithIDs (register_custom fd fieldName (nat fieldID)) rest)"

section \<open>Lookups\<close>

definition fd_Get :: "field_dictionary \<Rightarrow> int \<Rightarrow> string \<times> bool" where
  "fd_Get fd fid =
     (if fid < 0 \<or> int (length (fd_values fd)) \<le> fid then ([], False)
      else (fd_values fd ! nat fid, True))"

definition fd_GetID :: "field_dictionary \<Rightarrow> string \<Rightarrow> nat option" where
  "fd_GetID fd key = fd_keys fd key"

definition GetFieldID :: "field_dictionary \<Rightarrow> string \<Rightarrow> field_dictionary \<times> nat option" where
  "GetFieldID fd key =
     (case fd_keys fd key of
        Some fid \<Rightarrow> (fd\<lparr>fd_fastPathHit := fd_fastPathHit fd + 1\<rparr>, Some fid)
      | None \<Rightarrow> (fd, None))"

definition GetFieldByID :: "field_dictionary \<Rightarrow> int \<Rightarrow> string" where
  "GetFieldByID fd fieldID =
     (if fieldID < 0 \<or> int (length (fd_values fd)) \<le> fieldID then []
      else fd_values fd ! nat fieldID)"

definition CreateFieldBitmask :: "field_dictionary \<Rightarrow> string list \<Rightarrow> u64" where
  "CreateFieldBitmask fd keys =
     foldl (\<lambda>bitmask key. case fd_bitmasks fd key of
                Some fieldBitmask \<Rightarrow> bitmask OR fieldBitmask
              | None \<Rightarrow> bitmask) 0 keys"

text \<open>A negative id converts to a huge shift count, and the shift gives zero.\<close>

definition IsFieldInBitmask :: "int \<Rightarrow> u64 \<Rightarrow> bool" where
  "IsFieldInBitmask fieldID bitmask =
     (if 64 \<le> fieldID then False
      else bitmask AND push_bit (nat (wrap_u64 fieldID)) 1 \<noteq> 0)"

definition GetBitmask :: "field_dictionary \<Rightarrow> string \<Rightarrow> u64 option" where
  "GetBitmask fd key = fd_bitmasks fd key"


definition fd_GetAllFields :: "field_dictionary \<Rightarrow> string list" where
  "fd_GetAllFields fd = fd_values fd"

record dictionary_stats =
  ds_TotalFields :: int
  ds_FastPathHits :: u64
  ds_SlowPathHits :: u64

definition GetPerformanceStats :: "field_dictionary \<Rightarrow> dictionary_stats" where
  "GetPerformanceStats fd = \<lparr>ds_TotalFields = sint (fd_fieldCounter fd),
     ds_FastPathHits = fd_fastPathHit fd, ds_SlowPathHits = fd_slowPathHit fd\<rparr>"

record registration_stats =
  rs_StartupRegistered :: int
  rs_RuntimeRegistered :: int
  rs_TotalFields :: nat
  rs_PrecomputedHits :: int
  rs_RuntimeMisses :: int

definition GetRegistrationStats :: "field_dictionary \<Rightarrow> registration_stats" where
  "GetRegistrationStats fd = \<lparr>rs_StartupRegistered = sint (fd_startupRegistered fd),
     rs_RuntimeRegistered = sint (fd_runtimeRegistered fd),
     rs_TotalFields = length (fd_values fd),
     rs_PrecomputedHits = sint (fd_fastPathHit fd),
     rs_RuntimeMisses = sint (fd_slowPathHit fd)\<rparr>"

section \<open>The invariant\<close>

text \<open>
  Names and ids are in bijection, and a name has a mask exactly when its id is below 64; the mask
  is the bit of the id.
\<close>

definition fd_ok :: "field_dictionary \<Rightarrow> bool" where
  "fd_ok fd \<longleftrightarrow>
     (\<forall>k i. fd_keys fd k = Some i \<longleftrightarrow> i < length (fd_values fd) \<and> fd_values fd ! i = k)
   \<and> (\<forall>k. fd_bitmasks fd k =
        (case fd_keys fd k of Some i \<Rightarrow> if i < 64 then Some (push_bit i 1) else None | None \<Rightarrow> None))"

lemma fd_ok_New [simp, intro]: "fd_ok NewFieldDictionary"
  by (simp add: fd_ok_def NewFieldDictionary_def)

lemma fd_ok_keys:
  "fd_ok fd \<Longrightarrow> fd_keys fd k = Some i \<longleftrightarrow> i < length (fd_values fd) \<and> fd_values fd ! i = k"
  by (simp add: fd_ok_def)

lemma fd_ok_mask:
  "fd_ok fd \<Longrightarrow> fd_bitmasks fd k =
     (case fd_keys fd k of Some i \<Rightarrow> if i < 64 then Some (push_bit i 1) else None | None \<Rightarrow> None)"
  by (simp add: fd_ok_def)

lemma fd_insert_simps [simp]:
  "fd_keys (fd_insert fd key) = (fd_keys fd)(key \<mapsto> length (fd_values fd))"
  "fd_values (fd_insert fd key) = fd_values fd @ [key]"
  "fd_bitmasks (fd_insert fd key) =
     (if length (fd_values fd) < 64 then (fd_bitmasks fd)(key \<mapsto> push_bit (length (fd_values fd)) 1)
      else fd_bitmasks fd)"
  by (simp_all add: fd_insert_def Let_def)

lemma fd_ok_insert [halo_inv]:
  assumes "fd_ok fd" and "fd_keys fd key = None"
  shows "fd_ok (fd_insert fd key)"
proof -
  have none: "fd_bitmasks fd key = None"
    using fd_ok_mask [OF assms(1), of key] assms(2) by simp
  have fresh: "i < length (fd_values fd) \<Longrightarrow> fd_values fd ! i \<noteq> key" for i
    using fd_ok_keys [OF assms(1), of key i] assms(2) by auto
  show ?thesis unfolding fd_ok_def
  proof (intro conjI allI)
    fix k i
    show "fd_keys (fd_insert fd key) k = Some i \<longleftrightarrow>
        i < length (fd_values (fd_insert fd key)) \<and> fd_values (fd_insert fd key) ! i = k"
      using fd_ok_keys [OF assms(1), of k i] fresh by (auto simp: nth_append less_Suc_eq)
  next
    fix k
    show "fd_bitmasks (fd_insert fd key) k =
        (case fd_keys (fd_insert fd key) k of
           Some i \<Rightarrow> if i < 64 then Some (push_bit i 1) else None | None \<Rightarrow> None)"
      using fd_ok_mask [OF assms(1), of k] none by auto
  qed
qed

lemma fd_ok_counters [simp]:
  "fd_ok (fd\<lparr>fd_fastPathHit := a\<rparr>) = fd_ok fd" "fd_ok (fd\<lparr>fd_slowPathHit := a\<rparr>) = fd_ok fd"
  "fd_ok (fd\<lparr>fd_fieldCounter := c\<rparr>) = fd_ok fd" "fd_ok (fd\<lparr>fd_runtimeRegistered := c\<rparr>) = fd_ok fd"
  "fd_ok (fd\<lparr>fd_startupRegistered := c\<rparr>) = fd_ok fd"
  by (simp_all add: fd_ok_def)

lemmas registration_defs = fd_Register_def registerNewField_def GetOrRegisterFieldID_def
  GetOrRegisterFieldIDFast_def

lemma fd_ok_registration [halo_inv]:
  assumes "fd_ok fd"
  shows "fd_ok (fst (fd_Register fd k))" and "fd_ok (fst (GetOrRegisterFieldID fd k))"
    and "fd_ok (fst (GetOrRegisterFieldIDFast fd k))" and "fd_ok (fst (GetFieldID fd k))"
  using assms
  by (auto simp: registration_defs GetFieldID_def Let_def fd_ok_insert split: option.splits)

lemma fd_ok_RegisterBulk [halo_inv]: "fd_ok fd \<Longrightarrow> fd_ok (fst (RegisterBulk fd ks))"
proof (induction fd ks rule: RegisterBulk.induct)
  case (2 fd key keys)
  then show ?case by (auto simp: fd_ok_insert Let_def split: option.splits prod.splits)
qed simp

lemma fd_ok_register_startup: "fd_ok fd \<Longrightarrow> fd_ok (register_startup fd ks)"
proof (induction fd ks rule: register_startup.induct)
  case (2 fd k ks)
  then show ?case by (auto simp: fd_ok_insert Let_def split: option.splits)
qed simp

lemma fd_ok_RegisterFromConfig [halo_inv]: "fd_ok fd \<Longrightarrow> fd_ok (RegisterFromConfig fd cs ss)"
  by (simp add: RegisterFromConfig_def Let_def fd_ok_register_startup)

section \<open>The dictionary interface\<close>

text \<open>
  What the field store relies on when it is given a \<^verbatim>\<open>types.FieldDictionary\<close>: registering returns
  the id under which the name is found from then on, ids of other names do not move, no two names
  share an id, and an id leads back to its name. Clients prove their lemmas inside the locale.
\<close>

locale field_ids =
  fixes get_or_register :: "'d \<Rightarrow> string \<Rightarrow> 'd \<times> nat"
    and get_id :: "'d \<Rightarrow> string \<Rightarrow> nat option"
    and by_id :: "'d \<Rightarrow> int \<Rightarrow> string"
    and ok :: "'d \<Rightarrow> bool"
  assumes ok_register: "ok d \<Longrightarrow> ok (fst (get_or_register d k))"
    and id_register: "ok d \<Longrightarrow> get_id (fst (get_or_register d k)) k = Some (snd (get_or_register d k))"
    and id_register_other: "ok d \<Longrightarrow> k' \<noteq> k \<Longrightarrow> get_id (fst (get_or_register d k)) k' = get_id d k'"
    and id_register_known: "ok d \<Longrightarrow> get_id d k = Some i \<Longrightarrow> snd (get_or_register d k) = i"
    and id_inj: "ok d \<Longrightarrow> get_id d k = Some i \<Longrightarrow> get_id d k' = Some i \<Longrightarrow> k' = k"
    and by_id_get: "ok d \<Longrightarrow> get_id d k = Some i \<Longrightarrow> by_id d (int i) = k"
begin

lemma id_stable:
  "ok d \<Longrightarrow> get_id d k = Some i \<Longrightarrow> get_id (fst (get_or_register d k')) k = Some i"
  using id_register id_register_other id_register_known by metis

lemma register_distinct:
  assumes "ok d" and "get_id d k' = Some i" and "k' \<noteq> k"
  shows "snd (get_or_register d k) \<noteq> i"
  using assms id_register id_register_other id_inj ok_register by metis

end

interpretation fdict: field_ids GetOrRegisterFieldID fd_GetID GetFieldByID fd_ok
proof unfold_locales
  fix d :: field_dictionary and k k' :: string and i :: nat
  assume ok: "fd_ok d"
  show "fd_ok (fst (GetOrRegisterFieldID d k))" using ok by (rule fd_ok_registration)
  show "fd_GetID (fst (GetOrRegisterFieldID d k)) k = Some (snd (GetOrRegisterFieldID d k))"
    by (auto simp: registration_defs fd_GetID_def Let_def split: option.splits)
  show "k' \<noteq> k \<Longrightarrow> fd_GetID (fst (GetOrRegisterFieldID d k)) k' = fd_GetID d k'"
    by (auto simp: registration_defs fd_GetID_def Let_def split: option.splits)
  show "fd_GetID d k = Some i \<Longrightarrow> snd (GetOrRegisterFieldID d k) = i"
    by (auto simp: registration_defs fd_GetID_def)
  show "fd_GetID d k = Some i \<Longrightarrow> fd_GetID d k' = Some i \<Longrightarrow> k' = k"
    using fd_ok_keys [OF ok] by (auto simp: fd_GetID_def)
  show "fd_GetID d k = Some i \<Longrightarrow> GetFieldByID d (int i) = k"
    using fd_ok_keys [OF ok] by (auto simp: fd_GetID_def GetFieldByID_def)
qed

section \<open>Runs of operations\<close>

datatype fd_op =
    OpRegister string | OpGetOrRegister string | OpFast string | OpGetFieldID string
  | OpBulk "string list" | OpConfig "string list" "string list"

fun fd_step :: "field_dictionary \<Rightarrow> fd_op \<Rightarrow> field_dictionary" where
  "fd_step fd (OpRegister k) = fst (fd_Register fd k)"
| "fd_step fd (OpGetOrRegister k) = fst (GetOrRegisterFieldID fd k)"
| "fd_step fd (OpFast k) = fst (GetOrRegisterFieldIDFast fd k)"
| "fd_step fd (OpGetFieldID k) = fst (GetFieldID fd k)"
| "fd_step fd (OpBulk ks) = fst (RegisterBulk fd ks)"
| "fd_step fd (OpConfig cs ss) = RegisterFromConfig fd cs ss"

fun op_names :: "fd_op \<Rightarrow> string set" where
  "op_names (OpRegister k) = {k}" | "op_names (OpGetOrRegister k) = {k}" | "op_names (OpFast k) = {k}"
| "op_names (OpGetFieldID k) = {}" | "op_names (OpBulk ks) = set ks"
| "op_names (OpConfig cs ss) = set cs \<union> set ss"

text \<open>What registering a set of names does to the name map: it grows, exactly by these names.\<close>

definition grows :: "field_dictionary \<Rightarrow> string set \<Rightarrow> field_dictionary \<Rightarrow> bool" where
  "grows fd ks fd' \<longleftrightarrow> fd_keys fd \<subseteq>\<^sub>m fd_keys fd' \<and> dom (fd_keys fd') = dom (fd_keys fd) \<union> ks"

lemma grows_insert: "fd_keys fd k = None \<Longrightarrow> grows fd {k} (fd_insert fd k)"
  by (auto simp: grows_def map_le_def)

lemma grows_known: "fd_keys fd k = Some i \<Longrightarrow> grows fd {k} fd"
  by (auto simp: grows_def)

lemma grows_trans: "grows a ks b \<Longrightarrow> grows b ls c \<Longrightarrow> grows a (ks \<union> ls) c"
  by (auto simp: grows_def intro: map_le_trans)

lemma grows_empty [simp]: "grows fd {} fd"
  by (simp add: grows_def)

lemma grows_counters [simp]:
  "grows fd ks (fd'\<lparr>fd_fastPathHit := a\<rparr>) = grows fd ks fd'"
  "grows fd ks (fd'\<lparr>fd_slowPathHit := a\<rparr>) = grows fd ks fd'"
  "grows fd ks (fd'\<lparr>fd_fieldCounter := c\<rparr>) = grows fd ks fd'"
  "grows fd ks (fd'\<lparr>fd_runtimeRegistered := c\<rparr>) = grows fd ks fd'"
  "grows fd ks (fd'\<lparr>fd_startupRegistered := c\<rparr>) = grows fd ks fd'"
  by (simp_all add: grows_def)

lemma grows_cons:
  assumes "grows fd {k} a" and "grows a (set ks) b"
  shows "grows fd (set (k # ks)) b"
  using grows_trans [OF assms] by simp

lemma grows_RegisterBulk: "grows fd (set ks) (fst (RegisterBulk fd ks))"
proof (induction fd ks rule: RegisterBulk.induct)
  case (2 fd key keys)
  show ?case
  proof (cases "fd_keys fd key")
    case None
    with 2 grows_cons [OF grows_insert [OF None]] show ?thesis
      by (cases "RegisterBulk (fd_insert fd key) keys") (simp add: Let_def)
  next
    case (Some i)
    with 2 grows_cons [OF grows_known [OF Some]] show ?thesis
      by (cases "RegisterBulk fd keys") (simp add: Let_def)
  qed
qed simp

lemma grows_register_startup: "grows fd (set ks) (register_startup fd ks)"
proof (induction fd ks rule: register_startup.induct)
  case (2 fd key keys)
  show ?case
  proof (cases "fd_keys fd key")
    case None
    let ?a = "fd_insert fd key\<lparr>fd_startupRegistered := fd_startupRegistered (fd_insert fd key) + 1\<rparr>"
    have "grows fd {key} ?a" using grows_insert [OF None] by simp
    from grows_cons [OF this] 2 None show ?thesis by (simp add: Let_def)
  next
    case (Some i)
    with 2 grows_cons [OF grows_known [OF Some]] show ?thesis by simp
  qed
qed simp

lemma grows_step: "grows fd (op_names x) (fd_step fd x)"
proof (cases x)
  case (OpConfig cs ss)
  then show ?thesis
    using grows_trans [OF grows_register_startup grows_register_startup, of fd cs ss]
    by (simp add: RegisterFromConfig_def Let_def)
qed (auto simp: registration_defs GetFieldID_def Let_def grows_RegisterBulk
      intro: grows_insert grows_known split: option.splits)

lemma fd_ok_step [halo_inv]: "fd_ok fd \<Longrightarrow> fd_ok (fd_step fd x)"
  by (cases x) (simp_all add: halo_inv)

definition fd_run :: "field_dictionary \<Rightarrow> fd_op list \<Rightarrow> field_dictionary" where
  "fd_run fd xs = foldl fd_step fd xs"

lemma fd_run_ok_grows:
  "fd_ok fd \<Longrightarrow> fd_ok (fd_run fd xs) \<and> grows fd (\<Union> (op_names ` set xs)) (fd_run fd xs)"
proof (induction xs arbitrary: fd)
  case Nil
  then show ?case by (simp add: fd_run_def)
next
  case (Cons x xs)
  from Cons.IH [OF fd_ok_step [OF Cons.prems, of x]] grows_trans [OF grows_step]
  show ?case by (fastforce simp: fd_run_def)
qed

lemma dom_New [simp]: "fd_keys NewFieldDictionary = Map.empty"
  by (simp add: NewFieldDictionary_def)


section \<open>Masks\<close>

lemma bit_CreateFieldBitmask:
  "bit (CreateFieldBitmask fd ks) n \<longleftrightarrow> (\<exists>k \<in> set ks. \<exists>m. fd_bitmasks fd k = Some m \<and> bit m n)"
proof -
  have "bit (foldl (\<lambda>b k. case fd_bitmasks fd k of Some m \<Rightarrow> b OR m | None \<Rightarrow> b) acc ks) n
      \<longleftrightarrow> bit acc n \<or> (\<exists>k \<in> set ks. \<exists>m. fd_bitmasks fd k = Some m \<and> bit m n)" for acc
    by (induction ks arbitrary: acc) (auto simp: bit_or_iff split: option.splits)
  from this [of 0] show ?thesis unfolding CreateFieldBitmask_def by simp
qed

lemma IsFieldInBitmask_bit: "i < 64 \<Longrightarrow> IsFieldInBitmask (int i) m \<longleftrightarrow> bit m i"
  using bit_iff_and_push_bit_not_eq_0 [of m i]
  by (simp add: IsFieldInBitmask_def wrap_u64_def)

section \<open>Properties\<close>



text \<open>
  A mask built for a list of names contains the id of a name exactly when the name is in the
  list and its id is below 64.
\<close>

theorem bitmask_membership:
  assumes "fd_ok fd" and "fd_GetID fd k = Some i"
  shows "IsFieldInBitmask (int i) (CreateFieldBitmask fd ks) \<longleftrightarrow> i < 64 \<and> k \<in> set ks"
proof (cases "i < 64")
  case False
  then show ?thesis by (simp add: IsFieldInBitmask_def)
next
  case True
  have "(\<exists>m. fd_bitmasks fd k' = Some m \<and> bit m i) \<longleftrightarrow> k' = k" for k'
  proof (cases "fd_keys fd k'")
    case None
    with assms show ?thesis by (auto simp: fd_GetID_def fd_ok_mask)
  next
    case (Some j)
    then have "j = i \<longleftrightarrow> k' = k"
      using fdict.id_inj [OF assms, of k'] assms(2) by (auto simp: fd_GetID_def)
    with Some True show ?thesis
      using fd_ok_mask [OF assms(1), of k'] by (auto simp: bit_simps)
  qed
  with True show ?thesis by (simp add: IsFieldInBitmask_bit bit_CreateFieldBitmask)
qed

theorem bitmask_membership_witness:
  "fd_ok (fd_run NewFieldDictionary [OpBulk [''a'', ''b'']])
   \<and> fd_GetID (fd_run NewFieldDictionary [OpBulk [''a'', ''b'']]) ''b'' = Some 1
   \<and> \<not> IsFieldInBitmask 1 (CreateFieldBitmask (fd_run NewFieldDictionary [OpBulk [''a'', ''b'']]) [''a''])"
proof -
  let ?d = "fd_run NewFieldDictionary [OpBulk [''a'', ''b'']]"
  have "fd_ok ?d"
    using fd_run_ok_grows [OF fd_ok_New, of "[OpBulk [''a'', ''b'']]"] by blast
  moreover have "fd_GetID ?d ''b'' = Some 1"
    by (simp add: fd_run_def fd_GetID_def NewFieldDictionary_def Let_def)
  ultimately show ?thesis using bitmask_membership [of ?d "''b''" 1 "[''a'']"] by simp
qed

text \<open>
  A configured field with a pre-assigned id that is already taken does not move the old name:
  both names now have the same id, the id leads back to the new one only, and the masks of the two
  names are equal.
\<close>

theorem custom_ids_can_collide:
  "\<exists>fd. RegisterCustomFieldsWithIDs (fst (fd_Register NewFieldDictionary ''token'')) [(''color'', 0)] = Some fd
     \<and> fd_GetID fd ''token'' = Some 0 \<and> fd_GetID fd ''color'' = Some 0
     \<and> GetFieldByID fd 0 = ''color'' \<and> GetBitmask fd ''token'' = GetBitmask fd ''color''
     \<and> \<not> fd_ok fd"
  by (auto simp: fd_Register_def NewFieldDictionary_def register_custom_def fd_GetID_def
      GetFieldByID_def GetBitmask_def fd_ok_def Let_def) (metis nth_Cons_0 list.inject char.inject)?

end
