(* ===== verification/Indexed_Store.thy ===== *)
theory Indexed_Store
  imports Bit_Fields Field_Dict
begin

text \<open>
  \<^verbatim>\<open>types/indexed_field_store.go\<close>: the legacy single-mask store and the chunked store with its
  fast and slow paths. The chunked store reaches its field dictionary only through the interface
  \<^verbatim>\<open>types.FieldDictionary\<close>, here a record of the methods it calls; the lemmas that need more than
  the types are proved in the locale \<open>field_ids\<close>. The presence bits are \<open>64 word\<close> values, and a
  shift by 64 or more gives zero as in Go.
\<close>

section \<open>Walking the set bits of a word\<close>

text \<open>\<open>bits.TrailingZeros64\<close> and \<open>bits.OnesCount64\<close>.\<close>

definition ctz64 :: "u64 \<Rightarrow> nat" where
  "ctz64 w = length (takeWhile (\<lambda>n. \<not> bit w n) [0..<64])"

definition OnesCount64 :: "u64 \<Rightarrow> nat" where
  "OnesCount64 w = length (filter (bit w) [0..<64])"

lemma ctz64_bit:
  assumes "w \<noteq> 0"
  shows "bit w (ctz64 w)" and "ctz64 w < 64" and "m < ctz64 w \<Longrightarrow> \<not> bit w m"
proof -
  from assms obtain n where bn: "bit w n" by (auto simp: bit_eq_iff)
  then have n: "bit w n" "n < 64" by (auto dest: bit_imp_le_length)
  let ?t = "takeWhile (\<lambda>n. \<not> bit w n) [0..<64]"
  have "length ?t \<le> length [0..<64]" by (rule length_takeWhile_le)
  moreover have "length ?t \<noteq> length [0..<64]"
  proof
    assume "length ?t = length [0..<64]"
    then have "?t = [0..<64]" by (metis takeWhile_eq_take take_all order_refl)
    then have "\<forall>x \<in> set [0..<64]. \<not> bit w x" by (metis set_takeWhileD)
    with n show False by auto
  qed
  ultimately have lt: "length ?t < length [0..<64]" by simp
  from nth_length_takeWhile [OF lt] lt show "bit w (ctz64 w)" and "ctz64 w < 64"
    by (simp_all add: ctz64_def del: upt_rec_numeral)
  show "m < ctz64 w \<Longrightarrow> \<not> bit w m"
    using takeWhile_nth [of m "\<lambda>n. \<not> bit w n" "[0..<64]"] set_takeWhileD [of m] lt
      nth_mem [of m ?t] by (auto simp: ctz64_def dest: set_takeWhileD simp del: upt_rec_numeral)
qed

text \<open>Clearing the lowest set bit: \<open>w & (w - 1)\<close>.\<close>

lemma bit_unat [simp]: "bit (unat w) n = bit w n" for w :: u64
  by (simp add: bit_unsigned_iff)

lemma bit_double: "bit (2 * q :: nat) j \<longleftrightarrow> 0 < j \<and> bit q (j - 1)"
  "bit (1 + 2 * q :: nat) j \<longleftrightarrow> j = 0 \<or> bit q (j - 1)"
  by (cases j; simp add: bit_Suc bit_0)+

lemma bit_clear_lowest:
  fixes w :: u64
  assumes "w \<noteq> 0"
  shows "bit (w AND (w - 1)) m \<longleftrightarrow> bit w m \<and> m \<noteq> ctz64 w"
proof -
  let ?n = "ctz64 w" and ?u = "unat w"
  have low: "take_bit ?n ?u = 0"
    by (rule bit_eqI) (simp add: bit_take_bit_iff bit_unsigned_iff ctz64_bit(3) [OF assms])
  have "bit ?u ?n" using ctz64_bit(1) [OF assms] by (simp add: bit_unsigned_iff)
  then have "odd (?u div 2 ^ ?n)" by (simp add: bit_iff_odd)
  then obtain q where q: "?u div 2 ^ ?n = 1 + 2 * q" by (metis oddE add.commute)
  then have u: "?u = 0 + 2 ^ ?n * (1 + 2 * q)"
    using low div_mult_mod_eq [of ?u "2 ^ ?n"] by (simp add: take_bit_eq_mod mult.commute)
  have "unat (w - 1) = ?u - 1" using assms by (simp add: unat_minus_one)
  also have "?u - 1 = (2 ^ ?n - 1) + 2 ^ ?n * (2 * q)"
    by (subst u) (simp add: algebra_simps)
  finally have u1: "unat (w - 1) = (2 ^ ?n - 1) + 2 ^ ?n * (2 * q)" .
  have "unat (w AND (w - 1)) = 0 + 2 ^ ?n * ((1 + 2 * q) AND (2 * q))"
    unfolding unsigned_and_eq u1
    by (subst (1) u, subst and_field_add) simp_all
  then have "bit (w AND (w - 1)) m \<longleftrightarrow> bit (0 + 2 ^ ?n * ((1 + 2 * q) AND (2 * q))) m"
    by (metis bit_unat)
  also have "\<dots> \<longleftrightarrow> ?n < m \<and> bit q (m - ?n - 1)"
    by (subst bit_field_add) (auto simp: bit_and_iff bit_double simp del: One_nat_def plus_1_eq_Suc)
  also have "\<dots> \<longleftrightarrow> bit (0 + 2 ^ ?n * (1 + 2 * q)) m \<and> m \<noteq> ?n"
    by (subst bit_field_add) (auto simp: bit_double simp del: One_nat_def plus_1_eq_Suc)
  also have "\<dots> \<longleftrightarrow> bit w m \<and> m \<noteq> ?n"
    unfolding u [symmetric] by simp
  finally show ?thesis .
qed

text \<open>
  The traversal loop: take the lowest set bit, clear it, continue until the word is zero.
\<close>

function bit_scan :: "u64 \<Rightarrow> nat list" where
  "bit_scan w = (if w = 0 then [] else ctz64 w # bit_scan (w AND (w - 1)))"
  by pat_completeness auto

lemma clear_lowest_less: "w \<noteq> 0 \<Longrightarrow> unat (w AND (w - 1)) < unat w" for w :: u64
proof -
  assume w: "w \<noteq> 0"
  have "w AND (w - 1) \<noteq> w"
    using bit_clear_lowest [OF w, of "ctz64 w"] ctz64_bit(1) [OF w] by metis
  then have "unat (w AND (w - 1)) \<noteq> unat w" using unsigned_word_eqI by blast
  moreover have "unat (w AND (w - 1)) \<le> unat w"
    by (metis word_and_le2 word_le_nat_alt)
  ultimately show ?thesis by simp
qed

termination bit_scan
  by (relation "measure unat") (auto simp: clear_lowest_less)

declare bit_scan.simps [simp del]

lemma filter_upt_split:
  assumes "P n" and "n < N" and "\<And>m. m < n \<Longrightarrow> \<not> P m"
  shows "filter P [0..<N] = n # filter (\<lambda>m. P m \<and> m \<noteq> n) [0..<N]"
proof -
  have "[0..<N] = [0..<n] @ n # [Suc n..<N]"
    using assms(2) by (metis le_add1 add_diff_inverse_nat less_imp_le_nat upt_add_eq_append
        upt_conv_Cons not_less gr0I less_nat_zero_code add.left_neutral le_Suc_ex zero_less_diff)
  moreover have "filter P [0..<n] = []" using assms(3) by (simp add: filter_empty_conv)
  moreover have "filter (\<lambda>m. P m \<and> m \<noteq> n) [0..<n] = []" using assms(3) by (simp add: filter_empty_conv)
  moreover have "filter (\<lambda>m. P m \<and> m \<noteq> n) [Suc n..<N] = filter P [Suc n..<N]"
    by (rule filter_cong) auto
  ultimately show ?thesis using assms(1) by simp
qed

lemma bit_scan_eq: "bit_scan w = filter (bit w) [0..<64]"
proof (induction w rule: bit_scan.induct)
  case (1 w)
  show ?case
  proof (cases "w = 0")
    case True
    then show ?thesis by (simp add: bit_scan.simps [of 0] filter_empty_conv del: upt_rec_numeral)
  next
    case False
    have "filter (bit w) [0..<64] = ctz64 w # filter (\<lambda>m. bit w m \<and> m \<noteq> ctz64 w) [0..<64]"
      by (rule filter_upt_split) (use ctz64_bit [OF False] in auto)
    also have "(\<lambda>m. bit w m \<and> m \<noteq> ctz64 w) = bit (w AND (w - 1))"
      using bit_clear_lowest [OF False] by (simp add: fun_eq_iff)
    finally show ?thesis using False 1 by (simp add: bit_scan.simps [of w] del: upt_rec_numeral)
  qed
qed

section \<open>The legacy store\<close>

record basic_store =
  bs_keys :: "string list"
  bs_values :: "string list"
  bs_cap :: nat
  bs_bitmask :: u64
  bs_keyMap :: "string \<rightharpoonup> nat"

text \<open>A negative capacity makes the allocation panic: \<open>None\<close>.\<close>

definition NewBasicIndexedFieldStore :: "int \<Rightarrow> basic_store option" where
  "NewBasicIndexedFieldStore capacity =
     (let capacity = (if 64 < capacity then 64 else capacity) in
      if capacity < 0 then None
      else Some \<lparr>bs_keys = [], bs_values = [], bs_cap = nat capacity, bs_bitmask = 0,
                 bs_keyMap = Map.empty\<rparr>)"

definition bs_Set :: "basic_store \<Rightarrow> string \<Rightarrow> string \<Rightarrow> basic_store" where
  "bs_Set st key v =
     (case bs_keyMap st key of
        Some idx \<Rightarrow> st\<lparr>bs_values := (bs_values st)[idx := v],
                       bs_bitmask := bs_bitmask st OR push_bit idx 1\<rparr>
      | None \<Rightarrow>
          if length (bs_keys st) < bs_cap st then
            (let idx = length (bs_keys st) in
             st\<lparr>bs_keys := bs_keys st @ [key], bs_values := bs_values st @ [v],
                bs_keyMap := (bs_keyMap st)(key \<mapsto> idx),
                bs_bitmask := bs_bitmask st OR push_bit idx 1\<rparr>)
          else st)"

definition bs_Get :: "basic_store \<Rightarrow> string \<Rightarrow> string option" where
  "bs_Get st key =
     (case bs_keyMap st key of
        Some idx \<Rightarrow> if bs_bitmask st AND push_bit idx 1 \<noteq> 0 then Some (bs_values st ! idx) else None
      | None \<Rightarrow> None)"

text \<open>\<open>Iterate\<close>: the calls of the callback, in order.\<close>

definition bs_Iterate :: "basic_store \<Rightarrow> (string \<times> string) list" where
  "bs_Iterate st =
     map (\<lambda>idx. (bs_keys st ! idx, bs_values st ! idx))
       (filter (\<lambda>idx. idx < length (bs_keys st) \<and> idx < length (bs_values st))
         (bit_scan (bs_bitmask st)))"

definition bs_Reset :: "basic_store \<Rightarrow> basic_store" where
  "bs_Reset st = st\<lparr>bs_bitmask := 0, bs_keys := [], bs_values := [], bs_keyMap := Map.empty\<rparr>"

definition bs_Size :: "basic_store \<Rightarrow> nat" where
  "bs_Size st = OnesCount64 (bs_bitmask st)"

definition bs_GetActiveBits :: "basic_store \<Rightarrow> u64" where
  "bs_GetActiveBits st = bs_bitmask st"

definition bs_SetInt :: "basic_store \<Rightarrow> string \<Rightarrow> int \<Rightarrow> basic_store" where
  "bs_SetInt st key v =
     (case bs_keyMap st key of
        Some idx \<Rightarrow> st\<lparr>bs_values := (bs_values st)[idx := itoa v],
                       bs_bitmask := bs_bitmask st OR push_bit idx 1\<rparr>
      | None \<Rightarrow>
          if length (bs_keys st) < bs_cap st then
            (let idx = length (bs_keys st) in
             st\<lparr>bs_keys := bs_keys st @ [key], bs_values := bs_values st @ [itoa v],
                bs_keyMap := (bs_keyMap st)(key \<mapsto> idx),
                bs_bitmask := bs_bitmask st OR push_bit idx 1\<rparr>)
          else st)"

text \<open>The invariant: parallel slices within the capacity, an exact index, a full mask.\<close>

definition bs_ok :: "basic_store \<Rightarrow> bool" where
  "bs_ok st \<longleftrightarrow> length (bs_values st) = length (bs_keys st)
     \<and> length (bs_keys st) \<le> bs_cap st \<and> bs_cap st \<le> 64
     \<and> (\<forall>k i. bs_keyMap st k = Some i \<longleftrightarrow> i < length (bs_keys st) \<and> bs_keys st ! i = k)
     \<and> (\<forall>i. bit (bs_bitmask st) i \<longleftrightarrow> i < length (bs_keys st))"

lemma bs_SetInt_eq: "bs_SetInt st key v = bs_Set st key (itoa v)"
  by (simp add: bs_SetInt_def bs_Set_def)

lemma bs_ok_New: "NewBasicIndexedFieldStore c = Some st \<Longrightarrow> bs_ok st"
  by (auto simp: NewBasicIndexedFieldStore_def bs_ok_def Let_def split: if_splits)

lemma bs_ok_Reset [halo_inv]: "bs_ok st \<Longrightarrow> bs_ok (bs_Reset st)"
  by (auto simp: bs_ok_def bs_Reset_def)

lemma and_two_pow: "(w :: u64) AND 2 ^ i \<noteq> 0 \<longleftrightarrow> bit w i"
  using bit_iff_and_push_bit_not_eq_0 [of w i] by simp

lemma or_two_pow: "i < 64 \<Longrightarrow> bit ((w :: u64) OR 2 ^ i) n \<longleftrightarrow> bit w n \<or> n = i"
  by (auto simp: bit_simps)

lemma bs_ok_keyMap:
  "bs_ok st \<Longrightarrow> bs_keyMap st k = Some i \<longleftrightarrow> i < length (bs_keys st) \<and> bs_keys st ! i = k"
  by (simp add: bs_ok_def)

lemma bs_ok_bit: "bs_ok st \<Longrightarrow> bit (bs_bitmask st) = (\<lambda>i. i < length (bs_keys st))"
  by (simp add: bs_ok_def fun_eq_iff)

lemma bs_ok_Set [halo_inv]:
  assumes "bs_ok st"
  shows "bs_ok (bs_Set st k v)"
proof (cases "bs_keyMap st k")
  case (Some i)
  then have i: "i < length (bs_keys st)" and "i < 64" using assms by (auto simp: bs_ok_def)
  have "bs_Set st k v = st\<lparr>bs_values := (bs_values st)[i := v], bs_bitmask := bs_bitmask st OR push_bit i 1\<rparr>"
    using Some by (simp add: bs_Set_def)
  moreover have "bs_ok (st\<lparr>bs_values := (bs_values st)[i := v], bs_bitmask := bs_bitmask st OR push_bit i 1\<rparr>)"
    using assms i \<open>i < 64\<close> unfolding bs_ok_def by (auto simp: or_two_pow)
  ultimately show ?thesis by simp
next
  case None
  show ?thesis
  proof (cases "length (bs_keys st) < bs_cap st")
    case True
    let ?n = "length (bs_keys st)"
    let ?st = "st\<lparr>bs_keys := bs_keys st @ [k], bs_values := bs_values st @ [v],
        bs_keyMap := (bs_keyMap st)(k \<mapsto> ?n), bs_bitmask := bs_bitmask st OR push_bit ?n 1\<rparr>"
    have n: "?n < 64" using assms True by (auto simp: bs_ok_def)
    have fresh: "bs_keys st ! i \<noteq> k" if "i < ?n" for i
      using bs_ok_keyMap [OF assms, of k i] that None by auto
    have "bs_keyMap ?st q = Some i \<longleftrightarrow> i < length (bs_keys ?st) \<and> bs_keys ?st ! i = q" for q i
      using bs_ok_keyMap [OF assms, of q i] fresh by (auto simp: nth_append less_Suc_eq)
    moreover have "bit (bs_bitmask ?st) i \<longleftrightarrow> i < length (bs_keys ?st)" for i
      using n by (auto simp: bs_ok_bit [OF assms] or_two_pow)
    ultimately have "bs_ok ?st" using assms True by (simp add: bs_ok_def)
    then show ?thesis using None True by (simp add: bs_Set_def Let_def)
  qed (use assms None in \<open>simp add: bs_Set_def\<close>)
qed

lemma bs_Get_eq: "bs_ok st \<Longrightarrow> bs_Get st k = map_option ((!) (bs_values st)) (bs_keyMap st k)"
proof (cases "bs_keyMap st k")
  case (Some i)
  moreover assume ok: "bs_ok st"
  ultimately have "i < length (bs_keys st)" using bs_ok_keyMap by blast
  with Some ok show ?thesis by (simp add: bs_Get_def bs_ok_bit and_two_pow)
qed (simp add: bs_Get_def)

lemma filter_upt_less: "n \<le> N \<Longrightarrow> filter (\<lambda>i. i < n) [0..<N] = [0..<n]"
  by (induction N) (auto simp: le_Suc_eq)

lemma bs_Iterate_eq:
  assumes "bs_ok st"
  shows "bs_Iterate st = zip (bs_keys st) (bs_values st)"
proof -
  have n: "length (bs_keys st) \<le> 64" "length (bs_values st) = length (bs_keys st)"
    using assms by (auto simp: bs_ok_def)
  have "bit_scan (bs_bitmask st) = [0..<length (bs_keys st)]"
    using filter_upt_less [OF n(1)] by (simp only: bit_scan_eq bs_ok_bit [OF assms])
  with n show ?thesis
    by (auto simp: bs_Iterate_def intro!: nth_equalityI)
qed

lemma bs_Size_eq: "bs_ok st \<Longrightarrow> bs_Size st = length (bs_keys st)"
  using filter_upt_less [of "length (bs_keys st)" 64]
  by (simp add: bs_Size_def OnesCount64_def bs_ok_bit bs_ok_def del: upt_rec_numeral)

section \<open>The chunked store\<close>

text \<open>The methods of the dictionary interface the store calls.\<close>

record 'd dict_iface =
  m_GetOrRegister :: "'d \<Rightarrow> string \<Rightarrow> 'd \<times> nat"
  m_GetID :: "'d \<Rightarrow> string \<Rightarrow> nat option"
  m_GetFieldByID :: "'d \<Rightarrow> int \<Rightarrow> string"

definition fd_iface :: "field_dictionary dict_iface" where
  "fd_iface = \<lparr>m_GetOrRegister = GetOrRegisterFieldID, m_GetID = fd_GetID, m_GetFieldByID = GetFieldByID\<rparr>"

record 'd indexed_store =
  st_keys :: "string list list"
  st_values :: "string list list"
  st_bitmasks :: "u64 list"
  st_chunkSize :: nat
  st_activeChunks :: nat
  st_dictionary :: "'d option"
  st_fastPath :: bool
  st_fallbackIDs :: "(string \<times> nat) list"

definition NewIndexedFieldStoreWithDict :: "int \<Rightarrow> 'd option \<Rightarrow> 'd indexed_store" where
  "NewIndexedFieldStoreWithDict chunkSize dictionary =
     (let chunkSize = (if chunkSize \<le> 0 then 64 else chunkSize) in
      \<lparr>st_keys = [], st_values = [], st_bitmasks = [], st_chunkSize = nat chunkSize,
       st_activeChunks = 0, st_dictionary = dictionary, st_fastPath = False, st_fallbackIDs = []\<rparr>)"

definition NewIndexedFieldStore :: "int \<Rightarrow> 'd indexed_store" where
  "NewIndexedFieldStore chunkSize =
     (let chunkSize = (if chunkSize \<le> 0 then 64 else chunkSize) in
      \<lparr>st_keys = [], st_values = [], st_bitmasks = [], st_chunkSize = nat chunkSize,
       st_activeChunks = 0, st_dictionary = None, st_fastPath = False, st_fallbackIDs = []\<rparr>)"

definition growChunk :: "'d indexed_store \<Rightarrow> 'd indexed_store" where
  "growChunk st = st\<lparr>st_keys := st_keys st @ [replicate (st_chunkSize st) []],
     st_values := st_values st @ [replicate (st_chunkSize st) []],
     st_bitmasks := st_bitmasks st @ [0],
     st_activeChunks := st_activeChunks st + 1\<rparr>"

function growTo :: "'d indexed_store \<Rightarrow> nat \<Rightarrow> 'd indexed_store" where
  "growTo st chunkIdx =
     (if st_activeChunks st \<le> chunkIdx then growTo (growChunk st) chunkIdx else st)"
  by pat_completeness auto
termination
  by (relation "measure (\<lambda>(st, c). Suc c - st_activeChunks st)") (auto simp: growChunk_def)

declare growTo.simps [simp del]

definition EnableFastPath :: "'d indexed_store \<Rightarrow> 'd indexed_store" where
  "EnableFastPath st = st\<lparr>st_fastPath := True\<rparr>"

definition DisableFastPath :: "'d indexed_store \<Rightarrow> 'd indexed_store" where
  "DisableFastPath st = st\<lparr>st_fastPath := False\<rparr>"

text \<open>FNV-1a over 32 bits.\<close>

definition hashString :: "string \<Rightarrow> 32 word" where
  "hashString s = foldl (\<lambda>h c. (h XOR of_char c) * 16777619) 2166136261 s"

definition getOrCreateFieldID :: "'d dict_iface \<Rightarrow> 'd indexed_store \<Rightarrow> string \<Rightarrow> 'd indexed_store \<times> nat" where
  "getOrCreateFieldID ifc st key =
     (case st_dictionary st of
        Some d \<Rightarrow> (let (d', fid) = m_GetOrRegister ifc d key in (st\<lparr>st_dictionary := Some d'\<rparr>, fid))
      | None \<Rightarrow>
          (case map_of (st_fallbackIDs st) key of
             Some fid \<Rightarrow> (st, fid)
           | None \<Rightarrow> (let fid = length (st_fallbackIDs st) in
               (st\<lparr>st_fallbackIDs := st_fallbackIDs st @ [(key, fid)]\<rparr>, fid))))"

definition getFieldID :: "'d dict_iface \<Rightarrow> 'd indexed_store \<Rightarrow> string \<Rightarrow> nat option" where
  "getFieldID ifc st key =
     (case st_dictionary st of
        None \<Rightarrow> Some (unat (hashString key))
      | Some d \<Rightarrow> m_GetID ifc d key)"

text \<open>The three writes of a field: key, value, presence bit.\<close>

definition put_field :: "'d indexed_store \<Rightarrow> nat \<Rightarrow> nat \<Rightarrow> string \<Rightarrow> string \<Rightarrow> 'd indexed_store" where
  "put_field st chunkIdx localIdx key v = st\<lparr>
     st_keys := (st_keys st)[chunkIdx := (st_keys st ! chunkIdx)[localIdx := key]],
     st_values := (st_values st)[chunkIdx := (st_values st ! chunkIdx)[localIdx := v]],
     st_bitmasks := (st_bitmasks st)[chunkIdx := st_bitmasks st ! chunkIdx OR push_bit localIdx 1]\<rparr>"

definition setFastPath ::
  "'d dict_iface \<Rightarrow> 'd indexed_store \<Rightarrow> string \<Rightarrow> string \<Rightarrow> 'd indexed_store \<times> bool" where
  "setFastPath ifc st key v =
     (let (st, fieldID) = getOrCreateFieldID ifc st key;
          chunkIdx = fieldID div st_chunkSize st;
          localIdx = fieldID mod st_chunkSize st
      in if st_activeChunks st \<le> chunkIdx then (st, False)
         else if chunkIdx < length (st_keys st) \<and> localIdx < length (st_keys st ! chunkIdx)
           then (put_field st chunkIdx localIdx key v, True)
           else (st, False))"

definition setSlowPath :: "'d dict_iface \<Rightarrow> 'd indexed_store \<Rightarrow> string \<Rightarrow> string \<Rightarrow> 'd indexed_store" where
  "setSlowPath ifc st key v =
     (let (st, fieldID) = getOrCreateFieldID ifc st key;
          chunkIdx = fieldID div st_chunkSize st;
          localIdx = fieldID mod st_chunkSize st;
          st = growTo st chunkIdx
      in put_field st chunkIdx localIdx key v)"

definition st_Set :: "'d dict_iface \<Rightarrow> 'd indexed_store \<Rightarrow> string \<Rightarrow> string \<Rightarrow> 'd indexed_store" where
  "st_Set ifc st key v =
     (if st_fastPath st then
        (let (st, done) = setFastPath ifc st key v in
         if done then st else setSlowPath ifc st key v)
      else setSlowPath ifc st key v)"

text \<open>
  \<open>SetByID\<close>: without a dictionary the method call on the nil interface panics (\<open>None\<close>), after the
  growth loop has run; an unknown id has the empty name and leaves the fields alone.
\<close>

definition st_SetByID :: "'d dict_iface \<Rightarrow> 'd indexed_store \<Rightarrow> int \<Rightarrow> string \<Rightarrow> 'd indexed_store option" where
  "st_SetByID ifc st fieldID v =
     (let chunkIdx = go_div fieldID (int (st_chunkSize st));
          localIdx = go_mod fieldID (int (st_chunkSize st));
          st = (if chunkIdx < 0 then st else growTo st (nat chunkIdx))
      in case st_dictionary st of
           None \<Rightarrow> None
         | Some d \<Rightarrow>
             (let key = m_GetFieldByID ifc d fieldID in
              if key = [] then Some st
              else Some (put_field st (nat chunkIdx) (nat localIdx) key v)))"

definition st_Get :: "'d dict_iface \<Rightarrow> 'd indexed_store \<Rightarrow> string \<Rightarrow> string option" where
  "st_Get ifc st key =
     (case getFieldID ifc st key of
        None \<Rightarrow> None
      | Some fieldID \<Rightarrow>
          (let chunkIdx = fieldID div st_chunkSize st; localIdx = fieldID mod st_chunkSize st in
           if length (st_keys st) \<le> chunkIdx then None
           else if st_bitmasks st ! chunkIdx AND push_bit localIdx 1 = 0 then None
           else Some (st_values st ! chunkIdx ! localIdx)))"

text \<open>The fields of one chunk, by the bit-scan loop of the fast path and by the index loop.\<close>

definition chunk_fast :: "u64 \<Rightarrow> string list \<Rightarrow> string list \<Rightarrow> (string \<times> string) list" where
  "chunk_fast bitmask ks vs =
     map (\<lambda>idx. (ks ! idx, vs ! idx))
       (filter (\<lambda>idx. idx < length ks \<and> idx < length vs) (bit_scan bitmask))"

definition chunk_slow :: "nat \<Rightarrow> u64 \<Rightarrow> string list \<Rightarrow> string list \<Rightarrow> (string \<times> string) list" where
  "chunk_slow chunkSize bitmask ks vs =
     map (\<lambda>idx. (ks ! idx, vs ! idx))
       (filter (\<lambda>idx. bitmask AND push_bit idx 1 \<noteq> 0) [0..<chunkSize])"

definition getAllFastPath :: "'d indexed_store \<Rightarrow> (string \<times> string) list" where
  "getAllFastPath st =
     concat (map (\<lambda>c. if st_bitmasks st ! c = 0 then []
                       else chunk_fast (st_bitmasks st ! c) (st_keys st ! c) (st_values st ! c))
       (filter (\<lambda>c. c < length (st_keys st)) [0..<st_activeChunks st]))"

definition getAllSlowPath :: "'d indexed_store \<Rightarrow> (string \<times> string) list" where
  "getAllSlowPath st =
     concat (map (\<lambda>c. chunk_slow (st_chunkSize st) (st_bitmasks st ! c) (st_keys st ! c) (st_values st ! c))
       [0..<length (st_keys st)])"

definition GetAll :: "'d indexed_store \<Rightarrow> (string \<times> string) list" where
  "GetAll st = (if st_fastPath st then getAllFastPath st else getAllSlowPath st)"

definition st_Iterate :: "'d indexed_store \<Rightarrow> (string \<times> string) list" where
  "st_Iterate st =
     concat (map (\<lambda>c. if st_bitmasks st ! c = 0 then []
          else map (\<lambda>idx. (st_keys st ! c ! idx, st_values st ! c ! idx))
                 (filter (\<lambda>idx. idx < length (st_keys st ! c)) (bit_scan (st_bitmasks st ! c))))
       [0..<length (st_bitmasks st)])"

definition transform_chunk ::
  "(string \<Rightarrow> string \<Rightarrow> string) \<Rightarrow> u64 \<Rightarrow> string list \<Rightarrow> string list \<Rightarrow> string list" where
  "transform_chunk f msk ks vs =
     foldl (\<lambda>vs i. if i < length ks then vs[i := f (ks ! i) (vs ! i)] else vs) vs (bit_scan msk)"

definition TransformValues ::
  "(string \<Rightarrow> string \<Rightarrow> string) \<Rightarrow> 'd indexed_store \<Rightarrow> 'd indexed_store" where
  "TransformValues f st = st\<lparr>st_values :=
     foldl (\<lambda>vss c. vss[c := transform_chunk f (st_bitmasks st ! c) (st_keys st ! c) (vss ! c)])
       (st_values st) [0..<length (st_bitmasks st)]\<rparr>"

definition st_Reset :: "'d indexed_store \<Rightarrow> 'd indexed_store" where
  "st_Reset st = st\<lparr>st_bitmasks := map (\<lambda>_. 0) (st_bitmasks st),
     st_keys := map (map (\<lambda>_. [])) (st_keys st),
     st_values := map (map (\<lambda>_. [])) (st_values st)\<rparr>"

definition st_Size :: "'d indexed_store \<Rightarrow> nat" where
  "st_Size st = foldl (\<lambda>total bitmask. total + OnesCount64 bitmask) 0 (st_bitmasks st)"

section \<open>Invariant and slot view of the chunked store\<close>

text \<open>
  Every index the operations use is inside its slice when the chunks are complete: as many of each
  kind as the counter says, every one of the chunk size.
\<close>

definition st_ok :: "'d indexed_store \<Rightarrow> bool" where
  "st_ok st \<longleftrightarrow> 0 < st_chunkSize st
     \<and> length (st_keys st) = st_activeChunks st \<and> length (st_values st) = st_activeChunks st
     \<and> length (st_bitmasks st) = st_activeChunks st
     \<and> (\<forall>c < st_activeChunks st. length (st_keys st ! c) = st_chunkSize st
                               \<and> length (st_values st ! c) = st_chunkSize st)"

text \<open>The content as a partial map from field ids.\<close>

definition slot :: "'d indexed_store \<Rightarrow> nat \<Rightarrow> string option" where
  "slot st fid =
     (let c = fid div st_chunkSize st; l = fid mod st_chunkSize st in
      if c < st_activeChunks st \<and> bit (st_bitmasks st ! c) l then Some (st_values st ! c ! l) else None)"

lemma st_ok_New [simp]: "st_ok (NewIndexedFieldStoreWithDict n d)" "st_ok (NewIndexedFieldStore n)"
  by (auto simp: st_ok_def NewIndexedFieldStoreWithDict_def NewIndexedFieldStore_def Let_def)

lemma slot_New [simp]:
  "slot (NewIndexedFieldStoreWithDict n d) = Map.empty" "slot (NewIndexedFieldStore n) = Map.empty"
  by (auto simp: slot_def NewIndexedFieldStoreWithDict_def NewIndexedFieldStore_def Let_def)

lemma st_frame [simp]:
  "st_ok (st\<lparr>st_dictionary := d\<rparr>) = st_ok st" "slot (st\<lparr>st_dictionary := d\<rparr>) = slot st"
  "st_ok (st\<lparr>st_fallbackIDs := m\<rparr>) = st_ok st" "slot (st\<lparr>st_fallbackIDs := m\<rparr>) = slot st"
  by (auto simp: st_ok_def slot_def fun_eq_iff Let_def)

lemma growChunk_spec:
  assumes "st_ok st"
  shows "st_ok (growChunk st)" and "slot (growChunk st) = slot st"
  using assms by (auto simp: st_ok_def growChunk_def slot_def Let_def nth_append less_Suc_eq fun_eq_iff)

lemma growTo_spec:
  assumes "st_ok st"
  shows "st_ok (growTo st c) \<and> slot (growTo st c) = slot st \<and> c < st_activeChunks (growTo st c)
    \<and> st_chunkSize (growTo st c) = st_chunkSize st \<and> st_dictionary (growTo st c) = st_dictionary st
    \<and> st_fastPath (growTo st c) = st_fastPath st \<and> st_fallbackIDs (growTo st c) = st_fallbackIDs st"
  using assms
proof (induction st c rule: growTo.induct)
  case (1 st c)
  show ?case
  proof (cases "st_activeChunks st \<le> c")
    case True
    have f: "st_chunkSize (growChunk st) = st_chunkSize st" "st_dictionary (growChunk st) = st_dictionary st"
        "st_fastPath (growChunk st) = st_fastPath st" "st_fallbackIDs (growChunk st) = st_fallbackIDs st"
      by (simp_all add: growChunk_def)
    from 1(1) [OF True growChunk_spec(1)] 1(2) True f growChunk_spec [OF 1(2)] show ?thesis
      by (simp add: growTo.simps [of st c])
  next
    case False
    with 1(2) show ?thesis by (simp add: growTo.simps [of st c])
  qed
qed

lemma put_field_spec:
  fixes st :: "'d indexed_store"
  assumes ok: "st_ok st" and c: "fid div st_chunkSize st < st_activeChunks st"
  shows "st_ok (put_field st (fid div st_chunkSize st) (fid mod st_chunkSize st) k v)"
    and "slot (put_field st (fid div st_chunkSize st) (fid mod st_chunkSize st) k v) =
           (if fid mod st_chunkSize st < 64 then (slot st)(fid \<mapsto> v) else slot st)"
proof -
  let ?n = "st_chunkSize st" and ?c = "fid div st_chunkSize st" and ?l = "fid mod st_chunkSize st"
  have l: "?l < ?n" using ok by (simp add: st_ok_def)
  show "st_ok (put_field st ?c ?l k v)"
    using ok c by (auto simp: st_ok_def put_field_def nth_list_update)
  have eq: "j = fid \<longleftrightarrow> j div ?n = ?c \<and> j mod ?n = ?l" for j by (metis div_mult_mod_eq)
  have big: "\<not> bit (w :: u64) i" if "64 \<le> i" for w i
    using that bit_imp_le_length [of w i] by auto
  show "slot (put_field st ?c ?l k v) = (if ?l < 64 then (slot st)(fid \<mapsto> v) else slot st)"
  proof (rule ext)
    fix j
    have "length (st_bitmasks st) = st_activeChunks st" "length (st_values st) = st_activeChunks st"
      and "length (st_values st ! ?c) = ?n"
      using ok c by (auto simp: st_ok_def)
    with l c big show "slot (put_field st ?c ?l k v) j =
        (if ?l < 64 then (slot st)(fid \<mapsto> v) else slot st) j"
      by (cases "j div ?n = ?c"; cases "j mod ?n = ?l")
        (auto simp: slot_def put_field_def Let_def eq bit_simps)
  qed
qed

lemma st_Get_slot:
  assumes "st_ok st"
  shows "st_Get ifc st k = (case getFieldID ifc st k of None \<Rightarrow> None | Some fid \<Rightarrow> slot st fid)"
  using assms and_two_pow
  by (auto simp: st_Get_def slot_def st_ok_def Let_def split: option.splits)

section \<open>Setting through the dictionary interface\<close>

context field_ids
begin

abbreviation the_iface :: "'d dict_iface" where
  "the_iface \<equiv> \<lparr>m_GetOrRegister = get_or_register, m_GetID = get_id, m_GetFieldByID = by_id\<rparr>"

definition set_effect :: "'d indexed_store \<Rightarrow> string \<Rightarrow> string \<Rightarrow> 'd indexed_store \<Rightarrow> bool" where
  "set_effect st k v st' \<longleftrightarrow> st_ok st' \<and> st_chunkSize st' = st_chunkSize st
     \<and> (\<exists>d d' fid. st_dictionary st = Some d \<and> st_dictionary st' = Some d' \<and> ok d'
        \<and> get_id d' k = Some fid \<and> fid = snd (get_or_register d k)
        \<and> (\<forall>k'. k' \<noteq> k \<longrightarrow> get_id d' k' = get_id d k')
        \<and> slot st' = (if fid mod st_chunkSize st < 64 then (slot st)(fid \<mapsto> v) else slot st))"

lemma set_effect_slow:
  assumes "st_ok st" and "st_dictionary st = Some d" and "ok d"
  shows "set_effect st k v (setSlowPath the_iface st k v)"
proof -
  obtain d' fid where r: "get_or_register d k = (d', fid)" by (cases "get_or_register d k")
  let ?st = "growTo (st\<lparr>st_dictionary := Some d'\<rparr>) (fid div st_chunkSize st)"
  have g: "st_ok ?st" "slot ?st = slot st" "fid div st_chunkSize st < st_activeChunks ?st"
      "st_chunkSize ?st = st_chunkSize st" "st_dictionary ?st = Some d'"
    using growTo_spec [of "st\<lparr>st_dictionary := Some d'\<rparr>" "fid div st_chunkSize st"] assms(1) by simp_all
  have eq: "setSlowPath the_iface st k v = put_field ?st (fid div st_chunkSize ?st) (fid mod st_chunkSize ?st) k v"
    using g(4) by (simp add: setSlowPath_def getOrCreateFieldID_def assms(2) r Let_def)
  have "fid div st_chunkSize ?st < st_activeChunks ?st" using g(3,4) by simp
  note put = put_field_spec [OF g(1) this, of k v]
  have fr: "st_chunkSize (put_field ?st a b k v) = st_chunkSize st"
      "st_dictionary (put_field ?st a b k v) = Some d'" for a b
    using g(4,5) by (simp_all add: put_field_def)
  show ?thesis unfolding set_effect_def eq
    using put fr g(2,4) assms ok_register [OF assms(3), of k] id_register [OF assms(3), of k]
      id_register_other [OF assms(3), of _ k] r by simp
qed

lemma set_effect_Set:
  assumes "st_ok st" and "st_dictionary st = Some d" and "ok d"
  shows "set_effect st k v (st_Set the_iface st k v)"
proof (cases "st_fastPath st")
  case False
  then show ?thesis using set_effect_slow [OF assms] by (simp add: st_Set_def)
next
  case True
  obtain d' fid where r: "get_or_register d k = (d', fid)" by (cases "get_or_register d k")
  have d': "ok d'" "get_id d' k = Some fid" "\<And>k'. k' \<noteq> k \<Longrightarrow> get_id d' k' = get_id d k'"
    using r ok_register [OF assms(3), of k] id_register [OF assms(3), of k]
      id_register_other [OF assms(3), of _ k] by simp_all
  let ?st = "st\<lparr>st_dictionary := Some d'\<rparr>"
  let ?c = "fid div st_chunkSize st" and ?l = "fid mod st_chunkSize st"
  have fast: "setFastPath the_iface st k v =
      (if st_activeChunks st \<le> ?c then (?st, False) else (put_field ?st ?c ?l k v, True))"
    using assms(1) by (auto simp: setFastPath_def getOrCreateFieldID_def assms(2) r Let_def st_ok_def)
  show ?thesis
  proof (cases "st_activeChunks st \<le> ?c")
    case False
    then have "fid div st_chunkSize ?st < st_activeChunks ?st" by simp
    with put_field_spec [of ?st fid k v] assms(1)
    have "st_ok (put_field ?st ?c ?l k v)"
      "slot (put_field ?st ?c ?l k v) = (if ?l < 64 then (slot st)(fid \<mapsto> v) else slot st)" by simp_all
    with False True fast d' r assms show ?thesis
      by (simp add: set_effect_def st_Set_def put_field_def)
  next
    case False': True
    have again: "snd (get_or_register d' k) = fid" using id_register_known [OF d'(1,2)] .
    have "set_effect ?st k v (setSlowPath the_iface ?st k v)"
      using set_effect_slow [of ?st d'] assms(1) d'(1) by simp
    with False' True fast d'(3) r again assms(2) show ?thesis
      by (auto simp: set_effect_def st_Set_def)
  qed
qed

lemma get_after_set:
  assumes "st_ok st" and "st_dictionary st = Some d" and "ok d"
  shows "st_Get the_iface (st_Set the_iface st k v) k' =
     (if k' = k then (if snd (get_or_register d k) mod st_chunkSize st < 64 then Some v
                      else slot st (snd (get_or_register d k)))
      else st_Get the_iface st k')"
proof -
  let ?st' = "st_Set the_iface st k v"
  from set_effect_Set [OF assms, of k v] assms(2) obtain d' fid where e: "st_ok ?st'"
      "st_dictionary ?st' = Some d'" "ok d'" "get_id d' k = Some fid" "fid = snd (get_or_register d k)"
      "\<forall>k'. k' \<noteq> k \<longrightarrow> get_id d' k' = get_id d k'"
      "slot ?st' = (if fid mod st_chunkSize st < 64 then (slot st)(fid \<mapsto> v) else slot st)"
    unfolding set_effect_def by auto
  have "get_id d' k' = Some j \<Longrightarrow> k' \<noteq> k \<Longrightarrow> j \<noteq> fid" for j
    using id_inj [OF e(3), of k' j k] e(4) by auto
  then show ?thesis
    using e assms by (auto simp: st_Get_slot getFieldID_def split: option.splits)
qed

lemma st_ok_after_Set:
  "st_ok st \<Longrightarrow> st_dictionary st = Some d \<Longrightarrow> ok d \<Longrightarrow> st_ok (st_Set the_iface st k v)"
  using set_effect_Set [of st d k v] by (simp add: set_effect_def)

end

lemma st_ok_Set:
  "st_ok st \<Longrightarrow> st_dictionary st = Some d \<Longrightarrow> fd_ok d \<Longrightarrow> st_ok (st_Set fd_iface st k v)"
  unfolding fd_iface_def by (rule fdict.st_ok_after_Set)

section \<open>Traversals\<close>

lemma big_bit: "64 \<le> i \<Longrightarrow> \<not> bit (w :: u64) i"
  and bit_lt_64: "bit (w :: u64) i \<Longrightarrow> i < 64"
  using bit_imp_le_length [of w i] by auto

lemma bit_scan_0 [simp]: "bit_scan 0 = []"
  by (simp add: bit_scan.simps [of 0])

lemma chunk_fast_slow:
  assumes "length ks = n" and "length vs = n"
  shows "chunk_fast w ks vs = chunk_slow n w ks vs"
proof -
  have "filter (\<lambda>i. i < length ks \<and> i < length vs) (bit_scan w) = filter (bit w) [0..<n]"
    unfolding bit_scan_eq filter_filter
    by (rule filter_upt_eqI) (use assms in \<open>auto dest: bit_lt_64\<close>)
  then show ?thesis by (simp add: chunk_fast_def chunk_slow_def and_two_pow)
qed

lemma chunk_slow_zero [simp]: "chunk_slow n 0 ks vs = []"
  by (simp add: chunk_slow_def)

lemma getAll_fast_slow: "st_ok st \<Longrightarrow> getAllFastPath st = getAllSlowPath st"
  unfolding getAllFastPath_def getAllSlowPath_def
  by (intro arg_cong [where f = concat], subst filter_True)
    (auto simp: st_ok_def chunk_fast_slow)

lemma st_Iterate_eq: "st_ok st \<Longrightarrow> st_Iterate st = getAllSlowPath st"
  unfolding st_Iterate_def getAllSlowPath_def
  by (intro arg_cong [where f = concat])
    (auto simp: st_ok_def chunk_fast_slow [symmetric] chunk_fast_def)

lemma transform_chunk_length [simp]: "length (transform_chunk f w ks vs) = length vs"
  by (simp add: transform_chunk_def foldl_update [where g = "\<lambda>i. f (ks ! i)"])

lemma transform_chunk_nth:
  "j < length vs \<Longrightarrow> length ks = length vs \<Longrightarrow>
   transform_chunk f w ks vs ! j = (if bit w j then f (ks ! j) (vs ! j) else vs ! j)"
  using big_bit [of j w]
  by (subst transform_chunk_def, subst foldl_update_nth [where g = "\<lambda>i. f (ks ! i)"])
    (auto simp: bit_scan_eq)

lemma TransformValues_values:
  assumes "st_ok st" and "c < st_activeChunks st"
  shows "st_values (TransformValues f st) ! c =
    transform_chunk f (st_bitmasks st ! c) (st_keys st ! c) (st_values st ! c)"
  using assms foldl_update_nth [of "[0..<length (st_bitmasks st)]" c "st_values st" "\<lambda>_. True"
      "\<lambda>c. transform_chunk f (st_bitmasks st ! c) (st_keys st ! c)"]
  by (simp add: TransformValues_def st_ok_def)

lemma TransformValues_frame:
  assumes "st_ok st"
  shows "st_ok (TransformValues f st)"
    and "getAllSlowPath (TransformValues f st) = map (\<lambda>(k, v). (k, f k v)) (getAllSlowPath st)"
proof -
  have l: "length (st_values (TransformValues f st)) = length (st_values st)"
    using foldl_update [of "\<lambda>_. True" "\<lambda>c. transform_chunk f (st_bitmasks st ! c) (st_keys st ! c)"
        "st_values st" "[0..<length (st_bitmasks st)]"]
    by (simp add: TransformValues_def)
  have fr: "st_keys (TransformValues f st) = st_keys st" "st_bitmasks (TransformValues f st) = st_bitmasks st"
    "st_chunkSize (TransformValues f st) = st_chunkSize st"
    "st_activeChunks (TransformValues f st) = st_activeChunks st"
    by (simp_all add: TransformValues_def)
  show "st_ok (TransformValues f st)"
    using assms TransformValues_values [OF assms] l by (simp add: st_ok_def fr)
  have chunk: "chunk_slow (st_chunkSize st) (st_bitmasks st ! c) (st_keys st ! c)
        (st_values (TransformValues f st) ! c)
      = map (\<lambda>(k, v). (k, f k v)) (chunk_slow (st_chunkSize st) (st_bitmasks st ! c) (st_keys st ! c) (st_values st ! c))"
    if "c < st_activeChunks st" for c
    using that assms TransformValues_values [OF assms that, of f]
    by (auto simp: chunk_slow_def st_ok_def and_two_pow transform_chunk_nth)
  have "length (st_keys st) = st_activeChunks st" using assms by (simp add: st_ok_def)
  moreover have "map (\<lambda>c. chunk_slow (st_chunkSize st) (st_bitmasks st ! c) (st_keys st ! c)
        (st_values (TransformValues f st) ! c)) [0..<st_activeChunks st]
      = map (\<lambda>c. map (\<lambda>(k, v). (k, f k v)) (chunk_slow (st_chunkSize st) (st_bitmasks st ! c)
          (st_keys st ! c) (st_values st ! c))) [0..<st_activeChunks st]"
    using chunk by (intro map_cong) auto
  ultimately show "getAllSlowPath (TransformValues f st) = map (\<lambda>(k, v). (k, f k v)) (getAllSlowPath st)"
    by (simp add: getAllSlowPath_def fr map_concat comp_def del: map_eq_conv)
qed

lemma OnesCount64_one: "OnesCount64 1 = 1"
proof -
  have "filter (bit (1 :: u64)) [0..<64] = [0]"
    by (simp add: upt_conv_Cons [of 0 64] filter_empty_conv bit_1_iff del: upt_rec_numeral)
  then show ?thesis by (simp add: OnesCount64_def)
qed

section \<open>Properties\<close>

text \<open>
  The legacy store is an insertion-ordered map bounded by its capacity: setting a present key
  or adding one below the capacity updates exactly that key, at the capacity a new key is dropped,
  iteration yields the stored pairs in insertion order and the size is their number.
\<close>

theorem basic_store_bounded_map:
  assumes "bs_ok st"
  shows "bs_ok (bs_Set st k v)
    \<and> bs_Get (bs_Set st k v) =
        (if bs_Get st k \<noteq> None \<or> bs_Size st < bs_cap st then (bs_Get st)(k \<mapsto> v) else bs_Get st)
    \<and> map_of (bs_Iterate st) = bs_Get st \<and> bs_Size st = length (bs_Iterate st)"
proof -
  have ok': "bs_ok (bs_Set st k v)" using assms by (rule bs_ok_Set)
  have len: "length (bs_values st) = length (bs_keys st)" using assms by (simp add: bs_ok_def)
  have known: "i < length (bs_values st)" if "bs_keyMap st q = Some i" for q i
    using that bs_ok_keyMap [OF assms] len by auto
  have inj: "i \<noteq> j" if "bs_keyMap st q = Some i" "bs_keyMap st k = Some j" "q \<noteq> k" for q i j
    using that bs_ok_keyMap [OF assms] by auto
  have "bs_Get (bs_Set st k v) q =
      (if bs_Get st k \<noteq> None \<or> bs_Size st < bs_cap st then (bs_Get st)(k \<mapsto> v) else bs_Get st) q" for q
  proof (cases "bs_keyMap st k")
    case None
    then have "bs_Get st k = None" by (simp add: bs_Get_eq [OF assms])
    with None len known [of q] show ?thesis
      unfolding bs_Get_eq [OF ok'] bs_Size_eq [OF assms]
      by (cases "bs_keyMap st q") (auto simp: bs_Get_eq [OF assms] bs_Set_def Let_def nth_append)
  next
    case (Some j)
    then have "bs_Get st k \<noteq> None" by (simp add: bs_Get_eq [OF assms])
    with Some inj [of q _ j] known [of k j] show ?thesis
      unfolding bs_Get_eq [OF ok']
      by (cases "bs_keyMap st q") (auto simp: bs_Get_eq [OF assms] bs_Set_def Let_def nth_list_update)
  qed
  moreover have "map_of (bs_Iterate st) q = bs_Get st q" for q
  proof (cases "bs_keyMap st q")
    case (Some i)
    then have i: "i < length (bs_keys st)" "bs_keys st ! i = q" using bs_ok_keyMap [OF assms] by auto
    have "distinct (bs_keys st)"
      using bs_ok_keyMap [OF assms] by (auto simp: distinct_conv_nth) (metis option.inject)
    with i len have "map_of (zip (bs_keys st) (bs_values st)) q = Some (bs_values st ! i)"
      by (metis map_of_zip_nth)
    with Some show ?thesis by (simp add: bs_Iterate_eq [OF assms] bs_Get_eq [OF assms])
  next
    case None
    then have "q \<notin> set (bs_keys st)" using bs_ok_keyMap [OF assms] by (metis in_set_conv_nth option.distinct(1))
    with None len show ?thesis by (simp add: bs_Iterate_eq [OF assms] bs_Get_eq [OF assms])
  qed
  ultimately show ?thesis
    using ok' len by (simp add: fun_eq_iff bs_Iterate_eq [OF assms] bs_Size_eq [OF assms])
qed

theorem basic_store_bounded_map_witness:
  "\<exists>st. NewBasicIndexedFieldStore 1 = Some st \<and> bs_ok st
     \<and> bs_Get (bs_Set st ''a'' ''1'') = (bs_Get st)(''a'' \<mapsto> ''1'')"
proof -
  obtain st where st: "NewBasicIndexedFieldStore 1 = Some st" "bs_cap st = 1" "bs_keys st = []"
    by (auto simp: NewBasicIndexedFieldStore_def)
  from bs_ok_New [OF st(1)] have ok: "bs_ok st" .
  with basic_store_bounded_map [OF ok, of "''a''" "''1''"] bs_Size_eq [OF ok] st
  show ?thesis by auto
qed

text \<open>
  C24: with a field dictionary, a field that was set is found again with its value and no other
  field changes, on the fast path and on the slow one, as long as the field's index inside its
  chunk is below 64; at a larger index (chunk sizes above 64) the presence bit is shifted out of
  the mask and the value that was just stored cannot be read.
\<close>

theorem indexed_store_get_after_set:
  assumes "st_ok st" and "st_dictionary st = Some d" and "fd_ok d"
  shows "st_Get fd_iface (st_Set fd_iface st k v) k' =
     (if k' = k then (if snd (GetOrRegisterFieldID d k) mod st_chunkSize st < 64 then Some v
                      else slot st (snd (GetOrRegisterFieldID d k)))
      else st_Get fd_iface st k')"
  unfolding fd_iface_def by (rule fdict.get_after_set [OF assms])

theorem indexed_store_get_after_set_witness:
  "st_Get fd_iface (st_Set fd_iface (NewIndexedFieldStoreWithDict 64 (Some NewFieldDictionary))
     ''user'' ''bob'') ''user'' = Some ''bob''"
proof -
  let ?st = "NewIndexedFieldStoreWithDict 64 (Some NewFieldDictionary)"
  have "st_dictionary ?st = Some NewFieldDictionary" and "st_chunkSize ?st = 64"
    and "snd (GetOrRegisterFieldID NewFieldDictionary ''user'') = 0"
    by (simp_all add: NewIndexedFieldStoreWithDict_def registration_defs NewFieldDictionary_def Let_def)
  with indexed_store_get_after_set [OF st_ok_New(1) this(1) fd_ok_New, of "''user''" "''bob''" "''user''"]
  show ?thesis by simp
qed

text \<open>
  The two read paths agree: the bit-scan traversal of the fast path and of Iterate returns the
  same fields in the same order as the index loop of the slow path.
\<close>

theorem indexed_store_paths_agree:
  assumes "st_ok st"
  shows "getAllFastPath st = getAllSlowPath st \<and> st_Iterate st = getAllSlowPath st \<and> GetAll st = st_Iterate st"
  using getAll_fast_slow [OF assms] st_Iterate_eq [OF assms] by (simp add: GetAll_def)

theorem indexed_store_paths_agree_witness:
  "getAllFastPath (st_Set fd_iface (NewIndexedFieldStoreWithDict 64 (Some NewFieldDictionary)) ''user'' ''bob'')
     = getAllSlowPath (st_Set fd_iface (NewIndexedFieldStoreWithDict 64 (Some NewFieldDictionary)) ''user'' ''bob'')"
proof -
  have "st_ok (st_Set fd_iface (NewIndexedFieldStoreWithDict 64 (Some NewFieldDictionary)) ''user'' ''bob'')"
    by (rule st_ok_Set [OF st_ok_New(1) _ fd_ok_New]) (simp add: NewIndexedFieldStoreWithDict_def Let_def)
  from indexed_store_paths_agree [OF this] show ?thesis by simp
qed

text \<open>
  TransformValues, the hook the masker uses, rewrites the value of every stored field with the
  callback and nothing else: the fields keep their keys, number and order.
\<close>

theorem TransformValues_maps_fields:
  assumes "st_ok st"
  shows "st_ok (TransformValues f st) \<and> GetAll (TransformValues f st) = map (\<lambda>(k, v). (k, f k v)) (GetAll st)"
  using TransformValues_frame [OF assms] assms
  by (simp add: GetAll_def getAll_fast_slow)

theorem TransformValues_maps_fields_witness:
  "GetAll (TransformValues (\<lambda>k v. ''***'')
       (st_Set fd_iface (NewIndexedFieldStoreWithDict 64 (Some NewFieldDictionary)) ''user'' ''bob''))
     = map (\<lambda>(k, v). (k, ''***''))
         (GetAll (st_Set fd_iface (NewIndexedFieldStoreWithDict 64 (Some NewFieldDictionary)) ''user'' ''bob''))"
proof -
  have "st_ok (st_Set fd_iface (NewIndexedFieldStoreWithDict 64 (Some NewFieldDictionary)) ''user'' ''bob'')"
    by (rule st_ok_Set [OF st_ok_New(1) _ fd_ok_New]) (simp add: NewIndexedFieldStoreWithDict_def Let_def)
  from TransformValues_maps_fields [OF this, of "\<lambda>k v. ''***''"] show ?thesis by simp
qed

text \<open>
  Without a dictionary the store writes under small sequential ids but reads under the 32-bit
  hash of the key, so a field that was set is stored (the size is one) and cannot be read back.
\<close>

theorem indexed_store_without_dictionary:
  "st_Get fd_iface (st_Set fd_iface (NewIndexedFieldStore 64) ''a'' ''1'') ''a'' = None
   \<and> st_Size (st_Set fd_iface (NewIndexedFieldStore 64) ''a'' ''1'') = 1"
  by (simp add: st_Get_def st_Set_def setSlowPath_def getOrCreateFieldID_def getFieldID_def
      NewIndexedFieldStore_def growTo.simps growChunk_def put_field_def hashString_def st_Size_def
      OnesCount64_one [simplified] Let_def)

end
