(* ===== verification/Json_String.thy ===== *)
theory Json_String
  imports Bit_Fields
begin

text \<open>
  JSON string bodies: \<^verbatim>\<open>adapters/formatters/json/formatter.go\<close>, \<open>jsonEscapeMask\<close>,
  \<open>appendJSONString\<close>, \<open>appendJSONEscaped\<close>, \<open>hexDigit\<close>, \<open>KeyFragment\<close> and the string half of
  \<open>appendKeyPrefix\<close>. The word-at-a-time scan works on \<open>64 word\<close> values; its exactness is proved by
  reading a word as eight 8-bit fields, and the escaped text is read back by an independent JSON
  string reader.
\<close>

section \<open>The per-byte escaping\<close>

definition code :: "char \<Rightarrow> nat" where
  "code c = of_char c"

definition jsonNoEscape :: "char \<Rightarrow> bool" where
  "jsonNoEscape c \<longleftrightarrow> code c \<ge> 32 \<and> c \<noteq> CHR 0x22 \<and> c \<noteq> CHR 0x5C"

definition hexDigit :: "nat \<Rightarrow> char" where
  "hexDigit n = (if n < 10 then char_of (48 + n) else char_of (97 + n - 10))"

text \<open>The switch of \<open>appendJSONEscaped\<close>; the character codes are those of the source's literals:
  backslash, quote, newline, tab, carriage return.\<close>

definition escape_byte :: "char \<Rightarrow> bytes" where
  "escape_byte c =
     (if c = CHR 0x5C then [CHR 0x5C, CHR 0x5C]
      else if c = CHR 0x22 then [CHR 0x5C, CHR 0x22]
      else if c = CHR 0x0A then [CHR 0x5C, CHR ''n'']
      else if c = CHR 0x09 then [CHR 0x5C, CHR ''t'']
      else if c = CHR 0x0D then [CHR 0x5C, CHR ''r'']
      else if code c < 32
      then [CHR 0x5C, CHR ''u'', CHR ''0'', CHR ''0'', hexDigit (code c div 16), hexDigit (code c mod 16)]
      else [c])"

definition appendJSONEscaped :: "bytes \<Rightarrow> string \<Rightarrow> nat \<Rightarrow> bytes" where
  "appendJSONEscaped dst s start =
     (let remaining = drop start s; dst = dst @ take start s
      in foldl (\<lambda>dst c. dst @ escape_byte c) dst remaining)"

section \<open>The word-at-a-time scan\<close>

definition swarOnes :: u64 where
  "swarOnes = 0x0101010101010101"

definition swarHighs :: u64 where
  "swarHighs = 0x8080808080808080"

definition jsonEscapeMask :: "u64 \<Rightarrow> u64" where
  "jsonEscapeMask w =
     (let below = (w - swarOnes * 0x20) AND NOT w AND swarHighs;
          q = w XOR (swarOnes * 0x22);
          quote = (q - swarOnes) AND NOT q AND swarHighs;
          b = w XOR (swarOnes * 0x5C);
          backslash = (b - swarOnes) AND NOT b AND swarHighs
      in below OR quote OR backslash)"

text \<open>The shift-or load of the eight bytes from index \<open>i\<close> on.\<close>

definition byte_at :: "string \<Rightarrow> nat \<Rightarrow> u64" where
  "byte_at s i = word_of_nat (code (s ! i))"

definition load_word :: "string \<Rightarrow> nat \<Rightarrow> u64" where
  "load_word s i =
     byte_at s i OR push_bit 8 (byte_at s (i + 1)) OR push_bit 16 (byte_at s (i + 2))
     OR push_bit 24 (byte_at s (i + 3)) OR push_bit 32 (byte_at s (i + 4))
     OR push_bit 40 (byte_at s (i + 5)) OR push_bit 48 (byte_at s (i + 6))
     OR push_bit 56 (byte_at s (i + 7))"

text \<open>The two loops return the index they stop at and whether a byte to escape was found.\<close>

function scan_words :: "string \<Rightarrow> nat \<Rightarrow> nat \<times> bool" where
  "scan_words s i =
     (if i + 8 \<le> length s
      then if jsonEscapeMask (load_word s i) \<noteq> 0 then (i, True) else scan_words s (i + 8)
      else (i, False))"
  by pat_completeness auto

termination scan_words
  by (relation "measure (\<lambda>(s, i). length s - i)") auto

function scan_tail :: "string \<Rightarrow> nat \<Rightarrow> nat \<times> bool" where
  "scan_tail s i =
     (if i < length s
      then if \<not> jsonNoEscape (s ! i) then (i, True) else scan_tail s (i + 1)
      else (i, False))"
  by pat_completeness auto

termination scan_tail
  by (relation "measure (\<lambda>(s, i). length s - i)") auto

declare scan_words.simps [simp del] scan_tail.simps [simp del]

definition appendJSONString :: "bytes \<Rightarrow> string \<Rightarrow> bytes" where
  "appendJSONString dst s =
     (let (i, dirty) = scan_words s 0 in
      if dirty then appendJSONEscaped dst s i
      else let (i, dirty) = scan_tail s i in
           if dirty then appendJSONEscaped dst s i else dst @ s)"

section \<open>Keys\<close>

definition KeyFragment :: "string \<Rightarrow> bytes" where
  "KeyFragment name =
     (let buf = [CHR '','', CHR 0x22]; buf = appendJSONString buf name in buf @ [CHR 0x22, CHR '':''])"

text \<open>The fused scan-and-copy of a plain key: \<open>dst\<close> grows byte by byte until a byte to escape sends
  the whole key through \<open>appendJSONEscaped\<close>, from \<open>mark\<close> on.\<close>

function copy_key :: "bytes \<Rightarrow> bytes \<Rightarrow> string \<Rightarrow> nat \<Rightarrow> bytes" where
  "copy_key mark dst key i =
     (if i < length key
      then if jsonNoEscape (key ! i) then copy_key mark (dst @ [key ! i]) key (i + 1)
           else appendJSONEscaped mark key i @ [CHR 0x22, CHR '':'']
      else dst @ [CHR 0x22, CHR '':''])"
  by pat_completeness auto

termination copy_key
  by (relation "measure (\<lambda>(m, d, s, i). length s - i)") auto

declare copy_key.simps [simp del]

record field_key =
  fk_Name :: string
  fk_JSONFragment :: bytes

definition appendKeyPrefix :: "bytes \<Rightarrow> field_key option \<Rightarrow> string \<Rightarrow> bytes" where
  "appendKeyPrefix dst kd key =
     (case kd of
        Some k \<Rightarrow> (if fk_JSONFragment k \<noteq> [] then dst @ fk_JSONFragment k
                   else let dst = dst @ [CHR '','', CHR 0x22] in copy_key dst dst key 0)
      | None \<Rightarrow> (let dst = dst @ [CHR '','', CHR 0x22] in copy_key dst dst key 0))"

section \<open>Exactness of the word scan\<close>

lemma xor_field_add:
  assumes "(a :: nat) < 2 ^ k" and "b < 2 ^ k"
  shows "(a + 2 ^ k * x) XOR (b + 2 ^ k * y) = (a XOR b) + 2 ^ k * (x XOR y)"
proof -
  have "take_bit k (a XOR b) = a XOR b"
    using assms by (simp add: take_bit_xor take_bit_nat_eq_self)
  then have "a XOR b < 2 ^ k" by (metis take_bit_nat_less_exp)
  with assms show ?thesis
    by (intro bit_eqI) (simp add: bit_xor_iff bit_field_add)
qed

lemma pack_xor:
  "length xs = length ys \<Longrightarrow> \<forall>x \<in> set xs. x < 2 ^ k \<Longrightarrow> \<forall>y \<in> set ys. y < 2 ^ k \<Longrightarrow>
   pack k xs XOR pack k ys = pack k (map2 (XOR) xs ys)"
  by (induction xs ys rule: list_induct2) (auto simp: xor_field_add)

text \<open>A byte-wise comparison by one subtraction: a marker bit survives exactly when some byte is
  below the threshold; borrows only ever start at such a byte.\<close>

definition marked :: "nat \<Rightarrow> nat \<Rightarrow> nat \<Rightarrow> bool" where
  "marked d p h \<longleftrightarrow> (\<exists>n. bit d n \<and> \<not> bit p n \<and> bit h n)"

definition sub_bytes :: "nat \<Rightarrow> nat list \<Rightarrow> nat" where
  "sub_bytes t bs = nat ((int (pack 8 bs) - int (pack 8 (replicate (length bs) t))) mod 2 ^ (8 * length bs))"

definition less_hit :: "nat \<Rightarrow> nat list \<Rightarrow> bool" where
  "less_hit t bs \<longleftrightarrow> marked (sub_bytes t bs) (pack 8 bs) (pack 8 (replicate (length bs) 128))"

lemma bit_128: "bit (128 :: nat) n \<longleftrightarrow> n = 7"
  using bit_exp_iff [of 7 n, where 'a = nat] by auto

lemma bit_byte_7: "(b :: nat) < 256 \<Longrightarrow> bit b 7 \<longleftrightarrow> 128 \<le> b"
proof -
  assume "b < 256"
  then have "b div 128 = (if 128 \<le> b then 1 else 0)" by auto
  then show ?thesis by (simp add: bit_iff_odd)
qed

lemma ex_nat_split: "(\<exists>n. P n) \<longleftrightarrow> (\<exists>n < k. P n) \<or> (\<exists>m. P (k + m))" for k :: nat
  by (metis le_Suc_ex not_less)

lemma marked_split:
  fixes r b d p h :: nat
  assumes "r < 256" and "b < 256"
  shows "marked (r + 256 * d) (b + 256 * p) (128 + 256 * h) \<longleftrightarrow> (128 \<le> r \<and> b < 128) \<or> marked d p h"
proof -
  have bits: "bit (r + 256 * d) n = (if n < 8 then bit r n else bit d (n - 8))"
    "bit (b + 256 * p) n = (if n < 8 then bit b n else bit p (n - 8))"
    "bit (128 + 256 * h) n = (if n < 8 then n = 7 else bit h (n - 8))" for n
    using assms bit_field_add [of r 8 d n] bit_field_add [of b 8 p n] bit_field_add [of 128 8 h n]
    by (simp_all add: bit_128)
  show ?thesis
    unfolding marked_def bits
    apply (subst ex_nat_split [where k = 8])
    using bit_byte_7 [OF assms(1)] bit_byte_7 [OF assms(2)] by auto
qed

lemma borrow_step:
  assumes "r < 256" and "0 < N"
  shows "nat ((int r + 256 * x) mod (256 * N)) = r + 256 * nat (x mod N)"
proof -
  have "(int r + 256 * x) mod (256 * N) = 256 * (x mod N) + int r"
    using assms zmod_zmult2_eq [of N "int r + 256 * x" 256] by simp
  with assms show ?thesis by (simp add: nat_add_distrib nat_mult_distrib)
qed

lemma sub_bytes_Cons:
  assumes "b < 256" "t \<le> 128"
  shows "t \<le> b \<Longrightarrow> sub_bytes t (b # bs) = (b - t) + 256 * sub_bytes t bs"
    and "b < t \<Longrightarrow> \<exists>d. sub_bytes t (b # bs) = (256 + b - t) + 256 * d"
proof -
  let ?N = "(2 :: int) ^ (8 * length bs)"
  let ?P = "int (pack 8 bs)" and ?K = "int (pack 8 (replicate (length bs) t))"
  have N: "2 ^ (8 * length (b # bs)) = 256 * ?N" and N0: "0 < ?N" by (simp_all add: power_add)
  have D: "sub_bytes t (b # bs) = nat ((int b - int t + 256 * (?P - ?K)) mod (256 * ?N))"
    unfolding sub_bytes_def N by (simp add: algebra_simps)
  {
    assume "t \<le> b"
    then have e: "int b - int t = int (b - t)" by simp
    show "sub_bytes t (b # bs) = (b - t) + 256 * sub_bytes t bs"
      unfolding D e by (subst borrow_step [OF _ N0]) (use assms in \<open>simp_all add: sub_bytes_def\<close>)
  next
    assume "b < t"
    then have e: "int b - int t + 256 * (?P - ?K) = int (256 + b - t) + 256 * (?P - ?K - 1)"
      using assms by (simp add: of_nat_diff)
    have "256 + b - t < 256" using \<open>b < t\<close> by simp
    from borrow_step [OF this N0, of "?P - ?K - 1"]
    show "\<exists>d. sub_bytes t (b # bs) = (256 + b - t) + 256 * d" unfolding D e by blast
  }
qed

lemma less_hit_step:
  assumes b: "b < 256" and t: "0 < t" "t \<le> 128"
  shows "less_hit t (b # bs) \<longleftrightarrow> b < t \<or> less_hit t bs"
proof -
  let ?h = "pack 8 (replicate (length bs) 128)"
  have eq: "less_hit t (b # bs) \<longleftrightarrow> marked (sub_bytes t (b # bs)) (b + 256 * pack 8 bs) (128 + 256 * ?h)"
    by (simp add: less_hit_def)
  show ?thesis
  proof (cases "b < t")
    case True
    then obtain d where d: "sub_bytes t (b # bs) = (256 + b - t) + 256 * d"
      using sub_bytes_Cons(2) [OF b t(2)] by blast
    have "256 + b - t < 256" "128 \<le> 256 + b - t" "b < 128" using True t by auto
    then show ?thesis unfolding eq d using True marked_split [of "256 + b - t" b] b by simp
  next
    case False
    then have d: "sub_bytes t (b # bs) = (b - t) + 256 * sub_bytes t bs"
      using sub_bytes_Cons(1) [OF b t(2)] by simp
    have "b - t < 256" "\<not> (128 \<le> b - t \<and> b < 128)" using b by auto
    with marked_split [OF this(1) b, of "sub_bytes t bs" "pack 8 bs" ?h] show ?thesis
      unfolding eq d less_hit_def [of t bs] using False by blast
  qed
qed

lemma less_hit_iff:
  "\<forall>b \<in> set bs. b < 256 \<Longrightarrow> 0 < t \<Longrightarrow> t \<le> 128 \<Longrightarrow> less_hit t bs \<longleftrightarrow> (\<exists>b \<in> set bs. b < t)"
proof (induction bs)
  case Nil
  then show ?case by (simp add: less_hit_def marked_def)
qed (simp add: less_hit_step)

lemma replicate_8: "replicate 8 x = [x, x, x, x, x, x, x, x]"
  by (simp add: numeral_eq_Suc)

text \<open>The word-level test on a word whose bytes are \<open>bs\<close>.\<close>

lemma word_less_test:
  fixes w m :: u64
  assumes w: "unat w = pack 8 bs" "length bs = 8" "\<forall>b \<in> set bs. b < 256"
    and m: "unat m = pack 8 (replicate 8 t)" and t: "0 < t" "t \<le> 128"
  shows "(w - m) AND NOT w AND swarHighs \<noteq> 0 \<longleftrightarrow> (\<exists>b \<in> set bs. b < t)"
proof -
  have "uint (w - m) = (int (unat w) - int (unat m)) mod 2 ^ 64"
    by (simp add: uint_word_ariths)
  then have d: "sub_bytes t bs = unat (w - m)"
    by (simp add: sub_bytes_def w(2) m [symmetric] w(1) [symmetric] unat_eq_nat_uint [of "w - m"])
  have h: "pack 8 (replicate (length bs) 128) = unat swarHighs"
    by (simp add: w(2) swarHighs_def replicate_8)
  have "less_hit t bs \<longleftrightarrow> (\<exists>n. bit (w - m) n \<and> \<not> bit w n \<and> bit swarHighs n)"
    unfolding less_hit_def marked_def d h by (simp add: w(1) [symmetric] bit_unsigned_iff)
  also have "\<dots> \<longleftrightarrow> (w - m) AND NOT w AND swarHighs \<noteq> 0"
    by (auto simp: bit_eq_iff [of _ "0 :: u64"] bit_and_iff bit_not_iff dest: bit_u64_less)
  finally show ?thesis using less_hit_iff [OF w(3) t] by simp
qed


lemma map2_replicate: "map2 f xs (replicate (length xs) k) = map (\<lambda>a. f a k) xs"
  by (induction xs) auto

lemma quote_test:
  fixes w m :: u64
  assumes w: "unat w = pack 8 bs" "length bs = 8" "\<forall>b \<in> set bs. b < 256"
    and m: "unat m = pack 8 (replicate 8 k)" and k: "k < 256"
  shows "((w XOR m) - swarOnes) AND NOT (w XOR m) AND swarHighs \<noteq> 0 \<longleftrightarrow> k \<in> set bs"
proof -
  let ?xs = "map (\<lambda>a. a XOR k) bs"
  have "unat (w XOR m) = pack 8 ?xs"
    using w m k pack_xor [of bs "replicate 8 k" 8] map2_replicate [of "(XOR)" bs k]
    by (simp add: unsigned_xor_eq)
  moreover have "a XOR k < 256" if "a < 256" for a
  proof -
    have "take_bit 8 (a XOR k) = a XOR k" using that k by (simp add: take_bit_xor take_bit_nat_eq_self)
    with take_bit_nat_less_exp [of 8 "a XOR k"] show ?thesis by simp
  qed
  then have "\<forall>b \<in> set ?xs. b < 256" using w(3) by auto
  moreover have "unat swarOnes = pack 8 (replicate 8 1)" by (simp add: swarOnes_def replicate_8)
  ultimately have "((w XOR m) - swarOnes) AND NOT (w XOR m) AND swarHighs \<noteq> 0 \<longleftrightarrow> (\<exists>b \<in> set ?xs. b < 1)"
    using w(2) by (intro word_less_test) simp_all
  also have "\<dots> \<longleftrightarrow> (\<exists>a \<in> set bs. a XOR k = 0)" by auto
  also have "\<dots> \<longleftrightarrow> k \<in> set bs" by (metis xor_self_eq xor.assoc xor.left_neutral)
  finally show ?thesis .
qed

lemma or_field: "a < 256 \<Longrightarrow> word_of_nat a OR push_bit 8 (word_of_nat x) = (word_of_nat (a + 2 ^ 8 * x) :: u64)"
proof -
  assume a: "a < 256"
  have "take_bit 8 a = a" using a by (simp add: take_bit_nat_eq_self)
  then have z: "bit a n \<Longrightarrow> n < 8" for n by (metis bit_take_bit_iff)
  have "a OR push_bit 8 x = a + 2 ^ 8 * x"
  proof (rule bit_eqI)
    fix n
    show "bit (a OR push_bit 8 x) n = bit (a + 2 ^ 8 * x) n"
      by (subst bit_field_add) (use a z [of n] in \<open>auto simp: bit_or_iff bit_push_bit_iff\<close>)
  qed
  then show ?thesis by (metis of_nat_or_eq of_nat_push_bit)
qed

lemma code_less [simp]: "code c < 256"
  by (simp add: code_def)

lemma unat_load_word:
  assumes "i + 8 \<le> length s"
  shows "unat (load_word s i) = pack 8 (map code (take 8 (drop i s)))"
proof -
  have t: "take 8 (drop i s) = [s ! i, s ! (i+1), s ! (i+2), s ! (i+3), s ! (i+4), s ! (i+5), s ! (i+6), s ! (i+7)]"
    using assms by (intro nth_equalityI) (auto simp: less_Suc_eq numeral_eq_Suc)
  let ?bs = "map code (take 8 (drop i s))"
  let ?b = "\<lambda>k. word_of_nat (code (s ! (i + k))) :: u64"
  have "load_word s i = word_of_nat (code (s ! i)) OR push_bit 8 (?b 1 OR push_bit 8 (?b 2 OR push_bit 8 (?b 3
      OR push_bit 8 (?b 4 OR push_bit 8 (?b 5 OR push_bit 8 (?b 6 OR push_bit 8 (?b 7 OR push_bit 8 (word_of_nat 0))))))))"
    by (simp add: load_word_def byte_at_def push_bit_or)
  also have "\<dots> = word_of_nat (pack 8 ?bs)"
    unfolding t by (simp only: list.map pack.simps or_field code_less)
  finally have "load_word s i = word_of_nat (pack 8 ?bs)" .
  moreover have "pack 8 ?bs < 2 ^ (8 * length ?bs)" by (rule pack_bound) auto
  moreover have "8 * length ?bs = 64" using assms by simp
  ultimately show ?thesis by (simp add: unsigned_of_nat take_bit_nat_eq_self)
qed

lemma jsonEscapeMask_iff:
  assumes "i + 8 \<le> length s"
  shows "jsonEscapeMask (load_word s i) \<noteq> 0 \<longleftrightarrow> (\<exists>c \<in> set (take 8 (drop i s)). \<not> jsonNoEscape c)"
proof -
  let ?w = "load_word s i" and ?bs = "map code (take 8 (drop i s))"
  note w = unat_load_word [OF assms]
  have l: "length ?bs = 8" and b: "\<forall>b \<in> set ?bs. b < 256" using assms by auto
  have c: "unat (swarOnes * 0x20) = pack 8 (replicate 8 32)" "unat (swarOnes * 0x22) = pack 8 (replicate 8 34)"
    "unat (swarOnes * 0x5C) = pack 8 (replicate 8 92)"
    by (simp_all add: swarOnes_def replicate_8)
  have "jsonEscapeMask ?w \<noteq> 0 \<longleftrightarrow>
      (\<exists>b \<in> set ?bs. b < 32) \<or> 34 \<in> set ?bs \<or> 92 \<in> set ?bs"
    unfolding jsonEscapeMask_def Let_def
    using word_less_test [OF w l b c(1)] quote_test [OF w l b c(2)] quote_test [OF w l b c(3)]
    by (simp add: or_eq_0_iff)
  moreover have "c = CHR 0x22 \<longleftrightarrow> code c = 34" "c = CHR 0x5C \<longleftrightarrow> code c = 92" for c
    using of_char_eq_iff [of c "CHR 0x22", where 'a = nat] of_char_eq_iff [of c "CHR 0x5C", where 'a = nat]
    by (simp_all add: code_def)
  ultimately show ?thesis by (auto simp: jsonNoEscape_def not_le image_iff)
qed


section \<open>The escaped string\<close>

definition json_escape :: "string \<Rightarrow> bytes" where
  "json_escape s = concat (map escape_byte s)"

lemma json_escape_simps [simp]:
  "json_escape [] = []" "json_escape (c # s) = escape_byte c @ json_escape s"
  "json_escape (s @ t) = json_escape s @ json_escape t"
  by (simp_all add: json_escape_def)

lemma foldl_append_concat: "foldl (\<lambda>dst c. dst @ f c) dst s = dst @ concat (map f s)"
  by (induction s arbitrary: dst) auto

lemma escape_clean: "jsonNoEscape c \<Longrightarrow> escape_byte c = [c]"
  by (auto simp: jsonNoEscape_def escape_byte_def code_def)

lemma json_escape_clean: "\<forall>c \<in> set s. jsonNoEscape c \<Longrightarrow> json_escape s = s"
  by (induction s) (auto simp: escape_clean)

lemma appendJSONEscaped_eq:
  assumes "\<forall>c \<in> set (take i s). jsonNoEscape c"
  shows "appendJSONEscaped dst s i = dst @ json_escape s"
proof -
  have "json_escape s = json_escape (take i s @ drop i s)" by simp
  also have "\<dots> = take i s @ json_escape (drop i s)"
    by (simp only: json_escape_simps json_escape_clean [OF assms])
  finally show ?thesis
    by (simp add: appendJSONEscaped_def foldl_append_concat flip: json_escape_def)
qed

lemma take_add_set: "set (take (i + k) s) = set (take i s) \<union> set (take k (drop i s))"
  by (simp add: take_add)

lemma scan_words_clean:
  "scan_words s i = (j, d) \<Longrightarrow> \<forall>c \<in> set (take i s). jsonNoEscape c \<Longrightarrow>
     \<forall>c \<in> set (take j s). jsonNoEscape c"
proof (induction s i rule: scan_words.induct)
  case (1 s i)
  show ?case
  proof (cases "i + 8 \<le> length s \<and> jsonEscapeMask (load_word s i) = 0")
    case True
    with jsonEscapeMask_iff [of i s] 1(3)
    have "\<forall>c \<in> set (take (i + 8) s). jsonNoEscape c" unfolding take_add_set by auto
    with 1(1) 1(2) True show ?thesis by (simp add: scan_words.simps [of s i])
  next
    case False
    with 1(2,3) show ?thesis by (auto simp: scan_words.simps [of s i] split: if_splits)
  qed
qed

lemma scan_tail_clean:
  "scan_tail s i = (j, d) \<Longrightarrow> \<forall>c \<in> set (take i s). jsonNoEscape c \<Longrightarrow>
     (\<forall>c \<in> set (take j s). jsonNoEscape c) \<and> (\<not> d \<longrightarrow> length s \<le> j)"
proof (induction s i rule: scan_tail.induct)
  case (1 s i)
  show ?case
  proof (cases "i < length s \<and> jsonNoEscape (s ! i)")
    case True
    with 1(3) have "\<forall>c \<in> set (take (i + 1) s). jsonNoEscape c" by (simp add: take_Suc_conv_app_nth)
    with 1(1) 1(2) True show ?thesis by (simp add: scan_tail.simps [of s i])
  next
    case False
    with 1(2,3) show ?thesis by (auto simp: scan_tail.simps [of s i] split: if_splits)
  qed
qed

lemma appendJSONString_eq [simp]: "appendJSONString dst s = dst @ json_escape s"
proof -
  obtain i d where w: "scan_words s 0 = (i, d)" by fastforce
  obtain j e where t: "scan_tail s i = (j, e)" by fastforce
  from scan_words_clean [OF w] have ci: "\<forall>c \<in> set (take i s). jsonNoEscape c" by simp
  from scan_tail_clean [OF t ci] have cj: "\<forall>c \<in> set (take j s). jsonNoEscape c"
    and j: "\<not> e \<Longrightarrow> take j s = s" by auto
  show ?thesis
    using w t appendJSONEscaped_eq [OF ci] appendJSONEscaped_eq [OF cj] json_escape_clean [OF cj] j
    by (cases d; cases e) (simp_all add: appendJSONString_def)
qed

lemma copy_key_eq:
  "\<forall>c \<in> set (take i key). jsonNoEscape c \<Longrightarrow> i \<le> length key \<Longrightarrow>
   copy_key mark (mark @ take i key) key i = mark @ json_escape key @ [CHR 0x22, CHR '':'']"
proof (induction "length key - i" arbitrary: i)
  case 0
  then show ?case by (simp add: copy_key.simps [of _ _ _ i] json_escape_clean)
next
  case (Suc n)
  then have i: "i < length key" by simp
  show ?case
  proof (cases "jsonNoEscape (key ! i)")
    case True
    with Suc.prems i have "\<forall>c \<in> set (take (Suc i) key). jsonNoEscape c" by (simp add: take_Suc_conv_app_nth)
    with Suc.hyps(1) [of "Suc i"] Suc.hyps(2) i True show ?thesis
      by (simp add: copy_key.simps [of _ _ _ i] take_Suc_conv_app_nth)
  next
    case False
    with i Suc.prems show ?thesis by (simp add: copy_key.simps [of _ _ _ i] appendJSONEscaped_eq)
  qed
qed

definition key_member :: "string \<Rightarrow> bytes" where
  "key_member key = [CHR '','', CHR 0x22] @ json_escape key @ [CHR 0x22, CHR '':'']"

lemma KeyFragment_eq: "KeyFragment name = key_member name"
  by (simp add: KeyFragment_def key_member_def Let_def)

lemma appendKeyPrefix_eq:
  "appendKeyPrefix dst kd key =
     dst @ (case kd of Some k \<Rightarrow> if fk_JSONFragment k \<noteq> [] then fk_JSONFragment k else key_member key
            | None \<Rightarrow> key_member key)"
  using copy_key_eq [of 0 key "dst @ [CHR '','', CHR 0x22]"]
  by (simp add: appendKeyPrefix_def key_member_def Let_def split: option.splits)


section \<open>Reading a string body back\<close>

text \<open>
  A JSON string reader, independent of the encoder: it reads up to the closing quote and refuses
  raw control characters and unknown escapes; of the four-digit escapes it accepts those of one byte.
\<close>

definition hex_val :: "char \<Rightarrow> nat option" where
  "hex_val c =
     (if 48 \<le> code c \<and> code c \<le> 57 then Some (code c - 48)
      else if 97 \<le> code c \<and> code c \<le> 102 then Some (code c - 87)
      else if 65 \<le> code c \<and> code c \<le> 70 then Some (code c - 55)
      else None)"

definition simple_escape :: "char \<Rightarrow> char option" where
  "simple_escape e =
     (if e \<in> {CHR 0x22, CHR 0x5C, CHR ''/''} then Some e
      else if e = CHR ''n'' then Some (CHR 0x0A)
      else if e = CHR ''t'' then Some (CHR 0x09)
      else if e = CHR ''r'' then Some (CHR 0x0D)
      else if e = CHR ''b'' then Some (CHR 0x08)
      else if e = CHR ''f'' then Some (CHR 0x0C)
      else None)"

definition push_char :: "char \<Rightarrow> (string \<times> string) option \<Rightarrow> (string \<times> string) option" where
  "push_char c r = map_option (\<lambda>(s, rest). (c # s, rest)) r"

fun read_string :: "string \<Rightarrow> (string \<times> string) option" where
  "read_string [] = None"
| "read_string (c # cs) =
     (if c = CHR 0x22 then Some ([], cs)
      else if c = CHR 0x5C then
        (case cs of
           [] \<Rightarrow> None
         | e # r \<Rightarrow>
             if e = CHR ''u'' then
               (case r of
                  a # b # h # l # r' \<Rightarrow>
                    (case (hex_val h, hex_val l) of
                       (Some x, Some y) \<Rightarrow>
                         if a = CHR ''0'' \<and> b = CHR ''0'' then push_char (char_of (16 * x + y)) (read_string r') else None
                     | _ \<Rightarrow> None)
                | _ \<Rightarrow> None)
             else (case simple_escape e of Some x \<Rightarrow> push_char x (read_string r) | None \<Rightarrow> None))
      else if code c < 32 then None
      else push_char c (read_string cs))"

lemma hex_val_hexDigit: "n < 16 \<Longrightarrow> hex_val (hexDigit n) = Some n"
  by (auto simp: hex_val_def hexDigit_def code_def)

lemma read_escape_byte: "read_string (escape_byte c @ rest) = push_char c (read_string rest)"
proof -
  have "code c div 16 < 16" using code_less [of c] by (simp add: less_mult_imp_div_less)
  moreover have "char_of (16 * (code c div 16) + code c mod 16) = c" by (simp add: code_def)
  ultimately show ?thesis
    by (simp add: escape_byte_def hex_val_hexDigit simple_escape_def)
qed

lemma push_char_Some [simp]: "push_char c (Some (s, r)) = Some (c # s, r)"
  by (simp add: push_char_def)

lemma read_json_escape [simp]: "read_string (json_escape s @ CHR 0x22 # rest) = Some (s, rest)"
  by (induction s) (simp_all add: read_escape_byte)

text \<open>Nothing in an escaped body can end the string or the line.\<close>

lemma escape_byte_chars: "x \<in> set (escape_byte c) \<Longrightarrow> 32 \<le> code x"
  by (auto simp: escape_byte_def hexDigit_def code_def split: if_splits)

lemma json_escape_chars: "x \<in> set (json_escape s) \<Longrightarrow> 32 \<le> code x"
  by (auto simp: json_escape_def escape_byte_chars)

text \<open>
  The escape scan is exact: on every eight bytes, the SWAR mask is non-zero exactly when one of
  the bytes is a control character, a quote or a backslash.
\<close>

theorem jsonEscapeMask_exact:
  assumes "i + 8 \<le> length s"
  shows "jsonEscapeMask (load_word s i) \<noteq> 0 \<longleftrightarrow> (\<exists>j < 8. \<not> jsonNoEscape (s ! (i + j)))"
proof -
  let ?xs = "take 8 (drop i s)"
  have "length ?xs = 8" "\<And>j. j < 8 \<Longrightarrow> ?xs ! j = s ! (i + j)" using assms by simp_all
  then show ?thesis unfolding jsonEscapeMask_iff [OF assms] by (metis in_set_conv_nth)
qed

theorem jsonEscapeMask_exact_witness:
  "jsonEscapeMask (load_word (''login: '' @ [CHR 0x22]) 0) \<noteq> 0"
proof -
  have "\<not> jsonNoEscape ((''login: '' @ [CHR 0x22]) ! (0 + 7))" by (simp add: jsonNoEscape_def)
  then have "\<exists>j < 8. \<not> jsonNoEscape ((''login: '' @ [CHR 0x22]) ! (0 + j))"
    by (intro exI [of _ 7] conjI) simp_all
  moreover have "0 + 8 \<le> length (''login: '' @ [CHR 0x22])" by simp
  ultimately show ?thesis using jsonEscapeMask_exact [of 0 "''login: '' @ [CHR 0x22]"] by blast
qed

text \<open>
  C1: appending a string as a JSON string body loses nothing and lets nothing out: whatever bytes the
  string holds, the text appended holds no control character and the JSON reader that starts after
  the opening quote returns exactly the string and stops at the quote the encoder writes next.
\<close>

theorem appendJSONString_reads_back:
  "\<exists>body. appendJSONString dst s = dst @ body \<and> (\<forall>rest. read_string (body @ CHR 0x22 # rest) = Some (s, rest))
     \<and> list_all (\<lambda>x. 32 \<le> code x) body"
  by (intro exI [of _ "json_escape s"]) (simp add: list_all_iff json_escape_chars)

end
