(* ===== verification/Json_Line.thy ===== *)
theory Json_Line
  imports Json_String String_Helpers
begin

text \<open>
  JSON log lines: values, the time and level header with its caches, and the two rendering paths
  (\<^verbatim>\<open>adapters/formatters/json/formatter.go\<close>, \<^verbatim>\<open>direct.go\<close>, \<^verbatim>\<open>time_header.go\<close>; the field and entry
  types of \<^verbatim>\<open>types/field_value.go\<close>, \<^verbatim>\<open>types/field_key.go\<close>, \<^verbatim>\<open>types/typed_field.go\<close> and
  \<^verbatim>\<open>types/log_entry.go\<close>, without the parts the formatter does not read).

  A finite float is the text \<open>strconv.AppendFloat(_, 'g', -1, _)\<close> writes for it; an error is its
  message; a value of any other dynamic type is the text \<open>fmt\<close> prints for it. \<open>tz\<close> gives the offset
  of the local time zone, in seconds, at an instant. The atomic cache slots are the fields of a
  record that every header call returns updated.
\<close>

section \<open>Values\<close>

datatype go_float = FNaN | FPosInf | FNegInf | FNum string

datatype go_any =
    GNil | GString string | GBool bool
  | GInt int | GInt8 int | GInt16 int | GInt32 int | GInt64 int
  | GUint int | GUint8 int | GUint16 int | GUint32 int | GUint64 int
  | GFloat32 go_float | GFloat64 go_float
  | GError string | GOther string

datatype field_kind =
  KindUnknown | KindString | KindInt | KindInt64 | KindFloat64 | KindBool | KindError | KindAny

record field_value =
  fv_Kind :: field_kind
  fv_Int64 :: int
  fv_Float64 :: go_float
  fv_String :: string
  fv_Any :: go_any

definition zero_value :: field_value where
  "zero_value = \<lparr>fv_Kind = KindUnknown, fv_Int64 = 0, fv_Float64 = FNum ''0'', fv_String = [], fv_Any = GNil\<rparr>"

definition StringValue :: "string \<Rightarrow> field_value" where
  "StringValue s = zero_value\<lparr>fv_Kind := KindString, fv_String := s\<rparr>"

definition IntValue :: "int \<Rightarrow> field_value" where
  "IntValue i = zero_value\<lparr>fv_Kind := KindInt, fv_Int64 := i\<rparr>"

definition Int64Value :: "int \<Rightarrow> field_value" where
  "Int64Value i = zero_value\<lparr>fv_Kind := KindInt64, fv_Int64 := i\<rparr>"

definition Float64Value :: "go_float \<Rightarrow> field_value" where
  "Float64Value f = zero_value\<lparr>fv_Kind := KindFloat64, fv_Float64 := f\<rparr>"

definition BoolValue :: "bool \<Rightarrow> field_value" where
  "BoolValue b = (if b then zero_value\<lparr>fv_Kind := KindBool, fv_Int64 := 1\<rparr>
                  else zero_value\<lparr>fv_Kind := KindBool, fv_Int64 := 0\<rparr>)"

definition ErrorValue :: "string option \<Rightarrow> field_value" where
  "ErrorValue err = (case err of None \<Rightarrow> zero_value\<lparr>fv_Kind := KindError\<rparr>
                     | Some e \<Rightarrow> zero_value\<lparr>fv_Kind := KindError, fv_String := e\<rparr>)"

definition AnyValue :: "go_any \<Rightarrow> field_value" where
  "AnyValue v = zero_value\<lparr>fv_Kind := KindAny, fv_Any := v\<rparr>"

definition ToInterface :: "field_value \<Rightarrow> go_any" where
  "ToInterface v = (case fv_Kind v of
       KindString \<Rightarrow> GString (fv_String v) | KindInt \<Rightarrow> GInt (fv_Int64 v) | KindInt64 \<Rightarrow> GInt64 (fv_Int64 v)
     | KindFloat64 \<Rightarrow> GFloat64 (fv_Float64 v) | KindBool \<Rightarrow> GBool (fv_Int64 v \<noteq> 0)
     | KindError \<Rightarrow> GString (fv_String v) | KindAny \<Rightarrow> fv_Any v | KindUnknown \<Rightarrow> GNil)"

definition smallInts :: "string list" where
  "smallInts = map (\<lambda>i. itoa (int i)) [0..<512]"

definition json_appendInt :: "bytes \<Rightarrow> int \<Rightarrow> bytes" where
  "json_appendInt dst i = (if 0 \<le> i \<and> i < int (length smallInts) then dst @ smallInts ! nat i else dst @ itoa i)"

definition json_appendUint :: "bytes \<Rightarrow> int \<Rightarrow> bytes" where
  "json_appendUint dst u = (if u < int (length smallInts) then dst @ smallInts ! nat u else dst @ itoa u)"

definition appendFloat :: "bytes \<Rightarrow> go_float \<Rightarrow> bytes" where
  "appendFloat dst f = (case f of
       FNaN \<Rightarrow> dst @ ''\"NaN\"'' | FPosInf \<Rightarrow> dst @ ''\"+Inf\"'' | FNegInf \<Rightarrow> dst @ ''\"-Inf\"''
     | FNum t \<Rightarrow> dst @ t)"

definition append_quoted :: "bytes \<Rightarrow> string \<Rightarrow> bytes" where
  "append_quoted dst s = (let dst = dst @ ''\"''; dst = appendJSONString dst s in dst @ ''\"'')"

fun appendAny :: "bytes \<Rightarrow> go_any \<Rightarrow> bytes" where
  "appendAny dst GNil = dst @ ''null''"
| "appendAny dst (GString x) = append_quoted dst x"
| "appendAny dst (GBool x) = (if x then dst @ ''true'' else dst @ ''false'')"
| "appendAny dst (GInt x) = json_appendInt dst x"
| "appendAny dst (GInt8 x) = json_appendInt dst x"
| "appendAny dst (GInt16 x) = json_appendInt dst x"
| "appendAny dst (GInt32 x) = json_appendInt dst x"
| "appendAny dst (GInt64 x) = json_appendInt dst x"
| "appendAny dst (GUint x) = json_appendUint dst x"
| "appendAny dst (GUint8 x) = json_appendUint dst x"
| "appendAny dst (GUint16 x) = json_appendUint dst x"
| "appendAny dst (GUint32 x) = json_appendUint dst x"
| "appendAny dst (GUint64 x) = json_appendUint dst x"
| "appendAny dst (GFloat32 x) = appendFloat dst x"
| "appendAny dst (GFloat64 x) = appendFloat dst x"
| "appendAny dst (GError e) = append_quoted dst e"
| "appendAny dst (GOther t) = append_quoted dst t"

definition appendValue :: "bytes \<Rightarrow> field_value \<Rightarrow> go_any \<Rightarrow> bytes" where
  "appendValue dst v legacy = (case fv_Kind v of
       KindString \<Rightarrow> append_quoted dst (fv_String v)
     | KindInt \<Rightarrow> json_appendInt dst (fv_Int64 v)
     | KindInt64 \<Rightarrow> json_appendInt dst (fv_Int64 v)
     | KindFloat64 \<Rightarrow> appendFloat dst (fv_Float64 v)
     | KindBool \<Rightarrow> (if fv_Int64 v \<noteq> 0 then dst @ ''true'' else dst @ ''false'')
     | KindError \<Rightarrow>
         (let dst = dst @ ''\"'';
              dst = (if fv_String v \<noteq> [] then appendJSONString dst (fv_String v)
                     else case fv_Any v of GError e \<Rightarrow> appendJSONString dst e | _ \<Rightarrow> dst)
          in dst @ ''\"'')
     | KindAny \<Rightarrow> appendAny dst (fv_Any v)
     | KindUnknown \<Rightarrow> appendAny dst legacy)"

section \<open>Fields and entries\<close>

record typed_field =
  tf_Key :: string
  tf_KeyDesc :: "field_key option"
  tf_Val :: field_value
  tf_Value :: go_any

definition appendField :: "bytes \<Rightarrow> typed_field \<Rightarrow> bytes" where
  "appendField dst field =
     (let dst = appendKeyPrefix dst (tf_KeyDesc field) (tf_Key field)
      in appendValue dst (tf_Val field) (tf_Value field))"

definition base_name :: "string \<Rightarrow> string" where
  "base_name file = rev (takeWhile (\<lambda>c. c \<noteq> CHR ''/'' \<and> c \<noteq> CHR 0x5C) (rev file))"

definition AppendCaller :: "bytes \<Rightarrow> string \<Rightarrow> int \<Rightarrow> bytes" where
  "AppendCaller dst file line =
     (let dst = dst @ '',\"caller\":\"'';
          dst = appendJSONString dst (base_name file);
          dst = dst @ '':''; dst = json_appendInt dst line
      in dst @ ''\"'')"

record log_entry =
  le_Timestamp :: "int option"   \<comment> \<open>unix nanoseconds, \<open>None\<close> for the zero time\<close>
  le_TimestampUnix :: int
  le_Level :: nat
  le_Message :: string
  le_File :: string
  le_Line :: int
  le_Fields :: "typed_field list"
  le_StaticFields :: "typed_field list"
  le_StaticFieldCount :: int

section \<open>The time and level header\<close>

datatype time_precision = PrecisionSecond | PrecisionMilli | PrecisionMicro | PrecisionNano

definition levelCache :: "string list" where
  "levelCache = ['',\"level\":\"TRACE\"'', '',\"level\":\"DEBUG\"'', '',\"level\":\"INFO\"'', '',\"level\":\"WARN\"'',
     '',\"level\":\"ERROR\"'', '',\"level\":\"FATAL\"'', '',\"level\":\"PANIC\"'']"

definition clampLevel :: "nat \<Rightarrow> nat" where
  "clampLevel level = (if level > 6 then 6 else level)"

text \<open>\<open>time.Unix(sec, 0).AppendFormat(_, time.RFC3339)\<close> in the local zone.\<close>

definition zpad :: "nat \<Rightarrow> int \<Rightarrow> string" where
  "zpad w x = (let u = dec (nat \<bar>x\<bar>) in (if x < 0 then ''-'' else []) @ replicate (w - length u) (CHR ''0'') @ u)"

definition rfc3339 :: "(int \<Rightarrow> int) \<Rightarrow> int \<Rightarrow> string" where
  "rfc3339 tz sec =
     (let off = tz sec; l = sec + off;
          (year, month, day) = civil (l div 86400);
          (hour, mn, s) = clock l;
          b = zpad 4 year @ ''-'' @ zpad 2 month @ ''-'' @ zpad 2 day @ ''T''
            @ zpad 2 hour @ '':'' @ zpad 2 mn @ '':'' @ zpad 2 s;
          zone = go_div off 60
      in if off = 0 then b @ ''Z''
         else if zone < 0 then b @ ''-'' @ zpad 2 (- zone div 60) @ '':'' @ zpad 2 (- zone mod 60)
         else b @ ''+'' @ zpad 2 (zone div 60) @ '':'' @ zpad 2 (zone mod 60))"

record fused_header =
  fh_sec :: int
  fh_n :: nat
  fh_buf :: bytes

record ts_parts =
  tp_sec :: int
  tp_n :: nat
  tp_buf :: bytes

record header_cache =
  hc_fused :: "fused_header option list"
  hc_parts :: "ts_parts option"

definition empty_cache :: header_cache where
  "empty_cache = \<lparr>hc_fused = replicate 7 None, hc_parts = None\<rparr>"

definition splitUnixNanos :: "int \<Rightarrow> int \<times> int" where
  "splitUnixNanos unixNanos =
     (let sec = go_div unixNanos 1000000000; frac = go_mod unixNanos 1000000000
      in if frac < 0 then (sec - 1, frac + 1000000000) else (sec, frac))"

definition buildFusedHeader ::
  "(int \<Rightarrow> int) \<Rightarrow> header_cache \<Rightarrow> bytes \<Rightarrow> int \<Rightarrow> nat \<Rightarrow> header_cache \<times> bytes" where
  "buildFusedHeader tz hc dst sec lvl =
     (let b = ''{\"time\":\"'';
          b = b @ rfc3339 tz sec;
          b = b @ ''\"'';
          b = b @ levelCache ! lvl;
          h = \<lparr>fh_sec = sec, fh_n = length b mod 256, fh_buf = b\<rparr>
      in (hc\<lparr>hc_fused := (hc_fused hc)[lvl := Some h]\<rparr>, dst @ take (fh_n h) (fh_buf h)))"

definition appendHeaderSecond ::
  "(int \<Rightarrow> int) \<Rightarrow> header_cache \<Rightarrow> bytes \<Rightarrow> int \<Rightarrow> nat \<Rightarrow> header_cache \<times> bytes" where
  "appendHeaderSecond tz hc dst unixNanos level =
     (let lvl = clampLevel level; (sec, _) = splitUnixNanos unixNanos
      in case hc_fused hc ! lvl of
           Some h \<Rightarrow> (if fh_sec h = sec then (hc, dst @ take (fh_n h) (fh_buf h))
                      else buildFusedHeader tz hc dst sec lvl)
         | None \<Rightarrow> buildFusedHeader tz hc dst sec lvl)"

definition buildTsParts :: "(int \<Rightarrow> int) \<Rightarrow> header_cache \<Rightarrow> int \<Rightarrow> header_cache \<times> ts_parts" where
  "buildTsParts tz hc sec =
     (let b = rfc3339 tz sec; p = \<lparr>tp_sec = sec, tp_n = length b mod 256, tp_buf = b\<rparr>
      in (hc\<lparr>hc_parts := Some p\<rparr>, p))"

fun frac_digits :: "nat \<Rightarrow> int \<Rightarrow> bytes \<Rightarrow> bytes" where
  "frac_digits 0 frac scratch = scratch"
| "frac_digits (Suc i) frac scratch =
     frac_digits i (go_div frac 10) (byte (48 + go_mod frac 10) # scratch)"

definition appendFracDigits :: "bytes \<Rightarrow> int \<Rightarrow> nat \<Rightarrow> bytes" where
  "appendFracDigits dst frac digits = dst @ frac_digits digits frac []"

definition subSecondAppender ::
  "(int \<Rightarrow> int) \<Rightarrow> nat \<Rightarrow> int \<Rightarrow> header_cache \<Rightarrow> bytes \<Rightarrow> int \<Rightarrow> nat \<Rightarrow> header_cache \<times> bytes" where
  "subSecondAppender tz digits dv hc dst unixNanos level =
     (let (sec, nanos) = splitUnixNanos unixNanos;
          frac = go_div nanos dv;
          (hc, p) = (case hc_parts hc of
                       Some p \<Rightarrow> if tp_sec p \<noteq> sec then buildTsParts tz hc sec else (hc, p)
                     | None \<Rightarrow> buildTsParts tz hc sec);
          dst = dst @ ''{\"time\":\"'';
          dst = dst @ take 19 (tp_buf p);
          dst = dst @ ''.'';
          dst = appendFracDigits dst frac digits;
          dst = dst @ drop 19 (take (tp_n p) (tp_buf p));
          dst = dst @ ''\"''
      in (hc, dst @ levelCache ! clampLevel level))"

fun headerAppenders ::
  "(int \<Rightarrow> int) \<Rightarrow> time_precision \<Rightarrow> header_cache \<Rightarrow> bytes \<Rightarrow> int \<Rightarrow> nat \<Rightarrow> header_cache \<times> bytes" where
  "headerAppenders tz PrecisionSecond = appendHeaderSecond tz"
| "headerAppenders tz PrecisionMilli = subSecondAppender tz 3 1000000"
| "headerAppenders tz PrecisionMicro = subSecondAppender tz 6 1000"
| "headerAppenders tz PrecisionNano = subSecondAppender tz 9 1"

definition NewJsonFormatterWithPrecision :: "nat \<Rightarrow> time_precision" where
  "NewJsonFormatterWithPrecision p =
     (let p = (if p \<ge> 4 then 3 else p)
      in [PrecisionSecond, PrecisionMilli, PrecisionMicro, PrecisionNano] ! p)"

definition entryUnixNanos :: "log_entry \<Rightarrow> int" where
  "entryUnixNanos entry =
     (if le_TimestampUnix entry \<noteq> 0 then le_TimestampUnix entry
      else case le_Timestamp entry of Some t \<Rightarrow> t | None \<Rightarrow> 0)"

section \<open>Whole lines\<close>

definition appendHeaderWith ::
  "(int \<Rightarrow> int) \<Rightarrow> time_precision \<Rightarrow> header_cache \<Rightarrow> bytes \<Rightarrow> int \<Rightarrow> nat \<Rightarrow> string \<Rightarrow> header_cache \<times> bytes" where
  "appendHeaderWith tz p hc dst tsUnixNanos level msg =
     (let (hc, dst) = headerAppenders tz p hc dst tsUnixNanos level;
          dst = dst @ '',\"message\":\"'';
          dst = appendJSONString dst msg
      in (hc, dst @ ''\"''))"

definition Format ::
  "(int \<Rightarrow> int) \<Rightarrow> time_precision \<Rightarrow> header_cache \<Rightarrow> log_entry option \<Rightarrow> bytes \<Rightarrow> header_cache \<times> bytes" where
  "Format tz p hc e dst = (case e of
       None \<Rightarrow> (hc, dst)
     | Some entry \<Rightarrow>
         (let (hc, dst) = appendHeaderWith tz p hc dst (entryUnixNanos entry) (le_Level entry) (le_Message entry);
              dst = (if le_Line entry \<ge> 0 \<and> le_File entry \<noteq> [] then AppendCaller dst (le_File entry) (le_Line entry) else dst);
              n = (if le_StaticFieldCount entry > int (length (le_StaticFields entry))
                   then int (length (le_StaticFields entry)) else le_StaticFieldCount entry);
              dst = foldl appendField dst (take (nat n) (le_StaticFields entry));
              dst = foldl appendField dst (le_Fields entry)
          in (hc, dst @ [CHR ''}'', CHR 0x0A])))"

definition AppendCloser :: "bytes \<Rightarrow> bytes" where
  "AppendCloser dst = dst @ [CHR ''}'', CHR 0x0A]"

definition AppendField :: "bytes \<Rightarrow> field_key option \<Rightarrow> string \<Rightarrow> field_value \<Rightarrow> bytes" where
  "AppendField dst kd key v = (let dst = appendKeyPrefix dst kd key in appendValue dst v GNil)"

definition AppendStringField :: "bytes \<Rightarrow> field_key option \<Rightarrow> string \<Rightarrow> string \<Rightarrow> bytes" where
  "AppendStringField dst kd key value =
     (let dst = appendKeyPrefix dst kd key; dst = dst @ ''\"''; dst = appendJSONString dst value in dst @ ''\"'')"

definition AppendIntField :: "bytes \<Rightarrow> field_key option \<Rightarrow> string \<Rightarrow> int \<Rightarrow> bytes" where
  "AppendIntField dst kd key value = (let dst = appendKeyPrefix dst kd key in json_appendInt dst value)"

definition AppendFloat64Field :: "bytes \<Rightarrow> field_key option \<Rightarrow> string \<Rightarrow> go_float \<Rightarrow> bytes" where
  "AppendFloat64Field dst kd key value = (let dst = appendKeyPrefix dst kd key in appendFloat dst value)"

definition AppendBoolField :: "bytes \<Rightarrow> field_key option \<Rightarrow> string \<Rightarrow> bool \<Rightarrow> bytes" where
  "AppendBoolField dst kd key value =
     (let dst = appendKeyPrefix dst kd key in if value then dst @ ''true'' else dst @ ''false'')"


section \<open>The rendered value\<close>

text \<open>What a value is rendered as: a JSON string or a bare token.\<close>

datatype json_value = JStr string | JBare string

fun render :: "json_value \<Rightarrow> bytes" where
  "render (JStr s) = [CHR 0x22] @ json_escape s @ [CHR 0x22]"
| "render (JBare t) = t"

fun float_json :: "go_float \<Rightarrow> json_value" where
  "float_json FNaN = JStr ''NaN''"
| "float_json FPosInf = JStr ''+Inf''"
| "float_json FNegInf = JStr ''-Inf''"
| "float_json (FNum t) = JBare t"

definition bool_json :: "bool \<Rightarrow> json_value" where
  "bool_json b = JBare (if b then ''true'' else ''false'')"

fun any_json :: "go_any \<Rightarrow> json_value" where
  "any_json GNil = JBare ''null''"
| "any_json (GString x) = JStr x"
| "any_json (GBool x) = bool_json x"
| "any_json (GFloat32 x) = float_json x"
| "any_json (GFloat64 x) = float_json x"
| "any_json (GError e) = JStr e"
| "any_json (GOther t) = JStr t"
| "any_json (GInt x) = JBare (itoa x)"
| "any_json (GInt8 x) = JBare (itoa x)"
| "any_json (GInt16 x) = JBare (itoa x)"
| "any_json (GInt32 x) = JBare (itoa x)"
| "any_json (GInt64 x) = JBare (itoa x)"
| "any_json (GUint x) = JBare (itoa x)"
| "any_json (GUint8 x) = JBare (itoa x)"
| "any_json (GUint16 x) = JBare (itoa x)"
| "any_json (GUint32 x) = JBare (itoa x)"
| "any_json (GUint64 x) = JBare (itoa x)"

definition error_text :: "field_value \<Rightarrow> string" where
  "error_text v = (if fv_String v \<noteq> [] then fv_String v else case fv_Any v of GError e \<Rightarrow> e | _ \<Rightarrow> [])"

definition value_json :: "field_value \<Rightarrow> go_any \<Rightarrow> json_value" where
  "value_json v legacy = (case fv_Kind v of
       KindString \<Rightarrow> JStr (fv_String v) | KindInt \<Rightarrow> JBare (itoa (fv_Int64 v)) | KindInt64 \<Rightarrow> JBare (itoa (fv_Int64 v))
     | KindFloat64 \<Rightarrow> float_json (fv_Float64 v) | KindBool \<Rightarrow> bool_json (fv_Int64 v \<noteq> 0)
     | KindError \<Rightarrow> JStr (error_text v) | KindAny \<Rightarrow> any_json (fv_Any v) | KindUnknown \<Rightarrow> any_json legacy)"

lemma smallInts_nth: "length smallInts = 512" "0 \<le> i \<Longrightarrow> i < 512 \<Longrightarrow> smallInts ! nat i = itoa i"
  using nth_upt [of 0 "nat i" 512] by (simp_all add: smallInts_def del: upt_rec_numeral)

lemma json_appendInt_eq [simp]: "json_appendInt dst i = dst @ itoa i"
  by (simp add: json_appendInt_def smallInts_nth)

fun any_in_range :: "go_any \<Rightarrow> bool" where
  "any_in_range (GUint x) = (0 \<le> x)"
| "any_in_range (GUint8 x) = (0 \<le> x)"
| "any_in_range (GUint16 x) = (0 \<le> x)"
| "any_in_range (GUint32 x) = (0 \<le> x)"
| "any_in_range (GUint64 x) = (0 \<le> x)"
| "any_in_range _ = True"

lemma json_appendUint_eq: "0 \<le> u \<Longrightarrow> json_appendUint dst u = dst @ itoa u"
  by (simp add: json_appendUint_def smallInts_nth)

lemma append_quoted_eq [simp]: "append_quoted dst s = dst @ render (JStr s)"
  by (simp add: append_quoted_def Let_def)

lemma appendFloat_eq [simp]: "appendFloat dst f = dst @ render (float_json f)"
  by (cases f) (simp_all add: appendFloat_def escape_byte_def code_def)

lemma appendAny_eq: "any_in_range x \<Longrightarrow> appendAny dst x = dst @ render (any_json x)"
  by (cases x) (simp_all add: bool_json_def json_appendUint_eq)

lemma appendValue_eq:
  "any_in_range (fv_Any v) \<Longrightarrow> any_in_range legacy \<Longrightarrow> appendValue dst v legacy = dst @ render (value_json v legacy)"
  by (auto simp: appendValue_def value_json_def bool_json_def error_text_def appendAny_eq Let_def
      split: field_kind.split go_any.split)

definition field_name :: "typed_field \<Rightarrow> string" where
  "field_name f = (case tf_KeyDesc f of
       Some k \<Rightarrow> if fk_JSONFragment k \<noteq> [] then fk_Name k else tf_Key f | None \<Rightarrow> tf_Key f)"

text \<open>A pre-declared key carries the fragment the \<open>Key\<close> constructor computes for its name.\<close>

definition key_ok :: "field_key option \<Rightarrow> bool" where
  "key_ok kd = (case kd of Some k \<Rightarrow> fk_JSONFragment k = [] \<or> fk_JSONFragment k = KeyFragment (fk_Name k) | None \<Rightarrow> True)"

definition field_json :: "typed_field \<Rightarrow> string \<times> json_value" where
  "field_json f = (field_name f, value_json (tf_Val f) (tf_Value f))"

definition member_text :: "string \<times> json_value \<Rightarrow> bytes" where
  "member_text m = [CHR 0x22] @ json_escape (fst m) @ [CHR 0x22, CHR '':''] @ render (snd m)"

definition members_text :: "(string \<times> json_value) list \<Rightarrow> bytes" where
  "members_text ms = concat (map (\<lambda>m. CHR '','' # member_text m) ms)"

definition field_ok :: "typed_field \<Rightarrow> bool" where
  "field_ok f \<longleftrightarrow> key_ok (tf_KeyDesc f) \<and> any_in_range (fv_Any (tf_Val f)) \<and> any_in_range (tf_Value f)"

lemma appendField_eq: "field_ok f \<Longrightarrow> appendField dst f = dst @ CHR '','' # member_text (field_json f)"
  by (auto simp: appendField_def appendKeyPrefix_eq appendValue_eq field_ok_def key_ok_def field_name_def
      field_json_def member_text_def key_member_def KeyFragment_eq split: option.splits)

lemma foldl_appendField:
  "list_all field_ok fs \<Longrightarrow> foldl appendField dst fs = dst @ members_text (map field_json fs)"
  by (induction fs arbitrary: dst) (simp_all add: appendField_eq members_text_def)

lemma digit_clean: "is_digit c \<Longrightarrow> jsonNoEscape c"
  by (auto simp: is_digit_def jsonNoEscape_def code_def)

lemma itoa_clean: "\<forall>c \<in> set (itoa i). jsonNoEscape c"
  by (auto simp: itoa_def intro: digit_clean dest: dec_digits) (simp_all add: jsonNoEscape_def code_def)

lemma AppendCaller_eq:
  "AppendCaller dst file line = dst @ CHR '','' # member_text (''caller'', JStr (base_name file @ '':'' @ itoa line))"
proof -
  have "json_escape '':'' = '':''" "json_escape ''caller'' = ''caller''"
    by (simp_all add: escape_byte_def code_def)
  with json_escape_clean [of "itoa line"] itoa_clean show ?thesis by (simp add: AppendCaller_def member_text_def Let_def)
qed


section \<open>The header caches are transparent\<close>

lemma civil_two_digits:
  assumes "civil days = (y, m, d)"
  shows "0 \<le> m \<and> m \<le> 99" and "0 \<le> d \<and> d \<le> 99"
    and "- 200000 \<le> days \<Longrightarrow> days \<le> 200000 \<Longrightarrow> 0 \<le> y \<and> y \<le> 9999"
proof -
  let ?e = "(days + 719468) mod 146097"
  let ?y = "(?e - ?e div 1460 + ?e div 36524 - ?e div 146096) div 365"
  let ?doy = "?e - (365 * ?y + ?y div 4 - ?y div 100)"
  let ?mp = "(5 * ?doy + 2) div 153"
  have e: "0 \<le> ?e" "?e \<le> 146096" by (auto simp: zle_diff1_eq [symmetric])
  note a = assms [unfolded civil_def Let_def prod.inject, THEN conjunct1]
    assms [unfolded civil_def Let_def prod.inject, THEN conjunct2, THEN conjunct1]
    assms [unfolded civil_def Let_def prod.inject, THEN conjunct2, THEN conjunct2]
  have y: "y = ?y + (days + 719468) div 146097 * 400 + (if m \<le> 2 then 1 else 0)"
    and m: "m = (if ?mp < 10 then ?mp + 3 else ?mp - 9)"
    and d: "d = ?doy - (153 * ?mp + 2) div 5 + 1"
    by (rule a(1) [unfolded a(2), symmetric], rule a(2) [symmetric], rule a(3) [symmetric])
  obtain E where E: "?e = E" by blast
  obtain A where A: "E div 1460 = A" by blast
  obtain B where B: "E div 36524 = B" by blast
  obtain C where C: "E div 146096 = C" by blast
  obtain Y where Y: "(E - A + B - C) div 365 = Y" by blast
  obtain D where D: "E - (365 * Y + Y div 4 - Y div 100) = D" by blast
  obtain M where M: "(5 * D + 2) div 153 = M" by blast
  have bnd: "0 \<le> E" "E \<le> 146096" using e E by simp_all
  then have abc: "0 \<le> A" "0 \<le> B" "B \<le> 4" "0 \<le> C" "C \<le> 1" "1460 * A \<le> E" "E < 1460 * A + 1460"
    "36524 * B \<le> E" "146096 * C \<le> E" using A B C by auto
  have yy: "365 * Y \<le> E - A + B - C" "E - A + B - C < 365 * Y + 365" using Y by auto
  have y4: "4 * (Y div 4) \<le> Y" "100 * (Y div 100) \<le> Y" "Y < 100 * (Y div 100) + 100" "Y < 4 * (Y div 4) + 4" by auto
  have dd: "- 8 \<le> D" "D \<le> 500" using D yy y4 abc bnd by linarith+
  have mm: "153 * M \<le> 5 * D + 2" "5 * D + 2 < 153 * M + 153" using M by auto
  have mb: "- 1 \<le> M" "M \<le> 17" using mm dd by linarith+
  have m': "m = (if M < 10 then M + 3 else M - 9)" using m unfolding E A B C Y D M .
  have d': "d = D - (153 * M + 2) div 5 + 1" using d unfolding E A B C Y D M .
  have y': "y = Y + (days + 719468) div 146097 * 400 + (if m \<le> 2 then 1 else 0)"
    using y unfolding E A B C Y .
  show "0 \<le> m \<and> m \<le> 99" using m' mb by auto
  have "5 * ((153 * M + 2) div 5) \<le> 153 * M + 2" "153 * M + 2 < 5 * ((153 * M + 2) div 5) + 5" by auto
  then show "0 \<le> d \<and> d \<le> 99" using d' mm by linarith
  assume r: "- 200000 \<le> days" "days \<le> 200000"
  have "0 \<le> Y" "Y \<le> 401" using yy abc bnd by linarith+
  moreover have "3 \<le> (days + 719468) div 146097" "(days + 719468) div 146097 \<le> 6" using r by auto
  ultimately show "0 \<le> y \<and> y \<le> 9999" using y' by auto
qed

lemma dec_length_le: "n < 10 ^ k \<Longrightarrow> 0 < k \<Longrightarrow> length (dec n) \<le> k"
proof (induction k arbitrary: n)
  case (Suc k)
  show ?case
  proof (cases "n < 10")
    case True
    then show ?thesis by (simp add: dec.simps [of n])
  next
    case False
    then have "0 < k" using Suc.prems by (cases k) auto
    moreover have "n div 10 < 10 ^ k" using Suc.prems by (simp add: less_mult_imp_div_less mult.commute)
    ultimately show ?thesis using Suc.IH False by (simp add: dec.simps [of n])
  qed
qed simp

lemma zpad_length: "0 \<le> x \<Longrightarrow> x < 10 ^ w \<Longrightarrow> 0 < w \<Longrightarrow> length (zpad w x) = w"
  using dec_length_le [of "nat x" w] by (simp add: zpad_def Let_def nat_less_iff)

lemma zpad2_length: "0 \<le> x \<Longrightarrow> x \<le> 99 \<Longrightarrow> length (zpad 2 x) = 2"
  by (rule zpad_length) simp_all

lemma zpad4_length: "0 \<le> x \<Longrightarrow> x \<le> 9999 \<Longrightarrow> length (zpad 4 x) = 4"
  by (rule zpad_length) simp_all

definition tz_ok :: "(int \<Rightarrow> int) \<Rightarrow> bool" where
  "tz_ok tz \<longleftrightarrow> (\<forall>s. - 86400 \<le> tz s \<and> tz s \<le> 86400)"

definition sec_ok :: "int \<Rightarrow> bool" where
  "sec_ok s \<longleftrightarrow> - 10000000000 \<le> s \<and> s \<le> 10000000000"

text \<open>The timestamp: nineteen bytes of date and time followed by the zone, at most 25 bytes.\<close>

lemma rfc3339_length:
  assumes "tz_ok tz" and "sec_ok sec"
  shows "19 \<le> length (rfc3339 tz sec)" and "length (rfc3339 tz sec) \<le> 25"
proof -
  let ?l = "sec + tz sec"
  obtain y m d where c: "civil (?l div 86400) = (y, m, d)" by (cases "civil (?l div 86400)") auto
  have t: "- 86400 \<le> tz sec" "tz sec \<le> 86400" using assms(1) by (simp_all add: tz_ok_def)
  with assms(2) have "- 200000 \<le> ?l div 86400" "?l div 86400 \<le> 200000" unfolding sec_ok_def by linarith+
  with civil_two_digits [OF c] have len: "length (zpad 4 y) = 4" "length (zpad 2 m) = 2" "length (zpad 2 d) = 2"
    by (simp_all add: zpad4_length zpad2_length)
  have r: "0 \<le> ?l mod 86400" "?l mod 86400 < 86400" by simp_all
  have hour: "?l mod 86400 div 3600 \<le> 99" "0 \<le> ?l mod 86400 div 3600"
    using r by (linarith, simp add: pos_imp_zdiv_nonneg_iff)
  have sixty: "0 \<le> x mod 60" "x mod 60 \<le> 99" for x :: int
    by (simp, use pos_mod_bound [of 60 x] in linarith)
  obtain h mn sc where clk: "clock ?l = (h, mn, sc)" by (cases "clock ?l") auto
  then have hms: "length (zpad 2 h) = 2" "length (zpad 2 mn) = 2" "length (zpad 2 sc) = 2"
    using zpad2_length [OF hour(2,1)] zpad2_length [OF sixty [of "?l mod 86400 div 60"]]
      zpad2_length [OF sixty [of "?l mod 86400"]] by (auto simp only: clock_def Let_def prod.inject)
  obtain z where z: "go_div (tz sec) 60 = z" by blast
  have g: "- 1440 \<le> z" "z \<le> 1440" unfolding z [symmetric] using t
    by (cases "tz sec < 0"; simp add: go_div_neg)+
  have zone: "length (zpad 2 (z div 60)) = 2 \<and> length (zpad 2 (z mod 60)) = 2" if "0 \<le> z" "z \<le> 1440" for z
  proof -
    from that have "z div 60 \<le> 99" "0 \<le> z div 60" by (linarith, simp add: pos_imp_zdiv_nonneg_iff)
    with sixty [of z] show ?thesis by (simp add: zpad2_length)
  qed
  have "length (rfc3339 tz sec) = 19 + (if tz sec = 0 then 1 else 6)"
  proof (cases "z < 0")
    case True
    with zone [of "- z"] g show ?thesis
      by (simp add: rfc3339_def Let_def c clk z len hms)
  next
    case False
    with zone [of z] g show ?thesis
      by (simp add: rfc3339_def Let_def c clk z len hms)
  qed
  then show "19 \<le> length (rfc3339 tz sec)" and "length (rfc3339 tz sec) \<le> 25" by simp_all
qed

text \<open>The header the source means, with mathematical floor division and no cache.\<close>

definition fused_text :: "(int \<Rightarrow> int) \<Rightarrow> int \<Rightarrow> nat \<Rightarrow> bytes" where
  "fused_text tz sec lvl = ''{\"time\":\"'' @ rfc3339 tz sec @ ''\"'' @ levelCache ! lvl"

fun stamp :: "(int \<Rightarrow> int) \<Rightarrow> time_precision \<Rightarrow> int \<Rightarrow> string" where
  "stamp tz PrecisionSecond n = rfc3339 tz (n div 1000000000)"
| "stamp tz PrecisionMilli n =
     (let t = rfc3339 tz (n div 1000000000) in take 19 t @ ''.'' @ zpad 3 (n mod 1000000000 div 1000000) @ drop 19 t)"
| "stamp tz PrecisionMicro n =
     (let t = rfc3339 tz (n div 1000000000) in take 19 t @ ''.'' @ zpad 6 (n mod 1000000000 div 1000) @ drop 19 t)"
| "stamp tz PrecisionNano n =
     (let t = rfc3339 tz (n div 1000000000) in take 19 t @ ''.'' @ zpad 9 (n mod 1000000000) @ drop 19 t)"

definition header_text :: "(int \<Rightarrow> int) \<Rightarrow> time_precision \<Rightarrow> int \<Rightarrow> nat \<Rightarrow> bytes" where
  "header_text tz p n level = ''{\"time\":\"'' @ stamp tz p n @ ''\"'' @ levelCache ! clampLevel level"

definition cache_ok :: "(int \<Rightarrow> int) \<Rightarrow> header_cache \<Rightarrow> bool" where
  "cache_ok tz hc \<longleftrightarrow> length (hc_fused hc) = 7
     \<and> (\<forall>l < 7. \<forall>h. hc_fused hc ! l = Some h \<longrightarrow> take (fh_n h) (fh_buf h) = fused_text tz (fh_sec h) l)
     \<and> (\<forall>p. hc_parts hc = Some p \<longrightarrow> take (tp_n p) (tp_buf p) = rfc3339 tz (tp_sec p) \<and> tp_buf p = rfc3339 tz (tp_sec p))"

lemma splitUnixNanos_eq [simp]: "splitUnixNanos n = (n div 1000000000, n mod 1000000000)"
proof (cases "n < 0")
  case True
  have dm: "n div 1000000000 = (if (- n) mod 1000000000 = 0 then - ((- n) div 1000000000) else - ((- n) div 1000000000) - 1)"
    "n mod 1000000000 = (if (- n) mod 1000000000 = 0 then 0 else 1000000000 - (- n) mod 1000000000)"
    using zdiv_zminus1_eq_if [where a = "- n" and b = 1000000000] zmod_zminus1_eq_if [where a = "- n" and b = 1000000000] by simp_all
  have "0 \<le> (- n) mod 1000000000" by simp
  moreover have "splitUnixNanos n = (if - ((- n) mod 1000000000) < 0
      then (- ((- n) div 1000000000) - 1, - ((- n) mod 1000000000) + 1000000000)
      else (- ((- n) div 1000000000), - ((- n) mod 1000000000)))"
    using True by (simp only: splitUnixNanos_def Let_def go_div_neg go_mod_neg zero_less_numeral)
  ultimately show ?thesis unfolding dm by (cases "(- n) mod 1000000000 = 0") auto
next
  case False
  then show ?thesis by (simp add: splitUnixNanos_def Let_def not_less)
qed

lemma levelCache_length: "l < 7 \<Longrightarrow> length (levelCache ! l) \<le> 16"
  by (auto simp: levelCache_def less_Suc_eq numeral_eq_Suc)

lemma clampLevel_less [simp]: "clampLevel l < 7"
  by (simp add: clampLevel_def)

lemma fused_text_length:
  "tz_ok tz \<Longrightarrow> sec_ok sec \<Longrightarrow> l < 7 \<Longrightarrow> length (fused_text tz sec l) \<le> 51"
  using rfc3339_length(2) [of tz sec] levelCache_length [of l] by (simp add: fused_text_def)

lemma sec_ok_nanos: "is_s64 n \<Longrightarrow> sec_ok (n div 1000000000)"
  by (simp add: is_s64_def sec_ok_def) linarith

lemma cache_ok_empty [simp]: "cache_ok tz empty_cache"
  by (simp add: cache_ok_def empty_cache_def)

lemma buildFusedHeader_eq:
  assumes "tz_ok tz" "sec_ok sec" "l < 7" "cache_ok tz hc"
  shows "snd (buildFusedHeader tz hc dst sec l) = dst @ fused_text tz sec l"
    and "cache_ok tz (fst (buildFusedHeader tz hc dst sec l))"
proof -
  have "length (fused_text tz sec l) mod 256 = length (fused_text tz sec l)"
    using fused_text_length [OF assms(1-3)] by simp
  then have b: "buildFusedHeader tz hc dst sec l =
      (hc\<lparr>hc_fused := (hc_fused hc)[l := Some \<lparr>fh_sec = sec, fh_n = length (fused_text tz sec l), fh_buf = fused_text tz sec l\<rparr>]\<rparr>,
       dst @ fused_text tz sec l)"
    by (simp add: buildFusedHeader_def fused_text_def Let_def)
  show "snd (buildFusedHeader tz hc dst sec l) = dst @ fused_text tz sec l" by (simp add: b)
  show "cache_ok tz (fst (buildFusedHeader tz hc dst sec l))"
    using assms(3,4) by (auto simp: b cache_ok_def nth_list_update split: if_splits)
qed

lemma appendHeaderSecond_eq:
  assumes "tz_ok tz" "is_s64 n" "cache_ok tz hc"
  shows "snd (appendHeaderSecond tz hc dst n level) = dst @ header_text tz PrecisionSecond n level"
    and "cache_ok tz (fst (appendHeaderSecond tz hc dst n level))"
proof -
  let ?s = "n div 1000000000" and ?l = "clampLevel level"
  note build = buildFusedHeader_eq [OF assms(1) sec_ok_nanos [OF assms(2)] clampLevel_less assms(3)]
  have t: "header_text tz PrecisionSecond n level = fused_text tz ?s ?l"
    by (simp add: header_text_def fused_text_def)
  have hit: "take (fh_n h) (fh_buf h) = fused_text tz (fh_sec h) ?l" if "hc_fused hc ! ?l = Some h" for h
    using assms(3) that clampLevel_less by (simp add: cache_ok_def)
  show "snd (appendHeaderSecond tz hc dst n level) = dst @ header_text tz PrecisionSecond n level"
    using hit by (simp add: appendHeaderSecond_def t build Let_def split: option.splits)
  show "cache_ok tz (fst (appendHeaderSecond tz hc dst n level))"
    using build assms(3) by (simp add: appendHeaderSecond_def Let_def split: option.splits)
qed

lemma zpad_Suc: "0 \<le> x \<Longrightarrow> zpad (Suc (Suc k)) x = zpad (Suc k) (x div 10) @ [digit (nat (x mod 10))]"
proof -
  assume x: "0 \<le> x"
  have m: "nat (x mod 10) = nat x mod 10" "nat (x div 10) = nat x div 10"
    using x by (simp_all add: nat_mod_distrib nat_div_distrib)
  show ?thesis
  proof (cases "nat x < 10")
    case True
    then show ?thesis using x m by (simp add: zpad_def dec.simps [of "nat x"] dec.simps [of 0] digit_0 replicate_append_same)
  next
    case False
    have "0 \<le> x div 10" using x by (simp add: pos_imp_zdiv_nonneg_iff)
    with False show ?thesis using x m by (simp add: zpad_def Let_def dec.simps [of "nat x"])
  qed
qed

lemma frac_digits_eq: "0 \<le> x \<Longrightarrow> x < 10 ^ Suc k \<Longrightarrow> frac_digits (Suc k) x acc = zpad (Suc k) x @ acc"
proof (induction k arbitrary: x acc)
  case 0
  then show ?case by (simp add: zpad_def dec.simps [of "nat x"] byte_def wrap_u8_def digit_def nat_add_distrib)
next
  case (Suc k)
  have "byte (48 + x mod 10) = digit (nat (x mod 10))"
    by (simp add: byte_def wrap_u8_def digit_def nat_add_distrib)
  moreover have "x div 10 < 10 ^ Suc k" "0 \<le> x div 10" using Suc.prems by (simp_all add: pos_imp_zdiv_nonneg_iff)
  ultimately show ?case
    using Suc.IH [of "x div 10"] Suc.prems zpad_Suc [of x k] by (simp only: frac_digits.simps(2)) simp
qed


lemma buildTsParts_eq:
  assumes "tz_ok tz" "sec_ok sec" "cache_ok tz hc"
  shows "take (tp_n (snd (buildTsParts tz hc sec))) (tp_buf (snd (buildTsParts tz hc sec))) = rfc3339 tz sec"
    and "tp_buf (snd (buildTsParts tz hc sec)) = rfc3339 tz sec"
    and "cache_ok tz (fst (buildTsParts tz hc sec))"
  using rfc3339_length [OF assms(1,2)] assms(3) by (simp_all add: buildTsParts_def cache_ok_def Let_def)

lemma subSecondAppender_eq:
  assumes "tz_ok tz" "is_s64 n" "cache_ok tz hc" "0 < dv"
    and k: "n mod 1000000000 div dv < 10 ^ Suc k"
  shows "snd (subSecondAppender tz (Suc k) dv hc dst n level) =
      dst @ ''{\"time\":\"'' @ take 19 (rfc3339 tz (n div 1000000000)) @ ''.''
        @ zpad (Suc k) (n mod 1000000000 div dv) @ drop 19 (rfc3339 tz (n div 1000000000)) @ ''\"''
        @ levelCache ! clampLevel level"
    and "cache_ok tz (fst (subSecondAppender tz (Suc k) dv hc dst n level))"
proof -
  let ?s = "n div 1000000000" and ?f = "n mod 1000000000 div dv"
  note build = buildTsParts_eq [OF assms(1) sec_ok_nanos [OF assms(2)] assms(3)]
  obtain hc' p where g: "(case hc_parts hc of
      Some p \<Rightarrow> if tp_sec p \<noteq> ?s then buildTsParts tz hc ?s else (hc, p)
    | None \<Rightarrow> buildTsParts tz hc ?s) = (hc', p)" by fastforce
  have p: "take (tp_n p) (tp_buf p) = rfc3339 tz ?s" "tp_buf p = rfc3339 tz ?s" "cache_ok tz hc'"
    using g build assms(3) by (auto simp: cache_ok_def split: option.splits if_splits) 
  have f: "go_div (n mod 1000000000) dv = ?f" using assms(4) by simp
  have d: "frac_digits (Suc k) ?f [] = zpad (Suc k) ?f"
    using frac_digits_eq [OF _ k] assms(4) by (simp add: pos_imp_zdiv_nonneg_iff)
  have eq: "subSecondAppender tz (Suc k) dv hc dst n level = (hc', dst @ ''{\"time\":\"'' @ take 19 (rfc3339 tz ?s) @ ''.''
        @ zpad (Suc k) ?f @ drop 19 (rfc3339 tz ?s) @ ''\"'' @ levelCache ! clampLevel level)"
    unfolding subSecondAppender_def splitUnixNanos_eq Let_def prod.case g appendFracDigits_def f d p(1) by (simp add: p(2))
  show "snd (subSecondAppender tz (Suc k) dv hc dst n level) =
      dst @ ''{\"time\":\"'' @ take 19 (rfc3339 tz (n div 1000000000)) @ ''.''
        @ zpad (Suc k) (n mod 1000000000 div dv) @ drop 19 (rfc3339 tz (n div 1000000000)) @ ''\"''
        @ levelCache ! clampLevel level"
    and "cache_ok tz (fst (subSecondAppender tz (Suc k) dv hc dst n level))"
    using p(3) by (simp_all add: eq)
qed

lemma headerAppenders_eq:
  assumes "tz_ok tz" "is_s64 n" "cache_ok tz hc"
  shows "snd (headerAppenders tz p hc dst n level) = dst @ header_text tz p n level"
    and "cache_ok tz (fst (headerAppenders tz p hc dst n level))"
proof -
  have b: "n mod 1000000000 < 1000000000" by simp
  have r1: "n mod 1000000000 div 1000000 < 10 ^ Suc 2" using b by simp
  have r2: "n mod 1000000000 div 1000 < 10 ^ Suc 5" using b by simp
  have r3: "n mod 1000000000 div 1 < 10 ^ Suc 8" using b by simp
  note r = r1 r2 r3
  note sub = subSecondAppender_eq [OF assms _ r(1)] subSecondAppender_eq [OF assms _ r(2)]
    subSecondAppender_eq [OF assms _ r(3)]
  show "snd (headerAppenders tz p hc dst n level) = dst @ header_text tz p n level"
    using sub appendHeaderSecond_eq(1) [OF assms]
    by (cases p) (simp_all add: header_text_def Let_def numeral_eq_Suc)
  show "cache_ok tz (fst (headerAppenders tz p hc dst n level))"
    using sub appendHeaderSecond_eq(2) [OF assms] by (cases p) (simp_all add: numeral_eq_Suc)
qed


section \<open>Reading a line back\<close>

text \<open>A reader of one rendered line, independent of the encoder: the members of the object, in order;
  the closing brace and the newline must end the text.\<close>

definition bare_char :: "char \<Rightarrow> bool" where
  "bare_char c \<longleftrightarrow> is_digit c \<or> 97 \<le> code c \<and> code c \<le> 122 \<or> 65 \<le> code c \<and> code c \<le> 90 \<or> c \<in> {CHR ''+'', CHR ''-'', CHR ''.''}"

definition read_value :: "string \<Rightarrow> (json_value \<times> string) option" where
  "read_value s = (case s of
       [] \<Rightarrow> None
     | c # r \<Rightarrow>
         if c = CHR 0x22 then map_option (\<lambda>(x, rest). (JStr x, rest)) (read_string r)
         else let t = takeWhile bare_char s in
              if t = [] then None else Some (JBare t, drop (length t) s))"

definition read_member :: "string \<Rightarrow> ((string \<times> json_value) \<times> string) option" where
  "read_member s = (case s of
       [] \<Rightarrow> None
     | c # r \<Rightarrow>
         if c \<noteq> CHR 0x22 then None
         else case read_string r of
                Some (k, x # r') \<Rightarrow>
                  if x = CHR '':'' then map_option (\<lambda>(v, rest). ((k, v), rest)) (read_value r') else None
              | _ \<Rightarrow> None)"

lemma read_string_shorter: "read_string s = Some (x, r) \<Longrightarrow> length r < length s"
  by (induction s arbitrary: x r rule: read_string.induct)
    (force simp: push_char_def split: if_splits list.splits option.splits)+

lemma read_value_shorter: "read_value s = Some (v, r) \<Longrightarrow> length r < length s"
  by (auto simp: read_value_def Let_def dest: read_string_shorter split: list.splits if_splits)

lemma read_member_shorter: "read_member s = Some (m, r) \<Longrightarrow> length r < length s"
  by (auto simp: read_member_def dest!: read_string_shorter read_value_shorter split: list.splits if_splits option.splits)

function read_members :: "string \<Rightarrow> (string \<times> json_value) list option" where
  "read_members s = (case read_member s of
       None \<Rightarrow> None
     | Some (m, []) \<Rightarrow> None
     | Some (m, c # r) \<Rightarrow>
         if c = CHR '','' then map_option ((#) m) (read_members r)
         else if c = CHR ''}'' \<and> r = [CHR 0x0A] then Some [m] else None)"
  by pat_completeness auto

termination read_members
  by (relation "measure length") (auto dest: read_member_shorter)

declare read_members.simps [simp del]

definition read_line :: "string \<Rightarrow> (string \<times> json_value) list option" where
  "read_line s = (case s of [] \<Rightarrow> None | c # r \<Rightarrow> if c = CHR ''{'' then read_members r else None)"

fun bare_ok :: "json_value \<Rightarrow> bool" where
  "bare_ok (JStr _) = True"
| "bare_ok (JBare t) = (t \<noteq> [] \<and> list_all bare_char t)"

definition stops :: "string \<Rightarrow> bool" where
  "stops s \<longleftrightarrow> (case s of [] \<Rightarrow> True | c # _ \<Rightarrow> \<not> bare_char c)"

lemma read_value_render:
  assumes "bare_ok v" and "stops rest"
  shows "read_value (render v @ rest) = Some (v, rest)"
proof (cases v)
  case (JStr x)
  then show ?thesis by (simp add: read_value_def)
next
  case (JBare t)
  with assms have t: "t \<noteq> []" "list_all bare_char t" by simp_all
  then obtain c u where cu: "t = c # u" by (cases t) auto
  with t have "c \<noteq> CHR 0x22" by (auto simp: bare_char_def is_digit_def code_def)
  moreover have "takeWhile bare_char (t @ rest) = t"
    using t(2) assms(2) by (cases rest) (auto simp: stops_def list_all_iff takeWhile_append)
  ultimately show ?thesis using JBare cu by (simp add: read_value_def)
qed

lemma read_member_text:
  "bare_ok (snd m) \<Longrightarrow> stops rest \<Longrightarrow> read_member (member_text m @ rest) = Some (m, rest)"
  by (cases m) (simp add: member_text_def read_member_def read_value_render)

lemma stops_simps [simp]: "stops (CHR '','' # r)" "stops (CHR ''}'' # r)"
  by (simp_all add: stops_def bare_char_def is_digit_def code_def)

lemma read_members_text:
  "list_all (\<lambda>m. bare_ok (snd m)) (m # ms) \<Longrightarrow>
   read_members (member_text m @ members_text ms @ [CHR ''}'', CHR 0x0A]) = Some (m # ms)"
proof (induction ms arbitrary: m)
  case Nil
  then show ?case by (subst read_members.simps) (simp add: members_text_def read_member_text)
next
  case (Cons m' ms)
  have "members_text (m' # ms) = CHR '','' # member_text m' @ members_text ms" by (simp add: members_text_def)
  with Cons show ?case by (subst read_members.simps) (simp add: read_member_text)
qed

section \<open>Rendered lines\<close>

definition level_name :: "nat \<Rightarrow> string" where
  "level_name l = [''TRACE'', ''DEBUG'', ''INFO'', ''WARN'', ''ERROR'', ''FATAL'', ''PANIC''] ! clampLevel l"

lemma itoa_bare: "bare_ok (JBare (itoa i))"
  by (auto simp: itoa_def list_all_iff bare_char_def dest: dec_digits)

fun float_ok :: "go_float \<Rightarrow> bool" where
  "float_ok (FNum t) = (t \<noteq> [] \<and> list_all bare_char t)"
| "float_ok _ = True"

fun any_ok_json :: "go_any \<Rightarrow> bool" where
  "any_ok_json (GFloat32 f) = float_ok f"
| "any_ok_json (GFloat64 f) = float_ok f"
| "any_ok_json x = any_in_range x"

lemma bool_bare [simp]: "bare_ok (bool_json b)"
  by (simp add: bool_json_def bare_char_def code_def is_digit_def)

lemma float_bare [simp]: "float_ok f \<Longrightarrow> bare_ok (float_json f)"
  by (cases f) auto

lemma any_bare: "any_ok_json x \<Longrightarrow> bare_ok (any_json x)"
  using itoa_bare by (cases x) (simp_all add: bare_char_def code_def is_digit_def)

lemma any_ok_json_range: "any_ok_json x \<Longrightarrow> any_in_range x"
  by (cases x) auto

definition loggable :: "typed_field \<Rightarrow> bool" where
  "loggable f \<longleftrightarrow> key_ok (tf_KeyDesc f) \<and> any_ok_json (fv_Any (tf_Val f)) \<and> any_ok_json (tf_Value f) \<and> float_ok (fv_Float64 (tf_Val f))"

lemma loggable_field_ok: "loggable f \<Longrightarrow> field_ok f"
  by (simp add: loggable_def field_ok_def any_ok_json_range)

lemma loggable_bare: "loggable f \<Longrightarrow> bare_ok (snd (field_json f))"
  using itoa_bare by (simp add: loggable_def field_json_def value_json_def any_bare split: field_kind.split)

definition emitted_fields :: "log_entry \<Rightarrow> typed_field list" where
  "emitted_fields e = take (nat (min (le_StaticFieldCount e) (int (length (le_StaticFields e))))) (le_StaticFields e) @ le_Fields e"

definition caller_members :: "log_entry \<Rightarrow> (string \<times> json_value) list" where
  "caller_members e = (if le_Line e \<ge> 0 \<and> le_File e \<noteq> []
     then [(''caller'', JStr (base_name (le_File e) @ '':'' @ itoa (le_Line e)))] else [])"

definition line_members :: "(int \<Rightarrow> int) \<Rightarrow> time_precision \<Rightarrow> log_entry \<Rightarrow> (string \<times> json_value) list" where
  "line_members tz p e =
     [(''time'', JStr (stamp tz p (entryUnixNanos e))), (''level'', JStr (level_name (le_Level e))),
      (''message'', JStr (le_Message e))] @ caller_members e @ map field_json (emitted_fields e)"


lemma zpad_clean: "c \<in> set (zpad w x) \<Longrightarrow> jsonNoEscape c"
  by (auto simp: zpad_def Let_def jsonNoEscape_def code_def split: if_splits
      intro: digit_clean [unfolded jsonNoEscape_def code_def, THEN conjunct1]
      dest: dec_digits [THEN digit_clean, unfolded jsonNoEscape_def code_def])

lemma rfc3339_clean: "c \<in> set (rfc3339 tz sec) \<Longrightarrow> jsonNoEscape c"
proof -
  have lit: "jsonNoEscape x" if "x \<in> {CHR ''-'', CHR ''T'', CHR '':'', CHR ''Z'', CHR ''+''}" for x
    using that by (auto simp: jsonNoEscape_def code_def)
  assume "c \<in> set (rfc3339 tz sec)"
  then show ?thesis
    by (auto simp: rfc3339_def Let_def intro: zpad_clean lit split: prod.splits if_splits)
qed

lemma stamp_clean: "c \<in> set (stamp tz p n) \<Longrightarrow> jsonNoEscape c"
proof -
  have lit: "jsonNoEscape (CHR ''.'')" by (simp add: jsonNoEscape_def code_def)
  assume "c \<in> set (stamp tz p n)"
  then show ?thesis
    using lit by (cases p) (auto simp: Let_def dest: in_set_takeD in_set_dropD intro: zpad_clean rfc3339_clean)
qed

lemma levelCache_member: "levelCache ! clampLevel l = CHR '','' # member_text (''level'', JStr (level_name l))"
proof -
  have "k < 7 \<Longrightarrow> levelCache ! k = CHR '','' # member_text (''level'',
      JStr ([''TRACE'', ''DEBUG'', ''INFO'', ''WARN'', ''ERROR'', ''FATAL'', ''PANIC''] ! k))" for k
    by (auto simp: levelCache_def member_text_def less_Suc_eq numeral_eq_Suc escape_byte_def code_def)
  then show ?thesis by (simp add: level_name_def)
qed

lemma header_text_member:
  "header_text tz p n l = CHR ''{'' # member_text (''time'', JStr (stamp tz p n)) @ CHR '','' # member_text (''level'', JStr (level_name l))"
proof -
  have "json_escape (stamp tz p n) = stamp tz p n" "json_escape ''time'' = ''time''"
    by (intro json_escape_clean ballI stamp_clean) (simp_all add: escape_byte_def code_def)
  then show ?thesis by (simp add: header_text_def levelCache_member member_text_def)
qed

lemma appendHeaderWith_eq:
  assumes "tz_ok tz" "is_s64 n" "cache_ok tz hc"
  shows "snd (appendHeaderWith tz p hc dst n level msg) = dst @ CHR ''{'' # member_text (''time'', JStr (stamp tz p n))
      @ members_text [(''level'', JStr (level_name level)), (''message'', JStr msg)]"
    and "cache_ok tz (fst (appendHeaderWith tz p hc dst n level msg))"
proof -
  obtain hc' d where h: "headerAppenders tz p hc dst n level = (hc', d)" by fastforce
  with headerAppenders_eq [OF assms, of p dst level] have d: "d = dst @ header_text tz p n level" "cache_ok tz hc'"
    by simp_all
  have "json_escape ''message'' = ''message''" by (simp add: escape_byte_def code_def)
  with h d show "snd (appendHeaderWith tz p hc dst n level msg) = dst @ CHR ''{'' # member_text (''time'', JStr (stamp tz p n))
      @ members_text [(''level'', JStr (level_name level)), (''message'', JStr msg)]"
    and "cache_ok tz (fst (appendHeaderWith tz p hc dst n level msg))"
    by (simp_all add: appendHeaderWith_def header_text_member members_text_def member_text_def [of "(''message'', _)"])
qed

lemma foldl_fields:
  "list_all loggable fs \<Longrightarrow> foldl appendField dst fs = dst @ members_text (map field_json fs)"
  by (rule foldl_appendField) (simp add: list_all_iff loggable_field_ok)

lemma members_text_append [simp]: "members_text (a @ b) = members_text a @ members_text b" "members_text [] = []"
  by (simp_all add: members_text_def)

lemma members_text_Cons: "members_text (m # ms) = CHR '','' # member_text m @ members_text ms"
  by (simp add: members_text_def)

lemma Format_eq:
  assumes "tz_ok tz" "cache_ok tz hc" "is_s64 (entryUnixNanos e)" "list_all loggable (emitted_fields e)"
  shows "snd (Format tz p hc (Some e) dst) = dst @ CHR ''{'' # member_text (hd (line_members tz p e))
      @ members_text (tl (line_members tz p e)) @ [CHR ''}'', CHR 0x0A]"
    and "cache_ok tz (fst (Format tz p hc (Some e) dst))"
proof -
  let ?n = "entryUnixNanos e"
  obtain hc' d where h: "appendHeaderWith tz p hc dst ?n (le_Level e) (le_Message e) = (hc', d)" by fastforce
  note hdr = appendHeaderWith_eq [OF assms(1,3,2), of p dst "le_Level e" "le_Message e", unfolded h fst_conv snd_conv]
  have n: "(if le_StaticFieldCount e > int (length (le_StaticFields e)) then int (length (le_StaticFields e)) else le_StaticFieldCount e)
      = min (le_StaticFieldCount e) (int (length (le_StaticFields e)))" by simp
  let ?ss = "take (nat (min (le_StaticFieldCount e) (int (length (le_StaticFields e))))) (le_StaticFields e)"
  have ok: "list_all loggable ?ss" "list_all loggable (le_Fields e)"
    using assms(4) by (simp_all add: emitted_fields_def)
  have c: "(if le_Line e \<ge> 0 \<and> le_File e \<noteq> [] then AppendCaller x (le_File e) (le_Line e) else x)
      = x @ members_text (caller_members e)" for x
    by (simp add: caller_members_def AppendCaller_eq members_text_Cons)
  have "Format tz p hc (Some e) dst = (hc', d @ members_text (caller_members e) @ members_text (map field_json ?ss)
      @ members_text (map field_json (le_Fields e)) @ [CHR ''}'', CHR 0x0A])"
    by (simp only: Format_def option.case h Let_def prod.case n c foldl_fields [OF ok(1)] foldl_fields [OF ok(2)] append_assoc)
  then show "snd (Format tz p hc (Some e) dst) = dst @ CHR ''{'' # member_text (hd (line_members tz p e))
      @ members_text (tl (line_members tz p e)) @ [CHR ''}'', CHR 0x0A]"
    and "cache_ok tz (fst (Format tz p hc (Some e) dst))"
    using hdr by (simp_all add: line_members_def emitted_fields_def members_text_Cons)
qed


lemma read_Format_text:
  assumes "list_all loggable (emitted_fields e)"
  shows "read_line (CHR ''{'' # member_text (hd (line_members tz p e)) @ members_text (tl (line_members tz p e))
      @ [CHR ''}'', CHR 0x0A]) = Some (line_members tz p e)"
proof -
  have "list_all (\<lambda>m. bare_ok (snd m)) (line_members tz p e)"
    using assms by (auto simp: line_members_def caller_members_def list_all_iff loggable_bare)
  moreover obtain m ms where m: "line_members tz p e = m # ms" by (simp add: line_members_def)
  ultimately show ?thesis using read_members_text [of m ms] by (simp add: read_line_def)
qed

section \<open>Appending\<close>

text \<open>A line depends on the entry only through what it emits, and is appended to the buffer.\<close>

lemma Format_cong:
  assumes "emitted_fields x = emitted_fields y" "entryUnixNanos x = entryUnixNanos y" "le_Level x = le_Level y"
    "le_Message x = le_Message y" "le_File x = le_File y" "le_Line x = le_Line y"
  shows "Format tz p hc (Some x) dst = Format tz p hc (Some y) dst"
proof -
  have n: "(if le_StaticFieldCount z > int (length (le_StaticFields z)) then int (length (le_StaticFields z)) else le_StaticFieldCount z)
      = min (le_StaticFieldCount z) (int (length (le_StaticFields z)))" for z :: log_entry by simp
  have eq: "Format tz p hc (Some z) dst = (let (hc, dst) = appendHeaderWith tz p hc dst (entryUnixNanos z) (le_Level z) (le_Message z);
      dst = (if le_Line z \<ge> 0 \<and> le_File z \<noteq> [] then AppendCaller dst (le_File z) (le_Line z) else dst)
      in (hc, foldl appendField dst (emitted_fields z) @ [CHR ''}'', CHR 0x0A]))" for z
    by (simp only: Format_def option.case Let_def emitted_fields_def foldl_append n)
  show ?thesis by (simp only: eq assms)
qed

lemma appendFloat_append: "appendFloat dst x = dst @ appendFloat [] x"
  by simp

lemma json_appendUint_append: "json_appendUint dst u = dst @ json_appendUint [] u"
  by (simp add: json_appendUint_def)

lemma appendAny_append: "appendAny dst x = dst @ appendAny [] x"
  using json_appendUint_append [of dst] by (cases x) simp_all

lemma appendValue_append: "appendValue dst v l = dst @ appendValue [] v l"
  using appendAny_append [of dst] by (simp add: appendValue_def Let_def split: field_kind.split go_any.split)

lemma appendField_append: "appendField dst f = dst @ appendField [] f"
  using appendValue_append [of "appendKeyPrefix dst (tf_KeyDesc f) (tf_Key f)"]
    appendValue_append [of "appendKeyPrefix [] (tf_KeyDesc f) (tf_Key f)"]
  by (simp add: appendField_def appendKeyPrefix_eq Let_def)

lemma foldl_appendField_append: "foldl appendField dst fs = dst @ foldl appendField [] fs"
proof (induction fs arbitrary: dst)
  case (Cons f fs)
  show ?case
    using Cons.IH [of "appendField dst f"] Cons.IH [of "appendField [] f"] appendField_append [of dst f] by simp
qed simp

lemma headerAppenders_append:
  "headerAppenders tz p hc dst n l = (let (hc', t) = headerAppenders tz p hc [] n l in (hc', dst @ t))"
  by (cases p) (simp_all add: appendHeaderSecond_def buildFusedHeader_def subSecondAppender_def appendFracDigits_def
      Let_def split: option.split prod.split)

lemma appendHeaderWith_append:
  "appendHeaderWith tz p hc dst n l m = (let (hc', t) = appendHeaderWith tz p hc [] n l m in (hc', dst @ t))"
  using headerAppenders_append [of tz p hc dst n l]
  by (cases "headerAppenders tz p hc [] n l") (simp add: appendHeaderWith_def Let_def)

lemma Format_append:
  "Format tz p hc (Some e) dst = (let (hc', t) = Format tz p hc (Some e) [] in (hc', dst @ t))"
proof -
  obtain hc' t where h: "appendHeaderWith tz p hc [] (entryUnixNanos e) (le_Level e) (le_Message e) = (hc', t)" by fastforce
  then have h': "appendHeaderWith tz p hc dst (entryUnixNanos e) (le_Level e) (le_Message e) = (hc', dst @ t)"
    using appendHeaderWith_append [of tz p hc dst] by simp
  have c: "AppendCaller (dst @ t) f l = dst @ AppendCaller t f l" for f l by (simp add: AppendCaller_eq)
  note ff = foldl_appendField_append
  show ?thesis unfolding Format_def option.case h h' Let_def prod.case c
    by (subst (1 2 3 4) ff) (simp add: ff [of "foldl appendField [] _"])
qed

section \<open>Properties\<close>

fun header_run :: "(int \<Rightarrow> int) \<Rightarrow> header_cache \<Rightarrow> (time_precision \<times> int \<times> nat) list \<Rightarrow> bytes list" where
  "header_run tz hc [] = []"
| "header_run tz hc ((p, n, l) # rs) =
     (let (hc', t) = headerAppenders tz p hc [] n l in t # header_run tz hc' rs)"

lemma header_run_ok:
  "tz_ok tz \<Longrightarrow> cache_ok tz hc \<Longrightarrow> list_all (\<lambda>(p, n, l). is_s64 n) rs \<Longrightarrow>
   header_run tz hc rs = map (\<lambda>(p, n, l). header_text tz p n l) rs"
proof (induction rs arbitrary: hc)
  case (Cons r rs)
  obtain p n l where r: "r = (p, n, l)" by (cases r)
  obtain hc' t where h: "headerAppenders tz p hc [] n l = (hc', t)" by fastforce
  from headerAppenders_eq [OF Cons.prems(1) _ Cons.prems(2), of n p "[]" l] Cons.prems(3) r h
  have "t = header_text tz p n l" "cache_ok tz hc'" by simp_all
  with Cons r h show ?case by simp
qed simp

text \<open>
  C5: a rendered line says exactly what the entry holds: whatever the message, the keys, the string
  values and the file name contain, reading the line back as JSON gives the time, the level, the
  message, the caller and the fields in order, and the line ends at its newline; no content can add,
  hide or split a member. Bare tokens are only assumed of the float text the library prints, keys of
  the pre-declared fragments are those \<open>KeyFragment\<close> computes.
\<close>

theorem Format_reads_back:
  assumes "tz_ok tz" and "cache_ok tz hc" and "is_s64 (entryUnixNanos e)"
    and "list_all loggable (emitted_fields e)"
  shows "\<exists>text. snd (Format tz p hc (Some e) dst) = dst @ text \<and> read_line text = Some (line_members tz p e)"
  using Format_eq(1) [OF assms] read_Format_text [OF assms(4)] by blast

definition sample_entry :: log_entry where
  "sample_entry = \<lparr>le_Timestamp = None, le_TimestampUnix = 1700000000123456789, le_Level = 2,
     le_Message = ''say '' @ [CHR 0x22, CHR 0x0A], le_File = ''/srv/app/main.go'', le_Line = 42,
     le_Fields = [],
     le_StaticFields = [\<lparr>tf_Key = ''user'', tf_KeyDesc = None, tf_Val = StringValue ''bob'', tf_Value = GNil\<rparr>],
     le_StaticFieldCount = 1\<rparr>"

theorem Format_reads_back_witness:
  "\<exists>text. snd (Format (\<lambda>_. 0) PrecisionMilli empty_cache (Some sample_entry) []) = [] @ text
     \<and> read_line text = Some (line_members (\<lambda>_. 0) PrecisionMilli sample_entry)"
  by (rule Format_reads_back)
    (simp_all add: tz_ok_def sample_entry_def entryUnixNanos_def is_s64_def emitted_fields_def loggable_def
      key_ok_def StringValue_def zero_value_def bare_char_def is_digit_def code_def)

text \<open>
  C7: the header caches never show: over any sequence of header requests, mixing precisions, levels
  and timestamps (also before 1970), every answer is the text computed afresh, with the floor of the
  timestamp in seconds and the fraction as zero-padded digits.
\<close>

theorem header_cache_transparent:
  assumes "tz_ok tz" and "list_all (\<lambda>(p, n, l). is_s64 n) rs"
  shows "header_run tz empty_cache rs = map (\<lambda>(p, n, l). header_text tz p n l) rs"
  using header_run_ok [OF assms(1) cache_ok_empty assms(2)] .

theorem header_cache_transparent_witness:
  "header_run (\<lambda>_. 3600) empty_cache [(PrecisionSecond, 5, 2), (PrecisionSecond, 7, 9), (PrecisionNano, - 1, 2)]
     = map (\<lambda>(p, n, l). header_text (\<lambda>_. 3600) p n l) [(PrecisionSecond, 5, 2), (PrecisionSecond, 7, 9), (PrecisionNano, - 1, 2)]"
  by (rule header_cache_transparent) (simp_all add: tz_ok_def is_s64_def)

text \<open>
  C6: the direct-append path writes the same bytes as the capture path: for an entry without a call
  site whose fields carry typed values, header, fields and closer appended one by one equal
  \<open>Format\<close>, and each typed append helper equals the general one on the boxed value.
\<close>

theorem direct_path_identical:
  assumes "\<not> (le_Line e \<ge> 0 \<and> le_File e \<noteq> [])"
    and "list_all (\<lambda>f. fv_Kind (tf_Val f) \<noteq> KindUnknown \<or> tf_Value f = GNil) (emitted_fields e)"
  shows "Format tz p hc (Some e) dst =
      (let (hc, d) = appendHeaderWith tz p hc dst (entryUnixNanos e) (le_Level e) (le_Message e);
           d = foldl (\<lambda>d f. AppendField d (tf_KeyDesc f) (tf_Key f) (tf_Val f)) d (emitted_fields e)
       in (hc, AppendCloser d))
    \<and> AppendStringField d kd key s = AppendField d kd key (StringValue s)
    \<and> AppendIntField d kd key i = AppendField d kd key (IntValue i)
    \<and> AppendIntField d kd key i = AppendField d kd key (Int64Value i)
    \<and> AppendFloat64Field d kd key x = AppendField d kd key (Float64Value x)
    \<and> AppendBoolField d kd key b = AppendField d kd key (BoolValue b)"
proof -
  have step: "list_all (\<lambda>f. fv_Kind (tf_Val f) \<noteq> KindUnknown \<or> tf_Value f = GNil) fs \<Longrightarrow>
      foldl appendField d fs = foldl (\<lambda>d f. AppendField d (tf_KeyDesc f) (tf_Key f) (tf_Val f)) d fs" for fs d
    by (induction fs arbitrary: d)
      (auto simp: appendField_def AppendField_def appendValue_def Let_def split: field_kind.split)
  have n: "(if le_StaticFieldCount e > int (length (le_StaticFields e)) then int (length (le_StaticFields e)) else le_StaticFieldCount e)
      = min (le_StaticFieldCount e) (int (length (le_StaticFields e)))" by simp
  have "foldl appendField (foldl appendField d (take (nat (min (le_StaticFieldCount e) (int (length (le_StaticFields e))))) (le_StaticFields e))) (le_Fields e)
      = foldl (\<lambda>d f. AppendField d (tf_KeyDesc f) (tf_Key f) (tf_Val f)) d (emitted_fields e)" for d
    using step [OF assms(2)] by (simp add: emitted_fields_def)
  then have "Format tz p hc (Some e) dst =
      (let (hc, d) = appendHeaderWith tz p hc dst (entryUnixNanos e) (le_Level e) (le_Message e);
           d = foldl (\<lambda>d f. AppendField d (tf_KeyDesc f) (tf_Key f) (tf_Val f)) d (emitted_fields e)
       in (hc, AppendCloser d))"
    using assms(1) by (simp only: Format_def option.case n if_False Let_def AppendCloser_def)
  then show ?thesis
    by (simp add: AppendStringField_def AppendIntField_def AppendFloat64Field_def AppendBoolField_def AppendField_def
        appendValue_def StringValue_def IntValue_def Int64Value_def Float64Value_def BoolValue_def zero_value_def Let_def
        del: appendFloat_eq)
qed

theorem direct_path_identical_witness:
  "Format (\<lambda>_. 0) PrecisionSecond empty_cache (Some (sample_entry\<lparr>le_File := []\<rparr>)) [] =
      (let (hc, d) = appendHeaderWith (\<lambda>_. 0) PrecisionSecond empty_cache [] 1700000000123456789 2 (le_Message sample_entry);
           d = AppendField d None ''user'' (StringValue ''bob'')
       in (hc, AppendCloser d))"
  using direct_path_identical [of "sample_entry\<lparr>le_File := []\<rparr>" "\<lambda>_. 0" PrecisionSecond empty_cache "[]"]
  by (simp add: sample_entry_def emitted_fields_def StringValue_def entryUnixNanos_def Let_def)

text \<open>
  A pre-declared key without a JSON fragment loses its name: the formatter escapes the field's
  plain key, which is empty beside a descriptor, and the name in the descriptor is never used.
\<close>

theorem key_without_fragment_loses_name:
  "appendField [] \<lparr>tf_Key = [], tf_KeyDesc = Some \<lparr>fk_Name = name, fk_JSONFragment = []\<rparr>,
     tf_Val = IntValue i, tf_Value = GNil\<rparr> = '',\"\":'' @ itoa i"
  by (simp add: appendField_def appendKeyPrefix_eq key_member_def appendValue_def IntValue_def zero_value_def)

end
