(* ===== verification/Sensitive_Registry.thy ===== *)
theory Sensitive_Registry
  imports Field_Dict "HOL-Library.Sublist"
begin

text \<open>
  The two registries of sensitive field names: \<^verbatim>\<open>registry/sensitive_field_registry.go\<close> (names,
  wildcard patterns and heuristics, consulted by the masker) and
  \<^verbatim>\<open>fielddict/sensitive_field_registry.go\<close> (masks per name and per dictionary id).

  \<open>strings.ToLower\<close> and \<open>strings.TrimSpace\<close> are written out for ASCII names; the other functions of
  package \<open>strings\<close> act on bytes. The global field dictionary a registration writes to is threaded
  as an argument. Atomic counters are fields of the record; the mutex serialises the operations.
\<close>

section \<open>Strings\<close>

definition ch :: "char \<Rightarrow> nat" where
  "ch c = of_char c"

definition lower_char :: "char \<Rightarrow> char" where
  "lower_char c = (if 65 \<le> ch c \<and> ch c \<le> 90 then char_of (ch c + 32) else c)"

definition ToLower :: "string \<Rightarrow> string" where
  "ToLower s = map lower_char s"

definition is_space :: "char \<Rightarrow> bool" where
  "is_space c \<longleftrightarrow> ch c = 32 \<or> (9 \<le> ch c \<and> ch c \<le> 13)"

definition TrimSpace :: "string \<Rightarrow> string" where
  "TrimSpace s = rev (dropWhile is_space (rev (dropWhile is_space s)))"

fun Contains :: "string \<Rightarrow> string \<Rightarrow> bool" where
  "Contains [] p = (p = [])"
| "Contains (c # s) p = (prefix p (c # s) \<or> Contains s p)"

text \<open>\<open>strings.Split(s, "*")\<close>.\<close>

fun split_star :: "string \<Rightarrow> string list" where
  "split_star [] = [[]]"
| "split_star (c # s) =
     (if c = CHR ''*'' then [] # split_star s
      else case split_star s of [] \<Rightarrow> [[c]] | p # ps \<Rightarrow> (c # p) # ps)"

definition normalizeName :: "string \<Rightarrow> string" where
  "normalizeName s = ToLower (TrimSpace s)"

section \<open>The registry of names and patterns\<close>

record sensitive_registry =
  sr_fieldIDs :: "nat \<rightharpoonup> bool"
  sr_fieldNames :: "string \<rightharpoonup> bool"
  sr_fieldPatterns :: "string list"
  sr_commonSensitive :: "string set"
  sr_defaultMask :: string
  sr_defaultUnknownMask :: "string option"   \<comment> \<open>the pre-boxed interface value, \<open>None\<close> for nil\<close>
  sr_hitCount :: int
  sr_missCount :: int
  sr_checkCount :: int

definition common_fields :: "string list" where
  "common_fields =
    [''password'', ''passwd'', ''pwd'', ''secret'', ''token'', ''api_key'', ''apikey'',
     ''access_token'', ''refresh_token'', ''auth_token'', ''bearer_token'',
     ''ssn'', ''social_security'', ''social_security_number'',
     ''credit_card'', ''cc_number'', ''card_number'', ''pan'',
     ''email'', ''phone'', ''mobile'', ''address'', ''zipcode'', ''zip_code'',
     ''date_of_birth'', ''dob'', ''birthdate'', ''birth_date'',
     ''bank_account'', ''account_number'', ''routing_number'',
     ''iban'', ''swift'', ''bic'', ''sort_code'',
     ''salary'', ''income'', ''compensation'', ''payment_info'',
     ''medical_record'', ''patient_id'', ''health_id'', ''mrn'',
     ''diagnosis'', ''treatment'', ''prescription'', ''medication'',
     ''passport'', ''passport_number'', ''driver_license'', ''license_number'',
     ''tax_id'', ''taxpayer_id'', ''ein'', ''vat_number'',
     ''session_id'', ''session_token'', ''csrf_token'', ''xsrf_token'',
     ''cookie'', ''session_cookie'', ''auth_cookie'',
     ''connection_string'', ''db_password'', ''database_password'',
     ''private_key'', ''privatekey'', ''priv_key'', ''client_secret'',
     ''aws_access_key'', ''aws_secret_key'', ''azure_key'', ''gcp_key'',
     ''ssh_key'', ''ssh_private_key'', ''ssl_key'', ''tls_key'']"

definition initializeCommonSensitiveFields :: "sensitive_registry \<Rightarrow> sensitive_registry" where
  "initializeCommonSensitiveFields r =
     foldl (\<lambda>r field. r\<lparr>sr_commonSensitive := insert field (sr_commonSensitive r),
                        sr_fieldNames := (sr_fieldNames r)(field \<mapsto> True)\<rparr>) r common_fields"

definition NewSensitiveFieldRegistry :: sensitive_registry where
  "NewSensitiveFieldRegistry =
     initializeCommonSensitiveFields
       \<lparr>sr_fieldIDs = Map.empty, sr_fieldNames = Map.empty, sr_fieldPatterns = [], sr_commonSensitive = {},
        sr_defaultMask = ''[REDACTED]'', sr_defaultUnknownMask = Some ''[SENSITIVE]'',
        sr_hitCount = 0, sr_missCount = 0, sr_checkCount = 0\<rparr>"

definition RegisterSensitiveField ::
  "field_dictionary \<Rightarrow> sensitive_registry \<Rightarrow> string \<Rightarrow> field_dictionary \<times> sensitive_registry" where
  "RegisterSensitiveField fd r fieldName =
     (let fieldName = normalizeName fieldName in
      if fieldName = [] then (fd, r)
      else let r = r\<lparr>sr_fieldNames := (sr_fieldNames r)(fieldName \<mapsto> True)\<rparr>;
               (fd, fieldID) = GetOrRegisterFieldID fd fieldName
           in (fd, r\<lparr>sr_fieldIDs := (sr_fieldIDs r)(fieldID \<mapsto> True)\<rparr>))"

definition RegisterSensitivePattern :: "sensitive_registry \<Rightarrow> string \<Rightarrow> sensitive_registry" where
  "RegisterSensitivePattern r pattern =
     (let pattern = normalizeName pattern in
      if pattern = [] then r else r\<lparr>sr_fieldPatterns := sr_fieldPatterns r @ [pattern]\<rparr>)"

definition matchPattern :: "string \<Rightarrow> string \<Rightarrow> bool" where
  "matchPattern fieldName pattern =
     (if pattern = ''*'' then True
      else if Contains pattern ''*'' then
        (let parts = split_star pattern in
         if length parts = 2 \<and> parts ! 0 = [] \<and> parts ! 1 = [] then True
         else if length parts = 2 \<and> parts ! 1 = [] then prefix (parts ! 0) fieldName
         else if length parts = 2 \<and> parts ! 0 = [] then suffix (parts ! 1) fieldName
         else if length parts = 3 \<and> parts ! 0 = [] \<and> parts ! 2 = [] then Contains fieldName (parts ! 1)
         else fieldName = pattern)
      else fieldName = pattern)"

definition patternMatch :: "sensitive_registry \<Rightarrow> string \<Rightarrow> bool" where
  "patternMatch r fieldName = list_ex (matchPattern fieldName) (sr_fieldPatterns r)"

definition heuristicMatch :: "string \<Rightarrow> bool" where
  "heuristicMatch fieldName =
     list_ex (Contains fieldName)
       [''key'', ''secret'', ''password'', ''token'', ''auth'', ''credential'',
        ''private'', ''confidential'', ''sensitive'', ''personal'', ''pii'']"

definition hit :: "sensitive_registry \<Rightarrow> sensitive_registry" where
  "hit r = r\<lparr>sr_hitCount := sr_hitCount r + 1\<rparr>"

definition miss :: "sensitive_registry \<Rightarrow> sensitive_registry" where
  "miss r = r\<lparr>sr_missCount := sr_missCount r + 1\<rparr>"

definition IsSensitive :: "sensitive_registry \<Rightarrow> string \<Rightarrow> sensitive_registry \<times> bool" where
  "IsSensitive r fieldName =
     (let r = r\<lparr>sr_checkCount := sr_checkCount r + 1\<rparr>; fieldName = normalizeName fieldName in
      if fieldName = [] then (r, False)
      else case sr_fieldNames r fieldName of
             Some sensitive \<Rightarrow> (hit r, sensitive)
           | None \<Rightarrow>
               if fieldName \<in> sr_commonSensitive r then (hit r, True)
               else if patternMatch r fieldName then (hit r, True)
               else if heuristicMatch fieldName then (miss r, True)
               else (miss r, False))"

definition IsSensitiveByID :: "sensitive_registry \<Rightarrow> nat \<Rightarrow> sensitive_registry \<times> bool" where
  "IsSensitiveByID r fieldID =
     (let r = r\<lparr>sr_checkCount := sr_checkCount r + 1\<rparr> in
      case sr_fieldIDs r fieldID of Some sensitive \<Rightarrow> (hit r, sensitive) | None \<Rightarrow> (miss r, False))"

definition sr_Reset :: "sensitive_registry \<Rightarrow> sensitive_registry" where
  "sr_Reset r = r\<lparr>sr_fieldIDs := Map.empty, sr_fieldNames := Map.empty, sr_fieldPatterns := [],
     sr_hitCount := 0, sr_missCount := 0, sr_checkCount := 0\<rparr>"

definition sr_GetMask :: "sensitive_registry \<Rightarrow> string \<Rightarrow> sensitive_registry \<times> string option" where
  "sr_GetMask r fieldName =
     (if sr_fieldNames r fieldName = Some True then (r, Some (sr_defaultMask r))
      else let (r, sensitive) = IsSensitive r fieldName
           in (r, if sensitive then Some (sr_defaultMask r) else None))"

text \<open>\<open>GetMaskInterface\<close> is the same lookup returning the pre-boxed mask.\<close>

definition GetMaskInterface :: "sensitive_registry \<Rightarrow> string \<Rightarrow> sensitive_registry \<times> string option" where
  "GetMaskInterface r fieldName =
     (if sr_fieldNames r fieldName = Some True then (r, Some (sr_defaultMask r))
      else let (r, sensitive) = IsSensitive r fieldName
           in (r, if sensitive then Some (sr_defaultMask r) else None))"

definition GetDefaultUnknownMaskInterface :: "sensitive_registry \<Rightarrow> string option" where
  "GetDefaultUnknownMaskInterface r = sr_defaultUnknownMask r"

definition RegisterSensitiveFieldsFromConfig ::
  "field_dictionary \<Rightarrow> sensitive_registry \<Rightarrow> string list \<Rightarrow> string list \<Rightarrow> field_dictionary \<times> sensitive_registry" where
  "RegisterSensitiveFieldsFromConfig fd r fieldList patterns =
     (let (fd, r) = foldl (\<lambda>(fd, r) field. RegisterSensitiveField fd r field) (fd, r) fieldList
      in (fd, foldl RegisterSensitivePattern r patterns))"

section \<open>The registry of masks\<close>

record mask_registry =
  mr_sensitiveFields :: "string \<rightharpoonup> string"
  mr_sensitiveFieldsByID :: "int \<rightharpoonup> string"
  mr_fieldIDs :: "string \<rightharpoonup> int"
  mr_defaultUnknownMask :: string
  mr_precomputedMasks :: "string \<rightharpoonup> string"

record sensitive_field_config =
  sc_Name :: string
  sc_FieldID :: int
  sc_Mask :: string

definition mr_RegisterSensitiveField :: "mask_registry \<Rightarrow> string \<Rightarrow> string \<Rightarrow> mask_registry" where
  "mr_RegisterSensitiveField r fieldName maskValue =
     r\<lparr>mr_sensitiveFields := (mr_sensitiveFields r)(fieldName \<mapsto> maskValue),
       mr_precomputedMasks := (mr_precomputedMasks r)(fieldName \<mapsto> maskValue)\<rparr>"

definition default_masks :: "(string \<times> string) list" where
  "default_masks =
    [(''password'', ''***PASSWORD***''), (''passwd'', ''***PASSWORD***''), (''pwd'', ''***PASSWORD***''),
     (''pass'', ''***PASSWORD***''), (''secret'', ''***SECRET***''), (''token'', ''***TOKEN***''),
     (''api_key'', ''***API_KEY***''), (''apikey'', ''***API_KEY***''), (''jwt'', ''***JWT***''), (''hash'', ''***HASH***''),
     (''email'', ''***EMAIL***''), (''ssn'', ''***SSN***''), (''social_security'', ''***SSN***''),
     (''phone'', ''***PHONE***''), (''mobile'', ''***PHONE***''), (''credit_card'', ''***CREDIT_CARD***''),
     (''card_number'', ''***CREDIT_CARD***''), (''auth'', ''***AUTH***''), (''authorization'', ''***AUTH***''),
     (''cookie'', ''***COOKIE***''), (''session'', ''***SESSION***''), (''session_id'', ''***SESSION***''),
     (''bank_account'', ''***BANK_ACCOUNT***''), (''routing_number'', ''***ROUTING_NUMBER***''), (''pin'', ''***PIN***''),
     (''private_key'', ''***PRIVATE_KEY***''), (''public_key'', ''***PUBLIC_KEY***''), (''certificate'', ''***CERTIFICATE***'')]"

definition registerDefaultSensitiveFields :: "mask_registry \<Rightarrow> mask_registry" where
  "registerDefaultSensitiveFields r = foldl (\<lambda>r (n, m). mr_RegisterSensitiveField r n m) r default_masks"

definition mr_New :: mask_registry where
  "mr_New = registerDefaultSensitiveFields
     \<lparr>mr_sensitiveFields = Map.empty, mr_sensitiveFieldsByID = Map.empty, mr_fieldIDs = Map.empty,
      mr_defaultUnknownMask = ''***REDACTED***'', mr_precomputedMasks = Map.empty\<rparr>"

definition mr_GetMask :: "mask_registry \<Rightarrow> string \<Rightarrow> string option" where
  "mr_GetMask r fieldName = mr_sensitiveFields r fieldName"

definition SetDefaultUnknownMask :: "mask_registry \<Rightarrow> string \<Rightarrow> mask_registry" where
  "SetDefaultUnknownMask r msk = r\<lparr>mr_defaultUnknownMask := msk\<rparr>"

definition IsSensitiveField :: "mask_registry \<Rightarrow> string \<Rightarrow> bool" where
  "IsSensitiveField r fieldName = (mr_sensitiveFields r fieldName \<noteq> None)"

definition register_config :: "mask_registry \<Rightarrow> sensitive_field_config \<Rightarrow> mask_registry" where
  "register_config r sf =
     (let r = r\<lparr>mr_sensitiveFields := (mr_sensitiveFields r)(sc_Name sf \<mapsto> sc_Mask sf),
               mr_precomputedMasks := (mr_precomputedMasks r)(sc_Name sf \<mapsto> sc_Mask sf)\<rparr>
      in if sc_FieldID sf > 0
         then r\<lparr>mr_fieldIDs := (mr_fieldIDs r)(sc_Name sf \<mapsto> sc_FieldID sf),
                mr_sensitiveFieldsByID := (mr_sensitiveFieldsByID r)(sc_FieldID sf \<mapsto> sc_Mask sf)\<rparr>
         else r)"

definition mr_RegisterFromConfig :: "mask_registry \<Rightarrow> sensitive_field_config list \<Rightarrow> mask_registry" where
  "mr_RegisterFromConfig r sensitiveFields = foldl register_config r sensitiveFields"

definition RegisterWithFieldID :: "mask_registry \<Rightarrow> string \<Rightarrow> int \<Rightarrow> string \<Rightarrow> mask_registry" where
  "RegisterWithFieldID r fieldName fieldID maskValue =
     r\<lparr>mr_sensitiveFields := (mr_sensitiveFields r)(fieldName \<mapsto> maskValue),
       mr_precomputedMasks := (mr_precomputedMasks r)(fieldName \<mapsto> maskValue),
       mr_fieldIDs := (mr_fieldIDs r)(fieldName \<mapsto> fieldID),
       mr_sensitiveFieldsByID := (mr_sensitiveFieldsByID r)(fieldID \<mapsto> maskValue)\<rparr>"

definition GetMaskByFieldID :: "mask_registry \<Rightarrow> int \<Rightarrow> string option" where
  "GetMaskByFieldID r fieldID = mr_sensitiveFieldsByID r fieldID"

definition IsSensitiveFieldByID :: "mask_registry \<Rightarrow> int \<Rightarrow> bool" where
  "IsSensitiveFieldByID r fieldID = (mr_sensitiveFieldsByID r fieldID \<noteq> None)"

section \<open>Lemmas\<close>

lemma lower_char_idem [simp]: "lower_char (lower_char c) = lower_char c"
  by (auto simp: lower_char_def ch_def)

lemma lower_char_space [simp]: "is_space (lower_char c) = is_space c"
  by (auto simp: lower_char_def is_space_def ch_def)

lemma dropWhile_ToLower: "dropWhile is_space (ToLower s) = ToLower (dropWhile is_space s)"
  by (induction s) (auto simp: ToLower_def)

lemma ToLower_rev: "rev (ToLower s) = ToLower (rev s)"
  by (simp add: ToLower_def rev_map)

lemma TrimSpace_ToLower: "TrimSpace (ToLower s) = ToLower (TrimSpace s)"
  by (simp add: TrimSpace_def dropWhile_ToLower ToLower_rev)

lemma dropWhile_idem: "dropWhile P (dropWhile P s) = dropWhile P s"
  by (induction s) auto

lemma dropWhile_fixed: "dropWhile P s = s \<longleftrightarrow> (s = [] \<or> \<not> P (hd s))"
  by (rule dropWhile_eq_self_iff)

lemma TrimSpace_idem [simp]: "TrimSpace (TrimSpace s) = TrimSpace s"
proof -
  let ?t = "dropWhile is_space s" and ?r = "TrimSpace s"
  have "?r = [] \<or> \<not> is_space (hd ?r)"
  proof (cases "?r = []")
    case False
    have "suffix (dropWhile is_space (rev ?t)) (rev ?t)" by (rule suffix_dropWhile)
    then have "prefix ?r ?t" by (simp add: suffix_to_prefix TrimSpace_def)
    with False have "hd ?r = hd ?t" and "?t \<noteq> []" by (auto simp: prefix_def simp del: dropWhile_eq_Nil_conv)
    with hd_dropWhile [of is_space s] show ?thesis by metis
  qed simp
  then have "dropWhile is_space ?r = ?r" by (simp add: dropWhile_fixed)
  moreover have "dropWhile is_space (rev ?r) = rev ?r" by (simp add: TrimSpace_def dropWhile_idem)
  ultimately show ?thesis unfolding TrimSpace_def [of "TrimSpace s"] by simp
qed

lemma ToLower_idem [simp]: "ToLower (ToLower s) = ToLower s"
  by (simp add: ToLower_def comp_def)

lemma normalize_idem [simp]: "normalizeName (normalizeName s) = normalizeName s"
  by (simp add: normalizeName_def TrimSpace_ToLower)


lemma split_star_free: "CHR ''*'' \<notin> set p \<Longrightarrow> split_star p = [p]"
  by (induction p) auto

lemma split_star_nonempty [simp]: "split_star s \<noteq> []"
  by (cases s) (auto split: list.splits)

lemma split_star_append: "CHR ''*'' \<notin> set p \<Longrightarrow> split_star (p @ CHR ''*'' # s) = p # split_star s"
  by (induction p) auto

lemma Contains_iff: "Contains s p \<longleftrightarrow> sublist p s"
  by (induction s) (auto simp: sublist_Cons_right)

lemma Contains_star [simp]: "Contains s ''*'' \<longleftrightarrow> CHR ''*'' \<in> set s"
  by (auto simp: Contains_iff sublist_def dest: split_list)

text \<open>Masking decisions: the mask lookup is the sensitivity test on the normalised name.\<close>

definition sr_ok :: "sensitive_registry \<Rightarrow> bool" where
  "sr_ok r \<longleftrightarrow> (\<forall>n. sr_fieldNames r n \<noteq> Some False) \<and> (\<forall>i. sr_fieldIDs r i \<noteq> Some False)"

definition sensitive :: "sensitive_registry \<Rightarrow> string \<Rightarrow> bool" where
  "sensitive r name \<longleftrightarrow> (let n = normalizeName name in n \<noteq> [] \<and>
     (sr_fieldNames r n = Some True \<or> n \<in> sr_commonSensitive r \<or> patternMatch r n \<or> heuristicMatch n))"

lemma frame_counts [simp]:
  "patternMatch (r\<lparr>sr_checkCount := c\<rparr>) n = patternMatch r n"
  "sr_fieldNames (hit r) = sr_fieldNames r" "sr_fieldNames (miss r) = sr_fieldNames r"
  "sr_fieldIDs (hit r) = sr_fieldIDs r" "sr_fieldIDs (miss r) = sr_fieldIDs r"
  by (simp_all add: patternMatch_def hit_def miss_def)

lemma IsSensitive_eq: "sr_ok r \<Longrightarrow> snd (IsSensitive r name) = sensitive r name"
proof -
  let ?n = "normalizeName name"
  assume "sr_ok r"
  then have "sr_fieldNames r ?n = None \<or> sr_fieldNames r ?n = Some True"
    unfolding sr_ok_def by (metis (full_types) option.exhaust)
  then show ?thesis by (auto simp: IsSensitive_def sensitive_def Let_def)
qed

lemma sr_GetMask_sensitive:
  "sr_ok r \<Longrightarrow> sensitive r name \<Longrightarrow> snd (sr_GetMask r name) = Some (sr_defaultMask r)"
proof -
  assume a: "sr_ok r" "sensitive r name"
  have "sr_defaultMask (fst (IsSensitive r name)) = sr_defaultMask r"
    by (auto simp: IsSensitive_def hit_def miss_def Let_def split: option.splits)
  with IsSensitive_eq [OF a(1), of name] a(2) show ?thesis
    by (auto simp: sr_GetMask_def split: prod.splits)
qed

lemma GetMaskInterface_eq: "GetMaskInterface r name = sr_GetMask r name"
  by (simp add: GetMaskInterface_def sr_GetMask_def)

datatype sr_op = OpField string | OpPattern string | OpQuery string | OpQueryID nat

fun sr_step :: "field_dictionary \<times> sensitive_registry \<Rightarrow> sr_op \<Rightarrow> field_dictionary \<times> sensitive_registry" where
  "sr_step (fd, r) (OpField n) = RegisterSensitiveField fd r n"
| "sr_step (fd, r) (OpPattern p) = (fd, RegisterSensitivePattern r p)"
| "sr_step (fd, r) (OpQuery n) = (fd, fst (IsSensitive r n))"
| "sr_step (fd, r) (OpQueryID i) = (fd, fst (IsSensitiveByID r i))"

definition sr_mono :: "sensitive_registry \<Rightarrow> sensitive_registry \<Rightarrow> bool" where
  "sr_mono r r' \<longleftrightarrow> (sr_ok r \<longrightarrow> sr_ok r') \<and> (\<forall>n. sensitive r n \<longrightarrow> sensitive r' n) \<and> sr_defaultMask r' = sr_defaultMask r"

lemma sr_mono_refl: "sr_mono r r"
  and sr_mono_trans: "sr_mono a b \<Longrightarrow> sr_mono b c \<Longrightarrow> sr_mono a c"
  by (auto simp: sr_mono_def)

lemma sr_step_mono: "sr_mono r (snd (sr_step (fd, r) op))"
proof (cases op)
  case (OpField n)
  then show ?thesis
    by (auto simp: sr_mono_def RegisterSensitiveField_def sr_ok_def sensitive_def patternMatch_def Let_def split: prod.splits)
next
  case (OpPattern p)
  then show ?thesis
    by (auto simp: sr_mono_def RegisterSensitivePattern_def sr_ok_def sensitive_def patternMatch_def Let_def)
next
  case (OpQuery n)
  have "sr_fieldNames (fst (IsSensitive r n)) = sr_fieldNames r \<and> sr_fieldIDs (fst (IsSensitive r n)) = sr_fieldIDs r
      \<and> sr_fieldPatterns (fst (IsSensitive r n)) = sr_fieldPatterns r \<and> sr_commonSensitive (fst (IsSensitive r n)) = sr_commonSensitive r
      \<and> sr_defaultMask (fst (IsSensitive r n)) = sr_defaultMask r"
    by (auto simp: IsSensitive_def hit_def miss_def Let_def split: option.splits)
  with OpQuery show ?thesis by (simp add: sr_mono_def sr_ok_def sensitive_def patternMatch_def)
next
  case (OpQueryID i)
  then show ?thesis
    by (auto simp: sr_mono_def IsSensitiveByID_def hit_def miss_def sr_ok_def sensitive_def patternMatch_def Let_def split: option.splits)
qed

lemma sr_run_mono: "sr_mono r (snd (foldl sr_step (fd, r) ops))"
proof (induction ops arbitrary: fd r)
  case (Cons op ops)
  obtain fd' r' where s: "sr_step (fd, r) op = (fd', r')" by fastforce
  with sr_step_mono [of r fd op] Cons.IH [of r' fd'] show ?case by (auto intro: sr_mono_trans)
qed (simp add: sr_mono_refl)

lemma sr_ok_New: "sr_ok NewSensitiveFieldRegistry"
proof -
  have "sr_ok (initializeCommonSensitiveFields r)" if "sr_ok r" for r
    unfolding initializeCommonSensitiveFields_def
    by (rule foldl_invariant [where P = sr_ok], rule that) (simp add: sr_ok_def)
  then show ?thesis by (simp add: NewSensitiveFieldRegistry_def sr_ok_def)
qed

lemma Register_sensitive:
  assumes "sr_ok r" and "normalizeName name \<noteq> []"
  shows "sr_ok (snd (RegisterSensitiveField fd r name))" and "sensitive (snd (RegisterSensitiveField fd r name)) name"
    and "sr_defaultMask (snd (RegisterSensitiveField fd r name)) = sr_defaultMask r"
  using assms by (auto simp: RegisterSensitiveField_def sr_ok_def sensitive_def Let_def split: prod.splits)

section \<open>Properties\<close>

text \<open>
  C27: once a field name is registered it is masked for good: after any further registrations and
  lookups, every spelling of the name that differs only in letter case or surrounding white space is
  given the default mask.
\<close>

theorem registered_field_stays_masked:
  assumes "sr_ok r" and "normalizeName name \<noteq> []" and "normalizeName name' = normalizeName name"
  shows "snd (sr_GetMask (snd (foldl sr_step (RegisterSensitiveField fd r name) ops)) name') = Some (sr_defaultMask r)"
proof -
  obtain fd' r' where r': "RegisterSensitiveField fd r name = (fd', r')" by fastforce
  note reg = Register_sensitive [OF assms(1,2), of fd, unfolded r' snd_conv]
  let ?r = "snd (foldl sr_step (fd', r') ops)"
  have "sr_ok ?r" "sensitive ?r name" "sr_defaultMask ?r = sr_defaultMask r"
    using sr_run_mono [of r' fd' ops] reg by (auto simp: sr_mono_def)
  moreover have "sensitive ?r name' = sensitive ?r name" by (simp add: sensitive_def assms(3))
  ultimately show ?thesis using sr_GetMask_sensitive [of ?r name'] r' by simp
qed

theorem registered_field_stays_masked_witness:
  "snd (sr_GetMask (snd (foldl sr_step (RegisterSensitiveField NewFieldDictionary NewSensitiveFieldRegistry '' Iban2 '')
     [OpPattern ''x*'', OpQuery ''y''])) ''IBAN2'') = Some (sr_defaultMask NewSensitiveFieldRegistry)"
proof (rule registered_field_stays_masked [OF sr_ok_New])
  show "normalizeName '' Iban2 '' \<noteq> []" by code_simp
  show "normalizeName ''IBAN2'' = normalizeName '' Iban2 ''" by code_simp
qed

text \<open>
  The three wildcard forms mean what the comments say: a trailing star matches the names with the
  prefix, a leading star those with the suffix, stars on both sides those containing the text, and a
  pattern without a star only itself.
\<close>

theorem matchPattern_wildcards:
  assumes "CHR ''*'' \<notin> set p" and "p \<noteq> []"
  shows "matchPattern f (p @ ''*'') = prefix p f \<and> matchPattern f (''*'' @ p) = suffix p f
     \<and> matchPattern f (''*'' @ p @ ''*'') = sublist p f \<and> matchPattern f p = (f = p)"
proof -
  have "split_star (p @ ''*'') = [p, []]" "split_star (''*'' @ p) = [[], p]" "split_star (''*'' @ p @ ''*'') = [[], p, []]"
    using split_star_append [OF assms(1), of "[]"] split_star_free [OF assms(1)] by simp_all
  then show ?thesis
    using assms by (simp add: matchPattern_def Let_def Contains_iff append_eq_Cons_conv Cons_eq_append_conv; auto)
qed

theorem matchPattern_wildcards_witness:
  "matchPattern ''db_password'' (''*'' @ ''_password'') = suffix ''_password'' ''db_password''"
  using matchPattern_wildcards [of "''_password''" "''db_password''"] by simp

text \<open>
  A star inside a pattern is not a wildcard: such a pattern only matches a name spelled with a
  star itself.
\<close>

theorem inner_star_never_matches:
  "RegisterSensitivePattern r ''user_*_pin'' = r\<lparr>sr_fieldPatterns := sr_fieldPatterns r @ [''user_*_pin'']\<rparr>
   \<and> \<not> matchPattern ''user_1_pin'' ''user_*_pin''"
  by (simp add: RegisterSensitivePattern_def normalizeName_def TrimSpace_def ToLower_def is_space_def lower_char_def
      ch_def matchPattern_def)

text \<open>
  A sensitive field configured with dictionary id 0 is masked by name but not by id, although 0
  is the id of the first registered name; registering the same field directly masks it both ways.
\<close>

theorem config_id_zero_not_masked_by_id:
  "mr_GetMask (mr_RegisterFromConfig r [\<lparr>sc_Name = n, sc_FieldID = 0, sc_Mask = m\<rparr>]) n = Some m
   \<and> GetMaskByFieldID (mr_RegisterFromConfig r [\<lparr>sc_Name = n, sc_FieldID = 0, sc_Mask = m\<rparr>]) 0 = GetMaskByFieldID r 0
   \<and> GetMaskByFieldID (RegisterWithFieldID r n 0 m) 0 = Some m
   \<and> snd (GetOrRegisterFieldID NewFieldDictionary n) = 0"
  by (simp add: mr_GetMask_def mr_RegisterFromConfig_def register_config_def GetMaskByFieldID_def RegisterWithFieldID_def
      registration_defs NewFieldDictionary_def Let_def)

end
