(* ===== verification/Log_Entry.thy ===== *)
theory Log_Entry
  imports Json_Line Indexed_Store
begin

text \<open>
  The complete log record of \<^verbatim>\<open>types/log_entry.go\<close> with its methods
  (\<^verbatim>\<open>types/log_entry_methods.go\<close>), the value printer of \<^verbatim>\<open>types/helpers.go\<close>, and the entry pool of
  \<^verbatim>\<open>pool/entry_pool.go\<close>.

  The record extends the part the formatters read. A Go slice is its visible elements together with
  the elements of its array behind them, up to the capacity (\<open>\<dots>Spare\<close>): a reslice moves the border
  and an append overwrites the first spare element, or takes a new array whose further elements are
  zero and are left out, so what an earlier line left behind is part of the state. The preformatted location bytes, the output
  scratch and the pool's identification number are written by no operation modelled here and are
  left out, as are the fields' public type tags.
\<close>

section \<open>Records\<close>

record 'd full_entry = log_entry +
  le_Component :: string
  le_Error :: "string option"
  le_ErrorMsg :: string
  le_Caller :: go_any
  le_LocationLen :: nat
  le_BaseName :: string
  le_Context :: "typed_field list"
  le_StaticContext :: "typed_field list"
  le_StaticContextCount :: int
  le_IndexedStore :: "'d indexed_store option"
  le_UseIndexedStorage :: bool
  le_FieldsSpare :: "typed_field list"
  le_StaticFieldsSpare :: "typed_field list"
  le_ContextSpare :: "typed_field list"
  le_StaticContextSpare :: "typed_field list"
  le_hasFieldOverflow :: bool
  le_hasContextOverflow :: bool

definition zero_field :: typed_field where
  "zero_field = \<lparr>tf_Key = [], tf_KeyDesc = None, tf_Val = zero_value, tf_Value = GNil\<rparr>"

text \<open>The zero value of the struct: every slice nil.\<close>

definition empty_entry :: "'d full_entry" where
  "empty_entry = \<lparr>le_Timestamp = None, le_TimestampUnix = 0, le_Level = 0, le_Message = [], le_File = [],
     le_Line = 0, le_Fields = [], le_StaticFields = [], le_StaticFieldCount = 0,
     le_Component = [], le_Error = None, le_ErrorMsg = [], le_Caller = GNil, le_LocationLen = 0,
     le_BaseName = [], le_Context = [], le_StaticContext = [], le_StaticContextCount = 0,
     le_IndexedStore = None, le_UseIndexedStorage = False, le_FieldsSpare = [], le_StaticFieldsSpare = [],
     le_ContextSpare = [], le_StaticContextSpare = [], le_hasFieldOverflow = False, le_hasContextOverflow = False\<rparr>"

text \<open>\<open>xs[:0]\<close>, \<open>xs[:n]\<close> and \<open>append(xs, x)\<close> on a slice and its spare elements.\<close>

definition slice_append :: "'a list \<Rightarrow> 'a list \<Rightarrow> 'a \<Rightarrow> 'a list \<times> 'a list" where
  "slice_append xs spare x = (case spare of [] \<Rightarrow> (xs @ [x], []) | _ # spare' \<Rightarrow> (xs @ [x], spare'))"

definition LogEntry_Reset :: "'d full_entry \<Rightarrow> 'd full_entry" where
  "LogEntry_Reset e = e\<lparr>le_StaticFieldCount := 0, le_StaticContextCount := 0,
     le_FieldsSpare := le_Fields e @ le_FieldsSpare e, le_Fields := [],
     le_ContextSpare := le_Context e @ le_ContextSpare e, le_Context := [],
     le_hasFieldOverflow := False, le_hasContextOverflow := False, le_Error := None, le_ErrorMsg := []\<rparr>"

definition level_String :: "nat \<Rightarrow> string" where
  "level_String l =
     (if l = TraceLevel then ''TRACE'' else if l = DebugLevel then ''DEBUG'' else if l = InfoLevel then ''INFO''
      else if l = WarnLevel then ''WARN'' else if l = ErrorLevel then ''ERROR''
      else if l = FatalLevel then ''FATAL'' else if l = PanicLevel then ''PANIC'' else ''UNKNOWN'')"

definition IsDefined :: "nat \<Rightarrow> bool" where
  "IsDefined l \<longleftrightarrow> l \<le> PanicLevel"

section \<open>Printing a value\<close>

text \<open>
  \<open>formatValue\<close> and the \<open>FormatAny\<close> it falls back to. \<open>ft\<close> is \<open>strconv.FormatFloat(_, 'f', -1, _)\<close>; a
  value of any other type is already the text its \<open>String\<close> method or \<open>fmt\<close> gives.
\<close>

fun types_FormatAny :: "(go_float \<Rightarrow> string) \<Rightarrow> go_any \<Rightarrow> string" where
  "types_FormatAny ft (GString s) = s"
| "types_FormatAny ft (GInt i) = itoa i"
| "types_FormatAny ft (GInt64 i) = itoa i"
| "types_FormatAny ft (GInt32 i) = itoa i"
| "types_FormatAny ft (GInt16 i) = itoa i"
| "types_FormatAny ft (GInt8 i) = itoa i"
| "types_FormatAny ft (GUint u) = itoa u"
| "types_FormatAny ft (GUint64 u) = itoa u"
| "types_FormatAny ft (GUint32 u) = itoa u"
| "types_FormatAny ft (GUint16 u) = itoa u"
| "types_FormatAny ft (GUint8 u) = itoa u"
| "types_FormatAny ft (GFloat64 f) = ft f"
| "types_FormatAny ft (GFloat32 f) = ft f"
| "types_FormatAny ft (GBool b) = (if b then ''true'' else ''false'')"
| "types_FormatAny ft GNil = ''null''"
| "types_FormatAny ft (GError e) = e"
| "types_FormatAny ft (GOther t) = t"

fun formatValue :: "(go_float \<Rightarrow> string) \<Rightarrow> go_any \<Rightarrow> string" where
  "formatValue ft (GString s) = s"
| "formatValue ft (GInt i) = itoa i"
| "formatValue ft (GInt64 i) = itoa i"
| "formatValue ft (GInt32 i) = itoa i"
| "formatValue ft (GInt16 i) = itoa i"
| "formatValue ft (GInt8 i) = itoa i"
| "formatValue ft (GUint u) = itoa u"
| "formatValue ft (GUint64 u) = itoa u"
| "formatValue ft (GUint32 u) = itoa u"
| "formatValue ft (GUint16 u) = itoa u"
| "formatValue ft (GUint8 u) = itoa u"
| "formatValue ft (GFloat64 f) = ft f"
| "formatValue ft (GFloat32 f) = ft f"
| "formatValue ft (GBool b) = (if b then ''true'' else ''false'')"
| "formatValue ft GNil = ''null''"
| "formatValue ft v = types_FormatAny ft v"

section \<open>Methods of the record\<close>

definition any_field :: "string \<Rightarrow> go_any \<Rightarrow> typed_field" where
  "any_field key v = \<lparr>tf_Key = key, tf_KeyDesc = None, tf_Val = zero_value, tf_Value = v\<rparr>"

definition AddField :: "string \<Rightarrow> go_any \<Rightarrow> 'd full_entry \<Rightarrow> 'd full_entry" where
  "AddField key v e =
     (let (fs, sp) = slice_append (le_Fields e) (le_FieldsSpare e) (any_field key v)
      in e\<lparr>le_Fields := fs, le_FieldsSpare := sp\<rparr>)"

text \<open>The map of \<open>AddFields\<close> as the list of pairs its iteration yields.\<close>

definition AddFields :: "(string \<times> go_any) list \<Rightarrow> 'd full_entry \<Rightarrow> 'd full_entry" where
  "AddFields kvs e = foldl (\<lambda>e (k, v). AddField k v e) e kvs"

definition AddContext :: "string \<Rightarrow> go_any \<Rightarrow> 'd full_entry \<Rightarrow> 'd full_entry" where
  "AddContext key v e =
     (let (fs, sp) = slice_append (le_Context e) (le_ContextSpare e) (any_field key v)
      in e\<lparr>le_Context := fs, le_ContextSpare := sp\<rparr>)"

definition SetError :: "string option \<Rightarrow> 'd full_entry \<Rightarrow> 'd full_entry" where
  "SetError err e = e\<lparr>le_Error := err\<rparr>"

definition SetComponent :: "string \<Rightarrow> 'd full_entry \<Rightarrow> 'd full_entry" where
  "SetComponent c e = e\<lparr>le_Component := c\<rparr>"

definition EnableIndexedStorage :: "int \<Rightarrow> 'd full_entry \<Rightarrow> 'd full_entry" where
  "EnableIndexedStorage chunkSize e =
     (case le_IndexedStore e of
        None \<Rightarrow> e\<lparr>le_IndexedStore := Some (NewIndexedFieldStore chunkSize), le_UseIndexedStorage := True\<rparr>
      | Some _ \<Rightarrow> e)"

definition AddIndexedField ::
  "(go_float \<Rightarrow> string) \<Rightarrow> 'd dict_iface \<Rightarrow> string \<Rightarrow> go_any \<Rightarrow> 'd full_entry \<Rightarrow> 'd full_entry" where
  "AddIndexedField ft ifc key v e =
     (let e = (if le_IndexedStore e = None then EnableIndexedStorage 64 e else e);
          strValue = formatValue ft v
      in e\<lparr>le_IndexedStore := map_option (\<lambda>st. st_Set ifc st key strValue) (le_IndexedStore e)\<rparr>)"

definition GetIndexedField :: "'d dict_iface \<Rightarrow> string \<Rightarrow> 'd full_entry \<Rightarrow> string option" where
  "GetIndexedField ifc key e =
     (case le_IndexedStore e of None \<Rightarrow> None | Some st \<Rightarrow> st_Get ifc st key)"

definition stored_fields :: "'d indexed_store \<Rightarrow> typed_field list" where
  "stored_fields st = map (\<lambda>(k, v). any_field k (GString v)) (GetAll st)"

text \<open>
  A count beyond the static fields makes the index expression panic, a negative total makes the
  allocation panic: \<open>None\<close>.
\<close>

definition counted :: "int \<Rightarrow> typed_field list \<Rightarrow> typed_field list option" where
  "counted n xs = (if n > int (length xs) then None else Some (take (nat n) xs))"

definition GetAllFields :: "'d full_entry \<Rightarrow> typed_field list option" where
  "GetAllFields e =
     (let totalFields = int (length (le_Fields e)) + le_StaticFieldCount e
            + (case le_IndexedStore e of None \<Rightarrow> 0 | Some s \<Rightarrow> int (st_Size s))
      in if totalFields < 0 then None
         else case counted (le_StaticFieldCount e) (le_StaticFields e) of
                None \<Rightarrow> None
              | Some st \<Rightarrow> Some (st @ le_Fields e
                  @ (case le_IndexedStore e of None \<Rightarrow> [] | Some s \<Rightarrow> stored_fields s)))"

definition EnsureDynamicFields :: "'d full_entry \<Rightarrow> 'd full_entry option" where
  "EnsureDynamicFields e =
     Option.bind
       (if le_StaticFieldCount e > 0 \<and> le_Fields e = []
        then map_option (\<lambda>xs. e\<lparr>le_Fields := xs, le_FieldsSpare := []\<rparr>)
               (counted (le_StaticFieldCount e) (le_StaticFields e))
        else Some e)
       (\<lambda>e. if le_StaticContextCount e > 0 \<and> le_Context e = []
            then map_option (\<lambda>xs. e\<lparr>le_Context := xs, le_ContextSpare := []\<rparr>)
                   (counted (le_StaticContextCount e) (le_StaticContext e))
            else Some e)"

definition GetAllContext :: "'d full_entry \<Rightarrow> typed_field list option" where
  "GetAllContext e =
     (if int (length (le_Context e)) + le_StaticContextCount e < 0 then None
      else map_option (\<lambda>st. st @ le_Context e) (counted (le_StaticContextCount e) (le_StaticContext e)))"

definition IsUsingIndexedStorage :: "'d full_entry \<Rightarrow> bool" where
  "IsUsingIndexedStorage e \<longleftrightarrow> le_UseIndexedStorage e \<and> le_IndexedStore e \<noteq> None"

definition MergeIndexedFieldsIntoTyped :: "'d full_entry \<Rightarrow> 'd full_entry" where
  "MergeIndexedFieldsIntoTyped e =
     (case le_IndexedStore e of
        None \<Rightarrow> e
      | Some st \<Rightarrow> foldl (\<lambda>e f. let (fs, sp) = slice_append (le_Fields e) (le_FieldsSpare e) f
                                in e\<lparr>le_Fields := fs, le_FieldsSpare := sp\<rparr>) e (stored_fields st))"

text \<open>
  \<open>Clone\<close>. The literal leaves the static slices of the clone nil, so the two \<open>copy\<close> calls that
  follow copy into nothing, while the counts are taken over.
\<close>

definition LogEntry_Clone :: "'d dict_iface \<Rightarrow> 'd full_entry \<Rightarrow> 'd full_entry option" where
  "LogEntry_Clone ifc e =
     EnsureDynamicFields (empty_entry\<lparr>
       le_Timestamp := le_Timestamp e, le_Level := le_Level e, le_Message := le_Message e,
       le_Component := le_Component e, le_File := le_File e, le_Line := le_Line e,
       le_Fields := le_Fields e, le_Context := le_Context e, le_Error := le_Error e,
       le_Caller := le_Caller e, le_UseIndexedStorage := le_UseIndexedStorage e,
       le_StaticFieldCount := le_StaticFieldCount e, le_StaticContextCount := le_StaticContextCount e,
       le_StaticFields := take 0 (le_StaticFields e), le_StaticContext := take 0 (le_StaticContext e),
       le_IndexedStore := map_option (\<lambda>st.
         foldl (\<lambda>c (key, v). st_Set ifc c key v) (NewIndexedFieldStore 64) (st_Iterate st)) (le_IndexedStore e)\<rparr>)"

text \<open>\<open>ToString\<close>; \<open>ts\<close> is the time's RFC 3339 text.\<close>

definition join_fields :: "(go_float \<Rightarrow> string) \<Rightarrow> typed_field list \<Rightarrow> string" where
  "join_fields ft fs =
     snd (foldl (\<lambda>(i, sb) f. (i + 1, (if i > 0 then sb @ '', '' else sb) @ tf_Key f @ '': '' @ formatValue ft (tf_Value f)))
       (0 :: nat, []) fs)"

definition ToString :: "(go_float \<Rightarrow> string) \<Rightarrow> (int option \<Rightarrow> string) \<Rightarrow> 'd full_entry \<Rightarrow> string option" where
  "ToString ft ts e =
     (let sb = ''['' @ ts (le_Timestamp e) @ ''] '' @ level_String (le_Level e) @ '' - '' @ le_Message e;
          sb = (if le_Component e \<noteq> [] then sb @ '' [Component: '' @ le_Component e @ '']'' else sb);
          sb = (if le_File e \<noteq> [] \<and> le_Line e > 0
                then sb @ '' ['' @ le_File e @ '':'' @ itoa (le_Line e) @ '']'' else sb)
      in map_option (\<lambda>allFields.
           let sb = (if allFields \<noteq> [] then sb @ '' Fields: {'' @ join_fields ft allFields @ ''}'' else sb)
           in (case le_Error e of None \<Rightarrow> sb | Some err \<Rightarrow> sb @ '' Error: '' @ err))
         (GetAllFields e))"

section \<open>The entry pool\<close>

text \<open>
  A \<open>sync.Pool\<close> may hand out any entry it holds or make a new one; \<open>pick\<close> is its choice, so that what
  is proved for every \<open>pick\<close> holds for every behaviour of the pool.
\<close>

record 'd entry_pool =
  ep_free :: "'d full_entry list"
  ep_acquire :: int
  ep_release :: int
  ep_alloc :: int
  ep_active :: int
  ep_initialized :: bool
  ep_shutdown :: bool

definition acquireEntryBasic :: "'d full_entry" where
  "acquireEntryBasic = empty_entry\<lparr>le_StaticFields := replicate 16 zero_field,
     le_StaticContext := replicate 16 zero_field, le_FieldsSpare := replicate 32 zero_field\<rparr>"

definition InitializeGlobalPool :: "'d entry_pool" where
  "InitializeGlobalPool = \<lparr>ep_free = [], ep_acquire = 0, ep_release = 0, ep_alloc = 0, ep_active = 0,
     ep_initialized = True, ep_shutdown = False\<rparr>"

definition sync_Get :: "nat option \<Rightarrow> 'a \<Rightarrow> 'a list \<Rightarrow> 'a list \<times> 'a" where
  "sync_Get pick new free =
     (case pick of
        Some i \<Rightarrow> if i < length free then (take i free @ drop (Suc i) free, free ! i) else (free, new)
      | None \<Rightarrow> (free, new))"

definition defaultStaticFieldCap :: nat where
  "defaultStaticFieldCap = 16"

definition renew_entry :: "'d full_entry \<Rightarrow> 'd full_entry" where
  "renew_entry e =
     (let e = (if le_Fields e \<noteq> []
               then e\<lparr>le_FieldsSpare := le_Fields e @ le_FieldsSpare e, le_Fields := []\<rparr> else e);
          e = e\<lparr>le_StaticFieldCount := 0\<rparr>
      in if length (le_StaticFields e) + length (le_StaticFieldsSpare e) < defaultStaticFieldCap
         then e\<lparr>le_StaticFields := replicate defaultStaticFieldCap zero_field, le_StaticFieldsSpare := []\<rparr>
         else e\<lparr>le_StaticFields := le_StaticFields e @ le_StaticFieldsSpare e, le_StaticFieldsSpare := []\<rparr>)"

definition AcquireEntry :: "nat option \<Rightarrow> 'd entry_pool \<Rightarrow> 'd entry_pool \<times> 'd full_entry" where
  "AcquireEntry pick p =
     (if \<not> ep_initialized p \<or> ep_shutdown p then (p, acquireEntryBasic)
      else let (free, e) = sync_Get pick acquireEntryBasic (ep_free p)
           in (p\<lparr>ep_free := free, ep_acquire := ep_acquire p + 1, ep_active := ep_active p + 1\<rparr>, renew_entry e))"

definition clear_slots :: "typed_field list \<Rightarrow> typed_field list" where
  "clear_slots xs = map (\<lambda>_. zero_field) xs"

definition wipe_entry :: "'d full_entry \<Rightarrow> 'd full_entry" where
  "wipe_entry e =
     (let e = e\<lparr>le_Fields := clear_slots (le_Fields e)\<rparr>;
          used = (if le_StaticFieldCount e > int (length (le_StaticFields e))
                  then int (length (le_StaticFields e)) else le_StaticFieldCount e);
          e = e\<lparr>le_StaticFields := clear_slots (take (nat used) (le_StaticFields e)) @ drop (nat used) (le_StaticFields e)\<rparr>;
          e = e\<lparr>le_StaticContext := clear_slots (le_StaticContext e)\<rparr>;
          e = e\<lparr>le_Context := clear_slots (le_Context e)\<rparr>;
          e = e\<lparr>le_Message := [], le_Level := InfoLevel, le_Component := [], le_Timestamp := None, le_TimestampUnix := 0\<rparr>;
          e = e\<lparr>le_StaticFieldCount := 0, le_FieldsSpare := le_Fields e @ le_FieldsSpare e, le_Fields := [],
                le_StaticContextSpare := le_StaticContext e @ le_StaticContextSpare e, le_StaticContext := []\<rparr>;
          e = LogEntry_Reset e;
          e = e\<lparr>le_File := [], le_Line := 0, le_Caller := GNil, le_LocationLen := 0, le_BaseName := []\<rparr>
      in e\<lparr>le_IndexedStore := None, le_UseIndexedStorage := False\<rparr>)"

definition ReleaseEntry :: "'d full_entry \<Rightarrow> 'd entry_pool \<Rightarrow> 'd entry_pool" where
  "ReleaseEntry e p =
     (if \<not> ep_initialized p then p
      else p\<lparr>ep_release := ep_release p + 1, ep_active := ep_active p - 1, ep_free := ep_free p @ [wipe_entry e]\<rparr>)"

record pool_stats =
  AcquireCount :: int
  ReleaseCount :: int
  AllocationCount :: int
  ActiveEntries :: int
  Initialized :: bool
  Shutdown :: bool

definition ep_GetStats :: "'d entry_pool \<Rightarrow> pool_stats" where
  "ep_GetStats p =
     (if \<not> ep_initialized p
      then \<lparr>AcquireCount = 0, ReleaseCount = 0, AllocationCount = 0, ActiveEntries = 0, Initialized = False, Shutdown = False\<rparr>
      else \<lparr>AcquireCount = ep_acquire p, ReleaseCount = ep_release p, AllocationCount = ep_alloc p,
             ActiveEntries = ep_active p, Initialized = ep_initialized p, Shutdown = ep_shutdown p\<rparr>)"

definition ep_Close :: "'d entry_pool \<Rightarrow> 'd entry_pool" where
  "ep_Close p = p\<lparr>ep_shutdown := True\<rparr>"

text \<open>The wrappers on the global pool; after \<open>Close\<close> a released entry is only reset and dropped.\<close>

definition releaseEntryBasic :: "'d full_entry \<Rightarrow> 'd full_entry" where
  "releaseEntryBasic e = e\<lparr>le_FieldsSpare := le_Fields e @ le_FieldsSpare e, le_Fields := [], le_StaticFieldCount := 0\<rparr>"

definition global_AcquireEntry :: "nat option \<Rightarrow> 'd entry_pool \<Rightarrow> 'd entry_pool \<times> 'd full_entry" where
  "global_AcquireEntry pick p =
     (if ep_initialized p \<and> \<not> ep_shutdown p then AcquireEntry pick p else (p, acquireEntryBasic))"

definition global_ReleaseEntry :: "'d full_entry \<Rightarrow> 'd entry_pool \<Rightarrow> 'd entry_pool" where
  "global_ReleaseEntry e p = (if ep_initialized p \<and> \<not> ep_shutdown p then ReleaseEntry e p else p)"

section \<open>What a pooled entry keeps\<close>

definition zeros :: "typed_field list \<Rightarrow> bool" where
  "zeros xs \<longleftrightarrow> list_all (\<lambda>x. x = zero_field) xs"

text \<open>\<open>blank\<close>: no trace of an earlier line, in the visible fields or in the arrays behind them.\<close>

definition no_text :: "'d full_entry \<Rightarrow> bool" where
  "no_text e \<longleftrightarrow> le_Message e = [] \<and> le_Component e = [] \<and> le_Timestamp e = None \<and> le_TimestampUnix e = 0
     \<and> le_File e = [] \<and> le_Line e = 0 \<and> le_Error e = None \<and> le_ErrorMsg e = [] \<and> le_Caller e = GNil
     \<and> le_LocationLen e = 0 \<and> le_BaseName e = [] \<and> le_IndexedStore e = None \<and> \<not> le_UseIndexedStorage e"

definition no_fields :: "'d full_entry \<Rightarrow> bool" where
  "no_fields e \<longleftrightarrow> le_Fields e = [] \<and> le_StaticFieldCount e = 0 \<and> le_Context e = [] \<and> le_StaticContextCount e = 0
     \<and> zeros (le_StaticFields e @ le_StaticFieldsSpare e) \<and> zeros (le_FieldsSpare e)
     \<and> zeros (le_ContextSpare e) \<and> zeros (le_StaticContext e @ le_StaticContextSpare e)"

definition blank :: "'d full_entry \<Rightarrow> bool" where
  "blank e \<longleftrightarrow> no_text e \<and> no_fields e"

text \<open>
  What the pool asks of a borrower: fields written behind the count, or behind the end of a slice,
  are the borrower's to clear.
\<close>

definition borrowed_ok :: "'d full_entry \<Rightarrow> bool" where
  "borrowed_ok e \<longleftrightarrow> zeros (drop (nat (le_StaticFieldCount e)) (le_StaticFields e)) \<and> zeros (le_StaticFieldsSpare e)
     \<and> zeros (le_FieldsSpare e) \<and> zeros (le_ContextSpare e) \<and> zeros (le_StaticContextSpare e)"

lemma zeros_simps [simp]:
  "zeros []" "zeros (x # xs) \<longleftrightarrow> x = zero_field \<and> zeros xs" "zeros (xs @ ys) \<longleftrightarrow> zeros xs \<and> zeros ys"
  "zeros (replicate n zero_field)" "zeros (clear_slots xs)"
  by (auto simp: zeros_def clear_slots_def list_all_iff)

lemma blank_basic: "blank acquireEntryBasic"
  by (simp add: blank_def no_text_def no_fields_def acquireEntryBasic_def empty_entry_def)

lemma no_text_wipe: "no_text (wipe_entry e)"
  by (simp add: no_text_def wipe_entry_def LogEntry_Reset_def Let_def)

lemma wipe_slots:
  "le_Fields (wipe_entry e) = []" "le_StaticFieldCount (wipe_entry e) = 0"
  "le_Context (wipe_entry e) = []" "le_StaticContextCount (wipe_entry e) = 0"
  "le_FieldsSpare (wipe_entry e) = clear_slots (le_Fields e) @ le_FieldsSpare e"
  "le_StaticFieldsSpare (wipe_entry e) = le_StaticFieldsSpare e"
  "le_ContextSpare (wipe_entry e) = clear_slots (le_Context e) @ le_ContextSpare e"
  "le_StaticContext (wipe_entry e) @ le_StaticContextSpare (wipe_entry e)
    = clear_slots (le_StaticContext e) @ le_StaticContextSpare e"
  by (simp_all add: wipe_entry_def LogEntry_Reset_def Let_def)

lemma wipe_static: "le_StaticFields (wipe_entry e)
    = clear_slots (take (nat (le_StaticFieldCount e)) (le_StaticFields e)) @ drop (nat (le_StaticFieldCount e)) (le_StaticFields e)"
  by (simp add: wipe_entry_def LogEntry_Reset_def Let_def)

lemma blank_wipe: "borrowed_ok e \<Longrightarrow> blank (wipe_entry e)"
  using wipe_slots(8) [of e]
  by (simp add: blank_def no_text_wipe no_fields_def borrowed_ok_def wipe_slots(1-7) wipe_static)

lemma borrowed_blank: "blank e \<Longrightarrow> borrowed_ok e"
  by (simp add: blank_def no_fields_def borrowed_ok_def)

lemma sync_Get_props: "\<forall>x \<in> set free. P x \<Longrightarrow> P new \<Longrightarrow>
   P (snd (sync_Get pick new free)) \<and> (\<forall>x \<in> set (fst (sync_Get pick new free)). P x)"
  by (auto simp: sync_Get_def split: option.splits dest: in_set_takeD in_set_dropD)

definition pool_clean :: "'d entry_pool \<Rightarrow> bool" where
  "pool_clean p \<longleftrightarrow> (\<forall>e \<in> set (ep_free p). blank e)"

lemma no_text_renew [simp]: "no_text (renew_entry e) = no_text e"
  by (simp add: no_text_def renew_entry_def Let_def)

lemma renew_slots:
  "le_Fields (renew_entry e) = []" "le_StaticFieldCount (renew_entry e) = 0"
  "le_StaticFieldsSpare (renew_entry e) = []" "defaultStaticFieldCap \<le> length (le_StaticFields (renew_entry e))"
  "le_FieldsSpare (renew_entry e) = le_Fields e @ le_FieldsSpare e"
  "le_Context (renew_entry e) = le_Context e" "le_StaticContextCount (renew_entry e) = le_StaticContextCount e"
  "le_ContextSpare (renew_entry e) = le_ContextSpare e" "le_StaticContext (renew_entry e) = le_StaticContext e"
  "le_StaticContextSpare (renew_entry e) = le_StaticContextSpare e"
  by (simp_all add: renew_entry_def Let_def)

lemma renew_static:
  "zeros (le_StaticFields e @ le_StaticFieldsSpare e) \<Longrightarrow> zeros (le_StaticFields (renew_entry e))"
  by (simp add: renew_entry_def Let_def)

lemma blank_renew: "blank e \<Longrightarrow> blank (renew_entry e)"
  using renew_static [of e] by (simp add: blank_def no_fields_def renew_slots)

text \<open>An acquired entry has room for the static path and carries nothing of an earlier line.\<close>

definition ready_entry :: "'d full_entry \<Rightarrow> bool" where
  "ready_entry e \<longleftrightarrow> blank e \<and> defaultStaticFieldCap \<le> length (le_StaticFields e) \<and> le_StaticFieldsSpare e = []"

lemma basic_cap: "length (le_StaticFields acquireEntryBasic) = 16" "le_StaticFieldsSpare acquireEntryBasic = []"
  by (simp_all add: acquireEntryBasic_def empty_entry_def)

lemma ready_basic: "ready_entry acquireEntryBasic"
  by (simp add: ready_entry_def blank_basic basic_cap defaultStaticFieldCap_def)

lemma AcquireEntry_ready:
  assumes "pool_clean p"
  shows "pool_clean (fst (AcquireEntry pick p))" and "ready_entry (snd (AcquireEntry pick p))"
proof -
  obtain free e where g: "sync_Get pick acquireEntryBasic (ep_free p) = (free, e)" by (metis surj_pair)
  have "blank e" and free: "\<forall>x \<in> set free. blank x"
    using sync_Get_props [of "ep_free p" blank acquireEntryBasic pick] assms blank_basic g by (auto simp: pool_clean_def)
  then have "ready_entry (renew_entry e)"
    by (simp add: ready_entry_def blank_renew renew_slots)
  with g show "ready_entry (snd (AcquireEntry pick p))"
    by (simp add: AcquireEntry_def ready_basic)
  show "pool_clean (fst (AcquireEntry pick p))"
    using assms free g by (simp add: AcquireEntry_def pool_clean_def)
qed

lemma ReleaseEntry_clean: "pool_clean p \<Longrightarrow> borrowed_ok e \<Longrightarrow> pool_clean (ReleaseEntry e p)"
  using blank_wipe [of e] by (auto simp: ReleaseEntry_def pool_clean_def)

section \<open>Sequences of pool calls\<close>

datatype 'd pool_call = PAcquire "nat option" | PRelease "'d full_entry" | PClose

fun pool_step :: "'d pool_call \<Rightarrow> 'd entry_pool \<Rightarrow> 'd entry_pool \<times> 'd full_entry list" where
  "pool_step (PAcquire pick) p = (let (p, e) = AcquireEntry pick p in (p, [e]))"
| "pool_step (PRelease e) p = (ReleaseEntry e p, [])"
| "pool_step PClose p = (ep_Close p, [])"

fun pool_run :: "'d pool_call list \<Rightarrow> 'd entry_pool \<Rightarrow> 'd entry_pool \<times> 'd full_entry list" where
  "pool_run [] p = (p, [])"
| "pool_run (c # cs) p = (let (p, es) = pool_step c p; (p, es') = pool_run cs p in (p, es @ es'))"

fun call_ok :: "'d pool_call \<Rightarrow> bool" where
  "call_ok (PRelease e) = borrowed_ok e"
| "call_ok _ = True"

lemma pool_step_ready:
  assumes "pool_clean p" and "call_ok c"
  shows "pool_clean (fst (pool_step c p)) \<and> list_all ready_entry (snd (pool_step c p))"
proof (cases c)
  case (PAcquire pick)
  then show ?thesis using AcquireEntry_ready [OF assms(1), of pick] by (simp add: split_beta)
next
  case (PRelease e)
  then show ?thesis using ReleaseEntry_clean [OF assms(1)] assms(2) by simp
next
  case PClose
  then show ?thesis using assms(1) by (simp add: ep_Close_def pool_clean_def)
qed

lemma pool_run_ready:
  "pool_clean p \<Longrightarrow> list_all call_ok cs \<Longrightarrow> pool_clean (fst (pool_run cs p)) \<and> list_all ready_entry (snd (pool_run cs p))"
proof (induction cs arbitrary: p)
  case (Cons c cs)
  have "pool_clean (fst (pool_step c p)) \<and> list_all ready_entry (snd (pool_step c p))"
    using pool_step_ready [of p c] Cons.prems by simp
  then show ?case using Cons.IH [of "fst (pool_step c p)"] Cons.prems by (simp add: split_beta)
qed simp

lemma pool_clean_Init: "pool_clean InitializeGlobalPool"
  by (simp add: pool_clean_def InitializeGlobalPool_def)

text \<open>
  The entry pool leaks nothing from one line into another: whatever entries the pool hands out again
  and in whatever order it is used, also after it has been closed, every acquired entry has room for
  the static path and is blank, in its texts, in its visible fields and in the arrays behind them,
  provided borrowers write static fields below the count they set.
\<close>

theorem entry_pool_forgets:
  assumes "list_all call_ok cs"
  shows "list_all ready_entry (snd (pool_run cs InitializeGlobalPool))"
  using pool_run_ready [OF pool_clean_Init assms] by simp

definition used_entry :: "unit full_entry" where
  "used_entry = acquireEntryBasic\<lparr>le_Message := ''login'', le_File := ''a.go'', le_Line := 3, le_StaticFieldCount := 1,
     le_StaticFields := any_field ''password'' (GString ''hunter2'') # replicate 15 zero_field,
     le_Fields := [any_field ''token'' (GString ''abc'')], le_Error := Some ''boom'', le_StaticContext := []\<rparr>"

theorem entry_pool_forgets_witness:
  "list_all ready_entry (snd (pool_run [PAcquire None, PRelease used_entry, PAcquire (Some 0), PClose, PAcquire (Some 0)] InitializeGlobalPool))"
  by (rule entry_pool_forgets) (simp add: used_entry_def borrowed_ok_def acquireEntryBasic_def empty_entry_def)

text \<open>
  \<open>Clone\<close> panics on every entry that keeps its fields in the static slots: the clone takes over the
  count but its static slice is nil, so the loop that fills the dynamic slice indexes out of range.
\<close>

theorem Clone_panics_on_static_fields:
  assumes "0 < le_StaticFieldCount e" and "le_Fields e = []"
  shows "LogEntry_Clone ifc e = None"
  using assms by (simp add: LogEntry_Clone_def EnsureDynamicFields_def counted_def)

theorem Clone_panics_on_static_fields_witness:
  "LogEntry_Clone ifc ((AddField ''k'' (GInt 1) empty_entry)\<lparr>le_StaticFields := [any_field ''k'' (GInt 1)], le_StaticFieldCount := 1, le_Fields := []\<rparr>) = None"
  by (rule Clone_panics_on_static_fields) simp_all

text \<open>An entry with dynamic fields beside the static ones is cloned into one that cannot be read.\<close>

lemma Clone_unreadable:
  assumes "0 < le_StaticFieldCount e" and "le_Fields e \<noteq> []" and "LogEntry_Clone ifc e = Some c"
  shows "GetAllFields c = None"
proof -
  have "le_StaticFieldCount c = le_StaticFieldCount e" "le_StaticFields c = []"
    using assms(2,3) by (auto simp: LogEntry_Clone_def EnsureDynamicFields_def bind_eq_Some_conv counted_def
        split: if_splits)
  then show ?thesis using assms(1) by (simp add: GetAllFields_def counted_def)
qed

text \<open>Without static slots a clone shows the same fields.\<close>

lemma Clone_same_fields:
  assumes "le_StaticFieldCount e = 0" and "le_StaticContextCount e = 0" and "le_IndexedStore e = None"
  shows "\<exists>c. LogEntry_Clone ifc e = Some c \<and> GetAllFields c = GetAllFields e \<and> GetAllContext c = GetAllContext e
    \<and> le_Message c = le_Message e \<and> le_Level c = le_Level e"
  using assms by (simp add: LogEntry_Clone_def EnsureDynamicFields_def GetAllFields_def GetAllContext_def counted_def)

text \<open>\<open>Clone\<close> leaves the unix time behind.\<close>

lemma Clone_drops_unix_time:
  "LogEntry_Clone ifc e = Some c \<Longrightarrow> le_TimestampUnix c = 0 \<and> le_ErrorMsg c = []"
  by (auto simp: LogEntry_Clone_def EnsureDynamicFields_def bind_eq_Some_conv empty_entry_def split: if_splits)

text \<open>A field added to the indexed store of an entry cannot be read back from it.\<close>

lemma AddIndexedField_unreadable:
  "GetIndexedField fd_iface ''a'' (AddIndexedField ft fd_iface ''a'' (GString ''1'') empty_entry) = None"
proof -
  have "st_Get fd_iface (st_Set fd_iface (NewIndexedFieldStore 64) ''a'' ''1'') ''a'' = None"
    by (simp add: st_Get_def st_Set_def setSlowPath_def getOrCreateFieldID_def getFieldID_def
        NewIndexedFieldStore_def growTo.simps growChunk_def put_field_def hashString_def Let_def)
  then show ?thesis by (simp add: GetIndexedField_def AddIndexedField_def EnableIndexedStorage_def empty_entry_def)
qed

text \<open>
  Releasing through the method after \<open>Close\<close> still counts: the number of active entries goes below
  zero when the entry was acquired after \<open>Close\<close> as well.
\<close>

lemma active_negative_after_Close:
  "ActiveEntries (ep_GetStats (fst (pool_run [PClose, PAcquire None, PRelease acquireEntryBasic] InitializeGlobalPool))) = - 1"
  by (simp add: InitializeGlobalPool_def ep_Close_def AcquireEntry_def ReleaseEntry_def ep_GetStats_def)

text \<open>Before \<open>Close\<close> the counters agree: what is active is what was acquired and not released.\<close>

lemma pool_counts:
  assumes "ep_active p = ep_acquire p - ep_release p" and "PClose \<notin> set cs" and "\<not> ep_shutdown p" and "ep_initialized p"
  shows "ep_active (fst (pool_run cs p)) = ep_acquire (fst (pool_run cs p)) - ep_release (fst (pool_run cs p))"
  using assms
proof (induction cs arbitrary: p)
  case (Cons c cs)
  let ?q = "fst (pool_step c p)"
  have "ep_active ?q = ep_acquire ?q - ep_release ?q \<and> \<not> ep_shutdown ?q \<and> ep_initialized ?q"
    using Cons.prems by (cases c) (auto simp: AcquireEntry_def ReleaseEntry_def split_beta)
  with Cons.prems show ?case using Cons.IH [of ?q] by (simp add: split_beta)
qed simp

text \<open>Fields added one after the other are shown in that order, after the static ones.\<close>

lemma AddField_shown:
  assumes "le_IndexedStore e = None" and "GetAllFields e = Some fs"
  shows "GetAllFields (AddField k v e) = Some (fs @ [any_field k v])"
  using assms by (auto simp: GetAllFields_def AddField_def slice_append_def counted_def split: list.splits if_splits)

end
