(* ===== verification/Masking.thy ===== *)
theory Masking
  imports Log_Entry Sensitive_Registry "HOL-Library.Sublist"
begin

text \<open>
  The PII masker: \<^verbatim>\<open>masking/pii_masker.go\<close> and \<^verbatim>\<open>masking/regex.go\<close>. The regular-expression
  engine (Go's packages \<open>regexp\<close>, \<open>regexp/syntax\<close> and the rune decoder of \<open>unicode/utf8\<close>) is a
  record of functions every operation that matches takes as an argument; the theorems only rely on
  match positions lying inside the text, in order of their two ends. The immutable snapshot readers
  load is a component of the masker's record; operations that can fail return the error and the
  masker. The lookup counters of the sensitive-field registry are statistics the masker never reads
  and are not advanced here; a field's public type tag, which no formatter reads, is left out. The
  guard on the output size before the builder grows panics only beyond 2^63-1 bytes and is left out.
\<close>

section \<open>Regular expressions that may match the empty string\<close>

datatype rx =
    RxNoMatch | RxEmptyMatch | RxLiteral "nat list" | RxCharClass "(nat \<times> nat) list"
  | RxAnyCharNotNL | RxAnyChar | RxAssertion
  | RxCapture rx | RxStar rx | RxPlus rx | RxQuest rx | RxRepeat nat "nat option" rx
  | RxConcat "rx list" | RxAlternate "rx list"

fun mayMatchEmpty :: "rx \<Rightarrow> bool" where
  "mayMatchEmpty RxNoMatch = False"
| "mayMatchEmpty (RxCharClass _) = False"
| "mayMatchEmpty RxAnyCharNotNL = False"
| "mayMatchEmpty RxAnyChar = False"
| "mayMatchEmpty (RxLiteral rune) = (rune = [])"
| "mayMatchEmpty (RxCapture sub) = mayMatchEmpty sub"
| "mayMatchEmpty (RxPlus sub) = mayMatchEmpty sub"
| "mayMatchEmpty (RxConcat subs) = list_all mayMatchEmpty subs"
| "mayMatchEmpty (RxAlternate subs) = list_ex mayMatchEmpty subs"
| "mayMatchEmpty (RxRepeat mn mx sub) = (mn = 0 \<or> mayMatchEmpty sub)"
| "mayMatchEmpty _ = True"

section \<open>Rules\<close>

record 'r regex_engine =
  re_compile :: "string \<Rightarrow> 'r option"            \<comment> \<open>\<open>regexp.Compile\<close>\<close>
  re_parse :: "string \<Rightarrow> rx option"               \<comment> \<open>\<open>syntax.Parse\<close>\<close>
  re_string :: "rx \<Rightarrow> string"                      \<comment> \<open>\<open>Regexp.String\<close> of the syntax tree\<close>
  re_find :: "'r \<Rightarrow> string \<Rightarrow> string"             \<comment> \<open>\<open>FindString\<close>\<close>
  re_match :: "'r \<Rightarrow> string \<Rightarrow> bool"             \<comment> \<open>\<open>MatchString\<close>\<close>
  re_find_all :: "'r \<Rightarrow> string \<Rightarrow> (nat \<times> nat) list"  \<comment> \<open>\<open>FindAllStringIndex(_, -1)\<close>\<close>
  re_last_rune :: "string \<Rightarrow> nat"                 \<comment> \<open>width of \<open>utf8.DecodeLastRuneInString\<close>\<close>

record 'r regex_rule =
  rr_re :: 'r
  rr_replace :: string
  rr_prefix :: "'r option"
  rr_context :: "'r option"

definition newRegexRule :: "'r regex_engine \<Rightarrow> string \<Rightarrow> string \<Rightarrow> 'r regex_rule option" where
  "newRegexRule eng pattern replacement =
     (case re_compile eng pattern of
        None \<Rightarrow> None
      | Some re \<Rightarrow>
          (let rule = \<lparr>rr_re = re, rr_replace = replacement, rr_prefix = None, rr_context = None\<rparr> in
           case re_parse eng pattern of
             None \<Rightarrow> Some rule
           | Some ast \<Rightarrow>
               if mayMatchEmpty ast then Some rule
               else let normalized = re_string eng ast;
                        pr = re_compile eng ([CHR 0x5C] @ ''A(?s:.*?)(?:'' @ normalized @ '')'');
                        cx = re_compile eng (''(?s:.)(?:'' @ normalized @ '')'')
                    in if pr \<noteq> None \<and> cx \<noteq> None
                       then Some (rule\<lparr>rr_prefix := pr, rr_context := cx\<rparr>) else Some rule))"

text \<open>\<open>FindString\<close> returns the empty text when nothing matches; rules with a prefix helper never
  match the empty text.\<close>

definition singleton :: "'r regex_engine \<Rightarrow> 'r regex_rule \<Rightarrow> string \<Rightarrow> nat \<times> nat \<times> nat" where
  "singleton eng r s =
     (let m = re_find eng (rr_re r) s in
      if m = [] then (0, 0, 0)
      else if length m = length s then (0, length s, 1)
      else let en = length (re_find eng (the (rr_prefix r)) s);
               st = en - length m
           in if en = length s then (st, en, 1)
              else let before = re_last_rune eng (take en s)
                   in if re_match eng (the (rr_context r)) (drop (en - before) s) then (0, 0, 2)
                      else (st, en, 1))"

record rule_match =
  rm_start :: nat
  rm_end :: nat
  rm_replacement :: string

record 'r masker_snapshot =
  fieldRules :: "string \<rightharpoonup> string"
  regexRules :: "'r regex_rule list"

definition rule_matches :: "'r regex_engine \<Rightarrow> string \<Rightarrow> 'r regex_rule \<Rightarrow> rule_match list" where
  "rule_matches eng s rule =
     (let all = map (\<lambda>(a, b). \<lparr>rm_start = a, rm_end = b, rm_replacement = rr_replace rule\<rparr>)
                  (re_find_all eng (rr_re rule) s)
      in if rr_prefix rule \<noteq> None
         then let (st, en, count) = singleton eng rule s in
              if count = 0 then []
              else if count = 1 then [\<lparr>rm_start = st, rm_end = en, rm_replacement = rr_replace rule\<rparr>]
              else all
         else all)"

fun absorb :: "rule_match \<Rightarrow> rule_match list \<Rightarrow> rule_match \<times> rule_match list" where
  "absorb m [] = (m, [])"
| "absorb m (x # xs) =
     (if rm_start x < rm_end m
      then absorb (if rm_end x > rm_end m then m\<lparr>rm_end := rm_end x\<rparr> else m) xs
      else (m, x # xs))"

lemma absorb_length: "length (snd (absorb m xs)) \<le> length xs"
  by (induction m xs rule: absorb.induct) auto

function merge_matches :: "rule_match list \<Rightarrow> rule_match list" where
  "merge_matches [] = []"
| "merge_matches (m # ms) = (let (m', rest) = absorb m ms in m' # merge_matches rest)"
  by pat_completeness auto

termination merge_matches
proof (relation "measure length", simp)
  fix m and ms :: "rule_match list" and p m' rest
  assume "p = absorb m ms" "(m', rest) = p"
  then have "absorb m ms = (m', rest)" by simp
  with absorb_length [of m ms] show "(rest, m # ms) \<in> measure length" by simp
qed

definition slice :: "string \<Rightarrow> nat \<Rightarrow> nat \<Rightarrow> string" where
  "slice s a b = take (b - a) (drop a s)"

fun write_out :: "string \<Rightarrow> nat \<Rightarrow> rule_match list \<Rightarrow> string" where
  "write_out s en [] = drop en s"
| "write_out s en (m # ms) = slice s en (rm_start m) @ rm_replacement m @ write_out s (rm_end m) ms"

definition maskStringResult ::
  "'r regex_engine \<Rightarrow> string \<Rightarrow> 'r masker_snapshot option \<Rightarrow> string \<times> string option" where
  "maskStringResult eng s snap =
     (case snap of
        None \<Rightarrow> (s, None)
      | Some sn \<Rightarrow>
          if regexRules sn = [] then (s, None)
          else let matches = concat (map (rule_matches eng s) (regexRules sn)) in
               if matches = [] then (s, None)
               else let matches = merge_matches (sort_key rm_start matches) in
                    if length matches = 1 \<and> rm_start (hd matches) = 0 \<and> rm_end (hd matches) = length s
                    then (rm_replacement (hd matches), Some (rm_replacement (hd matches)))
                    else (write_out s 0 matches, None))"

definition maskString :: "'r regex_engine \<Rightarrow> string \<Rightarrow> 'r masker_snapshot option \<Rightarrow> string" where
  "maskString eng s snap = fst (maskStringResult eng s snap)"

section \<open>Masking fields and entries\<close>

text \<open>A stored rule; \<open>mr_owner\<close> is \<open>Some\<close> of the name for a named registration.\<close>

record stored_rule =
  mr_Type :: string
  mr_Pattern :: string
  mr_Replace :: string
  mr_owner :: "string option"

record 'r pii_masker =
  pm_activeState :: "'r masker_snapshot option"
  pm_storedRules :: "stored_rule list"
  pm_patternNames :: "string \<rightharpoonup> string"
  pm_registry :: "sensitive_registry option"

definition setMaskedString :: "typed_field \<Rightarrow> string \<Rightarrow> go_any \<Rightarrow> typed_field" where
  "setMaskedString field v boxed = field\<lparr>tf_Val := StringValue v, tf_Value := boxed\<rparr>"

definition mask_key :: "typed_field \<Rightarrow> string" where
  "mask_key field = (if tf_Key field = [] then (case tf_KeyDesc field of Some k \<Rightarrow> fk_Name k | None \<Rightarrow> []) else tf_Key field)"

definition maskable_text :: "typed_field \<Rightarrow> string option" where
  "maskable_text field =
     (if tf_Value field \<noteq> GNil then (case tf_Value field of GString s \<Rightarrow> Some s | _ \<Rightarrow> None)
      else case fv_Kind (tf_Val field) of
             KindString \<Rightarrow> Some (fv_String (tf_Val field))
           | KindError \<Rightarrow> Some (fv_String (tf_Val field))
           | KindAny \<Rightarrow> (case fv_Any (tf_Val field) of GString s \<Rightarrow> Some s | _ \<Rightarrow> None)
           | _ \<Rightarrow> None)"

definition registry_mask :: "sensitive_registry option \<Rightarrow> string \<Rightarrow> string option" where
  "registry_mask reg key =
     (case reg of
        None \<Rightarrow> None
      | Some r \<Rightarrow> (case snd (GetMaskInterface r key) of
                    Some m \<Rightarrow> Some m
                  | None \<Rightarrow> GetDefaultUnknownMaskInterface r))"

definition maskFieldFast ::
  "'r regex_engine \<Rightarrow> sensitive_registry option \<Rightarrow> typed_field \<Rightarrow> 'r masker_snapshot option \<Rightarrow> typed_field" where
  "maskFieldFast eng reg field snap =
     (case snap of
        None \<Rightarrow> field
      | Some sn \<Rightarrow>
          (let field = (if tf_Value field \<noteq> GNil \<and> fv_Kind (tf_Val field) \<noteq> KindUnknown
                        then field\<lparr>tf_Val := zero_value\<rparr> else field);
               key = mask_key field
           in case registry_mask reg key of
                Some m \<Rightarrow> setMaskedString field m (GString m)
              | None \<Rightarrow>
                  (case fieldRules sn key of
                     Some m \<Rightarrow> setMaskedString field m (GString m)
                   | None \<Rightarrow>
                       if regexRules sn = [] then field
                       else case maskable_text field of
                              None \<Rightarrow> field
                            | Some s \<Rightarrow>
                                (let (masked, boxed) = maskStringResult eng s snap in
                                 if masked \<noteq> s
                                 then setMaskedString field masked (GString (case boxed of Some b \<Rightarrow> b | None \<Rightarrow> masked))
                                 else field))))"

definition maskFields ::
  "'r regex_engine \<Rightarrow> sensitive_registry option \<Rightarrow> typed_field list \<Rightarrow> 'r masker_snapshot option \<Rightarrow> typed_field list" where
  "maskFields eng reg fs snap = map (\<lambda>f. maskFieldFast eng reg f snap) fs"

definition mask_prefix ::
  "'r regex_engine \<Rightarrow> sensitive_registry option \<Rightarrow> typed_field list \<Rightarrow> int \<Rightarrow> 'r masker_snapshot option \<Rightarrow> typed_field list" where
  "mask_prefix eng reg fs count snap =
     (let n = nat (min (max count 0) (int (length fs))) in maskFields eng reg (take n fs) snap @ drop n fs)"

definition Apply :: "'r regex_engine \<Rightarrow> 'r pii_masker \<Rightarrow> field_dictionary full_entry option \<Rightarrow> field_dictionary full_entry option" where
  "Apply eng pm e =
     (case (e, pm_activeState pm) of
        (Some entry, Some sn) \<Rightarrow>
          if fieldRules sn = Map.empty \<and> regexRules sn = [] \<and> pm_registry pm = None then e
          else
            (let snap = Some sn; reg = pm_registry pm;
                 entry = entry\<lparr>le_StaticFields := mask_prefix eng reg (le_StaticFields entry) (le_StaticFieldCount entry) snap\<rparr>;
                 entry = entry\<lparr>le_Fields := maskFields eng reg (le_Fields entry) snap\<rparr>;
                 entry = entry\<lparr>le_StaticContext := mask_prefix eng reg (le_StaticContext entry) (le_StaticContextCount entry) snap\<rparr>;
                 entry = entry\<lparr>le_Context := maskFields eng reg (le_Context entry) snap\<rparr>;
                 entry = entry\<lparr>le_IndexedStore := map_option (TransformValues (\<lambda>key v.
                   fv_String (tf_Val (maskFieldFast eng reg
                     \<lparr>tf_Key = key, tf_KeyDesc = None, tf_Val = StringValue v, tf_Value = GNil\<rparr> snap)))) (le_IndexedStore entry)\<rparr>
             in Some (entry\<lparr>le_Message := maskString eng (le_Message entry) snap\<rparr>))
      | _ \<Rightarrow> e)"


section \<open>Configuration\<close>

datatype mask_error = BadRegex string | UnsupportedType string

definition validateRule :: "'r regex_engine \<Rightarrow> string \<Rightarrow> string \<Rightarrow> mask_error option" where
  "validateRule eng pattern kind =
     (if kind = ''field'' then None
      else if kind = ''regex'' then (if re_compile eng pattern = None then Some (BadRegex pattern) else None)
      else Some (UnsupportedType kind))"

fun build_snapshot ::
  "'r regex_engine \<Rightarrow> 'r masker_snapshot \<Rightarrow> stored_rule list \<Rightarrow> mask_error + 'r masker_snapshot" where
  "build_snapshot eng snap [] = Inr snap"
| "build_snapshot eng snap (rule # rules) =
     (if mr_Type rule = ''field''
      then build_snapshot eng (snap\<lparr>fieldRules := (fieldRules snap)(mr_Pattern rule \<mapsto> mr_Replace rule)\<rparr>) rules
      else if mr_Type rule = ''regex''
      then (case newRegexRule eng (mr_Pattern rule) (mr_Replace rule) of
              None \<Rightarrow> Inl (BadRegex (mr_Pattern rule))
            | Some compiled \<Rightarrow> build_snapshot eng (snap\<lparr>regexRules := regexRules snap @ [compiled]\<rparr>) rules)
      else Inl (UnsupportedType (mr_Type rule)))"

definition publishRules ::
  "'r regex_engine \<Rightarrow> 'r pii_masker \<Rightarrow> stored_rule list \<Rightarrow> mask_error option \<times> 'r pii_masker" where
  "publishRules eng pm rules =
     (case build_snapshot eng \<lparr>fieldRules = Map.empty, regexRules = []\<rparr> rules of
        Inl err \<Rightarrow> (Some err, pm)
      | Inr snap \<Rightarrow> (None, pm\<lparr>pm_storedRules := rules, pm_activeState := Some snap\<rparr>))"

definition updateSnapshot :: "'r regex_engine \<Rightarrow> 'r pii_masker \<Rightarrow> mask_error option \<times> 'r pii_masker" where
  "updateSnapshot eng pm = publishRules eng pm (pm_storedRules pm)"

definition AddRule ::
  "'r regex_engine \<Rightarrow> 'r pii_masker \<Rightarrow> string \<Rightarrow> string \<Rightarrow> string \<Rightarrow> mask_error option \<times> 'r pii_masker" where
  "AddRule eng pm pattern replace ruleType =
     (case validateRule eng pattern ruleType of
        Some err \<Rightarrow> (Some err, pm)
      | None \<Rightarrow> publishRules eng pm (pm_storedRules pm @
          [\<lparr>mr_Type = ruleType, mr_Pattern = pattern, mr_Replace = replace, mr_owner = None\<rparr>]))"

definition RemoveRule :: "'r regex_engine \<Rightarrow> 'r pii_masker \<Rightarrow> string \<Rightarrow> mask_error option \<times> 'r pii_masker" where
  "RemoveRule eng pm pattern =
     (case publishRules eng pm (filter (\<lambda>rule. mr_Pattern rule \<noteq> pattern) (pm_storedRules pm)) of
        (Some err, pm) \<Rightarrow> (Some err, pm)
      | (None, pm) \<Rightarrow> (None, pm\<lparr>pm_patternNames := (\<lambda>name. if pm_patternNames pm name = Some pattern then None
                                                        else pm_patternNames pm name)\<rparr>))"

definition AddPattern ::
  "'r regex_engine \<Rightarrow> 'r pii_masker \<Rightarrow> string \<Rightarrow> string \<Rightarrow> string \<Rightarrow> mask_error option \<times> 'r pii_masker" where
  "AddPattern eng pm name patternStr msk =
     (case validateRule eng patternStr ''regex'' of
        Some err \<Rightarrow> (Some err, pm)
      | None \<Rightarrow>
          (let newRule = \<lparr>mr_Type = ''regex'', mr_Pattern = patternStr, mr_Replace = msk, mr_owner = Some name\<rparr>;
               newRules = newRule # filter (\<lambda>rule. mr_owner rule \<noteq> Some name) (pm_storedRules pm)
           in case publishRules eng pm newRules of
                (Some err, pm) \<Rightarrow> (Some err, pm)
              | (None, pm) \<Rightarrow> (None, pm\<lparr>pm_patternNames := (pm_patternNames pm)(name \<mapsto> patternStr)\<rparr>)))"

definition RemovePattern :: "'r regex_engine \<Rightarrow> 'r pii_masker \<Rightarrow> string \<Rightarrow> 'r pii_masker" where
  "RemovePattern eng pm name =
     (if pm_patternNames pm name \<noteq> None
      then case publishRules eng pm (filter (\<lambda>rule. mr_owner rule \<noteq> Some name) (pm_storedRules pm)) of
             (None, pm) \<Rightarrow> pm\<lparr>pm_patternNames := (pm_patternNames pm)(name := None)\<rparr>
           | (Some _, pm) \<Rightarrow> pm
      else pm)"

text \<open>\<open>Clone\<close> copies the configuration and shares the immutable snapshot and the registry.\<close>

definition Clone :: "'r pii_masker \<Rightarrow> 'r pii_masker" where
  "Clone pm = \<lparr>pm_activeState = pm_activeState pm, pm_storedRules = pm_storedRules pm,
     pm_patternNames = pm_patternNames pm, pm_registry = pm_registry pm\<rparr>"

definition NewPIIMaskerWithRegistry ::
  "'r regex_engine \<Rightarrow> stored_rule list \<Rightarrow> sensitive_registry option \<Rightarrow> 'r pii_masker option" where
  "NewPIIMaskerWithRegistry eng defaultRules r =
     (case updateSnapshot eng \<lparr>pm_activeState = None, pm_storedRules = defaultRules,
             pm_patternNames = Map.empty, pm_registry = r\<rparr> of
        (None, pm) \<Rightarrow> Some pm | (Some _, _) \<Rightarrow> None)"

section \<open>The empty-match test is sound\<close>

text \<open>
  The texts a pattern can consume, over runes; assertions consume nothing and may always hold, a
  literal may be case-folded, so the relation contains every real match.
\<close>

inductive rx_consumes :: "rx \<Rightarrow> nat list \<Rightarrow> bool" where
  cEmpty: "rx_consumes RxEmptyMatch []"
| cAssertion: "rx_consumes RxAssertion []"
| cLiteral: "length w = length l \<Longrightarrow> rx_consumes (RxLiteral l) w"
| cClass: "\<exists>(lo, hi) \<in> set cs. lo \<le> c \<and> c \<le> hi \<Longrightarrow> rx_consumes (RxCharClass cs) [c]"
| cAnyNotNL: "c \<noteq> 10 \<Longrightarrow> rx_consumes RxAnyCharNotNL [c]"
| cAny: "rx_consumes RxAnyChar [c]"
| cCapture: "rx_consumes r w \<Longrightarrow> rx_consumes (RxCapture r) w"
| cStarNil: "rx_consumes (RxStar r) []"
| cStarStep: "rx_consumes r u \<Longrightarrow> rx_consumes (RxStar r) v \<Longrightarrow> rx_consumes (RxStar r) (u @ v)"
| cPlus: "rx_consumes r u \<Longrightarrow> rx_consumes (RxStar r) v \<Longrightarrow> rx_consumes (RxPlus r) (u @ v)"
| cQuestNil: "rx_consumes (RxQuest r) []"
| cQuest: "rx_consumes r w \<Longrightarrow> rx_consumes (RxQuest r) w"
| cRepeatNil: "rx_consumes (RxRepeat 0 mx r) []"
| cRepeatStep: "rx_consumes r u \<Longrightarrow> rx_consumes (RxRepeat (mn - 1) (map_option (\<lambda>k. k - 1) mx) r) v \<Longrightarrow>
     mx \<noteq> Some 0 \<Longrightarrow> rx_consumes (RxRepeat mn mx r) (u @ v)"
| cConcatNil: "rx_consumes (RxConcat []) []"
| cConcat: "rx_consumes r u \<Longrightarrow> rx_consumes (RxConcat rs) v \<Longrightarrow> rx_consumes (RxConcat (r # rs)) (u @ v)"
| cAlternate: "r \<in> set rs \<Longrightarrow> rx_consumes r w \<Longrightarrow> rx_consumes (RxAlternate rs) w"

inductive_cases consumes_literalE: "rx_consumes (RxLiteral l) w"
inductive_simps consumes_class: "rx_consumes (RxCharClass cs) w"

lemma rx_consumes_empty: "rx_consumes r w \<Longrightarrow> w = [] \<Longrightarrow> mayMatchEmpty r"
  by (induction rule: rx_consumes.induct) (auto simp: list_ex_iff)

section \<open>Merging overlapping matches\<close>










definition kept :: "(char \<times> nat option) list \<Rightarrow> nat list" where
  "kept t = map (\<lambda>x. the (snd x)) (filter (\<lambda>x. snd x \<noteq> None) t)"

lemma kept_simps [simp]:
  "kept (a @ b) = kept a @ kept b" "kept (map (\<lambda>i. (s ! i, Some i)) is) = is" "kept (map (\<lambda>c. (c, None)) r) = []"
  by (simp_all add: kept_def comp_def filter_map)






section \<open>The engine's documented behaviour\<close>






section \<open>Configuration invariant\<close>

definition named_ok :: "stored_rule list \<Rightarrow> (string \<rightharpoonup> string) \<Rightarrow> bool" where
  "named_ok rules names \<longleftrightarrow>
     (\<forall>n p. names n = Some p \<longleftrightarrow> (\<exists>r \<in> set rules. mr_owner r = Some n \<and> mr_Pattern r = p))"

definition pm_ok :: "'r regex_engine \<Rightarrow> 'r pii_masker \<Rightarrow> bool" where
  "pm_ok eng pm \<longleftrightarrow> (\<exists>sn. pm_activeState pm = Some sn
       \<and> build_snapshot eng \<lparr>fieldRules = Map.empty, regexRules = []\<rparr> (pm_storedRules pm) = Inr sn)
     \<and> named_ok (pm_storedRules pm) (pm_patternNames pm)"

datatype mask_op = MAddRule string string string | MRemoveRule string | MAddPattern string string string | MRemovePattern string

fun mask_step :: "'r regex_engine \<Rightarrow> 'r pii_masker \<Rightarrow> mask_op \<Rightarrow> mask_error option \<times> 'r pii_masker" where
  "mask_step eng pm (MAddRule p r t) = AddRule eng pm p r t"
| "mask_step eng pm (MRemoveRule p) = RemoveRule eng pm p"
| "mask_step eng pm (MAddPattern n p m) = AddPattern eng pm n p m"
| "mask_step eng pm (MRemovePattern n) = (None, RemovePattern eng pm n)"

lemmas mask_config_defs = AddRule_def RemoveRule_def AddPattern_def RemovePattern_def Let_def

lemma publishRules_cases:
  obtains (err) e where "publishRules eng pm rules = (Some e, pm)"
  | (ok) sn where "publishRules eng pm rules = (None, pm\<lparr>pm_storedRules := rules, pm_activeState := Some sn\<rparr>)"
      "build_snapshot eng \<lparr>fieldRules = Map.empty, regexRules = []\<rparr> rules = Inr sn"
  by (cases "build_snapshot eng \<lparr>fieldRules = Map.empty, regexRules = []\<rparr> rules") (auto simp: publishRules_def)

lemma publishRules_named:
  assumes "pm_ok eng pm" and "named_ok rules names"
  shows "case publishRules eng pm rules of (Some e, pm') \<Rightarrow> pm' = pm
    | (None, pm') \<Rightarrow> pm_ok eng (pm'\<lparr>pm_patternNames := names\<rparr>) \<and> pm_patternNames pm' = pm_patternNames pm
        \<and> (names = pm_patternNames pm \<longrightarrow> pm_ok eng pm')"
  by (rule publishRules_cases [of eng pm rules]) (use assms in \<open>auto simp: pm_ok_def\<close>)

lemma mask_step_ok: "pm_ok eng pm \<Longrightarrow> pm_ok eng (snd (mask_step eng pm op))"
  and mask_step_error: "fst (mask_step eng pm op) = Some e \<Longrightarrow> snd (mask_step eng pm op) = pm"
proof -
  let ?rs = "pm_storedRules pm" and ?ns = "pm_patternNames pm"
  show "fst (mask_step eng pm op) = Some e \<Longrightarrow> snd (mask_step eng pm op) = pm"
    by (cases op) (auto simp: mask_config_defs publishRules_def split: option.splits sum.splits if_splits)
  assume ok: "pm_ok eng pm"
  then have n: "named_ok ?rs ?ns" by (simp add: pm_ok_def)
  show "pm_ok eng (snd (mask_step eng pm op))"
  proof (cases op)
    case (MAddRule p r t)
    have "named_ok (?rs @ [\<lparr>mr_Type = t, mr_Pattern = p, mr_Replace = r, mr_owner = None\<rparr>]) ?ns"
      using n by (auto simp: named_ok_def)
    from publishRules_named [OF ok this] MAddRule ok show ?thesis
      by (auto simp: mask_config_defs split: option.splits prod.splits)
  next
    case (MRemoveRule p)
    have "named_ok (filter (\<lambda>rule. mr_Pattern rule \<noteq> p) ?rs) (\<lambda>name. if ?ns name = Some p then None else ?ns name)"
      unfolding named_ok_def
    proof (intro allI)
      fix a q
      show "((if ?ns a = Some p then None else ?ns a) = Some q) =
        (\<exists>r \<in> set (filter (\<lambda>rule. mr_Pattern rule \<noteq> p) ?rs). mr_owner r = Some a \<and> mr_Pattern r = q)"
        using n [unfolded named_ok_def, rule_format, of a q] n [unfolded named_ok_def, rule_format, of a p] by auto
    qed
    from publishRules_named [OF ok this] MRemoveRule ok show ?thesis
      by (auto simp: mask_config_defs split: option.splits prod.splits cong: if_cong)
  next
    case (MAddPattern a p m)
    have "named_ok (\<lparr>mr_Type = ''regex'', mr_Pattern = p, mr_Replace = m, mr_owner = Some a\<rparr>
        # filter (\<lambda>rule. mr_owner rule \<noteq> Some a) ?rs) (?ns(a \<mapsto> p))"
      using n by (auto simp: named_ok_def)
    from publishRules_named [OF ok this] MAddPattern ok show ?thesis
      by (auto simp: mask_config_defs split: option.splits prod.splits)
  next
    case (MRemovePattern a)
    have "named_ok (filter (\<lambda>rule. mr_owner rule \<noteq> Some a) ?rs) (?ns(a := None))"
      using n by (auto simp: named_ok_def)
    from publishRules_named [OF ok this] MRemovePattern ok show ?thesis
      by (auto simp: mask_config_defs split: option.splits prod.splits)
  qed
qed

lemma mask_run_ok: "pm_ok eng pm \<Longrightarrow> pm_ok eng (foldl (\<lambda>pm op. snd (mask_step eng pm op)) pm ops)"
  by (rule foldl_invariant [where P = "pm_ok eng"]) (auto intro: mask_step_ok)

lemma pm_ok_New:
  assumes "NewPIIMaskerWithRegistry eng rules r = Some pm" and "\<forall>x \<in> set rules. mr_owner x = None"
  shows "pm_ok eng pm"
proof -
  let ?pm = "\<lparr>pm_activeState = None, pm_storedRules = rules, pm_patternNames = Map.empty, pm_registry = r\<rparr>"
  show ?thesis
    by (rule publishRules_cases [of eng ?pm rules])
      (use assms in \<open>auto simp: NewPIIMaskerWithRegistry_def updateSnapshot_def pm_ok_def named_ok_def\<close>)
qed

section \<open>What a masked field shows\<close>

definition same_key :: "typed_field \<Rightarrow> typed_field \<Rightarrow> bool" where
  "same_key f g \<longleftrightarrow> tf_Key f = tf_Key g \<and> tf_KeyDesc f = tf_KeyDesc g"

lemma maskFieldFast_rule:
  assumes "fieldRules sn (mask_key f) = Some m"
  shows "maskFieldFast eng None f (Some sn) = f\<lparr>tf_Val := StringValue m, tf_Value := GString m\<rparr>"
  using assms by (auto simp: maskFieldFast_def registry_mask_def setMaskedString_def mask_key_def Let_def)

lemma maskFieldFast_registry:
  assumes "registry_mask reg (mask_key f) = Some m"
  shows "maskFieldFast eng reg f (Some sn) = f\<lparr>tf_Val := StringValue m, tf_Value := GString m\<rparr>"
proof -
  have "mask_key (if c then f\<lparr>tf_Val := v\<rparr> else f) = mask_key f" for c v by (simp add: mask_key_def)
  with assms show ?thesis by (simp add: maskFieldFast_def setMaskedString_def Let_def)
qed

definition hidden_eq :: "'r masker_snapshot \<Rightarrow> typed_field \<Rightarrow> typed_field \<Rightarrow> bool" where
  "hidden_eq sn f g \<longleftrightarrow> f = g \<or> (same_key f g \<and> fieldRules sn (mask_key f) \<noteq> None)"

lemma hidden_eq_masked:
  assumes "hidden_eq sn f g"
  shows "maskFieldFast eng None f (Some sn) = maskFieldFast eng None g (Some sn)"
proof (cases "f = g")
  case False
  with assms obtain m where m: "same_key f g" "fieldRules sn (mask_key f) = Some m" by (auto simp: hidden_eq_def)
  then have "mask_key g = mask_key f" by (simp add: same_key_def mask_key_def)
  with m maskFieldFast_rule [of sn f m eng] maskFieldFast_rule [of sn g m eng] show ?thesis
    by (simp add: same_key_def)
qed simp

lemma hidden_eq_maskFields:
  "list_all2 (hidden_eq sn) fs gs \<Longrightarrow> maskFields eng None fs (Some sn) = maskFields eng None gs (Some sn)"
  by (induction rule: list_all2_induct) (auto simp: maskFields_def dest: hidden_eq_masked)


section \<open>Properties\<close>


text \<open>An engine for literal prefixes, to instantiate the hypotheses.\<close>

definition prefix_engine :: "string regex_engine" where
  "prefix_engine = \<lparr>re_compile = Some, re_parse = (\<lambda>_. None), re_string = (\<lambda>_. []),
     re_find = (\<lambda>r s. if prefix r s then r else []), re_match = (\<lambda>r s. prefix r s),
     re_find_all = (\<lambda>r s. if prefix r s then [(0, length r)] else []), re_last_rune = length\<rparr>"



definition visible :: "field_dictionary full_entry \<Rightarrow> log_entry" where
  "visible e = log_entry.truncate e"

lemma mask_prefix_take:
  "take (nat (min c (int (length (mask_prefix eng reg fs c sn))))) (mask_prefix eng reg fs c sn)
     = maskFields eng reg (take (nat (min c (int (length fs)))) fs) sn"
proof -
  have "nat (min (max c 0) (int (length fs))) = nat (min c (int (length fs)))" by simp
  then show ?thesis by (auto simp: mask_prefix_def maskFields_def Let_def min_def)
qed

lemma Apply_visible:
  assumes "pm_activeState pm = Some sn" and "\<not> (fieldRules sn = Map.empty \<and> regexRules sn = [] \<and> pm_registry pm = None)"
  shows "\<exists>a. Apply eng pm (Some e) = Some a
    \<and> emitted_fields (visible a) = maskFields eng (pm_registry pm) (emitted_fields (visible e)) (Some sn)
    \<and> entryUnixNanos (visible a) = entryUnixNanos (visible e) \<and> le_Level (visible a) = le_Level (visible e)
    \<and> le_Message (visible a) = maskString eng (le_Message (visible e)) (Some sn)
    \<and> le_File (visible a) = le_File (visible e) \<and> le_Line (visible a) = le_Line (visible e)"
proof -
  obtain a where a: "Apply eng pm (Some e) = Some a"
      "le_StaticFields a = mask_prefix eng (pm_registry pm) (le_StaticFields e) (le_StaticFieldCount e) (Some sn)"
      "le_StaticFieldCount a = le_StaticFieldCount e" "le_Fields a = maskFields eng (pm_registry pm) (le_Fields e) (Some sn)"
      "le_TimestampUnix a = le_TimestampUnix e" "le_Timestamp a = le_Timestamp e" "le_Level a = le_Level e"
      "le_Message a = maskString eng (le_Message e) (Some sn)" "le_File a = le_File e" "le_Line a = le_Line e"
    unfolding Apply_def by (simp only: assms(1) prod.case option.case if_not_P [OF assms(2)] Let_def) simp
  then show ?thesis
    using mask_prefix_take [of "le_StaticFieldCount e" eng "pm_registry pm" "le_StaticFields e" "Some sn"]
    by (simp add: visible_def log_entry.truncate_def emitted_fields_def entryUnixNanos_def maskFields_def)
qed

text \<open>
  C17: a field named by a field rule is hidden from the rendered line: two entries that differ only in
  the values of such fields render to the same JSON line once the masker has been applied, whatever
  storage form (typed value, legacy value, error, any) the values were in.
\<close>

theorem field_rule_hides_value:
  assumes "pm_activeState pm = Some sn" and "pm_registry pm = None"
    and "list_all2 (hidden_eq sn) (emitted_fields (visible e)) (emitted_fields (visible e'))"
    and "entryUnixNanos (visible e) = entryUnixNanos (visible e')" and "le_Level e = le_Level e'"
    and "le_Message e = le_Message e'" and "le_File e = le_File e'" and "le_Line e = le_Line e'"
  shows "map_option (\<lambda>x. Format tz p hc (Some (visible x)) dst) (Apply eng pm (Some e))
     = map_option (\<lambda>x. Format tz p hc (Some (visible x)) dst) (Apply eng pm (Some e'))"
proof (cases "fieldRules sn = Map.empty \<and> regexRules sn = []")
  case True
  then have "hidden_eq sn = (=)" by (auto simp: hidden_eq_def fun_eq_iff)
  then have "emitted_fields (visible e) = emitted_fields (visible e')" using assms(3) by (simp add: list.rel_eq)
  with True assms have "Format tz p hc (Some (visible e)) dst = Format tz p hc (Some (visible e')) dst"
    by (intro Format_cong) (simp_all add: visible_def log_entry.truncate_def)
  with True assms(1,2) show ?thesis by (simp add: Apply_def)
next
  case False
  with assms(2) have f: "\<not> (fieldRules sn = Map.empty \<and> regexRules sn = [] \<and> pm_registry pm = None)" by simp
  from Apply_visible [OF assms(1) f, of eng e] obtain a where a: "Apply eng pm (Some e) = Some a"
    "emitted_fields (visible a) = maskFields eng None (emitted_fields (visible e)) (Some sn)"
    "entryUnixNanos (visible a) = entryUnixNanos (visible e)" "le_Level (visible a) = le_Level (visible e)"
    "le_Message (visible a) = maskString eng (le_Message (visible e)) (Some sn)"
    "le_File (visible a) = le_File (visible e)" "le_Line (visible a) = le_Line (visible e)" by (auto simp: assms(2))
  from Apply_visible [OF assms(1) f, of eng e'] obtain b where b: "Apply eng pm (Some e') = Some b"
    "emitted_fields (visible b) = maskFields eng None (emitted_fields (visible e')) (Some sn)"
    "entryUnixNanos (visible b) = entryUnixNanos (visible e')" "le_Level (visible b) = le_Level (visible e')"
    "le_Message (visible b) = maskString eng (le_Message (visible e')) (Some sn)"
    "le_File (visible b) = le_File (visible e')" "le_Line (visible b) = le_Line (visible e')" by (auto simp: assms(2))
  have "Format tz p hc (Some (visible a)) dst = Format tz p hc (Some (visible b)) dst"
    using assms(4-8) hidden_eq_maskFields [OF assms(3), of eng]
    by (intro Format_cong) (simp_all add: a b, simp_all add: visible_def log_entry.truncate_def)
  with a(1) b(1) show ?thesis by simp
qed

definition login_entry :: "string \<Rightarrow> field_dictionary full_entry" where
  "login_entry pw = empty_entry\<lparr>le_TimestampUnix := 1, le_Level := 2, le_Message := ''login'',
     le_Fields := [\<lparr>tf_Key = ''password'', tf_KeyDesc = None, tf_Val = StringValue pw, tf_Value = GNil\<rparr>]\<rparr>"

definition password_masker :: "string pii_masker" where
  "password_masker = \<lparr>pm_activeState = Some \<lparr>fieldRules = [''password'' \<mapsto> ''***PASSWORD***''], regexRules = []\<rparr>,
     pm_storedRules = [], pm_patternNames = Map.empty, pm_registry = None\<rparr>"

theorem field_rule_hides_value_witness:
  "map_option (\<lambda>x. Format (\<lambda>_. 0) PrecisionSecond empty_cache (Some (visible x)) []) (Apply prefix_engine password_masker (Some (login_entry ''hunter2'')))
     = map_option (\<lambda>x. Format (\<lambda>_. 0) PrecisionSecond empty_cache (Some (visible x)) []) (Apply prefix_engine password_masker (Some (login_entry ''letmein'')))"
  by (rule field_rule_hides_value [where sn = "\<lparr>fieldRules = [''password'' \<mapsto> ''***PASSWORD***''], regexRules = []\<rparr>"])
    (simp_all add: password_masker_def login_entry_def empty_entry_def visible_def log_entry.truncate_def emitted_fields_def
      entryUnixNanos_def hidden_eq_def same_key_def mask_key_def)

text \<open>
  C26: the rule configuration is consistent and atomic: after any sequence of additions and removals
  the published snapshot is exactly the compilation of the stored rules, the name table lists exactly
  the named rules with their patterns, and an operation that fails changes nothing.
\<close>

theorem masker_configuration_consistent:
  assumes "pm_ok eng pm"
  shows "pm_ok eng (foldl (\<lambda>pm op. snd (mask_step eng pm op)) pm ops)
     \<and> (fst (mask_step eng pm op) = Some err \<longrightarrow> snd (mask_step eng pm op) = pm)"
  using mask_run_ok [OF assms] mask_step_error by blast

theorem masker_configuration_consistent_witness:
  "\<exists>pm. NewPIIMaskerWithRegistry prefix_engine [\<lparr>mr_Type = ''field'', mr_Pattern = ''pwd'', mr_Replace = ''***'', mr_owner = None\<rparr>] None = Some pm
     \<and> pm_ok prefix_engine (foldl (\<lambda>pm op. snd (mask_step prefix_engine pm op)) pm [MAddPattern ''a'' ''b'' ''c'', MRemovePattern ''a''])"
proof -
  let ?rules = "[\<lparr>mr_Type = ''field'', mr_Pattern = ''pwd'', mr_Replace = ''***'', mr_owner = None\<rparr>]"
  obtain pm where pm: "NewPIIMaskerWithRegistry prefix_engine ?rules None = Some pm"
    by (simp add: NewPIIMaskerWithRegistry_def updateSnapshot_def publishRules_def)
  then have "pm_ok prefix_engine pm" by (rule pm_ok_New) simp
  note w = masker_configuration_consistent [OF this, of "[MAddPattern ''a'' ''b'' ''c'', MRemovePattern ''a'']"]
  show ?thesis by (intro exI conjI) (rule pm, rule w [THEN conjunct1])
qed

text \<open>
  The test for patterns that may match the empty text is sound: a pattern it declares safe never
  consumes the empty text, so the single-match shortcut, which takes an empty find for no match, is
  only used for rules where that is right.
\<close>

theorem mayMatchEmpty_sound: "rx_consumes r [] \<Longrightarrow> mayMatchEmpty r"
  by (rule rx_consumes_empty) simp_all

theorem mayMatchEmpty_sound_witness:
  "mayMatchEmpty (RxConcat [RxStar RxAnyChar, RxAssertion])"
proof (rule mayMatchEmpty_sound)
  have "rx_consumes (RxConcat [RxStar RxAnyChar, RxAssertion]) ([] @ ([] @ []))"
    by (intro rx_consumes.intros)
  then show "rx_consumes (RxConcat [RxStar RxAnyChar, RxAssertion]) []" by simp
qed

lemma GetMaskInterface_range:
  "snd (GetMaskInterface r k) = None \<or> (\<exists>x. snd (GetMaskInterface r k) = Some x \<and> x = sr_defaultMask r)"
proof -
  have "sr_defaultMask (fst (IsSensitive r k)) = sr_defaultMask r"
    by (simp add: IsSensitive_def hit_def miss_def Let_def split: option.split)
  then show ?thesis by (cases "IsSensitive r k") (simp add: GetMaskInterface_def)
qed

lemma registry_mask_total:
  "sr_defaultUnknownMask r = Some u \<Longrightarrow> \<exists>m. m \<in> {sr_defaultMask r, u} \<and> registry_mask (Some r) k = Some m"
  using GetMaskInterface_range [of r k]
  by (auto simp: registry_mask_def GetDefaultUnknownMaskInterface_def)

lemma unknown_mask_New: "sr_defaultUnknownMask NewSensitiveFieldRegistry = Some ''[SENSITIVE]''"
proof -
  have "sr_defaultUnknownMask (initializeCommonSensitiveFields r) = sr_defaultUnknownMask r" for r
    unfolding initializeCommonSensitiveFields_def
    by (rule foldl_invariant [where P = "\<lambda>x. sr_defaultUnknownMask x = sr_defaultUnknownMask r"]) simp_all
  then show ?thesis by (simp add: NewSensitiveFieldRegistry_def)
qed

text \<open>
  Attaching a sensitive-field registry masks every field of every entry, not only the sensitive
  ones: the registry always supplies a mask for unknown names, so local field rules and regex rules
  never get to a field again.
\<close>

theorem registry_masks_every_field:
  "\<exists>m. m \<in> {sr_defaultMask NewSensitiveFieldRegistry, ''[SENSITIVE]''}
     \<and> maskFieldFast eng (Some NewSensitiveFieldRegistry) f (Some sn) = f\<lparr>tf_Val := StringValue m, tf_Value := GString m\<rparr>"
proof -
  from registry_mask_total [OF unknown_mask_New, of "mask_key f"] obtain m where
    m: "m \<in> {sr_defaultMask NewSensitiveFieldRegistry, ''[SENSITIVE]''}"
    and r: "registry_mask (Some NewSensitiveFieldRegistry) (mask_key f) = Some m" by (elim exE conjE)
  show ?thesis by (rule exI [of _ m], rule conjI, rule m, rule maskFieldFast_registry, rule r)
qed

end
