(* ===== verification/Ring.thy ===== *)
theory Ring
  imports Halo_Prelude
begin

text \<open>
  The bounded queue of \<^verbatim>\<open>adapters/outputs/asyncring/ring.go\<close>: a slot array with sequence numbers,
  positions as 64-bit words that wrap around. An operation that would spin without another goroutine
  making progress is \<open>None\<close>. The callbacks that fill and read a slot in place are the stored and the
  returned value. The theory also holds the interface every bounded queue promises its clients, the
  locale \<open>bounded_queue\<close>, and its interpretation by the ring.
\<close>

section \<open>The ring\<close>

record 'a ring =
  r_mask :: u64
  r_tail :: u64
  r_head :: u64
  r_seq :: "u64 list"
  r_data :: "'a list"

text \<open>\<open>bits.Len(uint(n))\<close> is the number of binary digits.\<close>

fun bits_Len :: "nat \<Rightarrow> nat" where
  "bits_Len n = (if n = 0 then 0 else Suc (bits_Len (n div 2)))"

declare bits_Len.simps [simp del]

definition roundUpPow2 :: "int \<Rightarrow> int" where
  "roundUpPow2 n = (if n < 2 then 2 else if n AND (n - 1) = 0 then n else 2 ^ bits_Len (nat n))"

definition newRing :: "'a \<Rightarrow> int \<Rightarrow> 'a ring" where
  "newRing zero capacity =
     (let n = roundUpPow2 capacity
      in \<lparr>r_mask = word_of_int (n - 1), r_tail = 0, r_head = 0,
          r_seq = map word_of_nat [0..<nat n], r_data = replicate (nat n) zero\<rparr>)"

definition Cap :: "'a ring \<Rightarrow> nat" where
  "Cap r = length (r_seq r)"

definition r_Len :: "'a ring \<Rightarrow> nat" where
  "r_Len r = (let t = r_tail r; h = r_head r in
     if t \<le> h then 0 else let n = unat (t - h) in if n > length (r_seq r) then length (r_seq r) else n)"

definition enqueue :: "'a \<Rightarrow> 'a ring \<Rightarrow> ('a ring \<times> bool) option" where
  "enqueue x r =
     (let pos = r_tail r; i = unat (pos AND r_mask r);
          sq = r_seq r ! i; diff = sint (sq - pos) in
      if diff = 0 then Some (r\<lparr>r_tail := pos + 1, r_data := (r_data r)[i := x], r_seq := (r_seq r)[i := pos + 1]\<rparr>, True)
      else if diff < 0 then Some (r, False)
      else None)"

definition dequeue :: "'a ring \<Rightarrow> ('a ring \<times> 'a option) option" where
  "dequeue r =
     (let pos = r_head r; i = unat (pos AND r_mask r);
          sq = r_seq r ! i; diff = sint (sq - (pos + 1)) in
      if diff = 0 then Some (r\<lparr>r_head := pos + 1, r_seq := (r_seq r)[i := pos + r_mask r + 1]\<rparr>, Some (r_data r ! i))
      else if diff < 0 then Some (r, None)
      else None)"

section \<open>The capacity\<close>

lemma bits_Len_bounds: "0 < n \<Longrightarrow> 2 ^ (bits_Len n - 1) \<le> n \<and> n < 2 ^ bits_Len n \<and> 0 < bits_Len n"
proof (induction n rule: bits_Len.induct)
  case (1 n)
  show ?case
  proof (cases "n div 2 = 0")
    case True
    with 1 have "n = 1" by auto
    then show ?thesis by (simp add: bits_Len.simps [of "Suc 0"] bits_Len.simps [of 0])
  next
    case False
    with 1 have IH: "2 ^ (bits_Len (n div 2) - 1) \<le> n div 2" "n div 2 < 2 ^ bits_Len (n div 2)" "0 < bits_Len (n div 2)"
      by auto
    then obtain k where k: "bits_Len (n div 2) = Suc k" by (cases "bits_Len (n div 2)") auto
    obtain P where P: "(2 :: nat) ^ k = P" by blast
    have "P \<le> n div 2" "n div 2 < 2 * P" using IH(1,2) by (simp_all add: k P)
    then have "2 * P \<le> n" "n < 4 * P" by auto
    with 1(2) k P show ?thesis by (simp add: bits_Len.simps [of n])
  qed
qed

lemma and_pred_zero:
  fixes n :: nat
  assumes "0 < n" and "n AND (n - 1) = 0"
  shows "\<exists>k. n = 2 ^ k"
  using assms
proof (induction n rule: less_induct)
  case (less n)
  show ?case
  proof (cases "even n")
    case True
    then obtain m where m: "n = 2 * m" by auto
    then have "0 < m" using less.prems by auto
    have "n - 1 = 1 + 2 * (m - 1)" using \<open>0 < m\<close> m by simp
    then have "n AND (n - 1) = 2 * (m AND (m - 1))"
      by (simp only: m and_nat_rec [of "2 * m" "1 + 2 * (m - 1)"]) simp
    with less.prems have "m AND (m - 1) = 0" by simp
    with less.IH [of m] \<open>0 < m\<close> m obtain k where "m = 2 ^ k" by auto
    with m show ?thesis by (metis power_Suc)
  next
    case False
    then obtain m where m: "n = 2 * m + 1" by (metis oddE)
    have "n AND (n - 1) = 2 * (m AND m)"
      unfolding m by (subst and_rec) simp
    with less.prems m have "n = 1" by simp
    then show ?thesis by (metis power_0)
  qed
qed

lemma pow2_and_pred: "(2 ^ j :: nat) AND (2 ^ j - 1) = 0"
proof -
  have "(2 ^ j :: nat) AND (2 ^ j - 1) = take_bit j (2 ^ j)"
    by (simp add: take_bit_eq_mask mask_eq_exp_minus_1)
  then show ?thesis by simp
qed

lemma roundUpPow2_spec:
  assumes "n \<le> 2 ^ 62"
  shows "\<exists>k. 1 \<le> k \<and> k \<le> 62 \<and> roundUpPow2 n = 2 ^ k" and "n \<le> roundUpPow2 n"
    and "\<And>k. 1 \<le> k \<Longrightarrow> n \<le> 2 ^ k \<Longrightarrow> roundUpPow2 n \<le> 2 ^ k"
proof -
  have "(\<exists>k. 1 \<le> k \<and> k \<le> 62 \<and> roundUpPow2 n = 2 ^ k) \<and> n \<le> roundUpPow2 n
    \<and> (\<forall>k. 1 \<le> k \<longrightarrow> n \<le> 2 ^ k \<longrightarrow> roundUpPow2 n \<le> 2 ^ k)"
  proof (cases "n < 2")
    case True
    then show ?thesis by (auto simp: roundUpPow2_def intro!: exI [of _ 1] self_le_power)
  next
    case False
    then obtain m where m: "n = int m" "2 \<le> m" by (metis int_nat_eq linorder_not_less nat_le_iff nat_numeral of_nat_less_0_iff zero_le_numeral order_trans)
    have conv: "n AND (n - 1) = int (m AND (m - 1))" using m by (simp add: of_nat_and_eq of_nat_diff)
    have mb: "m \<le> 2 ^ 62" using assms m(1) by (simp add: nat_le_iff flip: of_nat_le_iff)
    show ?thesis
    proof (cases "m AND (m - 1) = 0")
      case True
      then obtain k where k: "m = 2 ^ k" using and_pred_zero [of m] m(2) by auto
      have "k \<le> 62" using mb power_le_imp_le_exp [of 2 k 62] unfolding k by simp
      moreover have "1 \<le> k" using m(2) k by (cases k) auto
      ultimately show ?thesis using True False conv m k by (auto simp: roundUpPow2_def)
    next
      case no: False
      let ?L = "bits_Len m"
      note L = bits_Len_bounds [of m]
      have Lb: "2 ^ (?L - 1) \<le> m" "m < 2 ^ ?L" using L m(2) by simp_all
      have "m \<noteq> 2 ^ (?L - 1)" using no pow2_and_pred by metis
      with Lb have lt: "2 ^ (?L - 1) < m" by simp
      have r: "roundUpPow2 n = 2 ^ ?L" using False no conv m by (simp add: roundUpPow2_def)
      have min: "?L \<le> k" if "m \<le> 2 ^ k" for k
      proof -
        from lt that have "(2 :: nat) ^ (?L - 1) < 2 ^ k" by (rule less_le_trans)
        then have "?L - 1 < k" by (simp add: power_less_imp_less_exp)
        then show ?thesis by simp
      qed
      have "1 \<le> ?L" using L m(2) by simp
      moreover have "n \<le> 2 ^ ?L" using Lb(2) m(1) by (simp flip: of_nat_less_iff add: less_imp_le)
      moreover have "2 ^ ?L \<le> (2 :: int) ^ k" if "n \<le> 2 ^ k" for k
      proof -
        have "m \<le> 2 ^ k" using that m(1) by (simp flip: of_nat_le_iff)
        with min show ?thesis by (simp add: power_increasing)
      qed
      ultimately show ?thesis using r min [OF mb] by auto
    qed
  qed
  then show "\<exists>k. 1 \<le> k \<and> k \<le> 62 \<and> roundUpPow2 n = 2 ^ k" and "n \<le> roundUpPow2 n"
    and "\<And>k. 1 \<le> k \<Longrightarrow> n \<le> 2 ^ k \<Longrightarrow> roundUpPow2 n \<le> 2 ^ k" by blast+
qed

section \<open>The invariant\<close>

text \<open>The slot a position falls into, and the number of occupied positions.\<close>

definition used :: "'a ring \<Rightarrow> nat" where
  "used r = unat (r_tail r - r_head r)"

definition slot_of :: "nat \<Rightarrow> u64 \<Rightarrow> nat" where
  "slot_of n p = unat p mod n"

text \<open>
  The \<open>j\<close>-th position from the head on is published when \<open>j\<close> is below the number of occupied
  positions, and free for its lap otherwise.
\<close>

definition ring_ok :: "'a ring \<Rightarrow> bool" where
  "ring_ok r \<longleftrightarrow>
     (let n = length (r_seq r) in
      (\<exists>k. 1 \<le> k \<and> k \<le> 62 \<and> n = 2 ^ k) \<and> r_mask r = word_of_nat (n - 1) \<and> length (r_data r) = n
      \<and> used r \<le> n
      \<and> (\<forall>j < n. r_seq r ! slot_of n (r_head r + word_of_nat j) =
           (if j < used r then r_head r + word_of_nat j + 1 else r_head r + word_of_nat j)))"

definition ring_abs :: "'a ring \<Rightarrow> 'a list" where
  "ring_abs r = map (\<lambda>j. r_data r ! slot_of (length (r_seq r)) (r_head r + word_of_nat j)) [0..<used r]"

lemma slot_mask:
  assumes "n = 2 ^ k" and "k \<le> 62"
  shows "unat (p AND word_of_nat (n - 1)) = slot_of n (p :: u64)"
proof -
  have "word_of_nat (n - 1) = (mask k :: u64)"
    by (simp add: assms(1) mask_eq_exp_minus_1 of_nat_diff)
  then have "p AND word_of_nat (n - 1) = take_bit k p" by (simp add: take_bit_eq_mask)
  then have "unat (p AND word_of_nat (n - 1)) = take_bit k (unat p)" by (simp only: unsigned_take_bit_eq)
  then show ?thesis by (simp only: take_bit_eq_mod [of k "unat p"] slot_of_def assms(1))
qed

lemma slot_add:
  assumes "n = 2 ^ k" and "k \<le> 62"
  shows "slot_of n (p + word_of_nat j :: u64) = (unat p + j) mod n"
proof -
  have d: "n dvd 2 ^ 64" unfolding assms(1) using assms(2) by (intro le_imp_power_dvd) simp
  have "unat (p + word_of_nat j) = (unat p + j) mod 2 ^ 64"
    by (simp add: unat_word_ariths unsigned_of_nat take_bit_eq_mod mod_simps)
  with d show ?thesis by (simp add: slot_of_def mod_mod_cancel)
qed

lemma mod_add_inj:
  fixes a i j n :: nat
  assumes "(a + i) mod n = (a + j) mod n" and "i < n" "j < n"
  shows "i = j"
  using assms
proof (induction i j rule: linorder_wlog)
  case (le i j)
  then have "n dvd (a + j) - (a + i)" using mod_eq_dvd_iff_nat [of "a + i" "a + j" n] by simp
  then have "n dvd j - i" by simp
  with le show ?case by (metis diff_is_0_eq dual_order.antisym less_imp_diff_less nat_dvd_not_less neq0_conv)
qed simp

lemma ring_sizes:
  assumes "ring_ok r"
  obtains n k where "n = length (r_seq r)" "n = 2 ^ k" "1 \<le> k" "k \<le> 62" "2 \<le> n" "n \<le> 2 ^ 62"
    "r_mask r = word_of_nat (n - 1)" "length (r_data r) = n" "used r \<le> n"
    "\<And>p. unat (p AND r_mask r) = slot_of n p"
proof -
  from assms obtain k where k: "1 \<le> k" "k \<le> 62" "length (r_seq r) = 2 ^ k" by (auto simp: ring_ok_def Let_def)
  have "2 \<le> (2 :: nat) ^ k" using k(1) by (metis power_increasing one_le_numeral power_one_right)
  moreover have "(2 :: nat) ^ k \<le> 2 ^ 62" using k(2) by (intro power_increasing) simp_all
  moreover have m: "r_mask r = word_of_nat (2 ^ k - 1)" using assms k(3) by (simp add: ring_ok_def Let_def)
  moreover have "unat (p AND r_mask r) = slot_of (2 ^ k) p" for p
    unfolding m by (rule slot_mask [OF refl k(2)])
  ultimately show ?thesis using that [of "length (r_seq r)" k] assms k by (simp add: ring_ok_def Let_def)
qed

lemma slot_inj:
  assumes "n = 2 ^ k" "k \<le> 62" "i < n" "j < n" "slot_of n (p + word_of_nat i) = slot_of n (p + word_of_nat j :: u64)"
  shows "i = j"
  using assms mod_add_inj [of "unat p" i n j] by (simp add: slot_add)

lemma slot_less: "0 < n \<Longrightarrow> slot_of n p < n"
  by (simp add: slot_of_def)

lemma used_word: "r_tail r = r_head r + word_of_nat (used r)"
  by (simp add: used_def)

lemma sint_of_nat_small: "0 < m \<Longrightarrow> m \<le> 2 ^ 62 \<Longrightarrow> sint (- word_of_nat m :: u64) < 0"
proof -
  assume m: "0 < m" "m \<le> 2 ^ 62"
  have "(- word_of_nat m :: u64) = word_of_int (- int m)" by simp
  moreover have "sint (word_of_int (- int m) :: u64) = - int m"
    using m by (simp only: signed_of_int) (simp add: signed_take_bit_int_eq_self)
  ultimately show ?thesis using m by simp
qed

section \<open>Refinement\<close>

lemma enqueue_full:
  assumes "ring_ok r" and "used r = length (r_seq r)"
  shows "enqueue x r = Some (r, False)"
proof -
  obtain n k where s: "n = length (r_seq r)" "n = 2 ^ k" "1 \<le> k" "k \<le> 62" "2 \<le> n" "n \<le> 2 ^ 62"
    "r_mask r = word_of_nat (n - 1)" "length (r_data r) = n" "used r \<le> n"
    "\<And>p. unat (p AND r_mask r) = slot_of n p" using assms(1) by (rule ring_sizes) blast
  have "slot_of n (r_tail r) = slot_of n (r_head r + word_of_nat 0)"
    using slot_add [OF s(2,4), of "r_head r" n] slot_add [OF s(2,4), of "r_head r" 0] assms(2) s(1) used_word [of r] by simp
  then have q: "r_seq r ! slot_of n (r_tail r) = r_head r + 1"
    using assms s(5) by (auto simp: ring_ok_def Let_def s(1) [symmetric] dest!: spec [of _ 0])
  have "r_head r + 1 - r_tail r = - word_of_nat (n - 1)"
    using assms(2) s(1,5) used_word [of r] by (simp add: of_nat_diff)
  moreover have "sint (- word_of_nat (n - 1) :: u64) < 0" using s(5,6) by (intro sint_of_nat_small) auto
  ultimately show ?thesis by (simp add: enqueue_def Let_def s(10) q)
qed

lemma enqueue_free:
  assumes ok: "ring_ok r" and free: "used r < length (r_seq r)"
  shows "\<exists>r'. enqueue x r = Some (r', True) \<and> ring_ok r' \<and> ring_abs r' = ring_abs r @ [x] \<and> length (r_seq r') = length (r_seq r)"
proof -
  obtain n k where s: "n = length (r_seq r)" "n = 2 ^ k" "1 \<le> k" "k \<le> 62" "2 \<le> n" "n \<le> 2 ^ 62"
    "r_mask r = word_of_nat (n - 1)" "length (r_data r) = n" "used r \<le> n"
    "\<And>p. unat (p AND r_mask r) = slot_of n p" using ok by (rule ring_sizes) blast
  let ?h = "r_head r" and ?u = "used r"
  let ?i = "slot_of n (?h + word_of_nat ?u)"
  have sq: "r_seq r ! slot_of n (?h + word_of_nat j) = (if j < ?u then ?h + word_of_nat j + 1 else ?h + word_of_nat j)"
    if "j < n" for j using ok that by (simp add: ring_ok_def Let_def s(1))
  have i: "?i < n" using s(5) by (intro slot_less) simp
  let ?r = "r\<lparr>r_tail := r_tail r + 1, r_data := (r_data r)[?i := x], r_seq := (r_seq r)[?i := r_tail r + 1]\<rparr>"
  have e: "enqueue x r = Some (?r, True)"
    using sq [of ?u] free s(1) by (simp add: enqueue_def Let_def s(10) used_word)
  have u': "used ?r = Suc ?u"
  proof -
    have "used ?r = unat (r_tail r + 1 - ?h)" by (simp add: used_def)
    also have "\<dots> = unat (word_of_nat ?u + 1 :: u64)" by (subst used_word) simp
    also have "\<dots> = unat (word_of_nat (Suc ?u) :: u64)" by (simp add: add.commute)
    also have "\<dots> = Suc ?u" using free s(1,6) by (simp only: unsigned_of_nat) (simp add: take_bit_nat_eq_self)
    finally show ?thesis .
  qed
  have other: "slot_of n (?h + word_of_nat j) \<noteq> ?i" if "j < n" "j \<noteq> ?u" for j
    using slot_inj [OF s(2,4) that(1), of ?u ?h] free s(1) that(2) by auto
  have "r_seq ?r ! slot_of n (?h + word_of_nat j) = (if j < Suc ?u then ?h + word_of_nat j + 1 else ?h + word_of_nat j)"
    if "j < n" for j
    using sq [OF that] other [OF that] i s(1) by (cases "j = ?u") (auto simp: used_word)
  then have ok': "ring_ok ?r" using s u' free by (auto simp: ring_ok_def Let_def)
  have "ring_abs ?r = ring_abs r @ [x]"
  proof -
    have "r_data ?r ! slot_of n (?h + word_of_nat j) = r_data r ! slot_of n (?h + word_of_nat j)" if "j < ?u" for j
      using other [of j] that free s(1) by simp
    moreover have "r_data ?r ! ?i = x" using i s(8) by simp
    ultimately show ?thesis by (simp add: ring_abs_def u' s(1) [symmetric])
  qed
  with e ok' show ?thesis by auto
qed


lemma dequeue_empty:
  assumes "ring_ok r" and "used r = 0"
  shows "dequeue r = Some (r, None)"
proof -
  obtain n k where s: "n = length (r_seq r)" "n = 2 ^ k" "1 \<le> k" "k \<le> 62" "2 \<le> n" "n \<le> 2 ^ 62"
    "r_mask r = word_of_nat (n - 1)" "length (r_data r) = n" "used r \<le> n"
    "\<And>p. unat (p AND r_mask r) = slot_of n p" using assms(1) by (rule ring_sizes) blast
  have "r_seq r ! slot_of n (r_head r) = r_head r"
    using assms s(5) by (auto simp: ring_ok_def Let_def s(1) [symmetric] dest!: spec [of _ 0])
  then show ?thesis by (simp add: dequeue_def Let_def s(10))
qed

lemma dequeue_some:
  assumes ok: "ring_ok r" and busy: "0 < used r"
  shows "\<exists>r' x. dequeue r = Some (r', Some x) \<and> ring_ok r' \<and> ring_abs r = x # ring_abs r' \<and> length (r_seq r') = length (r_seq r)"
proof -
  obtain n k where s: "n = length (r_seq r)" "n = 2 ^ k" "1 \<le> k" "k \<le> 62" "2 \<le> n" "n \<le> 2 ^ 62"
    "r_mask r = word_of_nat (n - 1)" "length (r_data r) = n" "used r \<le> n"
    "\<And>p. unat (p AND r_mask r) = slot_of n p" using ok by (rule ring_sizes) blast
  let ?h = "r_head r" and ?u = "used r"
  let ?i = "slot_of n ?h"
  have sq: "r_seq r ! slot_of n (?h + word_of_nat j) = (if j < ?u then ?h + word_of_nat j + 1 else ?h + word_of_nat j)"
    if "j < n" for j using ok that by (simp add: ring_ok_def Let_def s(1))
  have i: "?i < n" using s(5) by (intro slot_less) simp
  let ?r = "r\<lparr>r_head := ?h + 1, r_seq := (r_seq r)[?i := ?h + r_mask r + 1]\<rparr>"
  have e: "dequeue r = Some (?r, Some (r_data r ! ?i))"
    using sq [of 0] busy s(5) by (simp add: dequeue_def Let_def s(10))
  have u': "used ?r = ?u - 1"
  proof -
    have "used ?r = unat (r_tail r - (?h + 1))" by (simp add: used_def)
    also have "\<dots> = unat (word_of_nat (?u - 1) :: u64)" using busy by (subst used_word) (simp add: of_nat_diff)
    also have "\<dots> = ?u - 1"
      using s(6,9) by (simp only: unsigned_of_nat) (simp add: take_bit_nat_eq_self)
    finally show ?thesis .
  qed
  have shift: "?h + 1 + word_of_nat j = ?h + word_of_nat (Suc j)" for j by (simp add: add.assoc)
  have wrap: "slot_of n (?h + word_of_nat n) = ?i" using slot_add [OF s(2,4), of ?h n] by (simp add: slot_of_def)
  have other: "slot_of n (?h + word_of_nat j) \<noteq> ?i" if "0 < j" "j < n" for j
    using slot_inj [OF s(2,4) that(2), of 0 ?h] that by auto
  have mn: "?h + r_mask r + 1 = ?h + word_of_nat n" using s(5) by (simp add: s(7) of_nat_diff)
  have "r_seq ?r ! slot_of n (?h + 1 + word_of_nat j) =
      (if j < ?u - 1 then ?h + 1 + word_of_nat j + 1 else ?h + 1 + word_of_nat j)" if "j < n" for j
  proof (cases "Suc j = n")
    case True
    then have "slot_of n (?h + 1 + word_of_nat j) = ?i" unfolding shift using wrap by simp
    moreover have "\<not> j < ?u - 1" using True s(9) by simp
    ultimately show ?thesis using i s(1) mn True by (simp add: shift)
  next
    case False
    with that have j: "Suc j < n" by simp
    with other [of "Suc j"] sq [OF j] show ?thesis unfolding shift by (auto simp: add.assoc)
  qed
  then have ok': "ring_ok ?r" using s u' by (auto simp: ring_ok_def Let_def)
  have "ring_abs r = r_data r ! ?i # map (\<lambda>j. r_data r ! slot_of n (?h + word_of_nat j)) [1..<?u]"
    using busy by (simp add: ring_abs_def s(1) [symmetric] upt_conv_Cons)
  also have "map (\<lambda>j. r_data r ! slot_of n (?h + word_of_nat j)) [1..<?u] = ring_abs ?r"
    unfolding ring_abs_def u' using busy
    by (intro nth_equalityI) (simp_all add: s(1) [symmetric] add.assoc)
  finally show ?thesis using e ok' by auto
qed

lemma used_abs: "length (ring_abs r) = used r"
  by (simp add: ring_abs_def)

lemma ring_ok_new:
  assumes "n \<le> 2 ^ 62"
  shows "ring_ok (newRing z n)" and "ring_abs (newRing z n) = []" and "int (length (r_seq (newRing z n))) = roundUpPow2 n"
proof -
  from roundUpPow2_spec(1) [OF assms] obtain k where k: "1 \<le> k" "k \<le> 62" "roundUpPow2 n = 2 ^ k" by blast
  have u: "used (newRing z n) = 0" by (simp add: used_def newRing_def Let_def)
  have nat: "nat (2 ^ k) = 2 ^ k" by (simp add: nat_power_eq)
  have "unat (word_of_nat j :: u64) = j" if "j < 2 ^ k" for j
  proof -
    have "(2 :: nat) ^ k \<le> 2 ^ 62" using k(2) by (intro power_increasing) simp_all
    with that show ?thesis by (simp add: unsigned_of_nat take_bit_nat_eq_self)
  qed
  then have sl: "slot_of (2 ^ k) (word_of_nat j) = j" if "j < 2 ^ k" for j
    using that by (simp add: slot_of_def)
  have m: "(word_of_int (2 ^ k - 1) :: u64) = word_of_nat (2 ^ k - 1)" by (simp add: of_nat_diff)
  have nr: "newRing z n = \<lparr>r_mask = word_of_nat (2 ^ k - 1), r_tail = 0, r_head = 0,
      r_seq = map word_of_nat [0..<2 ^ k], r_data = replicate (2 ^ k) z\<rparr>"
    by (simp only: newRing_def Let_def k(3) nat m)
  show "ring_ok (newRing z n)"
    using k(1,2) u sl unfolding nr by (auto simp: ring_ok_def Let_def)
  show "ring_abs (newRing z n) = []" using u by (simp add: ring_abs_def)
  show "int (length (r_seq (newRing z n))) = roundUpPow2 n" using k by (simp add: newRing_def Let_def)
qed

section \<open>The interface of a bounded queue\<close>

text \<open>
  What a producer and the consumer rely on: an insertion succeeds exactly below the capacity and goes
  to the back, a removal takes the front, neither spins, and both keep the invariant and the capacity.
\<close>

locale bounded_queue =
  fixes enq :: "'x \<Rightarrow> 'q \<Rightarrow> ('q \<times> bool) option"
    and deq :: "'q \<Rightarrow> ('q \<times> 'x option) option"
    and ok :: "'q \<Rightarrow> bool" and contents :: "'q \<Rightarrow> 'x list" and capacity :: "'q \<Rightarrow> nat"
  assumes bounded: "ok q \<Longrightarrow> length (contents q) \<le> capacity q"
    and enq_full: "ok q \<Longrightarrow> length (contents q) = capacity q \<Longrightarrow> enq x q = Some (q, False)"
    and enq_free: "ok q \<Longrightarrow> length (contents q) < capacity q \<Longrightarrow>
      \<exists>q'. enq x q = Some (q', True) \<and> ok q' \<and> contents q' = contents q @ [x] \<and> capacity q' = capacity q"
    and deq_empty: "ok q \<Longrightarrow> contents q = [] \<Longrightarrow> deq q = Some (q, None)"
    and deq_front: "ok q \<Longrightarrow> contents q = x # xs \<Longrightarrow>
      \<exists>q'. deq q = Some (q', Some x) \<and> ok q' \<and> contents q' = xs \<and> capacity q' = capacity q"

interpretation vq: bounded_queue enqueue dequeue ring_ok ring_abs Cap
proof
  fix r :: "'a ring" and x :: 'a and xs :: "'a list"
  assume ok: "ring_ok r"
  show "length (ring_abs r) \<le> Cap r" using ok by (simp add: used_abs Cap_def ring_ok_def Let_def)
  show "enqueue x r = Some (r, False)" if "length (ring_abs r) = Cap r"
    using that enqueue_full [OF ok] by (simp add: used_abs Cap_def)
  show "\<exists>q'. enqueue x r = Some (q', True) \<and> ring_ok q' \<and> ring_abs q' = ring_abs r @ [x] \<and> Cap q' = Cap r"
    if "length (ring_abs r) < Cap r" using that enqueue_free [OF ok, of x] by (auto simp: used_abs Cap_def)
  show "dequeue r = Some (r, None)" if "ring_abs r = []"
    using that dequeue_empty [OF ok] used_abs [of r] by simp
  show "\<exists>q'. dequeue r = Some (q', Some x) \<and> ring_ok q' \<and> ring_abs q' = xs \<and> Cap q' = Cap r"
    if "ring_abs r = x # xs"
  proof -
    have "0 < used r" using that used_abs [of r] by simp
    from dequeue_some [OF ok this] that show ?thesis by (auto simp: Cap_def)
  qed
qed


section \<open>Clients of a bounded queue\<close>

datatype 'x queue_op = Put 'x | Take
datatype 'x queue_event = Accepted bool | Taken "'x option"

fun queue_run ::
  "('x \<Rightarrow> 'q \<Rightarrow> ('q \<times> bool) option) \<Rightarrow> ('q \<Rightarrow> ('q \<times> 'x option) option) \<Rightarrow> 'q \<Rightarrow> 'x queue_op list \<Rightarrow> ('q \<times> 'x queue_event list) option" where
  "queue_run enq deq q [] = Some (q, [])"
| "queue_run enq deq q (Put x # ops) =
     (case enq x q of
        None \<Rightarrow> None
      | Some (q', b) \<Rightarrow> map_option (\<lambda>(q'', evs). (q'', Accepted b # evs)) (queue_run enq deq q' ops))"
| "queue_run enq deq q (Take # ops) =
     (case deq q of
        None \<Rightarrow> None
      | Some (q', y) \<Rightarrow> map_option (\<lambda>(q'', evs). (q'', Taken y # evs)) (queue_run enq deq q' ops))"

text \<open>The same operations on a list with a capacity: the specification.\<close>

fun list_run :: "nat \<Rightarrow> 'x list \<Rightarrow> 'x queue_op list \<Rightarrow> 'x list \<times> 'x queue_event list" where
  "list_run cap xs [] = (xs, [])"
| "list_run cap xs (Put x # ops) =
     (if length xs < cap then let (ys, evs) = list_run cap (xs @ [x]) ops in (ys, Accepted True # evs)
      else let (ys, evs) = list_run cap xs ops in (ys, Accepted False # evs))"
| "list_run cap [] (Take # ops) = (let (ys, evs) = list_run cap [] ops in (ys, Taken None # evs))"
| "list_run cap (x # xs) (Take # ops) = (let (ys, evs) = list_run cap xs ops in (ys, Taken (Some x) # evs))"

text \<open>The consumer's loops, over any dequeue: up to \<open>k\<close> values, and everything in batches of \<open>k\<close>.\<close>

fun drain_loop ::
  "('q \<Rightarrow> ('q \<times> 'x option) option) \<Rightarrow> ('x \<Rightarrow> 's \<Rightarrow> 's) \<Rightarrow> nat \<Rightarrow> 'q \<times> 's \<Rightarrow> (('q \<times> 's) \<times> nat) option" where
  "drain_loop deq consume 0 (q, s) = Some ((q, s), 0)"
| "drain_loop deq consume (Suc k) (q, s) =
     (case deq q of
        None \<Rightarrow> None
      | Some (q', None) \<Rightarrow> Some ((q', s), 0)
      | Some (q', Some x) \<Rightarrow> map_option (\<lambda>(qs, n). (qs, Suc n)) (drain_loop deq consume k (q', consume x s)))"

partial_function (option) drain_all ::
  "('q \<Rightarrow> ('q \<times> 'x option) option) \<Rightarrow> ('x \<Rightarrow> 's \<Rightarrow> 's) \<Rightarrow> ('s \<Rightarrow> 's) \<Rightarrow> nat \<Rightarrow> 'q \<times> 's \<Rightarrow> ('q \<times> 's) option" where
  "drain_all deq consume fl k qs =
     Option.bind (drain_loop deq consume k qs)
       (\<lambda>r. case r of ((q, s), n) \<Rightarrow> if n > 0 then drain_all deq consume fl k (q, fl s) else Some (q, fl s))"

function in_batches :: "('x \<Rightarrow> 's \<Rightarrow> 's) \<Rightarrow> ('s \<Rightarrow> 's) \<Rightarrow> nat \<Rightarrow> 'x list \<Rightarrow> 's \<Rightarrow> 's" where
  "in_batches consume fl k xs s =
     (if xs = [] \<or> k = 0 then fl s else in_batches consume fl k (drop k xs) (fl (fold consume (take k xs) s)))"
  by pat_completeness auto

termination in_batches
  by (relation "measure (\<lambda>(_, _, _, xs, _). length xs)") auto

declare in_batches.simps [simp del]

context bounded_queue
begin

lemma queue_run_list:
  "ok q \<Longrightarrow> \<exists>q' evs. queue_run enq deq q ops = Some (q', evs) \<and> ok q' \<and> list_run (capacity q) (contents q) ops = (contents q', evs)"
proof (induction ops arbitrary: q)
  case (Cons op ops)
  show ?case
  proof (cases op)
    case (Put x)
    show ?thesis
    proof (cases "length (contents q) < capacity q")
      case True
      from enq_free [OF Cons.prems True, of x] obtain q1 where q1: "enq x q = Some (q1, True)" "ok q1"
        "contents q1 = contents q @ [x]" "capacity q1 = capacity q" by blast
      from Cons.IH [OF q1(2)] Put True q1 show ?thesis by force
    next
      case False
      with bounded [OF Cons.prems] have "length (contents q) = capacity q" by simp
      from enq_full [OF Cons.prems this, of x] Cons.IH [OF Cons.prems] Put False show ?thesis by force
    qed
  next
    case Take
    show ?thesis
    proof (cases "contents q")
      case Nil
      from deq_empty [OF Cons.prems this] Cons.IH [OF Cons.prems] Take Nil show ?thesis by force
    next
      case (Cons x xs)
      from deq_front [OF Cons.prems Cons] obtain q1 where q1: "deq q = Some (q1, Some x)" "ok q1" "contents q1 = xs"
        "capacity q1 = capacity q" by blast
      from Cons.IH [OF q1(2)] Take Cons q1 show ?thesis by force
    qed
  qed
qed auto

lemma drain_loop_takes:
  "ok q \<Longrightarrow> \<exists>q'. drain_loop deq consume k (q, s) = Some ((q', fold consume (take k (contents q)) s), min k (length (contents q)))
     \<and> ok q' \<and> contents q' = drop k (contents q) \<and> capacity q' = capacity q"
proof (induction k arbitrary: q s)
  case (Suc k)
  show ?case
  proof (cases "contents q")
    case Nil
    from deq_empty [OF Suc.prems this] Suc.prems Nil show ?thesis by simp
  next
    case (Cons x xs)
    from deq_front [OF Suc.prems Cons] obtain q1 where q1: "deq q = Some (q1, Some x)" "ok q1" "contents q1 = xs"
      "capacity q1 = capacity q" by blast
    from Suc.IH [OF q1(2), of "consume x s"] Cons q1 show ?thesis by auto
  qed
qed simp

lemma drain_all_empties:
  assumes "ok q" and "0 < k"
  shows "\<exists>q'. drain_all deq consume fl k (q, s) = Some (q', in_batches consume fl k (contents q) s)
     \<and> ok q' \<and> contents q' = [] \<and> capacity q' = capacity q"
  using assms(1)
proof (induction "length (contents q)" arbitrary: q s rule: less_induct)
  case less
  from drain_loop_takes [OF less.prems, of consume k s] obtain q1 where
    q1: "drain_loop deq consume k (q, s) = Some ((q1, fold consume (take k (contents q)) s), min k (length (contents q)))"
    "ok q1" "contents q1 = drop k (contents q)" "capacity q1 = capacity q" by blast
  show ?case
  proof (cases "contents q")
    case Nil
    with q1 show ?thesis by (simp add: drain_all.simps [of deq] in_batches.simps [of _ _ _ "[]"])
  next
    case (Cons x xs)
    with q1(3) assms(2) have "length (contents q1) < length (contents q)" by simp
    note IH = less.hyps [OF this q1(2), of "fl (fold consume (take k (contents q)) s)"]
    have b: "in_batches consume fl k (contents q) s =
        in_batches consume fl k (drop k (contents q)) (fl (fold consume (take k (contents q)) s))"
      using Cons assms(2) by (subst in_batches.simps) simp
    have "0 < min k (length (contents q))" using Cons assms(2) by simp
    then have d: "drain_all deq consume fl k (q, s) = drain_all deq consume fl k (q1, fl (fold consume (take k (contents q)) s))"
      by (subst drain_all.simps) (simp only: q1(1) Option.bind.simps prod.case if_True)
    show ?thesis unfolding d b using IH q1(3,4) by simp
  qed
qed

end

section \<open>Properties\<close>

text \<open>
  C8: the ring is a bounded first-in first-out queue: started with any requested capacity up to 2^62
  it has room for the smallest power of two (at least two) not below the request, and every sequence of
  enqueues and dequeues gives exactly the answers of a list of that capacity, without ever spinning,
  also when the 64-bit positions wrap around.
\<close>

theorem ring_is_bounded_fifo:
  assumes "n \<le> 2 ^ 62"
  shows "\<exists>r' evs. queue_run enqueue dequeue (newRing z n) ops = Some (r', evs)
     \<and> list_run (nat (roundUpPow2 n)) [] ops = (ring_abs r', evs) \<and> n \<le> roundUpPow2 n"
proof -
  have "Cap (newRing z n) = nat (roundUpPow2 n)" using ring_ok_new(3) [OF assms, of z] by (simp add: Cap_def flip: nat_int)
  with vq.queue_run_list [OF ring_ok_new(1) [OF assms, of z], where ops = ops] ring_ok_new(2) [OF assms, of z] roundUpPow2_spec(2) [OF assms]
  show ?thesis by auto
qed

theorem ring_is_bounded_fifo_witness:
  "\<exists>r' evs. queue_run enqueue dequeue (newRing (0 :: int) 3) [Put 7, Take, Take] = Some (r', evs)
     \<and> evs = [Accepted True, Taken (Some 7), Taken None]"
proof -
  have "roundUpPow2 3 = 4"
  proof -
    have "(3 :: int) AND (3 - 1) = 2" by simp
    moreover have "bits_Len 3 = 2" by (simp add: bits_Len.simps [of 3] bits_Len.simps [of "Suc 0"] bits_Len.simps [of 0])
    ultimately show ?thesis by (simp add: roundUpPow2_def)
  qed
  with ring_is_bounded_fifo [of 3 "0 :: int" "[Put 7, Take, Take]"] show ?thesis by auto
qed

text \<open>The same from a ring whose positions are about to wrap around.\<close>

theorem ring_wraps_around:
  "\<exists>r' evs. queue_run enqueue dequeue
       \<lparr>r_mask = 1, r_tail = - 1, r_head = - 1, r_seq = [0, - 1], r_data = [a, a]\<rparr> [Put x, Put y, Put w, Take, Take, Take] = Some (r', evs)
     \<and> evs = [Accepted True, Accepted True, Accepted False, Taken (Some x), Taken (Some y), Taken None]"
proof -
  let ?r = "\<lparr>r_mask = 1, r_tail = - 1, r_head = - 1, r_seq = [0, - 1], r_data = [a, a]\<rparr>"
  have s: "slot_of 2 (- 1 :: u64) = 1" "slot_of 2 (0 :: u64) = 0" by (simp_all add: slot_of_def unsigned_minus_1_eq_mask mask_eq_exp_minus_1)
  have u: "used ?r = 0" by (simp add: used_def)
  have "ring_ok ?r"
  proof -
    have two: "length (r_seq ?r) = 2" by simp
    have "r_seq ?r ! slot_of 2 (r_head ?r + word_of_nat j) = r_head ?r + word_of_nat j" if "j < 2" for j
      using that s by (cases j) auto
    moreover have "\<exists>k. 1 \<le> k \<and> k \<le> 62 \<and> (2 :: nat) = 2 ^ k" by (intro exI [of _ 1]) simp
    ultimately show ?thesis unfolding ring_ok_def Let_def two u by simp
  qed
  moreover have "ring_abs ?r = []" by (simp add: ring_abs_def u)
  moreover have "Cap ?r = 2" by (simp add: Cap_def)
  ultimately show ?thesis
    using vq.queue_run_list [of ?r "[Put x, Put y, Put w, Take, Take, Take]"] by auto
qed

end
