(* ===== verification/Ring_Adapter.thy ===== *)
theory Ring_Adapter
  imports Ring Json_Line "HOL-Library.Sublist"
begin

text \<open>
  The asynchronous ring sink: \<^verbatim>\<open>adapters/outputs/asyncring/payload.go\<close>, \<^verbatim>\<open>options.go\<close>,
  \<^verbatim>\<open>writer.go\<close> and \<^verbatim>\<open>adapter.go\<close>. The first part is the code run by one producer and the writer
  goroutine in turn; the last part is the shutdown protocol with any number of producers, as a step
  relation whose steps are the atomic actions of \<open>enqueue\<close>, \<open>Close\<close> and \<open>finalDrain\<close>.

  The formatter is a function of the record and the buffer; the destination writer reports an error
  for the chunks the argument \<open>werr\<close> names. A payload's inline field buffer and its heap fallback
  hold the same fields; the record's component, which no formatter reads, is left out.
\<close>

section \<open>Payloads\<close>

record entry_payload =
  pl_level :: nat
  pl_tsUnix :: int
  pl_line :: int
  pl_message :: string
  pl_file :: string
  pl_fields :: "typed_field list"

text \<open>A negative static count makes the slice expression panic: \<open>None\<close>.\<close>

definition copyFrom :: "log_entry \<Rightarrow> entry_payload option" where
  "copyFrom e =
     (let n = le_StaticFieldCount e;
          n = (if n > int (length (le_StaticFields e)) then int (length (le_StaticFields e)) else n)
      in if n < 0 then None
         else Some \<lparr>pl_level = le_Level e, pl_tsUnix = le_TimestampUnix e, pl_line = le_Line e,
                    pl_message = le_Message e, pl_file = le_File e,
                    pl_fields = take (nat n) (le_StaticFields e) @ le_Fields e\<rparr>)"

definition into :: "entry_payload \<Rightarrow> log_entry \<Rightarrow> log_entry" where
  "into p e = e\<lparr>le_Level := pl_level p, le_TimestampUnix := pl_tsUnix p, le_Line := pl_line p,
     le_Message := pl_message p, le_File := pl_file p, le_StaticFields := pl_fields p,
     le_StaticFieldCount := int (length (pl_fields p)), le_Fields := []\<rparr>"

section \<open>Options\<close>

datatype on_full = Drop | Block

datatype options_error = ErrNoWriter | ErrNoFormatter

record ring_options =
  op_hasWriter :: bool
  op_Formatter :: "(log_entry \<Rightarrow> bytes \<Rightarrow> bytes) option"
  op_Capacity :: int
  op_OnFull :: on_full
  op_BatchSize :: int
  op_FlushInterval :: int

definition withDefaults :: "ring_options \<Rightarrow> options_error + ring_options" where
  "withDefaults opt =
     (if \<not> op_hasWriter opt then Inl ErrNoWriter
      else if op_Formatter opt = None then Inl ErrNoFormatter
      else let opt = (if op_Capacity opt \<le> 0 then opt\<lparr>op_Capacity := 1024\<rparr> else opt);
               opt = (if op_BatchSize opt \<le> 0 then opt\<lparr>op_BatchSize := 256\<rparr> else opt);
               opt = (if op_FlushInterval opt \<le> 0 then opt\<lparr>op_FlushInterval := 1000000\<rparr> else opt)
           in Inr opt)"

section \<open>The background writer\<close>

record bg_writer =
  bw_batchSize :: nat
  bw_buf :: bytes
  bw_scratch :: log_entry
  bw_out :: "bytes list"   \<comment> \<open>the chunks handed to the destination\<close>
  bw_writeErrors :: nat

definition zero_entry :: log_entry where
  "zero_entry = \<lparr>le_Timestamp = None, le_TimestampUnix = 0, le_Level = 0, le_Message = [], le_File = [],
     le_Line = 0, le_Fields = [], le_StaticFields = [], le_StaticFieldCount = 0\<rparr>"

definition zero_payload :: entry_payload where
  "zero_payload = \<lparr>pl_level = 0, pl_tsUnix = 0, pl_line = 0, pl_message = [], pl_file = [], pl_fields = []\<rparr>"

definition newBGWriter :: "ring_options \<Rightarrow> bg_writer" where
  "newBGWriter opt = \<lparr>bw_batchSize = nat (op_BatchSize opt), bw_buf = [], bw_scratch = zero_entry,
     bw_out = [], bw_writeErrors = 0\<rparr>"

definition serializeOne :: "(log_entry \<Rightarrow> bytes \<Rightarrow> bytes) \<Rightarrow> entry_payload \<Rightarrow> bg_writer \<Rightarrow> bg_writer" where
  "serializeOne fmt p bw =
     (let scratch = into p (bw_scratch bw);
          start = length (bw_buf bw);
          buf = fmt scratch (bw_buf bw);
          buf = (if length buf = start \<or> last buf \<noteq> CHR 0x0A then buf @ [CHR 0x0A] else buf)
      in bw\<lparr>bw_scratch := scratch, bw_buf := buf\<rparr>)"

definition flush :: "(bytes \<Rightarrow> bool) \<Rightarrow> bg_writer \<Rightarrow> bg_writer" where
  "flush werr bw =
     (if bw_buf bw = [] then bw
      else bw\<lparr>bw_out := bw_out bw @ [bw_buf bw],
              bw_writeErrors := (if werr (bw_buf bw) then bw_writeErrors bw + 1 else bw_writeErrors bw),
              bw_buf := []\<rparr>)"

definition drainBatch ::
  "(log_entry \<Rightarrow> bytes \<Rightarrow> bytes) \<Rightarrow> entry_payload ring \<times> bg_writer \<Rightarrow> ((entry_payload ring \<times> bg_writer) \<times> nat) option" where
  "drainBatch fmt rb = drain_loop dequeue (serializeOne fmt) (bw_batchSize (snd rb)) rb"

definition drainAll ::
  "(log_entry \<Rightarrow> bytes \<Rightarrow> bytes) \<Rightarrow> (bytes \<Rightarrow> bool) \<Rightarrow> entry_payload ring \<times> bg_writer \<Rightarrow> (entry_payload ring \<times> bg_writer) option" where
  "drainAll fmt werr rb = drain_all dequeue (serializeOne fmt) (flush werr) (bw_batchSize (snd rb)) rb"

section \<open>The adapter\<close>

record ring_adapter =
  ra_ring :: "entry_payload ring"
  ra_bw :: bg_writer
  ra_onFull :: on_full
  ra_dropped :: nat
  ra_closing :: bool

definition ra_New :: "ring_options \<Rightarrow> options_error + ring_adapter" where
  "ra_New opt =
     (case withDefaults opt of
        Inl err \<Rightarrow> Inl err
      | Inr opts \<Rightarrow> Inr \<lparr>ra_ring = newRing zero_payload (op_Capacity opts), ra_bw = newBGWriter opts,
          ra_onFull = op_OnFull opts, ra_dropped = 0, ra_closing = False\<rparr>)"

text \<open>\<open>None\<close>: the call panics, or waits for the writer to make room.\<close>

definition ra_enqueue :: "ring_adapter \<Rightarrow> log_entry option \<Rightarrow> ring_adapter option" where
  "ra_enqueue a e =
     (case e of
        None \<Rightarrow> Some a
      | Some entry \<Rightarrow>
          if ra_closing a then Some (a\<lparr>ra_dropped := ra_dropped a + 1\<rparr>)
          else Option.bind (copyFrom entry) (\<lambda>p.
            case enqueue p (ra_ring a) of
              None \<Rightarrow> None
            | Some (r, True) \<Rightarrow> Some (a\<lparr>ra_ring := r\<rparr>)
            | Some (r, False) \<Rightarrow>
                if ra_onFull a = Block then None
                else Some (a\<lparr>ra_ring := r, ra_dropped := ra_dropped a + 1\<rparr>)))"

text \<open>The writer goroutine's turns: one batch written out, and a requested flush.\<close>

definition run_batch :: "(log_entry \<Rightarrow> bytes \<Rightarrow> bytes) \<Rightarrow> (bytes \<Rightarrow> bool) \<Rightarrow> ring_adapter \<Rightarrow> ring_adapter option" where
  "run_batch fmt werr a =
     (case drainBatch fmt (ra_ring a, ra_bw a) of
        None \<Rightarrow> None
      | Some ((r, bw), n) \<Rightarrow> Some (if n > 0 then a\<lparr>ra_ring := r, ra_bw := flush werr bw\<rparr> else a\<lparr>ra_ring := r, ra_bw := bw\<rparr>))"

definition ra_Flush :: "(log_entry \<Rightarrow> bytes \<Rightarrow> bytes) \<Rightarrow> (bytes \<Rightarrow> bool) \<Rightarrow> ring_adapter \<Rightarrow> ring_adapter option" where
  "ra_Flush fmt werr a =
     (if ra_closing a then Some a
      else map_option (\<lambda>(r, bw). a\<lparr>ra_ring := r, ra_bw := bw\<rparr>) (drainAll fmt werr (ra_ring a, ra_bw a)))"

definition ra_Close :: "(log_entry \<Rightarrow> bytes \<Rightarrow> bytes) \<Rightarrow> (bytes \<Rightarrow> bool) \<Rightarrow> ring_adapter \<Rightarrow> ring_adapter option" where
  "ra_Close fmt werr a =
     (if ra_closing a then Some a
      else map_option (\<lambda>(r, bw). a\<lparr>ra_closing := True, ra_ring := r, ra_bw := bw\<rparr>)
             (drainAll fmt werr (ra_ring a, ra_bw a)))"

definition Occupancy :: "ring_adapter \<Rightarrow> nat \<times> nat" where
  "Occupancy a = (r_Len (ra_ring a), Cap (ra_ring a))"

section \<open>The record survives the ring\<close>

lemma into_copyFrom:
  assumes "copyFrom e = Some p"
  shows "emitted_fields (into p s) = emitted_fields e" and "le_Level (into p s) = le_Level e"
    and "le_Message (into p s) = le_Message e" and "le_File (into p s) = le_File e" and "le_Line (into p s) = le_Line e"
    and "le_TimestampUnix (into p s) = le_TimestampUnix e" and "le_Timestamp (into p s) = le_Timestamp s"
  using assms by (auto simp: copyFrom_def into_def emitted_fields_def Let_def min_def split: if_splits)

lemma copyFrom_total: "0 \<le> le_StaticFieldCount e \<Longrightarrow> \<exists>p. copyFrom e = Some p"
  by (simp add: copyFrom_def Let_def)

section \<open>What the writer produces\<close>

text \<open>The line of one payload, and the text of a sequence of payloads, for a formatter that only
  appends and does not look at the buffer or at what is left in the scratch record.\<close>

definition appending :: "(log_entry \<Rightarrow> bytes \<Rightarrow> bytes) \<Rightarrow> bool" where
  "appending fmt \<longleftrightarrow> (\<forall>e buf. fmt e buf = buf @ fmt e [])
     \<and> (\<forall>p s s'. le_Timestamp s = None \<longrightarrow> le_Timestamp s' = None \<longrightarrow> fmt (into p s) [] = fmt (into p s') [])"

definition payload_line :: "(log_entry \<Rightarrow> bytes \<Rightarrow> bytes) \<Rightarrow> entry_payload \<Rightarrow> bytes" where
  "payload_line fmt p =
     (let t = fmt (into p zero_entry) [] in if t = [] \<or> last t \<noteq> CHR 0x0A then t @ [CHR 0x0A] else t)"

definition payload_text :: "(log_entry \<Rightarrow> bytes \<Rightarrow> bytes) \<Rightarrow> entry_payload list \<Rightarrow> bytes" where
  "payload_text fmt ps = concat (map (payload_line fmt) ps)"

definition bw_text :: "bg_writer \<Rightarrow> bytes" where
  "bw_text bw = concat (bw_out bw) @ bw_buf bw"

definition bw_ok :: "bg_writer \<Rightarrow> bool" where
  "bw_ok bw \<longleftrightarrow> le_Timestamp (bw_scratch bw) = None \<and> 0 < bw_batchSize bw"

lemma serializeOne_text:
  assumes "appending fmt" and "bw_ok bw"
  shows "bw_text (serializeOne fmt p bw) = bw_text bw @ payload_line fmt p" and "bw_ok (serializeOne fmt p bw)"
    and "bw_batchSize (serializeOne fmt p bw) = bw_batchSize bw"
proof -
  have "fmt (into p (bw_scratch bw)) (bw_buf bw) = bw_buf bw @ fmt (into p (bw_scratch bw)) []"
    using assms(1) unfolding appending_def by blast
  moreover have "fmt (into p (bw_scratch bw)) [] = fmt (into p zero_entry) []"
    using assms unfolding appending_def bw_ok_def by (metis (no_types) log_entry.select_convs(1) zero_entry_def)
  ultimately have "fmt (into p (bw_scratch bw)) (bw_buf bw) = bw_buf bw @ fmt (into p zero_entry) []" by simp
  then show "bw_text (serializeOne fmt p bw) = bw_text bw @ payload_line fmt p"
    by (auto simp: serializeOne_def bw_text_def payload_line_def Let_def)
  show "bw_ok (serializeOne fmt p bw)" using assms(2) by (simp add: serializeOne_def bw_ok_def into_def Let_def)
  show "bw_batchSize (serializeOne fmt p bw) = bw_batchSize bw" by (simp add: serializeOne_def Let_def)
qed

lemma flush_text [simp]:
  "bw_text (flush werr bw) = bw_text bw" "bw_ok (flush werr bw) = bw_ok bw" "bw_batchSize (flush werr bw) = bw_batchSize bw"
  "bw_buf (flush werr bw) = []"
  by (auto simp: flush_def bw_text_def bw_ok_def)

lemma fold_serialize:
  "appending fmt \<Longrightarrow> bw_ok bw \<Longrightarrow>
   bw_text (fold (serializeOne fmt) ps bw) = bw_text bw @ payload_text fmt ps \<and> bw_ok (fold (serializeOne fmt) ps bw)
     \<and> bw_batchSize (fold (serializeOne fmt) ps bw) = bw_batchSize bw"
  by (induction ps arbitrary: bw) (simp_all add: payload_text_def serializeOne_text)

lemma in_batches_text:
  assumes "appending fmt" and "bw_ok bw" and "0 < k"
  shows "bw_text (in_batches (serializeOne fmt) (flush werr) k ps bw) = bw_text bw @ payload_text fmt ps
    \<and> bw_buf (in_batches (serializeOne fmt) (flush werr) k ps bw) = [] \<and> bw_ok (in_batches (serializeOne fmt) (flush werr) k ps bw)"
  using assms(2)
proof (induction "length ps" arbitrary: ps bw rule: less_induct)
  case less
  show ?case
  proof (cases "ps = []")
    case True
    with less.prems show ?thesis by (subst (1 2 3) in_batches.simps) (simp add: payload_text_def)
  next
    case False
    let ?bw = "flush werr (fold (serializeOne fmt) (take k ps) bw)"
    have "length (drop k ps) < length ps" using False assms(3) by simp
    moreover have b: "bw_text ?bw = bw_text bw @ payload_text fmt (take k ps)" "bw_ok ?bw"
      using fold_serialize [OF assms(1) less.prems, of "take k ps"] by simp_all
    ultimately have "bw_text (in_batches (serializeOne fmt) (flush werr) k (drop k ps) ?bw) = bw_text ?bw @ payload_text fmt (drop k ps)
        \<and> bw_buf (in_batches (serializeOne fmt) (flush werr) k (drop k ps) ?bw) = []
        \<and> bw_ok (in_batches (serializeOne fmt) (flush werr) k (drop k ps) ?bw)"
      using less.hyps by blast
    moreover have "payload_text fmt (take k ps) @ payload_text fmt (drop k ps) = payload_text fmt ps"
      unfolding payload_text_def concat_append [symmetric] map_append [symmetric] by simp
    moreover have "in_batches (serializeOne fmt) (flush werr) k ps bw = in_batches (serializeOne fmt) (flush werr) k (drop k ps) ?bw"
      using False assms(3) by (subst in_batches.simps) simp
    ultimately show ?thesis using b(1) by simp
  qed
qed


section \<open>One producer and the writer in turn\<close>

datatype ra_op = RWrite log_entry | RBatch | RFlush

fun ra_step :: "(log_entry \<Rightarrow> bytes \<Rightarrow> bytes) \<Rightarrow> (bytes \<Rightarrow> bool) \<Rightarrow> ring_adapter \<Rightarrow> ra_op \<Rightarrow> ring_adapter option" where
  "ra_step fmt werr a (RWrite e) = ra_enqueue a (Some e)"
| "ra_step fmt werr a RBatch = run_batch fmt werr a"
| "ra_step fmt werr a RFlush = ra_Flush fmt werr a"

fun ra_run :: "(log_entry \<Rightarrow> bytes \<Rightarrow> bytes) \<Rightarrow> (bytes \<Rightarrow> bool) \<Rightarrow> ring_adapter \<Rightarrow> ra_op list \<Rightarrow> ring_adapter option" where
  "ra_run fmt werr a [] = Some a"
| "ra_run fmt werr a (op # ops) = Option.bind (ra_step fmt werr a op) (\<lambda>a'. ra_run fmt werr a' ops)"

fun op_payloads :: "ra_op \<Rightarrow> entry_payload list" where
  "op_payloads (RWrite e) = (case copyFrom e of Some p \<Rightarrow> [p] | None \<Rightarrow> [])"
| "op_payloads _ = []"

fun op_ok :: "ra_op \<Rightarrow> bool" where
  "op_ok (RWrite e) = (0 \<le> le_StaticFieldCount e)"
| "op_ok _ = True"

text \<open>The text written so far, with what is still queued, is the text of the accepted records.\<close>

definition ra_inv :: "(log_entry \<Rightarrow> bytes \<Rightarrow> bytes) \<Rightarrow> ring_adapter \<Rightarrow> entry_payload list \<Rightarrow> bool" where
  "ra_inv fmt a acc \<longleftrightarrow> ring_ok (ra_ring a) \<and> bw_ok (ra_bw a) \<and> bw_buf (ra_bw a) = [] \<and> \<not> ra_closing a \<and> ra_onFull a = Drop
     \<and> bw_text (ra_bw a) @ payload_text fmt (ring_abs (ra_ring a)) = payload_text fmt acc"

lemma payload_text_append: "payload_text fmt (a @ b) = payload_text fmt a @ payload_text fmt b"
  by (simp add: payload_text_def)

lemma drainAll_text:
  assumes "appending fmt" and "ring_ok r" and "bw_ok bw"
  shows "\<exists>r' bw'. drainAll fmt werr (r, bw) = Some (r', bw') \<and> ring_ok r' \<and> ring_abs r' = [] \<and> bw_ok bw'
     \<and> bw_text bw' = bw_text bw @ payload_text fmt (ring_abs r) \<and> bw_buf bw' = []"
proof -
  have k: "0 < bw_batchSize bw" using assms(3) by (simp add: bw_ok_def)
  from vq.drain_all_empties [OF assms(2) k, of "serializeOne fmt" "flush werr" bw]
    in_batches_text [OF assms(1,3) k, of werr "ring_abs r"]
  show ?thesis by (auto simp: drainAll_def)
qed

lemma ra_step_inv:
  assumes fmt: "appending fmt" and inv: "ra_inv fmt a acc" and op: "op_ok op"
  shows "\<exists>a' ps. ra_step fmt werr a op = Some a' \<and> ra_inv fmt a' (acc @ ps) \<and> subseq ps (op_payloads op)
     \<and> length ps + ra_dropped a' = length (op_payloads op) + ra_dropped a"
proof (cases op)
  case (RWrite e)
  with op copyFrom_total obtain p where p: "copyFrom e = Some p" by auto
  have ok: "ring_ok (ra_ring a)" and st: "\<not> ra_closing a" "ra_onFull a = Drop" using inv by (simp_all add: ra_inv_def)
  show ?thesis
  proof (cases "length (ring_abs (ra_ring a)) = Cap (ra_ring a)")
    case True
    from vq.enq_full [OF ok True, of p] have "ra_step fmt werr a op = Some (a\<lparr>ra_dropped := ra_dropped a + 1\<rparr>)"
      using RWrite p st by (simp add: ra_enqueue_def)
    with RWrite p inv show ?thesis
      by (intro exI [of _ "a\<lparr>ra_dropped := ra_dropped a + 1\<rparr>"] exI [of _ "[]"]) (simp add: ra_inv_def)
  next
    case False
    then have "length (ring_abs (ra_ring a)) < Cap (ra_ring a)" using vq.bounded [OF ok] by simp
    from vq.enq_free [OF ok this, of p] obtain r where r: "enqueue p (ra_ring a) = Some (r, True)" "ring_ok r"
      "ring_abs r = ring_abs (ra_ring a) @ [p]" by blast
    have "ra_step fmt werr a op = Some (a\<lparr>ra_ring := r\<rparr>)" using RWrite p st r(1) by (simp add: ra_enqueue_def)
    with RWrite p inv r show ?thesis
      by (intro exI [of _ "a\<lparr>ra_ring := r\<rparr>"] exI [of _ "[p]"]) (simp add: ra_inv_def payload_text_append)
  qed
next
  case RBatch
  let ?k = "bw_batchSize (ra_bw a)"
  have ok: "ring_ok (ra_ring a)" and bw: "bw_ok (ra_bw a)" using inv by (simp_all add: ra_inv_def)
  from vq.drain_loop_takes [OF ok, of "serializeOne fmt" ?k "ra_bw a"] obtain r where
    r: "drainBatch fmt (ra_ring a, ra_bw a) = Some ((r, fold (serializeOne fmt) (take ?k (ring_abs (ra_ring a))) (ra_bw a)),
        min ?k (length (ring_abs (ra_ring a))))" "ring_ok r" "ring_abs r = drop ?k (ring_abs (ra_ring a))"
    by (auto simp: drainBatch_def)
  note f = fold_serialize [OF fmt bw, of "take ?k (ring_abs (ra_ring a))"]
  have t: "payload_text fmt (take ?k (ring_abs (ra_ring a))) @ payload_text fmt (drop ?k (ring_abs (ra_ring a)))
      = payload_text fmt (ring_abs (ra_ring a))"
    by (simp flip: payload_text_append)
  have e: "flush werr (ra_bw a) = ra_bw a" using inv by (simp add: flush_def ra_inv_def)
  have "ring_abs (ra_ring a) = [] \<or> 0 < min ?k (length (ring_abs (ra_ring a)))" using bw by (auto simp: bw_ok_def)
  with r e have "run_batch fmt werr a =
      Some (a\<lparr>ra_ring := r, ra_bw := flush werr (fold (serializeOne fmt) (take ?k (ring_abs (ra_ring a))) (ra_bw a))\<rparr>)"
    by (auto simp: run_batch_def)
  with RBatch inv r f t show ?thesis
    by (intro exI [of _ "a\<lparr>ra_ring := r, ra_bw := flush werr (fold (serializeOne fmt) (take ?k (ring_abs (ra_ring a))) (ra_bw a))\<rparr>"]
        exI [of _ "[]"]) (auto simp: ra_inv_def)
next
  case RFlush
  have ok: "ring_ok (ra_ring a)" and bw: "bw_ok (ra_bw a)" and st: "\<not> ra_closing a" using inv by (simp_all add: ra_inv_def)
  from drainAll_text [OF fmt ok bw, of werr] obtain r w where r: "drainAll fmt werr (ra_ring a, ra_bw a) = Some (r, w)"
    "ring_ok r" "ring_abs r = []" "bw_ok w" "bw_text w = bw_text (ra_bw a) @ payload_text fmt (ring_abs (ra_ring a))"
    "bw_buf w = []" by blast
  with RFlush inv st show ?thesis
    by (intro exI [of _ "a\<lparr>ra_ring := r, ra_bw := w\<rparr>"] exI [of _ "[]"])
      (auto simp: ra_inv_def ra_Flush_def payload_text_def)
qed

lemma ra_run_inv:
  assumes "appending fmt"
  shows "ra_inv fmt a acc \<Longrightarrow> list_all op_ok ops \<Longrightarrow>
    \<exists>a' ps. ra_run fmt werr a ops = Some a' \<and> ra_inv fmt a' (acc @ ps) \<and> subseq ps (concat (map op_payloads ops))
      \<and> length ps + ra_dropped a' = length (concat (map op_payloads ops)) + ra_dropped a"
proof (induction ops arbitrary: a acc)
  case (Cons op ops)
  from ra_step_inv [OF assms Cons.prems(1), of op werr] Cons.prems(2) obtain a1 ps1 where
    s: "ra_step fmt werr a op = Some a1" "ra_inv fmt a1 (acc @ ps1)" "subseq ps1 (op_payloads op)"
      "length ps1 + ra_dropped a1 = length (op_payloads op) + ra_dropped a" by auto
  from Cons.IH [OF s(2)] Cons.prems(2) obtain a2 ps2 where
    t: "ra_run fmt werr a1 ops = Some a2" "ra_inv fmt a2 ((acc @ ps1) @ ps2)" "subseq ps2 (concat (map op_payloads ops))"
      "length ps2 + ra_dropped a2 = length (concat (map op_payloads ops)) + ra_dropped a1" by auto
  have "subseq (ps1 @ ps2) (concat (map op_payloads (op # ops)))" using s(3) t(3) by (simp add: list_emb_append_mono)
  with s t show ?case by (intro exI [of _ a2] exI [of _ "ps1 @ ps2"]) simp
qed simp

lemma ra_New_inv:
  assumes "ra_New opt = Inr a" and "op_OnFull opt = Drop" and "op_Capacity opt \<le> 2 ^ 62"
  shows "ra_inv fmt a []" and "ra_dropped a = 0"
proof -
  have one: "withDefaults opt = Inr opts \<Longrightarrow> op_Capacity opts \<le> 2 ^ 62 \<and> op_OnFull opts = op_OnFull opt \<and> 0 < op_BatchSize opts" for opts
    using assms(3) by (auto simp: withDefaults_def Let_def split: if_splits)
  from assms(1) obtain opts where o: "withDefaults opt = Inr opts" "a = \<lparr>ra_ring = newRing zero_payload (op_Capacity opts),
      ra_bw = newBGWriter opts, ra_onFull = op_OnFull opts, ra_dropped = 0, ra_closing = False\<rparr>"
    by (auto simp: ra_New_def split: sum.splits)
  with one [OF o(1)] ring_ok_new [of "op_Capacity opts" zero_payload] assms(2) show "ra_inv fmt a []" and "ra_dropped a = 0"
    by (simp_all add: ra_inv_def newBGWriter_def bw_ok_def zero_entry_def bw_text_def payload_text_def)
qed


section \<open>The shutdown protocol\<close>

text \<open>
  A producer's program counter: outside \<open>enqueue\<close>; counted in \<open>inflight\<close>; past the closing check;
  about to leave. The writer's: in its main loop; in \<open>finalDrain\<close> before the load of \<open>inflight\<close>;
  draining after a non-zero load; draining after a zero load; returned.
\<close>

datatype 'x producer = Outside | Counted 'x | Checked 'x | Leaving

datatype writer_pc = Running | Checking | Draining | LastDrain | Done

record 'x shutdown =
  sd_queue :: "'x list"
  sd_written :: "'x list"
  sd_accepted :: "'x list"       \<comment> \<open>every record published into the ring, in order\<close>
  sd_capacity :: nat
  sd_onFull :: on_full
  sd_producers :: "'x producer list"
  sd_inflight :: int
  sd_dropped :: nat
  sd_started :: nat              \<comment> \<open>calls of \<open>enqueue\<close>\<close>
  sd_closing :: bool
  sd_stop :: bool
  sd_writer :: writer_pc

inductive shutdown_step :: "'x shutdown \<Rightarrow> 'x shutdown \<Rightarrow> bool" where
  enter: "i < length (sd_producers s) \<Longrightarrow> sd_producers s ! i = Outside \<Longrightarrow>
    shutdown_step s (s\<lparr>sd_producers := (sd_producers s)[i := Counted x], sd_inflight := sd_inflight s + 1,
                       sd_started := sd_started s + 1\<rparr>)"
| check_open: "i < length (sd_producers s) \<Longrightarrow> sd_producers s ! i = Counted x \<Longrightarrow> \<not> sd_closing s \<Longrightarrow>
    shutdown_step s (s\<lparr>sd_producers := (sd_producers s)[i := Checked x]\<rparr>)"
| check_closed: "i < length (sd_producers s) \<Longrightarrow> sd_producers s ! i = Counted x \<Longrightarrow> sd_closing s \<Longrightarrow>
    shutdown_step s (s\<lparr>sd_producers := (sd_producers s)[i := Leaving], sd_dropped := sd_dropped s + 1\<rparr>)"
| publish: "i < length (sd_producers s) \<Longrightarrow> sd_producers s ! i = Checked x \<Longrightarrow> length (sd_queue s) < sd_capacity s \<Longrightarrow>
    shutdown_step s (s\<lparr>sd_producers := (sd_producers s)[i := Leaving], sd_queue := sd_queue s @ [x],
                       sd_accepted := sd_accepted s @ [x]\<rparr>)"
| drop_full: "i < length (sd_producers s) \<Longrightarrow> sd_producers s ! i = Checked x \<Longrightarrow> length (sd_queue s) = sd_capacity s \<Longrightarrow>
    sd_onFull s = Drop \<Longrightarrow>
    shutdown_step s (s\<lparr>sd_producers := (sd_producers s)[i := Leaving], sd_dropped := sd_dropped s + 1\<rparr>)"
| block_closed: "i < length (sd_producers s) \<Longrightarrow> sd_producers s ! i = Checked x \<Longrightarrow> sd_onFull s = Block \<Longrightarrow> sd_closing s \<Longrightarrow>
    shutdown_step s (s\<lparr>sd_producers := (sd_producers s)[i := Leaving], sd_dropped := sd_dropped s + 1\<rparr>)"
| leave: "i < length (sd_producers s) \<Longrightarrow> sd_producers s ! i = Leaving \<Longrightarrow>
    shutdown_step s (s\<lparr>sd_producers := (sd_producers s)[i := Outside], sd_inflight := sd_inflight s - 1\<rparr>)"
| close: "\<not> sd_closing s \<Longrightarrow> shutdown_step s (s\<lparr>sd_closing := True\<rparr>)"
| stop: "sd_closing s \<Longrightarrow> shutdown_step s (s\<lparr>sd_stop := True\<rparr>)"
| consume: "sd_writer s \<in> {Running, Draining, LastDrain} \<Longrightarrow> sd_queue s = x # xs \<Longrightarrow>
    shutdown_step s (s\<lparr>sd_queue := xs, sd_written := sd_written s @ [x]\<rparr>)"
| see_stop: "sd_writer s = Running \<Longrightarrow> sd_stop s \<Longrightarrow> shutdown_step s (s\<lparr>sd_writer := Checking\<rparr>)"
| load_zero: "sd_writer s = Checking \<Longrightarrow> sd_inflight s = 0 \<Longrightarrow> shutdown_step s (s\<lparr>sd_writer := LastDrain\<rparr>)"
| load_nonzero: "sd_writer s = Checking \<Longrightarrow> sd_inflight s \<noteq> 0 \<Longrightarrow> shutdown_step s (s\<lparr>sd_writer := Draining\<rparr>)"
| drained: "sd_writer s = Draining \<Longrightarrow> sd_queue s = [] \<Longrightarrow> shutdown_step s (s\<lparr>sd_writer := Checking\<rparr>)"
| finish: "sd_writer s = LastDrain \<Longrightarrow> sd_queue s = [] \<Longrightarrow> shutdown_step s (s\<lparr>sd_writer := Done\<rparr>)"

definition shutdown_init :: "nat \<Rightarrow> on_full \<Rightarrow> nat \<Rightarrow> 'x shutdown" where
  "shutdown_init producers onFull cap =
     \<lparr>sd_queue = [], sd_written = [], sd_accepted = [], sd_capacity = cap, sd_onFull = onFull,
      sd_producers = replicate producers Outside, sd_inflight = 0, sd_dropped = 0, sd_started = 0,
      sd_closing = False, sd_stop = False, sd_writer = Running\<rparr>"

fun pending :: "'x producer \<Rightarrow> bool" where
  "pending (Counted x) = True"
| "pending (Checked x) = True"
| "pending _ = False"

definition count :: "('x producer \<Rightarrow> bool) \<Rightarrow> 'x shutdown \<Rightarrow> nat" where
  "count P s = length (filter P (sd_producers s))"

definition shutdown_inv :: "'x shutdown \<Rightarrow> bool" where
  "shutdown_inv s \<longleftrightarrow> sd_written s @ sd_queue s = sd_accepted s
     \<and> sd_inflight s = int (count (\<lambda>p. p \<noteq> Outside) s)
     \<and> sd_started s = length (sd_accepted s) + sd_dropped s + count pending s
     \<and> (sd_stop s \<longrightarrow> sd_closing s) \<and> (sd_writer s \<noteq> Running \<longrightarrow> sd_stop s)
     \<and> (sd_writer s \<in> {LastDrain, Done} \<longrightarrow> (\<forall>i < length (sd_producers s). \<forall>x. sd_producers s ! i \<noteq> Checked x))
     \<and> (sd_writer s = Done \<longrightarrow> sd_queue s = [])"

lemma shutdown_inv_init: "shutdown_inv (shutdown_init n f c)"
  by (simp add: shutdown_inv_def shutdown_init_def count_def)

lemma shutdown_inv_step:
  assumes "shutdown_step s s'" and "shutdown_inv s"
  shows "shutdown_inv s'"
  using assms
proof (induction rule: shutdown_step.induct)
  case (load_zero s)
  then have "length (filter (\<lambda>p. p \<noteq> Outside) (sd_producers s)) = 0" by (simp add: shutdown_inv_def count_def)
  from count_zero [OF this] have "\<forall>i < length (sd_producers s). \<forall>x. sd_producers s ! i \<noteq> Checked x" by auto
  with load_zero show ?case by (auto simp: shutdown_inv_def count_def)
next
  case (enter i s x)
  then show ?case
    using count_update [of i "sd_producers s" "\<lambda>p. p \<noteq> Outside" "Counted x"] count_update [of i "sd_producers s" pending "Counted x"]
    by (auto simp: shutdown_inv_def count_def nth_list_update)
next
  case (check_open i s x)
  then show ?case
    using count_update [of i "sd_producers s" "\<lambda>p. p \<noteq> Outside" "Checked x"] count_update [of i "sd_producers s" pending "Checked x"]
    by (auto simp: shutdown_inv_def count_def nth_list_update)
next
  case (check_closed i s x)
  then show ?case
    using count_update [of i "sd_producers s" "\<lambda>p. p \<noteq> Outside" Leaving] count_update [of i "sd_producers s" pending Leaving]
    by (auto simp: shutdown_inv_def count_def nth_list_update)
next
  case (publish i s x)
  then show ?case
    using count_update [of i "sd_producers s" "\<lambda>p. p \<noteq> Outside" Leaving] count_update [of i "sd_producers s" pending Leaving]
    by (auto simp: shutdown_inv_def count_def nth_list_update)
next
  case (drop_full i s x)
  then show ?case
    using count_update [of i "sd_producers s" "\<lambda>p. p \<noteq> Outside" Leaving] count_update [of i "sd_producers s" pending Leaving]
    by (auto simp: shutdown_inv_def count_def nth_list_update)
next
  case (block_closed i s x)
  then show ?case
    using count_update [of i "sd_producers s" "\<lambda>p. p \<noteq> Outside" Leaving] count_update [of i "sd_producers s" pending Leaving]
    by (auto simp: shutdown_inv_def count_def nth_list_update)
next
  case (leave i s)
  then show ?case
    using count_update [of i "sd_producers s" "\<lambda>p. p \<noteq> Outside" Outside] count_update [of i "sd_producers s" pending Outside]
    by (auto simp: shutdown_inv_def count_def nth_list_update)
qed (auto simp: shutdown_inv_def count_def)

lemma shutdown_inv_reachable: "shutdown_step\<^sup>*\<^sup>* (shutdown_init n f c) s \<Longrightarrow> shutdown_inv s"
  by (induction rule: rtranclp_induct) (auto intro: shutdown_inv_init shutdown_inv_step)

lemma producers_length: "shutdown_step s s' \<Longrightarrow> length (sd_producers s') = length (sd_producers s)"
  by (induction rule: shutdown_step.induct) auto

lemma done_stays:
  assumes "shutdown_step\<^sup>*\<^sup>* s s'" and "shutdown_inv s" and "sd_writer s = Done"
  shows "sd_writer s' = Done \<and> sd_accepted s' = sd_accepted s \<and> sd_written s' = sd_written s \<and> shutdown_inv s'"
  using assms
proof (induction rule: rtranclp_induct)
  case (step y z)
  then have y: "sd_writer y = Done" "sd_accepted y = sd_accepted s" "sd_written y = sd_written s" "shutdown_inv y" by auto
  have "shutdown_inv z" using shutdown_inv_step [OF step.hyps(2) y(4)] .
  moreover have "sd_writer z = Done \<and> sd_accepted z = sd_accepted y \<and> sd_written z = sd_written y"
    using step.hyps(2) y(1,4) by (cases rule: shutdown_step.cases) (auto simp: shutdown_inv_def)
  ultimately show ?case using y by simp
qed simp


lemma r_Len_empty: "ring_ok r \<Longrightarrow> ring_abs r = [] \<Longrightarrow> r_Len r = 0"
  by (simp add: ring_abs_def used_def r_Len_def Let_def)

section \<open>The JSON formatter on a background writer\<close>

abbreviation json_fmt :: "(int \<Rightarrow> int) \<Rightarrow> time_precision \<Rightarrow> log_entry \<Rightarrow> bytes \<Rightarrow> bytes" where
  "json_fmt tz p \<equiv> \<lambda>e buf. snd (Format tz p empty_cache (Some e) buf)"

lemma json_appending: "appending (json_fmt tz p)"
  unfolding appending_def
proof (intro conjI allI impI)
  fix e buf
  show "json_fmt tz p e buf = buf @ json_fmt tz p e []"
    by (subst Format_append) (simp add: Let_def split: prod.split)
next
  fix q :: entry_payload and s s' :: log_entry
  assume "le_Timestamp s = None" "le_Timestamp s' = None"
  then have "Format tz p empty_cache (Some (into q s)) [] = Format tz p empty_cache (Some (into q s')) []"
    by (intro Format_cong) (simp_all add: into_def emitted_fields_def entryUnixNanos_def)
  then show "json_fmt tz p (into q s) [] = json_fmt tz p (into q s') []" by simp
qed

lemma Format_ends: "json_fmt tz p e [] \<noteq> [] \<and> last (json_fmt tz p e []) = CHR 0x0A"
  by (simp add: Format_def Let_def split: prod.split)

lemma Format_members_cong:
  assumes "tz_ok tz" "cache_ok tz hc" and "is_s64 (entryUnixNanos x)" "is_s64 (entryUnixNanos y)"
    and "list_all loggable (emitted_fields x)" "list_all loggable (emitted_fields y)"
    and "snd (Format tz p hc (Some x) dst) = snd (Format tz p hc (Some y) dst)"
  shows "line_members tz p x = line_members tz p y"
proof -
  note assms(7) [unfolded Format_eq(1) [OF assms(1,2,3,5)] Format_eq(1) [OF assms(1,2,4,6)] same_append_eq]
  then have "Some (line_members tz p x) = Some (line_members tz p y)"
    using read_Format_text [OF assms(5), of tz p] read_Format_text [OF assms(6), of tz p] by presburger
  then show ?thesis by simp
qed

lemma sample_loggable: "list_all loggable (emitted_fields sample_entry)"
  by (simp add: sample_entry_def emitted_fields_def loggable_def key_ok_def StringValue_def zero_value_def
      bare_char_def is_digit_def code_def)

section \<open>Properties\<close>

text \<open>
  C9: the ring sink writes exactly the accepted records: for any sequence of writes, writer batches
  and flushes followed by \<open>Close\<close>, the bytes handed to the destination are the lines of the accepted
  records in write order, each accepted record once, none split and none left over, and every write
  is either accepted or counted as dropped.
\<close>

theorem ring_sink_delivers_accepted:
  assumes "ra_New opt = Inr a" and "op_OnFull opt = Drop" and "op_Capacity opt \<le> 2 ^ 62"
    and "list_all op_ok ops" and "appending fmt"
  shows "\<exists>a' a'' acc. ra_run fmt werr a ops = Some a' \<and> ra_Close fmt werr a' = Some a''
     \<and> concat (bw_out (ra_bw a'')) = payload_text fmt acc \<and> subseq acc (concat (map op_payloads ops))
     \<and> length acc + ra_dropped a'' = length (concat (map op_payloads ops))
     \<and> Occupancy a'' = (0, Cap (ra_ring a''))"
proof -
  from ra_run_inv [OF assms(5) ra_New_inv(1) [OF assms(1-3)] assms(4), of werr] ra_New_inv(2) [OF assms(1-3)]
  obtain a' acc where run: "ra_run fmt werr a ops = Some a'" "ra_inv fmt a' acc" "subseq acc (concat (map op_payloads ops))"
    "length acc + ra_dropped a' = length (concat (map op_payloads ops))" by auto
  then have i: "ring_ok (ra_ring a')" "bw_ok (ra_bw a')" "\<not> ra_closing a'"
    "bw_text (ra_bw a') @ payload_text fmt (ring_abs (ra_ring a')) = payload_text fmt acc" by (simp_all add: ra_inv_def)
  from drainAll_text [OF assms(5) i(1,2), of werr] obtain r w where d: "drainAll fmt werr (ra_ring a', ra_bw a') = Some (r, w)"
    "ring_ok r" "ring_abs r = []" "bw_text w = bw_text (ra_bw a') @ payload_text fmt (ring_abs (ra_ring a'))" "bw_buf w = []" by blast
  let ?a = "a'\<lparr>ra_closing := True, ra_ring := r, ra_bw := w\<rparr>"
  have "ra_Close fmt werr a' = Some ?a" using i(3) d(1) by (simp add: ra_Close_def)
  moreover have "concat (bw_out w) = payload_text fmt acc" using d(4,5) i(4) by (simp add: bw_text_def)
  moreover have "r_Len r = 0" using d(2,3) by (rule r_Len_empty)
  ultimately show ?thesis using run(1,3,4) by (intro exI [of _ a'] exI [of _ ?a] exI [of _ acc]) (simp add: Occupancy_def)
qed

definition json_options :: ring_options where
  "json_options = \<lparr>op_hasWriter = True, op_Formatter = Some (json_fmt (\<lambda>_. 0) PrecisionSecond), op_Capacity = 4,
     op_OnFull = Drop, op_BatchSize = 2, op_FlushInterval = 0\<rparr>"

theorem ring_sink_delivers_accepted_witness:
  "\<exists>a a' a'' acc. ra_New json_options = Inr a
     \<and> ra_run (json_fmt (\<lambda>_. 0) PrecisionSecond) (\<lambda>_. False) a [RWrite sample_entry, RBatch, RWrite sample_entry] = Some a'
     \<and> ra_Close (json_fmt (\<lambda>_. 0) PrecisionSecond) (\<lambda>_. False) a' = Some a'' \<and> length acc + ra_dropped a'' = 2
     \<and> concat (bw_out (ra_bw a'')) = payload_text (json_fmt (\<lambda>_. 0) PrecisionSecond) acc"
proof -
  obtain a where a: "ra_New json_options = Inr a"
    by (simp add: ra_New_def withDefaults_def json_options_def)
  have "\<exists>p. copyFrom sample_entry = Some p" by (rule copyFrom_total) (simp add: sample_entry_def)
  then obtain p where p: "copyFrom sample_entry = Some p" by blast
  let ?ops = "[RWrite sample_entry, RBatch, RWrite sample_entry]"
  have "list_all op_ok ?ops" by (simp add: sample_entry_def)
  then have "\<exists>a' a'' acc. ra_run (json_fmt (\<lambda>_. 0) PrecisionSecond) (\<lambda>_. False) a ?ops = Some a'
      \<and> ra_Close (json_fmt (\<lambda>_. 0) PrecisionSecond) (\<lambda>_. False) a' = Some a''
      \<and> concat (bw_out (ra_bw a'')) = payload_text (json_fmt (\<lambda>_. 0) PrecisionSecond) acc
      \<and> subseq acc (concat (map op_payloads ?ops)) \<and> length acc + ra_dropped a'' = length (concat (map op_payloads ?ops))
      \<and> Occupancy a'' = (0, Cap (ra_ring a''))"
    by (intro ring_sink_delivers_accepted [OF a _ _ _ json_appending]) (simp_all add: json_options_def)
  moreover have "length (concat (map op_payloads ?ops)) = 2" by (simp add: p)
  ultimately show ?thesis using a by metis
qed

text \<open>
  A record that goes through the ring is formatted to the same bytes as a record formatted at
  once, whatever is left in the writer's scratch record, as long as its time is set as unix nanoseconds.
\<close>

theorem async_line_identical:
  assumes "copyFrom e = Some q" and "le_TimestampUnix e \<noteq> 0"
  shows "payload_line (json_fmt tz p) q = snd (Format tz p empty_cache (Some e) [])"
proof -
  have "Format tz p empty_cache (Some (into q zero_entry)) [] = Format tz p empty_cache (Some e) []"
    using into_copyFrom [OF assms(1), of zero_entry] assms(2)
    by (intro Format_cong) (simp_all add: entryUnixNanos_def)
  with Format_ends [of tz p e] show ?thesis by (simp add: payload_line_def Let_def)
qed

theorem async_line_identical_witness:
  "\<exists>q. copyFrom sample_entry = Some q
     \<and> payload_line (json_fmt (\<lambda>_. 0) PrecisionNano) q = snd (Format (\<lambda>_. 0) PrecisionNano empty_cache (Some sample_entry) [])"
proof -
  have "\<exists>q. copyFrom sample_entry = Some q" by (rule copyFrom_total) (simp add: sample_entry_def)
  then obtain q where q: "copyFrom sample_entry = Some q" by blast
  with async_line_identical [OF this, of "\<lambda>_. 0" PrecisionNano] show ?thesis by (simp add: sample_entry_def)
qed

text \<open>
  A record whose time is only set as a wall-clock value loses it on the way through the ring: it is
  written with the time 0 of the epoch, where the same record formatted at once shows its own time.
\<close>

theorem async_loses_wall_clock:
  "\<exists>e q. copyFrom e = Some q
     \<and> payload_line (json_fmt (\<lambda>_. 0) PrecisionSecond) q \<noteq> snd (Format (\<lambda>_. 0) PrecisionSecond empty_cache (Some e) [])"
proof -
  let ?late = "sample_entry\<lparr>le_Timestamp := Some 1000000000, le_TimestampUnix := 0\<rparr>"
  have "\<exists>q. copyFrom ?late = Some q" by (rule copyFrom_total) (simp add: sample_entry_def)
  then obtain q where q: "copyFrom ?late = Some q" by blast
  have "entryUnixNanos (into q zero_entry) = 0"
    using into_copyFrom [OF q, of zero_entry] by (simp add: entryUnixNanos_def zero_entry_def)
  moreover have "emitted_fields (into q zero_entry) = emitted_fields ?late" using into_copyFrom [OF q] by blast
  moreover have "list_all loggable (emitted_fields ?late)"
    using sample_loggable by (simp add: emitted_fields_def)
  moreover have "stamp (\<lambda>_. 0) PrecisionSecond 0 \<noteq> stamp (\<lambda>_. 0) PrecisionSecond 1000000000" by code_simp
  moreover have "entryUnixNanos ?late = 1000000000" by (simp add: entryUnixNanos_def)
  moreover have "tz_ok (\<lambda>_. 0)" by (simp add: tz_ok_def)
  ultimately have "snd (Format (\<lambda>_. 0) PrecisionSecond empty_cache (Some (into q zero_entry)) [])
      \<noteq> snd (Format (\<lambda>_. 0) PrecisionSecond empty_cache (Some ?late) [])"
    using Format_members_cong [of "\<lambda>_. 0" empty_cache "into q zero_entry" ?late PrecisionSecond "[]"]
    by (auto simp: line_members_def is_s64_def)
  with q Format_ends [of "\<lambda>_. 0" PrecisionSecond "into q zero_entry"] show ?thesis
    by (intro exI [of _ ?late] exI [of _ q]) (simp add: payload_line_def Let_def)
qed

text \<open>
  C10: no record is lost in a shutdown that races with writers: in every interleaving of any number of
  producers, one \<open>Close\<close> and the writer, once the writer has returned it has written exactly the
  records that were accepted, in the order they were published; no later step adds or loses one; and
  every started call is accepted, counted as dropped, or still to be counted as dropped.
\<close>

theorem shutdown_loses_nothing:
  assumes "shutdown_step\<^sup>*\<^sup>* (shutdown_init n f c) s" and "sd_writer s = Done" and "shutdown_step\<^sup>*\<^sup>* s s'"
  shows "sd_written s' = sd_accepted s' \<and> sd_accepted s' = sd_accepted s \<and> sd_queue s' = []
     \<and> sd_started s' = length (sd_accepted s') + sd_dropped s' + count pending s'"
proof -
  note d = done_stays [OF assms(3) shutdown_inv_reachable [OF assms(1)] assms(2)]
  then have "sd_writer s' = Done" "shutdown_inv s'" "sd_accepted s' = sd_accepted s" by auto
  then show ?thesis by (auto simp: shutdown_inv_def)
qed

definition race_state ::
  "string producer \<Rightarrow> string list \<Rightarrow> bool \<Rightarrow> bool \<Rightarrow> writer_pc \<Rightarrow> string list \<Rightarrow> string shutdown" where
  "race_state pc q closing st w out =
     \<lparr>sd_queue = q, sd_written = out, sd_accepted = out @ q, sd_capacity = 2, sd_onFull = Drop, sd_producers = [pc],
      sd_inflight = (if pc = Outside then 0 else 1), sd_dropped = 0, sd_started = 1, sd_closing = closing,
      sd_stop = st, sd_writer = w\<rparr>"

text \<open>A write that passed the closing check just before \<open>Close\<close>, published while the writer drains.\<close>

lemma race_run: "shutdown_step\<^sup>*\<^sup>* (shutdown_init 1 Drop 2) (race_state Outside [] True True Done [''r''])"
proof -
  have "shutdown_step (shutdown_init 1 Drop 2) (race_state (Counted ''r'') [] False False Running [])"
    using shutdown_step.enter [of 0 "shutdown_init 1 Drop 2" "''r''"] by (simp add: race_state_def shutdown_init_def)
  moreover have "shutdown_step (race_state (Counted ''r'') [] False False Running []) (race_state (Checked ''r'') [] False False Running [])"
    using shutdown_step.check_open [of 0 "race_state (Counted ''r'') [] False False Running []"] by (simp add: race_state_def)
  moreover have "shutdown_step (race_state (Checked ''r'') [] False False Running []) (race_state (Checked ''r'') [] True False Running [])"
    using shutdown_step.close [of "race_state (Checked ''r'') [] False False Running []"] by (simp add: race_state_def)
  moreover have "shutdown_step (race_state (Checked ''r'') [] True False Running []) (race_state (Checked ''r'') [] True True Running [])"
    using shutdown_step.stop [of "race_state (Checked ''r'') [] True False Running []"] by (simp add: race_state_def)
  moreover have "shutdown_step (race_state (Checked ''r'') [] True True Running []) (race_state (Checked ''r'') [] True True Checking [])"
    using shutdown_step.see_stop [of "race_state (Checked ''r'') [] True True Running []"] by (simp add: race_state_def)
  moreover have "shutdown_step (race_state (Checked ''r'') [] True True Checking []) (race_state (Checked ''r'') [] True True Draining [])"
    using shutdown_step.load_nonzero [of "race_state (Checked ''r'') [] True True Checking []"] by (simp add: race_state_def)
  moreover have "shutdown_step (race_state (Checked ''r'') [] True True Draining []) (race_state Leaving [''r''] True True Draining [])"
    using shutdown_step.publish [of 0 "race_state (Checked ''r'') [] True True Draining []"] by (simp add: race_state_def)
  moreover have "shutdown_step (race_state Leaving [''r''] True True Draining []) (race_state Leaving [] True True Draining [''r''])"
    using shutdown_step.consume [of "race_state Leaving [''r''] True True Draining []"] by (simp add: race_state_def)
  moreover have "shutdown_step (race_state Leaving [] True True Draining [''r'']) (race_state Outside [] True True Draining [''r''])"
    using shutdown_step.leave [of 0 "race_state Leaving [] True True Draining [''r'']"] by (simp add: race_state_def)
  moreover have "shutdown_step (race_state Outside [] True True Draining [''r'']) (race_state Outside [] True True Checking [''r''])"
    using shutdown_step.drained [of "race_state Outside [] True True Draining [''r'']"] by (simp add: race_state_def)
  moreover have "shutdown_step (race_state Outside [] True True Checking [''r'']) (race_state Outside [] True True LastDrain [''r''])"
    using shutdown_step.load_zero [of "race_state Outside [] True True Checking [''r'']"] by (simp add: race_state_def)
  moreover have "shutdown_step (race_state Outside [] True True LastDrain [''r'']) (race_state Outside [] True True Done [''r''])"
    using shutdown_step.finish [of "race_state Outside [] True True LastDrain [''r'']"] by (simp add: race_state_def)
  ultimately show ?thesis by (meson converse_rtranclp_into_rtranclp rtranclp.rtrancl_refl)
qed

theorem shutdown_loses_nothing_witness:
  "sd_written (race_state Outside [] True True Done [''r'']) = sd_accepted (race_state Outside [] True True Done [''r''])"
  using shutdown_loses_nothing [OF race_run _ rtranclp.rtrancl_refl] by (simp add: race_state_def)

end
