(* ===== verification/Encryption.thy ===== *)
theory Encryption
  imports Halo_Prelude "HOL-Library.Sublist"
begin

text \<open>
  Field encryption: \<^verbatim>\<open>masking/encryption.go\<close> and \<^verbatim>\<open>masking/encryption_buffer.go\<close>.

  AES-GCM is an argument of the model: a record of its sizes and of the two operations of
  \<open>cipher.AEAD\<close>, with the documented laws of that interface as the predicate \<open>aead_ok\<close>. The
  standard Base64 encoding is written out, padding, line breaks and errors included. The scratch
  buffers are lists of bytes that the operations write region by region, as the code does, and the
  pool is a list of free buffers from which the runtime may return any or none.
\<close>

section \<open>Standard Base64\<close>

definition b64_char :: "nat \<Rightarrow> char" where
  "b64_char n =
     (if n < 26 then char_of (65 + n) else if n < 52 then char_of (71 + n) else if n < 62 then char_of (n - 4)
      else if n = 62 then CHR ''+'' else CHR ''/'')"

definition b64_value :: "char \<Rightarrow> nat option" where
  "b64_value c =
     (let n = of_char c :: nat in
      if 65 \<le> n \<and> n \<le> 90 then Some (n - 65)
      else if 97 \<le> n \<and> n \<le> 122 then Some (n - 71)
      else if 48 \<le> n \<and> n \<le> 57 then Some (n + 4)
      else if n = 43 then Some 62 else if n = 47 then Some 63 else None)"

fun b64_Encode :: "bytes \<Rightarrow> bytes" where
  "b64_Encode [] = []"
| "b64_Encode [a] =
     (let x = of_char a :: nat in [b64_char (x div 4), b64_char (x mod 4 * 16), CHR ''='', CHR ''=''])"
| "b64_Encode [a, b] =
     (let x = of_char a :: nat; y = of_char b :: nat
      in [b64_char (x div 4), b64_char (x mod 4 * 16 + y div 16), b64_char (y mod 16 * 4), CHR ''=''])"
| "b64_Encode (a # b # c # r) =
     (let x = of_char a :: nat; y = of_char b :: nat; z = of_char c :: nat
      in [b64_char (x div 4), b64_char (x mod 4 * 16 + y div 16), b64_char (y mod 16 * 4 + z div 64), b64_char (z mod 64)]
         @ b64_Encode r)"

fun b64_quanta :: "bytes \<Rightarrow> bytes option" where
  "b64_quanta [] = Some []"
| "b64_quanta (a # b # c # d # r) =
     (case (b64_value a, b64_value b) of
        (Some x, Some y) \<Rightarrow>
          if c = CHR ''='' then
            if d = CHR ''='' \<and> r = [] then Some [char_of (x * 4 + y div 16)] else None
          else (case b64_value c of
            None \<Rightarrow> None
          | Some z \<Rightarrow>
              if d = CHR ''='' then
                if r = [] then Some [char_of (x * 4 + y div 16), char_of (y mod 16 * 16 + z div 4)] else None
              else (case b64_value d of
                None \<Rightarrow> None
              | Some w \<Rightarrow> map_option (\<lambda>t. [char_of (x * 4 + y div 16), char_of (y mod 16 * 16 + z div 4),
                                           char_of (z mod 4 * 64 + w)] @ t) (b64_quanta r)))
      | _ \<Rightarrow> None)"
| "b64_quanta _ = None"

text \<open>The decoder skips line breaks wherever they stand.\<close>

definition b64_Decode :: "bytes \<Rightarrow> bytes option" where
  "b64_Decode s = b64_quanta (filter (\<lambda>c. c \<noteq> CHR 0x0A \<and> c \<noteq> CHR 0x0D) s)"

definition EncodedLen :: "int \<Rightarrow> int" where
  "EncodedLen n = wrap_s64 (wrap_s64 (n + 2) div 3 * 4)"

definition DecodedLen :: "nat \<Rightarrow> nat" where
  "DecodedLen n = n div 4 * 3"

section \<open>Scratch buffers\<close>

definition encryptionScratchCapacity :: nat where
  "encryptionScratchCapacity = 4096"

text \<open>\<open>Get\<close> may return any pooled buffer or none, as \<open>choice\<close> says.\<close>

definition acquireEncryptionScratch :: "nat option \<Rightarrow> nat \<Rightarrow> bytes list \<Rightarrow> bytes \<times> bool \<times> bytes list" where
  "acquireEncryptionScratch choice sz pool =
     (if sz > encryptionScratchCapacity then (replicate sz (CHR 0x00), False, pool)
      else case choice of
          Some i \<Rightarrow>
            if i < length pool then (pool ! i, True, take i pool @ drop (Suc i) pool)
            else (replicate encryptionScratchCapacity (CHR 0x00), True, pool)
        | None \<Rightarrow> (replicate encryptionScratchCapacity (CHR 0x00), True, pool))"

definition releaseEncryptionScratch :: "nat \<Rightarrow> bytes \<Rightarrow> bool \<Rightarrow> bytes list \<Rightarrow> bytes list" where
  "releaseEncryptionScratch sz buf owner pool =
     (let buf = replicate sz (CHR 0x00) @ drop sz buf in if owner then buf # pool else pool)"

definition encryptionBufferSize :: "int \<Rightarrow> int \<Rightarrow> int \<Rightarrow> int \<Rightarrow> int \<times> int \<times> bool" where
  "encryptionBufferSize plain nonce overhead pre =
     (if plain < 0 \<or> nonce < 0 \<or> overhead < 0 \<or> pre < 0 then (0, 0, False)
      else if nonce > wrap_s64 (max_int - overhead) \<or> plain > wrap_s64 (wrap_s64 (max_int - nonce) - overhead) then (0, 0, False)
      else let raw = wrap_s64 (wrap_s64 (nonce + plain) + overhead) in
        if raw > max_int div 4 * 3 then (0, 0, False)
        else let encoded = EncodedLen raw in
          if pre > wrap_s64 (max_int - encoded) then (0, 0, False)
          else let out = wrap_s64 (pre + encoded) in
            if raw > wrap_s64 (max_int - out) then (0, 0, False)
            else (raw, wrap_s64 (raw + out), True))"

text \<open>Writing a region of a buffer.\<close>

definition blit :: "bytes \<Rightarrow> nat \<Rightarrow> bytes \<Rightarrow> bytes" where
  "blit buf i xs = take i buf @ xs @ drop (i + length xs) buf"

section \<open>The encryptor\<close>

record aead =
  ae_NonceSize :: nat
  ae_Overhead :: nat
  ae_Seal :: "bytes \<Rightarrow> bytes \<Rightarrow> bytes"
  ae_Open :: "bytes \<Rightarrow> bytes \<Rightarrow> bytes option"

datatype encryption_error =
  ErrInvalidKeyLength | ErrEncryptionFailed | ErrDecryptionFailed | ErrInvalidCiphertext | CipherError

record field_encryptor =
  fe_key :: bytes
  fe_gcm :: aead
  fe_prefix :: string

definition NewFieldEncryptor ::
  "(bytes \<Rightarrow> bytes) \<Rightarrow> (bytes \<Rightarrow> aead option) \<Rightarrow> string \<Rightarrow> encryption_error + field_encryptor" where
  "NewFieldEncryptor sha gcm key =
     (if key = [] then Inl ErrInvalidKeyLength
      else let keyBytes = sha key in
        case gcm keyBytes of
          None \<Rightarrow> Inl CipherError
        | Some g \<Rightarrow> Inr \<lparr>fe_key = keyBytes, fe_gcm = g, fe_prefix = ''enc:''\<rparr>)"

definition NewFieldEncryptorWithKey :: "(bytes \<Rightarrow> aead option) \<Rightarrow> bytes \<Rightarrow> encryption_error + field_encryptor" where
  "NewFieldEncryptorWithKey gcm key =
     (if length key \<noteq> 16 \<and> length key \<noteq> 24 \<and> length key \<noteq> 32 then Inl ErrInvalidKeyLength
      else case gcm key of
          None \<Rightarrow> Inl CipherError
        | Some g \<Rightarrow> Inr \<lparr>fe_key = key, fe_gcm = g, fe_prefix = ''enc:''\<rparr>)"

text \<open>\<open>rnd\<close>: what the random source delivers for the requested number of bytes.\<close>

definition Encrypt ::
  "(nat \<Rightarrow> bytes option) \<Rightarrow> nat option \<Rightarrow> field_encryptor \<Rightarrow> string \<Rightarrow> bytes list \<Rightarrow> (encryption_error + string) \<times> bytes list" where
  "Encrypt rnd choice e plaintext pool =
     (if plaintext = [] then (Inr [], pool)
      else let g = fe_gcm e; nonceSize = ae_NonceSize g;
               (rawSize, totalSize, ok) = encryptionBufferSize (int (length plaintext)) (int nonceSize)
                 (int (ae_Overhead g)) (int (length (fe_prefix e)))
        in if \<not> ok then (Inl ErrEncryptionFailed, pool)
           else let rawSize = nat rawSize; totalSize = nat totalSize;
                    (scratch, owner, pool) = acquireEncryptionScratch choice totalSize pool
             in case rnd nonceSize of
                  None \<Rightarrow> (Inl ErrEncryptionFailed, releaseEncryptionScratch totalSize scratch owner pool)
                | Some r \<Rightarrow>
                    let scratch = blit scratch 0 r;
                        scratch = blit scratch nonceSize plaintext;
                        nonce = take nonceSize scratch;
                        sealed = ae_Seal g nonce (take (length plaintext) (drop nonceSize scratch));
                        scratch = blit scratch nonceSize sealed;
                        scratch = blit scratch rawSize (fe_prefix e);
                        scratch = blit scratch (rawSize + length (fe_prefix e))
                                    (b64_Encode (take (nonceSize + length sealed) scratch));
                        result = take (totalSize - rawSize) (drop rawSize scratch)
                    in (Inr result, releaseEncryptionScratch totalSize scratch owner pool))"

text \<open>When decoding fails, what it wrote into the scratch is wiped with the rest; the model leaves it out.\<close>

definition Decrypt ::
  "nat option \<Rightarrow> field_encryptor \<Rightarrow> string \<Rightarrow> bytes list \<Rightarrow> (encryption_error + string) \<times> bytes list" where
  "Decrypt choice e ciphertext pool =
     (if ciphertext = [] then (Inr [], pool)
      else let n = length (fe_prefix e) in
        if length ciphertext \<le> n then (Inl ErrInvalidCiphertext, pool)
        else if take n ciphertext \<noteq> fe_prefix e then (Inl ErrInvalidCiphertext, pool)
        else let encoded = drop n ciphertext; sz = DecodedLen (length encoded);
                 (scratch, owner, pool) = acquireEncryptionScratch choice sz pool
          in case b64_Decode encoded of
               None \<Rightarrow> (Inl ErrInvalidCiphertext, releaseEncryptionScratch sz scratch owner pool)
             | Some decoded \<Rightarrow>
                 let scratch = blit scratch 0 decoded; data = take (length decoded) scratch;
                     g = fe_gcm e; nonceSize = ae_NonceSize g
                 in if length data < nonceSize then (Inl ErrInvalidCiphertext, releaseEncryptionScratch sz scratch owner pool)
                    else case ae_Open g (take nonceSize data) (drop nonceSize data) of
                        None \<Rightarrow> (Inl ErrDecryptionFailed, releaseEncryptionScratch sz scratch owner pool)
                      | Some plain \<Rightarrow>
                          let scratch = blit scratch nonceSize plain
                          in (Inr (take (length plain) (drop nonceSize scratch)),
                              releaseEncryptionScratch sz scratch owner pool))"

definition IsEncrypted :: "field_encryptor \<Rightarrow> string \<Rightarrow> bool" where
  "IsEncrypted e v = (length v > length (fe_prefix e) \<and> take (length (fe_prefix e)) v = fe_prefix e)"


definition InitGlobalEncryptor ::
  "(bytes \<Rightarrow> bytes) \<Rightarrow> (bytes \<Rightarrow> aead option) \<Rightarrow> string \<Rightarrow> field_encryptor option \<Rightarrow> encryption_error option \<times> field_encryptor option" where
  "InitGlobalEncryptor sha gcm key global_enc =
     (case NewFieldEncryptor sha gcm key of Inl err \<Rightarrow> (Some err, global_enc) | Inr e \<Rightarrow> (None, Some e))"

section \<open>Base64 round trip\<close>

lemma of_char_256 [simp]: "(of_char c :: nat) < 256"
  by (cases c) (simp add: of_char_def)

lemma b64_char_code: "n < 64 \<Longrightarrow> (of_char (b64_char n) :: nat) =
    (if n < 26 then 65 + n else if n < 52 then 71 + n else if n < 62 then n - 4 else if n = 62 then 43 else 47)"
  by (simp add: b64_char_def)

lemma b64_char_props [simp]:
  assumes "n < 64"
  shows "b64_value (b64_char n) = Some n" "b64_char n \<noteq> CHR ''=''" "b64_char n \<noteq> CHR 0x0A" "b64_char n \<noteq> CHR 0x0D"
proof -
  show "b64_value (b64_char n) = Some n" using assms by (simp add: b64_value_def b64_char_code Let_def) arith
  have "(of_char (b64_char n) :: nat) \<notin> {61, 10, 13}" using assms by (simp add: b64_char_code) arith
  then show "b64_char n \<noteq> CHR ''=''" "b64_char n \<noteq> CHR 0x0A" "b64_char n \<noteq> CHR 0x0D" by auto
qed

lemma sextets:
  assumes "x < (256 :: nat)"
  shows "x div 4 < 64" "x mod 4 * 16 < 64" "x mod 16 * 4 < 64" "x mod 64 < 64" "x div 64 < 4" "x div 16 < 16"
proof -
  show "x div 4 < 64" "x div 64 < 4" "x div 16 < 16" using assms by (simp_all add: less_mult_imp_div_less)
  have "x mod 4 < 4" "x mod 16 < 16" by simp_all
  then show "x mod 4 * 16 < 64" "x mod 16 * 4 < 64" by linarith+
  show "x mod 64 < 64" by simp
qed

lemma split_at:
  assumes "b < (k :: nat)"
  shows "(a * k + b) div k = a" and "(a * k + b) mod k = b"
  using assms by auto

lemma sextet_bounds:
  assumes "x < (256 :: nat)" "y < 256"
  shows "x mod 4 * 16 + y div 16 < 64" "x mod 16 * 4 + y div 64 < 64"
proof -
  have "x mod 4 < 4" "x mod 16 < 16" by simp_all
  with sextets(5,6) [OF assms(2)] show "x mod 4 * 16 + y div 16 < 64" "x mod 16 * 4 + y div 64 < 64" by linarith+
qed

lemma bytes_back:
  assumes "x < (256 :: nat)" "y < 256" "z < 256"
  shows "x div 4 * 4 + (x mod 4 * 16 + y div 16) div 16 = x"
    and "(x mod 4 * 16 + y div 16) mod 16 * 16 + (y mod 16 * 4 + z div 64) div 4 = y"
    and "(y mod 16 * 4 + z div 64) mod 4 * 64 + z mod 64 = z"
  using sextets(5,6) [OF assms(2)] sextets(5,6) [OF assms(3)] by (simp_all only: split_at div_mult_mod_eq)

lemma b64_quanta_Encode: "b64_quanta (b64_Encode s) = Some s"
proof (induction s rule: b64_Encode.induct)
  case (2 a)
  from sextets [of "of_char a"] bytes_back(1) [of "of_char a" 0 0] show ?case by (simp add: Let_def)
next
  case (3 a b)
  from sextets [of "of_char a"] sextets [of "of_char b"] sextet_bounds [of "of_char a" "of_char b"]
    bytes_back(1,2) [of "of_char a" "of_char b" 0]
  show ?case by (simp add: Let_def)
next
  case (4 a b c r)
  from 4 sextets [of "of_char a"] sextets [of "of_char c"] sextet_bounds [of "of_char a" "of_char b"]
    sextet_bounds [of "of_char b" "of_char c"] bytes_back [of "of_char a" "of_char b" "of_char c"]
  show ?case by (simp add: Let_def)
qed simp

lemma b64_Encode_clean: "\<forall>c \<in> set (b64_Encode s). c \<noteq> CHR 0x0A \<and> c \<noteq> CHR 0x0D"
proof (induction s rule: b64_Encode.induct)
  case (2 a)
  with sextets [of "of_char a"] show ?case by (simp add: Let_def)
next
  case (3 a b)
  with sextets [of "of_char a"] sextets [of "of_char b"] sextet_bounds [of "of_char a" "of_char b"] show ?case by (simp add: Let_def)
next
  case (4 a b c r)
  with sextets [of "of_char a"] sextets [of "of_char c"] sextet_bounds [of "of_char a" "of_char b"]
    sextet_bounds [of "of_char b" "of_char c"] show ?case by (simp add: Let_def)
qed simp

lemma b64_round_trip [simp]: "b64_Decode (b64_Encode s) = Some s"
proof -
  have "filter (\<lambda>c. c \<noteq> CHR 0x0A \<and> c \<noteq> CHR 0x0D) (b64_Encode s) = b64_Encode s"
    using b64_Encode_clean [of s] by (intro filter_True) blast
  then show ?thesis by (simp add: b64_Decode_def b64_quanta_Encode)
qed

lemma length_b64_Encode: "length (b64_Encode s) = (length s + 2) div 3 * 4"
proof (induction s rule: b64_Encode.induct)
  case (4 a b c r)
  have "(length (a # b # c # r) + 2) div 3 = Suc ((length r + 2) div 3)" by simp
  with 4 show ?case by (simp only: b64_Encode.simps Let_def length_append list.size) simp
qed (simp_all add: Let_def)

lemma length_b64_quanta: "b64_quanta s = Some d \<Longrightarrow> length d \<le> length s div 4 * 3"
proof (induction s arbitrary: d rule: b64_quanta.induct)
  case (2 a b c e r)
  have n: "length (a # b # c # e # r) div 4 * 3 = length r div 4 * 3 + 3" using div_add_self1 [of 4 "length r"] by simp
  show ?case unfolding n using 2 by (fastforce split: option.splits if_splits)
qed simp_all

lemma length_b64_Decode: "b64_Decode s = Some d \<Longrightarrow> length d \<le> DecodedLen (length s)"
proof -
  assume "b64_Decode s = Some d"
  from length_b64_quanta [OF this [unfolded b64_Decode_def]]
  have "length d \<le> length (filter (\<lambda>c. c \<noteq> CHR 0x0A \<and> c \<noteq> CHR 0x0D) s) div 4 * 3" .
  also have "\<dots> \<le> length s div 4 * 3" by (intro mult_right_mono div_le_mono length_filter_le) simp
  finally show ?thesis by (simp add: DecodedLen_def)
qed

section \<open>The size computation\<close>

lemma size_in_range: "0 \<le> x \<Longrightarrow> x \<le> max_int \<Longrightarrow> wrap_s64 x = x"
  by (simp add: is_s64_def max_int_def)

text \<open>The layout the buffer needs: the raw record, the prefix and the encoded text.\<close>

definition layout_fits :: "int \<Rightarrow> int \<Rightarrow> int \<Rightarrow> int \<Rightarrow> bool" where
  "layout_fits plain nonce overhead pre \<longleftrightarrow>
     (let raw = nonce + plain + overhead in
      0 \<le> plain \<and> 0 \<le> nonce \<and> 0 \<le> overhead \<and> 0 \<le> pre \<and> raw \<le> max_int div 4 * 3
      \<and> raw + (pre + (raw + 2) div 3 * 4) \<le> max_int)"

lemma EncodedLen_fits:
  assumes "0 \<le> raw" and "raw \<le> max_int div 4 * 3"
  shows "EncodedLen raw = (raw + 2) div 3 * 4" and "0 \<le> EncodedLen raw" and "EncodedLen raw \<le> max_int"
proof -
  have m: "max_int div 4 = 2305843009213693951" by (simp add: max_int_def)
  have "(raw + 2) div 3 \<le> 2305843009213693951" using assms unfolding m by simp
  then have "0 \<le> (raw + 2) div 3 * 4" "(raw + 2) div 3 * 4 \<le> max_int" using assms(1) by (simp_all add: max_int_def)
  moreover have "wrap_s64 (raw + 2) = raw + 2" using assms unfolding m by (intro size_in_range) (simp_all add: max_int_def)
  ultimately show "EncodedLen raw = (raw + 2) div 3 * 4" and "0 \<le> EncodedLen raw" and "EncodedLen raw \<le> max_int"
    by (simp_all add: EncodedLen_def size_in_range)
qed

lemma encryptionBufferSize_eq:
  assumes "plain \<le> max_int" "nonce \<le> max_int" "overhead \<le> max_int" "pre \<le> max_int"
  shows "encryptionBufferSize plain nonce overhead pre =
     (if layout_fits plain nonce overhead pre
      then (nonce + plain + overhead, nonce + plain + overhead + (pre + (nonce + plain + overhead + 2) div 3 * 4), True)
      else (0, 0, False))"
proof (cases "plain < 0 \<or> nonce < 0 \<or> overhead < 0 \<or> pre < 0")
  case True
  then show ?thesis by (auto simp: encryptionBufferSize_def layout_fits_def Let_def)
next
  case False
  let ?raw = "nonce + plain + overhead" and ?enc = "(nonce + plain + overhead + 2) div 3 * 4"
  have w1: "wrap_s64 (max_int - overhead) = max_int - overhead" "wrap_s64 (max_int - nonce) = max_int - nonce"
    using False assms by (simp_all add: size_in_range)
  show ?thesis
  proof (cases "?raw \<le> max_int div 4 * 3")
    case raw: True
    have big: "max_int div 4 * 3 \<le> max_int" by (simp add: max_int_def)
    have w2: "wrap_s64 (max_int - nonce - overhead) = max_int - nonce - overhead"
      "wrap_s64 (wrap_s64 (nonce + plain) + overhead) = ?raw"
      using False raw big by (simp_all add: size_in_range)
    have nonneg: "0 \<le> ?raw" using False by simp
    note enc = EncodedLen_fits [OF nonneg raw]
    have w3: "wrap_s64 (max_int - ?enc) = max_int - ?enc" using enc by (simp add: size_in_range)
    have le: "nonce \<le> max_int - overhead" "plain \<le> max_int - nonce - overhead" using raw big False by linarith+
    show ?thesis
    proof (cases "pre \<le> max_int - ?enc")
      case pre: True
      have w4: "wrap_s64 (pre + ?enc) = pre + ?enc" "wrap_s64 (max_int - (pre + ?enc)) = max_int - (pre + ?enc)"
        using pre enc False by (simp_all add: size_in_range)
      have w5: "?raw \<le> max_int - (pre + ?enc) \<Longrightarrow> wrap_s64 (?raw + (pre + ?enc)) = ?raw + (pre + ?enc)"
        using enc nonneg False by (intro size_in_range) linarith+
      have fits: "layout_fits plain nonce overhead pre \<longleftrightarrow> ?raw \<le> max_int - (pre + ?enc)"
        using False raw unfolding layout_fits_def Let_def by linarith
      show ?thesis
        using False raw le pre w5 unfolding encryptionBufferSize_def Let_def w1 w2 enc(1) w3 w4 fits by auto
    next
      case pre: False
      then have "\<not> layout_fits plain nonce overhead pre" using nonneg unfolding layout_fits_def Let_def by linarith
      then show ?thesis
        using False raw le pre unfolding encryptionBufferSize_def Let_def w1 w2 enc(1) w3 by auto
    qed
  next
    case raw: False
    then have n: "\<not> layout_fits plain nonce overhead pre" by (simp add: layout_fits_def Let_def)
    show ?thesis
    proof (cases "nonce \<le> max_int - overhead \<and> plain \<le> max_int - nonce - overhead")
      case True
      then have "wrap_s64 (max_int - nonce - overhead) = max_int - nonce - overhead"
        "wrap_s64 (wrap_s64 (nonce + plain) + overhead) = ?raw"
        using False by (simp_all add: size_in_range)
      then show ?thesis using False raw n unfolding encryptionBufferSize_def Let_def w1 by auto
    next
      case less: False
      show ?thesis
      proof (cases "nonce \<le> max_int - overhead")
        case True
        then have "wrap_s64 (max_int - nonce - overhead) = max_int - nonce - overhead" using False by (simp add: size_in_range)
        then show ?thesis using less True False n unfolding encryptionBufferSize_def Let_def w1 by auto
      next
        case False
        then show ?thesis using n unfolding encryptionBufferSize_def Let_def w1 by auto
      qed
    qed
  qed
qed

section \<open>The scratch pool\<close>

definition sized_pool :: "bytes list \<Rightarrow> bool" where
  "sized_pool pool \<longleftrightarrow> list_all (\<lambda>b. length b = encryptionScratchCapacity) pool"

definition scrubbed :: "bytes list \<Rightarrow> bool" where
  "scrubbed pool \<longleftrightarrow> list_all (\<lambda>b. b = replicate encryptionScratchCapacity (CHR 0x00)) pool"


lemma blit_append [simp]: "length xs = i \<Longrightarrow> blit (xs @ rest) i ys = xs @ ys @ drop (length ys) rest"
  by (simp add: blit_def)

lemma blit_start [simp]: "blit buf 0 ys = ys @ drop (length ys) buf"
  by (simp add: blit_def)

lemma acquire_length:
  assumes "sized_pool pool" and "acquireEncryptionScratch choice n pool = (b, owner, pool')"
  shows "n \<le> length b" and "sized_pool pool'"
proof -
  have "choice = Some i \<Longrightarrow> i < length pool \<Longrightarrow> length (pool ! i) = encryptionScratchCapacity" for i
    using assms(1) by (simp add: sized_pool_def list_all_length)
  with assms show "n \<le> length b" "sized_pool pool'"
    by (auto simp: acquireEncryptionScratch_def sized_pool_def list_all_iff split: if_splits option.splits
        dest!: in_set_takeD in_set_dropD)
qed

lemma acquire_scrubbed:
  assumes "scrubbed pool" and "acquireEncryptionScratch choice n pool = (b, owner, pool')"
  shows "scrubbed pool'" and "owner \<Longrightarrow> b = replicate encryptionScratchCapacity (CHR 0x00)"
    and "owner \<Longrightarrow> n \<le> encryptionScratchCapacity"
proof -
  have "choice = Some i \<Longrightarrow> i < length pool \<Longrightarrow> pool ! i = replicate encryptionScratchCapacity (CHR 0x00)" for i
    using assms(1) by (simp add: scrubbed_def list_all_length)
  with assms show "scrubbed pool'" "owner \<Longrightarrow> b = replicate encryptionScratchCapacity (CHR 0x00)"
    "owner \<Longrightarrow> n \<le> encryptionScratchCapacity"
    by (auto simp: acquireEncryptionScratch_def scrubbed_def list_all_iff split: if_splits option.splits
        dest!: in_set_takeD in_set_dropD)
qed

text \<open>A released buffer is clean when the operation only wrote below the requested size.\<close>

lemma release_scrubbed:
  assumes "scrubbed pool" and "acquireEncryptionScratch choice n pool = (b, owner, pool')" and "drop n b' = drop n b"
  shows "scrubbed (releaseEncryptionScratch n b' owner pool')"
proof (cases owner)
  case True
  with acquire_scrubbed [OF assms(1,2)] assms(3)
  have "replicate n (CHR 0x00) @ drop n b' = replicate (n + (encryptionScratchCapacity - n)) (CHR 0x00)"
    by (simp only: replicate_add drop_replicate)
  with True acquire_scrubbed [OF assms(1,2)] show ?thesis by (simp add: releaseEncryptionScratch_def scrubbed_def)
next
  case False
  with acquire_scrubbed(1) [OF assms(1,2)] show ?thesis by (simp add: releaseEncryptionScratch_def Let_def)
qed

section \<open>The operations on clean and on dirty scratch\<close>

text \<open>
  The documented laws of \<open>cipher.AEAD\<close>: \<open>Seal\<close> with a nonce of the right size adds the overhead,
  \<open>Open\<close> inverts it and never returns more than it was given.
\<close>

definition aead_ok :: "aead \<Rightarrow> bool" where
  "aead_ok g \<longleftrightarrow>
     (\<forall>n p. length n = ae_NonceSize g \<longrightarrow>
        length (ae_Seal g n p) = length p + ae_Overhead g \<and> ae_Open g n (ae_Seal g n p) = Some p)
     \<and> (\<forall>n c p. ae_Open g n c = Some p \<longrightarrow> length p \<le> length c)"

definition random_ok :: "(nat \<Rightarrow> bytes option) \<Rightarrow> bool" where
  "random_ok rnd \<longleftrightarrow> (\<forall>n r. rnd n = Some r \<longrightarrow> length r = n)"

text \<open>The sizes of a call: a Go string and the sizes of the cipher are below 2^63.\<close>

definition go_sizes :: "field_encryptor \<Rightarrow> string \<Rightarrow> bool" where
  "go_sizes e s \<longleftrightarrow> int (length s) \<le> max_int \<and> int (length (fe_prefix e)) \<le> max_int
     \<and> int (ae_NonceSize (fe_gcm e)) \<le> max_int \<and> int (ae_Overhead (fe_gcm e)) \<le> max_int"

definition encryptable :: "field_encryptor \<Rightarrow> string \<Rightarrow> bool" where
  "encryptable e s \<longleftrightarrow> go_sizes e s \<and> layout_fits (int (length s)) (int (ae_NonceSize (fe_gcm e)))
     (int (ae_Overhead (fe_gcm e))) (int (length (fe_prefix e)))"

lemma encryptable_sizes:
  assumes "encryptable e s"
  shows "encryptionBufferSize (int (length s)) (int (ae_NonceSize (fe_gcm e))) (int (ae_Overhead (fe_gcm e))) (int (length (fe_prefix e)))
    = (int (ae_NonceSize (fe_gcm e) + length s + ae_Overhead (fe_gcm e)),
       int (ae_NonceSize (fe_gcm e) + length s + ae_Overhead (fe_gcm e)
         + (length (fe_prefix e) + (ae_NonceSize (fe_gcm e) + length s + ae_Overhead (fe_gcm e) + 2) div 3 * 4)), True)"
proof -
  have d: "int ((a + 2) div 3 * 4) = (int a + 2) div 3 * 4" for a by (simp add: zdiv_int)
  show ?thesis
    using assms by (simp add: encryptable_def go_sizes_def encryptionBufferSize_eq d)
qed

lemma Encrypt_eq:
  assumes "aead_ok (fe_gcm e)" "random_ok rnd" "sized_pool pool" and "encryptable e s" "s \<noteq> []"
    and "rnd (ae_NonceSize (fe_gcm e)) = Some r"
  shows "fst (Encrypt rnd choice e s pool) = Inr (fe_prefix e @ b64_Encode (r @ ae_Seal (fe_gcm e) r s))"
    and "scrubbed pool \<Longrightarrow> scrubbed (snd (Encrypt rnd choice e s pool))"
proof -
  let ?g = "fe_gcm e" and ?pre = "fe_prefix e"
  let ?ns = "ae_NonceSize ?g" let ?R = "?ns + length s + ae_Overhead ?g"
  let ?T = "?R + (length ?pre + (?R + 2) div 3 * 4)" and ?c = "ae_Seal ?g r s"
  have r: "length r = ?ns" using assms(2,6) by (simp add: random_ok_def)
  have c: "length ?c = length s + ae_Overhead ?g" using assms(1) r by (simp add: aead_ok_def)
  obtain b owner pool' where a: "acquireEncryptionScratch choice ?T pool = (b, owner, pool')" by (metis prod_cases3)
  note len = acquire_length(1) [OF assms(3) a]
  let ?b1 = "r @ drop ?ns b" and ?b2 = "r @ s @ drop (?ns + length s) b"
  let ?e64 = "b64_Encode (r @ ?c)"
  let ?b5 = "r @ ?c @ ?pre @ ?e64 @ drop ?T b"
  have e64: "length ?e64 = (?R + 2) div 3 * 4" by (simp add: length_b64_Encode r c add.assoc)
  have b1: "blit b 0 r = ?b1" using r by simp
  have b2: "blit ?b1 ?ns s = ?b2" using r by (simp add: add.commute)
  have nonce: "take ?ns ?b2 = r" using r by simp
  have plain: "take (length s) (drop ?ns ?b2) = s" using r by simp
  have b3: "blit ?b2 ?ns ?c = r @ ?c @ drop ?R b" using r c by (simp add: add.commute add.left_commute)
  have b4: "blit (r @ ?c @ drop ?R b) ?R ?pre = r @ ?c @ ?pre @ drop (?R + length ?pre) b"
    using blit_append [of "r @ ?c" ?R "drop ?R b" ?pre] r c by (simp add: add.commute add.left_commute)
  have raw: "take (?ns + length ?c) (r @ ?c @ ?pre @ drop (?R + length ?pre) b) = r @ ?c" using r by simp
  have b5: "blit (r @ ?c @ ?pre @ drop (?R + length ?pre) b) (?R + length ?pre) ?e64 = ?b5"
    using blit_append [of "r @ ?c @ ?pre" "?R + length ?pre" "drop (?R + length ?pre) b" ?e64] r c e64
    by (simp add: ac_simps)
  have res: "take (?T - ?R) (drop ?R ?b5) = ?pre @ ?e64"
  proof -
    have "drop ?R ?b5 = ?pre @ ?e64 @ drop ?T b" using r c by (simp add: drop_append)
    moreover have "?T - ?R = length (?pre @ ?e64)" using e64 by simp
    moreover have "take (length (?pre @ ?e64)) ((?pre @ ?e64) @ drop ?T b) = ?pre @ ?e64" by simp
    ultimately show ?thesis by (simp only: append_assoc)
  qed
  have eq: "Encrypt rnd choice e s pool = (Inr (?pre @ ?e64), releaseEncryptionScratch ?T ?b5 owner pool')"
    unfolding Encrypt_def Let_def encryptable_sizes [OF assms(4)] prod.case nat_int a assms(6) option.case
      b1 b2 nonce plain b3 b4 raw b5 res
    using assms(5) by simp
  then show "fst (Encrypt rnd choice e s pool) = Inr (?pre @ ?e64)" by simp
  have "drop ?T ?b5 = drop ?T b"
  proof -
    have "length (r @ ?c @ ?pre @ ?e64) = ?T" using r c e64 by simp
    then show ?thesis using append_eq_conv_conj [of "r @ ?c @ ?pre @ ?e64" "drop ?T b" ?b5] by simp
  qed
  then show "scrubbed (snd (Encrypt rnd choice e s pool))" if "scrubbed pool"
    using release_scrubbed [OF that a] eq by simp
qed


text \<open>What \<open>Decrypt\<close> returns, without the scratch.\<close>

definition decrypt_spec :: "field_encryptor \<Rightarrow> string \<Rightarrow> encryption_error + string" where
  "decrypt_spec e v =
     (if v = [] then Inr []
      else if \<not> IsEncrypted e v then Inl ErrInvalidCiphertext
      else case b64_Decode (drop (length (fe_prefix e)) v) of
          None \<Rightarrow> Inl ErrInvalidCiphertext
        | Some d \<Rightarrow>
            if length d < ae_NonceSize (fe_gcm e) then Inl ErrInvalidCiphertext
            else case ae_Open (fe_gcm e) (take (ae_NonceSize (fe_gcm e)) d) (drop (ae_NonceSize (fe_gcm e)) d) of
                None \<Rightarrow> Inl ErrDecryptionFailed
              | Some p \<Rightarrow> Inr p)"

lemma Decrypt_eq:
  assumes "aead_ok (fe_gcm e)"
  shows "fst (Decrypt choice e v pool) = decrypt_spec e v"
    and "scrubbed pool \<Longrightarrow> scrubbed (snd (Decrypt choice e v pool))"
proof -
  let ?g = "fe_gcm e" let ?ns = "ae_NonceSize ?g" and ?enc = "drop (length (fe_prefix e)) v"
  let ?n = "DecodedLen (length ?enc)"
  obtain b owner pool' where a: "acquireEncryptionScratch choice ?n pool = (b, owner, pool')" by (metis prod_cases3)
  have "fst (Decrypt choice e v pool) = decrypt_spec e v
      \<and> (scrubbed pool \<longrightarrow> scrubbed (snd (Decrypt choice e v pool)))"
  proof (cases "v = [] \<or> \<not> IsEncrypted e v")
    case True
    then show ?thesis by (auto simp: Decrypt_def decrypt_spec_def IsEncrypted_def Let_def)
  next
    case False
    then have v: "v \<noteq> []" "\<not> length v \<le> length (fe_prefix e)" "take (length (fe_prefix e)) v = fe_prefix e"
      by (simp_all add: IsEncrypted_def)
    show ?thesis
    proof (cases "b64_Decode ?enc")
      case None
      with v False a release_scrubbed [OF _ a] show ?thesis by (simp add: Decrypt_def decrypt_spec_def Let_def)
    next
      case (Some d)
      have le: "length d \<le> ?n" using length_b64_Decode [OF Some] .
      have d1: "drop ?n (d @ drop (length d) b) = drop ?n b" using le by simp
      show ?thesis
      proof (cases "length d < ?ns")
        case True
        with v False a Some d1 release_scrubbed [OF _ a] show ?thesis by (simp add: Decrypt_def decrypt_spec_def Let_def)
      next
        case ns: False
        show ?thesis
        proof (cases "ae_Open ?g (take ?ns d) (drop ?ns d)")
          case None
          with v False a Some ns d1 release_scrubbed [OF _ a] show ?thesis by (simp add: Decrypt_def decrypt_spec_def Let_def)
        next
          case opened: (Some p)
          have "length p \<le> length (drop ?ns d)" using assms opened unfolding aead_ok_def by blast
          then have p: "length p \<le> length d - ?ns" by simp
          have split: "d @ drop (length d) b = take ?ns d @ drop ?ns d @ drop (length d) b"
            by (simp flip: append_assoc)
          have "blit (d @ drop (length d) b) ?ns p = take ?ns d @ p @ drop (length p) (drop ?ns d @ drop (length d) b)"
            unfolding split using ns by simp
          moreover have "drop ?n (take ?ns d @ p @ drop (length p) (drop ?ns d @ drop (length d) b)) = drop ?n b"
            using p ns le by (simp add: drop_append) 
          moreover have "take (length p) (drop ?ns (take ?ns d @ p @ drop (length p) (drop ?ns d @ drop (length d) b))) = p"
            using ns by simp
          ultimately show ?thesis using v False a Some ns opened release_scrubbed [OF _ a]
            by (simp add: Decrypt_def decrypt_spec_def Let_def)
        qed
      qed
    qed
  qed
  then show "fst (Decrypt choice e v pool) = decrypt_spec e v"
    and "scrubbed pool \<Longrightarrow> scrubbed (snd (Decrypt choice e v pool))" by blast+
qed

section \<open>Runs of calls\<close>








text \<open>A cipher that satisfies the laws: the tag is a fixed block, and a wrong one is refused.\<close>

definition plain_aead :: aead where
  "plain_aead = \<lparr>ae_NonceSize = 2, ae_Overhead = 1, ae_Seal = \<lambda>n p. p @ ''T'',
     ae_Open = \<lambda>n c. if c \<noteq> [] \<and> last c = CHR ''T'' then Some (butlast c) else None\<rparr>"

lemma plain_aead_ok: "aead_ok plain_aead"
  by (auto simp: aead_ok_def plain_aead_def)

definition fixed_random :: "nat \<Rightarrow> bytes option" where
  "fixed_random n = Some (replicate n (CHR ''r''))"

lemma fixed_random_ok: "random_ok fixed_random"
  by (auto simp: random_ok_def fixed_random_def)

definition sample_encryptor :: field_encryptor where
  "sample_encryptor = \<lparr>fe_key = ''k'', fe_gcm = plain_aead, fe_prefix = ''enc:''\<rparr>"

section \<open>Properties\<close>

text \<open>
  C22: encryption round trip: a non-empty text within the size bound, encrypted with any nonce from the
  random source and with whatever bytes are left in the scratch buffer the pool returns, gives the
  prefix followed by the Base64 of nonce, ciphertext and tag; the result is recognised as encrypted
  and decrypts to the text, again whatever the scratch holds.
\<close>

theorem encryption_round_trip:
  assumes "aead_ok (fe_gcm e)" and "random_ok rnd" and "sized_pool pool"
    and "encryptable e s" and "s \<noteq> []" and "rnd (ae_NonceSize (fe_gcm e)) = Some r"
  shows "\<exists>v. fst (Encrypt rnd choice e s pool) = Inr v \<and> v = fe_prefix e @ b64_Encode (r @ ae_Seal (fe_gcm e) r s)
     \<and> IsEncrypted e v \<and> fst (Decrypt choice' e v pool') = Inr s"
proof -
  have r: "length r = ae_NonceSize (fe_gcm e)" using assms(2,6) by (simp add: random_ok_def)
  let ?c = "ae_Seal (fe_gcm e) r s"
  have "length ?c = length s + ae_Overhead (fe_gcm e)" "ae_Open (fe_gcm e) r ?c = Some s"
    using assms(1) r by (simp_all add: aead_ok_def)
  moreover from this assms(5) have "3 \<le> length (r @ ?c) + 2" by (cases s) simp_all
  then have "0 < length (b64_Encode (r @ ?c))" by (simp add: length_b64_Encode div_greater_zero_iff)
  ultimately show ?thesis
    using Encrypt_eq(1) [OF assms] r by (simp add: Decrypt_eq [OF assms(1)] decrypt_spec_def IsEncrypted_def)
qed

theorem encryption_round_trip_witness:
  "\<exists>v. fst (Encrypt fixed_random None sample_encryptor ''card'' []) = Inr v
     \<and> fst (Decrypt None sample_encryptor v []) = Inr ''card''"
proof -
  have "encryptable sample_encryptor ''card''"
    by (simp add: encryptable_def go_sizes_def layout_fits_def sample_encryptor_def plain_aead_def max_int_def)
  moreover have "fixed_random (ae_NonceSize (fe_gcm sample_encryptor)) = Some (replicate 2 (CHR ''r''))"
    by (simp add: fixed_random_def sample_encryptor_def plain_aead_def)
  moreover have "aead_ok (fe_gcm sample_encryptor)" by (simp add: sample_encryptor_def plain_aead_ok)
  moreover have "sized_pool []" by (simp add: sized_pool_def)
  ultimately show ?thesis using encryption_round_trip [OF _ fixed_random_ok] by blast
qed



text \<open>
  The size computation is exact and free of overflow: for all lengths of the machine it accepts
  exactly the layouts (raw record, prefix and encoded text) whose total fits the integer range, and
  then returns their true sizes, although every step is 64-bit arithmetic.
\<close>

theorem encryptionBufferSize_exact:
  assumes "plain \<le> max_int" "nonce \<le> max_int" "overhead \<le> max_int" "pre \<le> max_int"
  shows "encryptionBufferSize plain nonce overhead pre = (raw, tot, True) \<longleftrightarrow>
      layout_fits plain nonce overhead pre \<and> raw = nonce + plain + overhead \<and> tot = raw + (pre + (raw + 2) div 3 * 4)"
  using encryptionBufferSize_eq [OF assms] by (auto split: if_splits)

theorem encryptionBufferSize_exact_witness:
  "encryptionBufferSize 5 12 16 4 = (33, 81, True)"
  using encryptionBufferSize_exact [of 5 12 16 4 33 81] by (simp add: max_int_def layout_fits_def)

text \<open>
  Nothing is accepted without its tag: \<open>Decrypt\<close> returns a non-empty result only for a value that
  starts with the prefix, whose rest is valid Base64 of at least a nonce, and which the cipher opened.
\<close>

theorem decrypt_accepts_only_authentic:
  assumes "aead_ok (fe_gcm e)" and "fst (Decrypt choice e v pool) = Inr s" and "v \<noteq> []"
  shows "\<exists>d. IsEncrypted e v \<and> b64_Decode (drop (length (fe_prefix e)) v) = Some d \<and> ae_NonceSize (fe_gcm e) \<le> length d
     \<and> ae_Open (fe_gcm e) (take (ae_NonceSize (fe_gcm e)) d) (drop (ae_NonceSize (fe_gcm e)) d) = Some s"
  using assms(2,3) Decrypt_eq(1) [OF assms(1)]
  by (auto simp: decrypt_spec_def not_less split: if_splits option.splits)

theorem decrypt_accepts_only_authentic_witness:
  "\<exists>d. IsEncrypted sample_encryptor (''enc:'' @ b64_Encode ''rrcardT'')
     \<and> b64_Decode (drop 4 (''enc:'' @ b64_Encode ''rrcardT'')) = Some d \<and> ae_Open plain_aead (take 2 d) (drop 2 d) = Some ''card''"
proof -
  let ?v = "''enc:'' @ b64_Encode ''rrcardT''"
  have ok: "aead_ok (fe_gcm sample_encryptor)" by (simp add: sample_encryptor_def plain_aead_ok)
  have "b64_Encode ''rrcardT'' \<noteq> []" by (simp add: Let_def)
  then have "decrypt_spec sample_encryptor ?v = Inr ''card''"
    by (simp add: decrypt_spec_def IsEncrypted_def sample_encryptor_def plain_aead_def del: b64_Encode.simps)
  then have d: "fst (Decrypt None sample_encryptor ?v []) = Inr ''card''" by (simp only: Decrypt_eq [OF ok])
  have sizes: "length (fe_prefix sample_encryptor) = 4" "fe_gcm sample_encryptor = plain_aead" "ae_NonceSize plain_aead = 2"
    by (simp_all add: sample_encryptor_def plain_aead_def)
  from decrypt_accepts_only_authentic [OF ok d] show ?thesis unfolding sizes by blast
qed

end
