(* ===== verification/Line_Queue.thy ===== *)
theory Line_Queue
  imports Halo_Prelude
begin

text \<open>
  The line queue of the file sink, \<^verbatim>\<open>adapters/outputs/file/queue.go\<close>: many producers append
  formatted lines to a shared byte buffer, one consumer takes the whole buffer and gives it back when
  the lines are written, so that two buffers alternate.

  Because the buffers are reused, the model keeps the aliasing: byte slices are references into a heap
  of backing arrays, and \<open>append\<close> writes in place while there is capacity. Each critical section
  under the queue's mutex is one function; a producer that has to wait gives up the mutex with the
  generation of the \<open>room\<close> channel it waits on. Producers, consumer and the two wake-up channels
  are put together as a step relation.
\<close>

section \<open>Byte slices\<close>

datatype byte_slice = SNil | Slice nat nat   \<comment> \<open>backing array and length; every slice starts at the array's start\<close>

record heap =
  hp_array :: "nat \<Rightarrow> bytes"   \<comment> \<open>the whole backing array, as long as its capacity\<close>
  hp_next :: nat                \<comment> \<open>the next free reference\<close>

fun sl_len :: "byte_slice \<Rightarrow> nat" where
  "sl_len SNil = 0"
| "sl_len (Slice a n) = n"

fun sl_cap :: "heap \<Rightarrow> byte_slice \<Rightarrow> nat" where
  "sl_cap h SNil = 0"
| "sl_cap h (Slice a n) = length (hp_array h a)"

fun sl_bytes :: "heap \<Rightarrow> byte_slice \<Rightarrow> bytes" where
  "sl_bytes h SNil = []"
| "sl_bytes h (Slice a n) = take n (hp_array h a)"

fun sl_clear :: "byte_slice \<Rightarrow> byte_slice" where   \<comment> \<open>\<open>s[:0]\<close>\<close>
  "sl_clear SNil = SNil"
| "sl_clear (Slice a n) = Slice a 0"

definition alloc :: "heap \<Rightarrow> bytes \<Rightarrow> heap \<times> nat" where
  "alloc h xs = (h\<lparr>hp_array := (hp_array h)(hp_next h := xs), hp_next := hp_next h + 1\<rparr>, hp_next h)"

text \<open>\<open>append\<close>; \<open>grow\<close> is the allocator's choice of extra capacity.\<close>

definition go_append :: "(nat \<Rightarrow> nat) \<Rightarrow> heap \<Rightarrow> byte_slice \<Rightarrow> bytes \<Rightarrow> heap \<times> byte_slice" where
  "go_append grow h s xs =
     (let n = sl_len s; need = n + length xs in
      if xs = [] then (h, s)
      else if need \<le> sl_cap h s then
        (case s of
           SNil \<Rightarrow> (h, s)
         | Slice a _ \<Rightarrow> (h\<lparr>hp_array := (hp_array h)(a := take n (hp_array h a) @ xs @ drop need (hp_array h a))\<rparr>, Slice a need))
      else let (h, a) = alloc h (sl_bytes h s @ xs @ replicate (grow need) (CHR 0x00)) in (h, Slice a need))"

section \<open>The queue\<close>

datatype file_error = ErrFileClosed | ErrFileQueueFull

record line_queue =
  lq_buf :: byte_slice
  lq_spare :: byte_slice
  lq_queued :: int
  lq_inflight :: int
  lq_capacity :: int
  lq_closed :: bool
  lq_waiters :: int
  lq_room :: nat        \<comment> \<open>how many room channels have been closed\<close>
  lq_ready :: bool      \<comment> \<open>a token waits in the ready channel\<close>

definition maxRetainedQueueBytes :: nat where
  "maxRetainedQueueBytes = 8 * 2 ^ 20"

definition newLineQueue :: "int \<Rightarrow> nat \<Rightarrow> heap \<Rightarrow> line_queue \<times> heap" where
  "newLineQueue capacity initialBytes h =
     (let (h, a) = alloc h (replicate initialBytes (CHR 0x00))
      in (\<lparr>lq_buf = Slice a 0, lq_spare = SNil, lq_queued = 0, lq_inflight = 0, lq_capacity = capacity,
          lq_closed = False, lq_waiters = 0, lq_room = 0, lq_ready = False\<rparr>, h))"

datatype push_result = Pushed | Failed file_error | Waiting nat

text \<open>The section that appends the line, with the wake-up of the consumer that follows it.\<close>

definition push_line :: "(nat \<Rightarrow> nat) \<Rightarrow> bytes \<Rightarrow> line_queue \<times> heap \<Rightarrow> line_queue \<times> heap" where
  "push_line grow line qh =
     (case qh of (q, h) \<Rightarrow>
      let (h, buf) = go_append grow h (lq_buf q) line
      in (q\<lparr>lq_buf := buf, lq_queued := lq_queued q + 1, lq_ready := True\<rparr>, h))"

definition wait_register :: "line_queue \<Rightarrow> line_queue \<times> push_result" where
  "wait_register q = (q\<lparr>lq_waiters := lq_waiters q + 1\<rparr>, Waiting (lq_room q))"

text \<open>\<open>Push\<close> up to its return or to its first wait.\<close>

definition push_begin :: "(nat \<Rightarrow> nat) \<Rightarrow> int \<Rightarrow> bytes \<Rightarrow> line_queue \<times> heap \<Rightarrow> (line_queue \<times> heap) \<times> push_result" where
  "push_begin grow timeout line qh =
     (case qh of (q, h) \<Rightarrow>
      if lq_closed q \<or> lq_queued q + lq_inflight q \<ge> lq_capacity q then
        if lq_closed q then ((q, h), Failed ErrFileClosed)
        else if timeout \<le> 0 then ((q, h), Failed ErrFileQueueFull)
        else let (q, r) = wait_register q in ((q, h), r)
      else (push_line grow line (q, h), Pushed))"

text \<open>The waiter's section after a wake-up or the time-out, up to its return or to its next wait.\<close>

definition push_resume :: "(nat \<Rightarrow> nat) \<Rightarrow> bool \<Rightarrow> bytes \<Rightarrow> line_queue \<times> heap \<Rightarrow> (line_queue \<times> heap) \<times> push_result" where
  "push_resume grow expired line qh =
     (case qh of (q, h) \<Rightarrow>
      let q = q\<lparr>lq_waiters := lq_waiters q - 1\<rparr> in
      if lq_closed q then ((q, h), Failed ErrFileClosed)
      else if lq_queued q + lq_inflight q < lq_capacity q then (push_line grow line (q, h), Pushed)
      else if expired then ((q, h), Failed ErrFileQueueFull)
      else let (q, r) = wait_register q in ((q, h), r))"

definition wakeWaiters :: "line_queue \<Rightarrow> line_queue" where
  "wakeWaiters q = (if lq_waiters q > 0 then q\<lparr>lq_room := lq_room q + 1\<rparr> else q)"

definition lq_Take :: "line_queue \<Rightarrow> line_queue \<times> (byte_slice \<times> int)" where
  "lq_Take q =
     (if lq_queued q = 0 then (q, (SNil, 0))
      else let chunk = lq_buf q; lines = lq_queued q
           in (q\<lparr>lq_buf := sl_clear (lq_spare q), lq_spare := SNil, lq_queued := 0,
                 lq_inflight := lq_inflight q + lines\<rparr>, (chunk, lines)))"

definition lq_Done :: "heap \<Rightarrow> byte_slice \<Rightarrow> int \<Rightarrow> line_queue \<Rightarrow> line_queue" where
  "lq_Done h chunk lines q =
     (let q = q\<lparr>lq_inflight := lq_inflight q - lines\<rparr>;
          q = (if sl_cap h chunk \<le> maxRetainedQueueBytes then q\<lparr>lq_spare := sl_clear chunk\<rparr> else q)
      in wakeWaiters q)"

definition lq_Close :: "line_queue \<Rightarrow> line_queue" where
  "lq_Close q = wakeWaiters (q\<lparr>lq_closed := True\<rparr>)"

lemmas lq_defs = push_begin_def push_resume_def wait_register_def wakeWaiters_def lq_Take_def lq_Done_def lq_Close_def

section \<open>Producers and the consumer\<close>

datatype lq_producer = LIdle | LWaiting nat bytes

text \<open>The writer goroutine: parked, woken by the token, or holding a chunk of so many lines.\<close>

datatype lq_consumer = Parked | Woken | Writing byte_slice int

record lq_system =
  ls_q :: line_queue
  ls_h :: heap
  ls_producers :: "lq_producer list"
  ls_consumer :: lq_consumer
  ls_accepted :: "bytes list"   \<comment> \<open>the lines \<open>Push\<close> returned nil for, in order\<close>
  ls_written :: "bytes list"    \<comment> \<open>the chunks written to the file\<close>

fun after_push :: "push_result \<Rightarrow> bytes \<Rightarrow> lq_producer" where
  "after_push (Waiting g) line = LWaiting g line"
| "after_push _ line = LIdle"

definition accepts :: "push_result \<Rightarrow> bytes \<Rightarrow> bytes list" where
  "accepts r line = (if r = Pushed then [line] else [])"

text \<open>
  The write of a chunk may happen at any moment between \<open>Take\<close> and \<open>Done\<close>; the step that calls
  \<open>Done\<close> reads the chunk as late as possible.
\<close>

inductive lq_step :: "(nat \<Rightarrow> nat) \<Rightarrow> lq_system \<Rightarrow> lq_system \<Rightarrow> bool" for grow where
  push: "i < length (ls_producers s) \<Longrightarrow> ls_producers s ! i = LIdle \<Longrightarrow>
    push_begin grow timeout line (ls_q s, ls_h s) = ((q, h), r) \<Longrightarrow>
    lq_step grow s (s\<lparr>ls_q := q, ls_h := h, ls_producers := (ls_producers s)[i := after_push r line],
                      ls_accepted := ls_accepted s @ accepts r line\<rparr>)"
| resume: "i < length (ls_producers s) \<Longrightarrow> ls_producers s ! i = LWaiting g line \<Longrightarrow> expired \<or> g < lq_room (ls_q s) \<Longrightarrow>
    push_resume grow expired line (ls_q s, ls_h s) = ((q, h), r) \<Longrightarrow>
    lq_step grow s (s\<lparr>ls_q := q, ls_h := h, ls_producers := (ls_producers s)[i := after_push r line],
                      ls_accepted := ls_accepted s @ accepts r line\<rparr>)"
| receive: "ls_consumer s = Parked \<Longrightarrow> lq_ready (ls_q s) \<Longrightarrow>
    lq_step grow s (s\<lparr>ls_q := (ls_q s)\<lparr>lq_ready := False\<rparr>, ls_consumer := Woken\<rparr>)"
| wake: "ls_consumer s = Parked \<Longrightarrow> lq_step grow s (s\<lparr>ls_consumer := Woken\<rparr>)"   \<comment> \<open>a flush request or the stop\<close>
| take_lines: "ls_consumer s = Woken \<Longrightarrow> lq_Take (ls_q s) = (q, (chunk, lines)) \<Longrightarrow> lines \<noteq> 0 \<Longrightarrow>
    lq_step grow s (s\<lparr>ls_q := q, ls_consumer := Writing chunk lines\<rparr>)"
| take_none: "ls_consumer s = Woken \<Longrightarrow> lq_Take (ls_q s) = (q, (chunk, 0)) \<Longrightarrow>
    lq_step grow s (s\<lparr>ls_q := q, ls_consumer := Parked\<rparr>)"
| written: "ls_consumer s = Writing chunk lines \<Longrightarrow>
    lq_step grow s (s\<lparr>ls_q := lq_Done (ls_h s) chunk lines (ls_q s), ls_consumer := Parked,
                      ls_written := ls_written s @ [sl_bytes (ls_h s) chunk]\<rparr>)"
| close: "lq_step grow s (s\<lparr>ls_q := lq_Close (ls_q s)\<rparr>)"

inductive_cases lq_stepE: "lq_step grow s s'"

definition lq_init :: "nat \<Rightarrow> int \<Rightarrow> nat \<Rightarrow> lq_system" where
  "lq_init producers capacity initialBytes =
     (let (q, h) = newLineQueue capacity initialBytes \<lparr>hp_array = (\<lambda>_. []), hp_next = 0\<rparr>
      in \<lparr>ls_q = q, ls_h = h, ls_producers = replicate producers LIdle, ls_consumer = Parked, ls_accepted = [], ls_written = []\<rparr>)"

section \<open>Appending in place\<close>

fun sl_ok :: "heap \<Rightarrow> byte_slice \<Rightarrow> bool" where
  "sl_ok h SNil = True"
| "sl_ok h (Slice a n) = (a < hp_next h \<and> n \<le> length (hp_array h a))"

fun sl_ref :: "byte_slice \<Rightarrow> nat set" where
  "sl_ref SNil = {}"
| "sl_ref (Slice a n) = {a}"

definition apart :: "byte_slice \<Rightarrow> byte_slice \<Rightarrow> bool" where
  "apart s t \<longleftrightarrow> sl_ref s \<inter> sl_ref t = {}"

lemma apart_simps [simp]:
  "apart SNil t" "apart t SNil" "apart (sl_clear s) t = apart s t" "apart t (sl_clear s) = apart t s"
  by (cases s; simp add: apart_def)+

lemma apart_sym: "apart s t \<Longrightarrow> apart t s"
  by (auto simp: apart_def)

lemma sl_clear_simps [simp]: "sl_bytes h (sl_clear s) = []" "sl_ok h s \<Longrightarrow> sl_ok h (sl_clear s)"
  by (cases s; simp)+

text \<open>
  An append extends the slice it is given, and changes nothing that is seen through a slice over
  another array, whether it writes in place or moves to a new array.
\<close>

lemma go_append_spec:
  assumes "go_append grow h s xs = (h', s')" and "sl_ok h s"
  shows "sl_ok h' s'" and "sl_bytes h' s' = sl_bytes h s @ xs"
    and "sl_ok h t \<Longrightarrow> apart s t \<Longrightarrow> sl_ok h' t \<and> sl_bytes h' t = sl_bytes h t \<and> apart s' t"
  using assms
  by (cases s; cases t; auto simp: go_append_def alloc_def apart_def Let_def split: if_splits)+

section \<open>The invariant\<close>

definition chunk_slice :: "lq_consumer \<Rightarrow> byte_slice" where
  "chunk_slice c = (case c of Writing chunk lines \<Rightarrow> chunk | _ \<Rightarrow> SNil)"

definition chunk_lines :: "lq_consumer \<Rightarrow> int" where
  "chunk_lines c = (case c of Writing chunk lines \<Rightarrow> lines | _ \<Rightarrow> 0)"

lemma chunk_simps [simp]:
  "chunk_slice Parked = SNil" "chunk_slice Woken = SNil" "chunk_slice (Writing c n) = c"
  "chunk_lines Parked = 0" "chunk_lines Woken = 0" "chunk_lines (Writing c n) = n"
  by (simp_all add: chunk_slice_def chunk_lines_def)

text \<open>The three buffers never share an array.\<close>

definition buffers_ok :: "heap \<Rightarrow> byte_slice \<Rightarrow> byte_slice \<Rightarrow> byte_slice \<Rightarrow> bool" where
  "buffers_ok h buf spare chunk \<longleftrightarrow> sl_ok h buf \<and> sl_ok h spare \<and> sl_ok h chunk
     \<and> apart buf spare \<and> apart buf chunk \<and> apart spare chunk"

text \<open>The accepted lines: those written, those in the consumer's chunk, those in the buffer.\<close>

definition lines_ok :: "lq_system \<Rightarrow> bytes list \<Rightarrow> bytes list \<Rightarrow> bytes list \<Rightarrow> bool" where
  "lines_ok s gone taken pending \<longleftrightarrow>
     ls_accepted s = gone @ taken @ pending \<and> concat (ls_written s) = concat gone
     \<and> sl_bytes (ls_h s) (chunk_slice (ls_consumer s)) = concat taken \<and> chunk_lines (ls_consumer s) = int (length taken)
     \<and> sl_bytes (ls_h s) (lq_buf (ls_q s)) = concat pending
     \<and> lq_queued (ls_q s) = int (length pending) \<and> lq_inflight (ls_q s) = int (length taken)"

definition waiting :: "lq_producer \<Rightarrow> bool" where
  "waiting p \<longleftrightarrow> (case p of LWaiting g line \<Rightarrow> True | LIdle \<Rightarrow> False)"

lemma waiting_simps [simp]: "\<not> waiting LIdle" "waiting (LWaiting g line)"
  by (simp_all add: waiting_def)

text \<open>A producer asleep on the open room channel has a reason to: the queue is full, and not closed.\<close>

definition waiters_ok :: "lq_system \<Rightarrow> bool" where
  "waiters_ok s \<longleftrightarrow>
     lq_waiters (ls_q s) = int (length (filter waiting (ls_producers s)))
     \<and> (\<forall>g line. LWaiting g line \<in> set (ls_producers s) \<longrightarrow> g \<le> lq_room (ls_q s)
          \<and> (g = lq_room (ls_q s) \<longrightarrow> \<not> lq_closed (ls_q s) \<and> lq_capacity (ls_q s) \<le> lq_queued (ls_q s) + lq_inflight (ls_q s)))"

definition consumer_ok :: "lq_system \<Rightarrow> bool" where
  "consumer_ok s \<longleftrightarrow> (lq_queued (ls_q s) \<noteq> 0 \<longrightarrow> lq_ready (ls_q s) \<or> ls_consumer s = Woken)
     \<and> (ls_consumer s = Woken \<or> ls_consumer s = Parked \<or> 0 < chunk_lines (ls_consumer s))"

definition lq_inv :: "int \<Rightarrow> lq_system \<Rightarrow> bool" where
  "lq_inv capacity s \<longleftrightarrow>
     lq_capacity (ls_q s) = capacity \<and> lq_queued (ls_q s) + lq_inflight (ls_q s) \<le> max 0 capacity
     \<and> buffers_ok (ls_h s) (lq_buf (ls_q s)) (lq_spare (ls_q s)) (chunk_slice (ls_consumer s))
     \<and> (\<exists>gone taken pending. lines_ok s gone taken pending)
     \<and> waiters_ok s \<and> consumer_ok s"

lemma lq_inv_init: "lq_inv capacity (lq_init producers capacity n)"
  by (auto simp: lq_inv_def lq_init_def newLineQueue_def alloc_def Let_def buffers_ok_def lines_ok_def waiters_ok_def
      consumer_ok_def)

text \<open>The section that appends a line, in any state where it may run.\<close>

lemma push_line_ok:
  assumes "push_line grow line (q, h) = (q', h')" and "buffers_ok h (lq_buf q) (lq_spare q) chunk"
  shows "buffers_ok h' (lq_buf q') (lq_spare q') chunk" and "sl_bytes h' (lq_buf q') = sl_bytes h (lq_buf q) @ line"
    and "sl_bytes h' chunk = sl_bytes h chunk" and "lq_queued q' = lq_queued q + 1" and "lq_inflight q' = lq_inflight q"
    and "lq_capacity q' = lq_capacity q" and "lq_closed q' = lq_closed q" and "lq_waiters q' = lq_waiters q"
    and "lq_room q' = lq_room q" and "lq_ready q'"
proof -
  obtain b where a: "go_append grow h (lq_buf q) line = (h', b)"
    and q': "q' = q\<lparr>lq_buf := b, lq_queued := lq_queued q + 1, lq_ready := True\<rparr>"
    using assms(1) by (auto simp: push_line_def Let_def split: prod.splits)
  from assms(2) have ok: "sl_ok h (lq_buf q)" and sp: "sl_ok h (lq_spare q)" "apart (lq_buf q) (lq_spare q)"
    and ch: "sl_ok h chunk" "apart (lq_buf q) chunk" "apart (lq_spare q) chunk" by (auto simp: buffers_ok_def)
  from go_append_spec(1,2) [OF a ok] go_append_spec(3) [OF a ok sp] go_append_spec(3) [OF a ok ch(1,2)] ch(3)
  show "buffers_ok h' (lq_buf q') (lq_spare q') chunk" "sl_bytes h' (lq_buf q') = sl_bytes h (lq_buf q) @ line"
    "sl_bytes h' chunk = sl_bytes h chunk"
    by (simp_all add: q' buffers_ok_def)
qed (use assms(1) in \<open>auto simp: push_line_def Let_def split: prod.splits\<close>)

section \<open>Every section keeps the invariant\<close>

definition section_result ::
  "(nat \<Rightarrow> nat) \<Rightarrow> bytes \<Rightarrow> line_queue \<times> heap \<Rightarrow> (line_queue \<times> heap) \<times> push_result \<Rightarrow> bool" where
  "section_result grow line qh res \<longleftrightarrow> (case (qh, res) of ((q, h), (qh', r)) \<Rightarrow>
     (r = Pushed \<and> \<not> lq_closed q \<and> lq_queued q + lq_inflight q < lq_capacity q \<and> qh' = push_line grow line (q, h))
     \<or> ((\<exists>e. r = Failed e) \<and> qh' = (q, h))
     \<or> (r = Waiting (lq_room q) \<and> \<not> lq_closed q \<and> lq_capacity q \<le> lq_queued q + lq_inflight q
        \<and> qh' = (q\<lparr>lq_waiters := lq_waiters q + 1\<rparr>, h)))"

lemma push_begin_result: "section_result grow line (q, h) (push_begin grow timeout line (q, h))"
  by (simp add: section_result_def push_begin_def wait_register_def Let_def)

lemma push_resume_result:
  "section_result grow line (q\<lparr>lq_waiters := lq_waiters q - 1\<rparr>, h) (push_resume grow expired line (q, h))"
  by (simp add: section_result_def push_resume_def wait_register_def Let_def)

lemma waiters_ok_update:
  assumes "waiters_ok s" and "i < length (ls_producers s)" and "ls_producers s ! i = LIdle"
    and "lq_waiters q = lq_waiters (ls_q s) + of_bool (waiting p)" and "lq_room q = lq_room (ls_q s)"
    and "lq_closed q = lq_closed (ls_q s)" and "lq_capacity q = lq_capacity (ls_q s)"
    and "lq_queued (ls_q s) + lq_inflight (ls_q s) \<le> lq_queued q + lq_inflight q"
    and "\<And>g line. p = LWaiting g line \<Longrightarrow> g = lq_room q \<and> \<not> lq_closed q \<and> lq_capacity q \<le> lq_queued q + lq_inflight q"
    and "ls_q s' = q" and "ls_producers s' = (ls_producers s)[i := p]"
  shows "waiters_ok s'"
proof -
  have "lq_waiters (ls_q s') = int (length (filter waiting (ls_producers s')))"
    using assms(1,4) count_update [OF assms(2), of waiting p] assms(3) unfolding waiters_ok_def assms(10,11)
    by (cases "waiting p") simp_all
  moreover have "g \<le> lq_room q \<and> (g = lq_room q \<longrightarrow> \<not> lq_closed q \<and> lq_capacity q \<le> lq_queued q + lq_inflight q)"
    if "LWaiting g line \<in> set (ls_producers s')" for g line
  proof (cases "LWaiting g line \<in> set (ls_producers s)")
    case True
    with assms(1) have "g \<le> lq_room (ls_q s) \<and> (g = lq_room (ls_q s) \<longrightarrow> \<not> lq_closed (ls_q s)
        \<and> lq_capacity (ls_q s) \<le> lq_queued (ls_q s) + lq_inflight (ls_q s))" unfolding waiters_ok_def by blast
    with assms(5-8) show ?thesis by auto
  next
    case False
    with that set_update_subset_insert [of "ls_producers s" i p] have "p = LWaiting g line" by (auto simp: assms(11))
    from assms(9) [OF this] show ?thesis by simp
  qed
  ultimately show ?thesis using assms(10) by (simp add: waiters_ok_def)
qed

lemma push_section_inv:
  assumes inv: "lq_inv capacity s" and i: "i < length (ls_producers s)" "ls_producers s ! i = LIdle"
    and res: "section_result grow line (ls_q s, ls_h s) ((q, h), r)"
  shows "lq_inv capacity (s\<lparr>ls_q := q, ls_h := h, ls_producers := (ls_producers s)[i := after_push r line],
      ls_accepted := ls_accepted s @ accepts r line\<rparr>)" (is "lq_inv capacity ?s")
proof -
  note w = waiters_ok_update [OF _ i, of q "after_push r line" ?s]
  from inv obtain gone taken pending where l: "lines_ok s gone taken pending" by (auto simp: lq_inv_def)
  consider (pushed) "r = Pushed" "\<not> lq_closed (ls_q s)"
      "lq_queued (ls_q s) + lq_inflight (ls_q s) < lq_capacity (ls_q s)" "push_line grow line (ls_q s, ls_h s) = (q, h)"
    | (failed) e where "r = Failed e" "q = ls_q s" "h = ls_h s"
    | (waits) "r = Waiting (lq_room (ls_q s))" "\<not> lq_closed (ls_q s)"
      "lq_capacity (ls_q s) \<le> lq_queued (ls_q s) + lq_inflight (ls_q s)"
      "q = (ls_q s)\<lparr>lq_waiters := lq_waiters (ls_q s) + 1\<rparr>" "h = ls_h s"
    using res by (auto simp: section_result_def)
  then show ?thesis
  proof cases
    case pushed
    from inv have "buffers_ok (ls_h s) (lq_buf (ls_q s)) (lq_spare (ls_q s)) (chunk_slice (ls_consumer s))"
      by (simp add: lq_inv_def)
    note p = push_line_ok [OF pushed(4) this]
    have "lines_ok ?s gone taken (pending @ [line])"
      using l p pushed(1) by (simp add: lines_ok_def accepts_def)
    then have "\<exists>gone taken pending. lines_ok ?s gone taken pending" by blast
    moreover have "waiters_ok ?s" using w inv p pushed(1) by (simp add: lq_inv_def)
    moreover have "consumer_ok ?s" using inv p by (auto simp: lq_inv_def consumer_ok_def)
    ultimately show ?thesis using inv p pushed(3) by (simp add: lq_inv_def)
  next
    case failed
    have "waiters_ok ?s" using w inv failed by (simp add: lq_inv_def)
    with inv failed show ?thesis by (simp add: lq_inv_def lines_ok_def consumer_ok_def accepts_def)
  next
    case waits
    have "waiters_ok ?s" using w inv waits by (simp add: lq_inv_def)
    with inv waits show ?thesis by (simp add: lq_inv_def lines_ok_def consumer_ok_def accepts_def)
  qed
qed

text \<open>A waiter that wakes up first becomes idle again.\<close>

lemma waiter_idle_inv:
  assumes inv: "lq_inv capacity s" and i: "i < length (ls_producers s)" "ls_producers s ! i = LWaiting g line"
  shows "lq_inv capacity (s\<lparr>ls_q := (ls_q s)\<lparr>lq_waiters := lq_waiters (ls_q s) - 1\<rparr>,
      ls_producers := (ls_producers s)[i := LIdle]\<rparr>)" (is "lq_inv capacity ?s")
proof -
  from inv have w: "waiters_ok s" by (simp add: lq_inv_def)
  have "LWaiting g' l \<in> set (ls_producers s)" if "LWaiting g' l \<in> set ((ls_producers s)[i := LIdle])" for g' l
    using that set_update_subset_insert [of "ls_producers s" i LIdle] by auto
  moreover have "length (filter waiting ((ls_producers s)[i := LIdle])) + 1 = length (filter waiting (ls_producers s))"
    using count_update [OF i(1), of waiting LIdle] i(2) by simp
  ultimately have "waiters_ok ?s" using w unfolding waiters_ok_def by (simp del: of_nat_Suc) (metis of_nat_1 of_nat_add add_diff_cancel_right')
  with inv show ?thesis by (simp add: lq_inv_def lines_ok_def consumer_ok_def)
qed

lemma resume_inv:
  assumes inv: "lq_inv capacity s" and i: "i < length (ls_producers s)" "ls_producers s ! i = LWaiting g line"
    and res: "push_resume grow expired line (ls_q s, ls_h s) = ((q, h), r)"
  shows "lq_inv capacity (s\<lparr>ls_q := q, ls_h := h, ls_producers := (ls_producers s)[i := after_push r line],
      ls_accepted := ls_accepted s @ accepts r line\<rparr>)"
proof -
  let ?s0 = "s\<lparr>ls_q := (ls_q s)\<lparr>lq_waiters := lq_waiters (ls_q s) - 1\<rparr>, ls_producers := (ls_producers s)[i := LIdle]\<rparr>"
  have "section_result grow line (ls_q ?s0, ls_h ?s0) ((q, h), r)"
    using push_resume_result [of grow line "ls_q s" "ls_h s" expired] res by simp
  from push_section_inv [OF waiter_idle_inv [OF inv i] _ _ this, of i] i(1) show ?thesis by simp
qed

text \<open>Waking the waiters opens a new channel, so that nobody sleeps on it yet.\<close>

lemma wakeWaiters_simps [simp]:
  "lq_buf (wakeWaiters q) = lq_buf q" "lq_spare (wakeWaiters q) = lq_spare q" "lq_queued (wakeWaiters q) = lq_queued q"
  "lq_inflight (wakeWaiters q) = lq_inflight q" "lq_capacity (wakeWaiters q) = lq_capacity q"
  "lq_closed (wakeWaiters q) = lq_closed q" "lq_waiters (wakeWaiters q) = lq_waiters q" "lq_ready (wakeWaiters q) = lq_ready q"
  by (simp_all add: wakeWaiters_def)

lemma wake_ok:
  assumes "waiters_ok s" and "lq_waiters q = lq_waiters (ls_q s)" and "lq_room q = lq_room (ls_q s)"
    and "ls_q s' = wakeWaiters q" and "ls_producers s' = ls_producers s"
  shows "waiters_ok s'"
proof (cases "lq_waiters q > 0")
  case True
  with assms show ?thesis unfolding waiters_ok_def wakeWaiters_def by (auto dest: le_imp_less_Suc)
next
  case False
  with assms(1,2) have "filter waiting (ls_producers s) = []" by (auto simp: waiters_ok_def)
  then have "LWaiting g line \<notin> set (ls_producers s)" for g line by (auto simp: filter_empty_conv)
  with assms False show ?thesis by (auto simp: waiters_ok_def wakeWaiters_def)
qed

lemma lq_Done_eq:
  "lq_Done h chunk lines q = wakeWaiters (q\<lparr>lq_inflight := lq_inflight q - lines,
     lq_spare := if sl_cap h chunk \<le> maxRetainedQueueBytes then sl_clear chunk else lq_spare q\<rparr>)"
  by (simp add: lq_Done_def Let_def)

lemma lq_step_inv:
  assumes "lq_step grow s s'" and "lq_inv capacity s"
  shows "lq_inv capacity s'"
  using assms
proof (induction rule: lq_step.induct)
  case (push i s timeout line q h r)
  from push.hyps(3) push_begin_result [of grow line "ls_q s" "ls_h s" timeout]
  have "section_result grow line (ls_q s, ls_h s) ((q, h), r)" by simp
  from push_section_inv [OF push.prems push.hyps(1,2) this] show ?case .
next
  case (resume i s g line expired q h r)
  show ?case by (rule resume_inv [OF resume.prems resume.hyps(1,2,4)])
next
  case (receive s)
  then show ?case by (auto simp: lq_inv_def lines_ok_def waiters_ok_def consumer_ok_def)
next
  case (wake s)
  then show ?case by (auto simp: lq_inv_def lines_ok_def waiters_ok_def consumer_ok_def)
next
  case (take_lines s q chunk lines)
  then have n: "lq_queued (ls_q s) \<noteq> 0" and t: "chunk = lq_buf (ls_q s)" "lines = lq_queued (ls_q s)"
    "q = (ls_q s)\<lparr>lq_buf := sl_clear (lq_spare (ls_q s)), lq_spare := SNil, lq_queued := 0,
        lq_inflight := lq_inflight (ls_q s) + lq_queued (ls_q s)\<rparr>" by (auto simp: lq_Take_def Let_def split: if_splits)
  from take_lines.prems obtain gone taken pending where l: "lines_ok s gone taken pending" by (auto simp: lq_inv_def)
  with take_lines.hyps(1) have "taken = []" by (simp add: lines_ok_def)
  with l have "lines_ok (s\<lparr>ls_q := q, ls_consumer := Writing chunk lines\<rparr>) gone pending []" by (simp add: lines_ok_def t)
  moreover have "0 < lines" using l n by (simp add: lines_ok_def t)
  moreover have "waiters_ok (s\<lparr>ls_q := q, ls_consumer := Writing chunk lines\<rparr>)"
    using take_lines.prems by (auto simp: lq_inv_def waiters_ok_def t)
  ultimately show ?case using take_lines.prems take_lines.hyps(1)
    by (auto simp: lq_inv_def buffers_ok_def t apart_sym consumer_ok_def)
next
  case (take_none s q chunk)
  then have "q = ls_q s" "lq_queued (ls_q s) = 0" by (auto simp: lq_Take_def Let_def split: if_splits)
  with take_none show ?case by (auto simp: lq_inv_def lines_ok_def waiters_ok_def consumer_ok_def)
next
  case (written s chunk lines)
  let ?q = "lq_Done (ls_h s) chunk lines (ls_q s)"
  let ?s = "s\<lparr>ls_q := ?q, ls_consumer := Parked, ls_written := ls_written s @ [sl_bytes (ls_h s) chunk]\<rparr>"
  from written.prems obtain gone taken pending where l: "lines_ok s gone taken pending" by (auto simp: lq_inv_def)
  have "lines_ok ?s (gone @ taken) [] pending" using l written.hyps by (simp add: lines_ok_def lq_Done_def Let_def)
  then have "\<exists>gone taken pending. lines_ok ?s gone taken pending" by blast
  moreover have "waiters_ok ?s"
  proof (rule wake_ok)
    show "waiters_ok s" using written.prems by (simp add: lq_inv_def)
    show "ls_q ?s = wakeWaiters ((ls_q s)\<lparr>lq_inflight := lq_inflight (ls_q s) - lines,
        lq_spare := if sl_cap (ls_h s) chunk \<le> maxRetainedQueueBytes then sl_clear chunk else lq_spare (ls_q s)\<rparr>)"
      by (simp add: lq_Done_eq)
  qed simp_all
  moreover have "consumer_ok ?s" using written by (simp add: lq_inv_def consumer_ok_def lq_Done_def Let_def)
  moreover have "buffers_ok (ls_h s) (lq_buf ?q) (lq_spare ?q) SNil"
    using written by (auto simp: lq_inv_def buffers_ok_def lq_Done_eq apart_sym)
  moreover have "lq_capacity ?q = capacity" "lq_queued ?q + lq_inflight ?q \<le> max 0 capacity"
    using written.prems l written.hyps by (simp_all add: lq_inv_def lq_Done_eq lines_ok_def)
  ultimately show ?case unfolding lq_inv_def by simp
next
  case (close s)
  let ?s = "s\<lparr>ls_q := lq_Close (ls_q s)\<rparr>"
  have "waiters_ok ?s"
  proof (rule wake_ok)
    show "waiters_ok s" using close by (simp add: lq_inv_def)
    show "ls_q ?s = wakeWaiters ((ls_q s)\<lparr>lq_closed := True\<rparr>)" by (simp add: lq_Close_def)
  qed simp_all
  with close show ?case by (auto simp: lq_inv_def lines_ok_def consumer_ok_def lq_Close_def)
qed

lemma lq_reachable_inv: "(lq_step grow)\<^sup>*\<^sup>* (lq_init producers capacity n) s \<Longrightarrow> lq_inv capacity s"
  by (induction rule: rtranclp_induct) (rule lq_inv_init | erule (1) lq_step_inv)+

text \<open>A run for the witnesses: two lines into a queue of two bytes, the first one taken and written.\<close>

definition lq_state :: "byte_slice \<Rightarrow> byte_slice \<Rightarrow> int \<Rightarrow> int \<Rightarrow> bool \<Rightarrow> bytes \<Rightarrow> lq_consumer \<Rightarrow> bytes list \<Rightarrow> bytes list \<Rightarrow> lq_system" where
  "lq_state buf spare queued inflight ready array c acc wr =
     \<lparr>ls_q = \<lparr>lq_buf = buf, lq_spare = spare, lq_queued = queued, lq_inflight = inflight, lq_capacity = 2, lq_closed = False,
        lq_waiters = 0, lq_room = 0, lq_ready = ready\<rparr>,
      ls_h = \<lparr>hp_array = (\<lambda>_. [])(0 := array), hp_next = 1\<rparr>, ls_producers = [LIdle], ls_consumer = c,
      ls_accepted = acc, ls_written = wr\<rparr>"

lemma lq_sample_run:
  "(lq_step (\<lambda>_. 0))\<^sup>*\<^sup>* (lq_init 1 2 2)
     (lq_state SNil SNil 0 1 False ''a;'' (Writing (Slice 0 2) 1) [''a;''] [])"
proof -
  let ?s0 = "lq_state (Slice 0 0) SNil 0 0 False (replicate 2 (CHR 0x00)) Parked [] []"
  let ?s1 = "lq_state (Slice 0 2) SNil 1 0 True ''a;'' Parked [''a;''] []"
  let ?s2 = "lq_state (Slice 0 2) SNil 1 0 False ''a;'' Woken [''a;''] []"
  have init: "lq_init 1 2 2 = ?s0"
    by (simp add: lq_init_def lq_state_def newLineQueue_def alloc_def Let_def)
  have s1: "lq_step (\<lambda>_. 0) ?s0 ?s1"
    using lq_step.push [of 0 ?s0 "\<lambda>_. 0" 0 "''a;''"]
    by (simp add: lq_state_def push_begin_def push_line_def go_append_def accepts_def Let_def numeral_2_eq_2)
  have s2: "lq_step (\<lambda>_. 0) ?s1 ?s2"
    using lq_step.receive [of ?s1 "\<lambda>_. 0"] by (simp add: lq_state_def)
  have s3: "lq_step (\<lambda>_. 0) ?s2 (lq_state SNil SNil 0 1 False ''a;'' (Writing (Slice 0 2) 1) [''a;''] [])"
    using lq_step.take_lines [of ?s2 _ "Slice 0 2" 1 "\<lambda>_. 0"] by (simp add: lq_state_def lq_Take_def Let_def)
  show ?thesis unfolding init using s1 s2 s3 by (meson converse_rtranclp_into_rtranclp r_into_rtranclp)
qed

section \<open>Properties\<close>

text \<open>
  C13: the line queue delivers every accepted line once, in order and unharmed: in every state the
  producers, the consumer and \<open>Close\<close> can reach, the chunks written so far, the chunk the consumer
  holds and the bytes in the buffer are together exactly the accepted lines in the order of
  acceptance, although the buffers are reused and the chunk is only read when the consumer is done
  with it; and the lines waiting or in flight never exceed the capacity.
\<close>

theorem line_queue_delivers:
  assumes "(lq_step grow)\<^sup>*\<^sup>* (lq_init producers capacity n) s"
  shows "concat (ls_written s) @ sl_bytes (ls_h s) (chunk_slice (ls_consumer s)) @ sl_bytes (ls_h s) (lq_buf (ls_q s))
      = concat (ls_accepted s)
     \<and> lq_queued (ls_q s) + lq_inflight (ls_q s) \<le> max 0 capacity"
  using lq_reachable_inv [OF assms] by (auto simp: lq_inv_def lines_ok_def)

theorem line_queue_delivers_witness:
  "sl_bytes (ls_h (lq_state SNil SNil 0 1 False ''a;'' (Writing (Slice 0 2) 1) [''a;''] [])) (Slice 0 2) = ''a;''"
  using line_queue_delivers [OF lq_sample_run] by (simp add: lq_state_def)



end
