(* ===== verification/File_Resilience.thy ===== *)
theory File_Resilience
  imports Halo_Prelude
begin

text \<open>
  The guards of the file sink: the circuit breaker and the token-bucket rate limiter of
  \<^verbatim>\<open>adapters/outputs/file/resilience.go\<close>, and the configuration defaults of
  \<^verbatim>\<open>adapters/outputs/file/config.go\<close>. Times are unix nanoseconds given by the caller's clock; the
  counters are the 64-bit counters of the code, which no run can bring near their limits by steps
  of one.
\<close>

section \<open>The circuit breaker\<close>

record circuit_breaker =
  cb_state :: nat          \<comment> \<open>0 closed, 1 half-open, 2 open\<close>
  cb_failures :: int
  cb_successes :: int
  cb_lastFailTime :: int
  cb_lastStateTime :: int
  cb_threshold :: int
  cb_timeout :: int
  cb_halfOpenMax :: int
  cb_halfOpenCount :: int

definition newCircuitBreaker :: "int \<Rightarrow> int \<Rightarrow> circuit_breaker" where
  "newCircuitBreaker threshold timeout =
     \<lparr>cb_state = 0, cb_failures = 0, cb_successes = 0, cb_lastFailTime = 0, cb_lastStateTime = 0,
      cb_threshold = threshold, cb_timeout = timeout, cb_halfOpenMax = 3, cb_halfOpenCount = 0\<rparr>"

definition cb_Allow :: "int \<Rightarrow> circuit_breaker \<Rightarrow> circuit_breaker \<times> bool" where
  "cb_Allow now cb =
     (if cb_state cb = 0 then (cb, True)
      else if cb_state cb = 2 then
        (if now - cb_lastFailTime cb \<ge> cb_timeout cb then (cb\<lparr>cb_state := 1, cb_lastStateTime := now\<rparr>, True) else (cb, False))
      else if cb_state cb = 1 then
        (if cb_halfOpenCount cb < cb_halfOpenMax cb then (cb\<lparr>cb_halfOpenCount := cb_halfOpenCount cb + 1\<rparr>, True) else (cb, False))
      else (cb, False))"

definition RecordSuccess :: "circuit_breaker \<Rightarrow> circuit_breaker" where
  "RecordSuccess cb =
     (let cb = cb\<lparr>cb_halfOpenCount := cb_halfOpenCount cb - 1, cb_successes := cb_successes cb + 1\<rparr>
      in if cb_state cb = 1 \<and> cb_successes cb \<ge> 10 then cb\<lparr>cb_state := 0, cb_failures := 0, cb_successes := 0\<rparr> else cb)"

definition RecordFailure :: "int \<Rightarrow> circuit_breaker \<Rightarrow> circuit_breaker" where
  "RecordFailure now cb =
     (let cb = cb\<lparr>cb_halfOpenCount := cb_halfOpenCount cb - 1, cb_failures := cb_failures cb + 1, cb_lastFailTime := now\<rparr>
      in if cb_failures cb \<ge> cb_threshold cb then cb\<lparr>cb_state := 2, cb_lastStateTime := now\<rparr> else cb)"

lemmas cb_defs = newCircuitBreaker_def cb_Allow_def RecordSuccess_def RecordFailure_def

text \<open>One guarded write: the time, and whether the write would succeed.\<close>

definition guarded_write :: "circuit_breaker \<Rightarrow> int \<times> bool \<Rightarrow> circuit_breaker \<times> bool" where
  "guarded_write cb w = (case w of (now, ok) \<Rightarrow>
     (case cb_Allow now cb of
        (cb, False) \<Rightarrow> (cb, False)
      | (cb, True) \<Rightarrow> ((if ok then RecordSuccess cb else RecordFailure now cb), True)))"

definition guarded_run :: "circuit_breaker \<Rightarrow> (int \<times> bool) list \<Rightarrow> circuit_breaker" where
  "guarded_run cb ws = foldl (\<lambda>cb w. fst (guarded_write cb w)) cb ws"

section \<open>The rate limiter\<close>

record rate_limiter =
  rl_tokens :: int
  rl_maxTokens :: int
  rl_refillRate :: int
  rl_lastRefill :: int
  rl_enabled :: bool

definition newRateLimiter :: "int \<Rightarrow> int \<Rightarrow> bool \<Rightarrow> rate_limiter" where
  "newRateLimiter now tokensPerSec enabled =
     (if \<not> enabled \<or> tokensPerSec \<le> 0
      then \<lparr>rl_tokens = 0, rl_maxTokens = 0, rl_refillRate = 0, rl_lastRefill = 0, rl_enabled = False\<rparr>
      else \<lparr>rl_tokens = tokensPerSec, rl_maxTokens = tokensPerSec, rl_refillRate = tokensPerSec, rl_lastRefill = now,
            rl_enabled = True\<rparr>)"

text \<open>
  One turn of the loop; \<open>None\<close> for the \<open>continue\<close>. The number of whole seconds is converted from a
  float in the code, which is exact for every span below 2^53 nanoseconds and never rounds below a
  full second above it.
\<close>

definition rl_turn :: "int \<Rightarrow> rate_limiter \<Rightarrow> rate_limiter \<times> bool option" where
  "rl_turn now rl =
     (if rl_tokens rl > 0 then (rl\<lparr>rl_tokens := rl_tokens rl - 1\<rparr>, Some True)
      else let elapsed = now - rl_lastRefill rl in
        if elapsed \<ge> 1000000000 then
          let add = wrap_s64 (rl_refillRate rl * (elapsed div 1000000000));
              add = (if add > rl_maxTokens rl then rl_maxTokens rl else add)
          in (rl\<lparr>rl_lastRefill := now, rl_tokens := add\<rparr>, None)
        else (rl, Some False))"

text \<open>After a refill the loop runs once more; the clock does not move by a second within a call.\<close>

definition rl_Allow :: "int \<Rightarrow> rate_limiter \<Rightarrow> rate_limiter \<times> bool" where
  "rl_Allow now rl =
     (if \<not> rl_enabled rl then (rl, True)
      else case rl_turn now rl of
          (rl, Some b) \<Rightarrow> (rl, b)
        | (rl, None) \<Rightarrow> (case rl_turn now rl of (rl, Some b) \<Rightarrow> (rl, b) | (rl, None) \<Rightarrow> (rl, False)))"

fun rl_run :: "rate_limiter \<Rightarrow> int list \<Rightarrow> rate_limiter \<times> bool list" where
  "rl_run rl [] = (rl, [])"
| "rl_run rl (now # nows) =
     (let (rl, b) = rl_Allow now rl; (rl, bs) = rl_run rl nows in (rl, b # bs))"

section \<open>Configuration\<close>

record rotation_config =
  rc_MaxSize :: int
  rc_MaxAge :: int
  rc_MaxBackups :: int
  rc_Compress :: bool
  rc_FlushInterval :: int
  rc_MaxBatchSize :: int
  rc_WriteTimeout :: int
  rc_QueueSize :: int
  rc_UseOSync :: bool
  rc_UseFlock :: bool
  rc_CircuitThreshold :: int
  rc_CircuitTimeout :: int
  rc_RateLimit :: int

definition DefaultRotationConfig :: rotation_config where
  "DefaultRotationConfig =
     \<lparr>rc_MaxSize = 100 * 1024 * 1024, rc_MaxAge = 7 * 24 * 3600 * 1000000000, rc_MaxBackups = 10, rc_Compress = True,
      rc_FlushInterval = 30 * 1000000000, rc_MaxBatchSize = 64 * 1024, rc_WriteTimeout = 5 * 1000000000,
      rc_QueueSize = 65536, rc_UseOSync = False, rc_UseFlock = False, rc_CircuitThreshold = 10,
      rc_CircuitTimeout = 30 * 1000000000, rc_RateLimit = 0\<rparr>"

definition orDefault :: "int \<Rightarrow> int \<Rightarrow> int" where
  "orDefault v def = (if v \<le> 0 then def else v)"

definition file_withDefaults :: "rotation_config option \<Rightarrow> rotation_config" where
  "file_withDefaults c =
     (let def = DefaultRotationConfig in
      case c of
        None \<Rightarrow> def
      | Some out \<Rightarrow>
          let out = out\<lparr>rc_FlushInterval := orDefault (rc_FlushInterval out) (rc_FlushInterval def)\<rparr>;
              out = out\<lparr>rc_MaxBatchSize := orDefault (rc_MaxBatchSize out) (rc_MaxBatchSize def)\<rparr>;
              out = out\<lparr>rc_WriteTimeout := orDefault (rc_WriteTimeout out) (rc_WriteTimeout def)\<rparr>;
              out = out\<lparr>rc_QueueSize := orDefault (rc_QueueSize out) (rc_QueueSize def)\<rparr>;
              out = out\<lparr>rc_CircuitThreshold := orDefault (rc_CircuitThreshold out) (rc_CircuitThreshold def)\<rparr>
          in out\<lparr>rc_CircuitTimeout := orDefault (rc_CircuitTimeout out) (rc_CircuitTimeout def)\<rparr>)"

lemma file_withDefaults_positive:
  "0 < rc_FlushInterval (file_withDefaults c)" "0 < rc_MaxBatchSize (file_withDefaults c)"
  "0 < rc_WriteTimeout (file_withDefaults c)" "0 < rc_QueueSize (file_withDefaults c)"
  "0 < rc_CircuitThreshold (file_withDefaults c)" "0 < rc_CircuitTimeout (file_withDefaults c)"
  by (cases c; simp add: file_withDefaults_def DefaultRotationConfig_def orDefault_def Let_def)+

lemma file_withDefaults_idem: "file_withDefaults (Some (file_withDefaults c)) = file_withDefaults c"
  using file_withDefaults_positive [of c] by (simp add: file_withDefaults_def [of "Some _"] orDefault_def Let_def)

section \<open>When the breaker opens\<close>

lemma guarded_write_closed:
  assumes "cb_state cb = 0"
  shows "guarded_write cb (now, ok) = ((if ok then RecordSuccess cb else RecordFailure now cb), True)"
  using assms by (simp add: guarded_write_def cb_Allow_def)

text \<open>
  As long as it is closed, a success leaves the count of failures as it is; so the breaker is open
  after a run of guarded writes that all met a closed breaker as soon as the failures add up.
\<close>

lemma closed_run:
  "cb_state cb = 0 \<Longrightarrow> cb_failures cb + int (length (filter (\<lambda>w. \<not> snd w) ws)) < cb_threshold cb \<Longrightarrow>
   let cb' = guarded_run cb ws in cb_state cb' = 0 \<and> cb_threshold cb' = cb_threshold cb
     \<and> cb_failures cb' = cb_failures cb + int (length (filter (\<lambda>w. \<not> snd w) ws))"
proof (induction ws arbitrary: cb)
  case (Cons w ws)
  obtain now ok where w: "w = (now, ok)" by (cases w)
  let ?cb = "if ok then RecordSuccess cb else RecordFailure now cb"
  have s: "guarded_run cb (w # ws) = guarded_run ?cb ws"
    using Cons.prems(1) by (simp add: guarded_run_def w guarded_write_closed)
  have "cb_state ?cb = 0" "cb_threshold ?cb = cb_threshold cb" "cb_failures ?cb = cb_failures cb + of_bool (\<not> ok)"
    using Cons.prems by (cases ok; simp add: RecordSuccess_def RecordFailure_def Let_def w)+
  with Cons.IH [of ?cb] Cons.prems(2) show ?case unfolding s by (cases ok) (simp_all add: Let_def w add.assoc)
qed (simp add: guarded_run_def)

section \<open>How much the limiter lets through\<close>

definition rl_ok :: "rate_limiter \<Rightarrow> bool" where
  "rl_ok rl \<longleftrightarrow> rl_enabled rl \<and> 0 < rl_maxTokens rl \<and> rl_refillRate rl = rl_maxTokens rl \<and> rl_tokens rl \<le> rl_maxTokens rl"

definition seconds :: "int \<Rightarrow> int" where
  "seconds ns = ns div 1000000000"

lemma seconds_mono: "a \<le> b \<Longrightarrow> seconds a \<le> seconds b"
  by (simp add: seconds_def zdiv_mono1)

lemma seconds_step: "a + 1000000000 \<le> b \<Longrightarrow> seconds a + 1 \<le> seconds b"
  using zdiv_mono1 [of "a + 1000000000" b 1000000000] by (simp add: seconds_def)

text \<open>
  Tokens taken plus tokens left grow by at most one bucket per second since the start.
\<close>

definition allowance :: "rate_limiter \<Rightarrow> int \<Rightarrow> int" where
  "allowance rl t0 = rl_maxTokens rl * (1 + seconds (rl_lastRefill rl - t0))"

definition refill :: "int \<Rightarrow> rate_limiter \<Rightarrow> int" where
  "refill now rl = min (rl_maxTokens rl) (wrap_s64 (rl_refillRate rl * ((now - rl_lastRefill rl) div 1000000000)))"

lemma rl_Allow_eq:
  assumes "rl_enabled rl"
  shows "rl_Allow now rl =
     (if rl_tokens rl > 0 then (rl\<lparr>rl_tokens := rl_tokens rl - 1\<rparr>, True)
      else if now - rl_lastRefill rl < 1000000000 then (rl, False)
      else if refill now rl > 0 then (rl\<lparr>rl_lastRefill := now, rl_tokens := refill now rl - 1\<rparr>, True)
      else (rl\<lparr>rl_lastRefill := now, rl_tokens := refill now rl\<rparr>, False))"
proof -
  have r: "refill now rl = (let a = wrap_s64 (rl_refillRate rl * ((now - rl_lastRefill rl) div 1000000000))
      in if a > rl_maxTokens rl then rl_maxTokens rl else a)" by (simp add: refill_def min_def Let_def)
  show ?thesis using assms by (simp add: rl_Allow_def rl_turn_def r Let_def)
qed

lemma rl_Allow_step:
  assumes "rl_Allow now rl = (rl', b)" and "rl_ok rl" and "rl_lastRefill rl \<le> now"
  shows "rl_ok rl'" and "rl_maxTokens rl' = rl_maxTokens rl" and "rl_lastRefill rl \<le> rl_lastRefill rl'"
    and "rl_lastRefill rl' \<le> now"
    and "of_bool b + max 0 (rl_tokens rl') - max 0 (rl_tokens rl) \<le> allowance rl' t0 - allowance rl t0"
proof -
  let ?m = "rl_maxTokens rl"
  have m: "0 < ?m" and en: "rl_enabled rl" using assms(2) by (simp_all add: rl_ok_def)
  consider (token) "rl_tokens rl > 0" "rl' = rl\<lparr>rl_tokens := rl_tokens rl - 1\<rparr>" "b"
    | (refilled) "rl_tokens rl \<le> 0" "1000000000 \<le> now - rl_lastRefill rl" "refill now rl > 0"
        "rl' = rl\<lparr>rl_lastRefill := now, rl_tokens := refill now rl - 1\<rparr>" "b"
    | (starved) "rl_tokens rl \<le> 0" "1000000000 \<le> now - rl_lastRefill rl" "refill now rl \<le> 0"
        "rl' = rl\<lparr>rl_lastRefill := now, rl_tokens := refill now rl\<rparr>" "\<not> b"
    | (empty) "rl_tokens rl \<le> 0" "now - rl_lastRefill rl < 1000000000" "rl' = rl" "\<not> b"
    using assms(1) unfolding rl_Allow_eq [OF en]
    by (cases "rl_tokens rl > 0"; cases "now - rl_lastRefill rl < 1000000000"; cases "refill now rl > 0") auto
  note cases = this
  have add: "refill now rl \<le> ?m" by (simp add: refill_def)
  have sec: "1000000000 \<le> now - rl_lastRefill rl \<Longrightarrow> seconds (rl_lastRefill rl - t0) + 1 \<le> seconds (now - t0)"
    using seconds_step [of "rl_lastRefill rl - t0" "now - t0"] by simp
  have grow: "1000000000 \<le> now - rl_lastRefill rl \<Longrightarrow>
      ?m * (1 + seconds (rl_lastRefill rl - t0)) + ?m \<le> ?m * (1 + seconds (now - t0))"
    using sec m mult_left_mono [of "seconds (rl_lastRefill rl - t0) + 1" "seconds (now - t0)" ?m]
    by (simp add: algebra_simps)
  have "rl_ok rl' \<and> rl_maxTokens rl' = ?m \<and> rl_lastRefill rl \<le> rl_lastRefill rl' \<and> rl_lastRefill rl' \<le> now
      \<and> of_bool b + max 0 (rl_tokens rl') - max 0 (rl_tokens rl) \<le> allowance rl' t0 - allowance rl t0"
    using cases
  proof cases
    case token
    with assms(2,3) show ?thesis by (simp add: rl_ok_def allowance_def)
  next
    case refilled
    with assms(2,3) add grow show ?thesis by (simp add: rl_ok_def allowance_def)
  next
    case starved
    with assms(2,3) add sec m show ?thesis by (simp add: rl_ok_def allowance_def)
  next
    case empty
    with assms(2,3) show ?thesis by simp
  qed
  then show "rl_ok rl'" "rl_maxTokens rl' = ?m" "rl_lastRefill rl \<le> rl_lastRefill rl'" "rl_lastRefill rl' \<le> now"
    "of_bool b + max 0 (rl_tokens rl') - max 0 (rl_tokens rl) \<le> allowance rl' t0 - allowance rl t0" by blast+
qed

fun clock_ok :: "int \<Rightarrow> int list \<Rightarrow> bool" where
  "clock_ok t [] = True"
| "clock_ok t (now # nows) = (t \<le> now \<and> clock_ok now nows)"

lemma rl_run_bound:
  "rl_ok rl \<Longrightarrow> rl_lastRefill rl \<le> t \<Longrightarrow> clock_ok t nows \<Longrightarrow>
   int (length (filter (\<lambda>b. b) (snd (rl_run rl nows)))) \<le> max 0 (rl_tokens rl)
     + (allowance (fst (rl_run rl nows)) t0 - allowance rl t0)
   \<and> rl_lastRefill (fst (rl_run rl nows)) \<le> last (t # nows) \<and> rl_maxTokens (fst (rl_run rl nows)) = rl_maxTokens rl"
proof (induction nows arbitrary: rl t)
  case (Cons now nows)
  obtain rl1 b where a: "rl_Allow now rl = (rl1, b)" by fastforce
  obtain rl2 bs where r: "rl_run rl1 nows = (rl2, bs)" by fastforce
  have "rl_lastRefill rl \<le> now" using Cons.prems by simp
  note st = rl_Allow_step [OF a Cons.prems(1) this]
  have "clock_ok now nows" using Cons.prems(3) by simp
  note IH = Cons.IH [OF st(1,4) this, unfolded r fst_conv snd_conv]
  have "int (length (filter (\<lambda>b. b) (b # bs))) = of_bool b + int (length (filter (\<lambda>b. b) bs))" by simp
  with IH st(2) st(5) [of t0] have "int (length (filter (\<lambda>b. b) (b # bs))) \<le> max 0 (rl_tokens rl) + (allowance rl2 t0 - allowance rl t0)"
    by linarith
  with IH st(2) show ?case unfolding rl_run.simps a r Let_def prod.case snd_conv fst_conv by simp
qed simp

section \<open>Properties\<close>

text \<open>
  The rate limiter keeps its rate: whenever it is asked, with a clock that does not run backwards,
  it lets through at most the configured number of lines plus that number for every whole second
  since it was made.
\<close>

theorem rate_limiter_bound:
  assumes "0 < rate" and "clock_ok t0 nows"
  shows "int (length (filter (\<lambda>b. b) (snd (rl_run (newRateLimiter t0 rate True) nows))))
     \<le> rate * (1 + seconds (last (t0 # nows) - t0))"
proof -
  let ?rl = "newRateLimiter t0 rate True"
  have ok: "rl_ok ?rl" and l: "rl_lastRefill ?rl = t0" and t: "rl_tokens ?rl = rate" "rl_maxTokens ?rl = rate"
    using assms(1) by (simp_all add: newRateLimiter_def rl_ok_def)
  note b = rl_run_bound [OF ok _ assms(2), of t0, unfolded l t, OF order_refl]
  have "seconds (rl_lastRefill (fst (rl_run ?rl nows)) - t0) \<le> seconds (last (t0 # nows) - t0)"
    using b by (intro seconds_mono) simp
  then have "rate * seconds (rl_lastRefill (fst (rl_run ?rl nows)) - t0) \<le> rate * seconds (last (t0 # nows) - t0)"
    using assms(1) by (intro mult_left_mono) simp_all
  moreover have "int (length (filter (\<lambda>b. b) (snd (rl_run ?rl nows)))) \<le> rate + rate * seconds (rl_lastRefill (fst (rl_run ?rl nows)) - t0)"
  proof -
    from b have mt: "rl_maxTokens (fst (rl_run ?rl nows)) = rate" by blast
    have "allowance ?rl t0 = rate" by (simp add: allowance_def l t seconds_def)
    moreover have "allowance (fst (rl_run ?rl nows)) t0 = rate + rate * seconds (rl_lastRefill (fst (rl_run ?rl nows)) - t0)"
      by (simp add: allowance_def mt distrib_left)
    ultimately show ?thesis using b assms(1) by linarith
  qed
  ultimately show ?thesis by (simp add: distrib_left)
qed

theorem rate_limiter_bound_witness:
  "int (length (filter (\<lambda>b. b) (snd (rl_run (newRateLimiter 0 2 True) [5, 6, 7, 2000000000])))) \<le> 2 * (1 + seconds 2000000000)"
  using rate_limiter_bound [of 2 0 "[5, 6, 7, 2000000000]"] by simp

text \<open>
  The breaker counts failures, not consecutive failures: whatever successes come between them, a
  closed breaker opens with the failure that brings the total up to the threshold, and stays closed
  before it.
\<close>

theorem breaker_opens_on_total_failures:
  assumes "int (length (filter (\<lambda>w. \<not> snd w) ws)) + 1 = threshold"
  shows "cb_state (guarded_run (newCircuitBreaker threshold timeout) ws) = 0
     \<and> cb_state (guarded_run (newCircuitBreaker threshold timeout) (ws @ [(now, False)])) = 2"
proof -
  let ?cb = "guarded_run (newCircuitBreaker threshold timeout) ws"
  have c: "cb_state ?cb = 0" "cb_threshold ?cb = threshold" "cb_failures ?cb + 1 = threshold"
    using closed_run [of "newCircuitBreaker threshold timeout" ws] assms by (simp_all add: newCircuitBreaker_def Let_def)
  have "guarded_run (newCircuitBreaker threshold timeout) (ws @ [(now, False)]) = RecordFailure now ?cb"
    using guarded_write_closed [OF c(1)] by (simp add: guarded_run_def)
  with c show ?thesis by (simp add: RecordFailure_def Let_def)
qed

theorem breaker_opens_on_total_failures_witness:
  "cb_state (guarded_run (newCircuitBreaker 2 60) ([(1, False), (2, True), (3, True), (4, True)] @ [(5, False)])) = 2"
  using breaker_opens_on_total_failures [of "[(1, False), (2, True), (3, True), (4, True)]" 2 60 5] by simp

text \<open>
  The successes counted while the breaker was closed count towards closing it again: after nine earlier
  successes the first success of the half-open state closes the circuit.
\<close>

lemma half_open_closes_early:
  "cb_state (guarded_run (newCircuitBreaker 1 10) (replicate 9 (0, True) @ [(5, False), (15, True)])) = 0"
  by (simp add: guarded_run_def guarded_write_def cb_defs Let_def numeral_eq_Suc)

end
