(* ===== verification/File_Sink.thy ===== *)
theory File_Sink
  imports Line_Queue File_Resilience "HOL-Library.AList" "HOL-Library.Sublist"
begin

text \<open>
  The file sink: \<^verbatim>\<open>adapters/outputs/file/file.go\<close> and \<^verbatim>\<open>rotation.go\<close>, on the line queue and the
  guards of the two theories before.

  The operating system is an association list of the files in the log's directory (name, content and
  modification time); names are relative to that directory. Each call of the writer goroutine comes
  with what the system does for it: the time, and whether the rename, the open and the write succeed.
  The formatter, the rendering of the time in a backup's name and the gzip encoder are arguments.
  Periodic syncs, the cross-process lock and the text of error reports are left out.
\<close>

section \<open>Files\<close>

type_synonym stored = "bytes \<times> int"
type_synonym files = "(string \<times> stored) list"

record sys_env =
  ev_now :: int
  ev_rename :: bool
  ev_open :: bool
  ev_write :: "nat option"   \<comment> \<open>the number of bytes written before an error\<close>

definition pathExists :: "files \<Rightarrow> string \<Rightarrow> bool" where
  "pathExists fs name = (map_of fs name \<noteq> None)"

text \<open>The names a rotation tries, and the loop that skips the taken ones.\<close>

definition backup_candidate :: "string \<Rightarrow> nat \<Rightarrow> string" where
  "backup_candidate base i = (if i = 0 then base else base @ ''-'' @ itoa (int i))"

definition name_taken :: "files \<Rightarrow> string \<Rightarrow> bool" where
  "name_taken fs name = (pathExists fs name \<or> pathExists fs (name @ ''.gz''))"

lemma backup_candidate_inj: "backup_candidate base i = backup_candidate base j \<Longrightarrow> i = j"
  using itoa_inj [of "int i" "int j"] by (auto simp: backup_candidate_def split: if_splits)

lemma finite_taken: "finite {j. name_taken fs (backup_candidate base j)}"
proof -
  have inj: "inj (backup_candidate base)" by (rule injI) (rule backup_candidate_inj)
  have inj': "inj (\<lambda>j. backup_candidate base j @ ''.gz'')" using inj by (simp add: inj_def)
  have "{j. name_taken fs (backup_candidate base j)} \<subseteq>
      backup_candidate base -` dom (map_of fs) \<union> (\<lambda>j. backup_candidate base j @ ''.gz'') -` dom (map_of fs)"
    by (auto simp: name_taken_def pathExists_def)
  moreover have "finite (backup_candidate base -` dom (map_of fs))"
    using inj by (intro finite_vimageI finite_dom_map_of)
  moreover have "finite ((\<lambda>j. backup_candidate base j @ ''.gz'') -` dom (map_of fs))"
    using inj' by (intro finite_vimageI finite_dom_map_of)
  ultimately show ?thesis by (meson finite_UnI finite_subset)
qed

function backup_from :: "files \<Rightarrow> string \<Rightarrow> nat \<Rightarrow> string" where
  "backup_from fs base i =
     (if name_taken fs (backup_candidate base i) then backup_from fs base (Suc i) else backup_candidate base i)"
  by pat_completeness auto

termination
proof (relation "measure (\<lambda>(fs, base, i). card {j. i \<le> j \<and> name_taken fs (backup_candidate base j)})")
  fix fs base i
  assume t: "name_taken fs (backup_candidate base i)"
  let ?S = "\<lambda>i. {j. i \<le> j \<and> name_taken fs (backup_candidate base j)}"
  have "finite (?S i)" using finite_taken [of fs base] by (rule rev_finite_subset) auto
  moreover have "?S (Suc i) \<subset> ?S i"
  proof (rule psubsetI)
    show "?S (Suc i) \<subseteq> ?S i" by auto
    have "i \<in> ?S i" "i \<notin> ?S (Suc i)" using t by auto
    then show "?S (Suc i) \<noteq> ?S i" by blast
  qed
  ultimately show "((fs, base, Suc i), fs, base, i) \<in> measure (\<lambda>(fs, base, i). card {j. i \<le> j \<and> name_taken fs (backup_candidate base j)})"
    by (simp add: psubset_card_mono)
qed simp

declare backup_from.simps [simp del]

section \<open>The adapter\<close>

record file_metrics =
  fm_WritesTotal :: int
  fm_WriteErrors :: int
  fm_BytesWritten :: int
  fm_RotationsTotal :: int
  fm_FlushesTotal :: int
  fm_QueueDepth :: int
  fm_CircuitBreaks :: int
  fm_RateLimits :: int
  fm_LostWrites :: int

record file_adapter =
  fa_path :: string
  fa_maxSize :: int
  fa_maxBackups :: int
  fa_maxAge :: int
  fa_compress :: bool
  fa_writeTimeout :: int
  fa_closed :: bool
  fa_currentSize :: int
  fa_currentFile :: bool          \<comment> \<open>whether the file at the path is open\<close>
  fa_queue :: line_queue
  fa_heap :: heap
  fa_nextRotation :: int
  fa_compressor :: "string list"  \<comment> \<open>rotated files waiting for compression\<close>
  fa_cb :: circuit_breaker
  fa_rl :: rate_limiter
  fa_fs :: files
  fa_metrics :: file_metrics
  fa_stderr :: bytes

definition openFile :: "sys_env \<Rightarrow> file_adapter \<Rightarrow> file_adapter \<times> bool" where
  "openFile ev f =
     (if \<not> ev_open ev then (f, False)
      else let fs = (case map_of (fa_fs f) (fa_path f) of
                 Some c \<Rightarrow> fa_fs f | None \<Rightarrow> AList.update (fa_path f) ([], ev_now ev) (fa_fs f));
               sz = (case map_of fs (fa_path f) of Some (c, t) \<Rightarrow> int (length c) | None \<Rightarrow> 0)
        in (f\<lparr>fa_fs := fs, fa_currentFile := True, fa_currentSize := sz\<rparr>, True))"

definition zero_metrics :: file_metrics where
  "zero_metrics = \<lparr>fm_WritesTotal = 0, fm_WriteErrors = 0, fm_BytesWritten = 0, fm_RotationsTotal = 0, fm_FlushesTotal = 0,
     fm_QueueDepth = 0, fm_CircuitBreaks = 0, fm_RateLimits = 0, fm_LostWrites = 0\<rparr>"

definition NewFileAdapter :: "sys_env \<Rightarrow> files \<Rightarrow> string \<Rightarrow> rotation_config option \<Rightarrow> file_adapter option" where
  "NewFileAdapter ev fs path config =
     (let cfg = file_withDefaults config;
          (q, h) = newLineQueue (rc_QueueSize cfg) (nat (rc_MaxBatchSize cfg)) \<lparr>hp_array = (\<lambda>_. []), hp_next = 0\<rparr>;
          f = \<lparr>fa_path = path, fa_maxSize = rc_MaxSize cfg, fa_maxBackups = rc_MaxBackups cfg,
               fa_maxAge = go_div (rc_MaxAge cfg) (24 * 3600 * 1000000000), fa_compress = rc_Compress cfg,
               fa_writeTimeout = rc_WriteTimeout cfg, fa_closed = False, fa_currentSize = 0, fa_currentFile = False,
               fa_queue = q, fa_heap = h, fa_nextRotation = 0, fa_compressor = [],
               fa_cb = newCircuitBreaker (rc_CircuitThreshold cfg) (rc_CircuitTimeout cfg),
               fa_rl = newRateLimiter (ev_now ev) (rc_RateLimit cfg) (rc_RateLimit cfg > 0),
               fa_fs = fs, fa_metrics = zero_metrics, fa_stderr = []\<rparr>
      in case openFile ev f of (f, True) \<Rightarrow> Some f | (f, False) \<Rightarrow> None)"

subsection \<open>Writing\<close>





subsection \<open>Rotation\<close>

definition shouldRotate :: "int \<Rightarrow> file_adapter \<Rightarrow> bool" where
  "shouldRotate additional f = (if fa_maxSize f \<le> 0 then False else wrap_s64 (fa_currentSize f + additional) > fa_maxSize f)"

definition backupName :: "(int \<Rightarrow> string) \<Rightarrow> int \<Rightarrow> file_adapter \<Rightarrow> string" where
  "backupName stamp now f = backup_from (fa_fs f) (fa_path f @ ''.'' @ stamp now) 0"

definition swapFile :: "(int \<Rightarrow> string) \<Rightarrow> sys_env \<Rightarrow> file_adapter \<Rightarrow> file_adapter \<times> string option" where
  "swapFile stamp ev f =
     (let f = f\<lparr>fa_currentFile := False\<rparr>; backup = backupName stamp (ev_now ev) f in
      case (if ev_rename ev then map_of (fa_fs f) (fa_path f) else None) of
        None \<Rightarrow> (fst (openFile ev f), None)
      | Some c \<Rightarrow>
          let f = f\<lparr>fa_fs := AList.update backup c (AList.delete (fa_path f) (fa_fs f))\<rparr>
          in case openFile ev f of (f, False) \<Rightarrow> (f, None) | (f, True) \<Rightarrow> (f, Some backup))"

definition rotateLocked :: "(int \<Rightarrow> string) \<Rightarrow> sys_env \<Rightarrow> file_adapter \<Rightarrow> file_adapter \<times> bool" where
  "rotateLocked stamp ev f =
     (let f = f\<lparr>fa_metrics := (fa_metrics f)\<lparr>fm_RotationsTotal := fm_RotationsTotal (fa_metrics f) + 1\<rparr>\<rparr> in
      case swapFile stamp ev f of
        (f, None) \<Rightarrow> (f, False)
      | (f, Some backup) \<Rightarrow> (f\<lparr>fa_compressor := fa_compressor f @ [backup]\<rparr>, True))"

subsection \<open>The writer goroutine\<close>

definition rotationRetryDelay :: int where
  "rotationRetryDelay = 1000000000"

text \<open>Writing to a file that is not open is an error, as the method of a nil file is.\<close>

definition write_file :: "sys_env \<Rightarrow> bytes \<Rightarrow> file_adapter \<Rightarrow> file_adapter \<times> nat \<times> bool" where
  "write_file ev chunk f =
     (if \<not> fa_currentFile f then (f, 0, False)
      else case map_of (fa_fs f) (fa_path f) of
          None \<Rightarrow> (f, 0, False)
        | Some (c, t) \<Rightarrow>
            let n = (case ev_write ev of None \<Rightarrow> length chunk | Some n \<Rightarrow> min n (length chunk))
            in (f\<lparr>fa_fs := AList.update (fa_path f) (c @ take n chunk, ev_now ev) (fa_fs f)\<rparr>, n, ev_write ev = None))"

definition writeChunk :: "(int \<Rightarrow> string) \<Rightarrow> sys_env \<Rightarrow> bytes \<Rightarrow> int \<Rightarrow> file_adapter \<Rightarrow> file_adapter" where
  "writeChunk stamp ev chunk lines f =
     (case cb_Allow (ev_now ev) (fa_cb f) of
        (cb, False) \<Rightarrow>
          f\<lparr>fa_cb := cb, fa_metrics := (fa_metrics f)\<lparr>fm_CircuitBreaks := fm_CircuitBreaks (fa_metrics f) + 1,
                                                    fm_WriteErrors := fm_WriteErrors (fa_metrics f) + lines\<rparr>\<rparr>
      | (cb, True) \<Rightarrow>
          let f = f\<lparr>fa_cb := cb\<rparr>;
              f = (if shouldRotate (int (length chunk)) f \<and> \<not> ev_now ev < fa_nextRotation f then
                     (case rotateLocked stamp ev f of
                        (f, True) \<Rightarrow> f
                      | (f, False) \<Rightarrow> f\<lparr>fa_nextRotation := ev_now ev + rotationRetryDelay\<rparr>)
                   else f);
              (f, n, ok) = write_file ev chunk f
          in if \<not> ok then
               f\<lparr>fa_cb := RecordFailure (ev_now ev) (fa_cb f),
                 fa_metrics := (fa_metrics f)\<lparr>fm_WriteErrors := fm_WriteErrors (fa_metrics f) + lines\<rparr>\<rparr>
             else f\<lparr>fa_cb := RecordSuccess (fa_cb f), fa_currentSize := fa_currentSize f + int n,
                    fa_metrics := (fa_metrics f)\<lparr>fm_FlushesTotal := fm_FlushesTotal (fa_metrics f) + 1\<rparr>\<rparr>)"

definition drain :: "(int \<Rightarrow> string) \<Rightarrow> sys_env \<Rightarrow> file_adapter \<Rightarrow> file_adapter" where
  "drain stamp ev f =
     (case lq_Take (fa_queue f) of (q, (chunk, lines)) \<Rightarrow>
        if lines = 0 then f\<lparr>fa_queue := q\<rparr>
        else let f = writeChunk stamp ev (sl_bytes (fa_heap f) chunk) lines (f\<lparr>fa_queue := q\<rparr>);
                 f = f\<lparr>fa_queue := lq_Done (fa_heap f) chunk lines (fa_queue f)\<rparr>
             in f\<lparr>fa_metrics := (fa_metrics f)\<lparr>fm_QueueDepth := fm_QueueDepth (fa_metrics f) - lines\<rparr>\<rparr>)"

subsection \<open>Compression and retention\<close>

definition is_backup :: "string \<Rightarrow> string \<Rightarrow> bool" where
  "is_backup base name = (prefix (base @ ''.'') name \<and> name \<noteq> base)"

definition old_file :: "int \<Rightarrow> file_adapter \<Rightarrow> stored \<Rightarrow> bool" where
  "old_file now f c = (fa_maxAge f > 0 \<and> snd c < now - fa_maxAge f * (24 * 3600 * 1000000000))"

text \<open>The order among files with the same time is the sort's choice; the model keeps the directory's order.\<close>

definition cleanupOldBackups :: "int \<Rightarrow> file_adapter \<Rightarrow> file_adapter" where
  "cleanupOldBackups now f =
     (let files = filter (\<lambda>(name, c). is_backup (fa_path f) name) (fa_fs f);
          expired = map fst (filter (\<lambda>(name, c). old_file now f c) files);
          backups = sort_key (\<lambda>(name, c). snd c) (filter (\<lambda>(name, c). \<not> old_file now f c) files);
          excess = (if fa_maxBackups f > 0 \<and> int (length backups) > fa_maxBackups f
                    then map fst (take (nat (int (length backups) - fa_maxBackups f)) backups) else [])
      in f\<lparr>fa_fs := filter (\<lambda>(name, c). name \<notin> set expired \<and> name \<notin> set excess) (fa_fs f)\<rparr>)"

definition rotateAsync :: "(bytes \<Rightarrow> bytes) \<Rightarrow> int \<Rightarrow> string \<Rightarrow> file_adapter \<Rightarrow> file_adapter" where
  "rotateAsync gzip now backup f =
     (let f = (if fa_compress f then
                 (case map_of (fa_fs f) backup of
                    None \<Rightarrow> f
                  | Some (c, t) \<Rightarrow> f\<lparr>fa_fs := AList.delete backup (AList.update (backup @ ''.gz'') (gzip c, now) (fa_fs f))\<rparr>)
               else f)
      in cleanupOldBackups now f)"

fun compress_all :: "(bytes \<Rightarrow> bytes) \<Rightarrow> int \<Rightarrow> string list \<Rightarrow> file_adapter \<Rightarrow> file_adapter" where
  "compress_all gzip now [] f = f\<lparr>fa_compressor := []\<rparr>"
| "compress_all gzip now (b # bs) f = compress_all gzip now bs (rotateAsync gzip now b f)"


definition file_Close :: "(bytes \<Rightarrow> bytes) \<Rightarrow> (int \<Rightarrow> string) \<Rightarrow> sys_env \<Rightarrow> file_adapter \<Rightarrow> file_adapter" where
  "file_Close gzip stamp ev f =
     (if fa_closed f then f
      else let f = f\<lparr>fa_closed := True, fa_queue := lq_Close (fa_queue f)\<rparr>;
               f = drain stamp ev f;
               f = compress_all gzip (ev_now ev) (fa_compressor f) f
           in f\<lparr>fa_currentFile := False\<rparr>)"

definition file_Health :: "file_adapter \<Rightarrow> bool" where
  "file_Health f = (\<not> fa_closed f \<and> fa_currentFile f)"

section \<open>Rotation keeps the text\<close>

definition content :: "files \<Rightarrow> string \<Rightarrow> bytes" where
  "content fs name = (case map_of fs name of Some (c, t) \<Rightarrow> c | None \<Rightarrow> [])"

text \<open>The text of the log: the rotated files that wait for compression, in order, and the live file.\<close>

definition log_text :: "file_adapter \<Rightarrow> bytes" where
  "log_text f = concat (map (content (fa_fs f)) (fa_compressor f)) @ content (fa_fs f) (fa_path f)"

text \<open>The part of the state the writer goroutine works on.\<close>

definition writer_ok :: "file_adapter \<Rightarrow> bool" where
  "writer_ok f \<longleftrightarrow> fa_currentFile f \<and> pathExists (fa_fs f) (fa_path f)
     \<and> fa_currentSize f = int (length (content (fa_fs f) (fa_path f)))
     \<and> distinct (fa_compressor f) \<and> (\<forall>b \<in> set (fa_compressor f). pathExists (fa_fs f) b \<and> b \<noteq> fa_path f)
     \<and> cb_state (fa_cb f) = 0"

lemma map_of_update_simps [simp]:
  "map_of (AList.update k v fs) = (map_of fs)(k \<mapsto> v)" "map_of (AList.delete k fs) = (map_of fs)(k := None)"
  by (simp_all add: AList.update_conv' AList.delete_conv')

lemma content_simps [simp]:
  "content (AList.update k (c, t) fs) n = (if n = k then c else content fs n)"
  "content (AList.delete k fs) n = (if n = k then [] else content fs n)"
  "pathExists (AList.update k v fs) n = (n = k \<or> pathExists fs n)"
  "pathExists (AList.delete k fs) n = (n \<noteq> k \<and> pathExists fs n)"
  by (auto simp: content_def pathExists_def)

lemma backup_from_spec:
  "\<not> name_taken fs (backup_from fs base i) \<and> (\<exists>j\<ge>i. backup_from fs base i = backup_candidate base j)"
proof (induction fs base i rule: backup_from.induct)
  case (1 fs base i)
  show ?case
  proof (cases "name_taken fs (backup_candidate base i)")
    case True
    with 1 obtain j where "\<not> name_taken fs (backup_from fs base (Suc i))" "j \<ge> Suc i"
      "backup_from fs base (Suc i) = backup_candidate base j" by auto
    with True show ?thesis by (subst (1 2) backup_from.simps) (auto intro: exI [of _ j])
  next
    case False
    then show ?thesis by (subst (1 2) backup_from.simps) auto
  qed
qed

lemma backup_candidate_longer: "length base \<le> length (backup_candidate base j)"
  by (simp add: backup_candidate_def)

lemma backupName_fresh:
  "\<not> pathExists (fa_fs f) (backupName stamp now f)" "backupName stamp now f \<noteq> fa_path f"
proof -
  let ?base = "fa_path f @ ''.'' @ stamp now"
  from backup_from_spec [of "fa_fs f" ?base 0] show "\<not> pathExists (fa_fs f) (backupName stamp now f)"
    by (auto simp: backupName_def name_taken_def)
  from backup_from_spec [of "fa_fs f" ?base 0] obtain j where "backupName stamp now f = backup_candidate ?base j"
    by (auto simp: backupName_def)
  with backup_candidate_longer [of ?base j] have "length (fa_path f) < length (backupName stamp now f)" by simp
  then show "backupName stamp now f \<noteq> fa_path f" by auto
qed

lemma map_content_update:
  "b \<notin> set names \<Longrightarrow> map (content (AList.update b (c, t) fs)) names = map (content fs) names"
  "b \<notin> set names \<Longrightarrow> map (content (AList.delete b fs)) names = map (content fs) names"
  by auto

text \<open>What a rotation does not touch.\<close>

definition same_front :: "file_adapter \<Rightarrow> file_adapter \<Rightarrow> bool" where
  "same_front f g \<longleftrightarrow> fa_queue g = fa_queue f \<and> fa_heap g = fa_heap f \<and> fa_closed g = fa_closed f \<and> fa_rl g = fa_rl f
     \<and> fa_path g = fa_path f \<and> fa_maxSize g = fa_maxSize f \<and> fa_cb g = fa_cb f \<and> fa_writeTimeout g = fa_writeTimeout f"

lemma rotateLocked_ok:
  assumes "writer_ok f" and "ev_open ev" and "rotateLocked stamp ev f = (g, b)"
  shows "writer_ok g" and "log_text g = log_text f" and "same_front f g"
    and "b \<longleftrightarrow> ev_rename ev" and "b \<Longrightarrow> content (fa_fs g) (fa_path g) = []"
proof -
  let ?p = "fa_path f" and ?fs = "fa_fs f"
  let ?m = "(fa_metrics f)\<lparr>fm_RotationsTotal := fm_RotationsTotal (fa_metrics f) + 1\<rparr>"
  let ?f = "f\<lparr>fa_metrics := ?m, fa_currentFile := False\<rparr>"
  let ?bk = "backupName stamp (ev_now ev) ?f"
  from assms(1) obtain c t where c: "map_of ?fs ?p = Some (c, t)" by (auto simp: writer_ok_def pathExists_def)
  have fresh: "\<not> pathExists ?fs ?bk" "?bk \<noteq> ?p" using backupName_fresh [where f = ?f and stamp = stamp and now = "ev_now ev"] by simp_all
  have "(writer_ok g \<and> log_text g = log_text f \<and> same_front f g \<and> (b \<longleftrightarrow> ev_rename ev))
      \<and> (b \<longrightarrow> content (fa_fs g) (fa_path g) = [])"
  proof (cases "ev_rename ev")
    case True
    let ?fs1 = "AList.update ?bk (c, t) (AList.delete ?p ?fs)"
    let ?fs2 = "AList.update ?p ([], ev_now ev) ?fs1"
    have g: "g = f\<lparr>fa_metrics := ?m, fa_fs := ?fs2, fa_currentFile := True, fa_currentSize := 0,
        fa_compressor := fa_compressor f @ [?bk]\<rparr>" and b: "b"
      using assms(2,3) True c fresh by (auto simp: rotateLocked_def swapFile_def openFile_def Let_def)
    have nb: "?bk \<notin> set (fa_compressor f)" "?p \<notin> set (fa_compressor f)" using assms(1) fresh by (auto simp: writer_ok_def)
    have "writer_ok g" using assms(1) nb fresh by (auto simp: writer_ok_def g)
    moreover have "content ?fs2 ?bk = c" "content ?fs ?p = c" using fresh c by (simp_all add: content_def)
    then have "log_text g = log_text f"
      using fresh by (simp add: log_text_def g map_content_update [OF nb(1)] map_content_update [OF nb(2)])
    ultimately show ?thesis using b True by (simp add: same_front_def g)
  next
    case False
    have g: "g = f\<lparr>fa_metrics := ?m, fa_currentFile := True, fa_currentSize := int (length c)\<rparr>" and b: "\<not> b"
      using assms(2,3) False c by (auto simp: rotateLocked_def swapFile_def openFile_def Let_def)
    have "writer_ok g" using assms(1) c by (simp add: writer_ok_def g content_def)
    with b False show ?thesis by (simp add: log_text_def same_front_def g)
  qed
  then show "writer_ok g" "log_text g = log_text f" "same_front f g" "b \<longleftrightarrow> ev_rename ev"
    "b \<Longrightarrow> content (fa_fs g) (fa_path g) = []" by blast+
qed

lemma write_file_ok:
  assumes "writer_ok f" and "ev_write ev = None"
  shows "\<exists>g. write_file ev chunk f = (g, length chunk, True) \<and> log_text g = log_text f @ chunk \<and> same_front f g
     \<and> writer_ok (g\<lparr>fa_currentSize := fa_currentSize g + int (length chunk)\<rparr>)
     \<and> content (fa_fs g) (fa_path g) = content (fa_fs f) (fa_path f) @ chunk"
proof -
  from assms(1) obtain c t where c: "map_of (fa_fs f) (fa_path f) = Some (c, t)" by (auto simp: writer_ok_def pathExists_def)
  let ?g = "f\<lparr>fa_fs := AList.update (fa_path f) (c @ chunk, ev_now ev) (fa_fs f)\<rparr>"
  have w: "write_file ev chunk f = (?g, length chunk, True)" using assms c by (simp add: write_file_def writer_ok_def Let_def)
  have cf: "content (fa_fs f) (fa_path f) = c" using c by (simp add: content_def)
  have n: "fa_path f \<notin> set (fa_compressor f)" using assms(1) by (auto simp: writer_ok_def)
  have "log_text ?g = log_text f @ chunk" by (simp add: log_text_def map_content_update [OF n] cf)
  moreover have "writer_ok (?g\<lparr>fa_currentSize := fa_currentSize ?g + int (length chunk)\<rparr>)"
    using assms(1) cf by (auto simp: writer_ok_def)
  ultimately show ?thesis using w cf by (intro exI [of _ ?g]) (simp add: same_front_def)
qed

lemma RecordSuccess_closed: "cb_state cb = 0 \<Longrightarrow> cb_state (RecordSuccess cb) = 0"
  by (simp add: RecordSuccess_def Let_def)

lemma writeChunk_ok:
  assumes "writer_ok f" and "ev_open ev" and "ev_write ev = None"
  shows "writer_ok (writeChunk stamp ev chunk lines f)" and "log_text (writeChunk stamp ev chunk lines f) = log_text f @ chunk"
    and "fa_queue (writeChunk stamp ev chunk lines f) = fa_queue f" and "fa_heap (writeChunk stamp ev chunk lines f) = fa_heap f"
    and "fa_closed (writeChunk stamp ev chunk lines f) = fa_closed f"
    and "ev_rename ev \<Longrightarrow> fa_nextRotation f \<le> ev_now ev \<Longrightarrow> fa_maxSize f > 0 \<Longrightarrow>
      fa_currentSize f + int (length chunk) < 2 ^ 63 \<Longrightarrow>
      let c = content (fa_fs (writeChunk stamp ev chunk lines f)) (fa_path f) in int (length c) \<le> fa_maxSize f \<or> c = chunk"
proof -
  let ?rot = "shouldRotate (int (length chunk)) f \<and> \<not> ev_now ev < fa_nextRotation f"
  obtain g b where r: "rotateLocked stamp ev f = (g, b)" by fastforce
  note rot = rotateLocked_ok [OF assms(1,2) r]
  let ?g = "if ?rot then (if b then g else g\<lparr>fa_nextRotation := ev_now ev + rotationRetryDelay\<rparr>) else f"
  have g: "writer_ok ?g" "log_text ?g = log_text f" "same_front f ?g"
    using rot(1-3) assms(1) by (auto simp: writer_ok_def log_text_def same_front_def)
  from write_file_ok [OF g(1) assms(3), of chunk] obtain h where h: "write_file ev chunk ?g = (h, length chunk, True)"
    "log_text h = log_text ?g @ chunk" "same_front ?g h" "writer_ok (h\<lparr>fa_currentSize := fa_currentSize h + int (length chunk)\<rparr>)"
    "content (fa_fs h) (fa_path h) = content (fa_fs ?g) (fa_path ?g) @ chunk" by blast
  have allow: "cb_Allow (ev_now ev) (fa_cb f) = (fa_cb f, True)" using assms(1) by (simp add: writer_ok_def cb_Allow_def)
  have same: "f\<lparr>fa_cb := fa_cb f\<rparr> = f" by simp
  let ?w = "writeChunk stamp ev chunk lines f"
  have gg: "(if ?rot then (case rotateLocked stamp ev f of (f, True) \<Rightarrow> f
      | (f, False) \<Rightarrow> f\<lparr>fa_nextRotation := ev_now ev + rotationRetryDelay\<rparr>) else f) = ?g" by (simp add: r)
  have w: "?w = h\<lparr>fa_cb := RecordSuccess (fa_cb h), fa_currentSize := fa_currentSize h + int (length chunk),
      fa_metrics := (fa_metrics h)\<lparr>fm_FlushesTotal := fm_FlushesTotal (fa_metrics h) + 1\<rparr>\<rparr>"
    unfolding writeChunk_def allow prod.case bool.case Let_def same gg h(1) by simp
  show "writer_ok ?w" using h(4) by (simp add: w writer_ok_def RecordSuccess_closed)
  show "log_text ?w = log_text f @ chunk" using h(2) g(2) by (simp add: w log_text_def)
  show "fa_queue ?w = fa_queue f" "fa_heap ?w = fa_heap f" "fa_closed ?w = fa_closed f"
    using h(3) g(3) by (simp_all add: w same_front_def)
  assume a: "ev_rename ev" "fa_nextRotation f \<le> ev_now ev" "fa_maxSize f > 0" "fa_currentSize f + int (length chunk) < 2 ^ 63"
  have c: "content (fa_fs ?w) (fa_path f) = content (fa_fs ?g) (fa_path f) @ chunk"
    using h(3,5) g(3) by (simp add: w same_front_def)
  have s: "fa_currentSize f = int (length (content (fa_fs f) (fa_path f)))" using assms(1) by (simp add: writer_ok_def)
  with a(4) have "wrap_s64 (fa_currentSize f + int (length chunk)) = fa_currentSize f + int (length chunk)"
    by (simp add: is_s64_def)
  with a(1-3) rot(3,4,5) s show "let c = content (fa_fs ?w) (fa_path f) in int (length c) \<le> fa_maxSize f \<or> c = chunk"
    unfolding c Let_def by (auto simp: shouldRotate_def same_front_def split: if_splits)
qed

section \<open>Runs of the sink\<close>







text \<open>The queue between the runs of the writer: nothing in flight.\<close>

definition queue_ok :: "file_adapter \<Rightarrow> bool" where
  "queue_ok f \<longleftrightarrow> buffers_ok (fa_heap f) (lq_buf (fa_queue f)) (lq_spare (fa_queue f)) SNil
     \<and> (lq_queued (fa_queue f) = 0 \<longrightarrow> sl_bytes (fa_heap f) (lq_buf (fa_queue f)) = []) \<and> 0 \<le> lq_queued (fa_queue f)"

definition buffered :: "file_adapter \<Rightarrow> bytes" where
  "buffered f = sl_bytes (fa_heap f) (lq_buf (fa_queue f))"





lemma NewFileAdapter_ok:
  assumes "NewFileAdapter ev fs path config = Some f"
  shows "writer_ok f" "queue_ok f" "log_text f = content fs path" "buffered f = []" "fa_path f = path"
proof -
  have e: "ev_open ev"
    using assms by (rule contrapos_pp) (simp add: NewFileAdapter_def openFile_def newLineQueue_def alloc_def Let_def)
  show "writer_ok f" "queue_ok f" "log_text f = content fs path" "buffered f = []" "fa_path f = path"
    using assms e
    by (auto simp: NewFileAdapter_def openFile_def newLineQueue_def alloc_def Let_def writer_ok_def queue_ok_def log_text_def
        buffered_def buffers_ok_def content_def pathExists_def newCircuitBreaker_def split: option.splits)
qed

section \<open>Retention\<close>

lemma sort_key_split:
  assumes "x \<in> set (take m (sort_key k xs))" and "y \<in> set (drop m (sort_key k xs))"
  shows "k x \<le> k y"
proof -
  have "sorted (map k (take m (sort_key k xs)) @ map k (drop m (sort_key k xs)))"
    by (simp flip: map_append)
  with assms show ?thesis by (auto simp: sorted_append)
qed

text \<open>The entries a cleanup looks at, and those it finds in excess.\<close>

definition fresh_backups :: "int \<Rightarrow> file_adapter \<Rightarrow> files" where
  "fresh_backups now f =
     sort_key (\<lambda>(name, c). snd c) (filter (\<lambda>(name, c). is_backup (fa_path f) name \<and> \<not> old_file now f c) (fa_fs f))"

definition excess_count :: "int \<Rightarrow> file_adapter \<Rightarrow> nat" where
  "excess_count now f = (if fa_maxBackups f > 0 then nat (int (length (fresh_backups now f)) - fa_maxBackups f) else 0)"

lemma key_image:
  assumes "distinct (map fst fs)" and "(name, c) \<in> set fs" and "A \<subseteq> set fs"
  shows "name \<in> fst ` A \<longleftrightarrow> (name, c) \<in> A"
proof
  assume "name \<in> fst ` A"
  then obtain d where d: "(name, d) \<in> A" by auto
  with assms(3) have "(name, d) \<in> set fs" by auto
  with assms(1,2) have "d = c" by (metis eq_key_imp_eq_value)
  with d show "(name, c) \<in> A" by simp
qed force

lemma cleanup_fs:
  assumes "distinct (map fst (fa_fs f))"
  shows "(name, c) \<in> set (fa_fs (cleanupOldBackups now f)) \<longleftrightarrow> (name, c) \<in> set (fa_fs f)
     \<and> (is_backup (fa_path f) name \<longrightarrow> (name, c) \<in> set (drop (excess_count now f) (fresh_backups now f)))"
proof -
  let ?b = "fresh_backups now f" and ?m = "excess_count now f"
  have b: "sort_key (\<lambda>(name, c). snd c) (filter (\<lambda>(name, c). \<not> old_file now f c)
      (filter (\<lambda>(name, c). is_backup (fa_path f) name) (fa_fs f))) = ?b"
    unfolding fresh_backups_def filter_filter by (intro arg_cong [where f = "sort_key _"] filter_cong) auto
  have ex: "(if fa_maxBackups f > 0 \<and> int (length ?b) > fa_maxBackups f
      then map fst (take (nat (int (length ?b) - fa_maxBackups f)) ?b) else []) = map fst (take ?m ?b)"
    by (simp add: excess_count_def)
  have fs: "fa_fs (cleanupOldBackups now f) = filter (\<lambda>(name, c).
      name \<notin> fst ` {(name, c) \<in> set (fa_fs f). is_backup (fa_path f) name \<and> old_file now f c}
      \<and> name \<notin> fst ` set (take ?m ?b)) (fa_fs f)"
    unfolding cleanupOldBackups_def Let_def b ex
    by (simp add: case_prod_beta image_def conj_commute conj_left_commute cong: conj_cong)
  have setb: "set ?b = {(name, c) \<in> set (fa_fs f). is_backup (fa_path f) name \<and> \<not> old_file now f c}"
    by (auto simp: fresh_backups_def)
  have db: "distinct ?b" using assms by (simp add: fresh_backups_def distinct_map distinct_sort)
  have parts: "set ?b = set (take ?m ?b) \<union> set (drop ?m ?b)" by (metis append_take_drop_id set_append)
  have disj: "set (take ?m ?b) \<inter> set (drop ?m ?b) = {}" using db set_take_disj_set_drop_if_distinct by blast
  have sub: "set (take ?m ?b) \<subseteq> set (fa_fs f)" using parts setb by auto
  have "(name, c) \<in> set (fa_fs (cleanupOldBackups now f)) \<longleftrightarrow> (name, c) \<in> set (fa_fs f)
      \<and> \<not> (is_backup (fa_path f) name \<and> old_file now f c) \<and> (name, c) \<notin> set (take ?m ?b)"
  proof (cases "(name, c) \<in> set (fa_fs f)")
    case True
    let ?A = "{(name, c) \<in> set (fa_fs f). is_backup (fa_path f) name \<and> old_file now f c}"
    have "name \<in> fst ` ?A \<longleftrightarrow> (name, c) \<in> ?A" by (rule key_image [OF assms True]) auto
    moreover have "name \<in> fst ` set (take ?m ?b) \<longleftrightarrow> (name, c) \<in> set (take ?m ?b)" by (rule key_image [OF assms True sub])
    ultimately show ?thesis unfolding fs using True by simp
  next
    case False
    then show ?thesis unfolding fs by simp
  qed
  also have "\<dots> \<longleftrightarrow> (name, c) \<in> set (fa_fs f) \<and> (is_backup (fa_path f) name \<longrightarrow> (name, c) \<in> set (drop ?m ?b))"
    using parts disj setb by auto
  finally show ?thesis .
qed

section \<open>Properties\<close>


definition ok_env :: "int \<Rightarrow> sys_env" where
  "ok_env now = \<lparr>ev_now = now, ev_rename = True, ev_open = True, ev_write = None\<rparr>"


text \<open>
  The name of a rotated file is always found and never taken: the search through the numbered
  names ends for every directory, and the name it gives belongs to no file and to no compressed one,
  so that a rotation never overwrites a backup.
\<close>

theorem backup_name_fresh:
  "\<not> pathExists (fa_fs f) (backupName stamp now f) \<and> \<not> pathExists (fa_fs f) (backupName stamp now f @ ''.gz'')
   \<and> backupName stamp now f \<noteq> fa_path f \<and> prefix (fa_path f @ ''.'') (backupName stamp now f)"
proof -
  let ?base = "fa_path f @ ''.'' @ stamp now"
  from backup_from_spec [of "fa_fs f" ?base 0] obtain j where
    b: "\<not> name_taken (fa_fs f) (backupName stamp now f)" "backupName stamp now f = backup_candidate ?base j"
    by (auto simp: backupName_def)
  have "prefix (fa_path f @ ''.'') (backup_candidate ?base j)" by (simp add: backup_candidate_def prefix_def)
  with b backupName_fresh(2) [where f = f and stamp = stamp and now = now] show ?thesis by (simp add: name_taken_def)
qed

text \<open>
  C29: the size limit holds: a chunk that is written when rotation is enabled, no retry is pending and the
  rename succeeds leaves the live file within the limit, or holding that chunk alone.
\<close>

theorem rotation_bounds_file:
  assumes "writer_ok f" and "ev_open ev" and "ev_write ev = None" and "ev_rename ev" and "fa_nextRotation f \<le> ev_now ev"
    and "fa_maxSize f > 0" and "fa_currentSize f + int (length chunk) < 2 ^ 63"
  shows "int (length (content (fa_fs (writeChunk stamp ev chunk lines f)) (fa_path f))) \<le> fa_maxSize f
     \<or> content (fa_fs (writeChunk stamp ev chunk lines f)) (fa_path f) = chunk"
  using writeChunk_ok(6) [OF assms(1-3), where stamp = stamp and chunk = chunk and lines = lines] assms(4-7)
  by (simp add: Let_def)

theorem rotation_bounds_file_witness:
  "\<exists>f. NewFileAdapter (ok_env 0) [] ''app.log'' None = Some f
     \<and> (int (length (content (fa_fs (writeChunk itoa (ok_env 1) ''line'' 1 f)) (fa_path f))) \<le> fa_maxSize f
        \<or> content (fa_fs (writeChunk itoa (ok_env 1) ''line'' 1 f)) (fa_path f) = ''line'')"
proof -
  obtain f where f: "NewFileAdapter (ok_env 0) [] ''app.log'' None = Some f"
    by (simp add: NewFileAdapter_def openFile_def ok_env_def newLineQueue_def alloc_def Let_def)
  from f have "fa_nextRotation f = 0" "fa_maxSize f = 104857600" "fa_currentSize f = 0"
    by (auto simp: NewFileAdapter_def openFile_def ok_env_def newLineQueue_def alloc_def Let_def file_withDefaults_def
        DefaultRotationConfig_def)
  with f rotation_bounds_file [OF NewFileAdapter_ok(1) [OF f], of "ok_env 1" "''line''" itoa 1]
  show ?thesis by (auto simp: ok_env_def)
qed

text \<open>
  Retention keeps the newest backups and touches nothing else: a cleanup keeps every file that is not
  named like a backup, keeps at most the configured number of backups, and removes a backup only if it
  is past its age or no newer than every backup it keeps.
\<close>

theorem retention_keeps_newest:
  assumes "distinct (map fst (fa_fs f))" and "fa_maxBackups f > 0"
  shows "(\<forall>name c. \<not> is_backup (fa_path f) name \<longrightarrow>
        ((name, c) \<in> set (fa_fs (cleanupOldBackups now f)) \<longleftrightarrow> (name, c) \<in> set (fa_fs f)))
     \<and> int (card {x \<in> set (fa_fs (cleanupOldBackups now f)). is_backup (fa_path f) (fst x)}) \<le> fa_maxBackups f
     \<and> (\<forall>name c name' c'. (name, c) \<in> set (fa_fs f) \<and> (name, c) \<notin> set (fa_fs (cleanupOldBackups now f))
          \<and> (name', c') \<in> set (fa_fs (cleanupOldBackups now f)) \<and> is_backup (fa_path f) name'
          \<longrightarrow> old_file now f c \<or> snd c \<le> snd c')"
proof -
  let ?b = "fresh_backups now f" and ?m = "excess_count now f"
  note fs = cleanup_fs [OF assms(1), of _ _ now]
  have "{x \<in> set (fa_fs (cleanupOldBackups now f)). is_backup (fa_path f) (fst x)} \<subseteq> set (drop ?m ?b)" using fs by auto
  from card_mono [OF _ this] have "card {x \<in> set (fa_fs (cleanupOldBackups now f)). is_backup (fa_path f) (fst x)} \<le> length (drop ?m ?b)"
    using card_length [of "drop ?m ?b"] by simp
  then have "int (card {x \<in> set (fa_fs (cleanupOldBackups now f)). is_backup (fa_path f) (fst x)}) \<le> int (length (drop ?m ?b))"
    by (simp only: of_nat_le_iff)
  also have "\<dots> \<le> fa_maxBackups f" using assms(2) by (simp add: excess_count_def)
  finally have "int (card {x \<in> set (fa_fs (cleanupOldBackups now f)). is_backup (fa_path f) (fst x)}) \<le> fa_maxBackups f" .
  moreover have "old_file now f c \<or> snd c \<le> snd c'"
    if k: "(name, c) \<in> set (fa_fs f)" "(name, c) \<notin> set (fa_fs (cleanupOldBackups now f))"
      "(name', c') \<in> set (fa_fs (cleanupOldBackups now f))" "is_backup (fa_path f) name'" for name c name' c'
  proof (cases "old_file now f c")
    case False
    from k(1,2) fs have "is_backup (fa_path f) name" "(name, c) \<notin> set (drop ?m ?b)" by auto
    with False k(1) have "(name, c) \<in> set ?b" by (auto simp: fresh_backups_def)
    then have "(name, c) \<in> set (take ?m ?b)" using \<open>(name, c) \<notin> set (drop ?m ?b)\<close> by (metis UnE append_take_drop_id set_append)
    moreover have "(name', c') \<in> set (drop ?m ?b)" using k(3,4) fs by auto
    ultimately have "snd c \<le> snd c'"
      unfolding fresh_backups_def by (auto dest: sort_key_split)
    then show ?thesis ..
  qed simp
  moreover have "\<forall>name c. \<not> is_backup (fa_path f) name \<longrightarrow>
        ((name, c) \<in> set (fa_fs (cleanupOldBackups now f)) \<longleftrightarrow> (name, c) \<in> set (fa_fs f))" using fs by auto
  ultimately show ?thesis by blast
qed

definition sample_log :: file_adapter where
  "sample_log = \<lparr>fa_path = ''app.log'', fa_maxSize = 0, fa_maxBackups = 1, fa_maxAge = 1, fa_compress = False, fa_writeTimeout = 1,
     fa_closed = False, fa_currentSize = 0, fa_currentFile = True, fa_queue = fst (newLineQueue 1 0 \<lparr>hp_array = (\<lambda>_. []), hp_next = 0\<rparr>),
     fa_heap = \<lparr>hp_array = (\<lambda>_. []), hp_next = 0\<rparr>, fa_nextRotation = 0, fa_compressor = [], fa_cb = newCircuitBreaker 1 1,
     fa_rl = newRateLimiter 0 0 False,
     fa_fs = [(''app.log'', ([], 90)), (''app.log.lock.lock'', (''7'', 1)), (''app.log.1'', (''a'', 2)), (''app.log.2'', (''b'', 3))],
     fa_metrics = zero_metrics, fa_stderr = []\<rparr>"

theorem retention_keeps_newest_witness:
  "int (card {x \<in> set (fa_fs (cleanupOldBackups 5 sample_log)). is_backup ''app.log'' (fst x)}) \<le> 1
   \<and> (''app.log'', ([], 90)) \<in> set (fa_fs (cleanupOldBackups 5 sample_log))"
  using retention_keeps_newest [of sample_log 5] by (simp add: sample_log_def is_backup_def)

text \<open>
  The lock file is taken for a backup: with cross-process locking the lock lives beside the log, under
  the log's name with a suffix, and once it is older than the maximal age a cleanup removes it, although
  the lock is still held.
\<close>

theorem lock_file_removed_as_backup:
  assumes "distinct (map fst (fa_fs f))" and "fa_maxAge f > 0"
    and "(fa_path f @ ''.lock.lock'', (pid, t)) \<in> set (fa_fs f)" and "t < now - fa_maxAge f * (24 * 3600 * 1000000000)"
  shows "\<forall>c. (fa_path f @ ''.lock.lock'', c) \<notin> set (fa_fs (cleanupOldBackups now f))"
proof -
  have "is_backup (fa_path f) (fa_path f @ ''.lock.lock'')" by (simp add: is_backup_def)
  moreover have "c = (pid, t)" if "(fa_path f @ ''.lock.lock'', c) \<in> set (fa_fs f)" for c
    using assms(1,3) that by (metis eq_key_imp_eq_value)
  moreover have "old_file now f (pid, t)" using assms(2,4) by (simp add: old_file_def)
  ultimately show ?thesis
    using cleanup_fs [OF assms(1), of "fa_path f @ ''.lock.lock''" _ now] by (auto simp: fresh_backups_def dest!: in_set_dropD)
qed

theorem lock_file_removed_as_backup_witness:
  "\<forall>c. (''app.log.lock.lock'', c) \<notin> set (fa_fs (cleanupOldBackups 86400000000002 sample_log))"
  using lock_file_removed_as_backup [of sample_log "''7''" 1 86400000000002] by (simp add: sample_log_def)

end
