(* ===== verification/Sampling.thy ===== *)
theory Sampling
  imports Halo_Prelude Complex_Main
begin

text \<open>
  The samplers: \<^verbatim>\<open>sampling/sampling.go\<close> (by count, by time window, by level),
  \<^verbatim>\<open>sampling/backpressure.go\<close> (by the occupancy of an asynchronous sink) and
  \<^verbatim>\<open>sampling/adaptive.go\<close> (by throughput). Levels are their numbers, times unix nanoseconds given by
  the caller. Rates are reals: the rounding of floating-point arithmetic is not modelled. The
  counters are unsigned 64-bit and wrap.
\<close>

section \<open>Sampling by count, time and level\<close>

datatype sampling_strategy = SampleByCount | SampleByTime | SampleByLevel | UnknownStrategy

record sampling_config =
  sc_Strategy :: sampling_strategy
  sc_SamplingDenominator :: int
  sc_TimeWindow :: int
  sc_MaxPerWindow :: int
  sc_LevelSampling :: "nat \<Rightarrow> int option"

record sampling_manager =
  sm_config :: sampling_config
  sm_counter :: int
  sm_windowStart :: int
  sm_windowCount :: int
  sm_levelCounters :: "nat \<Rightarrow> int option"
  sm_levelStatsCounters :: "nat \<Rightarrow> int option"

definition NewSamplingManager :: "int \<Rightarrow> sampling_config \<Rightarrow> sampling_manager" where
  "NewSamplingManager now c =
     (let c = (if sc_SamplingDenominator c \<le> 0 then c\<lparr>sc_SamplingDenominator := 10\<rparr> else c);
          c = (if sc_TimeWindow c \<le> 0 then c\<lparr>sc_TimeWindow := 1000000000\<rparr> else c);
          c = (if sc_MaxPerWindow c \<le> 0 then c\<lparr>sc_MaxPerWindow := 100\<rparr> else c);
          counters = (if sc_Strategy c = SampleByLevel then (\<lambda>l. if l \<le> PanicLevel then Some 0 else None) else (\<lambda>_. None))
      in \<lparr>sm_config = c, sm_counter = 0, sm_windowStart = now, sm_windowCount = 0,
          sm_levelCounters = counters, sm_levelStatsCounters = counters\<rparr>)"

lemma NewSamplingManager_fields:
  "sm_counter (NewSamplingManager now c) = 0"
  "sm_windowStart (NewSamplingManager now c) = now"
  "sm_windowCount (NewSamplingManager now c) = 0"
  "sc_Strategy (sm_config (NewSamplingManager now c)) = sc_Strategy c"
  "sc_SamplingDenominator (sm_config (NewSamplingManager now c)) =
     (if sc_SamplingDenominator c \<le> 0 then 10 else sc_SamplingDenominator c)"
  "sc_TimeWindow (sm_config (NewSamplingManager now c)) = (if sc_TimeWindow c \<le> 0 then 1000000000 else sc_TimeWindow c)"
  "sc_MaxPerWindow (sm_config (NewSamplingManager now c)) = (if sc_MaxPerWindow c \<le> 0 then 100 else sc_MaxPerWindow c)"
  unfolding NewSamplingManager_def Let_def
  by (simp_all only: sampling_manager.simps) (cases "sc_SamplingDenominator c \<le> 0"; cases "sc_TimeWindow c \<le> 0";
    cases "sc_MaxPerWindow c \<le> 0"; simp)+

definition shouldSampleByCount :: "nat \<Rightarrow> sampling_manager \<Rightarrow> sampling_manager \<times> bool" where
  "shouldSampleByCount level s =
     (if level \<ge> ErrorLevel then (s, True)
      else let cnt = wrap_u64 (sm_counter s + 1); s = s\<lparr>sm_counter := cnt\<rparr>;
               denom = wrap_u64 (sc_SamplingDenominator (sm_config s))
        in if denom = 1 then (s, True) else (s, cnt mod denom = 0))"

definition shouldSampleByTime :: "int \<Rightarrow> nat \<Rightarrow> sampling_manager \<Rightarrow> sampling_manager \<times> bool" where
  "shouldSampleByTime now level s =
     (if level \<ge> ErrorLevel then (s, True)
      else let s = (if now - sm_windowStart s \<ge> sc_TimeWindow (sm_config s)
                    then s\<lparr>sm_windowStart := now, sm_windowCount := 0\<rparr> else s)
        in if sm_windowCount s \<ge> sc_MaxPerWindow (sm_config s) then (s, False)
           else (s\<lparr>sm_windowCount := sm_windowCount s + 1\<rparr>, True))"

definition shouldSampleByLevel :: "nat \<Rightarrow> sampling_manager \<Rightarrow> sampling_manager \<times> bool" where
  "shouldSampleByLevel level s =
     (if level \<ge> ErrorLevel then (s, True)
      else case sm_levelCounters s level of
          None \<Rightarrow> (s, True)
        | Some n \<Rightarrow>
            let cnt = wrap_u64 (n + 1); s = s\<lparr>sm_levelCounters := (sm_levelCounters s)(level \<mapsto> cnt)\<rparr>;
                d = (case sc_LevelSampling (sm_config s) level of
                       Some d \<Rightarrow> if d \<le> 0 then sc_SamplingDenominator (sm_config s) else d
                     | None \<Rightarrow> sc_SamplingDenominator (sm_config s));
                denom = wrap_u64 d
            in if denom = 1 then (s, True) else (s, cnt mod denom = 0))"

definition shouldSample :: "int \<Rightarrow> nat \<Rightarrow> sampling_manager \<Rightarrow> sampling_manager \<times> bool" where
  "shouldSample now level s =
     (case sc_Strategy (sm_config s) of
        SampleByCount \<Rightarrow> shouldSampleByCount level s
      | SampleByTime \<Rightarrow> shouldSampleByTime now level s
      | SampleByLevel \<Rightarrow> shouldSampleByLevel level s
      | UnknownStrategy \<Rightarrow> (s, True))"

definition ShouldSample :: "int \<Rightarrow> nat \<Rightarrow> sampling_manager \<Rightarrow> sampling_manager \<times> bool" where
  "ShouldSample now level s =
     (let s = (case sm_levelStatsCounters s level of
          Some n \<Rightarrow> s\<lparr>sm_levelStatsCounters := (sm_levelStatsCounters s)(level \<mapsto> wrap_u64 (n + 1))\<rparr>
        | None \<Rightarrow> s)
      in shouldSample now level s)"

text \<open>The statistics of the strategy in use; an unknown strategy reports nothing.\<close>

datatype sampling_stats =
    CountStats int int int
  | TimeStats int int int
  | LevelStats "nat \<Rightarrow> int option"
  | NoStats

definition GetSamplingStats :: "sampling_manager \<Rightarrow> sampling_stats" where
  "GetSamplingStats s =
     (case sc_Strategy (sm_config s) of
        SampleByCount \<Rightarrow>
          let denom = sc_SamplingDenominator (sm_config s); n = sm_counter s
          in CountStats denom n (if denom > 0 then n div wrap_u64 denom else n)
      | SampleByTime \<Rightarrow>
          TimeStats (sc_TimeWindow (sm_config s)) (sc_MaxPerWindow (sm_config s)) (sm_windowCount s)
      | SampleByLevel \<Rightarrow> LevelStats (sm_levelStatsCounters s)
      | UnknownStrategy \<Rightarrow> NoStats)"

text \<open>
  The rate read and set through \<^verbatim>\<open>GetRate\<close> and \<^verbatim>\<open>SetRate\<close>. The configured levels are given as a list of pairs,
  in any order.
\<close>

definition positive_denominators :: "sampling_config \<Rightarrow> nat list \<Rightarrow> int list" where
  "positive_denominators c levels = [d. l \<leftarrow> levels, d \<leftarrow> (case sc_LevelSampling c l of Some d \<Rightarrow> [d] | None \<Rightarrow> []), d > 0]"

definition sm_GetRate :: "nat list \<Rightarrow> sampling_manager \<Rightarrow> real" where
  "sm_GetRate levels s =
     (let c = sm_config s in
      case sc_Strategy c of
        SampleByCount \<Rightarrow> if sc_SamplingDenominator c \<le> 0 then 1 else 1 / real_of_int (sc_SamplingDenominator c)
      | SampleByTime \<Rightarrow> if sc_MaxPerWindow c \<le> 0 then 1 else real_of_int (sc_MaxPerWindow c) / 100
      | SampleByLevel \<Rightarrow>
          let ds = positive_denominators c levels in
          if ds = [] then 1 / real_of_int (sc_SamplingDenominator c)
          else sum_list (map (\<lambda>d. 1 / real_of_int d) ds) / real (length ds)
      | UnknownStrategy \<Rightarrow> 1)"

definition sm_SetRate :: "nat list \<Rightarrow> real \<Rightarrow> sampling_manager \<Rightarrow> sampling_manager" where
  "sm_SetRate levels rate s =
     (let rate = (if rate \<le> 0 then 1 / 100 else if rate > 1 then 1 else rate); c = sm_config s in
      case sc_Strategy c of
        SampleByCount \<Rightarrow> s\<lparr>sm_config := c\<lparr>sc_SamplingDenominator := max 1 \<lfloor>1 / rate\<rfloor>\<rparr>\<rparr>
      | SampleByTime \<Rightarrow> s\<lparr>sm_config := c\<lparr>sc_MaxPerWindow := max 1 \<lfloor>rate * 100\<rfloor>\<rparr>\<rparr>
      | SampleByLevel \<Rightarrow>
          let oldRate = sm_GetRate levels s in
          if oldRate > 0
          then s\<lparr>sm_config := c\<lparr>sc_LevelSampling := (\<lambda>l. map_option
                  (\<lambda>d. if d > 0 then max 1 \<lfloor>real_of_int d / (rate / oldRate)\<rfloor> else d) (sc_LevelSampling c l))\<rparr>\<rparr>
          else s
      | UnknownStrategy \<Rightarrow> s)"

lemma SetRate_GetRate_count:
  assumes "sc_Strategy (sm_config s) = SampleByCount" and "0 < rate" and "rate \<le> 1"
  shows "sm_GetRate levels (sm_SetRate levels rate s) \<ge> rate"
proof -
  have "1 \<le> 1 / rate" using assms(2,3) by simp
  then have d: "1 \<le> \<lfloor>1 / rate\<rfloor>" by (simp add: le_floor_iff)
  have "real_of_int \<lfloor>1 / rate\<rfloor> \<le> 1 / rate" by simp
  moreover have "0 < real_of_int \<lfloor>1 / rate\<rfloor>" using d by linarith
  ultimately have "rate \<le> 1 / real_of_int \<lfloor>1 / rate\<rfloor>" by (metis assms(2) pos_le_divide_eq mult.commute)
  with d assms show ?thesis by (simp add: sm_GetRate_def sm_SetRate_def Let_def max_def)
qed

text \<open>A run of decisions; each call has a time and a level.\<close>

fun sample_run :: "sampling_manager \<Rightarrow> (int \<times> nat) list \<Rightarrow> sampling_manager \<times> bool list" where
  "sample_run s [] = (s, [])"
| "sample_run s ((now, level) # calls) =
     (let (s, b) = ShouldSample now level s; (s, bs) = sample_run s calls in (s, b # bs))"

section \<open>Backpressure\<close>

definition backpressureFloorKeep :: nat where
  "backpressureFloorKeep = 16"

record backpressure_sampler =
  bp_lowWater :: real
  bp_highWater :: real
  bp_counter :: int

definition NewBackpressureSampler :: "real \<Rightarrow> real \<Rightarrow> backpressure_sampler" where
  "NewBackpressureSampler lowWater highWater =
     (if \<not> (lowWater > 0 \<and> lowWater < highWater \<and> highWater \<le> 1)
      then \<lparr>bp_lowWater = 1 / 2, bp_highWater = 9 / 10, bp_counter = 0\<rparr>
      else \<lparr>bp_lowWater = lowWater, bp_highWater = highWater, bp_counter = 0\<rparr>)"

text \<open>The level is \<open>None\<close> for a nil entry; \<open>occ\<close> is what the sink reports.\<close>

definition bp_ShouldSample :: "nat option \<Rightarrow> int \<times> int \<Rightarrow> backpressure_sampler \<Rightarrow> backpressure_sampler \<times> bool" where
  "bp_ShouldSample level occ s =
     (if (case level of Some l \<Rightarrow> l \<ge> ErrorLevel | None \<Rightarrow> False) then (s, True)
      else case occ of (used, capacity) \<Rightarrow>
        if capacity \<le> 0 \<or> used \<le> 0 then (s, True)
        else let fill = real_of_int used / real_of_int capacity in
          if fill \<le> bp_lowWater s then (s, True)
          else let cnt = wrap_u64 (bp_counter s + 1); s' = s\<lparr>bp_counter := cnt\<rparr> in
            if fill \<ge> bp_highWater s then (s', cnt mod 16 = 0)
            else let p = (bp_highWater s - fill) / (bp_highWater s - bp_lowWater s);
                     n = nat \<lfloor>1 / p + 1 / 2\<rfloor>;
                     n = (if n < 1 then 1 else n);
                     n = (if n > backpressureFloorKeep then backpressureFloorKeep else n)
                 in (s', cnt mod int n = 0))"

definition bp_GetRate :: "int \<times> int \<Rightarrow> backpressure_sampler \<Rightarrow> real" where
  "bp_GetRate occ s = (case occ of (used, capacity) \<Rightarrow>
     if capacity \<le> 0 then 1
     else let fill = real_of_int used / real_of_int capacity in
       if fill \<le> bp_lowWater s then 1
       else if fill \<ge> bp_highWater s then 1 / real backpressureFloorKeep
       else (bp_highWater s - fill) / (bp_highWater s - bp_lowWater s))"

section \<open>Adaptive sampling\<close>

record adaptive_config =
  ac_BaseRate :: real
  ac_ErrorBoost :: real
  ac_MinRate :: real
  ac_MaxRate :: real
  ac_TargetThroughput :: int
  ac_AdjustmentInterval :: int

record adaptive_sampler =
  as_config :: adaptive_config
  as_currentRate :: real
  as_windowStart :: int
  as_windowCount :: int
  as_lastAdjustment :: int
  as_recentRates :: "real list"
  as_rateIndex :: nat
  as_totalSampled :: int
  as_totalDropped :: int
  as_errorsSampled :: int
  as_errorsTotal :: int
  as_counter :: int

definition NewAdaptiveSampler :: "int \<Rightarrow> adaptive_config \<Rightarrow> adaptive_sampler" where
  "NewAdaptiveSampler now c =
     (let c = (if ac_BaseRate c \<le> 0 then c\<lparr>ac_BaseRate := 1 / 10\<rparr> else c);
          c = (if ac_MinRate c \<le> 0 then c\<lparr>ac_MinRate := 1 / 100\<rparr> else c);
          c = (if ac_MaxRate c \<le> 0 then c\<lparr>ac_MaxRate := 1\<rparr> else c);
          c = (if ac_ErrorBoost c \<le> 0 then c\<lparr>ac_ErrorBoost := 10\<rparr> else c);
          c = (if ac_TargetThroughput c \<le> 0 then c\<lparr>ac_TargetThroughput := 10000\<rparr> else c);
          c = (if ac_AdjustmentInterval c \<le> 0 then c\<lparr>ac_AdjustmentInterval := 1000000000\<rparr> else c)
      in \<lparr>as_config = c, as_currentRate = ac_BaseRate c, as_windowStart = now, as_windowCount = 0, as_lastAdjustment = now,
          as_recentRates = replicate 10 0, as_rateIndex = 0, as_totalSampled = 0, as_totalDropped = 0,
          as_errorsSampled = 0, as_errorsTotal = 0, as_counter = 0\<rparr>)"

definition new_rate :: "adaptive_config \<Rightarrow> real \<Rightarrow> real" where
  "new_rate c throughput =
     (let target = real_of_int (ac_TargetThroughput c);
          r = (if throughput \<le> 0 then ac_MaxRate c
               else if throughput > target then ac_BaseRate c * (target / throughput)
               else ac_BaseRate c + (ac_MaxRate c - ac_BaseRate c) * (1 - throughput / target));
          r = (if r < ac_MinRate c then ac_MinRate c else r)
      in if r > ac_MaxRate c then ac_MaxRate c else r)"

definition smoothed :: "real list \<Rightarrow> real option" where
  "smoothed rates =
     (let rs = filter (\<lambda>r. r > 0) rates in if rs = [] then None else Some (sum_list rs / real (length rs)))"

definition adjustRate :: "int \<Rightarrow> adaptive_sampler \<Rightarrow> adaptive_sampler" where
  "adjustRate now s =
     (let elapsed = real_of_int (now - as_windowStart s) / 1000000000 in
      if elapsed \<le> 0 then s
      else let r = new_rate (as_config s) (real_of_int (as_windowCount s) / elapsed);
               rates = (as_recentRates s)[as_rateIndex s := r];
               s = s\<lparr>as_recentRates := rates, as_rateIndex := (as_rateIndex s + 1) mod length rates\<rparr>;
               s = (case smoothed rates of Some q \<Rightarrow> s\<lparr>as_currentRate := q\<rparr> | None \<Rightarrow> s)
           in s\<lparr>as_windowStart := now, as_windowCount := 0, as_lastAdjustment := now\<rparr>)"

definition trackEntry :: "int \<Rightarrow> adaptive_sampler \<Rightarrow> adaptive_sampler" where
  "trackEntry now s =
     (let s = s\<lparr>as_windowCount := as_windowCount s + 1\<rparr> in
      if now - as_lastAdjustment s \<ge> ac_AdjustmentInterval (as_config s) then adjustRate now s else s)"

definition getErrorRate :: "adaptive_sampler \<Rightarrow> real" where
  "getErrorRate s =
     (let boosted = as_currentRate s * ac_ErrorBoost (as_config s)
      in if boosted > ac_MaxRate (as_config s) then ac_MaxRate (as_config s) else boosted)"

definition shouldSampleWithRate :: "real \<Rightarrow> adaptive_sampler \<Rightarrow> adaptive_sampler \<times> bool" where
  "shouldSampleWithRate rate s =
     (if rate \<ge> 1 then (s\<lparr>as_totalSampled := as_totalSampled s + 1\<rparr>, True)
      else if rate \<le> 0 then (s\<lparr>as_totalDropped := as_totalDropped s + 1\<rparr>, False)
      else let cnt = wrap_u64 (as_counter s + 1); s = s\<lparr>as_counter := cnt\<rparr>;
               denominator = \<lfloor>1 / rate\<rfloor>; denominator = (if denominator = 0 then 1 else denominator)
           in if cnt mod denominator = 0 then (s\<lparr>as_totalSampled := as_totalSampled s + 1\<rparr>, True)
              else (s\<lparr>as_totalDropped := as_totalDropped s + 1\<rparr>, False))"

definition as_ShouldSample :: "int \<Rightarrow> nat \<Rightarrow> adaptive_sampler \<Rightarrow> adaptive_sampler \<times> bool" where
  "as_ShouldSample now level s =
     (let s = trackEntry now s in
      if level \<ge> ErrorLevel then
        (let s = s\<lparr>as_errorsTotal := as_errorsTotal s + 1\<rparr> in
         case shouldSampleWithRate (getErrorRate s) s of
           (s, True) \<Rightarrow> (s\<lparr>as_errorsSampled := as_errorsSampled s + 1\<rparr>, True)
         | (s, False) \<Rightarrow> (s, False))
      else shouldSampleWithRate (as_currentRate s) s)"

text \<open>What the sampler reports: the rate in force, the totals, and the entries of the window.\<close>

definition as_GetStats :: "adaptive_sampler \<Rightarrow> real \<times> int \<times> int \<times> int \<times> int \<times> int" where
  "as_GetStats s = (as_currentRate s, as_totalSampled s, as_totalDropped s, as_errorsSampled s, as_errorsTotal s, as_windowCount s)"

definition as_Reset :: "int \<Rightarrow> adaptive_sampler \<Rightarrow> adaptive_sampler" where
  "as_Reset now s =
     s\<lparr>as_currentRate := ac_BaseRate (as_config s), as_windowStart := now, as_windowCount := 0, as_lastAdjustment := now,
       as_recentRates := replicate 10 0, as_rateIndex := 0, as_totalSampled := 0, as_totalDropped := 0,
       as_errorsSampled := 0, as_errorsTotal := 0, as_counter := 0\<rparr>"

section \<open>Counting\<close>

definition low :: "int \<times> nat \<Rightarrow> bool" where
  "low c \<longleftrightarrow> snd c < ErrorLevel"

definition low_kept :: "(int \<times> nat) list \<Rightarrow> bool list \<Rightarrow> nat" where
  "low_kept calls bs = length (filter (\<lambda>(c, b). low c \<and> b) (zip calls bs))"

definition errors_kept :: "(int \<times> nat) list \<Rightarrow> bool list \<Rightarrow> bool" where
  "errors_kept calls bs \<longleftrightarrow> list_all (\<lambda>(c, b). \<not> low c \<longrightarrow> b) (zip calls bs)"

lemma div_step: "(0 :: int) < d \<Longrightarrow> (c + 1) div d = c div d + of_bool ((c + 1) mod d = 0)"
proof -
  assume d: "0 < d"
  show ?thesis
  proof (cases "(c + 1) mod d = 0")
    case True
    then have "c + 1 = d * ((c + 1) div d)" using mult_div_mod_eq [of d "c + 1"] by simp
    then obtain q where q: "c + 1 = d * q" by blast
    then have "c div d = q - 1" using d by (intro int_div_pos_eq [where r = "d - 1"]) (simp_all add: algebra_simps)
    with q d True show ?thesis by simp
  next
    case False
    have "c + 1 = d * ((c + 1) div d) + (c + 1) mod d" by simp
    moreover have "0 < (c + 1) mod d" "(c + 1) mod d < d"
      using False pos_mod_sign [OF d, of "c + 1"] pos_mod_bound [OF d, of "c + 1"] by linarith+
    ultimately have "c div d = (c + 1) div d"
      by (intro int_div_pos_eq [where r = "(c + 1) mod d - 1"]) linarith+
    with False show ?thesis by simp
  qed
qed

lemma ShouldSample_stats:
  "ShouldSample now level s = (let (s', b) = shouldSample now level s in
     (s'\<lparr>sm_levelStatsCounters := (case sm_levelStatsCounters s level of
        Some n \<Rightarrow> (sm_levelStatsCounters s)(level \<mapsto> wrap_u64 (n + 1)) | None \<Rightarrow> sm_levelStatsCounters s)\<rparr>, b))"
  by (auto simp: ShouldSample_def shouldSample_def shouldSampleByCount_def shouldSampleByTime_def shouldSampleByLevel_def Let_def
      split: option.split sampling_strategy.split)

lemma count_run:
  "sample_run s calls = (s', bs) \<Longrightarrow> sc_Strategy (sm_config s) = SampleByCount \<Longrightarrow>
   0 < sc_SamplingDenominator (sm_config s) \<Longrightarrow> sc_SamplingDenominator (sm_config s) < 2 ^ 64 \<Longrightarrow> 0 \<le> sm_counter s \<Longrightarrow>
   sm_counter s + int (length (filter low calls)) < 2 ^ 64 \<Longrightarrow>
   int (low_kept calls bs) = (sm_counter s + int (length (filter low calls))) div sc_SamplingDenominator (sm_config s)
       - sm_counter s div sc_SamplingDenominator (sm_config s)
     \<and> errors_kept calls bs"
proof (induction calls arbitrary: s s' bs)
  case (Cons c calls)
  obtain now level where c: "c = (now, level)" by (cases c)
  let ?d = "sc_SamplingDenominator (sm_config s)"
  obtain s1 b where st: "ShouldSample now level s = (s1, b)" by fastforce
  obtain s2 bs2 where r: "sample_run s1 calls = (s2, bs2)" by fastforce
  have bs: "bs = b # bs2" using Cons.prems(1) by (simp add: c st r)
  have d: "wrap_u64 ?d = ?d" using Cons.prems(3,4) by (simp add: wrap_u64_def)
  show ?case
  proof (cases "low c")
    case False
    with st Cons.prems(2) have s1: "sm_config s1 = sm_config s" "sm_counter s1 = sm_counter s" "b"
      by (auto simp: ShouldSample_stats shouldSample_def shouldSampleByCount_def low_def c)
    with Cons.IH [OF r] Cons.prems False show ?thesis by (simp add: bs low_kept_def errors_kept_def s1)
  next
    case True
    have w: "wrap_u64 (sm_counter s + 1) = sm_counter s + 1" using Cons.prems(5,6) True by (simp add: wrap_u64_def)
    with True st Cons.prems(2) d have s1: "sm_config s1 = sm_config s" "sm_counter s1 = sm_counter s + 1"
      "b \<longleftrightarrow> (sm_counter s + 1) mod ?d = 0"
      by (auto simp: ShouldSample_stats shouldSample_def shouldSampleByCount_def low_def c Let_def split: if_splits)
    from Cons.IH [OF r] Cons.prems(2-6) True s1
    have "int (low_kept calls bs2) = (sm_counter s + 1 + int (length (filter low calls))) div ?d - (sm_counter s + 1) div ?d"
      "errors_kept calls bs2" by simp_all
    moreover have "int (low_kept (c # calls) bs) = of_bool b + int (low_kept calls bs2)"
      "errors_kept (c # calls) bs = errors_kept calls bs2" using True by (simp_all add: bs low_kept_def errors_kept_def)
    moreover have "(sm_counter s + 1) div ?d = sm_counter s div ?d + of_bool b"
      using div_step [OF Cons.prems(3), of "sm_counter s"] s1(3) by simp
    ultimately show ?thesis using True by (simp add: add.assoc)
  qed
qed (simp add: low_kept_def errors_kept_def)

lemma count_run_counter:
  "sample_run s calls = (s', bs) \<Longrightarrow> sc_Strategy (sm_config s) = SampleByCount \<Longrightarrow> 0 \<le> sm_counter s \<Longrightarrow>
   sm_counter s + int (length (filter low calls)) < 2 ^ 64 \<Longrightarrow>
   sm_config s' = sm_config s \<and> sm_counter s' = sm_counter s + int (length (filter low calls))"
proof (induction calls arbitrary: s s' bs)
  case (Cons c calls)
  obtain now level where c: "c = (now, level)" by (cases c)
  obtain s1 b where st: "ShouldSample now level s = (s1, b)" by fastforce
  obtain s2 bs2 where r: "sample_run s1 calls = (s2, bs2)" by fastforce
  have s': "s' = s2" using Cons.prems(1) by (simp add: c st r)
  show ?case
  proof (cases "low c")
    case False
    with st Cons.prems(2) have s1: "sm_config s1 = sm_config s" "sm_counter s1 = sm_counter s"
      by (auto simp: ShouldSample_stats shouldSample_def shouldSampleByCount_def low_def c)
    with Cons.IH [OF r] Cons.prems False show ?thesis by (simp add: s')
  next
    case True
    have w: "wrap_u64 (sm_counter s + 1) = sm_counter s + 1" using Cons.prems(3,4) True by (simp add: wrap_u64_def)
    with True st Cons.prems(2) have s1: "sm_config s1 = sm_config s" "sm_counter s1 = sm_counter s + 1"
      by (auto simp: ShouldSample_stats shouldSample_def shouldSampleByCount_def low_def c Let_def split: if_splits)
    from Cons.IH [OF r] Cons.prems(2-4) True s1 show ?thesis by (simp add: s')
  qed
qed simp

lemma time_step:
  assumes "ShouldSample now level s = (s1, b)" and "sc_Strategy (sm_config s) = SampleByTime"
  shows "sm_config s1 = sm_config s" and "level \<ge> ErrorLevel \<Longrightarrow> b \<and> sm_windowStart s1 = sm_windowStart s \<and> sm_windowCount s1 = sm_windowCount s"
    and "level < ErrorLevel \<Longrightarrow>
      (let fresh = now - sm_windowStart s \<ge> sc_TimeWindow (sm_config s); k = (if fresh then 0 else sm_windowCount s) in
       sm_windowStart s1 = (if fresh then now else sm_windowStart s) \<and> (b \<longleftrightarrow> k < sc_MaxPerWindow (sm_config s))
       \<and> sm_windowCount s1 = k + of_bool b)"
  using assms by (auto simp: ShouldSample_stats shouldSample_def shouldSampleByTime_def Let_def split: if_splits)

fun times_ok :: "int \<Rightarrow> (int \<times> nat) list \<Rightarrow> bool" where
  "times_ok t [] = True"
| "times_ok t (c # calls) = (t \<le> fst c \<and> times_ok (fst c) calls)"

lemma window_step: "(0 :: int) < w \<Longrightarrow> a + w \<le> b \<Longrightarrow> a div w + 1 \<le> b div w"
  using zdiv_mono1 [of "a + w" b w] by simp

lemma time_run:
  "sample_run s calls = (s', bs) \<Longrightarrow> sc_Strategy (sm_config s) = SampleByTime \<Longrightarrow> 0 < sc_TimeWindow (sm_config s) \<Longrightarrow>
   0 < sc_MaxPerWindow (sm_config s) \<Longrightarrow> sm_windowCount s \<le> sc_MaxPerWindow (sm_config s) \<Longrightarrow> sm_windowStart s \<le> t \<Longrightarrow>
   times_ok t calls \<Longrightarrow>
   int (low_kept calls bs) + sm_windowCount s \<le> sc_MaxPerWindow (sm_config s) *
       (1 + (fst (last ((t, 0) # calls)) - t0) div sc_TimeWindow (sm_config s) - (sm_windowStart s - t0) div sc_TimeWindow (sm_config s))
     \<and> errors_kept calls bs"
proof (induction calls arbitrary: s s' bs t)
  case Nil
  let ?w = "sc_TimeWindow (sm_config s)" and ?m = "sc_MaxPerWindow (sm_config s)"
  have "(sm_windowStart s - t0) div ?w \<le> (t - t0) div ?w" using Nil.prems by (intro zdiv_mono1) simp_all
  then have "?m * 1 \<le> ?m * (1 + (t - t0) div ?w - (sm_windowStart s - t0) div ?w)" using Nil.prems by (intro mult_left_mono) simp_all
  with Nil.prems(5) have "sm_windowCount s \<le> ?m * (1 + (t - t0) div ?w - (sm_windowStart s - t0) div ?w)" by simp
  with Nil.prems(1) show ?case by (simp add: low_kept_def errors_kept_def)
next
  case (Cons c calls)
  obtain now level where c: "c = (now, level)" by (cases c)
  let ?w = "sc_TimeWindow (sm_config s)" and ?m = "sc_MaxPerWindow (sm_config s)"
  obtain s1 b where st: "ShouldSample now level s = (s1, b)" by fastforce
  obtain s2 bs2 where r: "sample_run s1 calls = (s2, bs2)" by fastforce
  have bs: "bs = b # bs2" using Cons.prems(1) by (simp add: c st r)
  note ts = time_step [OF st Cons.prems(2)]
  have t: "t \<le> now" "times_ok now calls" using Cons.prems(7) by (simp_all add: c)
  let ?l = "fst (last ((now, 0) # calls))"
  have l: "fst (last ((t, 0) # c # calls)) = ?l" by (simp add: c)
  note IH = Cons.IH [OF r, unfolded ts(1), OF Cons.prems(2-4) _ _ t(2)]
  show ?case
  proof (cases "low c")
    case False
    with ts(2) have s1: "b" "sm_windowStart s1 = sm_windowStart s" "sm_windowCount s1 = sm_windowCount s"
      by (simp_all add: low_def c)
    from IH s1 Cons.prems(5,6) t(1) False show ?thesis unfolding l by (simp add: bs low_kept_def errors_kept_def)
  next
    case True
    let ?fresh = "now - sm_windowStart s \<ge> ?w" let ?k = "if ?fresh then 0 else sm_windowCount s"
    have s1: "sm_windowStart s1 = (if ?fresh then now else sm_windowStart s)" "b \<longleftrightarrow> ?k < ?m" "sm_windowCount s1 = ?k + of_bool b"
      using ts(3) True by (simp_all add: low_def c Let_def)
    have "sm_windowCount s1 \<le> ?m" "sm_windowStart s1 \<le> now" using s1 Cons.prems(4-6) t(1) by auto
    note ih = IH [OF this]
    have kept: "int (low_kept (c # calls) bs) = of_bool b + int (low_kept calls bs2)"
      "errors_kept (c # calls) bs = errors_kept calls bs2" using True by (simp_all add: bs low_kept_def errors_kept_def)
    show ?thesis
    proof (cases ?fresh)
      case True
      have "(sm_windowStart s - t0) div ?w + 1 \<le> (now - t0) div ?w"
        using window_step [OF Cons.prems(3), of "sm_windowStart s - t0" "now - t0"] True by simp
      then have "?m * (1 + (?l - t0) div ?w - (now - t0) div ?w) + ?m \<le> ?m * (1 + (?l - t0) div ?w - (sm_windowStart s - t0) div ?w)"
        using mult_left_mono [of "(sm_windowStart s - t0) div ?w + 1" "(now - t0) div ?w" ?m] Cons.prems(4)
        by (simp add: algebra_simps)
      with ih s1 True Cons.prems(5) show ?thesis unfolding l kept by auto
    next
      case False
      with ih s1 show ?thesis unfolding l kept by auto
    qed
  qed
qed

section \<open>Shedding under backpressure\<close>

text \<open>The keep-1-in-N of an occupancy; \<open>None\<close> where everything passes.\<close>

definition bp_divisor :: "int \<times> int \<Rightarrow> backpressure_sampler \<Rightarrow> nat option" where
  "bp_divisor occ s = (case occ of (used, capacity) \<Rightarrow>
     let fill = real_of_int used / real_of_int capacity in
     if capacity \<le> 0 \<or> used \<le> 0 \<or> fill \<le> bp_lowWater s then None
     else if fill \<ge> bp_highWater s then Some 16
     else Some (min 16 (max 1 (nat \<lfloor>1 / ((bp_highWater s - fill) / (bp_highWater s - bp_lowWater s)) + 1 / 2\<rfloor>))))"

lemma bp_divisor_bounds: "bp_divisor occ s = Some n \<Longrightarrow> 1 \<le> n \<and> n \<le> 16"
  by (auto simp: bp_divisor_def Let_def split: prod.splits if_splits)

lemma bp_divisor_counter [simp]: "bp_divisor occ (s\<lparr>bp_counter := c\<rparr>) = bp_divisor occ s"
  by (cases occ) (simp add: bp_divisor_def Let_def)

definition urgent :: "nat option \<Rightarrow> bool" where
  "urgent level = (case level of Some l \<Rightarrow> l \<ge> ErrorLevel | None \<Rightarrow> False)"

lemma bp_ShouldSample_eq:
  "bp_ShouldSample level occ s =
     (if urgent level then (s, True)
      else case bp_divisor occ s of
          None \<Rightarrow> (s, True)
        | Some n \<Rightarrow> (s\<lparr>bp_counter := wrap_u64 (bp_counter s + 1)\<rparr>, wrap_u64 (bp_counter s + 1) mod int n = 0))"
proof (cases occ)
  case (Pair used capacity)
  show ?thesis
  proof (cases "urgent level \<or> capacity \<le> 0 \<or> used \<le> 0 \<or> real_of_int used / real_of_int capacity \<le> bp_lowWater s
      \<or> real_of_int used / real_of_int capacity \<ge> bp_highWater s")
    case True
    then show ?thesis
      by (auto simp: bp_ShouldSample_def bp_divisor_def urgent_def Pair Let_def split: option.splits)
  next
    case False
    then have f: "(capacity \<le> 0) = False" "(used \<le> 0) = False"
      "(real_of_int used / real_of_int capacity \<le> bp_lowWater s) = False"
      "(real_of_int used / real_of_int capacity \<ge> bp_highWater s) = False" "urgent level = False"
      by blast+
    have clamp: "(if backpressureFloorKeep < (if q < 1 then 1 else q) then backpressureFloorKeep else (if q < 1 then 1 else q))
      = min 16 (max 1 q)" for q by (simp add: backpressureFloorKeep_def)
    show ?thesis
      by (simp only: bp_ShouldSample_def bp_divisor_def urgent_def [symmetric] Pair Let_def prod.case option.case
          f clamp if_False simp_thms)
  qed
qed

fun bp_run :: "int \<times> int \<Rightarrow> backpressure_sampler \<Rightarrow> nat option list \<Rightarrow> bool list" where
  "bp_run occ s [] = []"
| "bp_run occ s (l # ls) = (case bp_ShouldSample l occ s of (s', b) \<Rightarrow> b # bp_run occ s' ls)"

lemma bp_run_nth:
  "list_all (\<lambda>l. \<not> urgent l) ls \<Longrightarrow> bp_divisor occ s = Some n \<Longrightarrow> i < length ls \<Longrightarrow>
   bp_run occ s ls ! i = (wrap_u64 (bp_counter s + int i + 1) mod int n = 0)"
proof (induction ls arbitrary: s i)
  case (Cons l ls)
  let ?s = "s\<lparr>bp_counter := wrap_u64 (bp_counter s + 1)\<rparr>"
  have run: "bp_run occ s (l # ls) = (wrap_u64 (bp_counter s + 1) mod int n = 0) # bp_run occ ?s ls"
    using Cons.prems by (simp add: bp_ShouldSample_eq)
  show ?case
  proof (cases i)
    case 0
    then show ?thesis by (simp only: run) simp
  next
    case (Suc j)
    have "wrap_u64 (wrap_u64 (bp_counter s + 1) + int j + 1) = wrap_u64 (bp_counter s + int i + 1)"
      using mod_add_left_eq [of "bp_counter s + 1" "2 ^ 64" "int j + 1"] by (simp add: wrap_u64_def Suc algebra_simps)
    with Cons.IH [of ?s j] Cons.prems Suc show ?thesis by (simp only: run) simp
  qed
qed simp

lemma length_bp_run: "length (bp_run occ s ls) = length ls"
  by (induction ls arbitrary: s) (simp_all split: prod.split)

lemma multiple_below:
  assumes "0 \<le> (m :: int)" and "m + 16 < w" and "1 \<le> n" and "n \<le> (16 :: nat)"
  shows "\<exists>i < 16. (m + int i + 1) mod w mod int n = 0"
proof -
  define r where "r = m mod int n"
  have r: "0 \<le> r" "r < int n" using assms(3) by (simp_all add: r_def)
  define i where "i = nat (int n - 1 - r)"
  have i: "int i = int n - 1 - r" using r by (simp add: i_def)
  then have "int i < 16" using assms(4) r by linarith
  then have "(m + int i + 1) mod w = m + int i + 1" using assms(1,2) by (intro mod_pos_pos_trivial) linarith+
  also have "\<dots> = (m - r) + int n" using i by simp
  also have "\<dots> = int n * (m div int n + 1)" by (simp add: r_def minus_mod_eq_mult_div algebra_simps)
  finally have "(m + int i + 1) mod w mod int n = 0" by simp
  with \<open>int i < 16\<close> show ?thesis by (intro exI [of _ i]) simp
qed

lemma multiple_at_wrap:
  assumes "(m :: int) < w" and "\<not> m + 16 < w"
  shows "\<exists>i < 16. (m + int i + 1) mod w mod k = 0"
proof -
  have "int (nat (w - 1 - m)) = w - 1 - m" using assms(1) by simp
  with assms show ?thesis by (intro exI [of _ "nat (w - 1 - m)"]) simp
qed

lemma multiple_in_window:
  assumes "1 \<le> n" and "n \<le> (16 :: nat)"
  shows "\<exists>i < 16. wrap_u64 (c + int i + 1) mod int n = 0"
proof -
  define m where "m = c mod 2 ^ 64"
  have w: "wrap_u64 (c + int i + 1) = (m + int i + 1) mod 2 ^ 64" for i
    unfolding wrap_u64_def m_def add.assoc by (rule mod_add_left_eq [symmetric])
  have "0 \<le> m" "m < 2 ^ 64" by (simp_all add: m_def)
  with multiple_below [OF _ _ assms, of m "2 ^ 64"] multiple_at_wrap [of m "2 ^ 64"] show ?thesis
    unfolding w by blast
qed

section \<open>The adaptive rate stays in its bounds\<close>

definition rate_ok :: "adaptive_config \<Rightarrow> real \<Rightarrow> bool" where
  "rate_ok c r \<longleftrightarrow> ac_MinRate c \<le> r \<and> r \<le> ac_MaxRate c"

definition as_ok :: "adaptive_sampler \<Rightarrow> bool" where
  "as_ok s \<longleftrightarrow> 0 < ac_MinRate (as_config s) \<and> ac_MinRate (as_config s) \<le> ac_MaxRate (as_config s)
     \<and> (\<forall>r \<in> set (as_recentRates s). r = 0 \<or> rate_ok (as_config s) r)
     \<and> (as_currentRate s = ac_BaseRate (as_config s) \<or> rate_ok (as_config s) (as_currentRate s))"

lemma new_rate_ok: "ac_MinRate c \<le> ac_MaxRate c \<Longrightarrow> rate_ok c (new_rate c t)"
  by (auto simp: new_rate_def rate_ok_def Let_def)

lemma sum_list_bounds:
  "\<forall>r \<in> set rs. a \<le> r \<and> r \<le> (b :: real) \<Longrightarrow> a * real (length rs) \<le> sum_list rs \<and> sum_list rs \<le> b * real (length rs)"
  by (induction rs) (auto simp: algebra_simps)

lemma smoothed_ok:
  assumes "0 < ac_MinRate c" and "\<forall>r \<in> set rates. r = 0 \<or> rate_ok c r" and "smoothed rates = Some q"
  shows "rate_ok c q"
proof -
  let ?rs = "filter (\<lambda>r. r > 0) rates"
  have "?rs \<noteq> []" and q: "q = sum_list ?rs / real (length ?rs)"
    using assms(3) by (auto simp: smoothed_def Let_def split: if_splits)
  then have n: "0 < real (length ?rs)" by simp
  have "\<forall>r \<in> set ?rs. ac_MinRate c \<le> r \<and> r \<le> ac_MaxRate c" using assms(2) by (auto simp: rate_ok_def)
  from sum_list_bounds [OF this] n show ?thesis
    by (simp add: rate_ok_def q pos_le_divide_eq pos_divide_le_eq)
qed

lemma adjustRate_ok:
  assumes "as_ok s"
  shows "as_ok (adjustRate now s)" and "as_config (adjustRate now s) = as_config s"
proof -
  let ?c = "as_config s" and ?t = "real_of_int (as_windowCount s) / (real_of_int (now - as_windowStart s) / 1000000000)"
  let ?rates = "(as_recentRates s)[as_rateIndex s := new_rate ?c ?t]"
  have "\<forall>r \<in> set ?rates. r = 0 \<or> rate_ok ?c r"
    using assms new_rate_ok [of ?c ?t] set_update_subset_insert [of "as_recentRates s" "as_rateIndex s" "new_rate ?c ?t"]
    by (auto simp: as_ok_def)
  with assms smoothed_ok [of ?c ?rates] show "as_ok (adjustRate now s)"
    by (auto simp: adjustRate_def as_ok_def Let_def split: option.split)
  show "as_config (adjustRate now s) = as_config s" by (simp add: adjustRate_def Let_def split: option.split)
qed

lemma shouldSampleWithRate_frame:
  "shouldSampleWithRate rate s = (s', b) \<Longrightarrow> as_config s' = as_config s \<and> as_currentRate s' = as_currentRate s
     \<and> as_recentRates s' = as_recentRates s"
  by (auto simp: shouldSampleWithRate_def Let_def split: if_splits)

lemma as_ShouldSample_ok:
  assumes "as_ok s" and "as_ShouldSample now level s = (s', b)"
  shows "as_ok s'" and "as_config s' = as_config s"
proof -
  let ?t = "trackEntry now s"
  have t: "as_ok ?t" "as_config ?t = as_config s"
    using assms(1) adjustRate_ok [of "s\<lparr>as_windowCount := as_windowCount s + 1\<rparr>" now]
    by (auto simp: trackEntry_def Let_def as_ok_def)
  have "as_config s' = as_config ?t \<and> as_currentRate s' = as_currentRate ?t \<and> as_recentRates s' = as_recentRates ?t"
    using assms(2) by (auto simp: as_ShouldSample_def Let_def split: if_splits prod.splits bool.splits dest!: shouldSampleWithRate_frame)
  with t show "as_ok s'" and "as_config s' = as_config s" by (simp_all add: as_ok_def)
qed

fun as_run :: "adaptive_sampler \<Rightarrow> (int \<times> nat) list \<Rightarrow> adaptive_sampler \<times> bool list" where
  "as_run s [] = (s, [])"
| "as_run s ((now, level) # calls) =
     (let (s, b) = as_ShouldSample now level s; (s, bs) = as_run s calls in (s, b # bs))"

lemma as_run_ok: "as_ok s \<Longrightarrow> as_ok (fst (as_run s calls)) \<and> as_config (fst (as_run s calls)) = as_config s"
proof (induction calls arbitrary: s)
  case (Cons c calls)
  obtain now level where c: "c = (now, level)" by (cases c)
  obtain s1 b where st: "as_ShouldSample now level s = (s1, b)" by fastforce
  from as_ShouldSample_ok [OF Cons.prems st] Cons.IH [of s1] show ?case
    by (cases "as_run s1 calls") (simp add: c st)
qed simp

section \<open>Properties\<close>

text \<open>
  C30: the count sampler keeps exactly every n-th line: of the lines below error level, in any order and
  number (below 2^64) and mixed with errors, it keeps their number divided by the denominator, it keeps
  every error, and its statistics report just these two numbers.
\<close>

theorem count_sampler_exact:
  assumes "sc_Strategy c = SampleByCount" and "0 < sc_SamplingDenominator c" and "sc_SamplingDenominator c < 2 ^ 63"
    and "int (length (filter low calls)) < 2 ^ 64" and "sample_run (NewSamplingManager t0 c) calls = (s, bs)"
  shows "int (low_kept calls bs) = int (length (filter low calls)) div sc_SamplingDenominator c \<and> errors_kept calls bs
    \<and> GetSamplingStats s = CountStats (sc_SamplingDenominator c) (int (length (filter low calls))) (int (low_kept calls bs))"
proof -
  have k: "int (low_kept calls bs) = int (length (filter low calls)) div sc_SamplingDenominator c" "errors_kept calls bs"
    using count_run [OF assms(5)] assms(1-4) by (simp_all add: NewSamplingManager_fields)
  have s: "sm_config s = sm_config (NewSamplingManager t0 c)" "sm_counter s = int (length (filter low calls))"
    using count_run_counter [OF assms(5)] assms(1,4) by (simp_all add: NewSamplingManager_fields)
  have "wrap_u64 (sc_SamplingDenominator c) = sc_SamplingDenominator c" using assms(2,3) by (simp add: wrap_u64_def)
  with k assms(1,2) show ?thesis by (simp add: GetSamplingStats_def s NewSamplingManager_fields Let_def)
qed

definition sample_config :: "sampling_strategy \<Rightarrow> sampling_config" where
  "sample_config st = \<lparr>sc_Strategy = st, sc_SamplingDenominator = 2, sc_TimeWindow = 10, sc_MaxPerWindow = 1, sc_LevelSampling = (\<lambda>_. None)\<rparr>"

theorem count_sampler_exact_witness:
  "\<exists>s bs. sample_run (NewSamplingManager 0 (sample_config SampleByCount)) [(1, 2), (2, 4), (3, 2), (4, 1)] = (s, bs)
     \<and> int (low_kept [(1, 2), (2, 4), (3, 2), (4, 1)] bs) = 3 div 2 \<and> GetSamplingStats s = CountStats 2 3 1"
proof -
  let ?calls = "[(1, 2), (2, 4), (3, 2), (4, 1)] :: (int \<times> nat) list"
  obtain s bs where r: "sample_run (NewSamplingManager 0 (sample_config SampleByCount)) ?calls = (s, bs)" by fastforce
  from count_sampler_exact [OF _ _ _ _ r] r show ?thesis by (auto simp: sample_config_def low_def ErrorLevel_def)
qed

text \<open>
  The window sampler keeps its limit: with a clock that does not run backwards, the lines below error
  level that it keeps are at most the limit per window times one more than the number of whole windows
  that have passed, and it keeps every error.
\<close>

theorem window_sampler_bound:
  assumes "sc_Strategy c = SampleByTime" and "0 < sc_TimeWindow c" and "0 < sc_MaxPerWindow c" and "times_ok t0 calls"
    and "sample_run (NewSamplingManager t0 c) calls = (s, bs)"
  shows "int (low_kept calls bs) \<le> sc_MaxPerWindow c * (1 + (fst (last ((t0, 0) # calls)) - t0) div sc_TimeWindow c)
     \<and> errors_kept calls bs"
  using time_run [OF assms(5), of t0 t0] assms(1-4) by (simp add: NewSamplingManager_fields)

theorem window_sampler_bound_witness:
  "\<exists>s bs. sample_run (NewSamplingManager 0 (sample_config SampleByTime)) [(1, 2), (2, 2), (25, 2)] = (s, bs)
     \<and> int (low_kept [(1, 2), (2, 2), (25, 2)] bs) \<le> 1 * (1 + 25 div 10)"
proof -
  let ?calls = "[(1, 2), (2, 2), (25, 2)] :: (int \<times> nat) list"
  obtain s bs where r: "sample_run (NewSamplingManager 0 (sample_config SampleByTime)) ?calls = (s, bs)" by fastforce
  from window_sampler_bound [OF _ _ _ _ r] r show ?thesis by (auto simp: sample_config_def)
qed

text \<open>
  Backpressure never silences a logger: whatever the occupancy and the counter, also when it wraps
  around, at least one of any sixteen consecutive lines passes while the occupancy stays the same;
  every line passes up to the low watermark; and errors always pass.
\<close>

theorem backpressure_never_silences:
  assumes "length levels = 16"
  shows "True \<in> set (bp_run occ s levels)
     \<and> (urgent level \<or> bp_divisor occ s = None \<longrightarrow> bp_ShouldSample level occ s = (s, True))"
proof -
  have "True \<in> set (bp_run occ s levels)"
  proof (cases "list_all (\<lambda>l. \<not> urgent l) levels")
    case all: True
    show ?thesis
    proof (cases "bp_divisor occ s")
      case None
      obtain l ls where l: "levels = l # ls" using assms by (cases levels) auto
      have "bp_ShouldSample l occ s = (s, True)" by (simp add: bp_ShouldSample_eq None)
      then show ?thesis by (simp add: l)
    next
      case (Some n)
      have n: "1 \<le> n" "n \<le> 16" using bp_divisor_bounds [OF Some] by simp_all
      obtain i where "i < 16" "wrap_u64 (bp_counter s + int i + 1) mod int n = 0"
        using multiple_in_window [OF n, of "bp_counter s"] by (elim exE conjE)
      with bp_run_nth [OF all Some, of i] assms have "bp_run occ s levels ! i" "i < length (bp_run occ s levels)"
        by (simp_all add: length_bp_run)
      then show ?thesis by (metis nth_mem)
    qed
  next
    case False
    then obtain l where "l \<in> set levels" "urgent l" by (auto simp: list_all_iff)
    then show ?thesis by (induction levels arbitrary: s) (auto simp: bp_ShouldSample_eq split: option.split)
  qed
  then show ?thesis by (simp add: bp_ShouldSample_eq)
qed

theorem backpressure_never_silences_witness:
  "True \<in> set (bp_run (95, 100) (NewBackpressureSampler (1 / 2) (9 / 10)) (replicate 16 (Some 2)))"
  using backpressure_never_silences [of "replicate 16 (Some 2)"] by simp

text \<open>
  The adaptive rate stays within its bounds: after any sequence of entries, at any times, the current
  rate is the configured base rate or lies between the minimal and the maximal rate.
\<close>

theorem adaptive_rate_bounded:
  assumes "0 < ac_MinRate c" and "ac_MinRate c \<le> ac_MaxRate c" and "0 < ac_BaseRate c"
  shows "let r = as_currentRate (fst (as_run (NewAdaptiveSampler t0 c) calls))
     in r = ac_BaseRate c \<or> ac_MinRate c \<le> r \<and> r \<le> ac_MaxRate c"
proof -
  let ?s = "NewAdaptiveSampler t0 c"
  have "ac_MinRate (as_config ?s) = ac_MinRate c" "ac_MaxRate (as_config ?s) = ac_MaxRate c" "ac_BaseRate (as_config ?s) = ac_BaseRate c"
    "as_currentRate ?s = ac_BaseRate c" "as_recentRates ?s = replicate 10 0"
    using assms by (auto simp: NewAdaptiveSampler_def Let_def)
  note cfg = this
  then have "as_ok ?s" using assms by (simp add: as_ok_def)
  from as_run_ok [OF this, of calls] cfg show ?thesis by (auto simp: as_ok_def rate_ok_def Let_def)
qed

theorem adaptive_rate_bounded_witness:
  "let r = as_currentRate (fst (as_run (NewAdaptiveSampler 0 \<lparr>ac_BaseRate = 1 / 10, ac_ErrorBoost = 10, ac_MinRate = 1 / 100,
       ac_MaxRate = 1, ac_TargetThroughput = 10, ac_AdjustmentInterval = 5\<rparr>) [(1, 2), (9, 2)]))
   in r = 1 / 10 \<or> 1 / 100 \<le> r \<and> r \<le> 1"
  using adaptive_rate_bounded [of "\<lparr>ac_BaseRate = 1 / 10, ac_ErrorBoost = 10, ac_MinRate = 1 / 100,
       ac_MaxRate = 1, ac_TargetThroughput = 10, ac_AdjustmentInterval = 5\<rparr>" 0 "[(1, 2), (9, 2)]"] by simp

text \<open>
  Three observations. The adaptive sampler may drop errors: with the default configuration at its
  lowest rate, nine of ten. A rate above one half keeps everything, because the keep-1-in-N counter
  rounds N down. And between the watermarks the reported rate falls below the floor of the sampler's
  own decisions.
\<close>

lemma adaptive_drops_errors:
  assumes "as_currentRate s = 1 / 100" and "ac_ErrorBoost (as_config s) = 10" and "ac_MaxRate (as_config s) = 1"
    and "as_counter s = 0"
  shows "snd (shouldSampleWithRate (getErrorRate s) s) = False"
proof -
  have rate: "getErrorRate s = 1 / 10" by (simp add: getErrorRate_def assms Let_def)
  show ?thesis unfolding rate by (simp add: shouldSampleWithRate_def Let_def wrap_u64_def assms(4))
qed

lemma rate_above_half_keeps_all:
  assumes "1 / 2 < rate"
  shows "snd (shouldSampleWithRate rate s)"
proof (cases "rate \<ge> 1")
  case True
  then show ?thesis by (simp add: shouldSampleWithRate_def)
next
  case False
  then have "1 \<le> 1 / rate" "1 / rate < 2" using assms by (simp_all add: field_simps)
  then have "\<lfloor>1 / rate\<rfloor> = 1" by (simp add: floor_eq_iff)
  with False assms show ?thesis by (simp add: shouldSampleWithRate_def Let_def)
qed

lemma backpressure_rate_below_floor:
  "let s = NewBackpressureSampler (1 / 2) (9 / 10) in bp_GetRate (89, 100) s = 1 / 40 \<and> bp_divisor (89, 100) s = Some 16"
  by (simp add: NewBackpressureSampler_def bp_GetRate_def bp_divisor_def)

end
