(* ===== verification/Core_Logger.thy ===== *)
theory Core_Logger
  imports Json_Line "HOL-Library.Word"
begin

text \<open>
  The logger: \<^verbatim>\<open>core/logger.go\<close> and \<^verbatim>\<open>core/logger_specialized.go\<close> (construction, the table of level
  functions and every function in it), \<^verbatim>\<open>core/pool.go\<close> (the pooled state of a line),
  \<^verbatim>\<open>core/fluent_typed.go\<close> and \<^verbatim>\<open>core/line.go\<close> (fields and the dispatch of a line),
  \<^verbatim>\<open>core/context.go\<close> (child loggers), \<^verbatim>\<open>core/caller.go\<close> and \<^verbatim>\<open>core/builder.go\<close>.

  The static fields of an entry are the list of its filled slots; the slots above the count are never
  read. An adapter is described by the interfaces it implements. What is not under the logger's control
  is a record of arguments: the clock's value for the call, the masker, the sampler with its state, the
  call site the runtime reports, and the formatter the adapter offers for direct encoding at the moment.
  What a call does is a list of events: an entry or a raw line handed to an adapter, a flush, the exit
  of the process, a panic. A discard adapter has no effect at all.
\<close>

section \<open>Adapters, configuration, state\<close>

record adapter =
  ad_discard :: bool   \<comment> \<open>is a \<^verbatim>\<open>discard.Adapter\<close>\<close>
  ad_raw :: bool       \<comment> \<open>implements \<^verbatim>\<open>RawWriter\<close>\<close>
  ad_direct :: bool    \<comment> \<open>implements \<^verbatim>\<open>DirectCapableAdapter\<close>\<close>

record json_formatter =
  jf_tz :: "int \<Rightarrow> int"
  jf_precision :: time_precision

datatype level_fn =
    Noop
  | CallerFn nat | BoundFn nat | SampledFn nat | DirectFn nat | DiscardFn nat
  | NoMaskOne nat | NoMaskMulti nat | MaskOne nat | MaskMulti nat
  | RealTrace | RealFatal | RealPanic

record hot_state =
  hot_level :: nat
  hot_traceFunc :: level_fn
  hot_debugFunc :: level_fn
  hot_infoFunc :: level_fn
  hot_warnFunc :: level_fn
  hot_errorFunc :: level_fn
  hot_fatalFunc :: level_fn
  hot_panicFunc :: level_fn

text \<open>\<^verbatim>\<open>rawWriter\<close> and \<^verbatim>\<open>directAdapter\<close> are set together: \<open>lg_direct\<close>.\<close>

record logger =
  lg_component :: string
  lg_adapters :: "adapter list"
  lg_enableMasking :: bool
  lg_discard :: bool
  lg_sampler :: bool
  lg_metrics :: bool
  lg_recordCaller :: bool
  lg_callerSkip :: int
  lg_boundFields :: "typed_field list"
  lg_boundBytes :: bytes
  lg_direct :: bool
  lg_hot :: hot_state

record core_config =
  cf_Component :: string
  cf_Level :: nat
  cf_Adapters :: "adapter list"
  cf_EnableMasking :: bool
  cf_Masker :: bool
  cf_EnableSampling :: bool
  cf_Sampler :: bool
  cf_EnableMetrics :: bool
  cf_EnableCaller :: bool
  cf_CallerSkip :: int
  cf_EnableAlerts :: bool
  cf_EnableAggregation :: bool

datatype sink_event =
    Wrote nat string log_entry
  | Raw nat bytes
  | Flushed nat
  | Exited int
  | Panicked string

record 's log_env =
  en_now :: int
  en_mask :: "log_entry \<Rightarrow> log_entry"
  en_sample :: "'s \<Rightarrow> log_entry \<Rightarrow> 's \<times> bool"
  en_site :: "string \<times> int"
  en_encoder :: "json_formatter option"

record 's log_world =
  w_events :: "sink_event list"
  w_counts :: "nat \<Rightarrow> int"
  w_sampler :: 's
  w_cache :: header_cache

definition logger_level :: "logger \<Rightarrow> nat" where
  "logger_level l = hot_level (lg_hot l)"

section \<open>The table of level functions\<close>

definition gated :: "nat \<Rightarrow> (nat \<Rightarrow> level_fn) \<Rightarrow> nat \<Rightarrow> level_fn" where
  "gated level f l = (if level \<le> l then f l else Noop)"

definition level_table :: "nat \<Rightarrow> (nat \<Rightarrow> level_fn) \<Rightarrow> level_fn \<Rightarrow> level_fn \<Rightarrow> hot_state" where
  "level_table level f fatal panic = \<lparr>hot_level = level,
     hot_traceFunc = gated level f TraceLevel, hot_debugFunc = gated level f DebugLevel,
     hot_infoFunc = gated level f InfoLevel, hot_warnFunc = gated level f WarnLevel,
     hot_errorFunc = gated level f ErrorLevel, hot_fatalFunc = fatal, hot_panicFunc = panic\<rparr>"

definition setupFunctionPointers :: "logger \<Rightarrow> nat \<Rightarrow> hot_state" where
  "setupFunctionPointers l level =
     (if lg_recordCaller l then
        (if length (lg_boundFields l) > 0
         then level_table level CallerFn (CallerFn FatalLevel) (CallerFn PanicLevel)
         else level_table level CallerFn RealFatal RealPanic)
      else if length (lg_boundFields l) > 0 \<and> \<not> lg_direct l \<and> \<not> lg_discard l then
        level_table level BoundFn (BoundFn FatalLevel) (BoundFn PanicLevel)
      else if lg_sampler l then level_table level SampledFn RealFatal RealPanic
      else if lg_direct l then
        (if length (lg_boundFields l) > 0
         then level_table level DirectFn (BoundFn FatalLevel) (BoundFn PanicLevel)
         else level_table level DirectFn RealFatal RealPanic)
      else if lg_discard l then level_table level DiscardFn (DiscardFn FatalLevel) (DiscardFn PanicLevel)
      else
        (let isMasking = lg_enableMasking l; isSingle = (length (lg_adapters l) = 1);
             f = (\<lambda>v. if v = TraceLevel then RealTrace
                      else if isMasking then (if isSingle then MaskOne v else MaskMulti v)
                      else (if isSingle then NoMaskOne v else NoMaskMulti v))
         in level_table level f RealFatal RealPanic))"

definition clampCallerSkip :: "int \<Rightarrow> int" where
  "clampCallerSkip skip = min (max skip 0) 64"

definition NewLogger :: "core_config \<Rightarrow> logger" where
  "NewLogger c =
     (let enableMasking = (cf_EnableMasking c \<and> cf_Masker c);
          dis = (length (cf_Adapters c) = 1 \<and> ad_discard (cf_Adapters c ! 0));
          sampler = (cf_EnableSampling c \<and> cf_Sampler c);
          direct = (length (cf_Adapters c) = 1 \<and> \<not> dis \<and> \<not> enableMasking \<and> \<not> sampler
                    \<and> ad_raw (cf_Adapters c ! 0) \<and> ad_direct (cf_Adapters c ! 0));
          l = \<lparr>lg_component = cf_Component c, lg_adapters = cf_Adapters c, lg_enableMasking = enableMasking,
               lg_discard = dis, lg_sampler = sampler, lg_metrics = cf_EnableMetrics c,
               lg_recordCaller = (cf_EnableCaller c \<and> \<not> dis), lg_callerSkip = clampCallerSkip (cf_CallerSkip c),
               lg_boundFields = [], lg_boundBytes = [], lg_direct = direct,
               lg_hot = level_table (cf_Level c) (\<lambda>_. Noop) Noop Noop\<rparr>
      in l\<lparr>lg_hot := setupFunctionPointers l (cf_Level c)\<rparr>)"

section \<open>The pooled state of a line\<close>

record perPState =
  ps_static :: "typed_field list"   \<comment> \<open>the filled slots of \<^verbatim>\<open>entry.StaticFields\<close>\<close>
  ps_room :: nat                    \<comment> \<open>\<^verbatim>\<open>len(entry.StaticFields)\<close>\<close>
  ps_dynamic :: "typed_field list"  \<comment> \<open>\<^verbatim>\<open>entry.Fields\<close>\<close>
  ps_File :: string
  ps_Line :: int
  ps_directJSON :: "json_formatter option"
  ps_directFields :: bytes
  ps_owner :: "logger option"
  ps_lineLevel :: nat
  ps_epoch :: "32 word"

definition new_perPState :: perPState where
  "new_perPState = \<lparr>ps_static = [], ps_room = 64, ps_dynamic = [], ps_File = [], ps_Line = 0, ps_directJSON = None,
     ps_directFields = [], ps_owner = None, ps_lineLevel = 0, ps_epoch = 0\<rparr>"

definition pool_get :: "perPState \<Rightarrow> perPState" where
  "pool_get s = s\<lparr>ps_static := [], ps_directJSON := None, ps_directFields := [], ps_room := 64\<rparr>"

definition pool_put :: "perPState \<Rightarrow> perPState" where
  "pool_put s = s\<lparr>ps_static := [], ps_dynamic := [], ps_owner := None, ps_epoch := ps_epoch s + 1\<rparr>"

definition prefillBound :: "logger \<Rightarrow> perPState \<Rightarrow> perPState" where
  "prefillBound l s = (if lg_boundFields l = [] then s else s\<lparr>ps_static := take (ps_room s) (lg_boundFields l)\<rparr>)"

definition acquireState :: "'s log_env \<Rightarrow> logger \<Rightarrow> perPState \<Rightarrow> perPState" where
  "acquireState env l s =
     (let s = pool_get s;
          s = (if lg_direct l then s\<lparr>ps_directJSON := en_encoder env\<rparr> else s)
      in if ps_directJSON s = None then prefillBound l s else s)"

definition captureState :: "logger \<Rightarrow> perPState \<Rightarrow> perPState" where
  "captureState l s = prefillBound l (pool_get s)"

definition captured :: "field_key option \<Rightarrow> string \<Rightarrow> field_value \<Rightarrow> typed_field" where
  "captured kd key v = \<lparr>tf_Key = key, tf_KeyDesc = kd, tf_Val = v, tf_Value = GNil\<rparr>"

definition captureField :: "perPState \<Rightarrow> field_key option \<Rightarrow> string \<Rightarrow> field_value \<Rightarrow> perPState" where
  "captureField s kd key v =
     (if length (ps_static s) < ps_room s
      then s\<lparr>ps_static := ps_static s @ [captured kd key v]\<rparr>
      else s\<lparr>ps_dynamic := ps_dynamic s @ [captured kd key v]\<rparr>)"

definition addField :: "perPState \<Rightarrow> field_key option \<Rightarrow> string \<Rightarrow> field_value \<Rightarrow> perPState" where
  "addField s kd key v = (if ps_directJSON s \<noteq> None
     then s\<lparr>ps_directFields := AppendField (ps_directFields s) kd key v\<rparr> else captureField s kd key v)"

definition addStr :: "perPState \<Rightarrow> field_key option \<Rightarrow> string \<Rightarrow> string \<Rightarrow> perPState" where
  "addStr s kd key v = (if ps_directJSON s \<noteq> None
     then s\<lparr>ps_directFields := AppendStringField (ps_directFields s) kd key v\<rparr> else captureField s kd key (StringValue v))"

definition addInt :: "perPState \<Rightarrow> field_key option \<Rightarrow> string \<Rightarrow> int \<Rightarrow> perPState" where
  "addInt s kd key v = (if ps_directJSON s \<noteq> None
     then s\<lparr>ps_directFields := AppendIntField (ps_directFields s) kd key v\<rparr> else captureField s kd key (IntValue v))"

definition addInt64 :: "perPState \<Rightarrow> field_key option \<Rightarrow> string \<Rightarrow> int \<Rightarrow> perPState" where
  "addInt64 s kd key v = (if ps_directJSON s \<noteq> None
     then s\<lparr>ps_directFields := AppendIntField (ps_directFields s) kd key v\<rparr> else captureField s kd key (Int64Value v))"

definition addFloat64 :: "perPState \<Rightarrow> field_key option \<Rightarrow> string \<Rightarrow> go_float \<Rightarrow> perPState" where
  "addFloat64 s kd key v = (if ps_directJSON s \<noteq> None
     then s\<lparr>ps_directFields := AppendFloat64Field (ps_directFields s) kd key v\<rparr> else captureField s kd key (Float64Value v))"

definition addBool :: "perPState \<Rightarrow> field_key option \<Rightarrow> string \<Rightarrow> bool \<Rightarrow> perPState" where
  "addBool s kd key v = (if ps_directJSON s \<noteq> None
     then s\<lparr>ps_directFields := AppendBoolField (ps_directFields s) kd key v\<rparr> else captureField s kd key (BoolValue v))"

definition addErr :: "perPState \<Rightarrow> field_key option \<Rightarrow> string \<Rightarrow> string \<Rightarrow> perPState" where
  "addErr s kd key err = (if ps_directJSON s \<noteq> None
     then s\<lparr>ps_directFields := AppendStringField (ps_directFields s) kd key err\<rparr>
     else captureField s kd key (ErrorValue (Some err)))"

text \<open>The argument of a typed setter, and the setter it calls.\<close>

datatype field_arg = AStr string | AInt int | AInt64 int | AFloat go_float | ABool bool | AErr string | AAny go_any

fun add_arg :: "perPState \<Rightarrow> field_key option \<times> string \<times> field_arg \<Rightarrow> perPState" where
  "add_arg s (kd, key, AStr v) = addStr s kd key v"
| "add_arg s (kd, key, AInt v) = addInt s kd key v"
| "add_arg s (kd, key, AInt64 v) = addInt64 s kd key v"
| "add_arg s (kd, key, AFloat v) = addFloat64 s kd key v"
| "add_arg s (kd, key, ABool v) = addBool s kd key v"
| "add_arg s (kd, key, AErr v) = addErr s kd key v"
| "add_arg s (kd, key, AAny v) = addField s kd key (AnyValue v)"

fun arg_value :: "field_arg \<Rightarrow> field_value" where
  "arg_value (AStr v) = StringValue v"
| "arg_value (AInt v) = IntValue v"
| "arg_value (AInt64 v) = Int64Value v"
| "arg_value (AFloat v) = Float64Value v"
| "arg_value (ABool v) = BoolValue v"
| "arg_value (AErr v) = ErrorValue (Some v)"
| "arg_value (AAny v) = AnyValue v"

definition arg_field :: "field_key option \<times> string \<times> field_arg \<Rightarrow> typed_field" where
  "arg_field a = (case a of (kd, key, v) \<Rightarrow> captured kd key (arg_value v))"

section \<open>Writing\<close>

definition emit :: "sink_event \<Rightarrow> 's log_world \<Rightarrow> 's log_world" where
  "emit ev w = w\<lparr>w_events := w_events w @ [ev]\<rparr>"

definition bump :: "logger \<Rightarrow> nat \<Rightarrow> 's log_world \<Rightarrow> 's log_world" where
  "bump l level w = (if lg_metrics l then w\<lparr>w_counts := (w_counts w)(level := wrap_s64 (w_counts w level + 1))\<rparr> else w)"

definition write_one :: "logger \<Rightarrow> string \<Rightarrow> log_entry \<Rightarrow> nat \<Rightarrow> 's log_world \<Rightarrow> 's log_world" where
  "write_one l cname e i w = (if ad_discard (lg_adapters l ! i) then w else emit (Wrote i cname e) w)"

definition write_each :: "logger \<Rightarrow> log_entry \<Rightarrow> 's log_world \<Rightarrow> 's log_world" where
  "write_each l e w = fold (write_one l (lg_component l) e) [0..<length (lg_adapters l)] w"

definition writeEntry :: "'s log_env \<Rightarrow> logger \<Rightarrow> log_entry \<Rightarrow> 's log_world \<Rightarrow> 's log_world" where
  "writeEntry env l e w =
     (let e = (if lg_enableMasking l then en_mask env e else e);
          w = (if length (lg_adapters l) = 1 then write_one l (lg_component l) e 0 w else write_each l e w)
      in bump l (le_Level e) w)"

definition lg_Flush :: "logger \<Rightarrow> 's log_world \<Rightarrow> 's log_world" where
  "lg_Flush l w = fold (\<lambda>i w. if ad_discard (lg_adapters l ! i) then w else emit (Flushed i) w) [0..<length (lg_adapters l)] w"

definition message_entry :: "'s log_env \<Rightarrow> nat \<Rightarrow> string \<Rightarrow> log_entry" where
  "message_entry env level msg = \<lparr>le_Timestamp = None, le_TimestampUnix = en_now env, le_Level = level, le_Message = msg,
     le_File = [], le_Line = 0, le_Fields = [], le_StaticFields = [], le_StaticFieldCount = 0\<rparr>"

definition terminal_entry :: "'s log_env \<Rightarrow> logger \<Rightarrow> nat \<Rightarrow> string \<Rightarrow> log_entry" where
  "terminal_entry env l level msg =
     (let e = message_entry env level msg
      in if lg_recordCaller l then e\<lparr>le_File := fst (en_site env), le_Line := snd (en_site env)\<rparr> else e)"

definition realFatal :: "'s log_env \<Rightarrow> logger \<Rightarrow> string \<Rightarrow> 's log_world \<Rightarrow> 's log_world" where
  "realFatal env l msg w =
     (let w = writeEntry env l (terminal_entry env l FatalLevel msg) w; w = lg_Flush l w in emit (Exited 1) w)"

definition realPanic :: "'s log_env \<Rightarrow> logger \<Rightarrow> string \<Rightarrow> 's log_world \<Rightarrow> 's log_world" where
  "realPanic env l msg w =
     (let w = writeEntry env l (terminal_entry env l PanicLevel msg) w in emit (Panicked msg) w)"

definition callerMember :: "string \<times> int \<Rightarrow> bytes" where
  "callerMember site = (if fst site = [] then [] else AppendCaller [] (fst site) (snd site))"

definition line_entry :: "'s log_env \<Rightarrow> perPState \<Rightarrow> nat \<Rightarrow> string \<Rightarrow> log_entry" where
  "line_entry env s level msg = \<lparr>le_Timestamp = None, le_TimestampUnix = en_now env, le_Level = level, le_Message = msg,
     le_File = ps_File s, le_Line = ps_Line s, le_Fields = ps_dynamic s, le_StaticFields = ps_static s,
     le_StaticFieldCount = int (length (ps_static s))\<rparr>"

text \<open>
  The dispatch of a line: the state as it goes back to the pool, and the world. A stale call changes
  neither. \<open>finish_line\<close> is the switch at the end, \<open>write_line\<close> the capture branch after sampling.
\<close>

definition finish_line :: "logger \<Rightarrow> nat \<Rightarrow> string \<Rightarrow> 's log_world \<Rightarrow> 's log_world" where
  "finish_line l level msg w =
     (if level = FatalLevel then emit (Exited 1) (lg_Flush l w)
      else if level = PanicLevel then emit (Panicked msg) w else w)"

definition write_line :: "'s log_env \<Rightarrow> logger \<Rightarrow> log_entry \<Rightarrow> nat \<Rightarrow> 's log_world \<Rightarrow> 's log_world" where
  "write_line env l e level w =
     (let e = (if lg_recordCaller l then e\<lparr>le_File := fst (en_site env), le_Line := snd (en_site env)\<rparr> else e);
          e = (if lg_enableMasking l then en_mask env e else e);
          w = (if lg_discard l then w
               else if length (lg_adapters l) = 1 then write_one l (lg_component l) e 0 w
               else write_each l e w)
      in bump l level w)"

definition dispatchLine ::
  "'s log_env \<Rightarrow> logger \<Rightarrow> perPState \<Rightarrow> 32 word \<Rightarrow> nat \<Rightarrow> string \<Rightarrow> 's log_world \<Rightarrow> perPState \<times> 's log_world" where
  "dispatchLine env l s epoch level msg w =
     (if ps_epoch s \<noteq> epoch then (s, w)
      else if level < logger_level l then (pool_put s, w)
      else case ps_directJSON s of
          Some f \<Rightarrow>
            let (hc, line) = appendHeaderWith (jf_tz f) (jf_precision f) (w_cache w) [] (en_now env) level msg;
                line = (if lg_recordCaller l then line @ callerMember (en_site env) else line);
                line = line @ lg_boundBytes l;
                line = line @ ps_directFields s;
                line = AppendCloser line;
                w = emit (Raw 0 line) (w\<lparr>w_cache := hc\<rparr>);
                w = bump l level w
            in (pool_put s, finish_line l level msg w)
        | None \<Rightarrow>
            let e = line_entry env s level msg; s = s\<lparr>ps_room := length (ps_static s)\<rparr> in
            if lg_sampler l \<and> level < FatalLevel then
              (let (samp, keep) = en_sample env (w_sampler w) e; w = w\<lparr>w_sampler := samp\<rparr> in
               if \<not> keep then (pool_put s, w)
               else let w = write_line env l e level w; s = (if lg_recordCaller l then s\<lparr>ps_File := [], ps_Line := 0\<rparr> else s)
                    in (pool_put s, finish_line l level msg w))
            else let w = write_line env l e level w; s = (if lg_recordCaller l then s\<lparr>ps_File := [], ps_Line := 0\<rparr> else s)
                 in (pool_put s, finish_line l level msg w))"

section \<open>Message-only lines\<close>

definition logDirect :: "'s log_env \<Rightarrow> logger \<Rightarrow> nat \<Rightarrow> string \<Rightarrow> perPState \<Rightarrow> 's log_world \<Rightarrow> perPState \<times> 's log_world" where
  "logDirect env l level msg s w =
     (case en_encoder env of
        None \<Rightarrow> let s = captureState l s in dispatchLine env l s (ps_epoch s) level msg w
      | Some f \<Rightarrow>
          let s = pool_get s;
              (hc, line) = appendHeaderWith (jf_tz f) (jf_precision f) (w_cache w) [] (en_now env) level msg;
              line = line @ lg_boundBytes l;
              line = AppendCloser line;
              w = emit (Raw 0 line) (w\<lparr>w_cache := hc\<rparr>);
              w = bump l level w
          in (pool_put s, w))"

definition logBoundCapture :: "'s log_env \<Rightarrow> logger \<Rightarrow> nat \<Rightarrow> string \<Rightarrow> perPState \<Rightarrow> 's log_world \<Rightarrow> perPState \<times> 's log_world" where
  "logBoundCapture env l level msg s w = (let s = captureState l s in dispatchLine env l s (ps_epoch s) level msg w)"

definition logCaller :: "'s log_env \<Rightarrow> logger \<Rightarrow> nat \<Rightarrow> string \<Rightarrow> perPState \<Rightarrow> 's log_world \<Rightarrow> perPState \<times> 's log_world" where
  "logCaller env l level msg s w = (let s = acquireState env l s in dispatchLine env l s (ps_epoch s) level msg w)"

definition logSampled :: "'s log_env \<Rightarrow> logger \<Rightarrow> nat \<Rightarrow> string \<Rightarrow> 's log_world \<Rightarrow> 's log_world" where
  "logSampled env l level msg w =
     (let e = message_entry env level msg; (samp, keep) = en_sample env (w_sampler w) e; w = w\<lparr>w_sampler := samp\<rparr>
      in if keep then writeEntry env l e w else w)"

definition logDiscard :: "logger \<Rightarrow> nat \<Rightarrow> string \<Rightarrow> 's log_world \<Rightarrow> 's log_world" where
  "logDiscard l level msg w =
     (let w = bump l level w
      in if level = FatalLevel then emit (Exited 1) w else if level = PanicLevel then emit (Panicked msg) w else w)"

text \<open>The specialised functions of \<^verbatim>\<open>logger_specialized.go\<close>, by masking and number of adapters.\<close>

definition noMaskOne :: "'s log_env \<Rightarrow> logger \<Rightarrow> nat \<Rightarrow> string \<Rightarrow> 's log_world \<Rightarrow> 's log_world" where
  "noMaskOne env l level msg w =
     (let e = message_entry env level msg in bump l level (write_one l (lg_component l) e 0 w))"

definition noMaskMulti :: "'s log_env \<Rightarrow> logger \<Rightarrow> nat \<Rightarrow> string \<Rightarrow> 's log_world \<Rightarrow> 's log_world" where
  "noMaskMulti env l level msg w = (let e = message_entry env level msg in bump l level (write_each l e w))"

definition maskOne :: "'s log_env \<Rightarrow> logger \<Rightarrow> nat \<Rightarrow> string \<Rightarrow> 's log_world \<Rightarrow> 's log_world" where
  "maskOne env l level msg w =
     (let e = en_mask env (message_entry env level msg) in bump l level (write_one l (lg_component l) e 0 w))"

definition maskMulti :: "'s log_env \<Rightarrow> logger \<Rightarrow> nat \<Rightarrow> string \<Rightarrow> 's log_world \<Rightarrow> 's log_world" where
  "maskMulti env l level msg w = (let e = en_mask env (message_entry env level msg) in bump l level (write_each l e w))"

fun run_fn :: "'s log_env \<Rightarrow> logger \<Rightarrow> level_fn \<Rightarrow> string \<Rightarrow> perPState \<Rightarrow> 's log_world \<Rightarrow> perPState \<times> 's log_world" where
  "run_fn env l Noop msg s w = (s, w)"
| "run_fn env l (CallerFn v) msg s w = logCaller env l v msg s w"
| "run_fn env l (BoundFn v) msg s w = logBoundCapture env l v msg s w"
| "run_fn env l (SampledFn v) msg s w = (s, logSampled env l v msg w)"
| "run_fn env l (DirectFn v) msg s w = logDirect env l v msg s w"
| "run_fn env l (DiscardFn v) msg s w = (s, logDiscard l v msg w)"
| "run_fn env l (NoMaskOne v) msg s w = (s, noMaskOne env l v msg w)"
| "run_fn env l (NoMaskMulti v) msg s w = (s, noMaskMulti env l v msg w)"
| "run_fn env l (MaskOne v) msg s w = (s, maskOne env l v msg w)"
| "run_fn env l (MaskMulti v) msg s w = (s, maskMulti env l v msg w)"
| "run_fn env l RealTrace msg s w = (s, writeEntry env l (message_entry env TraceLevel msg) w)"
| "run_fn env l RealFatal msg s w = (s, realFatal env l msg w)"
| "run_fn env l RealPanic msg s w = (s, realPanic env l msg w)"

datatype log_method = LTrace | LDebug | LInfo | LWarn | LError | LFatal | LPanic

fun method_level :: "log_method \<Rightarrow> nat" where
  "method_level LTrace = TraceLevel" | "method_level LDebug = DebugLevel" | "method_level LInfo = InfoLevel"
| "method_level LWarn = WarnLevel" | "method_level LError = ErrorLevel" | "method_level LFatal = FatalLevel"
| "method_level LPanic = PanicLevel"

fun hot_fn :: "hot_state \<Rightarrow> log_method \<Rightarrow> level_fn" where
  "hot_fn h LTrace = hot_traceFunc h" | "hot_fn h LDebug = hot_debugFunc h" | "hot_fn h LInfo = hot_infoFunc h"
| "hot_fn h LWarn = hot_warnFunc h" | "hot_fn h LError = hot_errorFunc h" | "hot_fn h LFatal = hot_fatalFunc h"
| "hot_fn h LPanic = hot_panicFunc h"

definition log_message :: "'s log_env \<Rightarrow> logger \<Rightarrow> log_method \<Rightarrow> string \<Rightarrow> perPState \<Rightarrow> 's log_world \<Rightarrow> perPState \<times> 's log_world" where
  "log_message env l m msg s w = run_fn env l (hot_fn (lg_hot l) m) msg s w"

end
