(* ===== verification/Core_Dispatch.thy ===== *)
theory Core_Dispatch
  imports Core_Logger
begin

text \<open>
  What a logger promises, and that every route through it keeps the promise. The first part models the
  calls an application makes: child loggers (\<^verbatim>\<open>core/context.go\<close>), the builder (\<^verbatim>\<open>core/builder.go\<close>), and
  the four ways to log a line, message-only, by the typed builder, by a level-first line and by the
  builder of interface-valued fields (\<^verbatim>\<open>core/fluent_typed.go\<close>, \<^verbatim>\<open>core/line.go\<close>, \<^verbatim>\<open>core/fluent.go\<close>). The second part is the
  reference: one line, filtered, sampled, masked, written to every adapter and counted. The third part
  shows that every specialised function and both encodings agree with it.
\<close>

section \<open>Child loggers and the builder\<close>

record log_context =
  cx_l :: logger
  cx_fields :: "typed_field list"
  cx_bytes :: bytes

definition maxBoundFields :: nat where "maxBoundFields = 32"

definition lg_With :: "logger \<Rightarrow> log_context" where
  "lg_With l = (if lg_boundFields l \<noteq> []
     then \<lparr>cx_l = l, cx_fields = lg_boundFields l, cx_bytes = lg_boundBytes l\<rparr>
     else \<lparr>cx_l = l, cx_fields = [], cx_bytes = []\<rparr>)"

definition cx_add :: "log_context \<Rightarrow> field_key option \<Rightarrow> string \<Rightarrow> field_value \<Rightarrow> log_context" where
  "cx_add c kd key v =
     (if length (cx_fields c) \<ge> maxBoundFields then c
      else c\<lparr>cx_fields := cx_fields c @ [captured kd key v], cx_bytes := AppendField (cx_bytes c) kd key v\<rparr>)"

fun cx_arg :: "log_context \<Rightarrow> field_key option \<times> string \<times> field_arg \<Rightarrow> log_context" where
  "cx_arg c (kd, key, a) = cx_add c kd key (arg_value a)"

definition cx_Logger :: "log_context \<Rightarrow> logger" where
  "cx_Logger c =
     (let parent = cx_l c;
          child = parent\<lparr>lg_boundFields := cx_fields c, lg_boundBytes := cx_bytes c\<rparr>
      in child\<lparr>lg_hot := setupFunctionPointers child (logger_level parent)\<rparr>)"

text \<open>Every logger is built from a configuration and derived from its parent with some fields.\<close>

inductive descends :: "core_config \<Rightarrow> logger \<Rightarrow> bool" for c where
  root: "descends c (NewLogger c)"
| child: "descends c l \<Longrightarrow> descends c (cx_Logger (foldl cx_arg (lg_With l) args))"

record core_builder =
  cb_config :: core_config
  cb_errors :: "string list"

definition cb_New :: core_builder where
  "cb_New = \<lparr>cb_config = \<lparr>cf_Component = [], cf_Level = InfoLevel, cf_Adapters = [], cf_EnableMasking = False,
     cf_Masker = False, cf_EnableSampling = False, cf_Sampler = False, cf_EnableMetrics = False,
     cf_EnableCaller = False, cf_CallerSkip = 0, cf_EnableAlerts = False, cf_EnableAggregation = False\<rparr>, cb_errors = []\<rparr>"

datatype builder_call =
    BComponent string | BLevel nat | BAdapter adapter | BAdapters "adapter list" | BDiscard | BMasking bool | BSampling bool
  | BMetrics | BAlerts | BAggregation | BCaller | BCallerSkip int

definition discard_adapter :: adapter where
  "discard_adapter = \<lparr>ad_discard = True, ad_raw = False, ad_direct = False\<rparr>"

fun cb_step :: "core_builder \<Rightarrow> builder_call \<Rightarrow> core_builder" where
  "cb_step b (BComponent name) = b\<lparr>cb_config := (cb_config b)\<lparr>cf_Component := name\<rparr>\<rparr>"
| "cb_step b (BLevel level) = b\<lparr>cb_config := (cb_config b)\<lparr>cf_Level := level\<rparr>\<rparr>"
| "cb_step b (BAdapter a) = b\<lparr>cb_config := (cb_config b)\<lparr>cf_Adapters := cf_Adapters (cb_config b) @ [a]\<rparr>\<rparr>"
| "cb_step b (BAdapters as) = b\<lparr>cb_config := (cb_config b)\<lparr>cf_Adapters := cf_Adapters (cb_config b) @ as\<rparr>\<rparr>"
| "cb_step b BDiscard = b\<lparr>cb_config := (cb_config b)\<lparr>cf_Adapters := cf_Adapters (cb_config b) @ [discard_adapter]\<rparr>\<rparr>"
| "cb_step b (BMasking given) = b\<lparr>cb_config := (cb_config b)\<lparr>cf_EnableMasking := True, cf_Masker := given\<rparr>\<rparr>"
| "cb_step b (BSampling given) = b\<lparr>cb_config := (cb_config b)\<lparr>cf_EnableSampling := True, cf_Sampler := given\<rparr>\<rparr>"
| "cb_step b BMetrics = b\<lparr>cb_config := (cb_config b)\<lparr>cf_EnableMetrics := True\<rparr>\<rparr>"
| "cb_step b BAlerts = b\<lparr>cb_config := (cb_config b)\<lparr>cf_EnableAlerts := True\<rparr>\<rparr>"
| "cb_step b BAggregation = b\<lparr>cb_config := (cb_config b)\<lparr>cf_EnableAggregation := True\<rparr>\<rparr>"
| "cb_step b BCaller = b\<lparr>cb_config := (cb_config b)\<lparr>cf_EnableCaller := True\<rparr>\<rparr>"
| "cb_step b (BCallerSkip skip) =
     (if skip < 0 \<or> skip > 64
      then b\<lparr>cb_errors := cb_errors b @ [''core: CallerSkip('' @ itoa skip @ '') is outside [0, 64]'']\<rparr>
      else b\<lparr>cb_config := (cb_config b)\<lparr>cf_CallerSkip := skip\<rparr>\<rparr>)"

definition cb_Build :: "core_builder \<Rightarrow> string + logger" where
  "cb_Build b =
     (if length (cb_errors b) > 0 then Inl (cb_errors b ! 0)
      else let c = cb_config b;
               c = (if length (cf_Adapters c) = 0 then c\<lparr>cf_Adapters := cf_Adapters c @ [discard_adapter]\<rparr> else c)
           in Inr (NewLogger c))"

section \<open>The ways to log a line\<close>

text \<open>
  A typed setter acquires the state at the first field; a level-first line acquires it when it is
  opened, unless its level is disabled. An interface-valued field carries no typed value.
\<close>

definition typed_line ::
  "'s log_env \<Rightarrow> logger \<Rightarrow> (field_key option \<times> string \<times> field_arg) list \<Rightarrow> log_method \<Rightarrow> string \<Rightarrow> perPState \<Rightarrow> 's log_world
   \<Rightarrow> perPState \<times> 's log_world" where
  "typed_line env l args m msg s w =
     (if args = [] then log_message env l m msg s w
      else let s = acquireState env l s; epoch = ps_epoch s; s = foldl add_arg s args
           in dispatchLine env l s epoch (method_level m) msg w)"

definition open_line :: "'s log_env \<Rightarrow> logger \<Rightarrow> nat \<Rightarrow> perPState \<Rightarrow> (perPState \<times> 32 word) option" where
  "open_line env l level s =
     (if level < logger_level l then None
      else let s = acquireState env l s; s = s\<lparr>ps_owner := Some l, ps_lineLevel := level\<rparr> in Some (s, ps_epoch s))"

definition line_add :: "perPState \<Rightarrow> 32 word \<Rightarrow> field_key option \<times> string \<times> field_arg \<Rightarrow> perPState" where
  "line_add s epoch a = (if ps_epoch s = epoch then add_arg s a else s)"

definition line_Msg :: "'s log_env \<Rightarrow> perPState \<Rightarrow> 32 word \<Rightarrow> string \<Rightarrow> 's log_world \<Rightarrow> perPState \<times> 's log_world" where
  "line_Msg env s epoch msg w =
     (if ps_epoch s \<noteq> epoch then (s, w)
      else case ps_owner s of
          None \<Rightarrow> (s, w)
        | Some l \<Rightarrow> dispatchLine env l s epoch (ps_lineLevel s) msg w)"

definition level_line ::
  "'s log_env \<Rightarrow> logger \<Rightarrow> nat \<Rightarrow> (field_key option \<times> string \<times> field_arg) list \<Rightarrow> string \<Rightarrow> perPState \<Rightarrow> 's log_world
   \<Rightarrow> perPState \<times> 's log_world" where
  "level_line env l level args msg s w =
     (case open_line env l level s of
        None \<Rightarrow> (s, w)
      | Some (s, epoch) \<Rightarrow> line_Msg env (foldl (\<lambda>s a. line_add s epoch a) s args) epoch msg w)"

definition iface_field :: "string \<Rightarrow> go_any \<Rightarrow> typed_field" where
  "iface_field key v = \<lparr>tf_Key = key, tf_KeyDesc = None, tf_Val = zero_value, tf_Value = v\<rparr>"

definition lg_WithField :: "logger \<Rightarrow> string \<Rightarrow> go_any \<Rightarrow> perPState \<Rightarrow> perPState" where
  "lg_WithField l key v s = (let s = captureState l s in s\<lparr>ps_static := ps_static s @ [iface_field key v]\<rparr>)"

definition fb_store :: "perPState \<Rightarrow> string \<times> go_any \<Rightarrow> perPState" where
  "fb_store s kv =
     (if length (ps_static s) < ps_room s then s\<lparr>ps_static := ps_static s @ [iface_field (fst kv) (snd kv)]\<rparr>
      else s\<lparr>ps_dynamic := ps_dynamic s @ [iface_field (fst kv) (snd kv)]\<rparr>)"

text \<open>\<open>field_line\<close> starts with \<^verbatim>\<open>Logger.WithField\<close>; \<open>lazy_field_line\<close> starts with \<^verbatim>\<open>Logger.WithError(nil)\<close>.\<close>

definition field_line ::
  "'s log_env \<Rightarrow> logger \<Rightarrow> string \<times> go_any \<Rightarrow> (string \<times> go_any) list \<Rightarrow> log_method \<Rightarrow> string \<Rightarrow> perPState \<Rightarrow> 's log_world
   \<Rightarrow> perPState \<times> 's log_world" where
  "field_line env l kv kvs m msg s w =
     (let s = lg_WithField l (fst kv) (snd kv) s; epoch = ps_epoch s; s = foldl fb_store s kvs
      in dispatchLine env l s epoch (method_level m) msg w)"

definition lazy_field_line ::
  "'s log_env \<Rightarrow> logger \<Rightarrow> (string \<times> go_any) list \<Rightarrow> log_method \<Rightarrow> string \<Rightarrow> perPState \<Rightarrow> 's log_world
   \<Rightarrow> perPState \<times> 's log_world" where
  "lazy_field_line env l kvs m msg s w =
     (if kvs = [] then log_message env l m msg s w
      else let s = pool_get s; epoch = ps_epoch s; s = foldl fb_store s kvs
           in dispatchLine env l s epoch (method_level m) msg w)"

section \<open>The reference\<close>

definition spec_entry :: "'s log_env \<Rightarrow> nat \<Rightarrow> string \<Rightarrow> typed_field list \<Rightarrow> log_entry" where
  "spec_entry env level msg fs = \<lparr>le_Timestamp = None, le_TimestampUnix = en_now env, le_Level = level, le_Message = msg,
     le_File = [], le_Line = 0, le_Fields = drop 64 fs, le_StaticFields = take 64 fs,
     le_StaticFieldCount = int (length (take 64 fs))\<rparr>"

definition with_site :: "'s log_env \<Rightarrow> logger \<Rightarrow> log_entry \<Rightarrow> log_entry" where
  "with_site env l e = (if lg_recordCaller l then e\<lparr>le_File := fst (en_site env), le_Line := snd (en_site env)\<rparr> else e)"

definition masked :: "'s log_env \<Rightarrow> logger \<Rightarrow> log_entry \<Rightarrow> log_entry" where
  "masked env l e = (if lg_enableMasking l then en_mask env e else e)"

definition live_adapters :: "logger \<Rightarrow> nat list" where
  "live_adapters l = filter (\<lambda>i. \<not> ad_discard (lg_adapters l ! i)) [0..<length (lg_adapters l)]"

definition writes :: "logger \<Rightarrow> log_entry \<Rightarrow> sink_event list" where
  "writes l e = map (\<lambda>i. Wrote i (lg_component l) e) (live_adapters l)"

definition ending :: "logger \<Rightarrow> nat \<Rightarrow> string \<Rightarrow> sink_event list" where
  "ending l level msg =
     (if level = FatalLevel then map Flushed (live_adapters l) @ [Exited 1]
      else if level = PanicLevel then [Panicked msg] else [])"

definition spec_line :: "'s log_env \<Rightarrow> logger \<Rightarrow> nat \<Rightarrow> string \<Rightarrow> typed_field list \<Rightarrow> 's log_world \<Rightarrow> 's log_world" where
  "spec_line env l level msg fs w =
     (let e = spec_entry env level msg fs;
          (samp, keep) = (if lg_sampler l \<and> level < FatalLevel then en_sample env (w_sampler w) e else (w_sampler w, True));
          w = w\<lparr>w_sampler := samp\<rparr>
      in if keep
         then bump l level (w\<lparr>w_events := w_events w @ writes l (masked env l (with_site env l e)) @ ending l level msg\<rparr>)
         else w)"

text \<open>
  A raw line shows at the adapter as the entry does that the adapter's formatter renders to it; that is
  the only difference between the encodings.
\<close>

definition json_text :: "json_formatter \<Rightarrow> log_entry \<Rightarrow> bytes" where
  "json_text f e = snd (Format (jf_tz f) (jf_precision f) empty_cache (Some e) [])"

fun deliver :: "json_formatter \<Rightarrow> sink_event \<Rightarrow> sink_event" where
  "deliver f (Wrote i _ e) = Raw i (json_text f e)"
| "deliver f ev = ev"

definition shown :: "'s log_env \<Rightarrow> logger \<Rightarrow> sink_event \<Rightarrow> sink_event" where
  "shown env l ev = (if lg_direct l then case en_encoder env of Some f \<Rightarrow> deliver f ev | None \<Rightarrow> ev else ev)"

definition same_output :: "'s log_env \<Rightarrow> logger \<Rightarrow> 's log_world \<Rightarrow> 's log_world \<Rightarrow> bool" where
  "same_output env l w w' \<longleftrightarrow> map (shown env l) (w_events w) = map (shown env l) (w_events w')
     \<and> w_counts w = w_counts w' \<and> w_sampler w = w_sampler w' \<and> (\<not> lg_direct l \<longrightarrow> w_cache w = w_cache w')"

definition env_ok :: "'s log_env \<Rightarrow> bool" where
  "env_ok env \<longleftrightarrow> is_s64 (en_now env) \<and> (fst (en_site env) = [] \<or> snd (en_site env) \<ge> 0)
     \<and> (\<forall>f. en_encoder env = Some f \<longrightarrow> tz_ok (jf_tz f)) \<and> (\<forall>e. le_Level (en_mask env e) = le_Level e)"

definition world_ok :: "'s log_env \<Rightarrow> 's log_world \<Rightarrow> bool" where
  "world_ok env w \<longleftrightarrow> (\<forall>f. en_encoder env = Some f \<longrightarrow> cache_ok (jf_tz f) (w_cache w))"

text \<open>A state in the pool, and a well-formed logger.\<close>

definition pooled :: "perPState \<Rightarrow> bool" where
  "pooled s \<longleftrightarrow> ps_dynamic s = [] \<and> ps_File s = [] \<and> ps_Line s = 0"

definition logger_ok :: "logger \<Rightarrow> bool" where
  "logger_ok l \<longleftrightarrow> (lg_discard l \<longleftrightarrow> length (lg_adapters l) = 1 \<and> ad_discard (lg_adapters l ! 0))
     \<and> (lg_direct l \<longrightarrow> length (lg_adapters l) = 1 \<and> \<not> lg_discard l \<and> \<not> lg_enableMasking l \<and> \<not> lg_sampler l)
     \<and> (lg_recordCaller l \<longrightarrow> \<not> lg_discard l)
     \<and> length (lg_boundFields l) \<le> maxBoundFields
     \<and> lg_boundBytes l = foldl (\<lambda>d f. AppendField d (tf_KeyDesc f) (tf_Key f) (tf_Val f)) [] (lg_boundFields l)
     \<and> list_all (\<lambda>f. tf_Value f = GNil) (lg_boundFields l)
     \<and> lg_hot l = setupFunctionPointers l (logger_level l)"

section \<open>Writing, in closed form\<close>

lemma emit_simps [simp]:
  "w_events (emit ev w) = w_events w @ [ev]" "w_counts (emit ev w) = w_counts w" "w_sampler (emit ev w) = w_sampler w"
  "w_cache (emit ev w) = w_cache w"
  by (simp_all add: emit_def)

lemma bump_simps [simp]:
  "w_events (bump l v w) = w_events w" "w_sampler (bump l v w) = w_sampler w" "w_cache (bump l v w) = w_cache w"
  "bump l v (w\<lparr>w_events := evs\<rparr>) = (bump l v w)\<lparr>w_events := evs\<rparr>"
  "bump l v (w\<lparr>w_cache := hc\<rparr>) = (bump l v w)\<lparr>w_cache := hc\<rparr>"
  "bump l v (emit ev w) = emit ev (bump l v w)"
  by (simp_all add: bump_def emit_def)

lemma world_append: "w\<lparr>w_events := w_events w\<rparr> = w" by simp

lemma fold_emit:
  "fold (\<lambda>i w. if p i then w else emit (g i) w) is w
     = w\<lparr>w_events := w_events w @ map g (filter (\<lambda>i. \<not> p i) is)\<rparr>"
  by (induction "is" arbitrary: w) (simp_all add: emit_def)

lemma write_each_eq: "write_each l e w = w\<lparr>w_events := w_events w @ writes l e\<rparr>"
proof -
  have w: "write_one l (lg_component l) e
      = (\<lambda>i w. if ad_discard (lg_adapters l ! i) then w else emit (Wrote i (lg_component l) e) w)"
    by (intro ext) (simp add: write_one_def)
  show ?thesis unfolding write_each_def w fold_emit by (simp add: writes_def live_adapters_def)
qed

lemma write_single_eq: "length (lg_adapters l) = 1 \<Longrightarrow> write_one l (lg_component l) e 0 w = w\<lparr>w_events := w_events w @ writes l e\<rparr>"
  by (simp add: write_one_def writes_def live_adapters_def emit_def)

lemma lg_Flush_eq: "lg_Flush l w = w\<lparr>w_events := w_events w @ map Flushed (live_adapters l)\<rparr>"
  by (simp add: lg_Flush_def fold_emit live_adapters_def)

lemma discard_no_writes: "logger_ok l \<Longrightarrow> lg_discard l \<Longrightarrow> live_adapters l = []"
  by (simp add: logger_ok_def live_adapters_def)

lemma finish_line_eq: "finish_line l level msg w = w\<lparr>w_events := w_events w @ ending l level msg\<rparr>"
  by (simp add: finish_line_def ending_def lg_Flush_eq emit_def)

lemma writeEntry_eq:
  "writeEntry env l e w = bump l (le_Level (masked env l e)) (w\<lparr>w_events := w_events w @ writes l (masked env l e)\<rparr>)"
  by (simp add: writeEntry_def masked_def Let_def write_each_eq write_single_eq)

lemma write_line_eq:
  "logger_ok l \<Longrightarrow> write_line env l e level w
     = bump l level (w\<lparr>w_events := w_events w @ writes l (masked env l (with_site env l e))\<rparr>)"
  by (simp add: write_line_def masked_def with_site_def Let_def write_each_eq write_single_eq discard_no_writes writes_def)

section \<open>Loggers are well formed\<close>

lemma setup_level [simp]: "hot_level (setupFunctionPointers l v) = v"
  by (simp add: setupFunctionPointers_def level_table_def Let_def)

lemma setup_cong:
  assumes "lg_recordCaller l = lg_recordCaller l'" "lg_boundFields l = lg_boundFields l'" "lg_direct l = lg_direct l'"
    "lg_discard l = lg_discard l'" "lg_sampler l = lg_sampler l'" "lg_enableMasking l = lg_enableMasking l'"
    "lg_adapters l = lg_adapters l'"
  shows "setupFunctionPointers l v = setupFunctionPointers l' v"
  by (simp only: setupFunctionPointers_def assms)

lemma setup_stable:
  "lg_hot (l\<lparr>lg_hot := setupFunctionPointers l v\<rparr>)
     = setupFunctionPointers (l\<lparr>lg_hot := setupFunctionPointers l v\<rparr>) (logger_level (l\<lparr>lg_hot := setupFunctionPointers l v\<rparr>))"
proof -
  have "logger_level (l\<lparr>lg_hot := setupFunctionPointers l v\<rparr>) = v" by (simp add: logger_level_def)
  moreover have "setupFunctionPointers (l\<lparr>lg_hot := setupFunctionPointers l v\<rparr>) v = setupFunctionPointers l v"
    by (rule setup_cong) simp_all
  ultimately show ?thesis by simp
qed

lemma NewLogger_ok: "logger_ok (NewLogger c)"
  unfolding logger_ok_def
proof (intro conjI)
  show "lg_hot (NewLogger c) = setupFunctionPointers (NewLogger c) (logger_level (NewLogger c))"
    unfolding NewLogger_def Let_def by (rule setup_stable)
qed (auto simp: NewLogger_def Let_def)

lemma AppendField_captured: "foldl (\<lambda>d f. AppendField d (tf_KeyDesc f) (tf_Key f) (tf_Val f)) d (fs @ [captured kd key v])
    = AppendField (foldl (\<lambda>d f. AppendField d (tf_KeyDesc f) (tf_Key f) (tf_Val f)) d fs) kd key v"
  by (simp add: captured_def)

definition context_ok :: "log_context \<Rightarrow> bool" where
  "context_ok c \<longleftrightarrow> length (cx_fields c) \<le> maxBoundFields
     \<and> cx_bytes c = foldl (\<lambda>d f. AppendField d (tf_KeyDesc f) (tf_Key f) (tf_Val f)) [] (cx_fields c)
     \<and> list_all (\<lambda>f. tf_Value f = GNil) (cx_fields c)"

lemma cx_arg_ok: "context_ok c \<Longrightarrow> context_ok (cx_arg c a) \<and> cx_l (cx_arg c a) = cx_l c"
  by (cases a) (auto simp: context_ok_def cx_add_def AppendField_captured captured_def)

lemma cx_args_ok: "context_ok c \<Longrightarrow> context_ok (foldl cx_arg c args) \<and> cx_l (foldl cx_arg c args) = cx_l c"
  by (induction args arbitrary: c) (simp_all add: cx_arg_ok)

lemma cx_args_fields:
  "context_ok c \<Longrightarrow> cx_fields (foldl cx_arg c args) = take maxBoundFields (cx_fields c @ map arg_field args)"
proof (induction args arbitrary: c)
  case Nil
  then show ?case by (simp add: context_ok_def)
next
  case (Cons a args)
  obtain kd key v where a: "a = (kd, key, v)" by (cases a)
  show ?case
  proof (cases "length (cx_fields c) \<ge> maxBoundFields")
    case True
    with Cons show ?thesis by (simp add: a cx_add_def)
  next
    case False
    then have "maxBoundFields - length (cx_fields c) = Suc (maxBoundFields - Suc (length (cx_fields c)))" by simp
    with False Cons.IH [of "cx_arg c a"] cx_arg_ok [OF Cons.prems, of a] show ?thesis
      by (simp add: a cx_add_def arg_field_def)
  qed
qed

lemma descends_ok: "descends c l \<Longrightarrow> logger_ok l"
proof (induction rule: descends.induct)
  case root
  show ?case by (rule NewLogger_ok)
next
  case (child l args)
  let ?c = "foldl cx_arg (lg_With l) args"
  have w: "context_ok (lg_With l)" "cx_l (lg_With l) = l"
    using child.IH by (auto simp: lg_With_def context_ok_def logger_ok_def)
  note ok = cx_args_ok [OF w(1), of args, unfolded w(2) context_ok_def]
  show ?case unfolding logger_ok_def
  proof (intro conjI)
    show "lg_hot (cx_Logger ?c) = setupFunctionPointers (cx_Logger ?c) (logger_level (cx_Logger ?c))"
      unfolding cx_Logger_def Let_def by (rule setup_stable)
  qed (use ok child.IH in \<open>auto simp: cx_Logger_def logger_ok_def Let_def\<close>)
qed

section \<open>Fields\<close>

text \<open>What a state holds while a line is built: captured fields in order, or their encoding.\<close>

definition holds :: "perPState \<Rightarrow> typed_field list \<Rightarrow> bool" where
  "holds s fs \<longleftrightarrow> ps_File s = [] \<and> ps_Line s = 0 \<and>
     (if ps_directJSON s = None then ps_room s = 64 \<and> ps_static s = take 64 fs \<and> ps_dynamic s = drop 64 fs
      else ps_dynamic s = [] \<and> ps_static s = [] \<and> ps_directFields s = foldl appendField [] fs)"

lemma AppendField_appendField: "AppendField d kd key v = appendField d (captured kd key v)"
  by (simp add: AppendField_def appendField_def captured_def Let_def)

lemma typed_append_eqs:
  "AppendStringField d kd key s = AppendField d kd key (StringValue s)"
  "AppendStringField d kd key s = AppendField d kd key (ErrorValue (Some s))"
  "AppendIntField d kd key i = AppendField d kd key (IntValue i)"
  "AppendIntField d kd key i = AppendField d kd key (Int64Value i)"
  "AppendFloat64Field d kd key x = AppendField d kd key (Float64Value x)"
  "AppendBoolField d kd key b = AppendField d kd key (BoolValue b)"
  by (simp_all add: AppendStringField_def AppendIntField_def AppendFloat64Field_def AppendBoolField_def AppendField_def
      appendValue_def StringValue_def ErrorValue_def IntValue_def Int64Value_def Float64Value_def BoolValue_def zero_value_def
      Let_def del: appendFloat_eq)

lemma captureField_holds:
  assumes "holds s fs" and "ps_directJSON s = None"
  shows "holds (captureField s kd key v) (fs @ [captured kd key v])"
  using assms by (auto simp: holds_def captureField_def)

lemma add_arg_eq:
  "add_arg s a = (case a of (kd, key, v) \<Rightarrow>
     if ps_directJSON s \<noteq> None then s\<lparr>ps_directFields := AppendField (ps_directFields s) kd key (arg_value v)\<rparr>
     else captureField s kd key (arg_value v))"
proof (cases a)
  case (fields kd key v)
  show ?thesis
  proof (cases v)
    case (AStr x)
    then show ?thesis by (simp add: fields addStr_def typed_append_eqs(1))
  next
    case (AInt x)
    then show ?thesis by (simp add: fields addInt_def typed_append_eqs(3))
  next
    case (AInt64 x)
    then show ?thesis by (simp add: fields addInt64_def typed_append_eqs(4))
  next
    case (AFloat x)
    then show ?thesis by (simp add: fields addFloat64_def typed_append_eqs(5))
  next
    case (ABool x)
    then show ?thesis by (simp add: fields addBool_def typed_append_eqs(6))
  next
    case (AErr x)
    then show ?thesis by (simp add: fields addErr_def typed_append_eqs(2))
  next
    case (AAny x)
    then show ?thesis by (simp add: fields addField_def)
  qed
qed

lemma captureField_keeps [simp]:
  "ps_directJSON (captureField s kd key v) = ps_directJSON s" "ps_epoch (captureField s kd key v) = ps_epoch s"
  "ps_owner (captureField s kd key v) = ps_owner s" "ps_lineLevel (captureField s kd key v) = ps_lineLevel s"
  by (simp_all add: captureField_def)

lemma add_arg_keeps [simp]:
  "ps_directJSON (add_arg s a) = ps_directJSON s" "ps_epoch (add_arg s a) = ps_epoch s"
  "ps_owner (add_arg s a) = ps_owner s" "ps_lineLevel (add_arg s a) = ps_lineLevel s"
  by (simp_all add: add_arg_eq split: prod.split)

lemma add_arg_holds: "holds s fs \<Longrightarrow> holds (add_arg s a) (fs @ [arg_field a])"
proof (cases "ps_directJSON s = None")
  case True
  then show "holds s fs \<Longrightarrow> holds (add_arg s a) (fs @ [arg_field a])"
    by (simp add: add_arg_eq captureField_holds arg_field_def split: prod.split)
next
  case False
  then show "holds s fs \<Longrightarrow> holds (add_arg s a) (fs @ [arg_field a])"
    by (auto simp: add_arg_eq holds_def AppendField_appendField arg_field_def split: prod.split)
qed

lemma add_args_holds:
  "holds s fs \<Longrightarrow> holds (foldl add_arg s args) (fs @ map arg_field args)
     \<and> ps_epoch (foldl add_arg s args) = ps_epoch s \<and> ps_directJSON (foldl add_arg s args) = ps_directJSON s"
proof (induction args arbitrary: s fs)
  case (Cons a args)
  from Cons.IH [OF add_arg_holds [OF Cons.prems, of a]] show ?case by simp
qed simp

section \<open>One line, in both encodings\<close>

lemma line_entry_eq:
  assumes "holds s fs" and "ps_directJSON s = None"
  shows "line_entry env s level msg = spec_entry env level msg fs"
  using assms by (simp add: holds_def line_entry_def spec_entry_def)

lemma spec_line_eq:
  "spec_line env l level msg fs w =
     (let (samp, keep) = (if lg_sampler l \<and> level < FatalLevel then en_sample env (w_sampler w) (spec_entry env level msg fs)
                          else (w_sampler w, True));
          evs = writes l (masked env l (with_site env l (spec_entry env level msg fs))) @ ending l level msg
      in if keep then (bump l level w)\<lparr>w_sampler := samp, w_events := w_events w @ evs\<rparr> else w\<lparr>w_sampler := samp\<rparr>)"
  by (auto simp: spec_line_def Let_def bump_def split: prod.split)

lemma dispatch_capture:
  assumes "logger_ok l" and "holds s fs" and "ps_directJSON s = None" and "ps_epoch s = epoch"
  shows "snd (dispatchLine env l s epoch level msg w) = (if level < logger_level l then w else spec_line env l level msg fs w)"
proof (cases "level < logger_level l")
  case True
  with assms show ?thesis by (simp add: dispatchLine_def)
next
  case False
  have "snd (dispatchLine env l s epoch level msg w) = (if lg_sampler l \<and> level < FatalLevel then
      (let (samp, keep) = en_sample env (w_sampler w) (spec_entry env level msg fs) in
       if keep then finish_line l level msg (write_line env l (spec_entry env level msg fs) level (w\<lparr>w_sampler := samp\<rparr>))
       else w\<lparr>w_sampler := samp\<rparr>)
      else finish_line l level msg (write_line env l (spec_entry env level msg fs) level w))"
    using False assms(3,4) by (simp add: dispatchLine_def line_entry_eq [OF assms(2,3)] Let_def split: prod.split)
  with False show ?thesis
    by (auto simp: spec_line_def finish_line_eq write_line_eq [OF assms(1)] Let_def split: prod.split)
qed

lemma dispatch_pooled:
  assumes "holds s fs" and "ps_epoch s = epoch"
  shows "pooled (fst (dispatchLine env l s epoch level msg w))"
  using assms by (auto simp: dispatchLine_def holds_def pooled_def pool_put_def Let_def split: option.split prod.split if_splits)

lemma header_cache_irrelevant:
  assumes "tz_ok (jf_tz f)" "is_s64 n" "cache_ok (jf_tz f) hc"
  shows "snd (appendHeaderWith (jf_tz f) (jf_precision f) hc [] n level msg)
    = snd (appendHeaderWith (jf_tz f) (jf_precision f) empty_cache [] n level msg)"
  using appendHeaderWith_eq(1) [OF assms] appendHeaderWith_eq(1) [OF assms(1,2) cache_ok_empty] by simp

lemma json_text_spec:
  assumes "fst (en_site env) = [] \<or> snd (en_site env) \<ge> 0"
  shows "json_text f (with_site env l (spec_entry env level msg fs)) =
    snd (appendHeaderWith (jf_tz f) (jf_precision f) empty_cache [] (en_now env) level msg)
      @ (if lg_recordCaller l then callerMember (en_site env) else []) @ foldl appendField [] fs @ [CHR ''}'', CHR 0x0A]"
proof -
  let ?e = "with_site env l (spec_entry env level msg fs)"
  obtain hc d where h: "appendHeaderWith (jf_tz f) (jf_precision f) empty_cache [] (en_now env) level msg = (hc, d)" by fastforce
  have fields: "foldl appendField (foldl appendField x (take 64 fs)) (drop 64 fs) = foldl appendField x fs" for x
    using foldl_append [of appendField x "take 64 fs" "drop 64 fs"] by simp
  have n: "(if le_StaticFieldCount ?e > int (length (le_StaticFields ?e)) then int (length (le_StaticFields ?e)) else le_StaticFieldCount ?e)
      = int (length (take 64 fs))" by (simp add: with_site_def spec_entry_def)
  have all: "take (nat (int (length (take 64 fs)))) (take 64 fs) = take 64 fs" by (simp only: nat_int take_all order_refl)
  have e: "entryUnixNanos ?e = en_now env" "le_Level ?e = level" "le_Message ?e = msg" "le_StaticFields ?e = take 64 fs"
    "le_Fields ?e = drop 64 fs"
    by (simp_all add: with_site_def spec_entry_def entryUnixNanos_def)
  have c: "(if le_Line ?e \<ge> 0 \<and> le_File ?e \<noteq> [] then AppendCaller x (le_File ?e) (le_Line ?e) else x)
      = x @ (if lg_recordCaller l then callerMember (en_site env) else [])" for x
    using assms by (auto simp: with_site_def spec_entry_def callerMember_def AppendCaller_eq)
  show ?thesis
    unfolding json_text_def Format_def option.case n unfolding e h Let_def prod.case c snd_conv all fields
    by (simp add: foldl_appendField_append [of "d @ _"] foldl_appendField_append [of d])
qed

lemma direct_not_discard: "logger_ok l \<Longrightarrow> lg_direct l \<Longrightarrow> \<not> lg_discard l"
  by (auto simp: logger_ok_def)

lemma caller_not_discard: "logger_ok l \<Longrightarrow> lg_recordCaller l \<Longrightarrow> \<not> lg_discard l"
  by (auto simp: logger_ok_def)

lemma live_direct: "logger_ok l \<Longrightarrow> lg_direct l \<Longrightarrow> live_adapters l = [0]"
  by (auto simp: logger_ok_def live_adapters_def)

lemma shown_ending [simp]: "map (shown env l) (ending l' level msg) = ending l' level msg"
  by (auto simp: ending_def shown_def split: option.split)

lemma bound_bytes:
  assumes "logger_ok l"
  shows "lg_boundBytes l = foldl appendField [] (lg_boundFields l)"
proof -
  have "list_all (\<lambda>f. tf_Value f = GNil) fs \<Longrightarrow>
      foldl (\<lambda>d f. AppendField d (tf_KeyDesc f) (tf_Key f) (tf_Val f)) d fs = foldl appendField d fs" for d fs
    by (induction fs arbitrary: d) (simp_all add: AppendField_def appendField_def Let_def)
  with assms show ?thesis by (simp add: logger_ok_def)
qed

text \<open>A raw line, as both direct paths write it, is the reference line.\<close>

lemma raw_line:
  assumes "logger_ok l" and "lg_direct l" and "en_encoder env = Some f" and "env_ok env" and "world_ok env w"
    and "appendHeaderWith (jf_tz f) (jf_precision f) (w_cache w) [] (en_now env) level msg = (hc, d)"
    and "line = d @ (if lg_recordCaller l then callerMember (en_site env) else []) @ lg_boundBytes l
           @ foldl appendField [] fs @ [CHR ''}'', CHR 0x0A]"
  shows "same_output env l (finish_line l level msg (bump l level (emit (Raw 0 line) (w\<lparr>w_cache := hc\<rparr>))))
      (spec_line env l level msg (lg_boundFields l @ fs) w)"
    and "world_ok env (finish_line l level msg' (bump l level (emit (Raw 0 line) (w\<lparr>w_cache := hc\<rparr>))))"
proof -
  have env: "is_s64 (en_now env)" "fst (en_site env) = [] \<or> snd (en_site env) \<ge> 0" "tz_ok (jf_tz f)" "cache_ok (jf_tz f) (w_cache w)"
    using assms(3-5) by (simp_all add: env_ok_def world_ok_def)
  have d: "d = snd (appendHeaderWith (jf_tz f) (jf_precision f) empty_cache [] (en_now env) level msg)"
    using header_cache_irrelevant [OF env(3,1,4), of level msg] assms(6) by simp
  let ?e = "with_site env l (spec_entry env level msg (lg_boundFields l @ fs))"
  have "json_text f ?e = line"
    unfolding json_text_spec [OF env(2)] assms(7) d bound_bytes [OF assms(1)] foldl_append
    by (simp add: foldl_appendField_append [of "foldl appendField [] (lg_boundFields l)" fs])
  moreover have "\<not> lg_sampler l" "\<not> lg_enableMasking l" using assms(1,2) by (simp_all add: logger_ok_def)
  ultimately show "same_output env l (finish_line l level msg (bump l level (emit (Raw 0 line) (w\<lparr>w_cache := hc\<rparr>))))
      (spec_line env l level msg (lg_boundFields l @ fs) w)"
    using assms(2,3)
    by (simp add: same_output_def spec_line_def masked_def writes_def live_direct [OF assms(1,2)] finish_line_eq emit_def)
      (simp add: shown_def bump_def)
  show "world_ok env (finish_line l level msg' (bump l level (emit (Raw 0 line) (w\<lparr>w_cache := hc\<rparr>))))"
    using appendHeaderWith_eq(2) [OF env(3,1,4), of "jf_precision f" "[]" level msg] assms(3,6)
    by (simp add: world_ok_def finish_line_eq)
qed

text \<open>A line built in a state, whichever encoding the state is in.\<close>

lemma same_output_refl [simp]: "same_output env l w w"
  by (simp add: same_output_def)

lemma spec_line_world_ok [simp]: "world_ok env (spec_line env l level msg fs w) = world_ok env w"
  by (simp add: world_ok_def spec_line_eq Let_def split: prod.split)

lemma built_line:
  assumes "logger_ok l" and "env_ok env" and "world_ok env w" and "holds s fs" and "ps_epoch s = epoch"
    and "case ps_directJSON s of None \<Rightarrow> all = fs
         | Some f \<Rightarrow> lg_direct l \<and> en_encoder env = Some f \<and> all = lg_boundFields l @ fs"
  shows "same_output env l (snd (dispatchLine env l s epoch level msg w))
      (if level < logger_level l then w else spec_line env l level msg all w)"
    and "world_ok env (snd (dispatchLine env l s epoch level msg w))"
proof -
  have "same_output env l (snd (dispatchLine env l s epoch level msg w))
      (if level < logger_level l then w else spec_line env l level msg all w)
    \<and> world_ok env (snd (dispatchLine env l s epoch level msg w))"
  proof (cases "ps_directJSON s")
    case None
    with dispatch_capture [OF assms(1,4) None assms(5), of env level msg w] assms(3,6) show ?thesis by simp
  next
    case (Some f)
    show ?thesis
    proof (cases "level < logger_level l")
      case True
      with assms(3,5) show ?thesis by (simp add: dispatchLine_def)
    next
      case False
      obtain hc d where h: "appendHeaderWith (jf_tz f) (jf_precision f) (w_cache w) [] (en_now env) level msg = (hc, d)" by fastforce
      have d: "lg_direct l" "en_encoder env = Some f" "all = lg_boundFields l @ fs" using assms(6) Some by simp_all
      have fs: "ps_directFields s = foldl appendField [] fs" using assms(4) Some by (simp add: holds_def)
      let ?line = "d @ (if lg_recordCaller l then callerMember (en_site env) else []) @ lg_boundBytes l
           @ foldl appendField [] fs @ [CHR ''}'', CHR 0x0A]"
      have "snd (dispatchLine env l s epoch level msg w)
          = finish_line l level msg (bump l level (emit (Raw 0 ?line) (w\<lparr>w_cache := hc\<rparr>)))"
        using False assms(5) Some by (simp add: dispatchLine_def h fs Let_def AppendCloser_def)
      with raw_line [OF assms(1) d(1,2) assms(2,3) h refl, where fs = fs] False d(3) show ?thesis by simp
    qed
  qed
  then show "same_output env l (snd (dispatchLine env l s epoch level msg w))
      (if level < logger_level l then w else spec_line env l level msg all w)"
    and "world_ok env (snd (dispatchLine env l s epoch level msg w))" by blast+
qed

lemma capture_holds:
  assumes "logger_ok l" and "pooled s"
  shows "holds (captureState l s) (lg_boundFields l)" and "ps_directJSON (captureState l s) = None"
    and "ps_epoch (captureState l s) = ps_epoch s"
  using assms by (auto simp: holds_def captureState_def prefillBound_def pool_get_def pooled_def logger_ok_def maxBoundFields_def)

lemma acquire_direct:
  assumes "pooled s" and "lg_direct l" and "en_encoder env = Some f"
  shows "holds (acquireState env l s) []" and "ps_directJSON (acquireState env l s) = Some f"
    and "ps_epoch (acquireState env l s) = ps_epoch s"
  using assms by (auto simp: holds_def acquireState_def pool_get_def pooled_def Let_def)

lemma acquire_capture:
  assumes "\<not> (lg_direct l \<and> en_encoder env \<noteq> None)"
  shows "acquireState env l s = captureState l s"
  using assms by (cases s) (auto simp: acquireState_def captureState_def pool_get_def Let_def)

lemma acquired_line:
  assumes "logger_ok l" and "env_ok env" and "world_ok env w" and "pooled s"
  shows "let s' = foldl add_arg (acquireState env l s) args in
      same_output env l (snd (dispatchLine env l s' (ps_epoch s) level msg w))
        (if level < logger_level l then w else spec_line env l level msg (lg_boundFields l @ map arg_field args) w)
      \<and> world_ok env (snd (dispatchLine env l s' (ps_epoch s) level msg w))
      \<and> pooled (fst (dispatchLine env l s' (ps_epoch s) level msg w))"
proof -
  let ?s = "foldl add_arg (acquireState env l s) args"
  obtain fs where fs: "holds (acquireState env l s) fs" "ps_epoch (acquireState env l s) = ps_epoch s"
    "case ps_directJSON (acquireState env l s) of None \<Rightarrow> lg_boundFields l = fs
       | Some f \<Rightarrow> lg_direct l \<and> en_encoder env = Some f \<and> lg_boundFields l = lg_boundFields l @ fs"
  proof (cases "lg_direct l \<and> en_encoder env \<noteq> None")
    case True
    then obtain f where f: "en_encoder env = Some f" by blast
    with True acquire_direct [OF assms(4) _ f] show ?thesis by (intro that [of "[]"]) simp_all
  next
    case False
    with capture_holds [OF assms(1,4)] show ?thesis
      by (intro that [of "lg_boundFields l"]) (simp_all add: acquire_capture)
  qed
  note h = add_args_holds [OF fs(1), of args]
  have c: "case ps_directJSON ?s of None \<Rightarrow> lg_boundFields l @ map arg_field args = fs @ map arg_field args
       | Some f \<Rightarrow> lg_direct l \<and> en_encoder env = Some f
           \<and> lg_boundFields l @ map arg_field args = lg_boundFields l @ fs @ map arg_field args"
    using fs(3) h by (simp split: option.splits)
  have e: "ps_epoch ?s = ps_epoch s" "holds ?s (fs @ map arg_field args)" using h fs(2) by simp_all
  from built_line [OF assms(1-3) e(2,1) c, of level msg] dispatch_pooled [OF e(2,1), of env l level msg w] show ?thesis
    by (simp add: Let_def)
qed

section \<open>Message-only lines\<close>

lemma spec_entry_empty: "spec_entry env v msg [] = message_entry env v msg"
  by (simp add: spec_entry_def message_entry_def)

lemma terminal_entry_eq: "terminal_entry env l v msg = with_site env l (spec_entry env v msg [])"
  by (simp add: terminal_entry_def with_site_def spec_entry_empty Let_def)

lemma spec_line_unsampled:
  "\<not> lg_sampler l \<or> v \<ge> FatalLevel \<Longrightarrow> spec_line env l v msg fs w =
     bump l v (w\<lparr>w_events := w_events w @ writes l (masked env l (with_site env l (spec_entry env v msg fs))) @ ending l v msg\<rparr>)"
  by (auto simp: spec_line_def Let_def)

lemma ending_low: "v < FatalLevel \<Longrightarrow> ending l v msg = []"
  by (simp add: ending_def level_defs)

lemma masked_level [simp]: "env_ok env \<Longrightarrow> le_Level (masked env l e) = le_Level e"
  by (simp add: masked_def env_ok_def)

lemma entry_levels [simp]: "le_Level (with_site env l e) = le_Level e" "le_Level (spec_entry env v msg fs) = v"
  by (simp_all add: with_site_def spec_entry_def)

lemma realFatal_spec: "env_ok env \<Longrightarrow> realFatal env l msg w = spec_line env l FatalLevel msg [] w"
  by (simp add: realFatal_def terminal_entry_eq writeEntry_eq lg_Flush_eq spec_line_unsampled ending_def Let_def)

lemma realPanic_spec: "env_ok env \<Longrightarrow> realPanic env l msg w = spec_line env l PanicLevel msg [] w"
  by (simp add: realPanic_def terminal_entry_eq writeEntry_eq spec_line_unsampled ending_def Let_def level_defs)

lemma logSampled_spec:
  assumes "env_ok env" and "lg_sampler l" and "\<not> lg_recordCaller l" and "v < FatalLevel"
  shows "logSampled env l v msg w = spec_line env l v msg [] w"
  using assms by (auto simp: logSampled_def spec_line_def writeEntry_eq with_site_def ending_low Let_def
      simp flip: spec_entry_empty split: prod.split)

lemma plain_spec:
  assumes "\<not> lg_recordCaller l" and "\<not> lg_sampler l" and "v < FatalLevel"
  shows "spec_line env l v msg [] w = bump l v (w\<lparr>w_events := w_events w @ writes l (masked env l (message_entry env v msg))\<rparr>)"
  using assms by (simp add: spec_line_unsampled ending_low with_site_def spec_entry_empty)

lemma specialised_spec:
  assumes "\<not> lg_recordCaller l" and "\<not> lg_sampler l" and "v < FatalLevel"
  shows "\<not> lg_enableMasking l \<Longrightarrow> length (lg_adapters l) = 1 \<Longrightarrow> noMaskOne env l v msg w = spec_line env l v msg [] w"
    and "\<not> lg_enableMasking l \<Longrightarrow> noMaskMulti env l v msg w = spec_line env l v msg [] w"
    and "lg_enableMasking l \<Longrightarrow> length (lg_adapters l) = 1 \<Longrightarrow> maskOne env l v msg w = spec_line env l v msg [] w"
    and "lg_enableMasking l \<Longrightarrow> maskMulti env l v msg w = spec_line env l v msg [] w"
  by (simp_all add: plain_spec [OF assms] noMaskOne_def noMaskMulti_def maskOne_def maskMulti_def Let_def masked_def
      write_single_eq write_each_eq)

lemma logDiscard_spec:
  assumes "logger_ok l" and "lg_discard l" and "\<not> lg_sampler l"
  shows "logDiscard l v msg w = spec_line env l v msg [] w"
  using assms by (simp add: spec_line_unsampled logDiscard_def ending_def writes_def discard_no_writes Let_def)

text \<open>The level functions by method: the samplable ones are gated by the threshold.\<close>

definition samplable :: "log_method \<Rightarrow> bool" where
  "samplable m \<longleftrightarrow> method_level m < FatalLevel"

lemma hot_fn_table:
  "hot_fn (level_table v f fatal panic) m =
     (if samplable m then gated v f (method_level m) else if m = LFatal then fatal else panic)"
  by (cases m) (simp_all add: level_table_def samplable_def level_defs)

lemma finish_line_samplable: "samplable m \<Longrightarrow> finish_line l (method_level m) msg w = w"
  by (simp add: finish_line_eq ending_low samplable_def)

lemma terminal_methods: "\<not> samplable m \<Longrightarrow> m = LFatal \<or> m = LPanic"
  by (cases m) (simp_all add: samplable_def level_defs)

text \<open>
  When a message-only line is dropped by its level: below the threshold, except that a root logger and
  a discarding one end the process at every threshold.
\<close>

definition below_threshold :: "logger \<Rightarrow> log_method \<Rightarrow> bool" where
  "below_threshold l m \<longleftrightarrow> method_level m < logger_level l
     \<and> (samplable m \<or> lg_boundFields l \<noteq> [] \<and> \<not> lg_discard l)"

definition message_fields :: "logger \<Rightarrow> typed_field list" where
  "message_fields l = (if lg_discard l then [] else lg_boundFields l)"

definition message_ok :: "'s log_env \<Rightarrow> logger \<Rightarrow> log_method \<Rightarrow> string \<Rightarrow> perPState \<Rightarrow> 's log_world \<Rightarrow> level_fn \<Rightarrow> bool" where
  "message_ok env l m msg s w fn \<longleftrightarrow>
     same_output env l (snd (run_fn env l fn msg s w))
       (if below_threshold l m then w else spec_line env l (method_level m) msg (message_fields l) w)
     \<and> world_ok env (snd (run_fn env l fn msg s w)) \<and> pooled (fst (run_fn env l fn msg s w))"

lemma message_ok_exact:
  assumes "run_fn env l fn msg s w = (s, spec_line env l (method_level m) msg [] w)" and "world_ok env w" and "pooled s"
    and "message_fields l = []" and "\<not> below_threshold l m"
  shows "message_ok env l m msg s w fn"
  using assms by (simp add: message_ok_def)

lemma message_ok_noop:
  assumes "below_threshold l m" and "world_ok env w" and "pooled s"
  shows "message_ok env l m msg s w Noop"
  using assms by (simp add: message_ok_def)

definition ready :: "'s log_env \<Rightarrow> logger \<Rightarrow> perPState \<Rightarrow> 's log_world \<Rightarrow> bool" where
  "ready env l s w \<longleftrightarrow> logger_ok l \<and> env_ok env \<and> world_ok env w \<and> pooled s"

lemma readyD:
  assumes "ready env l s w"
  shows "logger_ok l" and "env_ok env" and "world_ok env w" and "pooled s"
  using assms by (simp_all add: ready_def)

lemma caller_fn:
  assumes r: "ready env l s w" and "\<not> lg_discard l" and "samplable m \<or> lg_boundFields l \<noteq> []"
  shows "message_ok env l m msg s w (CallerFn (method_level m))"
  using acquired_line [OF readyD [OF r], of "[]" "method_level m" msg] assms acquire_direct(3) [OF readyD(4) [OF r], of l env]
    acquire_capture [of l env s] capture_holds(3) [OF readyD(1,4) [OF r]]
  by (cases "lg_direct l \<and> en_encoder env \<noteq> None")
    (auto simp: message_ok_def logCaller_def below_threshold_def message_fields_def Let_def)

lemma bound_fn:
  assumes r: "ready env l s w" and "\<not> lg_discard l" and "lg_boundFields l \<noteq> []"
  shows "message_ok env l m msg s w (BoundFn (method_level m))"
proof -
  note l = readyD(1) [OF r] and c = capture_holds [OF readyD(1,4) [OF r]]
  have "case ps_directJSON (captureState l s) of None \<Rightarrow> lg_boundFields l = lg_boundFields l
    | Some f \<Rightarrow> lg_direct l \<and> en_encoder env = Some f \<and> lg_boundFields l = lg_boundFields l @ lg_boundFields l" using c(2) by simp
  from built_line [OF readyD(1-3) [OF r] c(1,3) this, of "method_level m" msg] dispatch_pooled [OF c(1,3), of env l "method_level m" msg w]
  show ?thesis using assms c(3)
    by (cases "method_level m < logger_level l")
      (simp_all add: message_ok_def logBoundCapture_def below_threshold_def message_fields_def Let_def)
qed

lemma direct_fn:
  assumes r: "ready env l s w" and "lg_direct l" and "\<not> lg_recordCaller l" and "samplable m" and "logger_level l \<le> method_level m"
  shows "message_ok env l m msg s w (DirectFn (method_level m))"
proof (cases "en_encoder env")
  case None
  note l = readyD(1) [OF r] and c = capture_holds [OF readyD(1,4) [OF r]]
  have "case ps_directJSON (captureState l s) of None \<Rightarrow> lg_boundFields l = lg_boundFields l
    | Some f \<Rightarrow> lg_direct l \<and> en_encoder env = Some f \<and> lg_boundFields l = lg_boundFields l @ lg_boundFields l" using c(2) by simp
  from built_line [OF readyD(1-3) [OF r] c(1,3) this, of "method_level m" msg] dispatch_pooled [OF c(1,3), of env l "method_level m" msg w]
  show ?thesis using assms c(3) direct_not_discard [OF l assms(2)]
    by (simp add: message_ok_def logDirect_def None below_threshold_def message_fields_def Let_def)
next
  case (Some f)
  obtain hc d where h: "appendHeaderWith (jf_tz f) (jf_precision f) (w_cache w) [] (en_now env) (method_level m) msg = (hc, d)" by fastforce
  let ?line = "d @ (if lg_recordCaller l then callerMember (en_site env) else []) @ lg_boundBytes l
           @ foldl appendField [] [] @ [CHR ''}'', CHR 0x0A]"
  have "run_fn env l (DirectFn (method_level m)) msg s w
      = (pool_put (pool_get s), bump l (method_level m) (emit (Raw 0 ?line) (w\<lparr>w_cache := hc\<rparr>)))"
    using assms(3) by (simp add: logDirect_def Some h AppendCloser_def Let_def)
  moreover have "pooled (pool_put (pool_get s))" using readyD(4) [OF r] by (simp add: pooled_def pool_put_def pool_get_def)
  moreover have "\<not> lg_discard l" by (rule direct_not_discard [OF readyD(1) [OF r] assms(2)])
  ultimately show ?thesis
    using raw_line [OF readyD(1) [OF r] assms(2) Some readyD(2,3) [OF r] h refl, where fs = "[]"] assms(3-5)
    by (simp add: message_ok_def below_threshold_def message_fields_def finish_line_samplable)
qed

lemma exact_fns:
  assumes r: "ready env l s w" and "message_fields l = []"
  shows "m = LFatal \<Longrightarrow> message_ok env l m msg s w RealFatal"
    and "m = LPanic \<Longrightarrow> message_ok env l m msg s w RealPanic"
    and "lg_sampler l \<Longrightarrow> \<not> lg_recordCaller l \<Longrightarrow> samplable m \<Longrightarrow> logger_level l \<le> method_level m \<Longrightarrow>
      message_ok env l m msg s w (SampledFn (method_level m))"
    and "lg_discard l \<Longrightarrow> \<not> lg_sampler l \<Longrightarrow> logger_level l \<le> method_level m \<or> \<not> samplable m \<Longrightarrow>
      message_ok env l m msg s w (DiscardFn (method_level m))"
  using assms(2) readyD [OF r]
  by (auto intro!: message_ok_exact simp: realFatal_spec realPanic_spec logSampled_spec logDiscard_spec
        below_threshold_def message_fields_def samplable_def level_defs split: if_splits)

lemma log_message_ok:
  assumes r: "ready env l s w"
  shows "message_ok env l m msg s w (hot_fn (lg_hot l) m)"
proof -
  note l = readyD(1) [OF r] and noop = message_ok_noop [OF _ readyD(3,4) [OF r]]
  have hot: "hot_fn (lg_hot l) m = hot_fn (setupFunctionPointers l (logger_level l)) m"
    using l by (simp add: logger_ok_def)
  have low: "samplable m \<Longrightarrow> method_level m < logger_level l \<Longrightarrow> message_ok env l m msg s w Noop"
    by (intro noop) (simp add: below_threshold_def)
  have gate: "message_ok env l m msg s w (if samplable m then gated (logger_level l) f (method_level m)
      else if m = LFatal then fatal else panic)"
    if "samplable m \<Longrightarrow> logger_level l \<le> method_level m \<Longrightarrow> message_ok env l m msg s w (f (method_level m))"
      and "m = LFatal \<Longrightarrow> message_ok env l m msg s w fatal" and "m = LPanic \<Longrightarrow> message_ok env l m msg s w panic" for f fatal panic
    using that low terminal_methods [of m] by (auto simp: gated_def)
  note ex = exact_fns [OF r]
  consider (caller) "lg_recordCaller l" | (bound) "\<not> lg_recordCaller l" "lg_boundFields l \<noteq> []" "\<not> lg_direct l" "\<not> lg_discard l"
    | (plain) "\<not> lg_recordCaller l" "lg_boundFields l = [] \<or> lg_discard l" "\<not> lg_direct l"
    | (direct) "\<not> lg_recordCaller l" "lg_direct l" by blast
  then show ?thesis
  proof cases
    case caller
    then have d: "\<not> lg_discard l" by (rule caller_not_discard [OF l])
    then have mf: "lg_boundFields l = [] \<Longrightarrow> message_fields l = []" by (simp add: message_fields_def)
    note cf = caller_fn [OF r d]
    have eq: "setupFunctionPointers l (logger_level l) = level_table (logger_level l) CallerFn
        (if lg_boundFields l \<noteq> [] then CallerFn FatalLevel else RealFatal)
        (if lg_boundFields l \<noteq> [] then CallerFn PanicLevel else RealPanic)"
      using caller by (simp add: setupFunctionPointers_def)
    show ?thesis unfolding hot eq hot_fn_table
    proof (rule gate)
      show "message_ok env l m msg s w (CallerFn (method_level m))" if "samplable m" by (rule cf) (simp add: that)
      show "message_ok env l m msg s w (if lg_boundFields l \<noteq> [] then CallerFn FatalLevel else RealFatal)" if "m = LFatal"
        using cf [of m msg] ex(1) [OF mf that] that by auto
      show "message_ok env l m msg s w (if lg_boundFields l \<noteq> [] then CallerFn PanicLevel else RealPanic)" if "m = LPanic"
        using cf [of m msg] ex(2) [OF mf that] that by auto
    qed
  next
    case bound
    note bf = bound_fn [OF r bound(4,2), of m msg]
    have eq: "setupFunctionPointers l (logger_level l) = level_table (logger_level l) BoundFn (BoundFn FatalLevel) (BoundFn PanicLevel)"
      using bound by (simp add: setupFunctionPointers_def)
    show ?thesis unfolding hot eq hot_fn_table using bf by (intro gate) auto
  next
    case plain
    then have mf: "message_fields l = []" by (auto simp: message_fields_def)
    note ex' = ex [OF mf, of m msg]
    show ?thesis
    proof (cases "lg_sampler l \<or> lg_discard l")
      case True
      show ?thesis
      proof (cases "lg_sampler l")
        case True
        then have eq: "setupFunctionPointers l (logger_level l) = level_table (logger_level l) SampledFn RealFatal RealPanic"
          using plain by (auto simp: setupFunctionPointers_def)
        show ?thesis unfolding hot eq hot_fn_table by (rule gate) (use ex'(1-3) True plain(1) in blast)+
      next
        case False
        then have d: "lg_discard l" using \<open>lg_sampler l \<or> lg_discard l\<close> by simp
        have eq: "setupFunctionPointers l (logger_level l) = level_table (logger_level l) DiscardFn (DiscardFn FatalLevel) (DiscardFn PanicLevel)"
          using plain d False by (simp add: setupFunctionPointers_def)
        show ?thesis unfolding hot eq hot_fn_table
          using ex'(4) [OF d False] by (intro gate) (auto simp: samplable_def level_defs)
      qed
    next
      case False
      have one: "message_ok env l m msg s w (if method_level m = TraceLevel then RealTrace
            else if lg_enableMasking l then (if length (lg_adapters l) = 1 then MaskOne (method_level m) else MaskMulti (method_level m))
            else (if length (lg_adapters l) = 1 then NoMaskOne (method_level m) else NoMaskMulti (method_level m)))"
        if "samplable m" "logger_level l \<le> method_level m"
      proof (rule message_ok_exact [OF _ readyD(3,4) [OF r] mf])
        show "\<not> below_threshold l m" using that by (simp add: below_threshold_def)
        have "method_level m < FatalLevel" using that(1) by (simp add: samplable_def)
        with specialised_spec [of l "method_level m" env msg w] plain_spec [of l TraceLevel env msg w] plain(1) False readyD(2) [OF r]
        show "run_fn env l (if method_level m = TraceLevel then RealTrace
            else if lg_enableMasking l then (if length (lg_adapters l) = 1 then MaskOne (method_level m) else MaskMulti (method_level m))
            else (if length (lg_adapters l) = 1 then NoMaskOne (method_level m) else NoMaskMulti (method_level m))) msg s w
          = (s, spec_line env l (method_level m) msg [] w)"
          by (auto simp: writeEntry_eq message_entry_def level_defs)
      qed
      from plain False have "setupFunctionPointers l (logger_level l) = level_table (logger_level l)
          (\<lambda>v. if v = TraceLevel then RealTrace
                else if lg_enableMasking l then (if length (lg_adapters l) = 1 then MaskOne v else MaskMulti v)
                else (if length (lg_adapters l) = 1 then NoMaskOne v else NoMaskMulti v)) RealFatal RealPanic"
        by (simp add: setupFunctionPointers_def Let_def del: One_nat_def)
      then show ?thesis unfolding hot by (simp only: hot_fn_table) (rule gate; (rule one | rule ex'(1) | rule ex'(2)); assumption)
    qed
  next
    case direct
    then have d: "\<not> lg_discard l" "\<not> lg_sampler l" using direct_not_discard [OF l] l by (auto simp: logger_ok_def)
    then have mf: "lg_boundFields l = [] \<Longrightarrow> message_fields l = []" by (simp add: message_fields_def)
    have bf: "lg_boundFields l \<noteq> [] \<Longrightarrow> message_ok env l m msg s w (BoundFn (method_level m))"
      using bound_fn [OF r d(1)] by blast
    note df = direct_fn [OF r direct(2,1), of m msg]
    have eq: "setupFunctionPointers l (logger_level l) = level_table (logger_level l) DirectFn
        (if lg_boundFields l \<noteq> [] then BoundFn FatalLevel else RealFatal)
        (if lg_boundFields l \<noteq> [] then BoundFn PanicLevel else RealPanic)"
      using direct d by (simp add: setupFunctionPointers_def)
    show ?thesis unfolding hot eq hot_fn_table
    proof (rule gate)
      show "message_ok env l m msg s w (DirectFn (method_level m))" if "samplable m" "logger_level l \<le> method_level m"
        by (rule df [OF that])
      show "message_ok env l m msg s w (if lg_boundFields l \<noteq> [] then BoundFn FatalLevel else RealFatal)" if "m = LFatal"
        using bf ex(1) [OF mf that] that by auto
      show "message_ok env l m msg s w (if lg_boundFields l \<noteq> [] then BoundFn PanicLevel else RealPanic)" if "m = LPanic"
        using bf ex(2) [OF mf that] that by auto
    qed
  qed
qed

section \<open>Interface-valued fields\<close>

definition iface_fields :: "(string \<times> go_any) list \<Rightarrow> typed_field list" where
  "iface_fields kvs = map (\<lambda>kv. iface_field (fst kv) (snd kv)) kvs"

lemma fb_store_holds:
  assumes "holds s fs" and "ps_directJSON s = None"
  shows "holds (fb_store s kv) (fs @ [iface_field (fst kv) (snd kv)])" and "ps_directJSON (fb_store s kv) = None"
    and "ps_epoch (fb_store s kv) = ps_epoch s"
  using assms by (auto simp: holds_def fb_store_def)

lemma fb_stores_hold:
  "holds s fs \<Longrightarrow> ps_directJSON s = None \<Longrightarrow> holds (foldl fb_store s kvs) (fs @ iface_fields kvs)
     \<and> ps_directJSON (foldl fb_store s kvs) = None \<and> ps_epoch (foldl fb_store s kvs) = ps_epoch s"
proof (induction kvs arbitrary: s fs)
  case (Cons kv kvs)
  from Cons.IH [OF fb_store_holds(1,2) [OF Cons.prems, of kv]] fb_store_holds(3) [OF Cons.prems, of kv] show ?case
    by (simp add: iface_fields_def)
qed (simp add: iface_fields_def)

lemma WithField_holds:
  assumes "logger_ok l" and "pooled s"
  shows "holds (lg_WithField l k v s) (lg_boundFields l @ iface_fields [(k, v)])" and "ps_directJSON (lg_WithField l k v s) = None"
    and "ps_epoch (lg_WithField l k v s) = ps_epoch s"
  using capture_holds [OF assms] assms(1)
  by (auto simp: lg_WithField_def holds_def iface_fields_def logger_ok_def maxBoundFields_def Let_def)

lemma field_line_spec:
  assumes "logger_ok l" and "pooled s"
  shows "snd (field_line env l kv kvs m msg s w) =
      (if method_level m < logger_level l then w
       else spec_line env l (method_level m) msg (lg_boundFields l @ iface_fields (kv # kvs)) w)"
    and "pooled (fst (field_line env l kv kvs m msg s w))"
proof -
  note h = WithField_holds [OF assms, of "fst kv" "snd kv"]
  note hs = fb_stores_hold [OF h(1,2), of kvs]
  let ?s = "foldl fb_store (lg_WithField l (fst kv) (snd kv) s) kvs"
  have e: "holds ?s (lg_boundFields l @ iface_fields (kv # kvs))" "ps_directJSON ?s = None"
    "ps_epoch ?s = ps_epoch (lg_WithField l (fst kv) (snd kv) s)"
    using hs by (simp_all add: iface_fields_def)
  from dispatch_capture [OF assms(1) e, of env "method_level m" msg w] dispatch_pooled [OF e(1,3), of env l "method_level m" msg w]
  show "snd (field_line env l kv kvs m msg s w) =
      (if method_level m < logger_level l then w
       else spec_line env l (method_level m) msg (lg_boundFields l @ iface_fields (kv # kvs)) w)"
    and "pooled (fst (field_line env l kv kvs m msg s w))" by (simp_all add: field_line_def Let_def)
qed

lemma lazy_line_spec:
  assumes "logger_ok l" and "pooled s" and "kvs \<noteq> []"
  shows "snd (lazy_field_line env l kvs m msg s w) =
      (if method_level m < logger_level l then w else spec_line env l (method_level m) msg (iface_fields kvs) w)"
    and "pooled (fst (lazy_field_line env l kvs m msg s w))"
proof -
  have h: "holds (pool_get s) []" "ps_directJSON (pool_get s) = None"
    using assms(2) by (simp_all add: holds_def pool_get_def pooled_def)
  note hs = fb_stores_hold [OF h, of kvs]
  let ?s = "foldl fb_store (pool_get s) kvs"
  have e: "holds ?s (iface_fields kvs)" "ps_directJSON ?s = None" "ps_epoch ?s = ps_epoch (pool_get s)" using hs by simp_all
  from dispatch_capture [OF assms(1) e, of env "method_level m" msg w] dispatch_pooled [OF e(1,3), of env l "method_level m" msg w] assms(3)
  show "snd (lazy_field_line env l kvs m msg s w) =
      (if method_level m < logger_level l then w else spec_line env l (method_level m) msg (iface_fields kvs) w)"
    and "pooled (fst (lazy_field_line env l kvs m msg s w))" by (simp_all add: lazy_field_line_def Let_def)
qed

section \<open>Typed lines\<close>

lemma acquire_epoch: "ps_epoch (acquireState env l s) = ps_epoch s"
  by (simp add: acquireState_def pool_get_def prefillBound_def Let_def)

lemma typed_line_ok:
  assumes "ready env l s w" and "args \<noteq> []"
  shows "same_output env l (snd (typed_line env l args m msg s w))
      (if method_level m < logger_level l then w
       else spec_line env l (method_level m) msg (lg_boundFields l @ map arg_field args) w)"
    and "pooled (fst (typed_line env l args m msg s w))"
  using acquired_line [OF readyD [OF assms(1)], of args "method_level m" msg] assms(2)
  by (simp_all add: typed_line_def Let_def acquire_epoch)

lemma line_add_eq: "ps_epoch s = epoch \<Longrightarrow> foldl (\<lambda>s a. line_add s epoch a) s args = foldl add_arg s args"
  by (induction args arbitrary: s) (simp_all add: line_add_def)

lemma add_args_owner:
  "ps_owner (foldl add_arg s args) = ps_owner s \<and> ps_lineLevel (foldl add_arg s args) = ps_lineLevel s
     \<and> ps_epoch (foldl add_arg s args) = ps_epoch s \<and> ps_directJSON (foldl add_arg s args) = ps_directJSON s"
  by (induction args arbitrary: s) simp_all

lemma add_arg_frame: "add_arg (s\<lparr>ps_owner := o', ps_lineLevel := v\<rparr>) a = (add_arg s a)\<lparr>ps_owner := o', ps_lineLevel := v\<rparr>"
  by (auto simp: add_arg_eq captureField_def split: prod.split)

lemma add_args_frame:
  "foldl add_arg (s\<lparr>ps_owner := o', ps_lineLevel := v\<rparr>) args = (foldl add_arg s args)\<lparr>ps_owner := o', ps_lineLevel := v\<rparr>"
  by (induction args arbitrary: s) (simp_all only: foldl.simps add_arg_frame)

lemma dispatch_frame:
  "snd (dispatchLine env l (s\<lparr>ps_owner := o', ps_lineLevel := v\<rparr>) epoch level msg w) = snd (dispatchLine env l s epoch level msg w)"
  "pooled (fst (dispatchLine env l (s\<lparr>ps_owner := o', ps_lineLevel := v\<rparr>) epoch level msg w))
     = pooled (fst (dispatchLine env l s epoch level msg w))"
  by (auto simp: dispatchLine_def line_entry_def pooled_def pool_put_def Let_def split: option.split prod.split)

lemma level_line_ok:
  assumes "ready env l s w"
  shows "same_output env l (snd (level_line env l level args msg s w))
      (if level < logger_level l then w else spec_line env l level msg (lg_boundFields l @ map arg_field args) w)"
    and "pooled (fst (level_line env l level args msg s w))"
proof -
  let ?s = "acquireState env l s"
  let ?s' = "foldl add_arg (?s\<lparr>ps_owner := Some l, ps_lineLevel := level\<rparr>) args"
  have "level_line env l level args msg s w =
      (if level < logger_level l then (s, w) else line_Msg env ?s' (ps_epoch s) msg w)"
    by (simp add: level_line_def open_line_def Let_def acquire_epoch line_add_eq)
  also have "line_Msg env ?s' (ps_epoch s) msg w = dispatchLine env l ?s' (ps_epoch s) level msg w"
    using add_args_owner [of "?s\<lparr>ps_owner := Some l, ps_lineLevel := level\<rparr>" args] by (simp add: line_Msg_def acquire_epoch)
  finally have eq: "level_line env l level args msg s w =
      (if level < logger_level l then (s, w) else dispatchLine env l ?s' (ps_epoch s) level msg w)" .
  from acquired_line [OF readyD [OF assms], of args level msg] readyD(4) [OF assms]
  show "same_output env l (snd (level_line env l level args msg s w))
      (if level < logger_level l then w else spec_line env l level msg (lg_boundFields l @ map arg_field args) w)"
    and "pooled (fst (level_line env l level args msg s w))"
    unfolding eq by (auto simp: Let_def add_args_frame dispatch_frame)
qed

end
