(* ===== verification/Core_Session.thy ===== *)
theory Core_Session
  imports Core_Dispatch
begin

text \<open>
  Sessions: sequences of logging calls of every kind on the loggers derived from one configuration, and
  the properties of the logger proved from the lines of \<open>Core_Dispatch\<close>.
\<close>

section \<open>Sessions\<close>

text \<open>A call on a logger, and a sequence of calls on loggers of one configuration that share a pooled state.\<close>

datatype logger_call =
    CMessage log_method string
  | CTyped "(field_key option \<times> string \<times> field_arg) list" log_method string
  | CLine nat "(field_key option \<times> string \<times> field_arg) list" string
  | CField "string \<times> go_any" "(string \<times> go_any) list" log_method string
  | CLazy "(string \<times> go_any) list" log_method string

fun log_call :: "'s log_env \<Rightarrow> logger \<Rightarrow> logger_call \<Rightarrow> perPState \<times> 's log_world \<Rightarrow> perPState \<times> 's log_world" where
  "log_call env l (CMessage m msg) (s, w) = log_message env l m msg s w"
| "log_call env l (CTyped args m msg) (s, w) = typed_line env l args m msg s w"
| "log_call env l (CLine level args msg) (s, w) = level_line env l level args msg s w"
| "log_call env l (CField kv kvs m msg) (s, w) = field_line env l kv kvs m msg s w"
| "log_call env l (CLazy kvs m msg) (s, w) = lazy_field_line env l kvs m msg s w"

text \<open>What the call promises; \<open>None\<close> where its level drops it.\<close>

definition message_spec :: "logger \<Rightarrow> log_method \<Rightarrow> string \<Rightarrow> (nat \<times> string \<times> typed_field list) option" where
  "message_spec l m msg = (if below_threshold l m then None else Some (method_level m, msg, message_fields l))"

fun call_spec :: "logger \<Rightarrow> logger_call \<Rightarrow> (nat \<times> string \<times> typed_field list) option" where
  "call_spec l (CMessage m msg) = message_spec l m msg"
| "call_spec l (CTyped args m msg) =
     (if args = [] then message_spec l m msg
      else if method_level m < logger_level l then None
      else Some (method_level m, msg, lg_boundFields l @ map arg_field args))"
| "call_spec l (CLine level args msg) =
     (if level < logger_level l then None else Some (level, msg, lg_boundFields l @ map arg_field args))"
| "call_spec l (CField kv kvs m msg) =
     (if method_level m < logger_level l then None
      else Some (method_level m, msg, lg_boundFields l @ iface_fields (kv # kvs)))"
| "call_spec l (CLazy kvs m msg) =
     (if kvs = [] then message_spec l m msg
      else if method_level m < logger_level l then None else Some (method_level m, msg, iface_fields kvs))"

definition spec_call :: "'s log_env \<Rightarrow> logger \<Rightarrow> logger_call \<Rightarrow> 's log_world \<Rightarrow> 's log_world" where
  "spec_call env l call w = (case call_spec l call of None \<Rightarrow> w | Some (level, msg, fs) \<Rightarrow> spec_line env l level msg fs w)"

lemma log_call_ok:
  assumes "ready env l s w"
  shows "same_output env l (snd (log_call env l call (s, w))) (spec_call env l call w)"
    and "pooled (fst (log_call env l call (s, w)))"
proof -
  have msg: "same_output env l (snd (log_message env l m msg s w)) (spec_call env l (CMessage m msg) w)"
    "pooled (fst (log_message env l m msg s w))" for m msg
    using log_message_ok [OF assms, of m msg] by (auto simp: message_ok_def log_message_def spec_call_def message_spec_def split: if_splits)
  note fl = field_line_spec [OF readyD(1,4) [OF assms]] and lz = lazy_line_spec [OF readyD(1,4) [OF assms]]
  have "same_output env l (snd (log_call env l call (s, w))) (spec_call env l call w) \<and> pooled (fst (log_call env l call (s, w)))"
  proof (cases call)
    case (CMessage m msg)
    with msg show ?thesis by simp
  next
    case (CTyped args m msg)
    with typed_line_ok [OF assms, of args m msg] msg [of m msg] show ?thesis
      by (cases "args = []") (auto simp: spec_call_def typed_line_def split: if_splits)
  next
    case (CLine level args msg)
    with level_line_ok [OF assms, of level args msg] show ?thesis by (auto simp: spec_call_def split: if_splits)
  next
    case (CField kv kvs m msg)
    with fl [of env kv kvs m msg w] show ?thesis by (simp add: spec_call_def)
  next
    case (CLazy kvs m msg)
    with lz [of kvs env m msg w] msg [of m msg] show ?thesis
      by (cases "kvs = []") (auto simp: spec_call_def lazy_field_line_def split: if_splits)
  qed
  then show "same_output env l (snd (log_call env l call (s, w))) (spec_call env l call w)"
    and "pooled (fst (log_call env l call (s, w)))" by blast+
qed

fun session :: "('s log_env \<times> logger \<times> logger_call) list \<Rightarrow> perPState \<times> 's log_world \<Rightarrow> perPState \<times> 's log_world" where
  "session [] sw = sw"
| "session ((env, l, call) # calls) sw = session calls (log_call env l call sw)"

text \<open>An event that shows nothing the masker has not seen.\<close>

fun masked_event :: "(log_entry \<Rightarrow> log_entry) \<Rightarrow> sink_event \<Rightarrow> bool" where
  "masked_event mk (Wrote i cname e) \<longleftrightarrow> e \<in> range mk"
| "masked_event mk (Raw i line) \<longleftrightarrow> False"
| "masked_event mk _ \<longleftrightarrow> True"

lemma descends_masking:
  "descends c l \<Longrightarrow> lg_enableMasking l \<longleftrightarrow> cf_EnableMasking c \<and> cf_Masker c"
proof (induction rule: descends.induct)
  case (child l args)
  have "context_ok (lg_With l)" "cx_l (lg_With l) = l"
    using descends_ok [OF child.hyps] by (auto simp: lg_With_def context_ok_def logger_ok_def)
  with cx_args_ok [of "lg_With l" args] child.IH show ?case by (simp add: cx_Logger_def Let_def)
qed (simp add: NewLogger_def Let_def)

lemma spec_call_masked:
  assumes "lg_enableMasking l" and "list_all (masked_event (en_mask env)) (w_events w)"
  shows "list_all (masked_event (en_mask env)) (w_events (spec_call env l call w))" and "w_cache (spec_call env l call w) = w_cache w"
  using assms
  by (auto simp: spec_call_def spec_line_eq writes_def ending_def masked_def list_all_iff Let_def split: option.split prod.split)

lemma session_masked:
  assumes "cf_EnableMasking c" and "cf_Masker c"
    and "list_all (\<lambda>(env, l, call). descends c l \<and> env_ok env \<and> en_mask env = mk) calls"
    and "pooled s" and "w_cache w = empty_cache" and "list_all (masked_event mk) (w_events w)"
  shows "list_all (masked_event mk) (w_events (snd (session calls (s, w))))"
  using assms(3-6)
proof (induction calls arbitrary: s w)
  case (Cons x calls)
  obtain env l call where x: "x = (env, l, call)" by (cases x)
  have d: "descends c l" "env_ok env" "en_mask env = mk" using Cons.prems(1) by (simp_all add: x)
  have ok: "logger_ok l" by (rule descends_ok [OF d(1)])
  have m: "lg_enableMasking l" using descends_masking [OF d(1)] assms(1,2) by simp
  then have nd: "\<not> lg_direct l" using ok by (auto simp: logger_ok_def)
  have "ready env l s w" using ok d(2) Cons.prems(2,3) by (simp add: ready_def world_ok_def)
  note call = log_call_ok [OF this, of call]
  obtain s' w' where r: "log_call env l call (s, w) = (s', w')" by fastforce
  have "map (shown env l) evs = evs" for evs using nd by (simp add: shown_def map_idI)
  with call(1) nd have "w_events w' = w_events (spec_call env l call w)" "w_cache w' = w_cache (spec_call env l call w)"
    by (simp_all add: r same_output_def)
  with spec_call_masked [OF m, of env w call] Cons.prems(3,4) d(3)
  have "list_all (masked_event mk) (w_events w')" "w_cache w' = empty_cache" by simp_all
  with Cons.IH [of s' w'] Cons.prems(1) call(2) show ?case by (simp add: x r)
qed simp

section \<open>Properties\<close>

definition demo_config :: core_config where
  "demo_config = \<lparr>cf_Component = ''api'', cf_Level = InfoLevel,
     cf_Adapters = [\<lparr>ad_discard = False, ad_raw = True, ad_direct = True\<rparr>], cf_EnableMasking = False, cf_Masker = False,
     cf_EnableSampling = False, cf_Sampler = False, cf_EnableMetrics = True, cf_EnableCaller = True, cf_CallerSkip = 0,
     cf_EnableAlerts = False, cf_EnableAggregation = False\<rparr>"

definition demo_env :: "unit log_env" where
  "demo_env = \<lparr>en_now = 1700000000000000000, en_mask = (\<lambda>e. e\<lparr>le_Message := ''***''\<rparr>), en_sample = (\<lambda>s e. (s, True)),
     en_site = (''/src/main.go'', 42), en_encoder = Some \<lparr>jf_tz = (\<lambda>_. 0), jf_precision = PrecisionMilli\<rparr>\<rparr>"

definition demo_world :: "unit log_world" where
  "demo_world = \<lparr>w_events = [], w_counts = (\<lambda>_. 0), w_sampler = (), w_cache = empty_cache\<rparr>"

lemma demo_ok: "env_ok demo_env" "world_ok demo_env demo_world" "pooled new_perPState"
  by (simp_all add: demo_env_def demo_world_def env_ok_def world_ok_def pooled_def new_perPState_def tz_ok_def is_s64_def)

text \<open>
  C2: Every route keeps the logger's promise: whatever the configuration and the chain of child loggers,
  whichever specialised function the construction selected, and whether the line is encoded at once or
  captured as an entry, a call shows at the adapters exactly what the reference line shows, with the bound
  fields first, the call site if asked for, sampled before masked, masked before written, and counts and
  samples the same. The exceptions are the documented ones: a root or discarding logger ends the process
  at every threshold, and a builder started with a nil error carries no bound fields.
\<close>

theorem logger_keeps_promise:
  assumes "descends c l" and "env_ok env" and "world_ok env w" and "pooled s"
  shows "same_output env l (snd (log_call env l call (s, w))) (spec_call env l call w)
    \<and> pooled (fst (log_call env l call (s, w)))"
  using log_call_ok [of env l s w call] assms descends_ok [OF assms(1)] by (simp add: ready_def)

definition demo_child :: logger where
  "demo_child = cx_Logger (foldl cx_arg (lg_With (NewLogger demo_config)) [(None, ''tenant'', AStr ''acme'')])"

theorem logger_keeps_promise_witness:
  "same_output demo_env demo_child (snd (log_call demo_env demo_child (CLine 3 [(None, ''n'', AInt 7)] ''m'') (new_perPState, demo_world)))
      (spec_call demo_env demo_child (CLine 3 [(None, ''n'', AInt 7)] ''m'') demo_world)
   \<and> pooled (fst (log_call demo_env demo_child (CLine 3 [(None, ''n'', AInt 7)] ''m'') (new_perPState, demo_world)))"
  unfolding demo_child_def
  by (rule logger_keeps_promise [OF descends.child [OF descends.root] demo_ok])

text \<open>
  C3: Masking is never bypassed: when a logger is configured with a masker, then in any session of calls on
  it and its children, by every interface, every entry an adapter receives is a result of the masker,
  and no line is written raw.
\<close>

theorem masking_never_bypassed:
  assumes "cf_EnableMasking c" and "cf_Masker c"
    and "list_all (\<lambda>(env, l, call). descends c l \<and> env_ok env \<and> en_mask env = mk) calls"
    and "pooled s" and "w_cache w = empty_cache" and "w_events w = []"
  shows "list_all (masked_event mk) (w_events (snd (session calls (s, w))))"
  using session_masked [OF assms(1-5)] assms(6) by simp

definition demo_masked :: core_config where
  "demo_masked = demo_config\<lparr>cf_EnableMasking := True, cf_Masker := True\<rparr>"

theorem masking_never_bypassed_witness:
  "list_all (masked_event (en_mask demo_env)) (w_events (snd (session
      [(demo_env, NewLogger demo_masked, CMessage LInfo ''card 4111''), (demo_env, NewLogger demo_masked, CTyped [(None, ''k'', AInt 1)] LWarn ''m'')]
      (new_perPState, demo_world))))"
  by (rule masking_never_bypassed [where c = demo_masked])
    (simp_all add: demo_masked_def demo_ok descends.root, simp_all add: demo_world_def)

text \<open>
  The context of a child logger is its parent's followed by its own fields, cut at the limit, and its
  pre-encoded bytes are the encoding of just these fields; level, adapters and the other settings are
  the parent's.
\<close>

theorem child_context:
  assumes "descends c l"
  shows "let k = cx_Logger (foldl cx_arg (lg_With l) args) in
      lg_boundFields k = take maxBoundFields (lg_boundFields l @ map arg_field args)
    \<and> lg_boundBytes k = foldl appendField [] (lg_boundFields k) \<and> logger_level k = logger_level l
    \<and> lg_adapters k = lg_adapters l \<and> lg_enableMasking k = lg_enableMasking l \<and> lg_sampler k = lg_sampler l"
proof -
  let ?k = "cx_Logger (foldl cx_arg (lg_With l) args)"
  have w: "context_ok (lg_With l)" "cx_l (lg_With l) = l" "cx_fields (lg_With l) = lg_boundFields l"
    using descends_ok [OF assms] by (auto simp: lg_With_def context_ok_def logger_ok_def)
  have "lg_boundBytes ?k = foldl appendField [] (lg_boundFields ?k)"
    by (rule bound_bytes [OF descends_ok [OF descends.child [OF assms]]])
  with cx_args_fields [OF w(1), of args] cx_args_ok [OF w(1), of args] w(2,3) show ?thesis
    by (simp add: Let_def) (simp add: cx_Logger_def logger_level_def Let_def)
qed

theorem child_context_witness:
  "lg_boundFields demo_child = take maxBoundFields [captured None ''tenant'' (StringValue ''acme'')]"
  using child_context [OF descends.root, of demo_config "[(None, ''tenant'', AStr ''acme'')]"]
  by (simp add: demo_child_def arg_field_def Let_def) (simp add: NewLogger_def Let_def)

text \<open>
  A builder that starts with a nil error loses the context: on a child logger, a line begun by
  \<open>WithError(nil)\<close> and given fields is written with these fields alone, without the bound ones.
\<close>

theorem nil_error_builder_loses_context:
  assumes "descends c l" and "pooled s" and "logger_level l \<le> method_level m"
  shows "snd (lazy_field_line env l (kv # kvs) m msg s w) = spec_line env l (method_level m) msg (iface_fields (kv # kvs)) w
    \<and> snd (field_line env l kv kvs m msg s w) = spec_line env l (method_level m) msg (lg_boundFields l @ iface_fields (kv # kvs)) w"
  using lazy_line_spec(1) [OF descends_ok [OF assms(1)] assms(2), of "kv # kvs" env m msg w]
    field_line_spec(1) [OF descends_ok [OF assms(1)] assms(2), of env kv kvs m msg w] assms(3)
  by simp

theorem nil_error_builder_loses_context_witness:
  "snd (lazy_field_line demo_env demo_child [(''k'', GInt 1)] LInfo ''m'' new_perPState demo_world)
     = spec_line demo_env demo_child 2 ''m'' [iface_field ''k'' (GInt 1)] demo_world
   \<and> lg_boundFields demo_child \<noteq> []"
proof -
  have d: "descends demo_config demo_child" unfolding demo_child_def by (rule descends.child [OF descends.root])
  have "lg_boundFields demo_child \<noteq> []" "logger_level demo_child = 2"
    using d by (simp_all add: demo_child_def cx_Logger_def cx_add_def lg_With_def NewLogger_def demo_config_def maxBoundFields_def
        logger_level_def level_defs Let_def)
  with nil_error_builder_loses_context [OF d demo_ok(3), of LInfo demo_env "(''k'', GInt 1)" "[]" "''m''" demo_world]
  show ?thesis by (simp add: iface_fields_def level_defs)
qed

end
