(* ===== verification/Core_Pool.thy ===== *)
theory Core_Pool
  imports Core_Session
begin

text \<open>
  The pool of line states under use by many lines at once (\<^verbatim>\<open>core/pool.go\<close>, \<^verbatim>\<open>core/line.go\<close>). A line holds the
  index of its state and the state's epoch at the time of opening; the pool may hand a returned state to
  the next line. Lines are opened, given fields and finished in any order, also after they are finished
  and their state has another owner. The reference gives every line fields of its own.
\<close>

section \<open>The pool and its operations\<close>

record line_pool =
  lp_states :: "perPState list"
  lp_free :: "nat list"
  lp_lines :: "(nat \<times> 32 word) option list"

definition empty_pool :: line_pool where
  "empty_pool = \<lparr>lp_states = [], lp_free = [], lp_lines = []\<rparr>"

text \<open>Opening takes the free state at the given position, or makes a new one.\<close>

datatype 's pool_op =
    POpen "'s log_env" logger nat nat
  | PAdd nat "field_key option \<times> string \<times> field_arg"
  | PMsg "'s log_env" nat string

definition take_state :: "nat \<Rightarrow> line_pool \<Rightarrow> line_pool \<times> nat" where
  "take_state pick p =
     (if pick < length (lp_free p)
      then (p\<lparr>lp_free := take pick (lp_free p) @ drop (Suc pick) (lp_free p)\<rparr>, lp_free p ! pick)
      else (p\<lparr>lp_states := lp_states p @ [new_perPState]\<rparr>, length (lp_states p)))"

definition handle :: "line_pool \<Rightarrow> nat \<Rightarrow> (nat \<times> 32 word) option" where
  "handle p h = (if h < length (lp_lines p) then lp_lines p ! h else None)"

fun pool_step :: "line_pool \<times> 's log_world \<Rightarrow> 's pool_op \<Rightarrow> line_pool \<times> 's log_world" where
  "pool_step (p, w) (POpen env l level pick) =
     (if level < logger_level l then (p\<lparr>lp_lines := lp_lines p @ [None]\<rparr>, w)
      else let (p, i) = take_state pick p in
        case open_line env l level (lp_states p ! i) of
          None \<Rightarrow> (p, w)
        | Some (s, epoch) \<Rightarrow> (p\<lparr>lp_states := (lp_states p)[i := s], lp_lines := lp_lines p @ [Some (i, epoch)]\<rparr>, w))"
| "pool_step (p, w) (PAdd h a) =
     (case handle p h of
        None \<Rightarrow> (p, w)
      | Some (i, epoch) \<Rightarrow> (p\<lparr>lp_states := (lp_states p)[i := line_add (lp_states p ! i) epoch a]\<rparr>, w))"
| "pool_step (p, w) (PMsg env h msg) =
     (case handle p h of
        None \<Rightarrow> (p, w)
      | Some (i, epoch) \<Rightarrow>
          let (s, w) = line_Msg env (lp_states p ! i) epoch msg w in
          (p\<lparr>lp_states := (lp_states p)[i := s],
             lp_free := (if ps_epoch (lp_states p ! i) = epoch then i # lp_free p else lp_free p)\<rparr>, w))"

section \<open>Lines of their own\<close>

record own_line =
  ow_logger :: logger
  ow_level :: nat
  ow_fields :: "typed_field list"
  ow_live :: bool

definition own :: "own_line option list \<Rightarrow> nat \<Rightarrow> own_line option" where
  "own os h = (if h < length os then os ! h else None)"

fun own_step :: "own_line option list \<Rightarrow> 's pool_op \<Rightarrow> own_line option list" where
  "own_step os (POpen env l level pick) =
     os @ [if level < logger_level l then None else Some \<lparr>ow_logger = l, ow_level = level, ow_fields = [], ow_live = True\<rparr>]"
| "own_step os (PAdd h a) =
     (case own os h of
        Some c \<Rightarrow> if ow_live c then os[h := Some (c\<lparr>ow_fields := ow_fields c @ [arg_field a]\<rparr>)] else os
      | None \<Rightarrow> os)"
| "own_step os (PMsg env h msg) =
     (case own os h of Some c \<Rightarrow> os[h := Some (c\<lparr>ow_live := False\<rparr>)] | None \<Rightarrow> os)"

section \<open>The invariant\<close>

text \<open>A state built up to its line's fields, and a state that carries a line.\<close>

definition built :: "json_formatter option \<Rightarrow> logger \<Rightarrow> perPState \<Rightarrow> typed_field list \<Rightarrow> bool" where
  "built enc l s fs \<longleftrightarrow> (if ps_directJSON s = None then holds s (lg_boundFields l @ fs)
     else lg_direct l \<and> enc = ps_directJSON s \<and> holds s fs)"

definition carries :: "json_formatter option \<Rightarrow> perPState \<Rightarrow> own_line \<Rightarrow> bool" where
  "carries enc s c \<longleftrightarrow> ps_owner s = Some (ow_logger c) \<and> ps_lineLevel s = ow_level c \<and> logger_ok (ow_logger c)
     \<and> logger_level (ow_logger c) \<le> ow_level c
     \<and> built enc (ow_logger c) s (ow_fields c)"

definition line_ok :: "json_formatter option \<Rightarrow> line_pool \<Rightarrow> (nat \<times> 32 word) option \<Rightarrow> own_line option \<Rightarrow> bool" where
  "line_ok enc p ho oc = (case (ho, oc) of
       (None, None) \<Rightarrow> True
     | (Some (i, epoch), Some c) \<Rightarrow> i < length (lp_states p) \<and>
         (if ow_live c then ps_epoch (lp_states p ! i) = epoch \<and> i \<notin> set (lp_free p) \<and> carries enc (lp_states p ! i) c
          else unat epoch < unat (ps_epoch (lp_states p ! i)))
     | _ \<Rightarrow> False)"

definition live_at :: "line_pool \<Rightarrow> own_line option list \<Rightarrow> nat \<Rightarrow> nat \<Rightarrow> bool" where
  "live_at p os h i \<longleftrightarrow> h < length os \<and> (\<exists>c epoch. os ! h = Some c \<and> ow_live c \<and> lp_lines p ! h = Some (i, epoch))"

definition pool_ok :: "json_formatter option \<Rightarrow> nat \<Rightarrow> line_pool \<Rightarrow> own_line option list \<Rightarrow> bool" where
  "pool_ok enc n p os \<longleftrightarrow> length (lp_lines p) = length os
     \<and> (\<forall>h < length os. line_ok enc p (lp_lines p ! h) (os ! h))
     \<and> (\<forall>h h' i. live_at p os h i \<longrightarrow> live_at p os h' i \<longrightarrow> h = h')
     \<and> distinct (lp_free p) \<and> (\<forall>i \<in> set (lp_free p). i < length (lp_states p) \<and> pooled (lp_states p ! i))
     \<and> (\<forall>i < length (lp_states p). unat (ps_epoch (lp_states p ! i)) \<le> n)"

fun op_ok :: "json_formatter option \<Rightarrow> 's pool_op \<Rightarrow> bool" where
  "op_ok enc (POpen env l level pick) \<longleftrightarrow> logger_ok l \<and> en_encoder env = enc"
| "op_ok enc (PAdd h a) \<longleftrightarrow> True"
| "op_ok enc (PMsg env h msg) \<longleftrightarrow> env_ok env \<and> en_encoder env = enc"

lemma pool_ok_empty: "pool_ok enc 0 empty_pool []"
  by (simp add: pool_ok_def empty_pool_def live_at_def)

lemma new_pooled [simp]: "pooled new_perPState" "ps_epoch new_perPState = 0"
  by (simp_all add: pooled_def new_perPState_def)

text \<open>A state just acquired carries its line, without fields of its own.\<close>

lemma open_carries:
  assumes "logger_ok l" and "pooled s" and "logger_level l \<le> level" and "open_line env l level s = Some (s', epoch)"
  shows "carries (en_encoder env) s' \<lparr>ow_logger = l, ow_level = level, ow_fields = [], ow_live = True\<rparr>"
    and "ps_epoch s' = ps_epoch s" and "epoch = ps_epoch s"
proof -
  have s': "s' = (acquireState env l s)\<lparr>ps_owner := Some l, ps_lineLevel := level\<rparr>" "epoch = ps_epoch s"
    using assms(3,4) by (auto simp: open_line_def Let_def acquire_epoch split: if_splits)
  have frame: "holds (acquireState env l s) fs \<Longrightarrow> holds s' fs" for fs by (simp add: holds_def s')
  have "built (en_encoder env) l s' []"
  proof (cases "lg_direct l \<and> en_encoder env \<noteq> None")
    case True
    then obtain f where f: "en_encoder env = Some f" by blast
    with True acquire_direct [OF assms(2) _ f] frame show ?thesis by (auto simp: built_def s')
  next
    case False
    with capture_holds [OF assms(1,2)] frame show ?thesis by (auto simp: built_def s' acquire_capture)
  qed
  then show "carries (en_encoder env) s' \<lparr>ow_logger = l, ow_level = level, ow_fields = [], ow_live = True\<rparr>"
    using assms(1,3) by (simp add: carries_def s')
  show "ps_epoch s' = ps_epoch s" "epoch = ps_epoch s" using s' by (simp_all add: acquire_epoch)
qed

lemma add_carries:
  assumes "carries enc s c"
  shows "carries enc (add_arg s a) (c\<lparr>ow_fields := ow_fields c @ [arg_field a]\<rparr>)"
  using assms add_arg_holds [of s "lg_boundFields (ow_logger c) @ ow_fields c" a] add_arg_holds [of s "ow_fields c" a]
  by (auto simp: carries_def built_def split: if_splits)

text \<open>What finishing a line shows is its own fields.\<close>

lemma Msg_carried:
  assumes "carries (en_encoder env) s c" and "ps_epoch s = epoch" and "env_ok env" and "world_ok env w"
  shows "same_output env (ow_logger c) (snd (line_Msg env s epoch msg w))
      (spec_line env (ow_logger c) (ow_level c) msg (lg_boundFields (ow_logger c) @ ow_fields c) w)"
    and "world_ok env (snd (line_Msg env s epoch msg w))"
proof -
  have b: "built (en_encoder env) (ow_logger c) s (ow_fields c)" using assms(1) by (simp add: carries_def)
  define fs where "fs = (if ps_directJSON s = None then lg_boundFields (ow_logger c) @ ow_fields c else ow_fields c)"
  have fs: "holds s fs" using b by (auto simp: built_def fs_def split: if_splits)
  have c: "case ps_directJSON s of None \<Rightarrow> lg_boundFields (ow_logger c) @ ow_fields c = fs
      | Some f \<Rightarrow> lg_direct (ow_logger c) \<and> en_encoder env = Some f
          \<and> lg_boundFields (ow_logger c) @ ow_fields c = lg_boundFields (ow_logger c) @ fs"
    using b by (auto simp: built_def fs_def split: option.splits)
  have o: "ps_owner s = Some (ow_logger c)" "ps_lineLevel s = ow_level c" "logger_ok (ow_logger c)"
    "\<not> ow_level c < logger_level (ow_logger c)" using assms(1) by (auto simp: carries_def)
  from built_line [OF o(3) assms(3,4) fs assms(2) c, of "ow_level c" msg] o
  show "same_output env (ow_logger c) (snd (line_Msg env s epoch msg w))
      (spec_line env (ow_logger c) (ow_level c) msg (lg_boundFields (ow_logger c) @ ow_fields c) w)"
    and "world_ok env (snd (line_Msg env s epoch msg w))"
    by (simp_all add: line_Msg_def assms(2))
qed

lemma Msg_state:
  assumes "carries enc s c" and "ps_epoch s = epoch"
  shows "pooled (fst (line_Msg env s epoch msg w))" and "ps_epoch (fst (line_Msg env s epoch msg w)) = epoch + 1"
proof -
  obtain fs where "holds s fs" using assms(1) by (auto simp: carries_def built_def split: if_splits)
  from dispatch_pooled [OF this assms(2)] assms show "pooled (fst (line_Msg env s epoch msg w))"
    by (auto simp: line_Msg_def carries_def)
  have "ps_epoch (fst (dispatchLine env l s epoch level msg w)) = epoch + 1" for l level
    using assms(2) by (auto simp: dispatchLine_def pool_put_def Let_def split: option.split prod.split)
  with assms show "ps_epoch (fst (line_Msg env s epoch msg w)) = epoch + 1" by (auto simp: line_Msg_def carries_def)
qed

lemma Msg_stale: "ps_epoch s \<noteq> epoch \<Longrightarrow> line_Msg env s epoch msg w = (s, w)"
  by (simp add: line_Msg_def)

section \<open>Preservation\<close>

lemma pool_okD:
  assumes "pool_ok enc n p os"
  shows "length (lp_lines p) = length os" and "h < length os \<Longrightarrow> line_ok enc p (lp_lines p ! h) (os ! h)"
    and "live_at p os h i \<Longrightarrow> live_at p os h' i \<Longrightarrow> h = h'" and "distinct (lp_free p)"
    and "i \<in> set (lp_free p) \<Longrightarrow> i < length (lp_states p) \<and> pooled (lp_states p ! i)"
    and "i < length (lp_states p) \<Longrightarrow> unat (ps_epoch (lp_states p ! i)) \<le> n"
  using assms unfolding pool_ok_def by blast+

text \<open>A handle that answers: either its line is live and its state is its own, or it is stale.\<close>

lemma handle_cases:
  assumes "pool_ok enc n p os" and "handle p h = Some (i, epoch)"
  obtains (live) c where "h < length os" "own os h = Some c" "ow_live c" "i < length (lp_states p)" "live_at p os h i"
      "ps_epoch (lp_states p ! i) = epoch" "i \<notin> set (lp_free p)" "carries enc (lp_states p ! i) c"
  | (stale) c where "h < length os" "own os h = Some c" "\<not> ow_live c" "i < length (lp_states p)"
      "ps_epoch (lp_states p ! i) \<noteq> epoch"
proof -
  have h: "h < length os" "lp_lines p ! h = Some (i, epoch)"
    using assms(2) pool_okD(1) [OF assms(1)] by (auto simp: handle_def split: if_splits)
  from pool_okD(2) [OF assms(1) h(1)] h obtain c where c: "os ! h = Some c"
    "i < length (lp_states p)" "if ow_live c then ps_epoch (lp_states p ! i) = epoch \<and> i \<notin> set (lp_free p) \<and> carries enc (lp_states p ! i) c
      else unat epoch < unat (ps_epoch (lp_states p ! i))"
    by (auto simp: line_ok_def split: option.splits)
  show ?thesis
  proof (cases "ow_live c")
    case True
    with c h show ?thesis by (intro live [of c]) (auto simp: own_def live_at_def)
  next
    case False
    with c h show ?thesis by (intro stale [of c]) (auto simp: own_def)
  qed
qed

lemma handle_none:
  assumes "pool_ok enc n p os" and "handle p h = None"
  shows "own os h = None"
  using pool_okD(1) [OF assms(1)] pool_okD(2) [OF assms(1), of h] assms(2)
  by (auto simp: handle_def own_def line_ok_def split: option.splits if_splits)

text \<open>Changing the state of a live line, with its fields, or finishing it.\<close>

lemma state_update:
  assumes ok: "pool_ok enc n p os" and h: "live_at p os h i" and i: "i < length (lp_states p)"
    and ep: "ps_epoch s' = ps_epoch (lp_states p ! i)" and c': "ow_live c'" "carries enc s' c'"
    and free: "i \<notin> set (lp_free p)"
  shows "pool_ok enc n (p\<lparr>lp_states := (lp_states p)[i := s']\<rparr>) (os[h := Some c'])"
proof -
  let ?p = "p\<lparr>lp_states := (lp_states p)[i := s']\<rparr>" and ?os = "os[h := Some c']"
  from h obtain c epoch where hc: "h < length os" "os ! h = Some c" "ow_live c" "lp_lines p ! h = Some (i, epoch)"
    by (auto simp: live_at_def)
  have live: "live_at ?p ?os k j = live_at p os k j" for k j
    using hc c'(1) by (cases "k = h") (auto simp: live_at_def)
  have line: "line_ok enc ?p (lp_lines ?p ! k) (?os ! k)" if k: "k < length ?os" for k
  proof (cases "k = h")
    case True
    have "line_ok enc p (lp_lines p ! h) (os ! h)" using pool_okD(2) [OF ok hc(1)] .
    with True hc c' i ep free show ?thesis by (simp add: line_ok_def)
  next
    case False
    then have o: "?os ! k = os ! k" by simp
    have lk: "line_ok enc p (lp_lines p ! k) (os ! k)" using pool_okD(2) [OF ok] k by simp
    show ?thesis
    proof (cases "live_at p os k i")
      case True
      with pool_okD(3) [OF ok h True] False show ?thesis by simp
    next
      case nl: False
      with lk i ep k show ?thesis
        by (auto simp: line_ok_def o live_at_def nth_list_update split: option.splits if_splits)
    qed
  qed
  show ?thesis
    unfolding pool_ok_def
  proof (intro conjI allI impI ballI)
    show "length (lp_lines ?p) = length ?os" using pool_okD(1) [OF ok] by simp
    show "line_ok enc ?p (lp_lines ?p ! k) (?os ! k)" if "k < length ?os" for k by (rule line [OF that])
    show "k = k'" if "live_at ?p ?os k j" "live_at ?p ?os k' j" for k k' j
      using that pool_okD(3) [OF ok] unfolding live by blast
    show "distinct (lp_free ?p)" using pool_okD(4) [OF ok] by simp
    show "j < length (lp_states ?p)" "pooled (lp_states ?p ! j)" if "j \<in> set (lp_free ?p)" for j
      using that pool_okD(5) [OF ok, of j] free by (cases "j = i"; auto)+
    show "unat (ps_epoch (lp_states ?p ! j)) \<le> n" if "j < length (lp_states ?p)" for j
      using that pool_okD(6) [OF ok, of j] pool_okD(6) [OF ok i] ep by (cases "j = i") auto
  qed
qed

lemma state_release:
  assumes ok: "pool_ok enc n p os" and h: "live_at p os h i" and i: "i < length (lp_states p)"
    and ep: "ps_epoch s' = ps_epoch (lp_states p ! i) + 1" and s': "pooled s'" and c': "\<not> ow_live c'"
    and free: "i \<notin> set (lp_free p)" and n: "Suc n < 2 ^ 32"
  shows "pool_ok enc (Suc n) (p\<lparr>lp_states := (lp_states p)[i := s'], lp_free := i # lp_free p\<rparr>) (os[h := Some c'])"
proof -
  let ?p = "p\<lparr>lp_states := (lp_states p)[i := s'], lp_free := i # lp_free p\<rparr>" and ?os = "os[h := Some c']"
  from h obtain c epoch where hc: "h < length os" "os ! h = Some c" "ow_live c" "lp_lines p ! h = Some (i, epoch)"
    by (auto simp: live_at_def)
  have le: "unat (ps_epoch (lp_states p ! i)) \<le> n" by (rule pool_okD(6) [OF ok i])
  then have up: "unat (ps_epoch s') = Suc (unat (ps_epoch (lp_states p ! i)))"
    using n ep by (simp add: unat_word_ariths)
  have live: "live_at ?p ?os k j \<Longrightarrow> k \<noteq> h \<and> live_at p os k j" for k j
    using hc c' by (cases "k = h") (auto simp: live_at_def)
  have line: "line_ok enc ?p (lp_lines ?p ! k) (?os ! k)" if k: "k < length ?os" for k
  proof (cases "k = h")
    case True
    have "line_ok enc p (lp_lines p ! h) (os ! h)" using pool_okD(2) [OF ok hc(1)] .
    then have "ps_epoch (lp_states p ! i) = epoch" using hc by (simp add: line_ok_def)
    with True hc c' i up show ?thesis by (simp add: line_ok_def)
  next
    case False
    then have o: "?os ! k = os ! k" by simp
    have lk: "line_ok enc p (lp_lines p ! k) (os ! k)" using pool_okD(2) [OF ok] k by simp
    have nl: "\<not> live_at p os k i" using pool_okD(3) [OF ok h, of k] False by blast
    with lk i up k show ?thesis
      by (auto simp: line_ok_def o live_at_def nth_list_update split: option.splits if_splits)
  qed
  show ?thesis
    unfolding pool_ok_def
  proof (intro conjI allI impI ballI)
    show "length (lp_lines ?p) = length ?os" using pool_okD(1) [OF ok] by simp
    show "line_ok enc ?p (lp_lines ?p ! k) (?os ! k)" if "k < length ?os" for k by (rule line [OF that])
    show "k = k'" if "live_at ?p ?os k j" "live_at ?p ?os k' j" for k k' j
      using that live pool_okD(3) [OF ok] by blast
    show "distinct (lp_free ?p)" using pool_okD(4) [OF ok] free by simp
    show "j < length (lp_states ?p)" "pooled (lp_states ?p ! j)" if "j \<in> set (lp_free ?p)" for j
      using that pool_okD(5) [OF ok, of j] i s' by (cases "j = i"; auto)+
    show "unat (ps_epoch (lp_states ?p ! j)) \<le> Suc n" if "j < length (lp_states ?p)" for j
      using that pool_okD(6) [OF ok, of j] le up by (cases "j = i") auto
  qed
qed

lemma pool_ok_mono: "pool_ok enc n p os \<Longrightarrow> pool_ok enc (Suc n) p os"
  unfolding pool_ok_def by (meson le_SucI)

text \<open>Opening: the state taken belongs to no live line.\<close>

lemma take_state_ok:
  assumes ok: "pool_ok enc n p os" and t: "take_state pick p = (p', i)"
  shows "pool_ok enc n p' os" and "i < length (lp_states p')" and "i \<notin> set (lp_free p')" and "pooled (lp_states p' ! i)"
    and "\<not> live_at p' os h i" and "lp_lines p' = lp_lines p"
proof -
  have "pool_ok enc n p' os \<and> i < length (lp_states p') \<and> i \<notin> set (lp_free p') \<and> pooled (lp_states p' ! i)
      \<and> (\<forall>h. \<not> live_at p' os h i) \<and> lp_lines p' = lp_lines p"
  proof (cases "pick < length (lp_free p)")
    case True
    then have p': "p' = p\<lparr>lp_free := take pick (lp_free p) @ drop (Suc pick) (lp_free p)\<rparr>" and i: "i = lp_free p ! pick"
      using t by (simp_all add: take_state_def)
    obtain a b where ab: "a = take pick (lp_free p)" "b = drop (Suc pick) (lp_free p)" by blast
    then have split: "lp_free p = a @ i # b" using True i by (simp add: id_take_nth_drop)
    have "distinct (a @ b)" "i \<notin> set (a @ b)" using pool_okD(4) [OF ok] by (simp_all add: split)
    moreover have "set (lp_free p) = insert i (set (a @ b))" by (simp add: split)
    ultimately have d: "distinct (take pick (lp_free p) @ drop (Suc pick) (lp_free p))"
      "i \<notin> set (take pick (lp_free p) @ drop (Suc pick) (lp_free p))"
      "set (lp_free p) = insert i (set (take pick (lp_free p) @ drop (Suc pick) (lp_free p)))"
      unfolding ab by blast+
    have inf: "i \<in> set (lp_free p)" using d(3) by blast
    have nl: "\<not> live_at p os h i" for h
      using pool_okD(2) [OF ok, of h] inf by (auto simp: live_at_def line_ok_def)
    have live: "live_at p' os h j = live_at p os h j" for h j by (simp add: live_at_def p')
    have "line_ok enc p' (lp_lines p' ! h) (os ! h)" if "h < length os" for h
      using pool_okD(2) [OF ok that] d(3) by (auto simp: line_ok_def p' split: option.splits if_splits)
    then have "pool_ok enc n p' os"
      unfolding pool_ok_def live using pool_okD(1,3,6) [OF ok] pool_okD(5) [OF ok] d(1,3) by (auto simp: p')
    with nl live pool_okD(5) [OF ok inf] d(2) show ?thesis by (simp add: p')
  next
    case False
    then have p': "p' = p\<lparr>lp_states := lp_states p @ [new_perPState]\<rparr>" and i: "i = length (lp_states p)"
      using t by (simp_all add: take_state_def)
    have nl: "\<not> live_at p os h i" for h
      using pool_okD(2) [OF ok, of h] i by (auto simp: live_at_def line_ok_def)
    have live: "live_at p' os h j = live_at p os h j" for h j by (simp add: live_at_def p')
    have "line_ok enc p' (lp_lines p' ! h) (os ! h)" if "h < length os" for h
      using pool_okD(2) [OF ok that] by (auto simp: line_ok_def p' nth_append split: option.splits if_splits)
    then have "pool_ok enc n p' os"
      unfolding pool_ok_def live using pool_okD(1,3,4,6) [OF ok] pool_okD(5) [OF ok]
      by (auto simp: p' nth_append less_Suc_eq)
    moreover have "i \<notin> set (lp_free p)" using pool_okD(5) [OF ok, of i] i by auto
    ultimately show ?thesis using nl live i by (simp add: p')
  qed
  then show "pool_ok enc n p' os" and "i < length (lp_states p')" and "i \<notin> set (lp_free p')" and "pooled (lp_states p' ! i)"
    and "\<not> live_at p' os h i" and "lp_lines p' = lp_lines p" by blast+
qed

lemma line_append:
  assumes ok: "pool_ok enc n p os" and l: "line_ok enc (p\<lparr>lp_states := sts, lp_lines := lp_lines p @ [ho]\<rparr>) ho oc"
    and sts: "length sts = length (lp_states p)" "\<And>j. j < length sts \<Longrightarrow> ps_epoch (sts ! j) = ps_epoch (lp_states p ! j)"
      "\<And>j. j < length sts \<Longrightarrow> sts ! j = lp_states p ! j \<or> j \<notin> set (lp_free p) \<and> (\<forall>h. \<not> live_at p os h j)"
    and new: "\<And>i epoch c h. ho = Some (i, epoch) \<Longrightarrow> oc = Some c \<Longrightarrow> ow_live c \<Longrightarrow> \<not> live_at p os h i"
  shows "pool_ok enc n (p\<lparr>lp_states := sts, lp_lines := lp_lines p @ [ho]\<rparr>) (os @ [oc])"
proof -
  let ?p = "p\<lparr>lp_states := sts, lp_lines := lp_lines p @ [ho]\<rparr>" and ?os = "os @ [oc]"
  note len = pool_okD(1) [OF ok]
  have old: "live_at ?p ?os h i = live_at p os h i" if "h < length os" for h i
    using that len by (simp add: live_at_def nth_append)
  have at_new: "live_at ?p ?os h i \<Longrightarrow> h < length os \<or> h = length os \<and> (\<exists>epoch c. ho = Some (i, epoch) \<and> oc = Some c \<and> ow_live c)" for h i
    using len by (auto simp: live_at_def nth_append split: if_splits)
  have line: "line_ok enc ?p (lp_lines ?p ! h) (?os ! h)" if h: "h < length ?os" for h
  proof (cases "h = length os")
    case True
    with l len show ?thesis by (simp add: nth_append)
  next
    case False
    with h have h': "h < length os" by simp
    have lk: "line_ok enc p (lp_lines p ! h) (os ! h)" by (rule pool_okD(2) [OF ok h'])
    have keep: "sts ! j = lp_states p ! j" if "live_at p os h j" "j < length sts" for j using sts(3) [OF that(2)] that(1) by blast
    have "line_ok enc ?p (lp_lines p ! h) (os ! h)"
      using lk sts(1,2) keep h' by (auto simp: line_ok_def live_at_def split: option.splits if_splits)
    then show ?thesis using h' len by (simp add: nth_append)
  qed
  show ?thesis
    unfolding pool_ok_def
  proof (intro conjI allI impI ballI)
    show "length (lp_lines ?p) = length ?os" using len by simp
    show "line_ok enc ?p (lp_lines ?p ! h) (?os ! h)" if "h < length ?os" for h by (rule line [OF that])
    show "h = h'" if "live_at ?p ?os h i" "live_at ?p ?os h' i" for h h' i
      using at_new [OF that(1)] at_new [OF that(2)] that old pool_okD(3) [OF ok] new by metis
    show "distinct (lp_free ?p)" using pool_okD(4) [OF ok] by simp
    show "j < length (lp_states ?p)" "pooled (lp_states ?p ! j)" if "j \<in> set (lp_free ?p)" for j
      using that pool_okD(5) [OF ok, of j] sts by (auto, metis)
    show "unat (ps_epoch (lp_states ?p ! j)) \<le> n" if "j < length (lp_states ?p)" for j
      using that pool_okD(6) [OF ok, of j] sts(1,2) by simp
  qed
qed

section \<open>Runs\<close>

definition enc_ok :: "json_formatter option \<Rightarrow> 's log_world \<Rightarrow> bool" where
  "enc_ok enc w \<longleftrightarrow> (\<forall>f. enc = Some f \<longrightarrow> cache_ok (jf_tz f) (w_cache w))"

lemma world_ok_enc: "world_ok env w = enc_ok (en_encoder env) w"
  by (simp add: world_ok_def enc_ok_def)

lemma open_ok:
  assumes ok: "pool_ok enc n p os" and op: "logger_ok l" "en_encoder env = enc" and r: "pool_step (p, w) (POpen env l level pick) = (p', w')"
  shows "pool_ok enc n p' (own_step os (POpen env l level pick))" and "w' = w"
proof -
  have "pool_ok enc n p' (own_step os (POpen env l level pick)) \<and> w' = w"
  proof (cases "level < logger_level l")
    case True
    then have p': "p' = p\<lparr>lp_lines := lp_lines p @ [None]\<rparr>" "w' = w" using r by simp_all
    have "pool_ok enc n (p\<lparr>lp_states := lp_states p, lp_lines := lp_lines p @ [None]\<rparr>) (os @ [None])"
      by (rule line_append [OF ok]) (simp_all add: line_ok_def)
    with True p' show ?thesis by simp
  next
    case False
    obtain p1 i where t: "take_state pick p = (p1, i)" by fastforce
    note ts = take_state_ok [OF ok t]
    obtain s epoch where o: "open_line env l level (lp_states p1 ! i) = Some (s, epoch)"
      using False by (auto simp: open_line_def Let_def)
    let ?c = "\<lparr>ow_logger = l, ow_level = level, ow_fields = [], ow_live = True\<rparr>"
    note oc = open_carries [OF op(1) ts(4) _ o]
    have lv: "logger_level l \<le> level" using False by simp
    have c: "carries enc s ?c" "ps_epoch s = ps_epoch (lp_states p1 ! i)" "epoch = ps_epoch (lp_states p1 ! i)"
      using oc [OF lv] op(2) by simp_all
    let ?sts = "(lp_states p1)[i := s]"
    have "pool_ok enc n (p1\<lparr>lp_states := ?sts, lp_lines := lp_lines p1 @ [Some (i, epoch)]\<rparr>) (os @ [Some ?c])"
    proof (rule line_append [OF ts(1)])
      show "line_ok enc (p1\<lparr>lp_states := ?sts, lp_lines := lp_lines p1 @ [Some (i, epoch)]\<rparr>) (Some (i, epoch)) (Some ?c)"
        using c ts(2,3) by (simp add: line_ok_def)
      show "ps_epoch (?sts ! j) = ps_epoch (lp_states p1 ! j)" if "j < length ?sts" for j
        using that c(2) by (cases "j = i") simp_all
      show "?sts ! j = lp_states p1 ! j \<or> j \<notin> set (lp_free p1) \<and> (\<forall>h. \<not> live_at p1 os h j)" if "j < length ?sts" for j
        using ts(3,5) by (cases "j = i") simp_all
    qed (use ts(5) in auto)
    moreover have "p' = p1\<lparr>lp_states := ?sts, lp_lines := lp_lines p1 @ [Some (i, epoch)]\<rparr>" "w' = w"
      using r False by (simp_all add: t o)
    ultimately show ?thesis using False by simp
  qed
  then show "pool_ok enc n p' (own_step os (POpen env l level pick))" and "w' = w" by blast+
qed

lemma add_ok:
  assumes ok: "pool_ok enc n p os" and r: "pool_step (p, w) (PAdd h a) = (p', w')"
  shows "pool_ok enc n p' (own_step os (PAdd h a))" and "w' = w"
proof -
  have "pool_ok enc n p' (own_step os (PAdd h a)) \<and> w' = w"
  proof (cases "handle p h")
    case None
    with ok r handle_none [OF ok None] show ?thesis by simp
  next
    case (Some ie)
    obtain i epoch where ie: "handle p h = Some (i, epoch)" using Some by (cases ie) simp
    from ok ie show ?thesis
    proof (cases rule: handle_cases)
      case (live c)
      have "pool_ok enc n (p\<lparr>lp_states := (lp_states p)[i := add_arg (lp_states p ! i) a]\<rparr>)
          (os[h := Some (c\<lparr>ow_fields := ow_fields c @ [arg_field a]\<rparr>)])"
        by (rule state_update [OF ok live(5,4) _ _ add_carries [OF live(8)] live(7)]) (simp_all add: live(3))
      with r live show ?thesis by (auto simp: ie line_add_def)
    next
      case (stale c)
      with r ok show ?thesis by (auto simp: ie line_add_def)
    qed
  qed
  then show "pool_ok enc n p' (own_step os (PAdd h a))" and "w' = w" by blast+
qed

lemma msg_ok:
  assumes ok: "pool_ok enc n p os" and n: "Suc n < 2 ^ 32" and e: "env_ok env" "en_encoder env = enc" "enc_ok enc w"
    and r: "pool_step (p, w) (PMsg env h msg) = (p', w')"
  shows "pool_ok enc (Suc n) p' (own_step os (PMsg env h msg))" and "enc_ok enc w'"
    and "case own os h of
        Some c \<Rightarrow> if ow_live c then same_output env (ow_logger c) w'
             (spec_line env (ow_logger c) (ow_level c) msg (lg_boundFields (ow_logger c) @ ow_fields c) w)
           else w' = w
      | None \<Rightarrow> w' = w"
proof -
  have "pool_ok enc (Suc n) p' (own_step os (PMsg env h msg)) \<and> enc_ok enc w' \<and> (case own os h of
        Some c \<Rightarrow> if ow_live c then same_output env (ow_logger c) w'
             (spec_line env (ow_logger c) (ow_level c) msg (lg_boundFields (ow_logger c) @ ow_fields c) w)
           else w' = w
      | None \<Rightarrow> w' = w)"
  proof (cases "handle p h")
    case None
    with pool_ok_mono [OF ok] e(3) r handle_none [OF ok None] show ?thesis by simp
  next
    case (Some ie)
    obtain i epoch where ie: "handle p h = Some (i, epoch)" using Some by (cases ie) simp
    from ok ie show ?thesis
    proof (cases rule: handle_cases)
      case (live c)
      obtain s' w1 where m: "line_Msg env (lp_states p ! i) epoch msg w = (s', w1)" by fastforce
      note st = Msg_state [OF live(8,6), of env msg w, unfolded m fst_conv]
      have car: "carries (en_encoder env) (lp_states p ! i) c" using live(8) e(2) by simp
      have wo: "world_ok env w" using e by (simp add: world_ok_enc)
      note out = Msg_carried [OF car live(6) e(1) wo, of msg, unfolded m snd_conv]
      have "ps_epoch s' = ps_epoch (lp_states p ! i) + 1" using st(2) live(6) by simp
      from state_release [OF ok live(5,4) this st(1) _ live(7) n, of "c\<lparr>ow_live := False\<rparr>"]
      have "pool_ok enc (Suc n) (p\<lparr>lp_states := (lp_states p)[i := s'], lp_free := i # lp_free p\<rparr>) (os[h := Some (c\<lparr>ow_live := False\<rparr>)])"
        by simp
      with r live out e(2) show ?thesis by (auto simp: ie m world_ok_enc)
    next
      case (stale c)
      then have "os ! h = Some c" by (simp add: own_def split: if_splits)
      moreover have "c\<lparr>ow_live := False\<rparr> = c" using stale(3) by (cases c) simp
      ultimately have "os[h := Some (c\<lparr>ow_live := False\<rparr>)] = os" using list_update_id [of os h] by simp
      with r stale pool_ok_mono [OF ok] e(3) show ?thesis by (auto simp: ie Msg_stale)
    qed
  qed
  then show "pool_ok enc (Suc n) p' (own_step os (PMsg env h msg))" and "enc_ok enc w'"
    and "case own os h of
        Some c \<Rightarrow> if ow_live c then same_output env (ow_logger c) w'
             (spec_line env (ow_logger c) (ow_level c) msg (lg_boundFields (ow_logger c) @ ow_fields c) w)
           else w' = w
      | None \<Rightarrow> w' = w" by blast+
qed

lemma pool_run_ok:
  assumes "list_all (op_ok enc) ops" and "n + length ops < 2 ^ 32" and "pool_ok enc n p os" and "enc_ok enc w"
    and "foldl pool_step (p, w) ops = (p', w')"
  shows "pool_ok enc (n + length ops) p' (foldl own_step os ops) \<and> enc_ok enc w'"
  using assms
proof (induction ops arbitrary: n p os w)
  case (Cons op ops)
  obtain p1 w1 where st: "pool_step (p, w) op = (p1, w1)" by fastforce
  have n: "Suc n < 2 ^ 32" using Cons.prems(2) by simp
  have "pool_ok enc (Suc n) p1 (own_step os op) \<and> enc_ok enc w1"
  proof (cases op)
    case (POpen env l level pick)
    with open_ok [OF Cons.prems(3), of l env w level pick p1 w1] st Cons.prems(1,4) show ?thesis by (simp add: pool_ok_mono)
  next
    case (PAdd h a)
    with add_ok [OF Cons.prems(3), of w h a p1 w1] st Cons.prems(4) show ?thesis by (simp add: pool_ok_mono)
  next
    case (PMsg env h msg)
    with msg_ok [OF Cons.prems(3) n, of env w h msg p1 w1] st Cons.prems(1,4) show ?thesis by simp
  qed
  with Cons.IH [of "Suc n" p1 "own_step os op" w1] Cons.prems(1,2,5) st show ?case by simp
qed simp

section \<open>Properties\<close>

text \<open>
  C4: Lines are isolated: however many lines of however many loggers share the pool, in whatever order they
  are opened, given fields and finished, and whatever calls are made on lines that are already finished,
  finishing a line writes exactly its own fields, at its own level, after its logger's context; and a
  call on a finished or disabled line writes nothing. The epochs tell the lines apart for 2^32 calls.
\<close>

theorem lines_are_isolated:
  assumes "list_all (op_ok enc) ops" and "Suc (length ops) < 2 ^ 32" and "enc_ok enc w0"
    and "foldl pool_step (empty_pool, w0) ops = (p, w)" and "env_ok env" and "en_encoder env = enc"
    and "pool_step (p, w) (PMsg env h msg) = (p', w')"
  shows "case own (foldl own_step [] ops) h of
      Some c \<Rightarrow> if ow_live c then same_output env (ow_logger c) w'
           (spec_line env (ow_logger c) (ow_level c) msg (lg_boundFields (ow_logger c) @ ow_fields c) w)
         else w' = w
    | None \<Rightarrow> w' = w"
proof -
  have "pool_ok enc (length ops) p (foldl own_step [] ops) \<and> enc_ok enc w"
    using pool_run_ok [OF assms(1) _ pool_ok_empty assms(3,4)] assms(2) by simp
  with msg_ok(3) [OF _ assms(2,5,6) _ assms(7)] show ?thesis by blast
qed

definition demo_root :: logger where
  "demo_root = NewLogger demo_config"

lemma demo_root_facts: "logger_level demo_root = 2" "lg_boundFields demo_root = []" "logger_ok demo_root"
  using NewLogger_ok [of demo_config]
  by (simp_all add: demo_root_def NewLogger_def logger_level_def demo_config_def level_defs Let_def)

definition demo_ops :: "unit pool_op list" where
  "demo_ops = [POpen demo_env demo_root 2 0, PAdd 0 (None, ''user'', AStr ''ann''), PMsg demo_env 0 ''one'',
     POpen demo_env demo_root 3 0, PAdd 0 (None, ''stray'', AInt 1), PAdd 1 (None, ''n'', AInt 7)]"

theorem lines_are_isolated_witness:
  "\<exists>p w p' w'. foldl pool_step (empty_pool, demo_world) demo_ops = (p, w) \<and> pool_step (p, w) (PMsg demo_env 1 ''two'') = (p', w')
     \<and> same_output demo_env demo_root w' (spec_line demo_env demo_root 3 ''two'' [arg_field (None, ''n'', AInt 7)] w)"
proof -
  obtain p w where r: "foldl pool_step (empty_pool, demo_world) demo_ops = (p, w)" by fastforce
  obtain p' w' where m: "pool_step (p, w) (PMsg demo_env 1 ''two'') = (p', w')" by fastforce
  have ops: "list_all (op_ok (en_encoder demo_env)) demo_ops" "Suc (length demo_ops) < 2 ^ 32"
    by (simp_all add: demo_ops_def demo_root_facts demo_ok)
  have "enc_ok (en_encoder demo_env) demo_world" using demo_ok(2) by (simp add: world_ok_enc)
  from lines_are_isolated [OF ops this r demo_ok(1) refl m] r m show ?thesis
    by (simp add: demo_ops_def own_def demo_root_facts)
qed

text \<open>
  A typed builder has no such guard for its fields: a setter on a builder that was already finished writes
  into whatever line owns the state now, and that line is written with the foreign field.
\<close>

definition typed_add :: "nat \<Rightarrow> field_key option \<times> string \<times> field_arg \<Rightarrow> line_pool \<Rightarrow> line_pool" where
  "typed_add h a p = (case handle p h of
       None \<Rightarrow> p
     | Some (i, epoch) \<Rightarrow> p\<lparr>lp_states := (lp_states p)[i := add_arg (lp_states p ! i) a]\<rparr>)"

text \<open>
  A finished typed builder corrupts another line: if its state has been handed to a live line in the
  meantime, a setter called on it puts the field at the end of that line's fields.
\<close>

theorem stale_builder_corrupts_line:
  assumes "pool_ok enc n p os" and "handle p h = Some (i, e0)" and "handle p k = Some (i, e1)"
    and "own os k = Some c" and "ow_live c" and "env_ok env" and "en_encoder env = enc" and "enc_ok enc w"
    and "Suc n < 2 ^ 32" and "pool_step (typed_add h a p, w) (PMsg env k msg) = (p', w')"
  shows "same_output env (ow_logger c) w'
      (spec_line env (ow_logger c) (ow_level c) msg (lg_boundFields (ow_logger c) @ ow_fields c @ [arg_field a]) w)"
  using assms(1,3)
proof (cases rule: handle_cases)
  case (live c')
  then have c: "c' = c" using assms(4) by simp
  let ?c = "c\<lparr>ow_fields := ow_fields c @ [arg_field a]\<rparr>"
  have "pool_ok enc n (p\<lparr>lp_states := (lp_states p)[i := add_arg (lp_states p ! i) a]\<rparr>) (os[k := Some ?c])"
    by (rule state_update [OF assms(1) live(5,4) _ _ add_carries [OF live(8) [unfolded c]] live(7)]) (simp_all add: assms(5))
  then have "pool_ok enc n (typed_add h a p) (os[k := Some ?c])" using assms(2) by (simp add: typed_add_def)
  from msg_ok(3) [OF this assms(9,6-8,10)] live(1) assms(5) show ?thesis by (simp add: own_def)
next
  case (stale c')
  then show ?thesis using assms(4,5) by simp
qed

definition demo_stale :: "unit pool_op list" where
  "demo_stale = [POpen demo_env demo_root 2 0, PMsg demo_env 0 ''one'', POpen demo_env demo_root 3 0]"

theorem stale_builder_corrupts_line_witness:
  "\<exists>p w p' w'. foldl pool_step (empty_pool, demo_world) demo_stale = (p, w)
     \<and> pool_step (typed_add 0 (None, ''card'', AStr ''4111'') p, w) (PMsg demo_env 1 ''two'') = (p', w')
     \<and> same_output demo_env demo_root w' (spec_line demo_env demo_root 3 ''two'' [arg_field (None, ''card'', AStr ''4111'')] w)"
proof -
  obtain p w where r: "foldl pool_step (empty_pool, demo_world) demo_stale = (p, w)" by fastforce
  let ?os = "foldl own_step [] demo_stale"
  have ops: "list_all (op_ok (en_encoder demo_env)) demo_stale" "0 + length demo_stale < 2 ^ 32"
    by (simp_all add: demo_stale_def demo_root_facts demo_ok)
  have enc: "enc_ok (en_encoder demo_env) demo_world" using demo_ok(2) by (simp add: world_ok_enc)
  note ok = pool_run_ok [OF ops pool_ok_empty enc r]
  have own: "own ?os 1 = Some \<lparr>ow_logger = demo_root, ow_level = 3, ow_fields = [], ow_live = True\<rparr>"
    by (simp add: demo_stale_def own_def demo_root_facts)
  obtain e0 e1 where h: "handle p 0 = Some (0, e0)" "handle p 1 = Some (0, e1)"
    using r by (auto simp: demo_stale_def demo_root_facts take_state_def open_line_def line_Msg_def handle_def empty_pool_def
        acquire_epoch nth_append Let_def split: option.splits prod.splits if_splits)
  obtain p' w' where m: "pool_step (typed_add 0 (None, ''card'', AStr ''4111'') p, w) (PMsg demo_env 1 ''two'') = (p', w')" by fastforce
  from stale_builder_corrupts_line [OF conjunct1 [OF ok] h own _ demo_ok(1) refl conjunct2 [OF ok] _ m] r m
  show ?thesis by (auto simp: demo_stale_def demo_root_facts)
qed

end
