(* ===== verification/Pipelines.thy ===== *)
theory Pipelines
  imports Masking
begin

text \<open>
  The pipelines that carry a line from a logger to its adapters: \<^verbatim>\<open>pipeline/pipeline_direct.go\<close>,
  \<^verbatim>\<open>pipeline_simple.go\<close>, \<^verbatim>\<open>pipeline_full.go\<close>, \<^verbatim>\<open>fielddict_integration.go\<close> and the selection among them in
  \<^verbatim>\<open>pipeline_strategy.go\<close>.

  The world holds what the pipelines share: the global entry pool, the array behind the adapter
  slice (a nil interface is \<open>None\<close>), the global field dictionary and the global registry of sensitive
  names. \<open>pw_out\<close> records every call of an adapter with the entry as it was then; the result of the
  call is ignored by the code. \<open>pick\<close> is the choice of the entry pool, \<open>t\<close> the reading of the clock,
  and \<open>fs\<close> is the array of the caller's slice, of which the first \<open>fieldCount\<close> elements count. A
  panic (a nil adapter, a count outside the array, a closed channel) is \<open>None\<close>. The colour registry,
  the counters of \<^verbatim>\<open>pipeline_metrics.go\<close> and the bookkeeping of the package \<open>race\<close> change nothing that
  is written and are left out.
\<close>

type_synonym pipe_entry = "field_dictionary full_entry"

record pipe_world =
  pw_pool :: "field_dictionary entry_pool"
  pw_adapters :: "nat option list"
  pw_dict :: field_dictionary
  pw_registry :: sensitive_registry
  pw_out :: "(nat \<times> pipe_entry) list"

section \<open>Handing an entry to the adapters\<close>

definition adapter_write :: "nat option \<Rightarrow> pipe_entry \<Rightarrow> pipe_world \<Rightarrow> pipe_world option" where
  "adapter_write a e w = (case a of None \<Rightarrow> None | Some i \<Rightarrow> Some (w\<lparr>pw_out := pw_out w @ [(i, e)]\<rparr>))"

fun write_adapters :: "nat option list \<Rightarrow> pipe_entry \<Rightarrow> pipe_world \<Rightarrow> pipe_world option" where
  "write_adapters [] e w = Some w"
| "write_adapters (a # as) e w = Option.bind (adapter_write a e w) (write_adapters as e)"

text \<open>The two storage forms: the static slots when their array is large enough, the dynamic slice otherwise.\<close>

definition fill_fields :: "typed_field list \<Rightarrow> int \<Rightarrow> pipe_entry \<Rightarrow> pipe_entry option" where
  "fill_fields fs fieldCount e =
     (let static = le_StaticFields e @ le_StaticFieldsSpare e; n = nat fieldCount in
      if fieldCount < 0 \<or> int (length fs) < fieldCount then None
      else if fieldCount \<le> int (length static)
        then Some (e\<lparr>le_StaticFields := take n fs, le_StaticFieldsSpare := drop n static,
                     le_StaticFieldCount := fieldCount\<rparr>)
        else Some (e\<lparr>le_Fields := take n fs, le_FieldsSpare := drop n (le_Fields e @ le_FieldsSpare e),
                     le_StaticFieldCount := 0\<rparr>))"

definition stamp_entry :: "int \<Rightarrow> nat \<Rightarrow> string \<Rightarrow> pipe_entry \<Rightarrow> pipe_entry" where
  "stamp_entry t level msg e = e\<lparr>le_Timestamp := Some t, le_Level := level, le_Message := msg\<rparr>"

section \<open>The direct pipeline\<close>

record direct_pipeline =
  dp_SingleAdapter :: "nat option"
  dp_Adapters :: nat   \<comment> \<open>the length of the slice\<close>
  dp_HasSingleAdapter :: bool

definition NewDirectPipeline :: "nat option list \<Rightarrow> direct_pipeline" where
  "NewDirectPipeline adapters =
     (if length adapters = 1
      then \<lparr>dp_SingleAdapter = adapters ! 0, dp_Adapters = 0, dp_HasSingleAdapter = True\<rparr>
      else \<lparr>dp_SingleAdapter = None, dp_Adapters = length adapters, dp_HasSingleAdapter = False\<rparr>)"

definition direct_adapters :: "direct_pipeline \<Rightarrow> pipe_entry \<Rightarrow> pipe_world \<Rightarrow> pipe_world option" where
  "direct_adapters p e w =
     (if dp_HasSingleAdapter p then adapter_write (dp_SingleAdapter p) e w
      else write_adapters (take (dp_Adapters p) (pw_adapters w)) e w)"

definition handleFields ::
  "nat option \<Rightarrow> int \<Rightarrow> nat \<Rightarrow> string \<Rightarrow> typed_field list \<Rightarrow> int \<Rightarrow> direct_pipeline \<Rightarrow> pipe_world \<Rightarrow> pipe_world option" where
  "handleFields pick t level msg fs fieldCount p w =
     (let (pool, e) = AcquireEntry pick (pw_pool w); w = w\<lparr>pw_pool := pool\<rparr>; e = stamp_entry t level msg e in
      Option.bind (fill_fields fs fieldCount e) (\<lambda>e.
      Option.bind (direct_adapters p e w) (\<lambda>w.
      Some (w\<lparr>pw_pool := ReleaseEntry e (pw_pool w)\<rparr>))))"

definition direct_Write ::
  "nat option \<Rightarrow> int \<Rightarrow> nat \<Rightarrow> string \<Rightarrow> typed_field list \<Rightarrow> int \<Rightarrow> direct_pipeline \<Rightarrow> pipe_world \<Rightarrow> pipe_world option" where
  "direct_Write pick t level msg fs fieldCount p w =
     (if fieldCount > 0 then handleFields pick t level msg fs fieldCount p w
      else direct_adapters p ((stamp_entry t level msg empty_entry)\<lparr>le_StaticFieldCount := 0\<rparr>) w)"

text \<open>\<open>Reset\<close> clears the elements of the array the slice shares with the other pipelines.\<close>

definition clear_adapters :: "nat \<Rightarrow> pipe_world \<Rightarrow> pipe_world" where
  "clear_adapters n w = w\<lparr>pw_adapters := map (\<lambda>_. None) (take n (pw_adapters w)) @ drop n (pw_adapters w)\<rparr>"

definition direct_Reset :: "direct_pipeline \<Rightarrow> pipe_world \<Rightarrow> direct_pipeline \<times> pipe_world" where
  "direct_Reset p w = (p\<lparr>dp_Adapters := 0\<rparr>, clear_adapters (dp_Adapters p) w)"

definition IsDirectPathEligible :: "int \<Rightarrow> bool \<Rightarrow> bool \<Rightarrow> bool \<Rightarrow> bool \<Rightarrow> bool" where
  "IsDirectPathEligible fieldCount hasMasking hasSampling hasAsync hasColors \<longleftrightarrow>
     fieldCount = 0 \<and> \<not> hasMasking \<and> \<not> hasSampling \<and> \<not> hasAsync \<and> \<not> hasColors"

section \<open>The simple pipeline\<close>

record simple_pipeline =
  sp_Adapters :: nat
  sp_OptimalBufferSize :: int
  sp_FieldIntegration :: bool

definition NewSimplePipeline :: "nat \<Rightarrow> int \<Rightarrow> bool \<Rightarrow> simple_pipeline" where
  "NewSimplePipeline adapters optimalBufferSize globalIntegration =
     (let n = (if optimalBufferSize \<le> 0 then 32 else optimalBufferSize); n = (if n > 1000 then 1000 else n)
      in \<lparr>sp_Adapters = adapters, sp_OptimalBufferSize = n, sp_FieldIntegration = globalIntegration\<rparr>)"

definition handleFieldOverflow :: "typed_field list \<Rightarrow> int \<Rightarrow> pipe_entry \<Rightarrow> pipe_entry option" where
  "handleFieldOverflow fs fieldCount e = fill_fields fs fieldCount e"

definition simple_Write ::
  "nat option \<Rightarrow> int \<Rightarrow> nat \<Rightarrow> string \<Rightarrow> typed_field list \<Rightarrow> int \<Rightarrow> simple_pipeline \<Rightarrow> pipe_world \<Rightarrow> pipe_world option" where
  "simple_Write pick t level msg fs fieldCount p w =
     (let (pool, e) = global_AcquireEntry pick (pw_pool w); w = w\<lparr>pw_pool := pool\<rparr>; e = stamp_entry t level msg e;
          static = le_StaticFields e @ le_StaticFieldsSpare e in
      Option.bind
        (if fieldCount \<le> int (length static)
         then if fieldCount < 0 \<or> int (length fs) < fieldCount then None
              else Some (e\<lparr>le_StaticFields := take (nat fieldCount) fs,
                           le_StaticFieldsSpare := drop (nat fieldCount) static, le_StaticFieldCount := fieldCount\<rparr>)
         else handleFieldOverflow fs fieldCount e) (\<lambda>e.
      Option.bind (write_adapters (take (sp_Adapters p) (pw_adapters w)) e w) (\<lambda>w.
      Some (w\<lparr>pw_pool := global_ReleaseEntry e (pw_pool w)\<rparr>))))"

definition simple_register :: "string \<Rightarrow> pipe_world \<Rightarrow> pipe_world" where
  "simple_register key w = w\<lparr>pw_dict := fst (GetOrRegisterFieldID (pw_dict w) key)\<rparr>"

definition RegisterFieldsWithDict :: "string list \<Rightarrow> simple_pipeline \<Rightarrow> pipe_world \<Rightarrow> pipe_world" where
  "RegisterFieldsWithDict fieldKeys p w =
     (if \<not> sp_FieldIntegration p \<or> fieldKeys = [] then w
      else foldl (\<lambda>w key. simple_register key w) w fieldKeys)"

definition simple_GetFieldID :: "string \<Rightarrow> simple_pipeline \<Rightarrow> pipe_world \<Rightarrow> nat \<times> bool" where
  "simple_GetFieldID key p w =
     (if \<not> sp_FieldIntegration p then (0, False)
      else case fd_GetID (pw_dict w) key of None \<Rightarrow> (0, False) | Some fid \<Rightarrow> (fid, True))"

definition ProcessFieldsWithDict ::
  "typed_field list \<Rightarrow> simple_pipeline \<Rightarrow> pipe_world \<Rightarrow> pipe_world \<times> typed_field list" where
  "ProcessFieldsWithDict fs p w =
     (if \<not> sp_FieldIntegration p \<or> fs = [] then (w, fs)
      else foldl (\<lambda>(w, done) f. (simple_register (tf_Key f) w, done @ [f])) (w, []) fs)"

definition simple_Reset :: "simple_pipeline \<Rightarrow> pipe_world \<Rightarrow> simple_pipeline \<times> pipe_world" where
  "simple_Reset p w = (p\<lparr>sp_Adapters := 0\<rparr>, clear_adapters (sp_Adapters p) w)"

definition IsSimplePathEligible :: "int \<Rightarrow> bool \<Rightarrow> bool \<Rightarrow> bool \<Rightarrow> bool \<Rightarrow> bool" where
  "IsSimplePathEligible fieldCount hasMasking hasSampling hasAsync hasColors \<longleftrightarrow>
     fieldCount > 0 \<and> \<not> hasMasking \<and> \<not> hasSampling \<and> \<not> hasAsync \<and> \<not> hasColors"

definition CalculateOptimalBufferSize :: "int \<Rightarrow> int \<Rightarrow> int" where
  "CalculateOptimalBufferSize configuredSize profiledP99 =
     (if configuredSize > 0 \<and> configuredSize \<le> 100 then configuredSize
      else if profiledP99 > 0 \<and> profiledP99 \<le> 100 then profiledP99 + 5 else 32)"

text \<open>\<open>p99\<close> is the profile's integer under \<^verbatim>\<open>p99_field_count\<close>, if it has one.\<close>

definition GetOptimalBufferSizeForApp :: "int option \<Rightarrow> int" where
  "GetOptimalBufferSizeForApp p99 = (case p99 of Some n \<Rightarrow> if n > 0 then wrap_s64 (n + 5) else 32 | None \<Rightarrow> 32)"

end
