(* ===== verification/Pipeline_Strategy.thy ===== *)
theory Pipeline_Strategy
  imports Pipelines
begin

text \<open>
  The pipeline with features (\<^verbatim>\<open>pipeline/pipeline_full.go\<close>) and the strategy that owns the three
  pipelines and selects one (\<^verbatim>\<open>pipeline/pipeline_strategy.go\<close>), with the theorems on all of them.

  A masker and a sampler are functions of the entry; a sampler's own state is inside the function.
  The goroutines of the asynchronous mode are steps: one turn of a worker takes the oldest queued
  entry. The entry built for the sampler and never read is left out.
\<close>

section \<open>The full pipeline\<close>

record full_pipeline =
  fp_Adapters :: nat
  fp_HasMasking :: bool
  fp_HasSampling :: bool
  fp_HasAsync :: bool
  fp_HasColors :: bool
  fp_Sampler :: "(pipe_entry \<Rightarrow> bool) option"
  fp_Masker :: "(pipe_entry \<Rightarrow> pipe_entry) option"
  fp_SampleRate :: int
  fp_SampleCount :: int
  fp_AsyncQueue :: "pipe_entry list"
  fp_queueClosed :: bool
  fp_stopClosed :: bool
  fp_ProcessedCount :: int
  fp_MaskedCount :: int
  fp_SampledCount :: int

definition NewFullPipeline :: "nat \<Rightarrow> full_pipeline" where
  "NewFullPipeline adapters = \<lparr>fp_Adapters = adapters, fp_HasMasking = False, fp_HasSampling = False,
     fp_HasAsync = False, fp_HasColors = False, fp_Sampler = None, fp_Masker = None, fp_SampleRate = 0,
     fp_SampleCount = 0, fp_AsyncQueue = [], fp_queueClosed = False, fp_stopClosed = False,
     fp_ProcessedCount = 0, fp_MaskedCount = 0, fp_SampledCount = 0\<rparr>"

definition asyncQueueCap :: nat where
  "asyncQueueCap = 1000"

definition processFields :: "typed_field list \<Rightarrow> int \<Rightarrow> pipe_entry \<Rightarrow> pipe_entry option" where
  "processFields fs fieldCount e =
     (if fieldCount = 0 then Some (e\<lparr>le_StaticFieldCount := 0\<rparr>) else fill_fields fs fieldCount e)"

definition applyFeatures :: "full_pipeline \<Rightarrow> pipe_entry \<Rightarrow> pipe_entry" where
  "applyFeatures p e =
     (if \<not> fp_HasMasking p \<and> \<not> fp_HasColors p then e
      else case fp_Masker p of Some m \<Rightarrow> if fp_HasMasking p then m e else e | None \<Rightarrow> e)"

definition fp_shouldSample :: "full_pipeline \<Rightarrow> pipe_entry \<Rightarrow> full_pipeline \<times> bool" where
  "fp_shouldSample p e =
     (case fp_Sampler p of
        Some s \<Rightarrow> (p, s e)
      | None \<Rightarrow>
          let rate = fp_SampleRate p in
          if rate \<le> 0 \<or> rate \<ge> 100 then (p, True)
          else let cnt = wrap_s64 (fp_SampleCount p + 1)
               in (p\<lparr>fp_SampleCount := cnt\<rparr>, go_mod cnt (go_div 100 rate) = 0))"

definition processSync :: "full_pipeline \<Rightarrow> pipe_entry \<Rightarrow> pipe_world \<Rightarrow> pipe_world option" where
  "processSync p e w =
     map_option (\<lambda>w. w\<lparr>pw_pool := global_ReleaseEntry e (pw_pool w)\<rparr>)
       (write_adapters (take (fp_Adapters p) (pw_adapters w)) e w)"

text \<open>A send on the closed queue panics.\<close>

definition processAsync :: "full_pipeline \<Rightarrow> pipe_entry \<Rightarrow> pipe_world \<Rightarrow> (full_pipeline \<times> pipe_world) option" where
  "processAsync p e w =
     (if fp_queueClosed p then None
      else if length (fp_AsyncQueue p) < asyncQueueCap
        then Some (p\<lparr>fp_AsyncQueue := fp_AsyncQueue p @ [e]\<rparr>, w)
        else map_option (Pair p) (processSync p e w))"

definition full_dispatch :: "full_pipeline \<Rightarrow> pipe_entry \<Rightarrow> pipe_world \<Rightarrow> (full_pipeline \<times> pipe_world) option" where
  "full_dispatch p e w =
     map_option (\<lambda>(p, w). (p\<lparr>fp_ProcessedCount := wrap_s64 (fp_ProcessedCount p + 1)\<rparr>, w))
       (if fp_HasAsync p then processAsync p e w else map_option (Pair p) (processSync p e w))"

definition full_Write ::
  "nat option \<Rightarrow> int \<Rightarrow> nat \<Rightarrow> string \<Rightarrow> typed_field list \<Rightarrow> int \<Rightarrow> full_pipeline \<Rightarrow> pipe_world \<Rightarrow>
   (full_pipeline \<times> pipe_world) option" where
  "full_Write pick t level msg fs fieldCount p w =
     (let (pool, e) = global_AcquireEntry pick (pw_pool w); w = w\<lparr>pw_pool := pool\<rparr>; e = stamp_entry t level msg e in
      Option.bind (processFields fs fieldCount e) (\<lambda>e.
        let e = applyFeatures p e;
            (p, keep) = (if fp_HasSampling p then fp_shouldSample p e else (p, True))
        in if \<not> keep then Some (p, w\<lparr>pw_pool := global_ReleaseEntry e (pw_pool w)\<rparr>)
           else full_dispatch p e w))"

text \<open>One turn of a worker.\<close>

definition asyncWorker :: "full_pipeline \<Rightarrow> pipe_world \<Rightarrow> (full_pipeline \<times> pipe_world) option" where
  "asyncWorker p w =
     (case fp_AsyncQueue p of
        [] \<Rightarrow> Some (p, w)
      | e # q \<Rightarrow>
          map_option (\<lambda>w. (p\<lparr>fp_AsyncQueue := q, fp_SampledCount := wrap_s64 (fp_SampledCount p + 1)\<rparr>,
                            w\<lparr>pw_pool := global_ReleaseEntry e (pw_pool w)\<rparr>))
            (write_adapters (take (fp_Adapters p) (pw_adapters w)) e w))"

text \<open>
  \<open>Reset\<close>. Once the stop channel is closed a worker finds both channels ready and chooses; \<open>k\<close> is the
  number of queued entries the workers still take before they have all returned. Closing a closed
  channel panics.
\<close>

fun worker_turns :: "nat \<Rightarrow> full_pipeline \<Rightarrow> pipe_world \<Rightarrow> (full_pipeline \<times> pipe_world) option" where
  "worker_turns 0 p w = Some (p, w)"
| "worker_turns (Suc k) p w = Option.bind (asyncWorker p w) (\<lambda>(p, w). worker_turns k p w)"

definition full_Reset :: "nat \<Rightarrow> full_pipeline \<Rightarrow> pipe_world \<Rightarrow> (full_pipeline \<times> pipe_world) option" where
  "full_Reset k p w =
     Option.bind
       (if fp_HasAsync p then
          if fp_stopClosed p \<or> fp_queueClosed p then None
          else map_option (\<lambda>(p, w). (p\<lparr>fp_stopClosed := True, fp_queueClosed := True\<rparr>, w)) (worker_turns k p w)
        else Some (p, w))
       (\<lambda>(p, w). Some (p\<lparr>fp_Adapters := 0, fp_ProcessedCount := 0, fp_MaskedCount := 0, fp_SampledCount := 0\<rparr>,
                      clear_adapters (fp_Adapters p) w))"

definition SetSampleRate :: "int \<Rightarrow> full_pipeline \<Rightarrow> full_pipeline" where
  "SetSampleRate rate p =
     (let rate = (if rate < 0 then 0 else if rate > 100 then 100 else rate) in p\<lparr>fp_SampleRate := rate\<rparr>)"

record full_metrics =
  fm_ProcessedCount :: int
  fm_MaskedCount :: int
  fm_SampledCount :: int
  fm_QueueSize :: int

definition fp_GetMetrics :: "full_pipeline \<Rightarrow> full_metrics" where
  "fp_GetMetrics p = \<lparr>fm_ProcessedCount = fp_ProcessedCount p, fm_MaskedCount = fp_MaskedCount p,
     fm_SampledCount = fp_SampledCount p, fm_QueueSize = int (length (fp_AsyncQueue p))\<rparr>"

definition IsFullPathEligible :: "bool \<Rightarrow> bool \<Rightarrow> bool \<Rightarrow> bool \<Rightarrow> bool" where
  "IsFullPathEligible hasMasking hasSampling hasAsync hasColors \<longleftrightarrow>
     hasMasking \<or> hasSampling \<or> hasAsync \<or> hasColors"

section \<open>The strategy\<close>

record pipeline_config =
  pc_EnableMasking :: bool
  pc_EnableSampling :: bool
  pc_SampleRate :: int
  pc_EnableAsync :: bool
  pc_EnableColors :: bool
  pc_ColorScheme :: string
  pc_OptimalBufferSize :: int
  pc_MaxBufferSize :: int
  pc_AsyncQueueSize :: int
  pc_AsyncWorkers :: int
  pc_SensitiveFields :: "string list"
  pc_SensitivePatterns :: "string list"
  pc_AutoOptimize :: bool
  pc_MetricsCollection :: bool

datatype pipe_kind = PDirect | PSimple | PFull

record pipe_strategy =
  es_config :: pipeline_config
  es_direct :: direct_pipeline
  es_simple :: simple_pipeline
  es_full :: full_pipeline
  es_current :: "pipe_kind option"
  es_selectionCount :: int
  es_hasMasking :: bool
  es_hasSampling :: bool
  es_hasAsync :: bool
  es_hasColors :: bool
  es_optimalBufferSize :: int

definition getDefaultPipelineConfig :: pipeline_config where
  "getDefaultPipelineConfig = \<lparr>pc_EnableMasking = True, pc_EnableSampling = False, pc_SampleRate = 100,
     pc_EnableAsync = False, pc_EnableColors = True, pc_ColorScheme = ''default'', pc_OptimalBufferSize = 32,
     pc_MaxBufferSize = 1000, pc_AsyncQueueSize = 1000, pc_AsyncWorkers = 4, pc_SensitiveFields = [],
     pc_SensitivePatterns = [], pc_AutoOptimize = True, pc_MetricsCollection = True\<rparr>"

definition calculateOptimalBufferSize :: "pipeline_config \<Rightarrow> int" where
  "calculateOptimalBufferSize c = (if pc_OptimalBufferSize c > 0 then pc_OptimalBufferSize c else 32)"

definition shouldUseDirectPipeline :: "pipe_strategy \<Rightarrow> bool" where
  "shouldUseDirectPipeline s \<longleftrightarrow>
     \<not> es_hasMasking s \<and> \<not> es_hasSampling s \<and> \<not> es_hasAsync s \<and> \<not> es_hasColors s"

definition shouldUseSimplePipeline :: "pipe_strategy \<Rightarrow> bool" where
  "shouldUseSimplePipeline s \<longleftrightarrow> \<not> es_hasMasking s \<and> \<not> es_hasSampling s \<and> \<not> es_hasAsync s"

definition selectOptimalPipelineLocked :: "pipe_strategy \<Rightarrow> pipe_strategy" where
  "selectOptimalPipelineLocked s =
     s\<lparr>es_current := Some (if shouldUseDirectPipeline s then PDirect
                           else if shouldUseSimplePipeline s then PSimple else PFull),
       es_selectionCount := wrap_s64 (es_selectionCount s + 1)\<rparr>"

definition register_sensitive :: "string list \<Rightarrow> string list \<Rightarrow> pipe_world \<Rightarrow> pipe_world" where
  "register_sensitive names patterns w =
     (let (fd, r) = RegisterSensitiveFieldsFromConfig (pw_dict w) (pw_registry w) names patterns
      in w\<lparr>pw_dict := fd, pw_registry := r\<rparr>)"

definition initializePipelines :: "bool \<Rightarrow> pipe_strategy \<Rightarrow> pipe_world \<Rightarrow> pipe_strategy \<times> pipe_world" where
  "initializePipelines integration s w =
     (let c = es_config s; n = length (pw_adapters w);
          s = s\<lparr>es_direct := \<lparr>dp_SingleAdapter = None, dp_Adapters = n, dp_HasSingleAdapter = False\<rparr>,
                es_simple := NewSimplePipeline n (es_optimalBufferSize s) integration,
                es_full := NewFullPipeline n\<rparr>;
          s = (if pc_EnableMasking c then s\<lparr>es_full := (es_full s)\<lparr>fp_HasMasking := True\<rparr>\<rparr> else s);
          w = (if pc_EnableMasking c then register_sensitive (pc_SensitiveFields c) (pc_SensitivePatterns c) w else w);
          s = (if pc_EnableSampling c
               then s\<lparr>es_full := SetSampleRate (pc_SampleRate c) ((es_full s)\<lparr>fp_HasSampling := True\<rparr>)\<rparr> else s);
          s = (if pc_EnableColors c then s\<lparr>es_full := (es_full s)\<lparr>fp_HasColors := True\<rparr>\<rparr> else s)
      in (s, w))"

definition configureRegistries :: "pipeline_config \<Rightarrow> pipe_world \<Rightarrow> pipe_world" where
  "configureRegistries c w =
     (if pc_SensitiveFields c \<noteq> [] \<or> pc_SensitivePatterns c \<noteq> []
      then register_sensitive (pc_SensitiveFields c) (pc_SensitivePatterns c) w else w)"

definition NewEnhancedPipelineStrategy ::
  "bool \<Rightarrow> pipeline_config option \<Rightarrow> pipe_world \<Rightarrow> pipe_strategy \<times> pipe_world" where
  "NewEnhancedPipelineStrategy integration cfg w =
     (let c = (case cfg of None \<Rightarrow> getDefaultPipelineConfig | Some c \<Rightarrow> c);
          s = \<lparr>es_config = c, es_direct = \<lparr>dp_SingleAdapter = None, dp_Adapters = 0, dp_HasSingleAdapter = False\<rparr>,
               es_simple = NewSimplePipeline 0 0 False, es_full = NewFullPipeline 0, es_current = None,
               es_selectionCount = 0, es_hasMasking = pc_EnableMasking c, es_hasSampling = pc_EnableSampling c,
               es_hasAsync = pc_EnableAsync c, es_hasColors = pc_EnableColors c,
               es_optimalBufferSize = calculateOptimalBufferSize c\<rparr>;
          (s, w) = initializePipelines integration s w;
          w = configureRegistries c w
      in (selectOptimalPipelineLocked s, w))"

definition es_Write ::
  "nat option \<Rightarrow> int \<Rightarrow> nat \<Rightarrow> string \<Rightarrow> typed_field list \<Rightarrow> int \<Rightarrow> pipe_strategy \<Rightarrow> pipe_world \<Rightarrow>
   (pipe_strategy \<times> pipe_world) option" where
  "es_Write pick t level msg fs fieldCount s w =
     (case es_current s of
        Some PDirect \<Rightarrow> map_option (Pair s) (direct_Write pick t level msg fs fieldCount (es_direct s) w)
      | Some PFull \<Rightarrow> map_option (\<lambda>(p, w). (s\<lparr>es_full := p\<rparr>, w)) (full_Write pick t level msg fs fieldCount (es_full s) w)
      | _ \<Rightarrow> map_option (Pair s) (simple_Write pick t level msg fs fieldCount (es_simple s) w))"

definition reconfigurePipelines :: "pipe_strategy \<Rightarrow> pipe_strategy" where
  "reconfigurePipelines s =
     (let s = s\<lparr>es_simple := (es_simple s)\<lparr>sp_OptimalBufferSize := es_optimalBufferSize s\<rparr>\<rparr>
      in if pc_EnableSampling (es_config s)
         then s\<lparr>es_full := SetSampleRate (pc_SampleRate (es_config s)) (es_full s)\<rparr> else s)"

definition UpdateConfiguration :: "pipeline_config \<Rightarrow> pipe_strategy \<Rightarrow> pipe_strategy" where
  "UpdateConfiguration c s =
     (let s = s\<lparr>es_config := c, es_hasMasking := pc_EnableMasking c, es_hasSampling := pc_EnableSampling c,
               es_hasAsync := pc_EnableAsync c, es_hasColors := pc_EnableColors c,
               es_optimalBufferSize := calculateOptimalBufferSize c\<rparr>
      in selectOptimalPipelineLocked (reconfigurePipelines s))"

definition es_Shutdown :: "nat \<Rightarrow> pipe_strategy \<Rightarrow> pipe_world \<Rightarrow> (pipe_strategy \<times> pipe_world) option" where
  "es_Shutdown k s w =
     (let (d, w) = direct_Reset (es_direct s) w;
          (sp, w) = simple_Reset (es_simple s) w
      in map_option (\<lambda>(f, w). (s\<lparr>es_direct := d, es_simple := sp, es_full := f\<rparr>,
                              w\<lparr>pw_pool := ep_Close (pw_pool w)\<rparr>))
           (full_Reset k (es_full s) w))"

definition getCurrentPipelineName :: "pipe_strategy \<Rightarrow> string" where
  "getCurrentPipelineName s = (case es_current s of
       Some PDirect \<Rightarrow> ''direct'' | Some PSimple \<Rightarrow> ''simple'' | Some PFull \<Rightarrow> ''full'' | None \<Rightarrow> ''unknown'')"

text \<open>The profile map with the three keys the code looks up, each with a value of the expected type or none.\<close>

record app_profile =
  ap_p99 :: "int option"
  ap_type :: "string option"
  ap_sensitive :: "string list option"

definition ConfigureFromApplicationProfile :: "app_profile option \<Rightarrow> pipeline_config" where
  "ConfigureFromApplicationProfile profile =
     (case profile of
        None \<Rightarrow> getDefaultPipelineConfig
      | Some ap \<Rightarrow>
          let c = getDefaultPipelineConfig;
              c = (case ap_p99 ap of Some n \<Rightarrow> c\<lparr>pc_OptimalBufferSize := wrap_s64 (n + 5)\<rparr> | None \<Rightarrow> c);
              c = (case ap_type ap of
                     None \<Rightarrow> c
                   | Some ty \<Rightarrow>
                       if ty = ''high_performance''
                         then c\<lparr>pc_EnableAsync := False, pc_EnableColors := False, pc_EnableSampling := False\<rparr>
                       else if ty = ''web_api'' then c\<lparr>pc_EnableColors := True, pc_EnableMasking := True\<rparr>
                       else if ty = ''batch_processor'' then c\<lparr>pc_EnableAsync := True, pc_AsyncQueueSize := 10000\<rparr>
                       else c)
          in (case ap_sensitive ap of Some fs \<Rightarrow> c\<lparr>pc_SensitiveFields := fs\<rparr> | None \<Rightarrow> c))"

section \<open>What an adapter is shown\<close>

text \<open>
  \<open>entry_view\<close> keeps of a record what its consumers read, in one storage form; \<open>spec_record\<close> is the
  record of a line made from nothing.
\<close>

definition emitted_context :: "pipe_entry \<Rightarrow> typed_field list" where
  "emitted_context e = take (nat (min (le_StaticContextCount e) (int (length (le_StaticContext e))))) (le_StaticContext e) @ le_Context e"

definition entry_view :: "pipe_entry \<Rightarrow> pipe_entry" where
  "entry_view e = e\<lparr>le_Fields := emitted_fields (visible e), le_StaticFields := [], le_StaticFieldCount := 0,
     le_Context := emitted_context e, le_StaticContext := [], le_StaticContextCount := 0,
     le_FieldsSpare := [], le_StaticFieldsSpare := [], le_ContextSpare := [], le_StaticContextSpare := [],
     le_hasFieldOverflow := False, le_hasContextOverflow := False\<rparr>"

definition spec_record :: "int \<Rightarrow> nat \<Rightarrow> string \<Rightarrow> typed_field list \<Rightarrow> pipe_entry" where
  "spec_record t level msg fs = empty_entry\<lparr>le_Timestamp := Some t, le_Level := level, le_Message := msg, le_Fields := fs\<rparr>"

lemma emitted_visible: "emitted_fields (visible e) = take (nat (min (le_StaticFieldCount e) (int (length (le_StaticFields e))))) (le_StaticFields e) @ le_Fields e"
  by (simp add: emitted_fields_def visible_def log_entry.truncate_def)

definition plain_line :: "int \<Rightarrow> nat \<Rightarrow> string \<Rightarrow> pipe_entry \<Rightarrow> bool" where
  "plain_line t level msg e \<longleftrightarrow> le_Timestamp e = Some t \<and> le_TimestampUnix e = 0 \<and> le_Level e = level \<and> le_Message e = msg
     \<and> le_Component e = [] \<and> le_File e = [] \<and> le_Line e = 0 \<and> le_Error e = None \<and> le_ErrorMsg e = [] \<and> le_Caller e = GNil
     \<and> le_LocationLen e = 0 \<and> le_BaseName e = [] \<and> le_IndexedStore e = None \<and> \<not> le_UseIndexedStorage e
     \<and> le_Context e = [] \<and> le_StaticContextCount e = 0"

lemma view_plain:
  assumes "plain_line t level msg e" and "emitted_fields (visible e) = fs"
  shows "entry_view e = spec_record t level msg fs"
proof -
  have ctx: "emitted_context e = []" using assms(1) by (simp add: emitted_context_def plain_line_def)
  show ?thesis using assms(1) unfolding entry_view_def assms(2) ctx
    by (cases e) (simp add: spec_record_def empty_entry_def plain_line_def)
qed

lemma plain_stamped: "no_text e \<Longrightarrow> le_Context e = [] \<Longrightarrow> le_StaticContextCount e = 0 \<Longrightarrow> plain_line t level msg (stamp_entry t level msg e)"
  by (simp add: no_text_def plain_line_def stamp_entry_def)

lemma plain_fields [simp]:
  "plain_line t level msg (e\<lparr>le_Fields := x\<rparr>) = plain_line t level msg e"
  "plain_line t level msg (e\<lparr>le_FieldsSpare := x\<rparr>) = plain_line t level msg e"
  "plain_line t level msg (e\<lparr>le_StaticFields := x\<rparr>) = plain_line t level msg e"
  "plain_line t level msg (e\<lparr>le_StaticFieldsSpare := x\<rparr>) = plain_line t level msg e"
  "plain_line t level msg (e\<lparr>le_StaticFieldCount := n\<rparr>) = plain_line t level msg e"
  by (simp_all add: plain_line_def)

lemma zeros_drop: "zeros xs \<Longrightarrow> zeros (drop n xs)"
  by (auto simp: zeros_def list_all_iff dest: in_set_dropD)

lemma fill_fields_ready:
  assumes "ready_entry e" and "0 \<le> n" and "n \<le> int (length fs)"
  shows "\<exists>e'. fill_fields fs n (stamp_entry t level msg e) = Some e' \<and> borrowed_ok e'
           \<and> entry_view e' = spec_record t level msg (take (nat n) fs)"
proof -
  let ?s = "le_StaticFields e @ le_StaticFieldsSpare e"
  have b: "no_text e" "le_Fields e = []" "le_Context e = []" "le_StaticContextCount e = 0" "zeros ?s"
    "zeros (le_FieldsSpare e)" "zeros (le_ContextSpare e)" "zeros (le_StaticContextSpare e)"
    using assms(1) by (simp_all add: ready_entry_def blank_def no_fields_def)
  show ?thesis
  proof (cases "n \<le> int (length ?s)")
    case True
    let ?e = "(stamp_entry t level msg e)\<lparr>le_StaticFields := take (nat n) fs, le_StaticFieldsSpare := drop (nat n) ?s, le_StaticFieldCount := n\<rparr>"
    have "fill_fields fs n (stamp_entry t level msg e) = Some ?e"
      using True assms(2,3) by (simp add: fill_fields_def stamp_entry_def Let_def)
    moreover have "borrowed_ok ?e"
      using b zeros_drop [OF b(5), of "nat n"] by (simp add: borrowed_ok_def stamp_entry_def)
    moreover have "emitted_fields (visible ?e) = take (nat n) fs"
      using b assms(2,3) by (simp add: emitted_visible stamp_entry_def min_def nat_le_iff)
    then have "entry_view ?e = spec_record t level msg (take (nat n) fs)"
      by (intro view_plain) (simp_all add: plain_stamped b(1,3,4))
    ultimately show ?thesis by blast
  next
    case False
    let ?e = "(stamp_entry t level msg e)\<lparr>le_Fields := take (nat n) fs, le_FieldsSpare := drop (nat n) (le_Fields e @ le_FieldsSpare e), le_StaticFieldCount := 0\<rparr>"
    have "fill_fields fs n (stamp_entry t level msg e) = Some ?e"
      using False assms(2,3) by (simp add: fill_fields_def stamp_entry_def Let_def)
    moreover have "borrowed_ok ?e"
      using b zeros_drop [OF b(6), of "nat n"] by (simp add: borrowed_ok_def stamp_entry_def)
    moreover have "emitted_fields (visible ?e) = take (nat n) fs"
      using b by (simp add: emitted_visible stamp_entry_def)
    then have "entry_view ?e = spec_record t level msg (take (nat n) fs)"
      by (intro view_plain) (simp_all add: plain_stamped b(1,3,4))
    ultimately show ?thesis by blast
  qed
qed

lemma no_fields_ready:
  assumes "ready_entry e"
  shows "borrowed_ok ((stamp_entry t level msg e)\<lparr>le_StaticFieldCount := 0\<rparr>)"
    and "entry_view ((stamp_entry t level msg e)\<lparr>le_StaticFieldCount := 0\<rparr>) = spec_record t level msg []"
proof -
  have b: "no_text e" "no_fields e" using assms by (simp_all add: ready_entry_def blank_def)
  then show "borrowed_ok ((stamp_entry t level msg e)\<lparr>le_StaticFieldCount := 0\<rparr>)"
    by (simp add: no_fields_def borrowed_ok_def stamp_entry_def)
  show "entry_view ((stamp_entry t level msg e)\<lparr>le_StaticFieldCount := 0\<rparr>) = spec_record t level msg []"
    using b by (intro view_plain) (simp_all add: no_fields_def plain_stamped, simp add: stamp_entry_def emitted_visible)
qed

lemma plain_empty: "borrowed_ok (empty_entry :: pipe_entry)"
    "entry_view ((stamp_entry t level msg empty_entry)\<lparr>le_StaticFieldCount := 0\<rparr>) = spec_record t level msg []"
proof -
  show "borrowed_ok (empty_entry :: pipe_entry)" by (simp add: borrowed_ok_def empty_entry_def)
  show "entry_view ((stamp_entry t level msg empty_entry)\<lparr>le_StaticFieldCount := 0\<rparr>) = spec_record t level msg []"
    by (intro view_plain) (simp_all add: plain_line_def stamp_entry_def empty_entry_def emitted_visible)
qed

section \<open>One line through each pipeline\<close>

text \<open>What the pipelines ask of the world: a clean pool and no nil adapter.\<close>

definition world_ok :: "pipe_world \<Rightarrow> bool" where
  "world_ok w \<longleftrightarrow> pool_clean (pw_pool w) \<and> None \<notin> set (pw_adapters w)"

definition shown_to :: "pipe_world \<Rightarrow> pipe_entry \<Rightarrow> (nat \<times> pipe_entry) list" where
  "shown_to w e = map (\<lambda>a. (the a, e)) (pw_adapters w)"

definition same_setting :: "pipe_world \<Rightarrow> pipe_world \<Rightarrow> bool" where
  "same_setting w w' \<longleftrightarrow> pw_adapters w' = pw_adapters w \<and> pw_dict w' = pw_dict w \<and> pw_registry w' = pw_registry w"

lemma write_adapters_ok:
  "None \<notin> set as \<Longrightarrow> write_adapters as e w = Some (w\<lparr>pw_out := pw_out w @ map (\<lambda>a. (the a, e)) as\<rparr>)"
proof (induction as arbitrary: w)
  case (Cons a as)
  then obtain i where "a = Some i" by (cases a) auto
  then show ?case using Cons by (simp add: adapter_write_def)
qed simp

lemma global_Acquire_ready:
  assumes "pool_clean p" and "global_AcquireEntry pick p = (p', e)"
  shows "pool_clean p' \<and> ready_entry e"
  using AcquireEntry_ready [OF assms(1), of pick] assms ready_basic
  by (auto simp: global_AcquireEntry_def split: if_splits)

lemma global_Release_clean: "pool_clean p \<Longrightarrow> borrowed_ok e \<Longrightarrow> pool_clean (global_ReleaseEntry e p)"
  by (simp add: global_ReleaseEntry_def ReleaseEntry_clean)

text \<open>One line written: the outcome every pipeline shares.\<close>

definition writes_line :: "pipe_world \<Rightarrow> pipe_world \<Rightarrow> pipe_entry \<Rightarrow> bool" where
  "writes_line w w' r \<longleftrightarrow> world_ok w' \<and> same_setting w w'
     \<and> map (apsnd entry_view) (pw_out w') = map (apsnd entry_view) (pw_out w) @ shown_to w r"

lemma writes_lineI:
  assumes "world_ok w" and "pool_clean p" and "entry_view e = r"
  shows "writes_line w (w\<lparr>pw_pool := p, pw_out := pw_out w @ map (\<lambda>a. (the a, e)) (pw_adapters w)\<rparr>) r"
  using assms by (simp add: writes_line_def world_ok_def same_setting_def shown_to_def comp_def)

definition count_ok :: "int \<Rightarrow> 'a list \<Rightarrow> bool" where
  "count_ok n fs \<longleftrightarrow> 0 \<le> n \<and> n \<le> int (length fs)"

lemma processFields_ready:
  assumes "ready_entry e" and "count_ok n fs"
  shows "\<exists>e'. processFields fs n (stamp_entry t level msg e) = Some e' \<and> borrowed_ok e'
           \<and> entry_view e' = spec_record t level msg (take (nat n) fs)"
proof (cases "n = 0")
  case True
  then show ?thesis using no_fields_ready [OF assms(1), of t level msg] by (simp add: processFields_def)
next
  case False
  then show ?thesis using fill_fields_ready [OF assms(1), of n fs t level msg] assms(2)
    by (simp add: processFields_def count_ok_def)
qed

lemma simple_Write_line:
  assumes "world_ok w" and "sp_Adapters p = length (pw_adapters w)" and "count_ok n fs"
  shows "\<exists>w'. simple_Write pick t level msg fs n p w = Some w' \<and> writes_line w w' (spec_record t level msg (take (nat n) fs))"
proof -
  obtain pool e where a: "global_AcquireEntry pick (pw_pool w) = (pool, e)" by (metis surj_pair)
  have c: "pool_clean pool" and r: "ready_entry e"
    using global_Acquire_ready [OF _ a] assms(1) by (simp_all add: world_ok_def)
  obtain e' where f: "fill_fields fs n (stamp_entry t level msg e) = Some e'" "borrowed_ok e'"
      "entry_view e' = spec_record t level msg (take (nat n) fs)"
    using fill_fields_ready [OF r, of n fs t level msg] assms(3) by (auto simp: count_ok_def)
  let ?w = "w\<lparr>pw_pool := global_ReleaseEntry e' pool, pw_out := pw_out w @ map (\<lambda>a. (the a, e')) (pw_adapters w)\<rparr>"
  have "simple_Write pick t level msg fs n p w = Some ?w"
    using f(1) assms by (auto simp: simple_Write_def a Let_def fill_fields_def handleFieldOverflow_def count_ok_def
        world_ok_def write_adapters_ok split: if_splits)
  moreover have "writes_line w ?w (spec_record t level msg (take (nat n) fs))"
    by (rule writes_lineI [OF assms(1) global_Release_clean [OF c f(2)] f(3)])
  ultimately show ?thesis by blast
qed

lemma direct_Write_line:
  assumes "world_ok w" and "\<not> dp_HasSingleAdapter p" and "dp_Adapters p = length (pw_adapters w)" and "count_ok n fs"
  shows "\<exists>w'. direct_Write pick t level msg fs n p w = Some w' \<and> writes_line w w' (spec_record t level msg (take (nat n) fs))"
proof (cases "n > 0")
  case True
  obtain pool e where a: "AcquireEntry pick (pw_pool w) = (pool, e)" by (metis surj_pair)
  have c: "pool_clean pool" and r: "ready_entry e"
    using AcquireEntry_ready [of "pw_pool w" pick] a assms(1) by (simp_all add: world_ok_def)
  obtain e' where f: "fill_fields fs n (stamp_entry t level msg e) = Some e'" "borrowed_ok e'"
      "entry_view e' = spec_record t level msg (take (nat n) fs)"
    using fill_fields_ready [OF r, of n fs t level msg] assms(4) by (auto simp: count_ok_def)
  let ?w = "w\<lparr>pw_pool := ReleaseEntry e' pool, pw_out := pw_out w @ map (\<lambda>a. (the a, e')) (pw_adapters w)\<rparr>"
  have "direct_Write pick t level msg fs n p w = Some ?w"
    using assms True f(1) by (simp add: direct_Write_def handleFields_def a direct_adapters_def write_adapters_ok world_ok_def)
  moreover have "writes_line w ?w (spec_record t level msg (take (nat n) fs))"
    by (rule writes_lineI [OF assms(1) ReleaseEntry_clean [OF c f(2)] f(3)])
  ultimately show ?thesis by blast
next
  case False
  let ?e = "(stamp_entry t level msg empty_entry)\<lparr>le_StaticFieldCount := 0\<rparr>"
  have "direct_Write pick t level msg fs n p w = Some (w\<lparr>pw_out := pw_out w @ map (\<lambda>a. (the a, ?e)) (pw_adapters w)\<rparr>)"
    using assms False by (simp add: direct_Write_def direct_adapters_def write_adapters_ok world_ok_def)
  moreover have "writes_line w (w\<lparr>pw_pool := pw_pool w, pw_out := pw_out w @ map (\<lambda>a. (the a, ?e)) (pw_adapters w)\<rparr>) (spec_record t level msg [])"
    using assms(1) by (intro writes_lineI plain_empty(2)) (simp_all add: world_ok_def)
  ultimately show ?thesis using False assms(4) by (auto simp: count_ok_def)
qed

section \<open>Maskers in the full pipeline\<close>

text \<open>
  What the full pipeline needs of a masker: it leaves the slots behind the counts alone, and what is
  read of its result depends only on what is read of its argument.
\<close>

locale entry_masker =
  fixes m :: "pipe_entry \<Rightarrow> pipe_entry"
  assumes keeps: "borrowed_ok e \<Longrightarrow> borrowed_ok (m e)"
    and of_view: "entry_view (m e) = entry_view (m (entry_view e))"
begin

lemma masked_view: "entry_view e = r \<Longrightarrow> entry_view (m e) = entry_view (m r)"
  using of_view by blast

lemma full_Write_line:
  assumes "world_ok w" and "fp_Adapters p = length (pw_adapters w)" and "count_ok n fs"
    and "\<not> fp_HasSampling p" and "\<not> fp_HasAsync p" and "\<And>e. applyFeatures p e = m e"
  shows "\<exists>w'. full_Write pick t level msg fs n p w = Some (p\<lparr>fp_ProcessedCount := wrap_s64 (fp_ProcessedCount p + 1)\<rparr>, w')
    \<and> writes_line w w' (entry_view (m (spec_record t level msg (take (nat n) fs))))"
proof -
  obtain pool e where a: "global_AcquireEntry pick (pw_pool w) = (pool, e)" by (metis surj_pair)
  have c: "pool_clean pool" and r: "ready_entry e"
    using global_Acquire_ready [OF _ a] assms(1) by (simp_all add: world_ok_def)
  obtain e' where f: "processFields fs n (stamp_entry t level msg e) = Some e'" "borrowed_ok e'"
      "entry_view e' = spec_record t level msg (take (nat n) fs)"
    using processFields_ready [OF r assms(3), of t level msg] by blast
  let ?w = "w\<lparr>pw_pool := global_ReleaseEntry (m e') pool, pw_out := pw_out w @ map (\<lambda>a. (the a, m e')) (pw_adapters w)\<rparr>"
  have "full_Write pick t level msg fs n p w = Some (p\<lparr>fp_ProcessedCount := wrap_s64 (fp_ProcessedCount p + 1)\<rparr>, ?w)"
    using f(1) assms by (simp add: full_Write_def a full_dispatch_def processSync_def write_adapters_ok world_ok_def Let_def)
  moreover have "writes_line w ?w (entry_view (m (spec_record t level msg (take (nat n) fs))))"
    by (rule writes_lineI [OF assms(1) global_Release_clean [OF c keeps [OF f(2)]] masked_view [OF f(3)]])
  ultimately show ?thesis by blast
qed

end

interpretation unmasked: entry_masker "\<lambda>e. e"
  by unfold_locales (simp_all add: entry_view_def emitted_visible emitted_context_def)

text \<open>The PII masker obeys the laws.\<close>

definition pii_mask :: "'r regex_engine \<Rightarrow> 'r pii_masker \<Rightarrow> pipe_entry \<Rightarrow> pipe_entry" where
  "pii_mask eng pm e = (case Apply eng pm (Some e) of None \<Rightarrow> e | Some a \<Rightarrow> a)"

lemma mask_prefix_drop: "drop (nat c) (mask_prefix eng reg fs c sn) = drop (nat c) fs"
  by (auto simp: mask_prefix_def maskFields_def Let_def min_def max_def nat_le_iff)

text \<open>The masked record, when there is a rule.\<close>

definition mask_all :: "'r regex_engine \<Rightarrow> 'r pii_masker \<Rightarrow> 'r masker_snapshot \<Rightarrow> pipe_entry \<Rightarrow> pipe_entry" where
  "mask_all eng pm sn e = the (Apply eng pm (Some e))"

definition has_rules :: "'r pii_masker \<Rightarrow> 'r masker_snapshot \<Rightarrow> bool" where
  "has_rules pm sn \<longleftrightarrow> pm_activeState pm = Some sn \<and> \<not> (fieldRules sn = Map.empty \<and> regexRules sn = [] \<and> pm_registry pm = None)"

lemma mask_all_parts:
  assumes "has_rules pm sn"
  shows "Apply eng pm (Some e) = Some (mask_all eng pm sn e)"
    and "mask_all eng pm sn e = e\<lparr>le_StaticFields := mask_prefix eng (pm_registry pm) (le_StaticFields e) (le_StaticFieldCount e) (Some sn),
      le_Fields := maskFields eng (pm_registry pm) (le_Fields e) (Some sn),
      le_StaticContext := mask_prefix eng (pm_registry pm) (le_StaticContext e) (le_StaticContextCount e) (Some sn),
      le_Context := maskFields eng (pm_registry pm) (le_Context e) (Some sn),
      le_IndexedStore := le_IndexedStore (mask_all eng pm sn e),
      le_Message := maskString eng (le_Message e) (Some sn)\<rparr>"
    and "le_IndexedStore e = le_IndexedStore e' \<Longrightarrow> le_IndexedStore (mask_all eng pm sn e) = le_IndexedStore (mask_all eng pm sn e')"
proof -
  have a: "pm_activeState pm = Some sn" and r: "\<not> (fieldRules sn = Map.empty \<and> regexRules sn = [] \<and> pm_registry pm = None)"
    using assms by (simp_all add: has_rules_def)
  note unfold = mask_all_def Apply_def a prod.case option.case if_not_P [OF r] Let_def option.sel
  show "Apply eng pm (Some e) = Some (mask_all eng pm sn e)"
    by (simp only: unfold)
  show "mask_all eng pm sn e = e\<lparr>le_StaticFields := mask_prefix eng (pm_registry pm) (le_StaticFields e) (le_StaticFieldCount e) (Some sn),
      le_Fields := maskFields eng (pm_registry pm) (le_Fields e) (Some sn),
      le_StaticContext := mask_prefix eng (pm_registry pm) (le_StaticContext e) (le_StaticContextCount e) (Some sn),
      le_Context := maskFields eng (pm_registry pm) (le_Context e) (Some sn),
      le_IndexedStore := le_IndexedStore (mask_all eng pm sn e),
      le_Message := maskString eng (le_Message e) (Some sn)\<rparr>"
    by (simp only: unfold) simp
  show "le_IndexedStore (mask_all eng pm sn e) = le_IndexedStore (mask_all eng pm sn e')" if "le_IndexedStore e = le_IndexedStore e'"
    using that by (simp only: unfold) simp
qed

lemma pii_mask_cases:
  "(\<forall>e. pii_mask eng pm e = e) \<or> (\<exists>sn. has_rules pm sn \<and> (\<forall>e. pii_mask eng pm e = mask_all eng pm sn e))"
proof (cases "\<exists>sn. has_rules pm sn")
  case True
  then show ?thesis using mask_all_parts(1) by (fastforce simp: pii_mask_def)
next
  case False
  then have "pii_mask eng pm e = e" for e
    by (auto simp: pii_mask_def Apply_def has_rules_def split: option.splits)
  then show ?thesis by blast
qed

lemma mask_all_view:
  assumes "has_rules pm sn"
  shows "entry_view (mask_all eng pm sn e) = entry_view (mask_all eng pm sn (entry_view e))"
proof -
  have f: "emitted_fields (visible (mask_all eng pm sn x)) = maskFields eng (pm_registry pm) (emitted_fields (visible x)) (Some sn)" for x
    using mask_prefix_take [of "le_StaticFieldCount x" eng "pm_registry pm" "le_StaticFields x" "Some sn"]
    by (subst mask_all_parts(2) [OF assms]) (simp add: emitted_visible maskFields_def)
  have c: "emitted_context (mask_all eng pm sn x) = maskFields eng (pm_registry pm) (emitted_context x) (Some sn)" for x
    using mask_prefix_take [of "le_StaticContextCount x" eng "pm_registry pm" "le_StaticContext x" "Some sn"]
    by (subst mask_all_parts(2) [OF assms]) (simp add: emitted_context_def maskFields_def)
  have v: "emitted_fields (visible (entry_view e)) = emitted_fields (visible e)" "emitted_context (entry_view e) = emitted_context e"
    "le_IndexedStore (entry_view e) = le_IndexedStore e"
    by (simp_all add: entry_view_def emitted_visible emitted_context_def)
  have i: "le_IndexedStore (mask_all eng pm sn (entry_view e)) = le_IndexedStore (mask_all eng pm sn e)"
    by (rule mask_all_parts(3) [OF assms v(3)])
  show ?thesis
    unfolding entry_view_def [of "mask_all eng pm sn e"] entry_view_def [of "mask_all eng pm sn (entry_view e)"] f c v
    by (subst (1 2) mask_all_parts(2) [OF assms]) (simp add: entry_view_def i [unfolded entry_view_def])
qed

interpretation pii: entry_masker "pii_mask eng pm" for eng pm
proof
  show "borrowed_ok (pii_mask eng pm e)" if "borrowed_ok e" for e
    using pii_mask_cases [of eng pm]
  proof
    assume "\<exists>sn. has_rules pm sn \<and> (\<forall>e. pii_mask eng pm e = mask_all eng pm sn e)"
    then obtain sn where h: "has_rules pm sn" "pii_mask eng pm e = mask_all eng pm sn e" by blast
    show ?thesis using that unfolding h(2)
      by (subst mask_all_parts(2) [OF h(1)]) (simp add: borrowed_ok_def mask_prefix_drop)
  qed (use that in simp)
  show "entry_view (pii_mask eng pm e) = entry_view (pii_mask eng pm (entry_view e))" for e
    using pii_mask_cases [of eng pm] mask_all_view unmasked.of_view by metis
qed

end
