(* ===== verification/Pipeline_Session.thy ===== *)
theory Pipeline_Session
  imports Pipeline_Strategy
begin

text \<open>
  Sessions of a pipeline strategy: lines and changes of the configuration in any order. The main
  lemma says what every adapter is shown, for any masker that obeys \<open>entry_masker\<close>; the theorems apply
  it to the PII masker and to the strategy the constructor builds.
\<close>

section \<open>Calls\<close>

record line_call =
  lc_pick :: "nat option"
  lc_time :: int
  lc_level :: nat
  lc_msg :: string
  lc_fields :: "typed_field list"
  lc_count :: int

datatype es_call = Line line_call | Update pipeline_config

fun es_step :: "es_call \<Rightarrow> pipe_strategy \<Rightarrow> pipe_world \<Rightarrow> (pipe_strategy \<times> pipe_world) option" where
  "es_step (Line c) s w = es_Write (lc_pick c) (lc_time c) (lc_level c) (lc_msg c) (lc_fields c) (lc_count c) s w"
| "es_step (Update cfg) s w = Some (UpdateConfiguration cfg s, w)"

fun es_session :: "es_call list \<Rightarrow> pipe_strategy \<Rightarrow> pipe_world \<Rightarrow> (pipe_strategy \<times> pipe_world) option" where
  "es_session [] s w = Some (s, w)"
| "es_session (c # cs) s w = Option.bind (es_step c s w) (\<lambda>(s, w). es_session cs s w)"

section \<open>The specification\<close>

definition call_record :: "line_call \<Rightarrow> pipe_entry" where
  "call_record c = spec_record (lc_time c) (lc_level c) (lc_msg c) (take (nat (lc_count c)) (lc_fields c))"

definition selected :: "pipeline_config \<Rightarrow> pipe_kind" where
  "selected c =
     (if \<not> pc_EnableMasking c \<and> \<not> pc_EnableSampling c \<and> \<not> pc_EnableAsync c
      then if pc_EnableColors c then PSimple else PDirect else PFull)"

text \<open>Each line as it was made, masked while the full pipeline is selected.\<close>

fun spec_lines :: "(pipe_entry \<Rightarrow> pipe_entry) \<Rightarrow> pipe_kind \<Rightarrow> es_call list \<Rightarrow> pipe_entry list" where
  "spec_lines m k [] = []"
| "spec_lines m k (Line c # cs) =
     (if k = PFull then entry_view (m (call_record c)) else call_record c) # spec_lines m k cs"
| "spec_lines m k (Update cfg # cs) = spec_lines m (selected cfg) cs"

fun es_call_ok :: "es_call \<Rightarrow> bool" where
  "es_call_ok (Line c) = count_ok (lc_count c) (lc_fields c)"
| "es_call_ok (Update _) = True"

definition es_ok :: "pipe_kind \<Rightarrow> pipe_strategy \<Rightarrow> pipe_world \<Rightarrow> bool" where
  "es_ok k s w \<longleftrightarrow> es_current s = Some k
     \<and> \<not> dp_HasSingleAdapter (es_direct s) \<and> dp_Adapters (es_direct s) = length (pw_adapters w)
     \<and> sp_Adapters (es_simple s) = length (pw_adapters w) \<and> fp_Adapters (es_full s) = length (pw_adapters w)
     \<and> \<not> fp_HasSampling (es_full s) \<and> \<not> fp_HasAsync (es_full s)"

lemma applyFeatures_cong:
  assumes "fp_HasMasking p = fp_HasMasking q" and "fp_HasColors p = fp_HasColors q" and "fp_Masker p = fp_Masker q"
  shows "applyFeatures p = applyFeatures q"
  by (rule ext) (simp only: applyFeatures_def assms)

lemma applyFeatures_processed [simp]:
  "applyFeatures (p\<lparr>fp_ProcessedCount := n\<rparr>) = applyFeatures p"
  by (rule applyFeatures_cong) simp_all

lemma UpdateConfiguration_full:
  "es_full (UpdateConfiguration cfg s) =
     (if pc_EnableSampling cfg then SetSampleRate (pc_SampleRate cfg) (es_full s) else es_full s)"
  by (simp add: UpdateConfiguration_def selectOptimalPipelineLocked_def reconfigurePipelines_def Let_def)

lemma SetSampleRate_frame [simp]:
  "fp_Adapters (SetSampleRate r p) = fp_Adapters p" "fp_HasSampling (SetSampleRate r p) = fp_HasSampling p"
  "fp_HasAsync (SetSampleRate r p) = fp_HasAsync p" "fp_HasMasking (SetSampleRate r p) = fp_HasMasking p"
  "fp_HasColors (SetSampleRate r p) = fp_HasColors p" "fp_Masker (SetSampleRate r p) = fp_Masker p"
  by (simp_all add: SetSampleRate_def Let_def)

lemma UpdateConfiguration_ok:
  assumes "es_ok k s w"
  shows "es_ok (selected cfg) (UpdateConfiguration cfg s) w"
    and "applyFeatures (es_full (UpdateConfiguration cfg s)) = applyFeatures (es_full s)"
proof -
  have "es_current (UpdateConfiguration cfg s) = Some (selected cfg)"
    "es_direct (UpdateConfiguration cfg s) = es_direct s"
    "sp_Adapters (es_simple (UpdateConfiguration cfg s)) = sp_Adapters (es_simple s)"
    by (simp_all add: UpdateConfiguration_def selectOptimalPipelineLocked_def reconfigurePipelines_def
        selected_def shouldUseDirectPipeline_def shouldUseSimplePipeline_def Let_def)
  then show "es_ok (selected cfg) (UpdateConfiguration cfg s) w"
    using assms by (simp add: es_ok_def UpdateConfiguration_full)
  show "applyFeatures (es_full (UpdateConfiguration cfg s)) = applyFeatures (es_full s)"
    by (rule applyFeatures_cong) (simp_all add: UpdateConfiguration_full)
qed

section \<open>What the adapters are shown\<close>

context entry_masker begin

lemma es_Write_line:
  assumes "world_ok w" and "es_ok k s w" and "applyFeatures (es_full s) = m" and "es_call_ok (Line c)"
  shows "\<exists>s' w'. es_step (Line c) s w = Some (s', w') \<and> es_ok k s' w' \<and> applyFeatures (es_full s') = m
    \<and> writes_line w w' (if k = PFull then entry_view (m (call_record c)) else call_record c)"
proof -
  note line = assms(2) [unfolded es_ok_def]
  have cnt: "count_ok (lc_count c) (lc_fields c)" using assms(4) by simp
  have same: "es_ok k s w'" if "same_setting w w'" for w'
    using assms(2) that by (simp add: es_ok_def same_setting_def)
  show ?thesis
  proof (cases k)
    case PDirect
    obtain w' where w: "direct_Write (lc_pick c) (lc_time c) (lc_level c) (lc_msg c) (lc_fields c) (lc_count c) (es_direct s) w = Some w'"
        "writes_line w w' (call_record c)"
      using direct_Write_line [OF assms(1) _ _ cnt, of "es_direct s" "lc_pick c" "lc_time c" "lc_level c" "lc_msg c"] line
      by (auto simp: call_record_def)
    have "es_step (Line c) s w = Some (s, w')" using w(1) line PDirect by (simp add: es_Write_def)
    then show ?thesis using w(2) same [of w'] assms(3) PDirect by (auto simp: writes_line_def)
  next
    case PSimple
    obtain w' where w: "simple_Write (lc_pick c) (lc_time c) (lc_level c) (lc_msg c) (lc_fields c) (lc_count c) (es_simple s) w = Some w'"
        "writes_line w w' (call_record c)"
      using simple_Write_line [OF assms(1) _ cnt, of "es_simple s" "lc_pick c" "lc_time c" "lc_level c" "lc_msg c"] line
      by (auto simp: call_record_def)
    have "es_step (Line c) s w = Some (s, w')" using w(1) line PSimple by (simp add: es_Write_def)
    then show ?thesis using w(2) same [of w'] assms(3) PSimple by (auto simp: writes_line_def)
  next
    case PFull
    let ?p = "(es_full s)\<lparr>fp_ProcessedCount := wrap_s64 (fp_ProcessedCount (es_full s) + 1)\<rparr>"
    obtain w' where w: "full_Write (lc_pick c) (lc_time c) (lc_level c) (lc_msg c) (lc_fields c) (lc_count c) (es_full s) w = Some (?p, w')"
        "writes_line w w' (entry_view (m (call_record c)))"
      using full_Write_line [OF assms(1) _ cnt, of "es_full s" "lc_pick c" "lc_time c" "lc_level c" "lc_msg c"] line assms(3)
      by (auto simp: call_record_def)
    have "es_step (Line c) s w = Some (s\<lparr>es_full := ?p\<rparr>, w')" using w(1) line PFull by (simp add: es_Write_def)
    moreover have "es_ok k (s\<lparr>es_full := ?p\<rparr>) w'"
      using same [of w'] w(2) by (simp add: es_ok_def writes_line_def)
    ultimately show ?thesis using w(2) assms(3) PFull by simp
  qed
qed

lemma es_session_lines:
  assumes "world_ok w" and "es_ok k s w" and "applyFeatures (es_full s) = m" and "list_all es_call_ok cs"
  shows "\<exists>s' w'. es_session cs s w = Some (s', w') \<and> world_ok w' \<and> same_setting w w'
    \<and> map (apsnd entry_view) (pw_out w') = map (apsnd entry_view) (pw_out w) @ concat (map (shown_to w) (spec_lines m k cs))"
  using assms
proof (induction cs arbitrary: k s w)
  case Nil
  then show ?case by (simp add: same_setting_def)
next
  case (Cons c cs)
  show ?case
  proof (cases c)
    case (Line l)
    obtain s1 w1 where s: "es_step (Line l) s w = Some (s1, w1)" "es_ok k s1 w1" "applyFeatures (es_full s1) = m"
        "writes_line w w1 (if k = PFull then entry_view (m (call_record l)) else call_record l)"
      using es_Write_line [of w k s l] Cons.prems Line by auto
    have w: "world_ok w1" "same_setting w w1" "shown_to w1 = shown_to w"
      using s(4) by (auto simp: writes_line_def shown_to_def same_setting_def)
    obtain s' w' where r: "es_session cs s1 w1 = Some (s', w')" "world_ok w'" "same_setting w1 w'"
        "map (apsnd entry_view) (pw_out w') = map (apsnd entry_view) (pw_out w1) @ concat (map (shown_to w1) (spec_lines m k cs))"
      using Cons.IH [OF w(1) s(2,3)] Cons.prems(4) by auto
    have "same_setting w w'" using w(2) r(3) by (simp add: same_setting_def)
    then show ?thesis using s(1,4) r w Line by (simp add: writes_line_def)
  next
    case (Update cfg)
    then show ?thesis
      using Cons.IH [OF Cons.prems(1) UpdateConfiguration_ok(1) [OF Cons.prems(2), of cfg]] Cons.prems UpdateConfiguration_ok(2) [OF Cons.prems(2)]
      by simp
  qed
qed

end

section \<open>Lines through a masking pipeline\<close>


definition demo_config :: pipeline_config where
  "demo_config = getDefaultPipelineConfig\<lparr>pc_SensitiveFields := [''password'']\<rparr>"

definition demo_pipes :: pipe_world where
  "demo_pipes = \<lparr>pw_pool = InitializeGlobalPool, pw_adapters = [Some 0, Some 1], pw_dict = NewFieldDictionary,
     pw_registry = NewSensitiveFieldRegistry, pw_out = []\<rparr>"

definition login_call :: line_call where
  "login_call = \<lparr>lc_pick = Some 0, lc_time = 1, lc_level = InfoLevel, lc_msg = ''login'',
     lc_fields = [any_field ''password'' (GString ''hunter2'')], lc_count = 1\<rparr>"


lemma demo_pipes_ok: "world_ok demo_pipes"
  by (simp add: world_ok_def demo_pipes_def pool_clean_Init)

lemmas new_strategy_defs = NewEnhancedPipelineStrategy_def initializePipelines_def selectOptimalPipelineLocked_def
  shouldUseDirectPipeline_def shouldUseSimplePipeline_def NewSimplePipeline_def NewFullPipeline_def SetSampleRate_def


section \<open>The strategy the constructor builds\<close>

fun lines_of :: "es_call list \<Rightarrow> line_call list" where
  "lines_of [] = []"
| "lines_of (Line c # cs) = c # lines_of cs"
| "lines_of (Update _ # cs) = lines_of cs"

lemma view_call_record: "entry_view (call_record c) = call_record c"
  by (simp add: call_record_def entry_view_def spec_record_def empty_entry_def emitted_visible emitted_context_def)

lemma spec_lines_unmasked: "spec_lines (\<lambda>e. e) k cs = map call_record (lines_of cs)"
proof (induction cs arbitrary: k)
  case (Cons c cs)
  then show ?case by (cases c) (simp_all add: view_call_record)
qed simp

lemma register_sensitive_frame:
  "pw_pool (register_sensitive ns ps w) = pw_pool w" "pw_adapters (register_sensitive ns ps w) = pw_adapters w"
  "pw_out (register_sensitive ns ps w) = pw_out w"
  by (simp_all add: register_sensitive_def split_beta)

lemma new_strategy_ok:
  assumes "\<not> pc_EnableSampling cfg" and "NewEnhancedPipelineStrategy integration (Some cfg) w = (s, w')"
  shows "es_ok (selected cfg) s w'" and "applyFeatures (es_full s) = (\<lambda>e. e)"
    and "pw_adapters w' = pw_adapters w" and "pw_pool w' = pw_pool w" and "pw_out w' = pw_out w"
proof -
  have s: "s = fst (NewEnhancedPipelineStrategy integration (Some cfg) w)"
    and w: "w' = snd (NewEnhancedPipelineStrategy integration (Some cfg) w)" using assms(2) by simp_all
  show fr: "pw_adapters w' = pw_adapters w" "pw_pool w' = pw_pool w" "pw_out w' = pw_out w"
    unfolding w by (simp_all add: new_strategy_defs configureRegistries_def register_sensitive_frame Let_def split_beta)
  show "es_ok (selected cfg) s w'"
    unfolding es_ok_def fr(1) unfolding s using assms(1)
    by (simp add: new_strategy_defs selected_def Let_def split_beta)
  have "fp_Masker (es_full s) = None" unfolding s using assms(1)
    by (simp add: new_strategy_defs Let_def split_beta)
  then show "applyFeatures (es_full s) = (\<lambda>e. e)" by (simp add: applyFeatures_def fun_eq_iff)
qed

text \<open>
  C39: The strategy never masks. Built from any configuration without sampling, with masking enabled and
  sensitive names registered or not, and through every later change of the configuration (also one
  that enables sampling or masking), it shows every adapter every line with the fields as they came.
\<close>

theorem strategy_never_masks:
  assumes "world_ok w" and "\<not> pc_EnableSampling cfg" and "list_all es_call_ok cs"
  shows "\<exists>s' w'. (case NewEnhancedPipelineStrategy integration (Some cfg) w of (s, w0) \<Rightarrow> es_session cs s w0) = Some (s', w')
    \<and> map (apsnd entry_view) (pw_out w')
      = map (apsnd entry_view) (pw_out w) @ concat (map (\<lambda>c. shown_to w (call_record c)) (lines_of cs))"
proof -
  obtain s w0 where n: "NewEnhancedPipelineStrategy integration (Some cfg) w = (s, w0)" by (metis surj_pair)
  note ok = new_strategy_ok [OF assms(2) n]
  have w0: "world_ok w0" "shown_to w0 = shown_to w" using assms(1) ok(3,4) by (auto simp: world_ok_def shown_to_def)
  from unmasked.es_session_lines [OF w0(1) ok(1,2) assms(3)] show ?thesis
    by (auto simp: n ok(5) w0(2) spec_lines_unmasked comp_def)
qed

theorem strategy_never_masks_witness:
  "\<exists>s' w'. (case NewEnhancedPipelineStrategy False (Some demo_config) demo_pipes of (s, w0) \<Rightarrow> es_session [Line login_call] s w0) = Some (s', w')
    \<and> map (apsnd entry_view) (pw_out w') = map (apsnd entry_view) (pw_out demo_pipes)
      @ concat (map (\<lambda>c. shown_to demo_pipes (call_record c)) (lines_of [Line login_call]))"
  by (rule strategy_never_masks [OF demo_pipes_ok])
    (simp_all add: demo_config_def getDefaultPipelineConfig_def login_call_def count_ok_def)

section \<open>The built-in sampling rate\<close>

fun rate_decisions :: "nat \<Rightarrow> full_pipeline \<Rightarrow> pipe_entry \<Rightarrow> bool list" where
  "rate_decisions 0 p e = []"
| "rate_decisions (Suc n) p e = (let (p, keep) = fp_shouldSample p e in keep # rate_decisions n p e)"

lemma rate_decisions_eq:
  assumes "fp_Sampler p = None" and "fp_SampleRate p = r" and "0 < r" and "r < 100"
    and "fp_SampleCount p = int c" and "int (c + n) < 2 ^ 63"
  shows "rate_decisions n p e = map (\<lambda>i. Suc i mod nat (100 div r) = 0) [c..<c + n]"
  using assms
proof (induction n arbitrary: p c)
  case (Suc n)
  have w: "wrap_s64 (int c + 1) = int (Suc c)"
    using Suc.prems(6) by (simp add: is_s64_def)
  have d: "0 < 100 div r" using Suc.prems(3,4) by (simp add: pos_imp_zdiv_pos_iff)
  have k: "(int (Suc c) mod (100 div r) = 0) = (Suc c mod nat (100 div r) = 0)"
  proof -
    have "int (Suc c) mod (100 div r) = int (Suc c mod nat (100 div r))" using d by (simp only: zmod_int) simp
    then show ?thesis by (simp only: of_nat_eq_0_iff)
  qed
  have "fp_shouldSample p e = (p\<lparr>fp_SampleCount := int (Suc c)\<rparr>, Suc c mod nat (100 div r) = 0)"
    using Suc.prems w d k by (simp add: fp_shouldSample_def Let_def)
  moreover have "rate_decisions n (p\<lparr>fp_SampleCount := int (Suc c)\<rparr>) e = map (\<lambda>i. Suc i mod nat (100 div r) = 0) [Suc c..<Suc c + n]"
    by (rule Suc.IH) (use Suc.prems in simp_all)
  ultimately show ?case by (simp add: upt_conv_Cons del: upt_Suc)
qed simp

text \<open>Rates above one half keep every line: the divisor is one.\<close>

lemma rate_above_half:
  assumes "fp_Sampler p = None" and "50 < fp_SampleRate p" and "fp_SampleRate p < 100"
    and "fp_SampleCount p = int c" and "int (c + n) < 2 ^ 63"
  shows "rate_decisions n p e = replicate n True"
proof -
  have "100 div fp_SampleRate p = 1"
    using int_div_pos_eq [of 100 "fp_SampleRate p" 1 "100 - fp_SampleRate p"] assms(2,3) by simp
  then show ?thesis using rate_decisions_eq [OF assms(1) refl _ assms(3-5)] assms(2)
    by (simp add: map_replicate_const del: upt_rec_numeral)
qed

text \<open>
  The built-in sampler with a rate between 1 and 99 keeps one line in \<open>100 div rate\<close>, exactly.
\<close>

lemma multiples_counted:
  assumes "0 < d"
  shows "length (filter (\<lambda>b. b) (map (\<lambda>i. Suc i mod d = 0) [0..<n])) = n div d"
proof (induction n)
  case (Suc n)
  have "Suc n div d = n div d + (if Suc n mod d = 0 then 1 else 0)"
    by (simp add: div_Suc)
  with Suc show ?case by simp
qed simp

theorem builtin_rate_exact:
  assumes "fp_Sampler p = None" and "0 < fp_SampleRate p" and "fp_SampleRate p < 100"
    and "fp_SampleCount p = 0" and "int n < 2 ^ 63"
  shows "length (filter (\<lambda>b. b) (rate_decisions n p e)) = n div nat (100 div fp_SampleRate p)"
proof -
  have d: "0 < nat (100 div fp_SampleRate p)" using assms(2,3) by (simp add: pos_imp_zdiv_pos_iff)
  have "rate_decisions n p e = map (\<lambda>i. Suc i mod nat (100 div fp_SampleRate p) = 0) [0..<0 + n]"
    by (rule rate_decisions_eq) (use assms in simp_all)
  then show ?thesis using multiples_counted [OF d, of n] by simp
qed

theorem builtin_rate_exact_witness:
  "length (filter (\<lambda>b. b) (rate_decisions 10 (SetSampleRate 60 (NewFullPipeline 1)) empty_entry)) = 10"
  using builtin_rate_exact [of "SetSampleRate 60 (NewFullPipeline 1)" 10 empty_entry]
  by (simp add: NewFullPipeline_def SetSampleRate_def)

section \<open>Closing a pipeline\<close>

text \<open>
  A worker that sees the stop channel first leaves the queue behind: no entry in it is ever written
  or given back to the pool.
\<close>

lemma Reset_loses_queue:
  assumes "fp_HasAsync p" and "\<not> fp_stopClosed p" and "\<not> fp_queueClosed p"
  shows "\<exists>p' w'. full_Reset 0 p w = Some (p', w') \<and> fp_AsyncQueue p' = fp_AsyncQueue p \<and> pw_out w' = pw_out w
    \<and> fp_queueClosed p' \<and> fp_stopClosed p'"
  using assms by (simp add: full_Reset_def clear_adapters_def)

text \<open>A second \<open>Reset\<close>, and a write after the first, panic.\<close>

lemma Reset_twice_panics: "fp_HasAsync p \<Longrightarrow> fp_stopClosed p \<Longrightarrow> full_Reset k p w = None"
  by (simp add: full_Reset_def)

lemma write_after_Reset_panics: "fp_queueClosed p \<Longrightarrow> fp_HasAsync p \<Longrightarrow> full_dispatch p e w = None"
  by (simp add: full_dispatch_def processAsync_def)

text \<open>
  The pipelines of a strategy share the array of adapters: between the reset of the direct pipeline
  and that of the simple one a line through the simple pipeline meets a nil adapter and panics.
\<close>

lemma write_adapters_nil: "None \<in> set as \<Longrightarrow> write_adapters as e w = None"
  by (induction as arbitrary: w) (auto simp: adapter_write_def split: option.splits)

lemma write_during_Shutdown_panics:
  assumes "es_ok k s w" and "pw_adapters w \<noteq> []" and "direct_Reset (es_direct s) w = (d, w')"
  shows "simple_Write pick t level msg fs n (es_simple s) w' = None"
proof -
  have "None \<in> set (take (sp_Adapters (es_simple s)) (pw_adapters w'))"
    using assms by (auto simp: es_ok_def direct_Reset_def clear_adapters_def neq_Nil_conv)
  then show ?thesis by (simp add: simple_Write_def split_beta write_adapters_nil Let_def)
qed

end
