(* ===== verification/Console_Sink.thy ===== *)
theory Console_Sink
  imports Log_Entry
begin

text \<open>
  The console adapter (\<^verbatim>\<open>adapters/outputs/console/console.go\<close>) on a destination writer: \<open>werr\<close> is the
  error the writer reports for a chunk, if any; a chunk it reports no error for is out. A formatter is
  the function its \<open>Format\<close> method computes, with its type, which says whether it encodes directly. The
  pooled buffers start empty on every use and are not part of the state. The discard adapter
  (\<^verbatim>\<open>adapters/outputs/discard/discard.go\<close>) ignores everything.
\<close>

record 'd formatter =
  fm_Format :: "'d full_entry \<Rightarrow> bytes \<Rightarrow> bytes"
  fm_isDirect :: bool

record 'd console =
  co_formatter :: "'d formatter"
  co_out :: "bytes list"
  co_closed :: bool
  co_flushes :: nat   \<comment> \<open>calls of the writer's own \<open>Flush\<close>\<close>

record writer =
  wr_err :: "bytes \<Rightarrow> string option"
  wr_canFlush :: bool
  wr_flushErr :: "string option"

definition NewWithWriter :: "'d formatter \<Rightarrow> 'd formatter option \<Rightarrow> 'd console" where
  "NewWithWriter defaultFormatter formatter = \<lparr>co_formatter = (case formatter of None \<Rightarrow> defaultFormatter | Some f \<Rightarrow> f),
     co_out = [], co_closed = False, co_flushes = 0\<rparr>"

definition writer_Write :: "writer \<Rightarrow> bytes \<Rightarrow> 'd console \<Rightarrow> 'd console \<times> string option" where
  "writer_Write wr buf a =
     (case wr_err wr buf of
        None \<Rightarrow> (a\<lparr>co_out := co_out a @ [buf]\<rparr>, None)
      | Some err \<Rightarrow> (a, Some err))"

definition with_newline :: "bytes \<Rightarrow> bytes" where
  "with_newline buf = (if length buf = 0 \<or> last buf \<noteq> CHR 0x0A then buf @ [CHR 0x0A] else buf)"

definition co_Write :: "writer \<Rightarrow> 'd full_entry option \<Rightarrow> 'd console \<Rightarrow> 'd console \<times> string option" where
  "co_Write wr e a =
     (case e of
        None \<Rightarrow> (a, None)
      | Some entry \<Rightarrow>
          if co_closed a then (a, None)
          else let buf = with_newline (fm_Format (co_formatter a) entry [])
               in if co_closed a then (a, None) else writer_Write wr buf a)"

definition co_WriteZero :: "writer \<Rightarrow> 'd full_entry option \<Rightarrow> 'd console \<Rightarrow> 'd console \<times> string option" where
  "co_WriteZero wr e a = co_Write wr e a"

definition co_WriteRaw :: "writer \<Rightarrow> bytes \<Rightarrow> 'd console \<Rightarrow> 'd console \<times> string option" where
  "co_WriteRaw wr line a = (if co_closed a then (a, None) else writer_Write wr line a)"

definition co_DirectEncoder :: "'d console \<Rightarrow> bool" where
  "co_DirectEncoder a = fm_isDirect (co_formatter a)"

definition co_Flush :: "writer \<Rightarrow> 'd console \<Rightarrow> 'd console \<times> string option" where
  "co_Flush wr a =
     (if wr_canFlush wr then (a\<lparr>co_flushes := co_flushes a + 1\<rparr>, wr_flushErr wr) else (a, None))"

definition co_Close :: "'d console \<Rightarrow> 'd console \<times> string option" where
  "co_Close a = (a\<lparr>co_closed := True\<rparr>, None)"

definition co_SetFormatter :: "'d formatter option \<Rightarrow> 'd console \<Rightarrow> 'd console" where
  "co_SetFormatter f a = (case f of None \<Rightarrow> a | Some f \<Rightarrow> a\<lparr>co_formatter := f\<rparr>)"

definition co_Health :: "'d console \<Rightarrow> string option" where
  "co_Health a = (if co_closed a then Some ''io: read/write on closed pipe'' else None)"

section \<open>What reaches the destination\<close>

datatype 'd console_call =
  CWrite "'d full_entry option" | CRaw bytes | CFlush | CClose | CSet "'d formatter option"

fun co_step :: "writer \<Rightarrow> 'd console_call \<Rightarrow> 'd console \<Rightarrow> 'd console" where
  "co_step wr (CWrite e) a = fst (co_Write wr e a)"
| "co_step wr (CRaw line) a = fst (co_WriteRaw wr line a)"
| "co_step wr CFlush a = fst (co_Flush wr a)"
| "co_step wr CClose a = fst (co_Close a)"
| "co_step wr (CSet f) a = co_SetFormatter f a"

text \<open>
  The specification: until the first \<open>Close\<close> each line is written with the formatter set last, and
  raw lines as they are; a chunk the writer fails on is missing; afterwards nothing is written.
\<close>

fun console_spec :: "writer \<Rightarrow> 'd formatter \<Rightarrow> 'd console_call list \<Rightarrow> bytes list" where
  "console_spec wr f [] = []"
| "console_spec wr f (CWrite None # cs) = console_spec wr f cs"
| "console_spec wr f (CWrite (Some e) # cs) =
     (let buf = with_newline (fm_Format f e []) in if wr_err wr buf = None then [buf] else []) @ console_spec wr f cs"
| "console_spec wr f (CRaw line # cs) = (if wr_err wr line = None then [line] else []) @ console_spec wr f cs"
| "console_spec wr f (CFlush # cs) = console_spec wr f cs"
| "console_spec wr f (CClose # cs) = []"
| "console_spec wr f (CSet None # cs) = console_spec wr f cs"
| "console_spec wr f (CSet (Some g) # cs) = console_spec wr g cs"

lemma closed_silent:
  "co_closed a \<Longrightarrow> co_out (foldl (\<lambda>a c. co_step wr c a) a cs) = co_out a"
proof (induction cs arbitrary: a)
  case (Cons c cs)
  have "co_closed (co_step wr c a) \<and> co_out (co_step wr c a) = co_out a"
    using Cons.prems by (cases c) (auto simp: co_Write_def co_WriteRaw_def co_Flush_def co_Close_def co_SetFormatter_def split: option.splits)
  then show ?case using Cons.IH by simp
qed simp

theorem console_writes_lines:
  "\<not> co_closed a \<Longrightarrow>
   co_out (foldl (\<lambda>a c. co_step wr c a) a cs) = co_out a @ console_spec wr (co_formatter a) cs"
proof (induction wr "co_formatter a" cs arbitrary: a rule: console_spec.induct)
  case (3 wr e cs)
  let ?a = "co_step wr (CWrite (Some e)) a"
  have "\<not> co_closed ?a \<and> co_formatter ?a = co_formatter a \<and> co_out ?a = co_out a
      @ (let buf = with_newline (fm_Format (co_formatter a) e []) in if wr_err wr buf = None then [buf] else [])"
    using 3(2) by (auto simp: co_Write_def writer_Write_def Let_def split: option.splits)
  then show ?case using 3(1) [of ?a] by simp
next
  case (4 wr line cs)
  let ?a = "co_step wr (CRaw line) a"
  have "\<not> co_closed ?a \<and> co_formatter ?a = co_formatter a \<and> co_out ?a = co_out a @ (if wr_err wr line = None then [line] else [])"
    using 4(2) by (auto simp: co_WriteRaw_def writer_Write_def split: option.splits)
  then show ?case using 4(1) [of ?a] by simp
qed (auto simp: co_Write_def co_Flush_def co_Close_def co_SetFormatter_def closed_silent)

end
