(* ===== verification/Async_Adapter.thy ===== *)
theory Async_Adapter
  imports Console_Sink "HOL-Library.Sublist"
begin

text \<open>
  The asynchronous wrapper of \<^verbatim>\<open>adapters/middleware/async.go\<close>: a bounded buffer of pooled copies, one
  background writer that batches them, and the protocol of \<open>Flush\<close> and \<open>Close\<close>.

  The pooled copies live in a store that maps a pointer (an index) to its entry, since the point of
  the pool is that a copy is overwritten when it is handed out again. The base adapter is a record of
  the methods the wrapper calls; \<open>pick\<close> is the choice of the \<open>sync.Pool\<close>. One call of \<open>Write\<close> is one
  step (the lock and the closing flag make the check and the send atomic with respect to \<open>Close\<close>, and
  the channel orders the senders); the branches of the writer's \<open>select\<close> are its steps.
\<close>

datatype async_error = ErrAsyncNilEntry | ErrAsyncClosed | ErrAsyncBufferFull | ErrAsyncWriteEntry | ErrBase string

record ('b, 'd) base_adapter =
  ba_Write :: "'b \<Rightarrow> 'd full_entry \<Rightarrow> 'b \<times> string option"
  ba_Flush :: "'b \<Rightarrow> 'b \<times> string option"
  ba_Close :: "'b \<Rightarrow> 'b \<times> string option"

record ('b, 'd) async_adapter =
  aa_base :: 'b
  aa_store :: "'d full_entry list"
  aa_pool :: "nat list"
  aa_buffer :: "nat list"
  aa_batch :: "nat list"      \<comment> \<open>the writer's own batch\<close>
  aa_bufferSize :: nat
  aa_batchSize :: int
  aa_flushInterval :: int
  aa_lastError :: "string option"
  aa_closing :: bool
  aa_done :: bool             \<comment> \<open>the context is cancelled\<close>
  aa_exited :: bool           \<comment> \<open>the writer has returned\<close>

section \<open>Construction\<close>

record async_options =
  ao_BufferSize :: int
  ao_BatchSize :: int
  ao_FlushInterval :: int

definition NewAsyncAdapter :: "'b \<Rightarrow> async_options option \<Rightarrow> ('b, 'd) async_adapter" where
  "NewAsyncAdapter base options =
     (let sz = (case options of Some ao \<Rightarrow> if ao_BufferSize ao > 0 then ao_BufferSize ao else 1000 | None \<Rightarrow> 1000);
          bsz = (case options of Some ao \<Rightarrow> if ao_BatchSize ao > 0 then ao_BatchSize ao else 100 | None \<Rightarrow> 100);
          iv = (case options of Some ao \<Rightarrow> if ao_FlushInterval ao > 0 then ao_FlushInterval ao else 1000000000 | None \<Rightarrow> 1000000000)
      in \<lparr>aa_base = base, aa_store = [], aa_pool = [], aa_buffer = [], aa_batch = [], aa_bufferSize = nat sz,
          aa_batchSize = bsz, aa_flushInterval = iv, aa_lastError = None, aa_closing = False, aa_done = False,
          aa_exited = False\<rparr>)"

section \<open>Copies\<close>

definition new_copy :: "'d full_entry" where
  "new_copy = empty_entry\<lparr>le_StaticFieldsSpare := replicate 64 zero_field, le_FieldsSpare := replicate 8 zero_field\<rparr>"

text \<open>\<open>append(xs[:0], ys...)\<close>.\<close>

definition refill :: "'a list \<Rightarrow> 'a list \<Rightarrow> 'a list \<Rightarrow> 'a list \<times> 'a list" where
  "refill xs spare ys = (ys, drop (length ys) (xs @ spare))"

text \<open>The assignments of \<open>acquireCopy\<close>; a negative static count makes the slice expression panic.\<close>

definition copy_entry :: "'d full_entry \<Rightarrow> 'd full_entry \<Rightarrow> 'd full_entry option" where
  "copy_entry src c =
     (let c = c\<lparr>le_Level := le_Level src, le_Message := le_Message src, le_Component := le_Component src,
               le_Timestamp := le_Timestamp src, le_TimestampUnix := le_TimestampUnix src, le_File := le_File src,
               le_Line := le_Line src, le_Error := le_Error src, le_ErrorMsg := le_ErrorMsg src\<rparr>;
          n = le_StaticFieldCount src;
          n = (if n > int (length (le_StaticFields src)) then int (length (le_StaticFields src)) else n)
      in if n < 0 then None
         else let (sf, ssp) = refill (le_StaticFields c) (le_StaticFieldsSpare c) (take (nat n) (le_StaticFields src));
                  c = c\<lparr>le_StaticFields := sf, le_StaticFieldsSpare := ssp, le_StaticFieldCount := int (length sf)\<rparr>;
                  (f, fsp) = refill (le_Fields c) (le_FieldsSpare c) (le_Fields src)
              in Some (c\<lparr>le_Fields := f, le_FieldsSpare := fsp\<rparr>))"

text \<open>The pool hands out one of its pointers or a new one; the pointer is then the caller's alone.\<close>

definition acquireCopy ::
  "nat option \<Rightarrow> 'd full_entry \<Rightarrow> ('b, 'd) async_adapter \<Rightarrow> (('b, 'd) async_adapter \<times> nat) option" where
  "acquireCopy pick src a =
     (let fresh = length (aa_store a);
          (free, c) = sync_Get pick fresh (aa_pool a);
          store = (if c = fresh then aa_store a @ [new_copy] else aa_store a)
      in map_option (\<lambda>e. (a\<lparr>aa_pool := free, aa_store := store[c := e]\<rparr>, c)) (copy_entry src (store ! c)))"

definition released :: "'d full_entry \<Rightarrow> 'd full_entry" where
  "released c = c\<lparr>le_StaticFieldsSpare := le_StaticFields c @ le_StaticFieldsSpare c, le_StaticFields := [],
     le_StaticFieldCount := 0, le_FieldsSpare := le_Fields c @ le_FieldsSpare c, le_Fields := [], le_Error := None\<rparr>"

definition releaseCopy :: "nat \<Rightarrow> ('b, 'd) async_adapter \<Rightarrow> ('b, 'd) async_adapter" where
  "releaseCopy c a = a\<lparr>aa_store := (aa_store a)[c := released (aa_store a ! c)], aa_pool := aa_pool a @ [c]\<rparr>"

section \<open>Write\<close>

definition aa_Write ::
  "nat option \<Rightarrow> 'd full_entry option \<Rightarrow> ('b, 'd) async_adapter \<Rightarrow> (('b, 'd) async_adapter \<times> async_error option) option" where
  "aa_Write pick e a =
     (case e of
        None \<Rightarrow> Some (a, Some ErrAsyncNilEntry)
      | Some entry \<Rightarrow>
          if aa_closing a then Some (a, Some ErrAsyncClosed)
          else Option.bind (acquireCopy pick entry a) (\<lambda>(a, c).
            if length (aa_buffer a) < aa_bufferSize a
            then Some (a\<lparr>aa_buffer := aa_buffer a @ [c]\<rparr>, None)
            else Some (releaseCopy c a, Some ErrAsyncBufferFull)))"

definition aa_WriteZero ::
  "nat option \<Rightarrow> 'd full_entry option \<Rightarrow> ('b, 'd) async_adapter \<Rightarrow> (('b, 'd) async_adapter \<times> async_error option) option" where
  "aa_WriteZero pick e a = (case e of None \<Rightarrow> Some (a, Some ErrAsyncNilEntry) | Some entry \<Rightarrow> aa_Write pick (Some entry) a)"

section \<open>The background writer\<close>

definition setLastError :: "string option \<Rightarrow> ('b, 'd) async_adapter \<Rightarrow> ('b, 'd) async_adapter" where
  "setLastError err a = (if err \<noteq> None then a\<lparr>aa_lastError := err\<rparr> else a)"

definition getLastError :: "('b, 'd) async_adapter \<Rightarrow> ('b, 'd) async_adapter \<times> string option" where
  "getLastError a = (a\<lparr>aa_lastError := None\<rparr>, aa_lastError a)"

fun write_batch ::
  "('b, 'd) base_adapter \<Rightarrow> nat list \<Rightarrow> string option \<Rightarrow> ('b, 'd) async_adapter \<Rightarrow> ('b, 'd) async_adapter \<times> string option" where
  "write_batch ops [] firstErr a = (a, firstErr)"
| "write_batch ops (c # cs) firstErr a =
     (let (a, firstErr) =
            (if firstErr = None
             then let (b, err) = ba_Write ops (aa_base a) (aa_store a ! c); a = a\<lparr>aa_base := b\<rparr>
                  in (setLastError err a, err)
             else (a, firstErr))
      in write_batch ops cs firstErr (releaseCopy c a))"

definition base_flush :: "('b, 'd) base_adapter \<Rightarrow> ('b, 'd) async_adapter \<Rightarrow> ('b, 'd) async_adapter" where
  "base_flush ops a = (let (b, err) = ba_Flush ops (aa_base a) in setLastError err (a\<lparr>aa_base := b\<rparr>))"

definition flushBatch ::
  "('b, 'd) base_adapter \<Rightarrow> nat list \<Rightarrow> ('b, 'd) async_adapter \<Rightarrow> ('b, 'd) async_adapter" where
  "flushBatch ops batch a =
     (if batch = [] then a
      else let (a, firstErr) = write_batch ops batch None a
           in if firstErr = None then base_flush ops a else a)"

definition drainInto :: "('b, 'd) async_adapter \<Rightarrow> ('b, 'd) async_adapter" where
  "drainInto a = a\<lparr>aa_batch := aa_batch a @ aa_buffer a, aa_buffer := []\<rparr>"

definition flush_all :: "('b, 'd) base_adapter \<Rightarrow> ('b, 'd) async_adapter \<Rightarrow> ('b, 'd) async_adapter" where
  "flush_all ops a = (flushBatch ops (aa_batch a) a)\<lparr>aa_batch := []\<rparr>"

text \<open>The four branches of \<open>backgroundWriter\<close>.\<close>

definition on_entry :: "('b, 'd) base_adapter \<Rightarrow> ('b, 'd) async_adapter \<Rightarrow> ('b, 'd) async_adapter" where
  "on_entry ops a =
     (case aa_buffer a of
        [] \<Rightarrow> a
      | c # cs \<Rightarrow>
          let a = a\<lparr>aa_buffer := cs, aa_batch := aa_batch a @ [c]\<rparr>
          in if int (length (aa_batch a)) \<ge> aa_batchSize a then flush_all ops a else a)"

definition on_flush_request :: "('b, 'd) base_adapter \<Rightarrow> ('b, 'd) async_adapter \<Rightarrow> ('b, 'd) async_adapter" where
  "on_flush_request ops a = base_flush ops (flush_all ops (drainInto a))"

definition on_tick :: "('b, 'd) base_adapter \<Rightarrow> ('b, 'd) async_adapter \<Rightarrow> ('b, 'd) async_adapter" where
  "on_tick ops a = (if aa_batch a \<noteq> [] then flush_all ops a else a)"

definition on_done :: "('b, 'd) base_adapter \<Rightarrow> ('b, 'd) async_adapter \<Rightarrow> ('b, 'd) async_adapter" where
  "on_done ops a =
     (let a = drainInto a; a = (if aa_batch a \<noteq> [] then flush_all ops a else a) in a\<lparr>aa_exited := True\<rparr>)"

section \<open>Flush and Close\<close>

text \<open>How the wait of \<open>Flush\<close> ends: acknowledged, by the shutdown, or after five seconds.\<close>

datatype flush_wait = Acked | Cancelled | TimedOut

definition flush_tail :: "('b, 'd) base_adapter \<Rightarrow> ('b, 'd) async_adapter \<Rightarrow> ('b, 'd) async_adapter \<times> async_error option" where
  "flush_tail ops a =
     (let (a, err) = getLastError a in
      if err \<noteq> None then (a, Some ErrAsyncWriteEntry)
      else let (b, err) = ba_Flush ops (aa_base a) in (a\<lparr>aa_base := b\<rparr>, map_option ErrBase err))"

definition aa_Flush ::
  "('b, 'd) base_adapter \<Rightarrow> flush_wait \<Rightarrow> ('b, 'd) async_adapter \<Rightarrow> ('b, 'd) async_adapter \<times> async_error option" where
  "aa_Flush ops wait a =
     (if aa_closing a then flush_tail ops a
      else case wait of
             Acked \<Rightarrow> flush_tail ops (on_flush_request ops a)
           | Cancelled \<Rightarrow> flush_tail ops a
           | TimedOut \<Rightarrow> (a, Some ErrAsyncWriteEntry))"

text \<open>\<open>Close\<close> up to the wait, and after it; \<open>False\<close>: another call was first.\<close>

definition close_begin :: "('b, 'd) async_adapter \<Rightarrow> ('b, 'd) async_adapter \<times> bool" where
  "close_begin a = (if aa_closing a then (a, False) else (a\<lparr>aa_closing := True, aa_done := True\<rparr>, True))"

definition close_end :: "('b, 'd) base_adapter \<Rightarrow> ('b, 'd) async_adapter \<Rightarrow> ('b, 'd) async_adapter \<times> async_error option" where
  "close_end ops a = (let (b, err) = ba_Close ops (aa_base a) in (a\<lparr>aa_base := b\<rparr>, map_option ErrBase err))"

definition aa_Health :: "('b \<Rightarrow> string option) \<Rightarrow> ('b, 'd) async_adapter \<Rightarrow> string option" where
  "aa_Health baseHealth a = (if aa_done a then Some ''async adapter is stopped'' else baseHealth (aa_base a))"

section \<open>Interleavings\<close>

text \<open>
  The steps of any number of callers and the writer; the label is the entry a successful \<open>Write\<close>
  accepted. The base adapter is closed once the writer has returned.
\<close>

inductive async_step ::
  "('b, 'd) base_adapter \<Rightarrow> ('b, 'd) async_adapter \<Rightarrow> 'd full_entry option \<Rightarrow> ('b, 'd) async_adapter \<Rightarrow> bool" for ops where
  accepted: "aa_Write pick (Some e) a = Some (a', None) \<Longrightarrow> async_step ops a (Some e) a'"
| refused: "aa_Write pick e a = Some (a', Some err) \<Longrightarrow> async_step ops a None a'"
| entry: "\<not> aa_exited a \<Longrightarrow> async_step ops a None (on_entry ops a)"
| request: "\<not> aa_exited a \<Longrightarrow> async_step ops a None (on_flush_request ops a)"
| tick: "\<not> aa_exited a \<Longrightarrow> async_step ops a None (on_tick ops a)"
| stop: "\<not> aa_exited a \<Longrightarrow> aa_done a \<Longrightarrow> async_step ops a None (on_done ops a)"
| flush_result: "flush_tail ops a = (a', r) \<Longrightarrow> async_step ops a None a'"
| begin_close: "close_begin a = (a', True) \<Longrightarrow> async_step ops a None a'"

inductive async_run ::
  "('b, 'd) base_adapter \<Rightarrow> ('b, 'd) async_adapter \<Rightarrow> 'd full_entry list \<Rightarrow> ('b, 'd) async_adapter \<Rightarrow> bool" for ops where
  start: "async_run ops a [] a"
| silent: "async_run ops a es b \<Longrightarrow> async_step ops b None c \<Longrightarrow> async_run ops a es c"
| accept: "async_run ops a es b \<Longrightarrow> async_step ops b (Some e) c \<Longrightarrow> async_run ops a (es @ [e]) c"

end
