(* ===== verification/Async_Delivery.thy ===== *)
theory Async_Delivery
  imports Async_Adapter
begin

text \<open>
  What the asynchronous adapter delivers. The locale \<open>async_base\<close> states what the wrapper needs of the
  adapter under it: while it is live, a write that reports no error adds one line to its log, which
  does not depend on what lies in the slices behind their length, and a flush adds none. Inside it
  the invariant of all interleavings is proved; the interpretation is the console adapter with the
  JSON formatter.
\<close>

section \<open>Copies\<close>

definition no_spare :: "'d full_entry \<Rightarrow> 'd full_entry" where
  "no_spare c = c\<lparr>le_StaticFieldsSpare := [], le_FieldsSpare := []\<rparr>"

text \<open>The parts no assignment of \<open>acquireCopy\<close> reaches are those of a new entry in every pooled copy.\<close>

definition rest_ok :: "'d full_entry \<Rightarrow> bool" where
  "rest_ok c \<longleftrightarrow> le_Caller c = GNil \<and> le_LocationLen c = 0 \<and> le_BaseName c = [] \<and> le_Context c = []
     \<and> le_StaticContext c = [] \<and> le_StaticContextCount c = 0 \<and> le_IndexedStore c = None \<and> \<not> le_UseIndexedStorage c
     \<and> le_ContextSpare c = [] \<and> le_StaticContextSpare c = [] \<and> \<not> le_hasFieldOverflow c \<and> \<not> le_hasContextOverflow c"

text \<open>The record the base adapter is to see for an accepted entry.\<close>

definition spec_copy :: "'d full_entry \<Rightarrow> 'd full_entry" where
  "spec_copy e = (let sf = take (nat (le_StaticFieldCount e)) (le_StaticFields e) in
     empty_entry\<lparr>le_Level := le_Level e, le_Message := le_Message e, le_Component := le_Component e,
       le_Timestamp := le_Timestamp e, le_TimestampUnix := le_TimestampUnix e, le_File := le_File e,
       le_Line := le_Line e, le_Error := le_Error e, le_ErrorMsg := le_ErrorMsg e,
       le_StaticFields := sf, le_StaticFieldCount := int (length sf), le_Fields := le_Fields e\<rparr>)"

lemma rest_ok_new: "rest_ok new_copy"
  by (simp add: rest_ok_def new_copy_def empty_entry_def)

lemma rest_ok_released: "rest_ok c \<Longrightarrow> rest_ok (released c)"
  by (simp add: rest_ok_def released_def)

lemma copy_entry_spec:
  assumes "copy_entry src c = Some c'" and "rest_ok c"
  shows "rest_ok c' \<and> no_spare c' = spec_copy src"
proof -
  let ?n = "if le_StaticFieldCount src > int (length (le_StaticFields src)) then int (length (le_StaticFields src)) else le_StaticFieldCount src"
  have t: "take (nat ?n) (le_StaticFields src) = take (nat (le_StaticFieldCount src)) (le_StaticFields src)" by simp
  have "\<not> ?n < 0"
    using assms(1) by (auto simp: copy_entry_def Let_def split: if_splits)
  then have c': "c' = c\<lparr>le_Level := le_Level src, le_Message := le_Message src, le_Component := le_Component src,
      le_Timestamp := le_Timestamp src, le_TimestampUnix := le_TimestampUnix src, le_File := le_File src,
      le_Line := le_Line src, le_Error := le_Error src, le_ErrorMsg := le_ErrorMsg src,
      le_StaticFields := take (nat (le_StaticFieldCount src)) (le_StaticFields src),
      le_StaticFieldsSpare := le_StaticFieldsSpare c', le_StaticFieldCount := int (length (take (nat (le_StaticFieldCount src)) (le_StaticFields src))),
      le_Fields := le_Fields src, le_FieldsSpare := le_FieldsSpare c'\<rparr>"
    using assms(1) unfolding copy_entry_def Let_def refill_def if_not_P [OF \<open>\<not> ?n < 0\<close>] t by auto
  show ?thesis using assms(2)
    by (subst (1 2) c') (cases c, simp add: rest_ok_def no_spare_def spec_copy_def empty_entry_def)
qed

lemma sync_Get_parts:
  assumes "sync_Get pick fresh xs = (ys, c)" and "distinct xs" and "fresh \<notin> set xs"
  shows "set ys \<subseteq> set xs \<and> distinct ys \<and> c \<notin> set ys \<and> (c = fresh \<or> c \<in> set xs)"
proof (cases "\<exists>i. pick = Some i \<and> i < length xs")
  case True
  then obtain i where i: "pick = Some i" "i < length xs" by blast
  with assms(1) have y: "ys = take i xs @ drop (Suc i) xs" and c: "c = xs ! i" by (simp_all add: sync_Get_def)
  have xs: "xs = take i xs @ c # drop (Suc i) xs" using i(2) c id_take_nth_drop by blast
  have "distinct (take i xs @ c # drop (Suc i) xs)" using assms(2) xs by simp
  moreover have "set xs = set (take i xs @ c # drop (Suc i) xs)" using xs by simp
  ultimately show ?thesis unfolding y by auto
next
  case False
  then have "ys = xs" "c = fresh" using assms(1) by (auto simp: sync_Get_def split: option.splits)
  then show ?thesis using assms(2,3) by simp
qed

section \<open>The base adapter's contract\<close>

locale async_base =
  fixes ops :: "('b, 'd) base_adapter"
    and live :: "'b \<Rightarrow> bool"
    and log :: "'b \<Rightarrow> 'l list"
    and line :: "'d full_entry \<Rightarrow> 'l"
    and lossless :: bool
  assumes base_writes: "live b \<Longrightarrow> ba_Write ops b e = (b', err) \<Longrightarrow>
      live b' \<and> log b' = log b @ (if err = None then [line e] else [])"
    and base_flushes: "live b \<Longrightarrow> ba_Flush ops b = (b', err) \<Longrightarrow> live b' \<and> log b' = log b"
    and reliable: "lossless \<Longrightarrow> live b \<Longrightarrow> snd (ba_Write ops b e) = None"
    and line_no_spare: "line (no_spare e) = line e"
begin

text \<open>\<open>delivered xs ys\<close>: what came out of what went in; everything, when the base never fails.\<close>

definition delivered :: "'l list \<Rightarrow> 'l list \<Rightarrow> bool" where
  "delivered xs ys \<longleftrightarrow> subseq xs ys \<and> (lossless \<longrightarrow> xs = ys)"

lemma delivered_refl [simp]: "delivered xs xs"
  by (simp add: delivered_def)

lemma delivered_middle: "delivered ws ys \<Longrightarrow> delivered (xs @ ys @ zs) ts \<Longrightarrow> delivered (xs @ ws @ zs) ts"
  unfolding delivered_def by (metis list_emb_append_mono subseq_order.order_refl subseq_order.order_trans)

lemma delivered_snoc: "delivered xs ys \<Longrightarrow> delivered (xs @ [z]) (ys @ [z])"
  by (auto simp: delivered_def intro: list_emb_append_mono)

definition lines :: "('b, 'd) async_adapter \<Rightarrow> nat list \<Rightarrow> 'l list" where
  "lines a cs = map (\<lambda>c. line (aa_store a ! c)) cs"

lemma lines_simps [simp]: "lines a [] = []" "lines a (xs @ ys) = lines a xs @ lines a ys"
  by (simp_all add: lines_def)

lemma lines_frame [simp]:
  "lines (a\<lparr>aa_batch := x\<rparr>) = lines a" "lines (a\<lparr>aa_buffer := x\<rparr>) = lines a" "lines (a\<lparr>aa_exited := e\<rparr>) = lines a"
  by (simp_all add: lines_def fun_eq_iff)

lemma lines_cong: "(\<And>c. c \<in> set cs \<Longrightarrow> aa_store a ! c = aa_store b ! c) \<Longrightarrow> lines a cs = lines b cs"
  by (simp add: lines_def)

lemma line_copy: "copy_entry src c = Some c' \<Longrightarrow> rest_ok c \<Longrightarrow> line c' = line (spec_copy src)"
  using copy_entry_spec line_no_spare by metis

section \<open>Writing a batch\<close>

text \<open>The frame of an operation of the writer that gives the pointers \<open>cs\<close> back.\<close>

definition writer_frame :: "nat list \<Rightarrow> ('b, 'd) async_adapter \<Rightarrow> ('b, 'd) async_adapter \<Rightarrow> bool" where
  "writer_frame cs a a' \<longleftrightarrow> aa_pool a' = aa_pool a @ cs \<and> length (aa_store a') = length (aa_store a)
     \<and> (\<forall>i. i \<notin> set cs \<longrightarrow> aa_store a' ! i = aa_store a ! i)
     \<and> aa_buffer a' = aa_buffer a \<and> aa_batch a' = aa_batch a \<and> aa_bufferSize a' = aa_bufferSize a
     \<and> aa_closing a' = aa_closing a \<and> aa_done a' = aa_done a \<and> aa_exited a' = aa_exited a"

definition store_ok :: "('b, 'd) async_adapter \<Rightarrow> bool" where
  "store_ok a \<longleftrightarrow> (\<forall>i < length (aa_store a). rest_ok (aa_store a ! i))"

lemma releaseCopy_frame:
  assumes "c < length (aa_store a)"
  shows "writer_frame [c] a (releaseCopy c a)" and "aa_base (releaseCopy c a) = aa_base a"
    and "store_ok a \<Longrightarrow> store_ok (releaseCopy c a)"
  using assms by (auto simp: writer_frame_def releaseCopy_def store_ok_def nth_list_update rest_ok_released)

lemma setLastError_frame [simp]:
  "aa_base (setLastError err a) = aa_base a" "aa_store (setLastError err a) = aa_store a"
  "aa_pool (setLastError err a) = aa_pool a" "aa_buffer (setLastError err a) = aa_buffer a"
  "aa_batch (setLastError err a) = aa_batch a" "aa_bufferSize (setLastError err a) = aa_bufferSize a"
  "aa_closing (setLastError err a) = aa_closing a" "aa_done (setLastError err a) = aa_done a"
  "aa_exited (setLastError err a) = aa_exited a"
  by (simp_all add: setLastError_def)

lemma writer_frame_trans: "writer_frame cs a b \<Longrightarrow> writer_frame ds b c \<Longrightarrow> writer_frame (cs @ ds) a c"
  by (simp add: writer_frame_def)

lemma write_batch_spec:
  assumes "live (aa_base a)" and "set cs \<subseteq> {..<length (aa_store a)}" and "distinct cs" and "store_ok a"
    and "write_batch ops cs fe a = (a', fe')"
  shows "writer_frame cs a a' \<and> live (aa_base a') \<and> store_ok a'
    \<and> (\<exists>ws. log (aa_base a') = log (aa_base a) @ ws \<and> subseq ws (lines a cs)
        \<and> (lossless \<and> fe = None \<longrightarrow> ws = lines a cs \<and> fe' = None))"
  using assms
proof (induction cs arbitrary: a fe)
  case Nil
  then show ?case by (auto simp: writer_frame_def)
next
  case (Cons c cs)
  obtain b err where w: "ba_Write ops (aa_base a) (aa_store a ! c) = (b, err)" by (metis surj_pair)
  define a1 where "a1 = (if fe = None then setLastError err (a\<lparr>aa_base := b\<rparr>) else a)"
  define fe1 where "fe1 = (if fe = None then err else fe)"
  let ?a2 = "releaseCopy c a1"
  have c: "c < length (aa_store a1)" and st: "aa_store a1 = aa_store a"
    using Cons.prems(2) by (auto simp: a1_def)
  obtain ws1 where ws1: "log (aa_base a1) = log (aa_base a) @ ws1" "subseq ws1 [line (aa_store a ! c)]" "live (aa_base a1)"
      "lossless \<and> fe = None \<longrightarrow> ws1 = [line (aa_store a ! c)] \<and> fe1 = None"
    using base_writes [OF Cons.prems(1) w] reliable [of "aa_base a" "aa_store a ! c"] w Cons.prems(1)
    by (cases "fe = None"; cases "err = None") (auto simp: a1_def fe1_def)
  have r: "writer_frame [c] a1 ?a2" "aa_base ?a2 = aa_base a1" "store_ok ?a2"
    using releaseCopy_frame [OF c] Cons.prems(4) by (simp_all add: store_ok_def st)
  have fr: "writer_frame [c] a ?a2" using r(1) by (auto simp: writer_frame_def a1_def)
  have run: "write_batch ops cs fe1 ?a2 = (a', fe')"
    using Cons.prems(5) by (cases fe) (simp_all add: w a1_def fe1_def)
  have "set cs \<subseteq> {..<length (aa_store ?a2)}" using Cons.prems(2) fr by (auto simp: writer_frame_def)
  from Cons.IH [OF _ this _ r(3) run] ws1(3) r(2) Cons.prems(3)
  obtain ws2 where ih: "writer_frame cs ?a2 a'" "live (aa_base a')" "store_ok a'"
      "log (aa_base a') = log (aa_base a1) @ ws2" "subseq ws2 (lines ?a2 cs)"
      "lossless \<and> fe1 = None \<longrightarrow> ws2 = lines ?a2 cs \<and> fe' = None" by auto
  have l: "lines ?a2 cs = lines a cs"
    using fr Cons.prems(3) unfolding lines_def writer_frame_def by (intro map_cong refl) auto
  have la: "lines a (c # cs) = [line (aa_store a ! c)] @ lines a cs" by (simp add: lines_def)
  have "log (aa_base a') = log (aa_base a) @ (ws1 @ ws2) \<and> subseq (ws1 @ ws2) (lines a (c # cs))
      \<and> (lossless \<and> fe = None \<longrightarrow> ws1 @ ws2 = lines a (c # cs) \<and> fe' = None)"
    using ws1 ih(4,6) list_emb_append_mono [OF ws1(2) ih(5) [unfolded l]] unfolding la l by simp
  moreover have "writer_frame (c # cs) a a'" using writer_frame_trans [OF fr ih(1)] by simp
  ultimately show ?case using ih(2,3) by blast
qed

lemma base_flush_spec:
  assumes "live (aa_base a)"
  shows "writer_frame [] a (base_flush ops a) \<and> live (aa_base (base_flush ops a)) \<and> aa_store (base_flush ops a) = aa_store a
    \<and> log (aa_base (base_flush ops a)) = log (aa_base a)"
  using base_flushes [OF assms, of "fst (ba_Flush ops (aa_base a))" "snd (ba_Flush ops (aa_base a))"]
  by (simp add: base_flush_def writer_frame_def split_beta)

lemma flushBatch_spec:
  assumes "live (aa_base a)" and "set cs \<subseteq> {..<length (aa_store a)}" and "distinct cs" and "store_ok a"
  shows "writer_frame cs a (flushBatch ops cs a) \<and> live (aa_base (flushBatch ops cs a)) \<and> store_ok (flushBatch ops cs a)
    \<and> (\<exists>ws. log (aa_base (flushBatch ops cs a)) = log (aa_base a) @ ws \<and> delivered ws (lines a cs))"
proof (cases "cs = []")
  case True
  then show ?thesis using assms by (auto simp: flushBatch_def writer_frame_def)
next
  case False
  obtain a' fe where r: "write_batch ops cs None a = (a', fe)" by (metis surj_pair)
  note s = write_batch_spec [OF assms r]
  have f: "writer_frame [] a' (base_flush ops a') \<and> live (aa_base (base_flush ops a')) \<and> store_ok (base_flush ops a')
      \<and> log (aa_base (base_flush ops a')) = log (aa_base a')"
    using s base_flush_spec [of a'] by (simp add: store_ok_def)
  have "flushBatch ops cs a = (if fe = None then base_flush ops a' else a')"
    using False by (simp add: flushBatch_def r)
  moreover have "writer_frame cs a (base_flush ops a')"
    using s f writer_frame_trans [of cs a a' "[]" "base_flush ops a'"] by simp
  ultimately show ?thesis using s f by (auto simp: delivered_def)
qed

section \<open>The invariant of all interleavings\<close>

definition pending :: "('b, 'd) async_adapter \<Rightarrow> nat list" where
  "pending a = aa_batch a @ aa_buffer a"

text \<open>
  No pointer is in two places; what the base has logged and what is still pending is what was accepted;
  the buffer is bounded; after the writer has returned nothing is pending and nothing is accepted.
\<close>

definition async_ok :: "'l list \<Rightarrow> 'd full_entry list \<Rightarrow> ('b, 'd) async_adapter \<Rightarrow> bool" where
  "async_ok l0 acc a \<longleftrightarrow> distinct (aa_pool a @ pending a) \<and> set (aa_pool a @ pending a) \<subseteq> {..<length (aa_store a)}
     \<and> store_ok a \<and> live (aa_base a) \<and> length (aa_buffer a) \<le> aa_bufferSize a
     \<and> delivered (log (aa_base a) @ lines a (pending a)) (l0 @ map (\<lambda>e. line (spec_copy e)) acc)
     \<and> (aa_done a \<longrightarrow> aa_closing a) \<and> (aa_exited a \<longrightarrow> aa_done a \<and> pending a = [])"

lemma flush_all_ok:
  assumes "async_ok l0 acc a"
  shows "async_ok l0 acc (flush_all ops a) \<and> aa_batch (flush_all ops a) = [] \<and> aa_buffer (flush_all ops a) = aa_buffer a
    \<and> aa_exited (flush_all ops a) = aa_exited a \<and> aa_done (flush_all ops a) = aa_done a"
proof -
  let ?f = "flushBatch ops (aa_batch a) a"
  note ok = assms [unfolded async_ok_def pending_def]
  have fr: "writer_frame (aa_batch a) a ?f" "live (aa_base ?f)" "store_ok ?f"
    and "\<exists>ws. log (aa_base ?f) = log (aa_base a) @ ws \<and> delivered ws (lines a (aa_batch a))"
    using flushBatch_spec [of a "aa_batch a"] ok by auto
  then obtain ws where ws: "log (aa_base ?f) = log (aa_base a) @ ws" "delivered ws (lines a (aa_batch a))" by blast
  have l: "lines ?f (aa_buffer a) = lines a (aa_buffer a)"
    using fr(1) ok unfolding lines_def writer_frame_def by (intro map_cong refl) auto
  have "delivered (log (aa_base a) @ ws @ lines a (aa_buffer a)) (l0 @ map (\<lambda>e. line (spec_copy e)) acc)"
    using delivered_middle [OF ws(2), of "log (aa_base a)" "lines a (aa_buffer a)"] ok by simp
  then show ?thesis
    using fr ok ws(1) l by (auto simp: async_ok_def pending_def flush_all_def writer_frame_def store_ok_def)
qed

lemma drainInto_ok:
  "async_ok l0 acc a \<Longrightarrow> async_ok l0 acc (drainInto a) \<and> aa_buffer (drainInto a) = []"
  by (simp add: async_ok_def drainInto_def pending_def lines_def store_ok_def)

lemma base_flush_ok: "async_ok l0 acc a \<Longrightarrow> async_ok l0 acc (base_flush ops a)"
  using base_flush_spec [of a] by (auto simp: async_ok_def writer_frame_def pending_def lines_def store_ok_def)

lemma on_entry_ok: "async_ok l0 acc a \<Longrightarrow> async_ok l0 acc (on_entry ops a)"
proof (cases "aa_buffer a")
  case (Cons c cs)
  assume ok: "async_ok l0 acc a"
  let ?a = "a\<lparr>aa_buffer := cs, aa_batch := aa_batch a @ [c]\<rparr>"
  have "async_ok l0 acc ?a" using ok Cons by (auto simp: async_ok_def pending_def lines_def store_ok_def)
  then show ?thesis using flush_all_ok [of l0 acc ?a] Cons by (simp add: on_entry_def Let_def)
qed (simp add: on_entry_def)

lemma on_flush_request_ok: "async_ok l0 acc a \<Longrightarrow> async_ok l0 acc (on_flush_request ops a)"
  by (simp add: on_flush_request_def base_flush_ok flush_all_ok drainInto_ok)

lemma on_tick_ok: "async_ok l0 acc a \<Longrightarrow> async_ok l0 acc (on_tick ops a)"
  by (simp add: on_tick_def flush_all_ok)

lemma on_done_ok:
  assumes "async_ok l0 acc a" and "aa_done a" and "\<not> aa_exited a"
  shows "async_ok l0 acc (on_done ops a)"
proof -
  let ?b = "if aa_batch (drainInto a) \<noteq> [] then flush_all ops (drainInto a) else drainInto a"
  have d: "async_ok l0 acc (drainInto a)" "aa_buffer (drainInto a) = []" "aa_done (drainInto a)" "\<not> aa_exited (drainInto a)"
    using drainInto_ok [OF assms(1)] assms(2,3) by (simp_all add: drainInto_def)
  have "async_ok l0 acc ?b \<and> pending ?b = [] \<and> aa_done ?b"
    using flush_all_ok [OF d(1)] d by (auto simp: pending_def)
  then have "async_ok l0 acc (?b\<lparr>aa_exited := True\<rparr>)"
    by (auto simp: async_ok_def pending_def lines_def store_ok_def)
  then show ?thesis by (simp add: on_done_def Let_def)
qed

text \<open>An acquired copy: the store grew or a pooled pointer left the pool.\<close>

lemma acquireCopy_spec:
  assumes "async_ok l0 acc a" and "acquireCopy pick e a = Some (a', c)"
  shows "c \<notin> set (pending a) \<and> c \<notin> set (aa_pool a') \<and> c < length (aa_store a') \<and> distinct (aa_pool a') \<and> set (aa_pool a') \<subseteq> set (aa_pool a)
    \<and> store_ok a' \<and> line (aa_store a' ! c) = line (spec_copy e) \<and> (\<forall>i \<in> set (pending a). aa_store a' ! i = aa_store a ! i)
    \<and> length (aa_store a) \<le> length (aa_store a') \<and> a' = a\<lparr>aa_pool := aa_pool a', aa_store := aa_store a'\<rparr>"
proof -
  note ok = assms(1) [unfolded async_ok_def]
  obtain free c0 where g: "sync_Get pick (length (aa_store a)) (aa_pool a) = (free, c0)" by (metis surj_pair)
  let ?st = "if c0 = length (aa_store a) then aa_store a @ [new_copy] else aa_store a"
  obtain x where x: "copy_entry e (?st ! c0) = Some x" "a' = a\<lparr>aa_pool := free, aa_store := ?st[c0 := x]\<rparr>" "c = c0"
    using assms(2) g by (auto simp: acquireCopy_def Let_def)
  have d: "distinct (aa_pool a)" and pd: "set (aa_pool a) \<inter> set (pending a) = {}"
    and lt: "\<forall>i \<in> set (aa_pool a). i < length (aa_store a)" "\<forall>i \<in> set (pending a). i < length (aa_store a)"
    using ok by (auto simp: subset_iff)
  have "length (aa_store a) \<notin> set (aa_pool a)" using lt(1) by auto
  then have f: "set free \<subseteq> set (aa_pool a)" "distinct free" "c0 \<notin> set free"
    and c0: "c0 = length (aa_store a) \<or> c0 \<in> set (aa_pool a)"
    using sync_Get_parts [OF g d] by blast+
  have cl: "c0 < length ?st" and np: "c0 \<notin> set (pending a)" using c0 lt pd by auto
  have ro: "\<forall>i < length ?st. rest_ok (?st ! i)" using ok rest_ok_new by (auto simp: store_ok_def nth_append)
  then have x': "rest_ok x" "line x = line (spec_copy e)"
    using copy_entry_spec [OF x(1)] line_copy [OF x(1)] cl by auto
  have "rest_ok (?st[c0 := x] ! i)" if "i < length ?st" for i
    using ro x'(1) that by (cases "i = c0") (auto simp del: nth_append split del: if_split)
  then have "store_ok a'" by (auto simp: store_ok_def x(2))
  moreover have "\<forall>i \<in> set (pending a). aa_store a' ! i = aa_store a ! i"
  proof
    fix i assume "i \<in> set (pending a)"
    then have "c0 \<noteq> i" "i < length (aa_store a)" using np lt(2) by auto
    then show "aa_store a' ! i = aa_store a ! i" by (simp add: x(2) nth_append)
  qed
  ultimately show ?thesis using f np cl x' x by (auto simp: nth_list_update)
qed

lemma aa_Write_ok:
  assumes "async_ok l0 acc a" and "aa_Write pick e a = Some (a', r)"
  shows "async_ok l0 (if r = None then acc @ [the e] else acc) a'"
proof (cases "e = None \<or> aa_closing a")
  case True
  then show ?thesis using assms by (auto simp: aa_Write_def split: option.splits)
next
  case False
  then obtain x where e: "e = Some x" and "\<not> aa_closing a" by auto
  obtain a1 c where a1: "acquireCopy pick x a = Some (a1, c)"
    using assms(2) e False by (auto simp: aa_Write_def bind_eq_Some_conv)
  note s = acquireCopy_spec [OF assms(1) a1]
  have fr: "aa_batch a1 = aa_batch a" "aa_buffer a1 = aa_buffer a" "aa_bufferSize a1 = aa_bufferSize a" "aa_base a1 = aa_base a"
    "aa_closing a1 = aa_closing a" "aa_done a1 = aa_done a" "aa_exited a1 = aa_exited a"
    using s by (metis async_adapter.select_convs async_adapter.surjective async_adapter.update_convs(2,3))+
  note ok = assms(1) [unfolded async_ok_def]
  have pend: "pending a1 = pending a" by (simp add: pending_def fr)
  have l: "lines a1 (pending a) = lines a (pending a)" using s by (simp add: lines_def)
  have base: "distinct (aa_pool a1 @ pending a)" "set (aa_pool a1 @ pending a) \<subseteq> {..<length (aa_store a1)}"
    using s ok by (auto simp: subset_iff intro: less_le_trans)
  show ?thesis
  proof (cases "length (aa_buffer a) < aa_bufferSize a")
    case True
    then have a': "a' = a1\<lparr>aa_buffer := aa_buffer a1 @ [c]\<rparr>" "r = None"
      using assms(2) a1 e False by (simp_all add: aa_Write_def fr)
    have "delivered ((log (aa_base a) @ lines a (pending a)) @ [line (spec_copy x)]) ((l0 @ map (\<lambda>e. line (spec_copy e)) acc) @ [line (spec_copy x)])"
      using ok by (intro delivered_snoc) simp
    then have dl: "delivered (log (aa_base a1) @ lines a1 (pending a) @ [line (aa_store a1 ! c)]) (l0 @ map (\<lambda>e. line (spec_copy e)) (acc @ [x]))"
      using l s by (simp add: fr)
    have p': "pending a' = pending a @ [c]" by (simp add: pending_def a' fr)
    have "lines a' (pending a') = lines a1 (pending a) @ [line (aa_store a1 ! c)]" unfolding p' by (simp add: lines_def a')
    then show ?thesis
      using dl base s ok True False unfolding async_ok_def p' by (auto simp: a' e fr store_ok_def)
  next
    case full: False
    then have a': "a' = releaseCopy c a1" "r \<noteq> None"
      using assms(2) a1 e False by (auto simp: aa_Write_def fr)
    note rf = releaseCopy_frame [of c a1]
    have w: "writer_frame [c] a1 a'" "aa_base a' = aa_base a" "store_ok a'" using rf s by (simp_all add: a' fr)
    have p': "pending a' = pending a" using w(1) by (simp add: writer_frame_def pending_def fr)
    have "lines a' (pending a) = lines a (pending a)"
      using l w(1) s unfolding lines_def writer_frame_def by auto
    then show ?thesis
      using w base s ok a'(2) fr unfolding async_ok_def p' by (auto simp: writer_frame_def)
  qed
qed

lemma flush_tail_ok:
  assumes "async_ok l0 acc a" and "flush_tail ops a = (a', r)"
  shows "async_ok l0 acc a'"
proof -
  have frame: "async_ok l0 acc (a\<lparr>aa_lastError := x\<rparr>)" for x
    using assms(1) by (simp add: async_ok_def pending_def lines_def store_ok_def)
  have base: "async_ok l0 acc (c\<lparr>aa_base := fst (ba_Flush ops (aa_base c))\<rparr>)" if "async_ok l0 acc c" for c
    using that base_flushes [of "aa_base c" "fst (ba_Flush ops (aa_base c))" "snd (ba_Flush ops (aa_base c))"]
    by (simp add: async_ok_def pending_def lines_def store_ok_def)
  show ?thesis
    using assms(2) frame [of None] base [OF frame [of None]]
    by (auto simp: flush_tail_def getLastError_def split_beta split: if_splits)
qed

lemma async_step_ok:
  assumes "async_step ops a r a'" and "async_ok l0 acc a"
  shows "async_ok l0 (acc @ (case r of None \<Rightarrow> [] | Some e \<Rightarrow> [e])) a'"
  using assms
proof (cases rule: async_step.cases)
  case (accepted pick e)
  then show ?thesis using aa_Write_ok [OF assms(2) accepted(2)] by simp
next
  case (refused pick e err)
  then show ?thesis using aa_Write_ok [OF assms(2) refused(2)] by simp
next
  case begin_close
  then show ?thesis using assms(2)
    by (auto simp: close_begin_def async_ok_def pending_def lines_def store_ok_def split: if_splits)
qed (simp_all add: on_entry_ok on_flush_request_ok on_tick_ok on_done_ok flush_tail_ok)

lemma async_run_ok:
  "async_run ops a es b \<Longrightarrow> async_ok l0 [] a \<Longrightarrow> async_ok l0 es b"
proof (induction rule: async_run.induct)
  case (silent a es b c)
  then show ?case using async_step_ok [OF silent(2), of l0 es] by simp
next
  case (accept a es b e c)
  then show ?case using async_step_ok [OF accept(2), of l0 es] by simp
qed

lemma New_ok: "live b \<Longrightarrow> async_ok (log b) [] (NewAsyncAdapter b options)"
  by (simp add: async_ok_def NewAsyncAdapter_def pending_def store_ok_def Let_def)

end

section \<open>The console under the wrapper\<close>

definition json_console :: "(int \<Rightarrow> int) \<Rightarrow> time_precision \<Rightarrow> 'd formatter" where
  "json_console tz p = \<lparr>fm_Format = (\<lambda>e dst. snd (Format tz p empty_cache (Some (log_entry.truncate e)) dst)), fm_isDirect = True\<rparr>"

definition console_ops :: "writer \<Rightarrow> ('d console, 'd) base_adapter" where
  "console_ops wr = \<lparr>ba_Write = (\<lambda>b e. co_Write wr (Some e) b), ba_Flush = co_Flush wr, ba_Close = co_Close\<rparr>"

definition json_console_line :: "(int \<Rightarrow> int) \<Rightarrow> time_precision \<Rightarrow> 'd full_entry \<Rightarrow> bytes" where
  "json_console_line tz p e = with_newline (fm_Format (json_console tz p) e [])"

definition json_console_open :: "(int \<Rightarrow> int) \<Rightarrow> time_precision \<Rightarrow> 'd console \<Rightarrow> bool" where
  "json_console_open tz p b \<longleftrightarrow> \<not> co_closed b \<and> co_formatter b = json_console tz p"

interpretation console: async_base "console_ops wr" "json_console_open tz p" co_out "json_console_line tz p" "wr_err wr = Map.empty"
  for wr tz p
proof
  show "json_console_open tz p b' \<and> co_out b' = co_out b @ (if err = None then [json_console_line tz p e] else [])"
    if "json_console_open tz p b" "ba_Write (console_ops wr) b e = (b', err)" for b e b' err
    using that by (cases "wr_err wr (with_newline (fm_Format (json_console tz p) e []))")
      (auto simp: json_console_open_def console_ops_def co_Write_def writer_Write_def json_console_line_def Let_def
        dest!: sym [of "Some x" for x])
  show "json_console_open tz p b' \<and> co_out b' = co_out b"
    if "json_console_open tz p b" "ba_Flush (console_ops wr) b = (b', err)" for b b' err
    using that by (auto simp: json_console_open_def console_ops_def co_Flush_def split: if_splits)
  show "snd (ba_Write (console_ops wr) b e) = None" if "wr_err wr = Map.empty" "json_console_open tz p b" for b e
    using that by (simp add: json_console_open_def console_ops_def co_Write_def writer_Write_def Let_def)
  show "json_console_line tz p (no_spare e) = json_console_line tz p e" for e
    by (cases e) (simp add: json_console_line_def json_console_def no_spare_def log_entry.truncate_def)
qed

lemma take_min: "take (min (length xs) k) xs = take k xs"
  by (simp add: min_def)

lemma take_min_length: "take (nat (min n (int (length xs)))) xs = take (nat n) xs"
  by (cases "n \<le> int (length xs)") auto

text \<open>The line of a copy is the line of the entry it was made from.\<close>

lemma spec_copy_line: "json_console_line tz p (spec_copy e) = json_console_line tz p e"
proof -
  let ?t = log_entry.truncate
  have "emitted_fields (?t (spec_copy e)) = emitted_fields (?t e)"
    using take_min_length [of "le_StaticFieldCount e" "le_StaticFields e"]
    by (simp add: emitted_fields_def log_entry.truncate_def spec_copy_def Let_def empty_entry_def take_min)
  then have "Format tz p empty_cache (Some (?t (spec_copy e))) [] = Format tz p empty_cache (Some (?t e)) []"
    by (rule Format_cong)
      (simp_all add: log_entry.truncate_def spec_copy_def Let_def empty_entry_def entryUnixNanos_def)
  then show ?thesis by (simp add: json_console_line_def json_console_def)
qed

text \<open>
  C33: The asynchronous adapter over a console: whatever the interleaving of callers, flushes, ticks and
  \<open>Close\<close>, the destination has received lines of accepted entries only, in the order of acceptance and
  none twice, although the copies are reused; when the destination never fails, what it has received
  and what is still pending is exactly what was accepted, and once the writer has returned after
  \<open>Close\<close> nothing is pending.
\<close>

theorem async_console_delivers:
  assumes "async_run (console_ops wr) (NewAsyncAdapter b options) acc a" and "json_console_open tz p b"
  shows "subseq (co_out (aa_base a)) (co_out b @ map (json_console_line tz p) acc)
    \<and> (wr_err wr = Map.empty \<longrightarrow>
        co_out (aa_base a) @ map (\<lambda>c. json_console_line tz p (aa_store a ! c)) (aa_batch a @ aa_buffer a)
          = co_out b @ map (json_console_line tz p) acc)
    \<and> (wr_err wr = Map.empty \<and> aa_exited a \<longrightarrow> co_out (aa_base a) = co_out b @ map (json_console_line tz p) acc)"
proof -
  have ok: "console.async_ok tz p wr (co_out b) acc a"
    by (rule console.async_run_ok [OF assms(1) console.New_ok [OF assms(2)]])
  have d: "subseq (co_out (aa_base a) @ map (\<lambda>c. json_console_line tz p (aa_store a ! c)) (aa_batch a @ aa_buffer a))
      (co_out b @ map (json_console_line tz p) acc)"
    and e: "wr_err wr = Map.empty \<Longrightarrow> co_out (aa_base a) @ map (\<lambda>c. json_console_line tz p (aa_store a ! c)) (aa_batch a @ aa_buffer a)
      = co_out b @ map (json_console_line tz p) acc"
    and x: "aa_exited a \<Longrightarrow> aa_batch a @ aa_buffer a = []"
    using ok [unfolded console.async_ok_def console.delivered_def console.lines_def console.pending_def spec_copy_line]
    by blast+
  have "subseq (co_out (aa_base a)) (co_out (aa_base a) @ map (\<lambda>c. json_console_line tz p (aa_store a ! c)) (aa_batch a @ aa_buffer a))"
    using list_emb_append_mono [of "(=)" "co_out (aa_base a)" "co_out (aa_base a)" "[]"] by simp
  from subseq_order.order_trans [OF this d] show ?thesis using e x by auto
qed

definition demo_console :: "unit console" where
  "demo_console = NewWithWriter (json_console (\<lambda>_. 0) PrecisionNano) None"

definition demo_writer :: writer where
  "demo_writer = \<lparr>wr_err = Map.empty, wr_canFlush = False, wr_flushErr = None\<rparr>"

definition demo_line :: "unit full_entry" where
  "demo_line = AddField ''user'' (GString ''bob'') (empty_entry\<lparr>le_TimestampUnix := 1, le_Level := InfoLevel, le_Message := ''hello''\<rparr>)"

definition demo_async :: "(unit console, unit) async_adapter" where
  "demo_async = fst (the (aa_Write None (Some demo_line) (NewAsyncAdapter demo_console None)))"

lemma demo_accepts: "aa_Write None (Some demo_line) (NewAsyncAdapter demo_console None) = Some (demo_async, None)"
  by (simp add: demo_async_def aa_Write_def acquireCopy_def sync_Get_def NewAsyncAdapter_def copy_entry_def demo_line_def
      refill_def empty_entry_def new_copy_def AddField_def slice_append_def Let_def)

theorem async_console_delivers_witness:
  "co_out (aa_base (on_done (console_ops demo_writer) (fst (close_begin demo_async))))
     = co_out demo_console @ map (json_console_line (\<lambda>_. 0) PrecisionNano) [demo_line]"
proof -
  let ?ops = "console_ops demo_writer :: (unit console, unit) base_adapter"
  have 1: "async_run ?ops (NewAsyncAdapter demo_console None) ([] @ [demo_line]) demo_async"
    by (rule async_run.accept [OF async_run.start async_step.accepted [OF demo_accepts]])
  have f: "\<not> aa_closing demo_async" "\<not> aa_exited demo_async"
    by (simp_all add: demo_async_def aa_Write_def acquireCopy_def sync_Get_def NewAsyncAdapter_def copy_entry_def demo_line_def
      refill_def empty_entry_def new_copy_def AddField_def slice_append_def Let_def)
  then have "async_step ?ops demo_async None (fst (close_begin demo_async))"
    by (intro async_step.begin_close) (simp add: close_begin_def)
  from async_run.silent [OF 1 this]
  have 2: "async_run ?ops (NewAsyncAdapter demo_console None) [demo_line] (fst (close_begin demo_async))" by simp
  have "async_step ?ops (fst (close_begin demo_async)) None (on_done ?ops (fst (close_begin demo_async)))"
    using f by (intro async_step.stop) (simp_all add: close_begin_def)
  from async_run.silent [OF 2 this]
  have 3: "async_run ?ops (NewAsyncAdapter demo_console None) [demo_line] (on_done ?ops (fst (close_begin demo_async)))" .
  have o: "json_console_open (\<lambda>_. 0) PrecisionNano demo_console"
    by (simp add: json_console_open_def demo_console_def NewWithWriter_def)
  have "aa_exited (on_done ?ops (fst (close_begin demo_async)))" by (simp add: on_done_def Let_def)
  then show ?thesis using async_console_delivers [OF 3 o] by (simp add: demo_writer_def)
qed

section \<open>Failures\<close>

lemma write_batch_after_error:
  "write_batch ops cs (Some err) a = (a', r) \<Longrightarrow> aa_base a' = aa_base a \<and> r = Some err \<and> aa_lastError a' = aa_lastError a
     \<and> aa_pool a' = aa_pool a @ cs"
proof (induction cs arbitrary: a)
  case (Cons c cs)
  then show ?case using Cons.IH [of "releaseCopy c a"] by (simp add: releaseCopy_def)
qed simp

text \<open>
  A batch stops at the first failing write: the entries after it are never handed to the base
  adapter, yet all copies go back to the pool, and all the callers were told their entry was accepted;
  only the last error is kept.
\<close>

theorem failed_write_drops_rest:
  assumes "ba_Write ops (aa_base a) (aa_store a ! c) = (b, Some err)"
  shows "aa_base (flushBatch ops (c # cs) a) = b \<and> aa_lastError (flushBatch ops (c # cs) a) = Some err
    \<and> aa_pool (flushBatch ops (c # cs) a) = aa_pool a @ c # cs"
proof -
  let ?a = "releaseCopy c (setLastError (Some err) (a\<lparr>aa_base := b\<rparr>))"
  obtain a' r where w: "write_batch ops cs (Some err) ?a = (a', r)" by (metis surj_pair)
  have "flushBatch ops (c # cs) a = a'"
    using write_batch_after_error [OF w] assms w by (simp add: flushBatch_def)
  then show ?thesis using write_batch_after_error [OF w] by (simp add: releaseCopy_def setLastError_def)
qed

definition full_disk :: writer where
  "full_disk = demo_writer\<lparr>wr_err := (\<lambda>_. Some ''disk full'')\<rparr>"

theorem failed_write_drops_rest_witness:
  "aa_base (flushBatch (console_ops full_disk) [0, 1, 2] demo_async) = demo_console"
proof -
  have b: "aa_base demo_async = demo_console"
    by (simp add: demo_async_def aa_Write_def acquireCopy_def sync_Get_def NewAsyncAdapter_def copy_entry_def demo_line_def
      refill_def empty_entry_def new_copy_def AddField_def slice_append_def Let_def)
  have "ba_Write (console_ops full_disk) (aa_base demo_async) (aa_store demo_async ! 0) = (demo_console, Some ''disk full'')"
    by (simp add: b console_ops_def co_Write_def writer_Write_def full_disk_def demo_writer_def demo_console_def NewWithWriter_def Let_def)
  from failed_write_drops_rest [OF this] show ?thesis by simp
qed

text \<open>A wrapped adapter never sees the context fields or the indexed fields of an entry.\<close>

lemma wrapped_entry_without_context:
  "copy_entry src c = Some c' \<Longrightarrow> rest_ok c \<Longrightarrow> le_Context c' = [] \<and> le_IndexedStore c' = None \<and> le_Caller c' = GNil"
  using copy_entry_spec by (fastforce simp: rest_ok_def)

text \<open>After \<open>Close\<close> every \<open>Write\<close> is refused and changes nothing.\<close>

lemma write_after_Close: "aa_closing a \<Longrightarrow> aa_Write pick (Some e) a = Some (a, Some ErrAsyncClosed)"
  by (simp add: aa_Write_def)

text \<open>A full buffer refuses the entry at once and gives the copy back to the pool.\<close>

lemma write_when_full:
  assumes "\<not> aa_closing a" and "aa_bufferSize a \<le> length (aa_buffer a)" and "aa_Write pick (Some e) a = Some (a', r)"
  shows "r = Some ErrAsyncBufferFull \<and> aa_buffer a' = aa_buffer a"
  using assms by (auto simp: aa_Write_def bind_eq_Some_conv acquireCopy_def releaseCopy_def Let_def split_beta split: if_splits)

end
