(* ===== verification/Retry.thy ===== *)
theory Retry
  imports Complex_Main Sensitive_Registry
begin

text \<open>
  Retrying a write (\<^verbatim>\<open>middleware/retry.go\<close>). The function that is retried takes and returns a state;
  durations are nanoseconds; the multiplier and the delay ceiling are reals, so the rounding of
  floating-point arithmetic is not modelled; \<open>rnd n i\<close> is the \<open>i\<close>-th random number below \<open>n\<close>, and
  asking for one below a bound that is not positive panics (\<open>None\<close>). Error texts are lowered as
  ASCII.
\<close>

section \<open>Configuration\<close>

record retry_config =
  rc_maxRetries :: int
  rc_baseDelay :: int
  rc_maxDelay :: int
  rc_multiplier :: real

definition NewRetryConfig :: "int \<Rightarrow> retry_config" where
  "NewRetryConfig maxRetries = \<lparr>rc_maxRetries = maxRetries, rc_baseDelay = 100 * 1000000,
     rc_maxDelay = 30 * 1000000000, rc_multiplier = 2\<rparr>"

definition WithBaseDelay :: "int \<Rightarrow> retry_config \<Rightarrow> retry_config" where
  "WithBaseDelay delay d = (if delay > 0 then d\<lparr>rc_baseDelay := delay\<rparr> else d)"

definition WithMaxDelay :: "int \<Rightarrow> retry_config \<Rightarrow> retry_config" where
  "WithMaxDelay delay d = (if delay > 0 then d\<lparr>rc_maxDelay := delay\<rparr> else d)"

definition WithMultiplier :: "real \<Rightarrow> retry_config \<Rightarrow> retry_config" where
  "WithMultiplier multiplier d = (if multiplier > 1 then d\<lparr>rc_multiplier := multiplier\<rparr> else d)"

section \<open>The loop\<close>

definition nonRetryablePatterns :: "string list" where
  "nonRetryablePatterns = [''validation'', ''invalid'', ''malformed'', ''authentication'', ''authorization'', ''permission'']"

definition shouldRetry :: "string option \<Rightarrow> bool" where
  "shouldRetry err = (case err of
       None \<Rightarrow> False
     | Some e \<Rightarrow> let errStrLower = ToLower e in \<not> list_ex (\<lambda>pattern. Contains errStrLower pattern) nonRetryablePatterns)"

definition calculateBackoff :: "(int \<Rightarrow> nat \<Rightarrow> int) \<Rightarrow> retry_config \<Rightarrow> nat \<Rightarrow> int option" where
  "calculateBackoff rnd d attempt =
     (let delayCeiling = real_of_int (rc_baseDelay d) * rc_multiplier d ^ attempt;
          delayCeiling = (if delayCeiling > real_of_int (rc_maxDelay d) then real_of_int (rc_maxDelay d) else delayCeiling);
          maxJitterNs = \<lfloor>delayCeiling\<rfloor>
      in if maxJitterNs \<le> 0 then None else Some (rnd maxJitterNs attempt))"

text \<open>The result with the delays slept before each further attempt.\<close>

function retry_loop ::
  "(int \<Rightarrow> nat \<Rightarrow> int) \<Rightarrow> retry_config \<Rightarrow> ('s \<Rightarrow> 's \<times> string option) \<Rightarrow> nat \<Rightarrow> string option \<Rightarrow> 's \<Rightarrow>
   ('s \<times> string option \<times> int list) option" where
  "retry_loop rnd d writeFunc attempt lastErr s =
     (if int attempt \<le> rc_maxRetries d then
        (case writeFunc s of
           (s, None) \<Rightarrow> Some (s, None, [])
         | (s, Some err) \<Rightarrow>
             if int attempt \<ge> rc_maxRetries d \<or> \<not> shouldRetry (Some err) then Some (s, Some err, [])
             else (case calculateBackoff rnd d attempt of
                     None \<Rightarrow> None
                   | Some delay \<Rightarrow> map_option (\<lambda>(s, r, ds). (s, r, delay # ds))
                       (retry_loop rnd d writeFunc (Suc attempt) (Some err) s)))
      else Some (s, lastErr, []))"
  by pat_completeness auto
termination
  by (relation "measure (\<lambda>(rnd, d, f, attempt, e, s). nat (rc_maxRetries d + 1 - int attempt))") auto

declare retry_loop.simps [simp del]

definition RetryWrite ::
  "(int \<Rightarrow> nat \<Rightarrow> int) \<Rightarrow> retry_config \<Rightarrow> ('s \<Rightarrow> 's \<times> string option) \<Rightarrow> 's \<Rightarrow> ('s \<times> string option \<times> int list) option" where
  "RetryWrite rnd d writeFunc s = retry_loop rnd d writeFunc 0 None s"

section \<open>The configuration is well-formed\<close>

definition retry_ok :: "retry_config \<Rightarrow> bool" where
  "retry_ok d \<longleftrightarrow> 0 < rc_baseDelay d \<and> 0 < rc_maxDelay d \<and> 1 < rc_multiplier d"

datatype retry_option = RBase int | RMax int | RMult real

fun retry_set :: "retry_option \<Rightarrow> retry_config \<Rightarrow> retry_config" where
  "retry_set (RBase x) d = WithBaseDelay x d"
| "retry_set (RMax x) d = WithMaxDelay x d"
| "retry_set (RMult x) d = WithMultiplier x d"

lemma retry_ok_set [halo_inv]: "retry_ok d \<Longrightarrow> retry_ok (retry_set opt d)"
  by (cases opt) (simp_all add: retry_ok_def WithBaseDelay_def WithMaxDelay_def WithMultiplier_def)

lemma retry_set_maxRetries: "rc_maxRetries (retry_set opt d) = rc_maxRetries d"
  by (cases opt) (simp_all add: WithBaseDelay_def WithMaxDelay_def WithMultiplier_def)

lemma retry_ok_options: "retry_ok (foldl (\<lambda>d opt. retry_set opt d) (NewRetryConfig n) opts)"
  by (rule foldl_invariant) (simp_all add: retry_ok_set, simp add: retry_ok_def NewRetryConfig_def)

lemma options_maxRetries: "rc_maxRetries (foldl (\<lambda>d opt. retry_set opt d) (NewRetryConfig n) opts) = n"
  by (rule foldl_invariant) (simp_all add: retry_set_maxRetries, simp add: NewRetryConfig_def)

section \<open>Delays\<close>

text \<open>The documented ceiling of the delay after an attempt.\<close>

definition delay_ceiling :: "retry_config \<Rightarrow> nat \<Rightarrow> int" where
  "delay_ceiling d attempt = min \<lfloor>real_of_int (rc_baseDelay d) * rc_multiplier d ^ attempt\<rfloor> (rc_maxDelay d)"

lemma floor_if_min: "\<lfloor>if x > real_of_int m then real_of_int m else x\<rfloor> = min \<lfloor>x\<rfloor> m"
  by (auto simp: min_def floor_le_iff le_floor_iff not_less intro: floor_unique [symmetric])

lemma delay_ceiling_pos:
  assumes "retry_ok d"
  shows "0 < delay_ceiling d attempt"
proof -
  have "1 \<le> rc_multiplier d ^ attempt" using assms by (simp add: retry_ok_def)
  moreover have "1 \<le> real_of_int (rc_baseDelay d)" using assms by (simp add: retry_ok_def)
  ultimately have "1 \<le> real_of_int (rc_baseDelay d) * rc_multiplier d ^ attempt"
    by (metis mult_mono mult_1 zero_le_one order_trans)
  then show ?thesis using assms by (simp add: delay_ceiling_def retry_ok_def less_floor_iff le_floor_iff)
qed

lemma calculateBackoff_spec:
  "retry_ok d \<Longrightarrow> calculateBackoff rnd d attempt = Some (rnd (delay_ceiling d attempt) attempt)"
  using delay_ceiling_pos [of d attempt]
  by (simp only: calculateBackoff_def Let_def floor_if_min delay_ceiling_def [symmetric]) simp

section \<open>What a retried call does\<close>

text \<open>The state before the \<open>i\<close>-th call, when every call before was made, and that call's result.\<close>

fun call_state :: "('s \<Rightarrow> 's \<times> string option) \<Rightarrow> nat \<Rightarrow> 's \<Rightarrow> 's" where
  "call_state f 0 s = s"
| "call_state f (Suc i) s = call_state f i (fst (f s))"

definition call_result :: "('s \<Rightarrow> 's \<times> string option) \<Rightarrow> nat \<Rightarrow> 's \<Rightarrow> string option" where
  "call_result f i s = snd (f (call_state f i s))"

lemma call_result_simps [simp]:
  "call_result f 0 s = snd (f s)" "call_result f (Suc i) s = call_result f i (fst (f s))"
  by (simp_all add: call_result_def)

text \<open>\<open>n\<close> is the call at which the loop ends.\<close>

definition ends_at :: "('s \<Rightarrow> 's \<times> string option) \<Rightarrow> int \<Rightarrow> nat \<Rightarrow> 's \<Rightarrow> nat \<Rightarrow> bool" where
  "ends_at f maxRetries attempt s n \<longleftrightarrow> int (attempt + n) \<le> maxRetries
     \<and> (\<forall>i < n. shouldRetry (call_result f i s))
     \<and> (\<not> shouldRetry (call_result f n s) \<or> int (attempt + n) = maxRetries)"

lemma ends_at_0: "int attempt \<le> m \<Longrightarrow> \<not> shouldRetry (snd (f s)) \<or> int attempt = m \<Longrightarrow> ends_at f m attempt s 0"
  by (simp add: ends_at_def)

lemma ends_at_Suc: "shouldRetry (snd (f s)) \<Longrightarrow> ends_at f m (Suc attempt) (fst (f s)) n \<Longrightarrow> ends_at f m attempt s (Suc n)"
  by (auto simp: ends_at_def less_Suc_eq_0_disj)

lemma retry_loop_spec:
  assumes "retry_ok d" and "int attempt \<le> rc_maxRetries d"
  shows "\<exists>n. ends_at f (rc_maxRetries d) attempt s n
    \<and> retry_loop rnd d f attempt e s
      = Some (call_state f (Suc n) s, call_result f n s, map (\<lambda>i. rnd (delay_ceiling d i) i) [attempt..<attempt + n])"
  using assms
proof (induction rnd d f attempt e s rule: retry_loop.induct)
  case (1 rnd d f attempt e s)
  obtain s1 r where f: "f s = (s1, r)" by (metis surj_pair)
  show ?case
  proof (cases "shouldRetry r \<and> int attempt < rc_maxRetries d")
    case False
    have "retry_loop rnd d f attempt e s = Some (s1, r, [])"
      using False "1.prems" f by (auto simp: retry_loop.simps [of _ _ _ attempt] split: option.splits)
    moreover have "ends_at f (rc_maxRetries d) attempt s 0"
      using False "1.prems" f by (intro ends_at_0) auto
    ultimately show ?thesis using f by (intro exI [of _ 0]) simp
  next
    case True
    then obtain err where r: "r = Some err" by (auto simp: shouldRetry_def split: option.splits)
    have le: "int (Suc attempt) \<le> rc_maxRetries d" using True by simp
    have bk: "calculateBackoff rnd d attempt = Some (rnd (delay_ceiling d attempt) attempt)"
      by (rule calculateBackoff_spec [OF "1.prems"(1)])
    have cond: "\<not> (int attempt \<ge> rc_maxRetries d \<or> \<not> shouldRetry (Some err))" using True r by simp
    obtain n where n: "ends_at f (rc_maxRetries d) (Suc attempt) s1 n"
        "retry_loop rnd d f (Suc attempt) (Some err) s1
          = Some (call_state f (Suc n) s1, call_result f n s1, map (\<lambda>i. rnd (delay_ceiling d i) i) [Suc attempt..<Suc attempt + n])"
      using "1.IH" [OF "1.prems"(2) f [symmetric] r cond bk "1.prems"(1) le] by blast
    have "retry_loop rnd d f attempt e s
        = Some (call_state f (Suc n) s1, call_result f n s1, rnd (delay_ceiling d attempt) attempt # map (\<lambda>i. rnd (delay_ceiling d i) i) [Suc attempt..<Suc attempt + n])"
      using True n(2) f r bk by (simp add: retry_loop.simps [of _ _ _ attempt])
    moreover have "ends_at f (rc_maxRetries d) attempt s (Suc n)"
      using n(1) True f by (intro ends_at_Suc) simp_all
    ultimately show ?thesis using f by (intro exI [of _ "Suc n"]) (simp add: upt_conv_Cons del: upt_Suc)
  qed
qed

text \<open>
  C38: A retried call returns: with a non-negative number of retries, and whatever was set on the
  configuration, the function is called at most \<open>maxRetries + 1\<close> times, each time in the state the
  call before left; every call but the last failed with an error that may be retried; the result is
  the last call's; and the delay after call \<open>i\<close> is non-negative and below the ceiling
  \<open>min (base * multiplier ^ i) max\<close>, so no delay panics.
\<close>

theorem RetryWrite_returns:
  assumes "0 \<le> n" and "d = foldl (\<lambda>d opt. retry_set opt d) (NewRetryConfig n) opts"
    and "\<And>m i. 0 < m \<Longrightarrow> 0 \<le> rnd m i \<and> rnd m i < m"
  shows "\<exists>k ds. ends_at f n 0 s k \<and> RetryWrite rnd d f s = Some (call_state f (Suc k) s, call_result f k s, ds)
    \<and> length ds = k \<and> list_all (\<lambda>i. 0 \<le> ds ! i \<and> ds ! i < delay_ceiling d i) [0..<k]"
proof -
  have d: "retry_ok d" "rc_maxRetries d = n" unfolding assms(2) by (rule retry_ok_options options_maxRetries)+
  obtain k where k: "ends_at f n 0 s k"
      "RetryWrite rnd d f s = Some (call_state f (Suc k) s, call_result f k s, map (\<lambda>i. rnd (delay_ceiling d i) i) [0..<0 + k])"
    using retry_loop_spec [OF d(1), of 0 f s rnd None] assms(1) d(2) by (auto simp: RetryWrite_def)
  then show ?thesis using assms(3) [OF delay_ceiling_pos [OF d(1)]]
    by (intro exI [of _ k] exI [of _ "map (\<lambda>i. rnd (delay_ceiling d i) i) [0..<k]"]) (simp add: list_all_iff)
qed

definition flaky :: "nat \<Rightarrow> nat \<times> string option" where
  "flaky i = (Suc i, if i < 2 then Some ''timeout'' else None)"

theorem RetryWrite_returns_witness:
  "\<exists>k ds. ends_at flaky 3 0 0 k
    \<and> RetryWrite (\<lambda>m i. 0) (foldl (\<lambda>d opt. retry_set opt d) (NewRetryConfig 3) [RBase 5, RMult 3]) flaky 0
        = Some (call_state flaky (Suc k) 0, call_result flaky k 0, ds)
    \<and> length ds = k \<and> list_all (\<lambda>i. 0 \<le> ds ! i \<and> ds ! i < delay_ceiling (foldl (\<lambda>d opt. retry_set opt d) (NewRetryConfig 3) [RBase 5, RMult 3]) i) [0..<k]"
  by (rule RetryWrite_returns [OF _ refl]) simp_all

text \<open>
  With a negative number of retries the function is never called and the write is reported as done.
\<close>

theorem negative_retries_drop_write:
  assumes "rc_maxRetries d < 0"
  shows "RetryWrite rnd d f s = Some (s, None, [])"
  using assms by (simp add: RetryWrite_def retry_loop.simps)

theorem negative_retries_drop_write_witness:
  "RetryWrite (\<lambda>m i. 0) (NewRetryConfig (- 1)) flaky 0 = Some (0, None, [])"
  by (rule negative_retries_drop_write) (simp add: NewRetryConfig_def)

text \<open>A permanent error is returned by the first call.\<close>

lemma permanent_error_at_once:
  assumes "0 \<le> rc_maxRetries d" and "f s = (s1, Some err)" and "\<not> shouldRetry (Some err)"
  shows "RetryWrite rnd d f s = Some (s1, Some err, [])"
  using assms by (simp add: RetryWrite_def retry_loop.simps [of _ _ _ 0])

text \<open>The first retry waits below the base delay: its exponent is 0, not 1.\<close>

lemma first_delay_exponent_zero:
  "retry_ok d \<Longrightarrow> calculateBackoff rnd d 0 = Some (rnd (min (rc_baseDelay d) (rc_maxDelay d)) 0)"
  by (simp add: calculateBackoff_spec delay_ceiling_def)

end
