(* ===== verification/Field_Buffer.thy ===== *)
theory Field_Buffer
  imports Log_Entry
begin

text \<open>
  \<^verbatim>\<open>types/field_buffer.go\<close>: the buffer of fields with its index from keys to positions;
  \<^verbatim>\<open>types/static_field.go\<close>: fields in fixed-size storage; \<^verbatim>\<open>types/auto_infer.go\<close>, \<^verbatim>\<open>types/fields.go\<close> and
  \<^verbatim>\<open>types/fields_builder.go\<close>: the constructors of fields.

  Every method of the buffer holds its lock for the whole body. \<open>grow\<close> is the capacity \<open>append\<close> chooses
  for a slice of a length (more than the length); only the capacity of the keys is ever read. A
  nil map and the nil slice of the zero value are kept apart from empty ones, because a write to a
  nil map panics; a panic is \<open>None\<close>. The map given to \<open>FromMap\<close> is the list of pairs its iteration
  yields. \<open>ft\<close> prints a float.
\<close>

section \<open>The buffer\<close>

record field_buffer =
  fb_keys :: "string list"
  fb_values :: "go_any list"
  fb_keyMap :: "(string \<rightharpoonup> nat) option"
  fb_cap :: nat
  fb_isNil :: bool

definition NewFieldBuffer :: field_buffer where
  "NewFieldBuffer = \<lparr>fb_keys = [], fb_values = [], fb_keyMap = Some Map.empty, fb_cap = 8, fb_isNil = False\<rparr>"

definition zero_buffer :: field_buffer where
  "zero_buffer = \<lparr>fb_keys = [], fb_values = [], fb_keyMap = None, fb_cap = 0, fb_isNil = True\<rparr>"

definition init_nil :: "field_buffer \<Rightarrow> field_buffer" where
  "init_nil fb = (if fb_isNil fb then NewFieldBuffer else fb)"

definition index_of :: "field_buffer \<Rightarrow> string \<Rightarrow> nat option" where
  "index_of fb key = (case fb_keyMap fb of None \<Rightarrow> None | Some m \<Rightarrow> m key)"

definition append_field :: "(nat \<Rightarrow> nat) \<Rightarrow> string \<Rightarrow> go_any \<Rightarrow> field_buffer \<Rightarrow> field_buffer option" where
  "append_field grow key v fb =
     (case fb_keyMap fb of
        None \<Rightarrow> None
      | Some m \<Rightarrow>
          let idx = length (fb_keys fb) in
          Some (fb\<lparr>fb_cap := (if idx < fb_cap fb then fb_cap fb else grow idx),
                   fb_keys := fb_keys fb @ [key], fb_values := fb_values fb @ [v],
                   fb_keyMap := Some (m(key \<mapsto> idx)), fb_isNil := False\<rparr>))"

definition fb_Add :: "(go_float \<Rightarrow> string) \<Rightarrow> (nat \<Rightarrow> nat) \<Rightarrow> string \<Rightarrow> go_any \<Rightarrow> field_buffer \<Rightarrow> field_buffer option" where
  "fb_Add ft grow key v fb =
     (case index_of fb key of
        Some idx \<Rightarrow>
          if idx < length (fb_values fb)
          then Some (fb\<lparr>fb_values := (fb_values fb)[idx := GString (formatValue ft v)]\<rparr>) else None
      | None \<Rightarrow> append_field grow key (GString (formatValue ft v)) (init_nil fb))"

definition fb_Get :: "string \<Rightarrow> field_buffer \<Rightarrow> (go_any \<times> bool) option" where
  "fb_Get key fb =
     (case index_of fb key of
        Some idx \<Rightarrow> if idx < length (fb_values fb) then Some (fb_values fb ! idx, True) else None
      | None \<Rightarrow> Some (GString [], False))"

definition fb_Keys :: "field_buffer \<Rightarrow> string list" where
  "fb_Keys fb = fb_keys fb"

definition fb_Values :: "field_buffer \<Rightarrow> go_any list" where
  "fb_Values fb = fb_values fb"

definition fb_ToMap :: "field_buffer \<Rightarrow> (string \<rightharpoonup> go_any)" where
  "fb_ToMap fb = foldl (\<lambda>m i. m(fb_keys fb ! i \<mapsto> fb_values fb ! i)) Map.empty [0..<length (fb_keys fb)]"

text \<open>The cleared buffer: the slices keep their arrays, the map its storage.\<close>

definition fb_Clear :: "field_buffer \<Rightarrow> field_buffer" where
  "fb_Clear fb = fb\<lparr>fb_keys := [], fb_values := [], fb_keyMap := map_option (\<lambda>_. Map.empty) (fb_keyMap fb)\<rparr>"

definition fb_Reset :: "field_buffer \<Rightarrow> field_buffer" where
  "fb_Reset fb = fb\<lparr>fb_keys := [], fb_values := [], fb_keyMap := map_option (\<lambda>_. Map.empty) (fb_keyMap fb)\<rparr>"

fun from_map :: "(go_float \<Rightarrow> string) \<Rightarrow> (nat \<Rightarrow> nat) \<Rightarrow> (string \<times> go_any) list \<Rightarrow> field_buffer \<Rightarrow> field_buffer option" where
  "from_map ft grow [] fb = Some fb"
| "from_map ft grow ((k, v) # kvs) fb =
     Option.bind (append_field grow k (GString (formatValue ft v)) fb) (from_map ft grow kvs)"

definition fb_FromMap ::
  "(go_float \<Rightarrow> string) \<Rightarrow> (nat \<Rightarrow> nat) \<Rightarrow> (string \<times> go_any) list \<Rightarrow> field_buffer \<Rightarrow> field_buffer option" where
  "fb_FromMap ft grow kvs fb = from_map ft grow kvs (fb\<lparr>fb_keys := [], fb_values := [], fb_keyMap := Some Map.empty\<rparr>)"

definition fb_Size :: "field_buffer \<Rightarrow> nat" where
  "fb_Size fb = length (fb_keys fb)"

definition fb_Len :: "field_buffer \<Rightarrow> nat" where
  "fb_Len fb = length (fb_keys fb)"

definition fb_Key :: "int \<Rightarrow> field_buffer \<Rightarrow> string option" where
  "fb_Key i fb = (if 0 \<le> i \<and> i < int (length (fb_keys fb)) then Some (fb_keys fb ! nat i) else None)"

definition fb_Value :: "int \<Rightarrow> field_buffer \<Rightarrow> go_any option" where
  "fb_Value i fb = (if 0 \<le> i \<and> i < int (length (fb_values fb)) then Some (fb_values fb ! nat i) else None)"

text \<open>
  The body the setters repeat once they have the value: overwrite in place, append within the
  capacity, or leave the buffer alone.
\<close>

definition set_value :: "(nat \<Rightarrow> nat) \<Rightarrow> string \<Rightarrow> go_any \<Rightarrow> field_buffer \<Rightarrow> field_buffer option" where
  "set_value grow key v fb =
     (let fb = init_nil fb in
      case index_of fb key of
        Some idx \<Rightarrow> if idx < length (fb_values fb) then Some (fb\<lparr>fb_values := (fb_values fb)[idx := v]\<rparr>) else None
      | None \<Rightarrow> if length (fb_keys fb) < fb_cap fb then append_field grow key v fb else Some fb)"

definition fb_Set :: "(nat \<Rightarrow> nat) \<Rightarrow> string \<Rightarrow> go_any \<Rightarrow> field_buffer \<Rightarrow> field_buffer option" where
  "fb_Set grow key v fb = set_value grow key v fb"

text \<open>The digits of \<open>SetInt\<close>, written from the end of a 24-byte array; \<open>None\<close> past its start.\<close>

function int_digits :: "int \<Rightarrow> string \<Rightarrow> string" where
  "int_digits v buf = (if v > 0 then int_digits (v div 10) (byte (48 + v mod 10) # buf) else buf)"
  by pat_completeness auto
termination by (relation "measure (\<lambda>(v, _). nat v)") auto

declare int_digits.simps [simp del]

definition int_text :: "int \<Rightarrow> string" where
  "int_text v =
     (if v = - 9223372036854775808 then ''-9223372036854775808''
      else let negative = v < 0; v = (if negative then wrap_s64 (- v) else v);
               buf = (if v = 0 then ''0'' else int_digits v [])
           in if negative then CHR ''-'' # buf else buf)"

definition fb_SetInt :: "(nat \<Rightarrow> nat) \<Rightarrow> string \<Rightarrow> int \<Rightarrow> field_buffer \<Rightarrow> field_buffer option" where
  "fb_SetInt grow key v fb = (if length (int_text v) \<le> 24 then set_value grow key (GString (int_text v)) fb else None)"

definition fb_SetBool :: "(nat \<Rightarrow> nat) \<Rightarrow> string \<Rightarrow> bool \<Rightarrow> field_buffer \<Rightarrow> field_buffer option" where
  "fb_SetBool grow key v fb = set_value grow key (GString (if v then ''true'' else ''false'')) fb"

definition fb_SetFloat :: "(go_float \<Rightarrow> string) \<Rightarrow> (nat \<Rightarrow> nat) \<Rightarrow> string \<Rightarrow> go_float \<Rightarrow> field_buffer \<Rightarrow> field_buffer option" where
  "fb_SetFloat ft grow key v fb = set_value grow key (GString (ft v)) fb"

definition fb_SetString :: "(nat \<Rightarrow> nat) \<Rightarrow> string \<Rightarrow> string \<Rightarrow> field_buffer \<Rightarrow> field_buffer option" where
  "fb_SetString grow key v fb = set_value grow key (GString v) fb"

definition fb_SetNil :: "(nat \<Rightarrow> nat) \<Rightarrow> string \<Rightarrow> field_buffer \<Rightarrow> field_buffer option" where
  "fb_SetNil grow key fb = set_value grow key (GString ''null'') fb"

text \<open>\<open>SetBulk\<close> replaces both slices; the index keeps what it held.\<close>

definition fb_SetBulk :: "(string \<times> go_any) list \<Rightarrow> field_buffer \<Rightarrow> field_buffer" where
  "fb_SetBulk fs fb =
     (let fb = fb\<lparr>fb_keys := [], fb_values := []\<rparr>; needed = length fs in
      if needed = 0 then fb
      else if fb_cap fb \<ge> needed then fb\<lparr>fb_keys := map fst fs, fb_values := map snd fs\<rparr>
      else let newCap = needed * 2; newCap = (if newCap < 8 then 8 else newCap)
           in fb\<lparr>fb_keys := map fst fs, fb_values := map snd fs, fb_cap := newCap, fb_isNil := False\<rparr>)"

definition fb_ForEach :: "(string \<Rightarrow> go_any \<Rightarrow> 's \<Rightarrow> 's) option \<Rightarrow> field_buffer option \<Rightarrow> 's \<Rightarrow> 's" where
  "fb_ForEach fn fb s =
     (case (fb, fn) of
        (Some fb, Some fn) \<Rightarrow> foldl (\<lambda>s i. fn (fb_keys fb ! i) (fb_values fb ! i) s) s [0..<length (fb_keys fb)]
      | _ \<Rightarrow> s)"

definition fb_ForEachUnsafe :: "(string \<Rightarrow> go_any \<Rightarrow> 's \<Rightarrow> 's) option \<Rightarrow> field_buffer option \<Rightarrow> 's \<Rightarrow> 's" where
  "fb_ForEachUnsafe fn fb s =
     (case (fb, fn) of
        (Some fb, Some fn) \<Rightarrow> foldl (\<lambda>s i. fn (fb_keys fb ! i) (fb_values fb ! i) s) s [0..<length (fb_keys fb)]
      | _ \<Rightarrow> s)"

section \<open>Printing integers\<close>

lemma byte_is_digit: "0 \<le> d \<Longrightarrow> d < 10 \<Longrightarrow> byte (48 + d) = digit (nat d)"
  by (simp add: byte_def digit_def wrap_u8_def nat_add_distrib)

lemma int_digits_dec: "0 < v \<Longrightarrow> int_digits v buf = dec (nat v) @ buf"
proof (induction v buf rule: int_digits.induct)
  case (1 v buf)
  have b: "byte (48 + v mod 10) = digit (nat (v mod 10))" by (rule byte_is_digit) simp_all
  have m: "nat (v mod 10) = nat v mod 10" "nat (v div 10) = nat v div 10"
    using "1.prems" by (simp_all add: nat_mod_distrib nat_div_distrib)
  show ?case
  proof (cases "v < 10")
    case True
    have "v div 10 = 0" "v mod 10 = v" using True "1.prems" by simp_all
    moreover have "int_digits 0 xs = xs" for xs by (simp add: int_digits.simps)
    ultimately show ?thesis using True "1.prems" b by (simp add: int_digits.simps [of v] dec.simps [of "nat v"] nat_less_iff)
  next
    case False
    then have "0 < v div 10" by (simp add: pos_imp_zdiv_pos_iff)
    then have "int_digits (v div 10) (byte (48 + v mod 10) # buf) = dec (nat (v div 10)) @ byte (48 + v mod 10) # buf"
      using "1.IH" "1.prems" by simp
    then show ?thesis using False "1.prems" b m
      by (simp add: int_digits.simps [of v] dec.simps [of "nat v"] nat_less_iff)
  qed
qed

lemma digit_chars:
  "digit 0 = CHR ''0''" "digit (Suc 0) = CHR ''1''" "digit 2 = CHR ''2''" "digit 3 = CHR ''3''"
  "digit 4 = CHR ''4''" "digit 5 = CHR ''5''" "digit 6 = CHR ''6''" "digit 7 = CHR ''7''"
  "digit 8 = CHR ''8''" "digit 9 = CHR ''9''"
  by (simp_all add: digit_def char_of_def bit_0)

lemma int_text_itoa: "is_s64 v \<Longrightarrow> int_text v = itoa v"
proof -
  assume v: "is_s64 v"
  consider "v = - 9223372036854775808" | "v = 0" | "0 < v" | "v < 0" "v \<noteq> - 9223372036854775808" by linarith
  then show ?thesis
  proof cases
    case 1
    have "dec 9223372036854775808 = ''9223372036854775808''"
      by (simp add: dec.simps digit_chars)
    then show ?thesis by (simp add: 1 int_text_def itoa_def)
  next
    case 2
    then show ?thesis by (simp add: int_text_def itoa_def dec.simps digit_chars)
  next
    case 3
    then show ?thesis by (simp add: int_text_def itoa_def int_digits_dec)
  next
    case 4
    then have "is_s64 (- v)" using v by (simp add: is_s64_def)
    then show ?thesis using 4 by (simp add: int_text_def itoa_def int_digits_dec)
  qed
qed

lemma length_dec: "0 < k \<Longrightarrow> n < 10 ^ k \<Longrightarrow> length (dec n) \<le> k"
proof (induction k arbitrary: n)
  case (Suc k)
  show ?case
  proof (cases "n < 10")
    case False
    then have "0 < k" using Suc.prems by (cases k) auto
    moreover have "n div 10 < 10 ^ k" using Suc.prems by (simp add: less_mult_imp_div_less)
    ultimately have "length (dec (n div 10)) \<le> k" using Suc.IH by blast
    then show ?thesis using False by (simp add: dec.simps [of n])
  qed (simp add: dec.simps [of n])
qed simp

lemma length_itoa: "is_s64 v \<Longrightarrow> length (itoa v) \<le> 20"
  using length_dec [of 19 "nat v"] length_dec [of 19 "nat (- v)"]
  by (auto simp: itoa_def is_s64_def nat_less_iff)

lemma fb_SetInt_writes: "is_s64 v \<Longrightarrow> fb_SetInt grow key v fb = set_value grow key (GString (itoa v)) fb"
  using length_itoa [of v] by (simp add: fb_SetInt_def int_text_itoa)

section \<open>The buffer as a map with a capacity\<close>

text \<open>
  The index holds exactly the positions of the keys, so that no key occurs twice; a buffer without
  arrays has capacity 0 and is empty.
\<close>

definition fb_ok :: "field_buffer \<Rightarrow> bool" where
  "fb_ok fb \<longleftrightarrow>
     length (fb_values fb) = length (fb_keys fb) \<and> length (fb_keys fb) \<le> fb_cap fb \<and>
     (fb_isNil fb \<longleftrightarrow> fb_cap fb = 0) \<and> (fb_keyMap fb = None \<longrightarrow> fb_isNil fb) \<and>
     (\<forall>k i. index_of fb k = Some i \<longleftrightarrow> i < length (fb_keys fb) \<and> fb_keys fb ! i = k)"

definition fb_map :: "field_buffer \<Rightarrow> (string \<rightharpoonup> go_any)" where
  "fb_map fb k = map_option (\<lambda>i. fb_values fb ! i) (index_of fb k)"

lemma fb_okD:
  assumes "fb_ok fb"
  shows "length (fb_values fb) = length (fb_keys fb)" "length (fb_keys fb) \<le> fb_cap fb"
    "fb_isNil fb = (fb_cap fb = 0)" "fb_keyMap fb = None \<Longrightarrow> fb_isNil fb"
    "index_of fb k = Some i \<Longrightarrow> i < length (fb_keys fb) \<and> fb_keys fb ! i = k"
    "i < length (fb_keys fb) \<Longrightarrow> index_of fb (fb_keys fb ! i) = Some i"
  using assms by (auto simp: fb_ok_def)

lemma fb_ok_distinct: "fb_ok fb \<Longrightarrow> distinct (fb_keys fb)"
  by (metis distinct_conv_nth fb_okD(6) option.inject)

lemma dom_fb_map: "fb_ok fb \<Longrightarrow> dom (fb_map fb) = set (fb_keys fb)"
  by (fastforce simp: fb_map_def dom_def in_set_conv_nth dest: fb_okD)

lemma card_fb_map: "fb_ok fb \<Longrightarrow> card (dom (fb_map fb)) = length (fb_keys fb)"
  by (simp add: dom_fb_map distinct_card fb_ok_distinct)

lemma index_None: "fb_map fb k = None \<longleftrightarrow> index_of fb k = None"
  by (simp add: fb_map_def)

lemma fb_Get_map:
  "fb_ok fb \<Longrightarrow> fb_Get k fb = Some (case fb_map fb k of Some v \<Rightarrow> (v, True) | None \<Rightarrow> (GString [], False))"
  by (auto simp: fb_Get_def fb_map_def fb_okD(1) split: option.splits dest: fb_okD(5))

lemma foldl_map_upto:
  assumes "distinct ks" "length vs = length ks" "n \<le> length ks"
  shows "foldl (\<lambda>m i. m(ks ! i \<mapsto> vs ! i)) Map.empty [0..<n] k =
           (if \<exists>i<n. ks ! i = k then Some (vs ! (THE i. i < n \<and> ks ! i = k)) else None)"
  using assms(3)
proof (induction n)
  case (Suc n)
  have the: "(THE i. i < m \<and> ks ! i = ks ! j) = j" if "j < m" "m \<le> length ks" for m j
    using that assms(1) by (intro the_equality) (auto simp: nth_eq_iff_index_eq)
  show ?case
  proof (cases "ks ! n = k")
    case True
    then show ?thesis using the [of n "Suc n"] Suc.prems by auto
  next
    case False
    show ?thesis
    proof (cases "\<exists>i<n. ks ! i = k")
      case True
      then obtain j where j: "j < n" "k = ks ! j" by blast
      then show ?thesis using False Suc the [of j n] the [of j "Suc n"] by (auto simp: less_Suc_eq)
    qed (use False Suc in \<open>auto simp: less_Suc_eq\<close>)
  qed
qed simp

lemma fb_ToMap_map:
  assumes "fb_ok fb"
  shows "fb_ToMap fb = fb_map fb"
proof
  fix k
  show "fb_ToMap fb k = fb_map fb k"
  proof (cases "index_of fb k")
    case None
    then have "\<not> (\<exists>i<length (fb_keys fb). fb_keys fb ! i = k)" using fb_okD(6) [OF assms] by auto
    then show ?thesis using None
      by (simp add: fb_ToMap_def fb_map_def foldl_map_upto fb_ok_distinct assms fb_okD(1))
  next
    case (Some i)
    have i: "i < length (fb_keys fb)" "fb_keys fb ! i = k" using fb_okD(5) [OF assms Some] by auto
    have "(THE j. j < length (fb_keys fb) \<and> fb_keys fb ! j = k) = i"
      using i fb_ok_distinct [OF assms] by (intro the_equality) (auto simp: nth_eq_iff_index_eq)
    then show ?thesis using Some i
      by (auto simp: fb_ToMap_def fb_map_def foldl_map_upto fb_ok_distinct assms fb_okD(1))
  qed
qed

lemma init_nil_ok: "fb_ok fb \<Longrightarrow> fb_ok (init_nil fb)"
  by (auto simp: init_nil_def NewFieldBuffer_def fb_ok_def index_of_def)

lemma init_nil_map: "fb_ok fb \<Longrightarrow> fb_map (init_nil fb) = fb_map fb"
  by (rule ext) (auto simp: init_nil_def NewFieldBuffer_def fb_ok_def index_of_def fb_map_def)

lemma init_nil_some: "fb_ok fb \<Longrightarrow> \<exists>m. fb_keyMap (init_nil fb) = Some m"
  by (cases "fb_keyMap fb") (auto simp: init_nil_def NewFieldBuffer_def fb_ok_def)

lemma append_field_ok:
  assumes "fb_ok fb" "index_of fb key = None" "fb_keyMap fb = Some m" "\<And>n. n < grow n"
  obtains fb' where "append_field grow key v fb = Some fb'" "fb_ok fb'" "fb_map fb' = (fb_map fb)(key \<mapsto> v)"
    "fb_cap fb' = (if length (fb_keys fb) < fb_cap fb then fb_cap fb else grow (length (fb_keys fb)))"
proof -
  let ?n = "length (fb_keys fb)"
  let ?c = "if ?n < fb_cap fb then fb_cap fb else grow ?n"
  let ?fb = "fb\<lparr>fb_cap := ?c, fb_keys := fb_keys fb @ [key], fb_values := fb_values fb @ [v],
                fb_keyMap := Some (m(key \<mapsto> ?n)), fb_isNil := False\<rparr>"
  note ok = fb_okD [OF assms(1)]
  have c: "?n < ?c" using assms(4) by simp
  have idx: "index_of ?fb k = (if k = key then Some ?n else index_of fb k)" for k
    by (simp add: index_of_def assms(3))
  have "index_of ?fb k = Some i \<longleftrightarrow> i < length (fb_keys ?fb) \<and> fb_keys ?fb ! i = k" for k i
  proof (cases "i < ?n")
    case True
    then have "fb_keys fb ! i \<noteq> key" using ok(6) [of i] assms(2) by auto
    moreover have "index_of fb k = Some i \<longleftrightarrow> fb_keys fb ! i = k"
      using ok(5) [of k i] ok(6) [OF True] by auto
    ultimately show ?thesis using True unfolding idx by (auto simp: nth_append)
  next
    case False
    then show ?thesis unfolding idx using ok(5) [of k i] by (auto simp: nth_append)
  qed
  then have "fb_ok ?fb" using c ok(1) by (simp add: fb_ok_def)
  moreover have "fb_map ?fb = (fb_map fb)(key \<mapsto> v)"
  proof
    show "fb_map ?fb k = ((fb_map fb)(key \<mapsto> v)) k" for k
      using ok(5) [of k] by (cases "index_of fb k") (auto simp: fb_map_def idx ok(1) nth_append)
  qed
  moreover have "append_field grow key v fb = Some ?fb" by (simp add: append_field_def assms(3) Let_def)
  ultimately show ?thesis using that by simp
qed

lemma overwrite_ok:
  assumes "fb_ok fb" "index_of fb key = Some i"
  shows "fb_ok (fb\<lparr>fb_values := (fb_values fb)[i := v]\<rparr>)"
    "fb_map (fb\<lparr>fb_values := (fb_values fb)[i := v]\<rparr>) = (fb_map fb)(key \<mapsto> v)"
proof -
  let ?fb = "fb\<lparr>fb_values := (fb_values fb)[i := v]\<rparr>"
  have idx: "index_of ?fb k = index_of fb k" for k by (simp add: index_of_def)
  show "fb_ok ?fb" using assms(1) unfolding fb_ok_def idx by auto
  have "fb_map ?fb k = ((fb_map fb)(key \<mapsto> v)) k" for k
    using fb_okD(5) [OF assms] fb_okD(5) [OF assms(1), of k] assms(2) fb_okD(1) [OF assms(1)]
    by (cases "index_of fb k") (auto simp: fb_map_def idx nth_list_update)
  then show "fb_map ?fb = (fb_map fb)(key \<mapsto> v)" by blast
qed

section \<open>Every sequence of operations\<close>

datatype buffer_op =
    OAdd string go_any | OSet string go_any | OInt string int | OBool string bool | OFloat string go_float
  | OString string string | ONil string | OClear | OReset | OFrom "(string \<times> go_any) list"

fun buffer_do :: "(go_float \<Rightarrow> string) \<Rightarrow> (nat \<Rightarrow> nat) \<Rightarrow> buffer_op \<Rightarrow> field_buffer \<Rightarrow> field_buffer option" where
  "buffer_do ft grow (OAdd k v) fb = fb_Add ft grow k v fb"
| "buffer_do ft grow (OSet k v) fb = fb_Set grow k v fb"
| "buffer_do ft grow (OInt k i) fb = fb_SetInt grow k i fb"
| "buffer_do ft grow (OBool k b) fb = fb_SetBool grow k b fb"
| "buffer_do ft grow (OFloat k f) fb = fb_SetFloat ft grow k f fb"
| "buffer_do ft grow (OString k s) fb = fb_SetString grow k s fb"
| "buffer_do ft grow (ONil k) fb = fb_SetNil grow k fb"
| "buffer_do ft grow OClear fb = Some (fb_Clear fb)"
| "buffer_do ft grow OReset fb = Some (fb_Reset fb)"
| "buffer_do ft grow (OFrom kvs) fb = fb_FromMap ft grow kvs fb"

fun buffer_run :: "(go_float \<Rightarrow> string) \<Rightarrow> (nat \<Rightarrow> nat) \<Rightarrow> buffer_op list \<Rightarrow> field_buffer \<Rightarrow> field_buffer option" where
  "buffer_run ft grow [] fb = Some fb"
| "buffer_run ft grow (x # xs) fb = Option.bind (buffer_do ft grow x fb) (buffer_run ft grow xs)"

text \<open>
  What a client sees: a map and a capacity, 0 before the first field. \<open>Add\<close> always stores and the
  capacity follows; the setters store a new key only below the capacity.
\<close>

type_synonym bounded_map = "(string \<rightharpoonup> go_any) \<times> nat"

definition fb_alloc :: "nat \<Rightarrow> nat" where
  "fb_alloc c = (if c = 0 then 8 else c)"

definition spec_push :: "(nat \<Rightarrow> nat) \<Rightarrow> string \<Rightarrow> go_any \<Rightarrow> bounded_map \<Rightarrow> bounded_map" where
  "spec_push grow k v = (\<lambda>(m, c). (m(k \<mapsto> v), if card (dom m) < c then c else grow (card (dom m))))"

definition spec_add :: "(nat \<Rightarrow> nat) \<Rightarrow> string \<Rightarrow> go_any \<Rightarrow> bounded_map \<Rightarrow> bounded_map" where
  "spec_add grow k v = (\<lambda>(m, c). if k \<in> dom m then (m(k \<mapsto> v), c) else spec_push grow k v (m, fb_alloc c))"

definition spec_set :: "string \<Rightarrow> go_any \<Rightarrow> bounded_map \<Rightarrow> bounded_map" where
  "spec_set k v = (\<lambda>(m, c). if k \<in> dom m \<or> card (dom m) < fb_alloc c then (m(k \<mapsto> v), fb_alloc c) else (m, fb_alloc c))"

fun spec_from :: "(go_float \<Rightarrow> string) \<Rightarrow> (nat \<Rightarrow> nat) \<Rightarrow> (string \<times> go_any) list \<Rightarrow> bounded_map \<Rightarrow> bounded_map" where
  "spec_from ft grow [] s = s"
| "spec_from ft grow ((k, v) # kvs) s = spec_from ft grow kvs (spec_push grow k (GString (formatValue ft v)) s)"

fun spec_do :: "(go_float \<Rightarrow> string) \<Rightarrow> (nat \<Rightarrow> nat) \<Rightarrow> buffer_op \<Rightarrow> bounded_map \<Rightarrow> bounded_map" where
  "spec_do ft grow (OAdd k v) s = spec_add grow k (GString (formatValue ft v)) s"
| "spec_do ft grow (OSet k v) s = spec_set k v s"
| "spec_do ft grow (OInt k i) s = spec_set k (GString (itoa i)) s"
| "spec_do ft grow (OBool k b) s = spec_set k (GString (if b then ''true'' else ''false'')) s"
| "spec_do ft grow (OFloat k f) s = spec_set k (GString (ft f)) s"
| "spec_do ft grow (OString k x) s = spec_set k (GString x) s"
| "spec_do ft grow (ONil k) s = spec_set k (GString ''null'') s"
| "spec_do ft grow OClear s = (Map.empty, snd s)"
| "spec_do ft grow OReset s = (Map.empty, snd s)"
| "spec_do ft grow (OFrom kvs) s = spec_from ft grow kvs (Map.empty, snd s)"

text \<open>A map yields each key once; an \<open>int64\<close> is in its range.\<close>

fun buffer_op_ok :: "buffer_op \<Rightarrow> bool" where
  "buffer_op_ok (OInt k i) = is_s64 i"
| "buffer_op_ok (OFrom kvs) = distinct (map fst kvs)"
| "buffer_op_ok x = True"

definition fb_abs :: "field_buffer \<Rightarrow> bounded_map" where
  "fb_abs fb = (fb_map fb, fb_cap fb)"

definition implements :: "field_buffer option \<Rightarrow> bounded_map \<Rightarrow> bool" where
  "implements r s \<longleftrightarrow> (\<exists>fb. r = Some fb \<and> fb_ok fb \<and> fb_abs fb = s)"

lemma append_field_implements:
  assumes "fb_ok fb" "index_of fb key = None" "fb_keyMap fb = Some m" "\<And>n. n < grow n"
  shows "implements (append_field grow key v fb) (spec_push grow key v (fb_abs fb))"
proof -
  obtain fb' where "append_field grow key v fb = Some fb'" "fb_ok fb'" "fb_map fb' = (fb_map fb)(key \<mapsto> v)"
    "fb_cap fb' = (if length (fb_keys fb) < fb_cap fb then fb_cap fb else grow (length (fb_keys fb)))"
    by (rule append_field_ok [OF assms])
  then show ?thesis by (simp add: implements_def fb_abs_def spec_push_def card_fb_map assms(1))
qed

lemma overwrite_implements:
  assumes "fb_ok fb" "index_of fb key = Some i"
  shows "implements (Some (fb\<lparr>fb_values := (fb_values fb)[i := v]\<rparr>)) ((fb_map fb)(key \<mapsto> v), fb_cap fb)"
  using overwrite_ok [OF assms, of v] by (simp add: implements_def fb_abs_def)

lemma init_nil_abs: "fb_ok fb \<Longrightarrow> fb_abs (init_nil fb) = (fb_map fb, fb_alloc (fb_cap fb))"
  by (auto simp: fb_abs_def init_nil_map fb_alloc_def dest: fb_okD(3)) (auto simp: init_nil_def NewFieldBuffer_def dest: fb_okD(3))

lemma index_dom: "index_of fb k = None \<longleftrightarrow> k \<notin> dom (fb_map fb)"
  by (simp add: fb_map_def dom_def)

lemma Add_implements:
  assumes ok: "fb_ok fb" and g: "\<And>n. n < grow n"
  shows "implements (fb_Add ft grow k v fb) (spec_add grow k (GString (formatValue ft v)) (fb_abs fb))"
proof (cases "index_of fb k")
  case None
  obtain m where m: "fb_keyMap (init_nil fb) = Some m" using init_nil_some [OF ok] by blast
  have n: "index_of (init_nil fb) k = None" using None by (simp add: index_dom init_nil_map ok)
  have "k \<notin> dom (fb_map fb)" using None by (simp add: index_dom)
  then show ?thesis
    using append_field_implements [OF init_nil_ok [OF ok] n m g, of "GString (formatValue ft v)"] None
    by (simp add: fb_Add_def spec_add_def init_nil_abs [OF ok]) (simp add: fb_abs_def)
next
  case (Some i)
  have "k \<in> dom (fb_map fb)" using Some index_dom [of fb k] by simp
  then show ?thesis
    using overwrite_implements [OF ok Some, of "GString (formatValue ft v)"] fb_okD(1) [OF ok] fb_okD(5) [OF ok Some] Some
    by (simp add: fb_Add_def spec_add_def fb_abs_def)
qed

lemma set_value_implements:
  assumes ok: "fb_ok fb" and g: "\<And>n. n < grow n"
  shows "implements (set_value grow k v fb) (spec_set k v (fb_abs fb))"
proof -
  define fi where "fi = init_nil fb"
  have ok': "fb_ok fi" and map: "fb_map fi = fb_map fb" and cap: "fb_cap fi = fb_alloc (fb_cap fb)"
    using ok init_nil_abs [OF ok] by (simp_all add: fi_def init_nil_ok init_nil_map fb_abs_def)
  obtain m where m: "fb_keyMap fi = Some m" using init_nil_some [OF ok] unfolding fi_def by blast
  show ?thesis
  proof (cases "index_of fi k")
    case None
    have d: "k \<notin> dom (fb_map fb)" using None index_dom [of fi k] by (simp add: map)
    have n: "length (fb_keys fi) = card (dom (fb_map fb))" using card_fb_map [OF ok'] by (simp add: map)
    show ?thesis
    proof (cases "length (fb_keys fi) < fb_cap fi")
      case True
      then show ?thesis using append_field_implements [OF ok' None m g, of v] d n cap None
        by (simp add: set_value_def fi_def [symmetric] spec_set_def fb_abs_def spec_push_def map)
    next
      case False
      then have "spec_set k v (fb_abs fb) = (fb_map fb, fb_alloc (fb_cap fb))"
        using d n cap by (simp add: spec_set_def fb_abs_def)
      moreover have "implements (Some fi) (fb_map fb, fb_alloc (fb_cap fb))"
        using ok' by (simp add: implements_def fb_abs_def map cap)
      moreover have "set_value grow k v fb = Some fi"
        using False None by (simp add: set_value_def fi_def [symmetric])
      ultimately show ?thesis by simp
    qed
  next
    case (Some i)
    have "k \<in> dom (fb_map fb)" using Some index_dom [of fi k] map by simp
    then show ?thesis
      using overwrite_implements [OF ok' Some, of v] fb_okD(1) [OF ok'] fb_okD(5) [OF ok' Some] Some cap
      by (simp add: set_value_def fi_def [symmetric] spec_set_def fb_abs_def map)
  qed
qed

lemma emptied_ok:
  assumes "fb_ok fb" "m = None \<Longrightarrow> fb_keyMap fb = None" "\<And>f. m = Some f \<Longrightarrow> f = Map.empty"
  shows "fb_ok (fb\<lparr>fb_keys := [], fb_values := [], fb_keyMap := m\<rparr>)"
    "fb_abs (fb\<lparr>fb_keys := [], fb_values := [], fb_keyMap := m\<rparr>) = (Map.empty, fb_cap fb)"
proof -
  let ?fb = "fb\<lparr>fb_keys := [], fb_values := [], fb_keyMap := m\<rparr>"
  have i: "index_of ?fb k = None" for k using assms(3) by (cases m) (auto simp: index_of_def)
  show "fb_ok ?fb" using assms(1,2) i by (auto simp: fb_ok_def)
  have "fb_map ?fb k = None" for k using i by (simp add: fb_map_def)
  then show "fb_abs ?fb = (Map.empty, fb_cap fb)" by (auto simp: fb_abs_def)
qed

lemma from_map_implements:
  assumes "fb_ok fb" "\<exists>m. fb_keyMap fb = Some m" "distinct (map fst kvs)"
    "fst ` set kvs \<inter> dom (fb_map fb) = {}" "\<And>n. n < grow n"
  shows "implements (from_map ft grow kvs fb) (spec_from ft grow kvs (fb_abs fb))"
  using assms(1-4)
proof (induction kvs arbitrary: fb)
  case Nil
  then show ?case by (simp add: implements_def)
next
  case (Cons x kvs)
  obtain k v where x: "x = (k, v)" by (cases x)
  have "index_of fb k = None" using Cons.prems(4) by (simp add: x index_dom)
  then obtain fb' where fb': "append_field grow k (GString (formatValue ft v)) fb = Some fb'" "fb_ok fb'"
    "fb_abs fb' = spec_push grow k (GString (formatValue ft v)) (fb_abs fb)"
    using append_field_implements [OF Cons.prems(1) _ _ assms(5)] Cons.prems(2) unfolding implements_def by blast
  have m: "\<exists>m. fb_keyMap fb' = Some m"
    using fb'(1) by (auto simp: append_field_def Let_def split: option.splits)
  have "fb_map fb' = (fb_map fb)(k \<mapsto> GString (formatValue ft v))"
    using fb'(3) by (simp add: fb_abs_def spec_push_def)
  then have "dom (fb_map fb') = insert k (dom (fb_map fb))" by auto
  then have "fst ` set kvs \<inter> dom (fb_map fb') = {}" using Cons.prems(3,4) by (simp add: x)
  then have "implements (from_map ft grow kvs fb') (spec_from ft grow kvs (fb_abs fb'))"
    using Cons.prems(3) by (intro Cons.IH fb'(2) m) (simp_all add: x)
  then show ?case by (simp add: x fb'(1,3))
qed

lemma FromMap_implements:
  assumes "fb_ok fb" "distinct (map fst kvs)" "\<And>n. n < grow n"
  shows "implements (fb_FromMap ft grow kvs fb) (spec_from ft grow kvs (Map.empty, snd (fb_abs fb)))"
proof -
  let ?fb = "fb\<lparr>fb_keys := [], fb_values := [], fb_keyMap := Some Map.empty\<rparr>"
  have ok: "fb_ok ?fb" and abs: "fb_abs ?fb = (Map.empty, fb_cap fb)" using assms(1) by (rule emptied_ok; simp)+
  then have "fst ` set kvs \<inter> dom (fb_map ?fb) = {}" by (simp add: fb_abs_def)
  from from_map_implements [OF ok _ assms(2) this assms(3)] show ?thesis
    by (simp add: fb_FromMap_def abs) (simp add: fb_abs_def)
qed

lemma cleared_implements:
  "fb_ok fb \<Longrightarrow>
     implements (Some (fb\<lparr>fb_keys := [], fb_values := [], fb_keyMap := map_option (\<lambda>_. Map.empty) (fb_keyMap fb)\<rparr>))
       (Map.empty, snd (fb_abs fb))"
  using emptied_ok [of fb "map_option (\<lambda>_. Map.empty) (fb_keyMap fb)"] by (auto simp: implements_def fb_abs_def)

lemmas setter_defs = fb_Set_def fb_SetBool_def fb_SetFloat_def fb_SetString_def fb_SetNil_def

lemma buffer_do_implements:
  assumes "fb_ok fb" "buffer_op_ok x" "\<And>n. n < grow n"
  shows "implements (buffer_do ft grow x fb) (spec_do ft grow x (fb_abs fb))"
  using assms
  by (cases x)
    (simp_all add: Add_implements set_value_implements setter_defs fb_SetInt_writes FromMap_implements
       fb_Clear_def fb_Reset_def cleared_implements)

lemma buffer_run_implements:
  assumes "\<And>n. n < grow n"
  shows "fb_ok fb \<Longrightarrow> list_all buffer_op_ok xs \<Longrightarrow>
           implements (buffer_run ft grow xs fb) (foldl (\<lambda>s x. spec_do ft grow x s) (fb_abs fb) xs)"
proof (induction xs arbitrary: fb)
  case Nil
  then show ?case by (simp add: implements_def)
next
  case (Cons x xs)
  obtain fb' where "buffer_do ft grow x fb = Some fb'" "fb_ok fb'" "fb_abs fb' = spec_do ft grow x (fb_abs fb)"
    using buffer_do_implements [OF Cons.prems(1) _ assms, of x ft] Cons.prems(2) by (auto simp: implements_def)
  then show ?case using Cons.IH [of fb'] Cons.prems(2) by simp
qed

lemma new_buffers_ok: "fb_ok NewFieldBuffer" "fb_ok zero_buffer"
  "fb_abs NewFieldBuffer = (Map.empty, 8)" "fb_abs zero_buffer = (Map.empty, 0)"
  by (auto simp: fb_ok_def NewFieldBuffer_def zero_buffer_def index_of_def fb_abs_def fb_map_def)

text \<open>
  C35: every sequence of operations on a new buffer, bulk loads apart, ends without a panic in the
  map that the bounded-map specification reaches: \<open>Get\<close>, \<open>ToMap\<close> and \<open>Size\<close> read exactly that map,
  with setters dropping a new key at capacity and \<open>Add\<close> always storing.
\<close>

theorem buffer_is_a_bounded_map:
  assumes "\<And>n. n < grow n" "list_all buffer_op_ok xs"
  shows "\<exists>fb. buffer_run ft grow xs NewFieldBuffer = Some fb \<and>
           (let (m, c) = foldl (\<lambda>s x. spec_do ft grow x s) (Map.empty, 8) xs in
            fb_ToMap fb = m \<and> fb_Size fb = card (dom m) \<and> fb_cap fb = c \<and>
            (\<forall>k. fb_Get k fb = Some (case m k of Some v \<Rightarrow> (v, True) | None \<Rightarrow> (GString [], False))))"
proof -
  obtain fb where fb: "buffer_run ft grow xs NewFieldBuffer = Some fb" "fb_ok fb"
    "fb_abs fb = foldl (\<lambda>s x. spec_do ft grow x s) (Map.empty, 8) xs"
    using buffer_run_implements [OF assms(1) new_buffers_ok(1) assms(2), of ft]
    by (auto simp: implements_def new_buffers_ok)
  then show ?thesis
    by (intro exI [of _ fb])
      (simp add: fb(3) [symmetric] fb_abs_def fb_ToMap_map fb_Size_def card_fb_map fb_Get_map)
qed

theorem buffer_is_a_bounded_map_witness:
  "\<exists>fb. buffer_run (\<lambda>_. ''1.5'') (\<lambda>n. 2 * n + 1)
          [OFrom [(''a'', GInt 1), (''b'', GNil)], OString ''a'' ''x'', OInt ''c'' 7, OClear, OBool ''d'' True] NewFieldBuffer = Some fb \<and>
        fb_Size fb = 1 \<and> fb_Get ''d'' fb = Some (GString ''true'', True) \<and> fb_Get ''a'' fb = Some (GString [], False)"
  using buffer_is_a_bounded_map
    [of "\<lambda>n. 2 * n + 1"
        "[OFrom [(''a'', GInt 1), (''b'', GNil)], OString ''a'' ''x'', OInt ''c'' 7, OClear, OBool ''d'' True]" "\<lambda>_. ''1.5''"]
  by (auto simp: spec_push_def spec_set_def fb_alloc_def is_s64_def)

text \<open>The ninth new key of a setter is dropped; \<open>Add\<close> stores it.\<close>

lemma set_at_capacity:
  "fb_ok fb \<Longrightarrow> index_of fb k = None \<Longrightarrow> \<not> fb_isNil fb \<Longrightarrow> length (fb_keys fb) = fb_cap fb \<Longrightarrow> fb_Set grow k v fb = Some fb"
  by (simp add: fb_Set_def set_value_def init_nil_def)

text \<open>
  A bulk load leaves the index of the old keys behind: reading an old key whose position
  the new fields do not have panics, a position they have gives another key's value, and the new
  keys are not found.
\<close>

theorem SetBulk_keeps_stale_index:
  assumes "fb_ok fb" "index_of fb k = Some i" "fs \<noteq> []" "k' \<notin> dom (fb_map fb)"
  shows "fb_Get k (fb_SetBulk fs fb) = (if i < length fs then Some (snd (fs ! i), True) else None) \<and>
         fb_Get k' (fb_SetBulk fs fb) = Some (GString [], False) \<and>
         fb_Get k (fb_SetBulk [] fb) = None"
proof -
  have i: "index_of (fb_SetBulk gs fb) x = index_of fb x" for gs x
    by (simp add: fb_SetBulk_def Let_def index_of_def)
  have v: "fb_values (fb_SetBulk gs fb) = map snd gs" for gs
    by (cases gs) (simp_all add: fb_SetBulk_def Let_def)
  show ?thesis using assms index_dom [of fb k'] by (simp add: fb_Get_def i v)
qed

theorem SetBulk_keeps_stale_index_witness:
  "fb_Get ''old'' (fb_SetBulk [(''new'', GInt 1)] (the (fb_Set Suc ''old'' GNil NewFieldBuffer))) = Some (GInt 1, True)"
proof -
  define fb where "fb = the (fb_Set Suc ''old'' GNil NewFieldBuffer)"
  have s: "fb_Set Suc ''old'' GNil NewFieldBuffer =
      Some \<lparr>fb_keys = [''old''], fb_values = [GNil], fb_keyMap = Some [''old'' \<mapsto> 0], fb_cap = 8, fb_isNil = False\<rparr>"
    by (simp add: fb_Set_def set_value_def append_field_def NewFieldBuffer_def init_nil_def index_of_def)
  have "fb_ok fb" by (auto simp: fb_def s fb_ok_def index_of_def)
  moreover have "index_of fb ''old'' = Some 0" by (simp add: fb_def s index_of_def)
  moreover have "''new'' \<notin> dom (fb_map fb)" by (simp add: index_dom [symmetric] fb_def s index_of_def)
  ultimately show ?thesis
    using SetBulk_keeps_stale_index [of fb "''old''" 0 "[(''new'', GInt 1)]" "''new''"] by (simp add: fb_def)
qed

text \<open>On the zero value the index is still the nil map after a bulk load: the next new key panics.\<close>

lemma zero_bulk_then_Add_panics: "fs \<noteq> [] \<Longrightarrow> fb_Add ft grow k v (fb_SetBulk fs zero_buffer) = None"
  by (cases fs) (simp_all add: fb_SetBulk_def zero_buffer_def fb_Add_def index_of_def init_nil_def append_field_def Let_def)

end
