(* ===== verification/Field_Types.thy ===== *)
theory Field_Types
  imports Field_Buffer
begin

text \<open>
  \<^verbatim>\<open>types/typed_field.go\<close>, \<^verbatim>\<open>types/typed_field_methods.go\<close>, \<^verbatim>\<open>types/auto_infer.go\<close>, \<^verbatim>\<open>types/fields.go\<close>
  and \<^verbatim>\<open>types/fields_builder.go\<close>: fields that carry a type tag, their constructors and accessors;
  \<^verbatim>\<open>types/static_field.go\<close>: fields in fixed-size storage; \<^verbatim>\<open>types/field.go\<close>: styled fields.

  A dynamic value is one of the values of the JSON formatter or a \<open>time.Time\<close> (its text), a
  \<open>time.Duration\<close> (nanoseconds) or a byte slice. \<open>widen\<close> converts a \<open>float32\<close> to a \<open>float64\<close>, \<open>f2i\<close> a
  \<open>float64\<close> to an \<open>int64\<close> and \<open>i2f\<close> back; \<open>ft6\<close> prints a float with six decimals.
\<close>

section \<open>Typed fields\<close>

datatype tvalue = TAny go_any | TTime string | TDuration int | TBytes string

datatype field_type =
    TypedFieldString | TypedFieldInt64 | TypedFieldUint64 | TypedFieldFloat64 | TypedFieldBool | TypedFieldTime
  | TypedFieldDuration | TypedFieldError | TypedFieldBytes | TypedFieldNil | TypedFieldAny

fun field_type_String :: "field_type \<Rightarrow> string" where
  "field_type_String TypedFieldString = ''string''"
| "field_type_String TypedFieldInt64 = ''int64''"
| "field_type_String TypedFieldUint64 = ''uint64''"
| "field_type_String TypedFieldFloat64 = ''float64''"
| "field_type_String TypedFieldBool = ''bool''"
| "field_type_String TypedFieldTime = ''time''"
| "field_type_String TypedFieldDuration = ''duration''"
| "field_type_String TypedFieldError = ''error''"
| "field_type_String TypedFieldBytes = ''bytes''"
| "field_type_String TypedFieldNil = ''nil''"
| "field_type_String TypedFieldAny = ''any''"

record typed_data =
  td_Key :: string
  td_KeyDesc :: "field_key option"
  td_Val :: field_value
  td_Value :: tvalue
  td_Type :: field_type

definition td :: "string \<Rightarrow> tvalue \<Rightarrow> field_type \<Rightarrow> typed_data" where
  "td key v t = \<lparr>td_Key = key, td_KeyDesc = None, td_Val = zero_value, td_Value = v, td_Type = t\<rparr>"

definition td_GetKey :: "typed_data \<Rightarrow> string" where
  "td_GetKey f = td_Key f"

definition td_GetValue :: "typed_data \<Rightarrow> tvalue" where
  "td_GetValue f = td_Value f"

definition td_GetType :: "typed_data \<Rightarrow> field_type" where
  "td_GetType f = td_Type f"

definition td_IsOptimized :: "typed_data \<Rightarrow> bool" where
  "td_IsOptimized f \<longleftrightarrow> fv_Kind (td_Val f) \<noteq> KindUnknown \<and> fv_Kind (td_Val f) \<noteq> KindAny"

definition td_IntValue :: "typed_data \<Rightarrow> int" where
  "td_IntValue f = (case td_Value f of TAny (GInt64 v) \<Rightarrow> v | TAny (GInt v) \<Rightarrow> v | _ \<Rightarrow> 0)"

definition td_UintValue :: "typed_data \<Rightarrow> int" where
  "td_UintValue f = (case td_Value f of TAny (GUint64 v) \<Rightarrow> v | TAny (GUint v) \<Rightarrow> v | _ \<Rightarrow> 0)"

definition td_FloatValue :: "(go_float \<Rightarrow> go_float) \<Rightarrow> typed_data \<Rightarrow> go_float" where
  "td_FloatValue widen f =
     (case td_Value f of TAny (GFloat64 v) \<Rightarrow> v | TAny (GFloat32 v) \<Rightarrow> widen v | _ \<Rightarrow> FNum ''0'')"

definition td_BoolValue :: "typed_data \<Rightarrow> bool" where
  "td_BoolValue f = (case td_Value f of TAny (GBool v) \<Rightarrow> v | _ \<Rightarrow> False)"

definition td_StringValue :: "typed_data \<Rightarrow> string option" where
  "td_StringValue f =
     (case td_Value f of TAny (GString v) \<Rightarrow> Some v | TAny (GError e) \<Rightarrow> Some e | TBytes v \<Rightarrow> Some v | _ \<Rightarrow> None)"

section \<open>Inference\<close>

fun inferTypeFromValue :: "tvalue \<Rightarrow> field_type" where
  "inferTypeFromValue (TAny (GString s)) = TypedFieldString"
| "inferTypeFromValue (TAny (GInt i)) = TypedFieldInt64"
| "inferTypeFromValue (TAny (GInt8 i)) = TypedFieldInt64"
| "inferTypeFromValue (TAny (GInt16 i)) = TypedFieldInt64"
| "inferTypeFromValue (TAny (GInt32 i)) = TypedFieldInt64"
| "inferTypeFromValue (TAny (GInt64 i)) = TypedFieldInt64"
| "inferTypeFromValue (TAny (GUint u)) = TypedFieldUint64"
| "inferTypeFromValue (TAny (GUint8 u)) = TypedFieldUint64"
| "inferTypeFromValue (TAny (GUint16 u)) = TypedFieldUint64"
| "inferTypeFromValue (TAny (GUint32 u)) = TypedFieldUint64"
| "inferTypeFromValue (TAny (GUint64 u)) = TypedFieldUint64"
| "inferTypeFromValue (TAny (GFloat32 f)) = TypedFieldFloat64"
| "inferTypeFromValue (TAny (GFloat64 f)) = TypedFieldFloat64"
| "inferTypeFromValue (TAny (GBool b)) = TypedFieldBool"
| "inferTypeFromValue (TTime t) = TypedFieldTime"
| "inferTypeFromValue (TDuration d) = TypedFieldDuration"
| "inferTypeFromValue (TBytes b) = TypedFieldBytes"
| "inferTypeFromValue v = TypedFieldString"

fun AutoInferType :: "(go_float \<Rightarrow> go_float) \<Rightarrow> string \<Rightarrow> tvalue \<Rightarrow> typed_data" where
  "AutoInferType widen key (TAny (GString v)) = td key (TAny (GString v)) TypedFieldString"
| "AutoInferType widen key (TAny (GInt v)) = td key (TAny (GInt64 v)) TypedFieldInt64"
| "AutoInferType widen key (TAny (GInt8 v)) = td key (TAny (GInt64 v)) TypedFieldInt64"
| "AutoInferType widen key (TAny (GInt16 v)) = td key (TAny (GInt64 v)) TypedFieldInt64"
| "AutoInferType widen key (TAny (GInt32 v)) = td key (TAny (GInt64 v)) TypedFieldInt64"
| "AutoInferType widen key (TAny (GInt64 v)) = td key (TAny (GInt64 v)) TypedFieldInt64"
| "AutoInferType widen key (TAny (GUint v)) = td key (TAny (GUint64 v)) TypedFieldUint64"
| "AutoInferType widen key (TAny (GUint8 v)) = td key (TAny (GUint64 v)) TypedFieldUint64"
| "AutoInferType widen key (TAny (GUint16 v)) = td key (TAny (GUint64 v)) TypedFieldUint64"
| "AutoInferType widen key (TAny (GUint32 v)) = td key (TAny (GUint64 v)) TypedFieldUint64"
| "AutoInferType widen key (TAny (GUint64 v)) = td key (TAny (GUint64 v)) TypedFieldUint64"
| "AutoInferType widen key (TAny (GFloat32 v)) = td key (TAny (GFloat64 (widen v))) TypedFieldFloat64"
| "AutoInferType widen key (TAny (GFloat64 v)) = td key (TAny (GFloat64 v)) TypedFieldFloat64"
| "AutoInferType widen key (TAny (GBool v)) = td key (TAny (GBool v)) TypedFieldBool"
| "AutoInferType widen key (TTime v) = td key (TTime v) TypedFieldTime"
| "AutoInferType widen key (TDuration v) = td key (TDuration v) TypedFieldDuration"
| "AutoInferType widen key (TBytes v) = td key (TBytes v) TypedFieldBytes"
| "AutoInferType widen key (TAny (GError e)) = td key (TAny (GString e)) TypedFieldError"
| "AutoInferType widen key (TAny GNil) = td key (TAny GNil) TypedFieldNil"
| "AutoInferType widen key (TAny (GOther t)) = td key (TAny (GOther t)) TypedFieldString"



definition FieldMap :: "(go_float \<Rightarrow> go_float) \<Rightarrow> (string \<times> tvalue) list \<Rightarrow> typed_data list option" where
  "FieldMap widen m = (if length m = 0 then None else Some (map (\<lambda>(key, v). AutoInferType widen key v) m))"

section \<open>Explicit constructors\<close>

definition f_String :: "string \<Rightarrow> string \<Rightarrow> typed_data" where
  "f_String key v = td key (TAny (GString v)) TypedFieldString"

definition f_Int :: "string \<Rightarrow> int \<Rightarrow> typed_data" where
  "f_Int key v = td key (TAny (GInt64 v)) TypedFieldInt64"

definition f_Uint :: "string \<Rightarrow> int \<Rightarrow> typed_data" where
  "f_Uint key v = td key (TAny (GUint64 v)) TypedFieldUint64"

definition f_Float :: "string \<Rightarrow> go_float \<Rightarrow> typed_data" where
  "f_Float key v = td key (TAny (GFloat64 v)) TypedFieldFloat64"

definition f_Bool :: "string \<Rightarrow> bool \<Rightarrow> typed_data" where
  "f_Bool key v = td key (TAny (GBool v)) TypedFieldBool"

definition f_Time :: "string \<Rightarrow> string \<Rightarrow> typed_data" where
  "f_Time key v = td key (TTime v) TypedFieldTime"

definition f_Duration :: "string \<Rightarrow> int \<Rightarrow> typed_data" where
  "f_Duration key v = td key (TDuration v) TypedFieldDuration"

definition f_Error :: "string \<Rightarrow> string option \<Rightarrow> typed_data" where
  "f_Error key v = (case v of None \<Rightarrow> td key (TAny GNil) TypedFieldNil
                    | Some e \<Rightarrow> td key (TAny (GString e)) TypedFieldError)"

definition f_Bytes :: "string \<Rightarrow> string \<Rightarrow> typed_data" where
  "f_Bytes key v = td key (TBytes v) TypedFieldBytes"

definition f_Nil :: "string \<Rightarrow> typed_data" where
  "f_Nil key = td key (TAny GNil) TypedFieldNil"

definition UserID :: "(go_float \<Rightarrow> go_float) \<Rightarrow> tvalue \<Rightarrow> typed_data" where
  "UserID widen v = AutoInferType widen ''user_id'' v"

definition RequestID :: "(go_float \<Rightarrow> go_float) \<Rightarrow> string \<Rightarrow> typed_data" where
  "RequestID widen v = AutoInferType widen ''request_id'' (TAny (GString v))"

definition TraceID :: "(go_float \<Rightarrow> go_float) \<Rightarrow> string \<Rightarrow> typed_data" where
  "TraceID widen v = AutoInferType widen ''trace_id'' (TAny (GString v))"

definition SpanID :: "(go_float \<Rightarrow> go_float) \<Rightarrow> string \<Rightarrow> typed_data" where
  "SpanID widen v = AutoInferType widen ''span_id'' (TAny (GString v))"

definition f_Err :: "string option \<Rightarrow> typed_data" where
  "f_Err v = f_Error ''error'' v"

definition f_Msg :: "string \<Rightarrow> typed_data" where
  "f_Msg v = f_String ''msg'' v"

definition f_Method :: "string \<Rightarrow> typed_data" where
  "f_Method v = f_String ''method'' v"

definition f_Path :: "string \<Rightarrow> typed_data" where
  "f_Path v = f_String ''path'' v"

definition f_Status :: "int \<Rightarrow> typed_data" where
  "f_Status v = f_Int ''status'' v"

definition DurationMs :: "int \<Rightarrow> typed_data" where
  "DurationMs v = f_Int ''duration_ms'' v"

section \<open>The builder\<close>

record fields_builder =
  bd_keys :: "string list"
  bd_values :: "go_any list"

definition NewFieldsBuilder :: fields_builder where
  "NewFieldsBuilder = \<lparr>bd_keys = [], bd_values = []\<rparr>"

definition bd_AddInt :: "string \<Rightarrow> int \<Rightarrow> fields_builder \<Rightarrow> fields_builder" where
  "bd_AddInt key v b = b\<lparr>bd_keys := bd_keys b @ [key], bd_values := bd_values b @ [GInt v]\<rparr>"

definition bd_AddInt64 :: "string \<Rightarrow> int \<Rightarrow> fields_builder \<Rightarrow> fields_builder" where
  "bd_AddInt64 key v b = b\<lparr>bd_keys := bd_keys b @ [key], bd_values := bd_values b @ [GString (itoa v)]\<rparr>"

definition bd_AddFloat64 :: "(go_float \<Rightarrow> string) \<Rightarrow> string \<Rightarrow> go_float \<Rightarrow> fields_builder \<Rightarrow> fields_builder" where
  "bd_AddFloat64 ft6 key v b = b\<lparr>bd_keys := bd_keys b @ [key], bd_values := bd_values b @ [GString (ft6 v)]\<rparr>"

definition bd_AddBool :: "string \<Rightarrow> bool \<Rightarrow> fields_builder \<Rightarrow> fields_builder" where
  "bd_AddBool key v b =
     b\<lparr>bd_keys := bd_keys b @ [key], bd_values := bd_values b @ [GString (if v then ''true'' else ''false'')]\<rparr>"

definition bd_AddString :: "string \<Rightarrow> string \<Rightarrow> fields_builder \<Rightarrow> fields_builder" where
  "bd_AddString key v b = b\<lparr>bd_keys := bd_keys b @ [key], bd_values := bd_values b @ [GString v]\<rparr>"

text \<open>The type of a built field is the zero of its enumeration.\<close>

definition bd_Build :: "fields_builder \<Rightarrow> typed_data list" where
  "bd_Build b = map (\<lambda>i. td (bd_keys b ! i) (TAny (bd_values b ! i)) TypedFieldString) [0..<length (bd_keys b)]"

section \<open>Fixed-size storage\<close>

record static_field =
  sf_key :: string
  sf_value :: int
  sf_str :: "string option"
  sf_type :: field_type

definition static_key_bytes :: "string \<Rightarrow> string" where
  "static_key_bytes key =
     (let keyBytes = (if length key > 31 then take 31 key else key)
      in (keyBytes @ replicate (32 - length keyBytes) (CHR 0x00))[length keyBytes := CHR 0x00])"

definition ConvertTypedFieldToStatic :: "(go_float \<Rightarrow> int) \<Rightarrow> typed_data \<Rightarrow> static_field" where
  "ConvertTypedFieldToStatic f2i f =
     (let sf = \<lparr>sf_key = static_key_bytes (td_GetKey f), sf_value = 0, sf_str = None, sf_type = TypedFieldString\<rparr>
      in case td_GetType f of
           TypedFieldString \<Rightarrow> (case td_GetValue f of TAny (GString s) \<Rightarrow> sf\<lparr>sf_str := Some s, sf_type := TypedFieldString\<rparr> | _ \<Rightarrow> sf)
         | TypedFieldInt64 \<Rightarrow> (case td_GetValue f of
               TAny (GInt64 v) \<Rightarrow> sf\<lparr>sf_value := v, sf_type := TypedFieldInt64\<rparr>
             | TAny (GInt v) \<Rightarrow> sf\<lparr>sf_value := v, sf_type := TypedFieldInt64\<rparr>
             | _ \<Rightarrow> sf)
         | TypedFieldFloat64 \<Rightarrow> (case td_GetValue f of
               TAny (GFloat64 v) \<Rightarrow> sf\<lparr>sf_value := f2i v, sf_type := TypedFieldFloat64\<rparr> | _ \<Rightarrow> sf)
         | TypedFieldBool \<Rightarrow> (case td_GetValue f of
               TAny (GBool v) \<Rightarrow> (let sf = (if v then sf\<lparr>sf_value := 1\<rparr> else sf) in sf\<lparr>sf_type := TypedFieldBool\<rparr>) | _ \<Rightarrow> sf)
         | _ \<Rightarrow> sf\<lparr>sf_type := TypedFieldString\<rparr>)"

definition sf_KeyBytes :: "static_field \<Rightarrow> string" where
  "sf_KeyBytes sf = takeWhile (\<lambda>c. c \<noteq> CHR 0x00) (sf_key sf)"

definition sf_Key :: "static_field \<Rightarrow> string" where
  "sf_Key sf = takeWhile (\<lambda>c. c \<noteq> CHR 0x00) (sf_key sf)"

definition sf_Type :: "static_field \<Rightarrow> field_type" where
  "sf_Type sf = sf_type sf"

definition sf_StringValue :: "static_field \<Rightarrow> string option" where
  "sf_StringValue sf = (if sf_type sf = TypedFieldString then sf_str sf else None)"

definition sf_IntValue :: "static_field \<Rightarrow> int" where
  "sf_IntValue sf = (if sf_type sf = TypedFieldInt64 then sf_value sf else 0)"

definition sf_UintValue :: "static_field \<Rightarrow> int" where
  "sf_UintValue sf = (if sf_type sf = TypedFieldUint64 then sf_value sf mod 2 ^ 64 else 0)"

definition sf_FloatValue :: "(int \<Rightarrow> go_float) \<Rightarrow> static_field \<Rightarrow> go_float" where
  "sf_FloatValue i2f sf = (if sf_type sf = TypedFieldFloat64 then i2f (sf_value sf) else FNum ''0'')"

definition sf_BoolValue :: "static_field \<Rightarrow> bool" where
  "sf_BoolValue sf \<longleftrightarrow> sf_type sf = TypedFieldBool \<and> sf_value sf \<noteq> 0"

definition ConvertTypedFieldToTypedFieldData :: "typed_data \<Rightarrow> typed_data" where
  "ConvertTypedFieldToTypedFieldData f = td (td_GetKey f) (td_GetValue f) (td_GetType f)"

section \<open>Styled fields\<close>

datatype color =
    ColorReset | ColorBlack | ColorRed | ColorGreen | ColorYellow | ColorBlue | ColorMagenta | ColorCyan
  | ColorWhite | ColorGray | ColorBrightRed | ColorBrightGreen | ColorBrightYellow | ColorBrightBlue
  | ColorBrightMagenta | ColorBrightCyan | ColorBrightWhite

record styled_field =
  sty_Field :: typed_data
  sty_FgColor :: color
  sty_BgColor :: color
  sty_Bold :: bool
  sty_Italic :: bool
  sty_Underline :: bool
  sty_Masked :: bool
  sty_MaskIf :: bool
  sty_Highlight :: bool

definition SF :: "(go_float \<Rightarrow> go_float) \<Rightarrow> string \<Rightarrow> tvalue \<Rightarrow> styled_field" where
  "SF widen key v =
     \<lparr>sty_Field = AutoInferType widen key v, sty_FgColor = ColorReset, sty_BgColor = ColorReset, sty_Bold = False,
      sty_Italic = False, sty_Underline = False, sty_Masked = False, sty_MaskIf = False, sty_Highlight = False\<rparr>"

datatype style_call =
    SColor color | SBackground color | SetBold | SetItalic | SetUnderline | SetMasked | SetHighlight
  | SInfo | SSuccess | SWarning | SError | SCritical | SMuted

fun style_do :: "style_call \<Rightarrow> styled_field \<Rightarrow> styled_field" where
  "style_do (SColor c) sf = sf\<lparr>sty_FgColor := c\<rparr>"
| "style_do (SBackground c) sf = sf\<lparr>sty_BgColor := c\<rparr>"
| "style_do SetBold sf = sf\<lparr>sty_Bold := True\<rparr>"
| "style_do SetItalic sf = sf\<lparr>sty_Italic := True\<rparr>"
| "style_do SetUnderline sf = sf\<lparr>sty_Underline := True\<rparr>"
| "style_do SetMasked sf = sf\<lparr>sty_Masked := True\<rparr>"
| "style_do SetHighlight sf = sf\<lparr>sty_Highlight := True\<rparr>"
| "style_do SInfo sf = sf\<lparr>sty_FgColor := ColorCyan\<rparr>"
| "style_do SSuccess sf = sf\<lparr>sty_FgColor := ColorGreen\<rparr>"
| "style_do SWarning sf = sf\<lparr>sty_FgColor := ColorYellow\<rparr>"
| "style_do SError sf = sf\<lparr>sty_FgColor := ColorRed, sty_Bold := True\<rparr>"
| "style_do SCritical sf =
     sf\<lparr>sty_FgColor := ColorBrightRed, sty_BgColor := ColorBlack, sty_Bold := True, sty_Underline := True\<rparr>"
| "style_do SMuted sf = sf\<lparr>sty_FgColor := ColorGray\<rparr>"

definition ToTypedField :: "styled_field \<Rightarrow> typed_data" where
  "ToTypedField sf = sty_Field sf"

section \<open>The tag is the type of the value\<close>


fun of_type :: "field_type \<Rightarrow> tvalue \<Rightarrow> bool" where
  "of_type TypedFieldString v = (case v of TAny (GString s) \<Rightarrow> True | TAny (GOther t) \<Rightarrow> True | _ \<Rightarrow> False)"
| "of_type TypedFieldInt64 v = (case v of TAny (GInt64 i) \<Rightarrow> is_s64 i | _ \<Rightarrow> False)"
| "of_type TypedFieldUint64 v = (case v of TAny (GUint64 u) \<Rightarrow> 0 \<le> u \<and> u < 2 ^ 64 | _ \<Rightarrow> False)"
| "of_type TypedFieldFloat64 v = (case v of TAny (GFloat64 f) \<Rightarrow> True | _ \<Rightarrow> False)"
| "of_type TypedFieldBool v = (case v of TAny (GBool b) \<Rightarrow> True | _ \<Rightarrow> False)"
| "of_type TypedFieldTime v = (case v of TTime t \<Rightarrow> True | _ \<Rightarrow> False)"
| "of_type TypedFieldDuration v = (case v of TDuration d \<Rightarrow> is_s64 d | _ \<Rightarrow> False)"
| "of_type TypedFieldError v = (case v of TAny (GString s) \<Rightarrow> True | _ \<Rightarrow> False)"
| "of_type TypedFieldBytes v = (case v of TBytes b \<Rightarrow> True | _ \<Rightarrow> False)"
| "of_type TypedFieldNil v = (v = TAny GNil)"
| "of_type TypedFieldAny v = True"

definition well_typed :: "typed_data \<Rightarrow> bool" where
  "well_typed f \<longleftrightarrow> of_type (td_Type f) (td_Value f)"


lemma AutoInferType_key [simp]: "td_Key (AutoInferType widen key v) = key"
  by (cases "(widen, key, v)" rule: AutoInferType.cases) (auto simp: td_def)

lemma AutoInferType_tag:
  "td_Type (AutoInferType widen key v) =
     (case v of TAny (GError e) \<Rightarrow> TypedFieldError | TAny GNil \<Rightarrow> TypedFieldNil | _ \<Rightarrow> inferTypeFromValue v)"
  by (cases "(widen, key, v)" rule: AutoInferType.cases) (auto simp: td_def)




text \<open>The builder leaves the tag of every field at \<open>String\<close>, an integer's too.\<close>

lemma AddInt_ill_typed:
  "bd_Build (bd_AddInt key v NewFieldsBuilder) = [td key (TAny (GInt v)) TypedFieldString] \<and>
   \<not> list_all well_typed (bd_Build (bd_AddInt key v NewFieldsBuilder))"
  by (simp add: bd_Build_def bd_AddInt_def NewFieldsBuilder_def well_typed_def td_def)

section \<open>What fixed-size storage keeps\<close>

lemma sf_key_buffer:
  "n \<le> 31 \<Longrightarrow> n = length k \<Longrightarrow>
     (k @ replicate (32 - n) (CHR 0x00))[n := CHR 0x00] = k @ replicate (32 - n) (CHR 0x00)"
  by (cases "32 - n") (auto simp: list_update_append)

lemma static_key:
  "sf_key (ConvertTypedFieldToStatic f2i f) = take 31 (td_Key f) @ replicate (32 - min 31 (length (td_Key f))) (CHR 0x00)"
proof -
  have "sf_key (ConvertTypedFieldToStatic f2i f) = static_key_bytes (td_Key f)"
    by (cases "td_Type f")
      (simp_all add: ConvertTypedFieldToStatic_def Let_def td_GetKey_def td_GetType_def split: tvalue.split go_any.split)
  also have "\<dots> = take 31 (td_Key f) @ replicate (32 - min 31 (length (td_Key f))) (CHR 0x00)"
    using sf_key_buffer [of "min 31 (length (td_Key f))" "take 31 (td_Key f)"]
    by (auto simp: static_key_bytes_def Let_def min_def)
  finally show ?thesis .
qed

text \<open>
  Fixed-size storage keeps a string, an \<open>int64\<close> and a boolean exactly, under the key's
  first 31 bytes up to a zero byte; of a float it keeps the integer part, and an unsigned integer is lost:
  its field reads as a string field without a string.
\<close>

theorem static_field_keeps:
  assumes "well_typed f"
  shows "length (sf_key (ConvertTypedFieldToStatic f2i f)) = 32 \<and>
         sf_Key (ConvertTypedFieldToStatic f2i f) = takeWhile (\<lambda>c. c \<noteq> CHR 0x00) (take 31 (td_Key f)) \<and>
         (case td_Value f of
            TAny (GString s) \<Rightarrow> td_Type f = TypedFieldString \<longrightarrow> sf_StringValue (ConvertTypedFieldToStatic f2i f) = Some s
          | TAny (GInt64 i) \<Rightarrow> td_Type f \<noteq> TypedFieldAny \<longrightarrow> sf_IntValue (ConvertTypedFieldToStatic f2i f) = i
          | TAny (GBool b) \<Rightarrow> td_Type f \<noteq> TypedFieldAny \<longrightarrow> sf_BoolValue (ConvertTypedFieldToStatic f2i f) = b
          | TAny (GFloat64 x) \<Rightarrow> td_Type f \<noteq> TypedFieldAny \<longrightarrow> sf_FloatValue i2f (ConvertTypedFieldToStatic f2i f) = i2f (f2i x)
          | TAny (GUint64 u) \<Rightarrow> sf_UintValue (ConvertTypedFieldToStatic f2i f) = 0 \<and>
              sf_Type (ConvertTypedFieldToStatic f2i f) = TypedFieldString \<and>
              sf_StringValue (ConvertTypedFieldToStatic f2i f) = None
          | _ \<Rightarrow> True)"
proof -
  have "takeWhile (\<lambda>c. c \<noteq> CHR 0x00) (xs @ replicate n (CHR 0x00)) = takeWhile (\<lambda>c. c \<noteq> CHR 0x00) xs" for xs n
    by (induction xs) (cases n; simp)+
  then have "sf_Key (ConvertTypedFieldToStatic f2i f) = takeWhile (\<lambda>c. c \<noteq> CHR 0x00) (take 31 (td_Key f))"
    by (simp add: sf_Key_def static_key)
  moreover have "length (sf_key (ConvertTypedFieldToStatic f2i f)) = 32" by (simp add: static_key)
  moreover have "case td_Value f of
            TAny (GString s) \<Rightarrow> td_Type f = TypedFieldString \<longrightarrow> sf_StringValue (ConvertTypedFieldToStatic f2i f) = Some s
          | TAny (GInt64 i) \<Rightarrow> td_Type f \<noteq> TypedFieldAny \<longrightarrow> sf_IntValue (ConvertTypedFieldToStatic f2i f) = i
          | TAny (GBool b) \<Rightarrow> td_Type f \<noteq> TypedFieldAny \<longrightarrow> sf_BoolValue (ConvertTypedFieldToStatic f2i f) = b
          | TAny (GFloat64 x) \<Rightarrow> td_Type f \<noteq> TypedFieldAny \<longrightarrow> sf_FloatValue i2f (ConvertTypedFieldToStatic f2i f) = i2f (f2i x)
          | TAny (GUint64 u) \<Rightarrow> sf_UintValue (ConvertTypedFieldToStatic f2i f) = 0 \<and>
              sf_Type (ConvertTypedFieldToStatic f2i f) = TypedFieldString \<and>
              sf_StringValue (ConvertTypedFieldToStatic f2i f) = None
          | _ \<Rightarrow> True"
    using assms
    by (cases "td_Type f")
      (simp_all add: well_typed_def ConvertTypedFieldToStatic_def Let_def td_GetType_def td_GetValue_def
        sf_StringValue_def sf_IntValue_def sf_BoolValue_def sf_FloatValue_def sf_UintValue_def sf_Type_def
        split: tvalue.splits go_any.splits)
  ultimately show ?thesis by simp
qed

end
