(* ===== verification/Config_Builder.thy ===== *)
theory Config_Builder
  imports Masking Field_Types "HOL-Library.AList"
begin

text \<open>
  \<^verbatim>\<open>config/config.go\<close> and \<^verbatim>\<open>config/defaults.go\<close>: the configuration builder, the environment defaults
  and \<open>Build\<close>, which turns a builder into the immutable configuration of the logger.

  A Go map is an association list whose keys \<open>AList.update\<close> keeps distinct; the order in which a loop
  ranges over a map is an argument of \<open>Build\<close>, any list with the same lookups. A callback is a name.
  \<open>'a\<close> are the adapters, which are only passed on. \<open>env\<close> is \<open>os.Getenv\<close>; \<open>ToLower\<close> acts on ASCII texts.
  \<open>WithFieldBasedMasking\<close> returns the builder unchanged.
\<close>

section \<open>Data\<close>

record policy_rule =
  pr_Name :: string
  pr_Pattern :: string
  pr_Action :: string

record masking_rule =
  mk_Pattern :: string
  mk_Replace :: string
  mk_Type :: string

record config_sensitive =
  cs_Name :: string
  cs_FieldID :: int
  cs_Mask :: string

record context_fields_config =
  cf_Enabled :: bool
  cf_Fields :: "string list"

record startup_config =
  st_CustomFields :: "string list"
  st_SensitiveFields :: "config_sensitive list"
  st_FieldColors :: "(string \<times> color) list"
  st_OptimalBufferSize :: int
  st_ContextFields :: "context_fields_config option"

record file_output_config =
  fo_Path :: string
  fo_MaxSize :: int
  fo_MaxBackups :: int
  fo_MaxAge :: int

record async_buffer_config =
  ab_BufferSize :: int
  ab_FlushInterval :: int

datatype exit_func = OsExit | CustomExit nat
datatype panic_func = GoPanic | CustomPanic nat

record 'a config_builder =
  cb_env :: string
  cb_level :: nat
  cb_colorized :: bool
  cb_prettyPrint :: bool
  cb_adapters :: "'a list"
  cb_policyRules :: "policy_rule list"
  cb_maskingRules :: "masking_rule list"
  cb_debugBufferSize :: int
  cb_maxDebugHistory :: int
  cb_lineInDebug :: bool
  cb_lineInError :: bool
  cb_verbose :: bool
  cb_errorHandler :: "nat option"
  cb_exitFunc :: exit_func
  cb_panicFunc :: panic_func
  cb_enableMetrics :: bool
  cb_enablePooling :: bool
  cb_enableAutoFields :: bool
  cb_enableAsync :: bool
  cb_formatter :: string
  cb_fileOutput :: "file_output_config option"
  cb_consoleOutput :: string
  cb_asyncBuffer :: "async_buffer_config option"
  cb_sensitiveFields :: "(string \<times> string) list"
  cb_startupRegistration :: "startup_config option"
  cb_customFields :: "string list"
  cb_fieldColors :: "(string \<times> color) list"
  cb_optimalBufferSize :: int
  cb_contextFieldsConfig :: "context_fields_config option"
  cb_envSet :: bool
  cb_levelSet :: bool
  cb_colorizedSet :: bool
  cb_prettyPrintSet :: bool
  cb_lineInDebugSet :: bool
  cb_lineInErrorSet :: bool
  cb_levelFromEnv :: bool
  cb_levelFromDefaults :: bool

record ('a, 'r) immutable_config =
  ic_Level :: nat
  ic_Adapters :: "'a list"
  ic_EnableMasking :: bool
  ic_EnableAsync :: bool
  ic_EnableJSON :: bool
  ic_EnableColorized :: bool
  ic_EnablePrettyPrint :: bool
  ic_EnableMetrics :: bool
  ic_Masker :: "'r pii_masker option"
  ic_WorkerCount :: int
  ic_PolicyRules :: "policy_rule list"
  ic_PanicFunc :: panic_func
  ic_LineInDebug :: bool
  ic_LineInError :: bool
  ic_SensitiveFieldRegistry :: "sensitive_registry option"
  ic_EnableFieldBasedMasking :: bool
  ic_StartupRegistration :: "startup_config option"
  ic_RegisteredFieldIDs :: "(string \<times> int) list"
  ic_SensitiveFieldMap :: "(int \<times> string) list"
  ic_FieldColorMap :: "(int \<times> color) list"
  ic_OptimalBufferSize :: int
  ic_ContextFieldsConfig :: "context_fields_config option"

section \<open>The fluent interface\<close>

definition NewConfig :: "'a config_builder" where
  "NewConfig = \<lparr>cb_env = [], cb_level = InfoLevel, cb_colorized = True, cb_prettyPrint = True, cb_adapters = [],
     cb_policyRules = [], cb_maskingRules = [], cb_debugBufferSize = 1000, cb_maxDebugHistory = 1000,
     cb_lineInDebug = False, cb_lineInError = True, cb_verbose = False, cb_errorHandler = None,
     cb_exitFunc = OsExit, cb_panicFunc = GoPanic, cb_enableMetrics = True, cb_enablePooling = True,
     cb_enableAutoFields = True, cb_enableAsync = False, cb_formatter = ''text'', cb_fileOutput = None,
     cb_consoleOutput = ''stdout'', cb_asyncBuffer = None, cb_sensitiveFields = [],
     cb_startupRegistration = None, cb_customFields = [], cb_fieldColors = [], cb_optimalBufferSize = 0,
     cb_contextFieldsConfig = None, cb_envSet = False, cb_levelSet = False, cb_colorizedSet = False,
     cb_prettyPrintSet = False, cb_lineInDebugSet = False, cb_lineInErrorSet = False,
     cb_levelFromEnv = False, cb_levelFromDefaults = False\<rparr>"

definition WithMaskingRule :: "masking_rule \<Rightarrow> 'a config_builder \<Rightarrow> 'a config_builder" where
  "WithMaskingRule rule c = c\<lparr>cb_maskingRules := cb_maskingRules c @ [rule]\<rparr>"

definition WithEnv :: "string \<Rightarrow> 'a config_builder \<Rightarrow> 'a config_builder" where
  "WithEnv e c = c\<lparr>cb_env := e, cb_envSet := True\<rparr>"

definition WithLevel :: "nat \<Rightarrow> 'a config_builder \<Rightarrow> 'a config_builder" where
  "WithLevel l c = c\<lparr>cb_level := l, cb_levelSet := True\<rparr>"

definition WithColorized :: "bool \<Rightarrow> 'a config_builder \<Rightarrow> 'a config_builder" where
  "WithColorized b c = c\<lparr>cb_colorized := b, cb_colorizedSet := True\<rparr>"

definition WithPrettyPrint :: "bool \<Rightarrow> 'a config_builder \<Rightarrow> 'a config_builder" where
  "WithPrettyPrint b c = c\<lparr>cb_prettyPrint := b, cb_prettyPrintSet := True\<rparr>"

definition WithOutput :: "'a \<Rightarrow> 'a config_builder \<Rightarrow> 'a config_builder" where
  "WithOutput a c = c\<lparr>cb_adapters := cb_adapters c @ [a]\<rparr>"

definition WithPolicyRule :: "policy_rule \<Rightarrow> 'a config_builder \<Rightarrow> 'a config_builder" where
  "WithPolicyRule r c = c\<lparr>cb_policyRules := cb_policyRules c @ [r]\<rparr>"

definition WithDebugBufferSize :: "int \<Rightarrow> 'a config_builder \<Rightarrow> 'a config_builder" where
  "WithDebugBufferSize n c = c\<lparr>cb_debugBufferSize := n\<rparr>"

definition WithMaxDebugHistory :: "int \<Rightarrow> 'a config_builder \<Rightarrow> 'a config_builder" where
  "WithMaxDebugHistory n c = c\<lparr>cb_maxDebugHistory := n\<rparr>"

definition WithLineInDebug :: "bool \<Rightarrow> 'a config_builder \<Rightarrow> 'a config_builder" where
  "WithLineInDebug b c = c\<lparr>cb_lineInDebug := b, cb_lineInDebugSet := True\<rparr>"

definition WithLineInfoInDebug :: "bool \<Rightarrow> 'a config_builder \<Rightarrow> 'a config_builder" where
  "WithLineInfoInDebug b c = WithLineInDebug b c"

definition WithLineInError :: "bool \<Rightarrow> 'a config_builder \<Rightarrow> 'a config_builder" where
  "WithLineInError b c = c\<lparr>cb_lineInError := b, cb_lineInErrorSet := True\<rparr>"

definition WithVerbose :: "bool \<Rightarrow> 'a config_builder \<Rightarrow> 'a config_builder" where
  "WithVerbose b c = c\<lparr>cb_verbose := b\<rparr>"

definition WithErrorHandler :: "nat option \<Rightarrow> 'a config_builder \<Rightarrow> 'a config_builder" where
  "WithErrorHandler h c = c\<lparr>cb_errorHandler := h\<rparr>"

definition WithExitFunc :: "exit_func \<Rightarrow> 'a config_builder \<Rightarrow> 'a config_builder" where
  "WithExitFunc f c = c\<lparr>cb_exitFunc := f\<rparr>"

definition WithPanicFunc :: "panic_func \<Rightarrow> 'a config_builder \<Rightarrow> 'a config_builder" where
  "WithPanicFunc f c = c\<lparr>cb_panicFunc := f\<rparr>"

definition WithMetrics :: "bool \<Rightarrow> 'a config_builder \<Rightarrow> 'a config_builder" where
  "WithMetrics b c = c\<lparr>cb_enableMetrics := b\<rparr>"

definition WithPooling :: "bool \<Rightarrow> 'a config_builder \<Rightarrow> 'a config_builder" where
  "WithPooling b c = c\<lparr>cb_enablePooling := b\<rparr>"

definition WithAutoFields :: "bool \<Rightarrow> 'a config_builder \<Rightarrow> 'a config_builder" where
  "WithAutoFields b c = c\<lparr>cb_enableAutoFields := b\<rparr>"

definition WithJSONFormatter :: "'a config_builder \<Rightarrow> 'a config_builder" where
  "WithJSONFormatter c = c\<lparr>cb_formatter := ''json''\<rparr>"

definition WithTextFormatter :: "'a config_builder \<Rightarrow> 'a config_builder" where
  "WithTextFormatter c = c\<lparr>cb_formatter := ''text''\<rparr>"

definition WithFileOutput :: "string \<Rightarrow> int \<Rightarrow> int \<Rightarrow> int \<Rightarrow> 'a config_builder \<Rightarrow> 'a config_builder" where
  "WithFileOutput path maxSizeMB maxBackups maxAgeDays c =
     c\<lparr>cb_fileOutput := Some \<lparr>fo_Path = path, fo_MaxSize = wrap_s64 (maxSizeMB * 1024 * 1024),
                               fo_MaxBackups = maxBackups, fo_MaxAge = maxAgeDays\<rparr>\<rparr>"

definition WithConsoleOutput :: "string \<Rightarrow> 'a config_builder \<Rightarrow> 'a config_builder" where
  "WithConsoleOutput target c = c\<lparr>cb_consoleOutput := target\<rparr>"

definition WithAsyncBuffer :: "int \<Rightarrow> int \<Rightarrow> 'a config_builder \<Rightarrow> 'a config_builder" where
  "WithAsyncBuffer bufferSize flushInterval c =
     c\<lparr>cb_asyncBuffer := Some \<lparr>ab_BufferSize = bufferSize, ab_FlushInterval = flushInterval\<rparr>, cb_enableAsync := True\<rparr>"

definition WithAsync :: "bool \<Rightarrow> 'a config_builder \<Rightarrow> 'a config_builder" where
  "WithAsync b c = c\<lparr>cb_enableAsync := b\<rparr>"

definition WithFieldBasedMasking :: "bool \<Rightarrow> 'a config_builder \<Rightarrow> 'a config_builder" where
  "WithFieldBasedMasking b c = c"

definition WithSensitiveFields :: "(string \<times> string) list \<Rightarrow> 'a config_builder \<Rightarrow> 'a config_builder" where
  "WithSensitiveFields fs c = c\<lparr>cb_sensitiveFields := fs\<rparr>"

definition WithSensitiveField :: "string \<Rightarrow> string \<Rightarrow> 'a config_builder \<Rightarrow> 'a config_builder" where
  "WithSensitiveField fieldName maskValue c =
     c\<lparr>cb_sensitiveFields := AList.update fieldName maskValue (cb_sensitiveFields c)\<rparr>"

definition WithStartupRegistration :: "startup_config option \<Rightarrow> 'a config_builder \<Rightarrow> 'a config_builder" where
  "WithStartupRegistration s c = c\<lparr>cb_startupRegistration := s\<rparr>"

definition WithCustomFields :: "string list \<Rightarrow> 'a config_builder \<Rightarrow> 'a config_builder" where
  "WithCustomFields fs c = c\<lparr>cb_customFields := fs\<rparr>"

definition WithFieldColors :: "(string \<times> color) list \<Rightarrow> 'a config_builder \<Rightarrow> 'a config_builder" where
  "WithFieldColors fs c = c\<lparr>cb_fieldColors := fs\<rparr>"

definition WithOptimalBufferSize :: "int \<Rightarrow> 'a config_builder \<Rightarrow> 'a config_builder" where
  "WithOptimalBufferSize n c = c\<lparr>cb_optimalBufferSize := n\<rparr>"

definition WithContextFieldsConfig :: "context_fields_config option \<Rightarrow> 'a config_builder \<Rightarrow> 'a config_builder" where
  "WithContextFieldsConfig x c = c\<lparr>cb_contextFieldsConfig := x\<rparr>"

definition WithContextFields :: "string list \<Rightarrow> 'a config_builder \<Rightarrow> 'a config_builder" where
  "WithContextFields fs c = c\<lparr>cb_contextFieldsConfig := Some \<lparr>cf_Enabled = True, cf_Fields = fs\<rparr>\<rparr>"

section \<open>Environment defaults\<close>

definition default_colors :: "bool \<Rightarrow> 'a config_builder \<Rightarrow> 'a config_builder" where
  "default_colors b c =
     (let c = (if \<not> cb_colorizedSet c then c\<lparr>cb_colorized := b\<rparr> else c)
      in if \<not> cb_prettyPrintSet c then c\<lparr>cb_prettyPrint := b\<rparr> else c)"

definition default_level :: "nat \<Rightarrow> 'a config_builder \<Rightarrow> 'a config_builder" where
  "default_level l c = (if \<not> cb_levelSet c then c\<lparr>cb_level := l\<rparr> else c)"

definition applyEnvironmentSettings :: "'a config_builder \<Rightarrow> 'a config_builder" where
  "applyEnvironmentSettings c =
     (if cb_env c = [] then c
      else let e = ToLower (cb_env c);
               c = (if e = ''prod'' \<or> e = ''production'' then
                      (let c = default_colors False c
                       in if \<not> cb_levelFromEnv c \<and> \<not> cb_levelFromDefaults c then c\<lparr>cb_level := InfoLevel\<rparr> else c)
                    else if e = ''dev'' \<or> e = ''development'' then
                      (let c = default_colors True c;
                           c = (if \<not> cb_lineInDebugSet c then c\<lparr>cb_lineInDebug := True\<rparr> else c)
                       in default_level DebugLevel c)
                    else if e = ''staging'' then default_level InfoLevel (default_colors True c)
                    else default_level InfoLevel (default_colors True c))
           in c\<lparr>cb_envSet := True\<rparr>)"

definition DefaultConfig :: "'a config_builder" where
  "DefaultConfig = WithPrettyPrint True (WithColorized True (WithLevel InfoLevel (WithEnv ''development'' NewConfig)))"

definition ProductionDefaults :: "'a config_builder" where
  "ProductionDefaults =
     (WithPrettyPrint False (WithColorized False (WithLevel WarnLevel (WithEnv ''production'' NewConfig))))
       \<lparr>cb_levelFromDefaults := True\<rparr>"

definition DevelopmentDefaults :: "'a config_builder" where
  "DevelopmentDefaults =
     (WithPrettyPrint True (WithColorized True (WithLevel DebugLevel (WithEnv ''development'' NewConfig))))
       \<lparr>cb_levelFromDefaults := True\<rparr>"

section \<open>Build\<close>

definition default_rule :: "string \<Rightarrow> masking_rule" where
  "default_rule p = \<lparr>mk_Pattern = p, mk_Replace = ''[REDACTED]'', mk_Type = ''regex''\<rparr>"

definition getDefaultMaskingRules :: "masking_rule list" where
  "getDefaultMaskingRules =
     [default_rule ''(?i)password'', default_rule ''(?i)token'', default_rule ''(?i)api[_-]?key'',
      default_rule ''(?i)secret'', default_rule ''(?i)ssn'', default_rule ''(?i)credit[_-]?card'']"

definition add_rule_quietly :: "'r regex_engine \<Rightarrow> 'r pii_masker \<Rightarrow> masking_rule \<Rightarrow> 'r pii_masker" where
  "add_rule_quietly eng pm rule = snd (AddRule eng pm (mk_Pattern rule) (mk_Replace rule) (mk_Type rule))"

definition build_registry ::
  "string list \<Rightarrow> field_dictionary \<Rightarrow> field_dictionary \<times> sensitive_registry" where
  "build_registry names fd =
     foldl (\<lambda>(fd, r) fieldName. RegisterSensitiveField fd r fieldName) (fd, NewSensitiveFieldRegistry) names"

definition build_masker ::
  "'r regex_engine \<Rightarrow> stored_rule list \<Rightarrow> sensitive_registry option \<Rightarrow> masking_rule list \<Rightarrow> 'r pii_masker option" where
  "build_masker eng defaults reg rules =
     map_option (\<lambda>pm. foldl (add_rule_quietly eng) pm rules) (NewPIIMaskerWithRegistry eng defaults reg)"

text \<open>
  The tables of field ids: for a startup registration, and for the fields set one by one. \<open>scs\<close>
  and \<open>fcs\<close> are the orders in which the loops range over the sensitive fields and the colours.
\<close>

type_synonym id_tables = "(string \<times> int) list \<times> (int \<times> string) list \<times> (int \<times> color) list"

definition assign_custom :: "string list \<Rightarrow> (string \<times> int) list" where
  "assign_custom fs = foldl (\<lambda>ids (i, f). AList.update f (int i) ids) [] (enumerate 0 fs)"

definition startup_tables :: "startup_config \<Rightarrow> (string \<times> color) list \<Rightarrow> id_tables" where
  "startup_tables st fcs =
     (let ids = assign_custom (st_CustomFields st);
          (ids, masks) = foldl (\<lambda>(ids, masks) sf. (AList.update (cs_Name sf) (cs_FieldID sf) ids,
                                                  AList.update (cs_FieldID sf) (cs_Mask sf) masks))
                           (ids, []) (st_SensitiveFields st);
          colors = foldl (\<lambda>colors (f, col). case map_of ids f of Some i \<Rightarrow> AList.update i col colors | None \<Rightarrow> colors)
                     [] fcs
      in (ids, masks, colors))"

definition assign_sensitive ::
  "(string \<times> int) list \<times> (int \<times> string) list \<times> config_sensitive list \<Rightarrow> string \<times> string \<Rightarrow>
   (string \<times> int) list \<times> (int \<times> string) list \<times> config_sensitive list" where
  "assign_sensitive = (\<lambda>(ids, masks, sfs) (f, msk).
     let fieldID = int (length ids)
     in (AList.update f fieldID ids, AList.update fieldID msk masks,
         sfs @ [\<lparr>cs_Name = f, cs_FieldID = fieldID, cs_Mask = msk\<rparr>]))"

definition assign_color ::
  "(string \<times> int) list \<times> (int \<times> color) list \<Rightarrow> string \<times> color \<Rightarrow> (string \<times> int) list \<times> (int \<times> color) list" where
  "assign_color = (\<lambda>(ids, colors) (f, col).
     case map_of ids f of
       Some fieldID \<Rightarrow> (ids, AList.update fieldID col colors)
     | None \<Rightarrow> (let fieldID = int (length ids) in (AList.update f fieldID ids, AList.update fieldID col colors)))"

definition field_tables ::
  "string list \<Rightarrow> (string \<times> string) list \<Rightarrow> (string \<times> color) list \<Rightarrow> config_sensitive list \<times> id_tables" where
  "field_tables custom scs fcs =
     (let ids = assign_custom custom;
          (ids, masks, sfs) = foldl assign_sensitive (ids, [], []) scs;
          (ids, colors) = foldl assign_color (ids, []) fcs
      in (sfs, ids, masks, colors))"

text \<open>Integer division truncates towards zero.\<close>

definition quot :: "int \<Rightarrow> int \<Rightarrow> int" where
  "quot a b = sgn a * sgn b * (\<bar>a\<bar> div \<bar>b\<bar>)"

definition worker_count :: "'a config_builder \<Rightarrow> int" where
  "worker_count c =
     (case cb_asyncBuffer c of
        None \<Rightarrow> 4
      | Some ab \<Rightarrow> (let n = quot (ab_BufferSize ab) 8 in if n = 0 then 4 else n))"

definition startup_of ::
  "'a config_builder \<Rightarrow> (string \<times> string) list \<Rightarrow> (string \<times> color) list \<Rightarrow> startup_config option \<times> id_tables \<times> int" where
  "startup_of c scs fcs =
     (case cb_startupRegistration c of
        Some st \<Rightarrow> (Some st, startup_tables st fcs,
                    if st_OptimalBufferSize st > 0 then st_OptimalBufferSize st else cb_optimalBufferSize c)
      | None \<Rightarrow>
          if length (cb_customFields c) > 0 \<or> length (cb_fieldColors c) > 0 \<or> cb_optimalBufferSize c > 0
             \<or> length (cb_sensitiveFields c) > 0
          then let (sfs, tables) = field_tables (cb_customFields c) scs fcs
               in (Some \<lparr>st_CustomFields = cb_customFields c, st_SensitiveFields = sfs, st_FieldColors = cb_fieldColors c,
                         st_OptimalBufferSize = cb_optimalBufferSize c, st_ContextFields = None\<rparr>,
                   tables, cb_optimalBufferSize c)
          else (None, ([], [], []), cb_optimalBufferSize c))"

text \<open>
  \<open>names\<close> and \<open>scs\<close> are the orders of the two loops over the sensitive fields. A default pattern that
  does not compile panics in the masker's constructor: \<open>None\<close>.
\<close>

definition Build ::
  "'r regex_engine \<Rightarrow> stored_rule list \<Rightarrow> string list \<Rightarrow> (string \<times> string) list \<Rightarrow> (string \<times> color) list \<Rightarrow>
   field_dictionary \<Rightarrow> 'a config_builder \<Rightarrow> (field_dictionary \<times> 'a config_builder \<times> ('a, 'r) immutable_config) option" where
  "Build eng defaults names scs fcs fd c =
     (let c = applyEnvironmentSettings c;
          maskingRules = getDefaultMaskingRules @ cb_maskingRules c;
          policyRules = map (\<lambda>r. \<lparr>pr_Name = pr_Name r, pr_Pattern = pr_Pattern r, pr_Action = pr_Action r\<rparr>) (cb_policyRules c);
          enableFieldBasedMasking = length (cb_sensitiveFields c) > 0;
          (fd, reg) = (if enableFieldBasedMasking then (let (fd, r) = build_registry names fd in (fd, Some r)) else (fd, None));
          masker = (if length maskingRules > 0 \<or> enableFieldBasedMasking
                    then map_option Some (build_masker eng defaults reg maskingRules) else Some None);
          (startupConfig, (ids, masks, colors), optimalBufferSize) = startup_of c scs fcs
      in case masker of
           None \<Rightarrow> None
         | Some masker \<Rightarrow> Some (fd, c,
             \<lparr>ic_Level = cb_level c, ic_Adapters = cb_adapters c, ic_EnableMasking = (length maskingRules > 0),
              ic_EnableAsync = cb_enableAsync c, ic_EnableJSON = (cb_formatter c = ''json''),
              ic_EnableColorized = cb_colorized c, ic_EnablePrettyPrint = cb_prettyPrint c,
              ic_EnableMetrics = cb_enableMetrics c, ic_Masker = masker, ic_WorkerCount = worker_count c,
              ic_PolicyRules = policyRules, ic_PanicFunc = cb_panicFunc c, ic_LineInDebug = cb_lineInDebug c,
              ic_LineInError = cb_lineInError c, ic_SensitiveFieldRegistry = reg,
              ic_EnableFieldBasedMasking = enableFieldBasedMasking, ic_StartupRegistration = startupConfig,
              ic_RegisteredFieldIDs = ids, ic_SensitiveFieldMap = masks, ic_FieldColorMap = colors,
              ic_OptimalBufferSize = optimalBufferSize, ic_ContextFieldsConfig = cb_contextFieldsConfig c\<rparr>))"

section \<open>Reading the built configuration\<close>

definition GetLevel :: "('a, 'r) immutable_config \<Rightarrow> nat" where
  "GetLevel c = ic_Level c"

definition GetEnvironment :: "('a, 'r) immutable_config \<Rightarrow> string" where
  "GetEnvironment c = []"

definition IsColorized :: "('a, 'r) immutable_config \<Rightarrow> bool" where
  "IsColorized c = ic_EnableColorized c"

definition IsPrettyPrint :: "('a, 'r) immutable_config \<Rightarrow> bool" where
  "IsPrettyPrint c = ic_EnablePrettyPrint c"

definition GetAdapters :: "('a, 'r) immutable_config \<Rightarrow> 'a list" where
  "GetAdapters c = ic_Adapters c"

definition GetMaskingRules :: "('a, 'r) immutable_config \<Rightarrow> masking_rule list option" where
  "GetMaskingRules c = None"

definition GetPolicyRules :: "('a, 'r) immutable_config \<Rightarrow> policy_rule list" where
  "GetPolicyRules c = ic_PolicyRules c"

definition GetDebugBufferSize :: "('a, 'r) immutable_config \<Rightarrow> int" where
  "GetDebugBufferSize c = ic_OptimalBufferSize c"

definition GetMaxDebugHistory :: "('a, 'r) immutable_config \<Rightarrow> int" where
  "GetMaxDebugHistory c = 0"

definition IsLineInDebug :: "('a, 'r) immutable_config \<Rightarrow> bool" where
  "IsLineInDebug c = ic_LineInDebug c"

definition IsLineInError :: "('a, 'r) immutable_config \<Rightarrow> bool" where
  "IsLineInError c = ic_LineInError c"

definition IsVerbose :: "('a, 'r) immutable_config \<Rightarrow> bool" where
  "IsVerbose c = False"

definition GetErrorHandler :: "('a, 'r) immutable_config \<Rightarrow> nat option" where
  "GetErrorHandler c = None"

definition GetExitFunc :: "('a, 'r) immutable_config \<Rightarrow> exit_func option" where
  "GetExitFunc c = None"

definition GetPanicFunc :: "('a, 'r) immutable_config \<Rightarrow> panic_func" where
  "GetPanicFunc c = ic_PanicFunc c"

definition IsMetricsEnabled :: "('a, 'r) immutable_config \<Rightarrow> bool" where
  "IsMetricsEnabled c = False"

definition IsPoolingEnabled :: "('a, 'r) immutable_config \<Rightarrow> bool" where
  "IsPoolingEnabled c = False"

definition IsAutoFieldsEnabled :: "('a, 'r) immutable_config \<Rightarrow> bool" where
  "IsAutoFieldsEnabled c = False"

definition GetFormatter :: "('a, 'r) immutable_config \<Rightarrow> string" where
  "GetFormatter c = (if ic_EnableJSON c then ''json'' else ''text'')"

definition GetFileOutput :: "('a, 'r) immutable_config \<Rightarrow> file_output_config option" where
  "GetFileOutput c = None"

definition GetConsoleOutput :: "('a, 'r) immutable_config \<Rightarrow> string" where
  "GetConsoleOutput c = []"

definition GetAsyncBuffer :: "('a, 'r) immutable_config \<Rightarrow> async_buffer_config option" where
  "GetAsyncBuffer c = None"

definition IsAsyncEnabled :: "('a, 'r) immutable_config \<Rightarrow> bool" where
  "IsAsyncEnabled c = ic_EnableAsync c"

definition GetPIIMasker :: "('a, 'r) immutable_config \<Rightarrow> 'r pii_masker option" where
  "GetPIIMasker c = ic_Masker c"

section \<open>The environment's defaults\<close>

text \<open>
  The defaults keep every colour, print and line setting made explicitly; the level too, except
  in production, where a level set on the builder is replaced by \<open>INFO\<close> unless it came from the environment
  or from one of the defaults functions.
\<close>

lemma environment_keeps_explicit_settings:
  "let c' = applyEnvironmentSettings c;
       prod = (ToLower (cb_env c) \<in> {''prod'', ''production''} \<and> cb_env c \<noteq> []) in
   (cb_colorizedSet c \<longrightarrow> cb_colorized c' = cb_colorized c) \<and>
   (cb_prettyPrintSet c \<longrightarrow> cb_prettyPrint c' = cb_prettyPrint c) \<and>
   (cb_lineInDebugSet c \<longrightarrow> cb_lineInDebug c' = cb_lineInDebug c) \<and>
   cb_lineInError c' = cb_lineInError c \<and>
   (cb_levelSet c \<longrightarrow>
      cb_level c' = (if prod \<and> \<not> cb_levelFromEnv c \<and> \<not> cb_levelFromDefaults c then InfoLevel else cb_level c))"
  by (simp add: applyEnvironmentSettings_def default_colors_def default_level_def Let_def)

lemma default_colors_sel [simp]:
  "cb_env (default_colors b c) = cb_env c" "cb_level (default_colors b c) = cb_level c"
  "cb_levelSet (default_colors b c) = cb_levelSet c" "cb_lineInDebugSet (default_colors b c) = cb_lineInDebugSet c"
  "cb_levelFromEnv (default_colors b c) = cb_levelFromEnv c"
  "cb_levelFromDefaults (default_colors b c) = cb_levelFromDefaults c"
  by (simp_all add: default_colors_def Let_def)

end
