(* ===== verification/Config_Ids.thy ===== *)
theory Config_Ids
  imports Config_Builder
begin

text \<open>
  What \<open>Build\<close> (\<^verbatim>\<open>config/config.go\<close>) guarantees: the tables of field ids, the rules of the masker and
  the worker count.
\<close>

section \<open>Association lists\<close>

lemma update_fresh: "k \<notin> fst ` set al \<Longrightarrow> AList.update k v al = al @ [(k, v)]"
  by (induction al) auto

lemma length_update: "length (AList.update k v al) = (if k \<in> fst ` set al then length al else Suc (length al))"
  by (induction al) auto

definition dense :: "(string \<times> int) list \<Rightarrow> bool" where
  "dense ids \<longleftrightarrow> distinct (map fst ids) \<and> map snd ids = map int [0..<length ids]"

lemma dense_Nil [simp]: "dense []"
  by (simp add: dense_def)

lemma dense_update: "dense ids \<Longrightarrow> f \<notin> fst ` set ids \<Longrightarrow> dense (AList.update f (int (length ids)) ids)"
  by (simp add: dense_def update_fresh)


section \<open>The ids of the fields\<close>

lemma assign_custom_fold:
  "distinct fs \<Longrightarrow> dense ids \<Longrightarrow> set fs \<inter> fst ` set ids = {} \<Longrightarrow>
     dense (foldl (\<lambda>ids (i, f). AList.update f (int i) ids) ids (enumerate (length ids) fs)) \<and>
     fst ` set (foldl (\<lambda>ids (i, f). AList.update f (int i) ids) ids (enumerate (length ids) fs)) = fst ` set ids \<union> set fs"
proof (induction fs arbitrary: ids)
  case (Cons f fs)
  let ?ids = "AList.update f (int (length ids)) ids"
  have l: "length ?ids = Suc (length ids)" using Cons.prems by (auto simp: length_update)
  have k: "fst ` set ?ids = insert f (fst ` set ids)" using Cons.prems by (auto simp: update_fresh)
  have "dense ?ids" using Cons.prems by (intro dense_update) auto
  moreover have "set fs \<inter> fst ` set ?ids = {}" using Cons.prems by (auto simp: k)
  ultimately show ?case using Cons.IH [of ?ids] Cons.prems by (auto simp: l k)
qed simp

lemma assign_custom_dense:
  "distinct fs \<Longrightarrow> dense (assign_custom fs)" "distinct fs \<Longrightarrow> fst ` set (assign_custom fs) = set fs"
  using assign_custom_fold [of fs "[]"] by (simp_all add: assign_custom_def)







text \<open>
  A sensitive field that is also a custom field is given the next id without the count growing:
  the next sensitive field gets the same id and overwrites its mask, when the loop happens to meet them in this
  order; in the other order both keep their own.
\<close>

theorem shared_field_id:
  assumes "distinct custom" "f \<in> set custom" "g \<notin> set custom" "m \<noteq> m'"
  shows "(case field_tables custom [(f, m), (g, m')] [] of (_, ids, masks, _) \<Rightarrow>
            map_of ids f = map_of ids g \<and> Option.bind (map_of ids f) (map_of masks) = Some m') \<and>
         (case field_tables custom [(g, m'), (f, m)] [] of (_, ids, masks, _) \<Rightarrow>
            map_of ids f \<noteq> map_of ids g \<and> Option.bind (map_of ids f) (map_of masks) = Some m)"
proof -
  define ids where "ids = assign_custom custom"
  have k: "fst ` set ids = set custom" by (simp add: ids_def assign_custom_dense assms(1))
  have fg: "f \<in> fst ` set ids" "g \<notin> fst ` set ids" "f \<noteq> g" using assms k by auto
  have l: "length (AList.update f (int (length ids)) ids) = length ids" using fg by (simp add: length_update)
  have l': "length (AList.update g (int (length ids)) ids) = Suc (length ids)" using fg by (simp add: length_update)
  show ?thesis using fg
    by (simp add: field_tables_def ids_def [symmetric] assign_sensitive_def Let_def l l' update_conv)
qed

theorem shared_field_id_witness:
  "case field_tables [''pw''] [(''pw'', ''***''), (''tok'', ''###'')] [] of (_, ids, masks, _) \<Rightarrow>
     map_of ids ''pw'' = map_of ids ''tok'' \<and> Option.bind (map_of ids ''pw'') (map_of masks) = Some ''###''"
  by (rule shared_field_id [of "[''pw'']" "''pw''" "''tok''" "''***''" "''###''", THEN conjunct1]) simp_all

section \<open>The masker of a built configuration\<close>

lemma environment_sel [simp]:
  "cb_maskingRules (applyEnvironmentSettings c) = cb_maskingRules c"
  "cb_sensitiveFields (applyEnvironmentSettings c) = cb_sensitiveFields c"
  "cb_asyncBuffer (applyEnvironmentSettings c) = cb_asyncBuffer c"
  by (simp_all add: applyEnvironmentSettings_def default_colors_def default_level_def Let_def)

definition rule_valid :: "'r regex_engine \<Rightarrow> masking_rule \<Rightarrow> bool" where
  "rule_valid eng r \<longleftrightarrow> validateRule eng (mk_Pattern r) (mk_Type r) = None"

definition stored_of :: "masking_rule \<Rightarrow> stored_rule" where
  "stored_of r = \<lparr>mr_Type = mk_Type r, mr_Pattern = mk_Pattern r, mr_Replace = mk_Replace r, mr_owner = None\<rparr>"

definition compiles :: "'r regex_engine \<Rightarrow> stored_rule \<Rightarrow> bool" where
  "compiles eng r \<longleftrightarrow> validateRule eng (mr_Pattern r) (mr_Type r) = None"

lemma compiles_stored [simp]: "compiles eng (stored_of r) = rule_valid eng r"
  by (simp add: compiles_def stored_of_def rule_valid_def)

lemma newRegexRule_Some: "re_compile eng p \<noteq> None \<Longrightarrow> newRegexRule eng p r \<noteq> None"
  by (auto simp: newRegexRule_def Let_def split: option.split)

lemma compiles_cases: "compiles eng r \<Longrightarrow> mr_Type r = ''field'' \<or> mr_Type r = ''regex'' \<and> re_compile eng (mr_Pattern r) \<noteq> None"
  by (auto simp: compiles_def validateRule_def split: if_splits)

lemma build_snapshot_Inr: "list_all (compiles eng) rules \<Longrightarrow> \<exists>snap'. build_snapshot eng snap rules = Inr snap'"
proof (induction rules arbitrary: snap)
  case (Cons r rules)
  then consider "mr_Type r = ''field''" | "mr_Type r = ''regex''" "re_compile eng (mr_Pattern r) \<noteq> None"
    using compiles_cases by fastforce
  then show ?case
  proof cases
    case 2
    then obtain c where "newRegexRule eng (mr_Pattern r) (mr_Replace r) = Some c"
      using newRegexRule_Some [of eng "mr_Pattern r" "mr_Replace r"] by auto
    then show ?thesis using 2 Cons by simp
  qed (use Cons in simp)
qed simp

lemma add_rule_quietly_stored:
  assumes "list_all (compiles eng) (pm_storedRules pm)"
  shows "pm_storedRules (add_rule_quietly eng pm r) = pm_storedRules pm @ (if rule_valid eng r then [stored_of r] else []) \<and>
         pm_registry (add_rule_quietly eng pm r) = pm_registry pm"
proof (cases "rule_valid eng r")
  case True
  then have v: "validateRule eng (mk_Pattern r) (mk_Type r) = None" by (simp add: rule_valid_def)
  then have "list_all (compiles eng) (pm_storedRules pm @ [stored_of r])"
    using assms True by simp
  then obtain snap where
    "build_snapshot eng \<lparr>fieldRules = Map.empty, regexRules = []\<rparr> (pm_storedRules pm @ [stored_of r]) = Inr snap"
    using build_snapshot_Inr by blast
  then show ?thesis using True v
    by (simp add: add_rule_quietly_def AddRule_def publishRules_def stored_of_def)
next
  case False
  then show ?thesis by (auto simp: rule_valid_def add_rule_quietly_def AddRule_def)
qed

lemma add_rules_stored:
  "list_all (compiles eng) (pm_storedRules pm) \<Longrightarrow>
     pm_storedRules (foldl (add_rule_quietly eng) pm rs) = pm_storedRules pm @ map stored_of (filter (rule_valid eng) rs) \<and>
     pm_registry (foldl (add_rule_quietly eng) pm rs) = pm_registry pm"
proof (induction rs arbitrary: pm)
  case (Cons r rs)
  have "list_all (compiles eng) (pm_storedRules (add_rule_quietly eng pm r))"
    using add_rule_quietly_stored [OF Cons.prems, of r] Cons.prems by simp
  then show ?case using Cons.IH add_rule_quietly_stored [OF Cons.prems, of r] by simp
qed simp

lemma NewPIIMaskerWithRegistry_stored:
  assumes "list_all (compiles eng) defaults"
  shows "\<exists>pm. NewPIIMaskerWithRegistry eng defaults reg = Some pm \<and> pm_storedRules pm = defaults \<and> pm_registry pm = reg"
proof -
  obtain snap where "build_snapshot eng \<lparr>fieldRules = Map.empty, regexRules = []\<rparr> defaults = Inr snap"
    using build_snapshot_Inr [OF assms] by blast
  then show ?thesis by (simp add: NewPIIMaskerWithRegistry_def updateSnapshot_def publishRules_def)
qed

lemma Build_succeeds:
  assumes "list_all (compiles eng) defaults" "list_all (rule_valid eng) getDefaultMaskingRules"
  shows "\<exists>fd' c' ic pm. Build eng defaults names scs fcs fd c = Some (fd', c', ic) \<and> ic_Masker ic = Some pm \<and>
           pm_storedRules pm = defaults @ map stored_of (getDefaultMaskingRules @ filter (rule_valid eng) (cb_maskingRules c)) \<and>
           pm_registry pm = ic_SensitiveFieldRegistry ic \<and> ic_EnableMasking ic \<and>
           ((ic_SensitiveFieldRegistry ic \<noteq> None) = (cb_sensitiveFields c \<noteq> [])) \<and>
           ic_EnableFieldBasedMasking ic = (cb_sensitiveFields c \<noteq> []) \<and>
           (0 < ic_WorkerCount ic \<or> (\<exists>ab. cb_asyncBuffer c = Some ab \<and> ab_BufferSize ab < -7))"
proof -
  define c1 where "c1 = applyEnvironmentSettings c"
  have c1: "cb_maskingRules c1 = cb_maskingRules c" "cb_sensitiveFields c1 = cb_sensitiveFields c" "cb_asyncBuffer c1 = cb_asyncBuffer c"
    by (simp_all add: c1_def)
  obtain fd' reg where reg: "(if 0 < length (cb_sensitiveFields c) then (let (fd, r) = build_registry names fd in (fd, Some r)) else (fd, None)) = (fd', reg)"
    by fastforce
  then have r: "(reg \<noteq> None) = (cb_sensitiveFields c \<noteq> [])" by (auto split: if_splits prod.splits)
  obtain pm0 where pm0: "NewPIIMaskerWithRegistry eng defaults reg = Some pm0" "pm_storedRules pm0 = defaults" "pm_registry pm0 = reg"
    using NewPIIMaskerWithRegistry_stored [OF assms(1)] by blast
  define pm where "pm = foldl (add_rule_quietly eng) pm0 (getDefaultMaskingRules @ cb_maskingRules c)"
  have pm: "pm_storedRules pm = defaults @ map stored_of (getDefaultMaskingRules @ filter (rule_valid eng) (cb_maskingRules c))"
    "pm_registry pm = reg"
    using add_rules_stored [of eng pm0 "getDefaultMaskingRules @ cb_maskingRules c"] assms pm0
    by (simp_all add: pm_def filter_id_conv [THEN iffD2] list_all_iff)
  have m: "build_masker eng defaults reg (getDefaultMaskingRules @ cb_maskingRules c) = Some pm"
    by (simp add: build_masker_def pm0 pm_def)
  obtain st ids masks colors n where so: "startup_of c1 scs fcs = (st, (ids, masks, colors), n)" by (metis surj_pair)
  have w: "0 < worker_count c1 \<or> (\<exists>ab. cb_asyncBuffer c = Some ab \<and> ab_BufferSize ab < -7)"
  proof (cases "cb_asyncBuffer c")
    case (Some ab)
    have "0 < quot (ab_BufferSize ab) 8 \<or> quot (ab_BufferSize ab) 8 = 0" if "\<not> ab_BufferSize ab < -7"
      using that by (cases "ab_BufferSize ab < 0") (auto simp: quot_def sgn_if)
    then show ?thesis using Some by (auto simp: worker_count_def c1 Let_def)
  qed (simp add: worker_count_def c1)
  have len: "getDefaultMaskingRules \<noteq> []" by (simp add: getDefaultMaskingRules_def)
  show ?thesis
    using pm r w len m reg so
    by (simp add: Build_def c1_def [symmetric] c1 Let_def)
qed

text \<open>
  When the built-in patterns compile, \<open>Build\<close> succeeds, masking is enabled and the masker holds
  the built-in patterns, the six default rules and the valid custom rules in their order; an invalid rule is
  dropped in silence. Field-based masking has a registry exactly when sensitive fields are configured, and the
  number of workers is positive unless the buffer size is below -7.
\<close>

theorem Build_masker:
  assumes "list_all (compiles eng) defaults" "list_all (rule_valid eng) getDefaultMaskingRules"
  shows "\<exists>fd' c' ic pm. Build eng defaults names scs fcs fd c = Some (fd', c', ic) \<and> ic_Masker ic = Some pm \<and>
           pm_storedRules pm = defaults @ map stored_of (getDefaultMaskingRules @ filter (rule_valid eng) (cb_maskingRules c)) \<and>
           pm_registry pm = ic_SensitiveFieldRegistry ic \<and> ic_EnableMasking ic \<and>
           ((ic_SensitiveFieldRegistry ic \<noteq> None) = (cb_sensitiveFields c \<noteq> [])) \<and>
           ic_EnableFieldBasedMasking ic = (cb_sensitiveFields c \<noteq> []) \<and>
           (0 < ic_WorkerCount ic \<or> (\<exists>ab. cb_asyncBuffer c = Some ab \<and> ab_BufferSize ab < -7))"
  using assms by (rule Build_succeeds)

theorem Build_masker_witness:
  "\<exists>fd' c' ic pm. Build prefix_engine [] [] [] [] NewFieldDictionary (WithMaskingRule \<lparr>mk_Pattern = ''x'', mk_Replace = ''y'', mk_Type = ''nosuch''\<rparr> NewConfig)
     = Some (fd', c' :: unit config_builder, ic) \<and> ic_Masker ic = Some pm \<and> length (pm_storedRules pm) = 6 \<and>
     ic_SensitiveFieldRegistry ic = None \<and> 0 < ic_WorkerCount ic"
proof -
  have "list_all (compiles prefix_engine) []" "list_all (rule_valid prefix_engine) getDefaultMaskingRules"
    by (simp_all add: getDefaultMaskingRules_def default_rule_def rule_valid_def validateRule_def prefix_engine_def)
  from Build_masker [OF this, where c = "WithMaskingRule \<lparr>mk_Pattern = ''x'', mk_Replace = ''y'', mk_Type = ''nosuch''\<rparr> (NewConfig :: unit config_builder)"
      and names = "[]" and scs = "[]" and fcs = "[]" and fd = NewFieldDictionary]
  show ?thesis
    by (fastforce simp: WithMaskingRule_def NewConfig_def getDefaultMaskingRules_def rule_valid_def validateRule_def)
qed

section \<open>The settings of a built configuration\<close>

lemma Build_sel:
  assumes "Build eng defaults names scs fcs fd c = Some (fd', c', ic)"
  shows "ic_EnableColorized ic = cb_colorized (applyEnvironmentSettings c)"
    "ic_EnablePrettyPrint ic = cb_prettyPrint (applyEnvironmentSettings c)"
    "ic_LineInDebug ic = cb_lineInDebug (applyEnvironmentSettings c)"
    "ic_LineInError ic = cb_lineInError (applyEnvironmentSettings c)"
    "ic_Level ic = cb_level (applyEnvironmentSettings c)"
  using assms by (auto simp: Build_def Let_def split: prod.splits option.splits)

lemma Build_level:
  assumes "Build eng defaults names scs fcs fd c = Some (fd', c', ic)"
  shows "cb_levelSet c \<Longrightarrow>
           ic_Level ic = (if cb_env c \<noteq> [] \<and> ToLower (cb_env c) \<in> {''prod'', ''production''} \<and>
                             \<not> cb_levelFromEnv c \<and> \<not> cb_levelFromDefaults c then InfoLevel else cb_level c)"
  using Build_sel(5) [OF assms] environment_keeps_explicit_settings [of c] by (auto simp: Let_def)

text \<open>
  A built configuration has every colour, print and line setting made on the builder; the level
  too, except in production, where a level set with \<open>WithLevel\<close> is replaced by \<open>INFO\<close> unless the environment
  or a defaults function set it.
\<close>

theorem Build_settings:
  assumes "Build eng defaults names scs fcs fd c = Some (fd', c', ic)"
  shows "(cb_colorizedSet c \<longrightarrow> ic_EnableColorized ic = cb_colorized c) \<and>
         (cb_prettyPrintSet c \<longrightarrow> ic_EnablePrettyPrint ic = cb_prettyPrint c) \<and>
         (cb_lineInDebugSet c \<longrightarrow> ic_LineInDebug ic = cb_lineInDebug c) \<and>
         ic_LineInError ic = cb_lineInError c \<and>
         (cb_levelSet c \<longrightarrow>
            ic_Level ic = (if cb_env c \<noteq> [] \<and> ToLower (cb_env c) \<in> {''prod'', ''production''} \<and>
                              \<not> cb_levelFromEnv c \<and> \<not> cb_levelFromDefaults c then InfoLevel else cb_level c))"
  using environment_keeps_explicit_settings [of c] Build_sel [OF assms] by (auto simp: Let_def)

theorem Build_settings_witness:
  "\<exists>fd' c' ic. Build prefix_engine [] [] [] [] NewFieldDictionary
       (WithColorized True (WithLevel DebugLevel (WithEnv ''PROD'' (NewConfig :: unit config_builder)))) = Some (fd', c', ic) \<and>
     ic_EnableColorized ic \<and> ic_Level ic = InfoLevel"
proof -
  let ?c = "WithColorized True (WithLevel DebugLevel (WithEnv ''PROD'' (NewConfig :: unit config_builder)))"
  have "list_all (compiles prefix_engine) []" "list_all (rule_valid prefix_engine) getDefaultMaskingRules"
    by (simp_all add: getDefaultMaskingRules_def default_rule_def rule_valid_def validateRule_def prefix_engine_def)
  from Build_succeeds [OF this, where c = ?c and names = "[]" and scs = "[]" and fcs = "[]" and fd = NewFieldDictionary]
  obtain fd' c' and ic :: "(unit, string) immutable_config"
    where b: "Build prefix_engine [] [] [] [] NewFieldDictionary ?c = Some (fd', c', ic)" by blast
  have "ToLower ''PROD'' = ''prod''" by (simp add: ToLower_def lower_char_def ch_def char_of_def bit_0)
  then have "ic_EnableColorized ic \<and> ic_Level ic = InfoLevel"
    using Build_settings [OF b] by (simp add: WithColorized_def WithLevel_def WithEnv_def NewConfig_def)
  then show ?thesis using b by blast
qed

end
