(* ===== verification/Config_Loader.thy ===== *)
theory Config_Loader
  imports Config_Ids
begin

text \<open>
  \<^verbatim>\<open>config/loader.go\<close>: configuration files, environment variables and merging; \<open>LoadFromEnv\<close> of
  \<^verbatim>\<open>config/config.go\<close>.

  The decoders of YAML and JSON (a third-party package and \<open>encoding/json\<close>) are arguments that give the
  raw document or \<open>None\<close> (with a number for the flush interval in YAML and a text in JSON), \<open>time.ParseDuration\<close> is the argument \<open>dur\<close>, \<open>os.Getenv\<close> the argument \<open>env\<close>, and
  \<open>read\<close> reads a file. A nil configuration is \<open>None\<close>, a panic the outer \<open>None\<close> of a merge.
\<close>

section \<open>Levels\<close>

definition upper_char :: "char \<Rightarrow> char" where
  "upper_char c = (if 97 \<le> ch c \<and> ch c \<le> 122 then char_of (ch c - 32) else c)"

definition ToUpper :: "string \<Rightarrow> string" where
  "ToUpper s = map upper_char s"

definition ParseLogLevel :: "string \<Rightarrow> nat" where
  "ParseLogLevel level =
     (let u = ToUpper level in
      if u = ''TRACE'' then TraceLevel
      else if u = ''DEBUG'' then DebugLevel
      else if u = ''INFO'' then InfoLevel
      else if u = ''WARN'' \<or> u = ''WARNING'' then WarnLevel
      else if u = ''ERROR'' then ErrorLevel
      else if u = ''FATAL'' then FatalLevel
      else if u = ''PANIC'' then PanicLevel
      else InfoLevel)"

definition validateLogLevel :: "string \<Rightarrow> bool" where
  "validateLogLevel level \<longleftrightarrow>
     ToUpper level \<in> {''TRACE'', ''DEBUG'', ''INFO'', ''WARN'', ''WARNING'', ''ERROR'', ''FATAL'', ''PANIC''}"

section \<open>Configuration records\<close>

record rotation_settings =
  rc_MaxSize :: int
  rc_MaxBackups :: int
  rc_MaxAge :: int
  rc_Compress :: bool

record appender_config =
  ap_Type :: string
  ap_Path :: string
  ap_Rotation :: "rotation_settings option"

record pii_pattern =
  pp_Name :: string
  pp_Pattern :: string
  pp_Replacement :: string

record security_config =
  sc_PIIPatterns :: "pii_pattern list"
  sc_MaskSensitiveData :: bool

record performance_config =
  pf_RateLimit :: int
  pf_BufferSize :: int
  pf_FlushInterval :: int

record environment_config =
  ev_DefaultLevel :: nat
  ev_ProductionLevel :: nat
  ev_DevelopmentLevel :: nat

record output_config =
  oc_Type :: string
  oc_Target :: string

record logger_config =
  lc_Name :: string
  lc_Level :: nat
  lc_Appenders :: "appender_config list"

record halo_config =
  hc_Component :: string
  hc_Environment :: string
  hc_Outputs :: "output_config list"
  hc_Loggers :: "logger_config list"
  hc_Security :: security_config
  hc_Performance :: performance_config
  hc_EnvConfig :: environment_config
  hc_PerformanceProfile :: string
  hc_StartupRegistration :: startup_config

definition zero_startup :: startup_config where
  "zero_startup = \<lparr>st_CustomFields = [], st_SensitiveFields = [], st_FieldColors = [], st_OptimalBufferSize = 0,
                   st_ContextFields = None\<rparr>"

text \<open>A decoded document: levels, and in JSON the flush interval, are still texts.\<close>

record raw_config =
  rw_Loggers :: "(string \<times> string \<times> appender_config list) list"
  rw_Security :: security_config
  rw_RateLimit :: int
  rw_BufferSize :: int
  rw_FlushInterval :: "int + string"
  rw_DefaultLevel :: string
  rw_ProductionLevel :: string
  rw_DevelopmentLevel :: string
  rw_StartupRegistration :: startup_config

datatype load_error =
    ReadFailed string | Unsupported string | ParseFailed | BadLoggerLevel string
  | BadDefaultLevel | BadProductionLevel | BadDevelopmentLevel | BadFlushInterval | NoConfigurations

section \<open>Files\<close>

fun bad_logger :: "(string \<times> string \<times> appender_config list) list \<Rightarrow> string option" where
  "bad_logger [] = None"
| "bad_logger ((name, level, _) # ls) = (if \<not> validateLogLevel level then Some name else bad_logger ls)"

definition check_levels :: "raw_config \<Rightarrow> load_error option" where
  "check_levels t =
     (case bad_logger (rw_Loggers t) of
        Some name \<Rightarrow> Some (BadLoggerLevel name)
      | None \<Rightarrow>
          if \<not> validateLogLevel (rw_DefaultLevel t) then Some BadDefaultLevel
          else if \<not> validateLogLevel (rw_ProductionLevel t) then Some BadProductionLevel
          else if \<not> validateLogLevel (rw_DevelopmentLevel t) then Some BadDevelopmentLevel
          else None)"

definition convert :: "raw_config \<Rightarrow> int \<Rightarrow> halo_config" where
  "convert t flush =
     \<lparr>hc_Component = [], hc_Environment = [], hc_Outputs = [],
      hc_Loggers = map (\<lambda>(name, level, apps). \<lparr>lc_Name = name, lc_Level = ParseLogLevel level, lc_Appenders = apps\<rparr>)
                     (rw_Loggers t),
      hc_Security = rw_Security t,
      hc_Performance = \<lparr>pf_RateLimit = rw_RateLimit t, pf_BufferSize = rw_BufferSize t, pf_FlushInterval = flush\<rparr>,
      hc_EnvConfig = \<lparr>ev_DefaultLevel = ParseLogLevel (rw_DefaultLevel t),
                      ev_ProductionLevel = ParseLogLevel (rw_ProductionLevel t),
                      ev_DevelopmentLevel = ParseLogLevel (rw_DevelopmentLevel t)\<rparr>,
      hc_PerformanceProfile = [], hc_StartupRegistration = rw_StartupRegistration t\<rparr>"

definition LoadFromYAML :: "(bytes \<Rightarrow> raw_config option) \<Rightarrow> bytes \<Rightarrow> load_error + halo_config" where
  "LoadFromYAML yaml dat =
     (case yaml dat of
        None \<Rightarrow> Inl ParseFailed
      | Some t \<Rightarrow>
          (case check_levels t of
             Some err \<Rightarrow> Inl err
           | None \<Rightarrow> Inr (convert t (case rw_FlushInterval t of Inl n \<Rightarrow> n | Inr _ \<Rightarrow> 0))))"

definition LoadFromJSON ::
  "(string \<Rightarrow> int option) \<Rightarrow> (bytes \<Rightarrow> raw_config option) \<Rightarrow> bytes \<Rightarrow> load_error + halo_config" where
  "LoadFromJSON dur json dat =
     (case json dat of
        None \<Rightarrow> Inl ParseFailed
      | Some t \<Rightarrow>
          (case check_levels t of
             Some err \<Rightarrow> Inl err
           | None \<Rightarrow>
               (case dur (case rw_FlushInterval t of Inl _ \<Rightarrow> [] | Inr s \<Rightarrow> s) of
                  None \<Rightarrow> Inl BadFlushInterval
                | Some flush \<Rightarrow> Inr (convert t flush))))"

text \<open>\<open>filepath.Ext\<close>: from the last dot of the last path element.\<close>

definition path_ext :: "string \<Rightarrow> string" where
  "path_ext path =
     (let name = takeWhile (\<lambda>c. c \<noteq> CHR ''/'') (rev path)
      in if CHR ''.'' \<in> set name then CHR ''.'' # rev (takeWhile (\<lambda>c. c \<noteq> CHR ''.'') name) else [])"

definition LoadFromFile ::
  "(string \<Rightarrow> bytes option) \<Rightarrow> (string \<Rightarrow> int option) \<Rightarrow> (bytes \<Rightarrow> raw_config option) \<Rightarrow> (bytes \<Rightarrow> raw_config option) \<Rightarrow>
   string \<Rightarrow> load_error + halo_config" where
  "LoadFromFile read dur yaml json path =
     (case read path of
        None \<Rightarrow> Inl (ReadFailed path)
      | Some dat \<Rightarrow>
          (let e = ToLower (path_ext path) in
           if e = ''.yaml'' \<or> e = ''.yml'' then LoadFromYAML yaml dat
           else if e = ''.json'' then LoadFromJSON dur json dat
           else Inl (Unsupported e)))"

section \<open>Environment variables\<close>

text \<open>
  \<open>fmt.Sscanf(s, "%d", _)\<close>: spaces are skipped but a line feed is an error; a sign, digits; the rest of
  the text is ignored.
\<close>

fun scan_spaces :: "string \<Rightarrow> string option" where
  "scan_spaces [] = Some []"
| "scan_spaces (c # s) = (if ch c = 10 then None else if is_space c then scan_spaces s else Some (c # s))"

definition scan_digits :: "bool \<Rightarrow> string \<Rightarrow> int option" where
  "scan_digits neg s =
     (let ds = takeWhile is_digit s; v = int (dec_val 0 ds); v = (if neg then - v else v)
      in if ds = [] \<or> \<not> is_s64 v then None else Some v)"

definition scan_d :: "string \<Rightarrow> int option" where
  "scan_d s =
     (case scan_spaces s of
        None \<Rightarrow> None
      | Some [] \<Rightarrow> None
      | Some (c # t) \<Rightarrow> if c = CHR ''-'' then scan_digits True t else if c = CHR ''+'' then scan_digits False t
                       else scan_digits False (c # t))"

definition getEnvString :: "(string \<Rightarrow> string) \<Rightarrow> string \<Rightarrow> string \<Rightarrow> string \<Rightarrow> string" where
  "getEnvString env envPrefix key dflt = (let v = env (envPrefix @ key) in if v \<noteq> [] then v else dflt)"

definition getEnvBool :: "(string \<Rightarrow> string) \<Rightarrow> string \<Rightarrow> string \<Rightarrow> bool \<Rightarrow> bool" where
  "getEnvBool env envPrefix key dflt =
     (let v = ToLower (env (envPrefix @ key)) in
      if v \<in> {''true'', ''1'', ''yes'', ''on''} then True
      else if v \<in> {''false'', ''0'', ''no'', ''off''} then False else dflt)"

definition getEnvInt :: "(string \<Rightarrow> string) \<Rightarrow> string \<Rightarrow> string \<Rightarrow> int \<Rightarrow> int" where
  "getEnvInt env envPrefix key dflt =
     (let v = env (envPrefix @ key) in if v = [] then dflt else case scan_d v of None \<Rightarrow> dflt | Some n \<Rightarrow> n)"

fun split_comma :: "string \<Rightarrow> string list" where
  "split_comma [] = [[]]"
| "split_comma (c # s) =
     (if c = CHR '','' then [] # split_comma s
      else case split_comma s of [] \<Rightarrow> [[c]] | p # ps \<Rightarrow> (c # p) # ps)"

definition getEnvStringSlice :: "(string \<Rightarrow> string) \<Rightarrow> string \<Rightarrow> string \<Rightarrow> string list \<Rightarrow> string list" where
  "getEnvStringSlice env envPrefix key dflt = (let v = env (envPrefix @ key) in if v = [] then dflt else split_comma v)"

definition LoadFromEnvironment :: "(string \<Rightarrow> string) \<Rightarrow> string \<Rightarrow> halo_config" where
  "LoadFromEnvironment env p =
     \<lparr>hc_Component = [], hc_Environment = [], hc_Outputs = [],
      hc_Loggers = [\<lparr>lc_Name = getEnvString env p ''LOGGER_NAME'' ''default'',
                     lc_Level = ParseLogLevel (getEnvString env p ''LOGGER_LEVEL'' ''INFO''),
                     lc_Appenders = [\<lparr>ap_Type = getEnvString env p ''APPENDER_TYPE'' ''console'',
                                      ap_Path = getEnvString env p ''FILE_PATH'' [], ap_Rotation = None\<rparr>]\<rparr>],
      hc_Security = \<lparr>sc_PIIPatterns = [], sc_MaskSensitiveData = getEnvBool env p ''MASK_SENSITIVE_DATA'' True\<rparr>,
      hc_Performance = \<lparr>pf_RateLimit = getEnvInt env p ''RATE_LIMIT'' 1000,
                        pf_BufferSize = getEnvInt env p ''BUFFER_SIZE'' 100,
                        pf_FlushInterval = wrap_s64 (getEnvInt env p ''FLUSH_INTERVAL'' 5 * 1000000000)\<rparr>,
      hc_EnvConfig = \<lparr>ev_DefaultLevel = ParseLogLevel (getEnvString env p ''DEFAULT_LEVEL'' ''INFO''),
                      ev_ProductionLevel = ParseLogLevel (getEnvString env p ''PRODUCTION_LEVEL'' ''WARN''),
                      ev_DevelopmentLevel = ParseLogLevel (getEnvString env p ''DEVELOPMENT_LEVEL'' ''DEBUG'')\<rparr>,
      hc_PerformanceProfile = [], hc_StartupRegistration = zero_startup\<rparr>"

text \<open>\<open>LoadFromEnv\<close> sets what the variables name; an unset variable is the empty text.\<close>

definition env_flag :: "(string \<Rightarrow> string) \<Rightarrow> string \<Rightarrow> (bool \<Rightarrow> 'a config_builder \<Rightarrow> 'a config_builder) \<Rightarrow> 'a config_builder \<Rightarrow> 'a config_builder" where
  "env_flag env key set_it c = (if env key \<noteq> [] then set_it (ToLower (env key) = ''true'') c else c)"

definition env_size :: "(string \<Rightarrow> string) \<Rightarrow> string \<Rightarrow> (int \<Rightarrow> 'a config_builder \<Rightarrow> 'a config_builder) \<Rightarrow> 'a config_builder \<Rightarrow> 'a config_builder" where
  "env_size env key set_it c =
     (if env key \<noteq> [] then (case scan_d (env key) of Some n \<Rightarrow> if n > 0 then set_it n c else c | None \<Rightarrow> c) else c)"

definition LoadFromEnv :: "(string \<Rightarrow> string) \<Rightarrow> 'a config_builder" where
  "LoadFromEnv env =
     (let c = NewConfig;
          c = (if env ''LOG_LEVEL'' \<noteq> []
               then let l = ParseLogLevel (env ''LOG_LEVEL'')
                    in if IsDefined l then (WithLevel l c)\<lparr>cb_levelFromEnv := True\<rparr> else c
               else c);
          c = (if env ''APP_ENV'' \<noteq> [] then WithEnv (env ''APP_ENV'') c else c);
          c = env_flag env ''LOG_COLORIZED'' WithColorized c;
          c = env_flag env ''LOG_PRETTY'' WithPrettyPrint c;
          c = env_flag env ''LOG_LINE_IN_DEBUG'' WithLineInDebug c;
          c = env_flag env ''LOG_LINE_IN_ERROR'' WithLineInError c;
          c = env_size env ''LOG_DEBUG_BUFFER_SIZE'' WithDebugBufferSize c;
          c = env_size env ''LOG_MAX_DEBUG_HISTORY'' WithMaxDebugHistory c;
          c = env_flag env ''LOG_VERBOSE'' WithVerbose c;
          c = env_flag env ''LOG_AUTO_FIELDS'' WithAutoFields c;
          c = env_flag env ''LOG_POOLING'' WithPooling c
      in env_flag env ''LOG_METRICS'' WithMetrics c)"

section \<open>Merging\<close>

definition prefer_list :: "'b list \<Rightarrow> 'b list \<Rightarrow> 'b list" where
  "prefer_list x y = (if length y > 0 then y else x)"

definition prefer_int :: "int \<Rightarrow> int \<Rightarrow> int" where
  "prefer_int x y = (if y > 0 then y else x)"

definition prefer_level :: "nat \<Rightarrow> nat \<Rightarrow> nat" where
  "prefer_level x y = (if y \<noteq> InfoLevel then y else x)"

definition merge_some :: "halo_config \<Rightarrow> halo_config \<Rightarrow> halo_config" where
  "merge_some b r = b\<lparr>
     hc_Loggers := prefer_list (hc_Loggers b) (hc_Loggers r),
     hc_Security := (hc_Security b)\<lparr>
       sc_PIIPatterns := prefer_list (sc_PIIPatterns (hc_Security b)) (sc_PIIPatterns (hc_Security r)),
       sc_MaskSensitiveData := (if sc_MaskSensitiveData (hc_Security r) then sc_MaskSensitiveData (hc_Security r)
                                else sc_MaskSensitiveData (hc_Security b))\<rparr>,
     hc_Performance := (hc_Performance b)\<lparr>
       pf_RateLimit := prefer_int (pf_RateLimit (hc_Performance b)) (pf_RateLimit (hc_Performance r)),
       pf_BufferSize := prefer_int (pf_BufferSize (hc_Performance b)) (pf_BufferSize (hc_Performance r)),
       pf_FlushInterval := prefer_int (pf_FlushInterval (hc_Performance b)) (pf_FlushInterval (hc_Performance r))\<rparr>,
     hc_EnvConfig := (hc_EnvConfig b)\<lparr>
       ev_DefaultLevel := prefer_level (ev_DefaultLevel (hc_EnvConfig b)) (ev_DefaultLevel (hc_EnvConfig r)),
       ev_ProductionLevel := prefer_level (ev_ProductionLevel (hc_EnvConfig b)) (ev_ProductionLevel (hc_EnvConfig r)),
       ev_DevelopmentLevel := prefer_level (ev_DevelopmentLevel (hc_EnvConfig b)) (ev_DevelopmentLevel (hc_EnvConfig r))\<rparr>,
     hc_StartupRegistration := (hc_StartupRegistration b)\<lparr>
       st_CustomFields := prefer_list (st_CustomFields (hc_StartupRegistration b)) (st_CustomFields (hc_StartupRegistration r)),
       st_SensitiveFields := prefer_list (st_SensitiveFields (hc_StartupRegistration b)) (st_SensitiveFields (hc_StartupRegistration r)),
       st_FieldColors := prefer_list (st_FieldColors (hc_StartupRegistration b)) (st_FieldColors (hc_StartupRegistration r)),
       st_OptimalBufferSize :=
         prefer_int (st_OptimalBufferSize (hc_StartupRegistration b)) (st_OptimalBufferSize (hc_StartupRegistration r))\<rparr>\<rparr>"

definition mergeHaloLogConfig :: "halo_config option \<Rightarrow> halo_config option \<Rightarrow> halo_config option option" where
  "mergeHaloLogConfig b r =
     (case r of None \<Rightarrow> Some b
      | Some r \<Rightarrow> (case b of None \<Rightarrow> None | Some b \<Rightarrow> Some (Some (merge_some b r))))"

definition MergeConfigurations :: "halo_config option list \<Rightarrow> (load_error + halo_config option) option" where
  "MergeConfigurations configs =
     (case configs of
        [] \<Rightarrow> Some (Inl NoConfigurations)
      | c # cs \<Rightarrow>
          map_option Inr (foldl (\<lambda>res c. Option.bind res (\<lambda>b. mergeHaloLogConfig b c)) (Some c) cs))"

section \<open>Levels as texts\<close>

lemma ToUpper_level_String: "ToUpper (level_String l) = level_String l"
  by (simp add: level_String_def ToUpper_def upper_char_def ch_def)

text \<open>
  The text of every level is accepted and parses back to the level, and parsing gives a defined
  level for every text, \<open>INFO\<close> for those the validator refuses.
\<close>

theorem level_text_round_trip:
  "(if IsDefined l then validateLogLevel (level_String l) \<and> ParseLogLevel (level_String l) = l
    else ParseLogLevel (level_String l) = InfoLevel) \<and>
   IsDefined (ParseLogLevel s) \<and> (validateLogLevel s \<or> ParseLogLevel s = InfoLevel)"
proof -
  have "l \<le> 6 \<Longrightarrow> l = 0 \<or> l = 1 \<or> l = 2 \<or> l = 3 \<or> l = 4 \<or> l = 5 \<or> l = 6" by linarith
  then have "IsDefined l \<Longrightarrow> validateLogLevel (level_String l) \<and> ParseLogLevel (level_String l) = l"
    by (auto simp: IsDefined_def validateLogLevel_def ParseLogLevel_def ToUpper_level_String Let_def)
      (auto simp: level_String_def level_defs)
  moreover have "\<not> IsDefined l \<Longrightarrow> ParseLogLevel (level_String l) = InfoLevel"
    by (simp add: IsDefined_def ParseLogLevel_def Let_def ToUpper_level_String)
      (simp add: level_String_def level_defs)
  moreover have "IsDefined (ParseLogLevel s)" by (simp add: ParseLogLevel_def Let_def IsDefined_def level_defs)
  moreover have "validateLogLevel s \<or> ParseLogLevel s = InfoLevel" by (auto simp: ParseLogLevel_def validateLogLevel_def Let_def)
  ultimately show ?thesis by simp
qed

section \<open>Merging\<close>

lemma prefer_assoc:
  "prefer_list (prefer_list x y) z = prefer_list x (prefer_list y z)"
  "prefer_int (prefer_int i j) k = prefer_int i (prefer_int j k)"
  "prefer_level (prefer_level l m) n = prefer_level l (prefer_level m n)"
  by (auto simp: prefer_list_def prefer_int_def prefer_level_def)

lemma merge_some_assoc: "merge_some (merge_some a b) c = merge_some a (merge_some b c)"
  by (simp add: merge_some_def prefer_assoc)

lemma merge_some_idem: "merge_some a a = a"
  by (simp add: merge_some_def prefer_list_def prefer_int_def prefer_level_def)

text \<open>The reference: the last configuration that sets a value, or the first one's.\<close>

definition last_set :: "('b \<Rightarrow> bool) \<Rightarrow> ('c \<Rightarrow> 'b) \<Rightarrow> 'c \<Rightarrow> 'c list \<Rightarrow> 'b" where
  "last_set P g c cs = (case filter (\<lambda>x. P (g x)) (rev cs) of [] \<Rightarrow> g c | x # _ \<Rightarrow> g x)"

lemma last_set_snoc: "last_set P g c (cs @ [x]) = (if P (g x) then g x else last_set P g c cs)"
  by (simp add: last_set_def)

lemma foldl_last_set:
  assumes "\<And>b r. g (f b r) = (if P (g r) then g r else g b)"
  shows "g (foldl f c cs) = last_set P g c cs"
proof (induction cs rule: rev_induct)
  case Nil
  then show ?case by (simp add: last_set_def)
next
  case (snoc x xs)
  then show ?case by (simp add: last_set_snoc assms)
qed

lemma Merge_fold:
  "MergeConfigurations (map Some (c # cs)) = Some (Inr (Some (foldl merge_some c cs)))"
proof -
  have "foldl (\<lambda>res c. Option.bind res (\<lambda>b. mergeHaloLogConfig b c)) (Some (Some b)) (map Some cs) = Some (Some (foldl merge_some b cs))" for b
    by (induction cs arbitrary: b) (simp_all add: mergeHaloLogConfig_def)
  then show ?thesis by (simp add: MergeConfigurations_def)
qed

text \<open>
  Merging configurations gives each setting of the last one that sets it: a non-empty list, a
  positive number, a level other than \<open>INFO\<close>; a flag is on when one turns it on. The component, the
  environment, the outputs and the profile are always the first one's.
\<close>

theorem merge_takes_last_setting:
  "\<exists>r. MergeConfigurations (map Some (c # cs)) = Some (Inr (Some r)) \<and>
     hc_Loggers r = last_set (\<lambda>x. x \<noteq> []) hc_Loggers c cs \<and>
     sc_PIIPatterns (hc_Security r) = last_set (\<lambda>x. x \<noteq> []) (\<lambda>x. sc_PIIPatterns (hc_Security x)) c cs \<and>
     sc_MaskSensitiveData (hc_Security r) = list_ex (\<lambda>x. sc_MaskSensitiveData (hc_Security x)) (c # cs) \<and>
     pf_RateLimit (hc_Performance r) = last_set (\<lambda>x. x > 0) (\<lambda>x. pf_RateLimit (hc_Performance x)) c cs \<and>
     pf_FlushInterval (hc_Performance r) = last_set (\<lambda>x. x > 0) (\<lambda>x. pf_FlushInterval (hc_Performance x)) c cs \<and>
     ev_ProductionLevel (hc_EnvConfig r) = last_set (\<lambda>x. x \<noteq> InfoLevel) (\<lambda>x. ev_ProductionLevel (hc_EnvConfig x)) c cs \<and>
     st_SensitiveFields (hc_StartupRegistration r)
       = last_set (\<lambda>x. x \<noteq> []) (\<lambda>x. st_SensitiveFields (hc_StartupRegistration x)) c cs \<and>
     hc_Component r = hc_Component c \<and> hc_Environment r = hc_Environment c \<and> hc_Outputs r = hc_Outputs c \<and>
     hc_PerformanceProfile r = hc_PerformanceProfile c"
proof -
  let ?r = "foldl merge_some c cs"
  have keep: "hc_Component ?r = hc_Component c \<and> hc_Environment ?r = hc_Environment c \<and> hc_Outputs ?r = hc_Outputs c \<and>
      hc_PerformanceProfile ?r = hc_PerformanceProfile c"
    by (induction cs arbitrary: c) (simp_all add: merge_some_def)
  have mask: "sc_MaskSensitiveData (hc_Security ?r) = list_ex (\<lambda>x. sc_MaskSensitiveData (hc_Security x)) (c # cs)"
    by (induction cs arbitrary: c) (auto simp: merge_some_def)
  show ?thesis
    by (intro exI [of _ ?r] conjI Merge_fold keep [THEN conjunct1] mask
          keep [THEN conjunct2, THEN conjunct1] keep [THEN conjunct2, THEN conjunct2, THEN conjunct1]
          keep [THEN conjunct2, THEN conjunct2, THEN conjunct2];
        rule foldl_last_set; simp add: merge_some_def prefer_list_def prefer_int_def prefer_level_def)
qed

text \<open>No configuration can set a level back to \<open>INFO\<close> or turn masking off.\<close>

lemma merge_cannot_reset:
  "ev_DefaultLevel (hc_EnvConfig r) = InfoLevel \<Longrightarrow>
     ev_DefaultLevel (hc_EnvConfig (merge_some b r)) = ev_DefaultLevel (hc_EnvConfig b)"
  "sc_MaskSensitiveData (hc_Security b) \<Longrightarrow> sc_MaskSensitiveData (hc_Security (merge_some b r))"
  by (simp_all add: merge_some_def prefer_level_def)

lemma merge_nil_base_panics: "MergeConfigurations [None, Some c] = None"
  by (simp add: MergeConfigurations_def mergeHaloLogConfig_def)

section \<open>Loaded files\<close>

lemma bad_logger_None: "bad_logger ls = None \<longleftrightarrow> list_all (\<lambda>(_, level, _). validateLogLevel level) ls"
  by (induction ls rule: bad_logger.induct) auto

lemma check_levels_None:
  "check_levels t = None \<longleftrightarrow>
     list_all (\<lambda>(_, level, _). validateLogLevel level) (rw_Loggers t) \<and> validateLogLevel (rw_DefaultLevel t) \<and>
     validateLogLevel (rw_ProductionLevel t) \<and> validateLogLevel (rw_DevelopmentLevel t)"
  by (auto simp: check_levels_def bad_logger_None split: option.split)
    (metis bad_logger_None option.distinct(1))+

text \<open>A document without the environment's levels is refused, and in JSON one without a flush interval.\<close>

lemma missing_levels_refused:
  "yaml dat = Some t \<Longrightarrow> rw_DefaultLevel t = [] \<Longrightarrow> \<exists>err. LoadFromYAML yaml dat = Inl err"
  by (cases "bad_logger (rw_Loggers t)")
    (auto simp: LoadFromYAML_def check_levels_def validateLogLevel_def ToUpper_def)

section \<open>The environment decides the level\<close>

lemma env_flag_sel:
  "cb_level (env_flag env k WithColorized c) = cb_level c" "cb_level (env_flag env k WithPrettyPrint c) = cb_level c"
  "cb_level (env_flag env k WithLineInDebug c) = cb_level c" "cb_level (env_flag env k WithLineInError c) = cb_level c"
  "cb_level (env_flag env k WithVerbose c) = cb_level c" "cb_level (env_flag env k WithAutoFields c) = cb_level c"
  "cb_level (env_flag env k WithPooling c) = cb_level c" "cb_level (env_flag env k WithMetrics c) = cb_level c"
  "cb_level (env_size env k WithDebugBufferSize c) = cb_level c"
  "cb_level (env_size env k WithMaxDebugHistory c) = cb_level c"
  by (simp_all add: env_flag_def env_size_def WithColorized_def WithPrettyPrint_def WithLineInDebug_def WithLineInError_def
      WithVerbose_def WithAutoFields_def WithPooling_def WithMetrics_def WithDebugBufferSize_def WithMaxDebugHistory_def
      split: option.split)

lemma env_flag_marks:
  "cb_levelSet (env_flag env k WithColorized c) = cb_levelSet c" "cb_levelSet (env_flag env k WithPrettyPrint c) = cb_levelSet c"
  "cb_levelSet (env_flag env k WithLineInDebug c) = cb_levelSet c" "cb_levelSet (env_flag env k WithLineInError c) = cb_levelSet c"
  "cb_levelSet (env_flag env k WithVerbose c) = cb_levelSet c" "cb_levelSet (env_flag env k WithAutoFields c) = cb_levelSet c"
  "cb_levelSet (env_flag env k WithPooling c) = cb_levelSet c" "cb_levelSet (env_flag env k WithMetrics c) = cb_levelSet c"
  "cb_levelSet (env_size env k WithDebugBufferSize c) = cb_levelSet c"
  "cb_levelSet (env_size env k WithMaxDebugHistory c) = cb_levelSet c"
  "cb_levelFromEnv (env_flag env k WithColorized c) = cb_levelFromEnv c" "cb_levelFromEnv (env_flag env k WithPrettyPrint c) = cb_levelFromEnv c"
  "cb_levelFromEnv (env_flag env k WithLineInDebug c) = cb_levelFromEnv c" "cb_levelFromEnv (env_flag env k WithLineInError c) = cb_levelFromEnv c"
  "cb_levelFromEnv (env_flag env k WithVerbose c) = cb_levelFromEnv c" "cb_levelFromEnv (env_flag env k WithAutoFields c) = cb_levelFromEnv c"
  "cb_levelFromEnv (env_flag env k WithPooling c) = cb_levelFromEnv c" "cb_levelFromEnv (env_flag env k WithMetrics c) = cb_levelFromEnv c"
  "cb_levelFromEnv (env_size env k WithDebugBufferSize c) = cb_levelFromEnv c"
  "cb_levelFromEnv (env_size env k WithMaxDebugHistory c) = cb_levelFromEnv c"
  by (simp_all add: env_flag_def env_size_def WithColorized_def WithPrettyPrint_def WithLineInDebug_def WithLineInError_def
      WithVerbose_def WithAutoFields_def WithPooling_def WithMetrics_def WithDebugBufferSize_def WithMaxDebugHistory_def
      split: option.split)

lemma LoadFromEnv_level:
  assumes "env ''LOG_LEVEL'' \<noteq> []"
  shows "cb_level (LoadFromEnv env) = ParseLogLevel (env ''LOG_LEVEL'')" "cb_levelSet (LoadFromEnv env)"
    "cb_levelFromEnv (LoadFromEnv env)"
proof -
  have "IsDefined (ParseLogLevel (env ''LOG_LEVEL''))" by (simp add: ParseLogLevel_def Let_def IsDefined_def level_defs)
  then show "cb_level (LoadFromEnv env) = ParseLogLevel (env ''LOG_LEVEL'')" "cb_levelSet (LoadFromEnv env)"
    "cb_levelFromEnv (LoadFromEnv env)"
    using assms by (simp_all add: LoadFromEnv_def Let_def env_flag_sel env_flag_marks WithEnv_def WithLevel_def)
qed

text \<open>
  A level named by \<open>LOG_LEVEL\<close> is the level of the built configuration in every environment,
  production too; a text that is no level counts as \<open>INFO\<close>.
\<close>

theorem LOG_LEVEL_decides:
  assumes "env ''LOG_LEVEL'' \<noteq> []" "Build eng defaults names scs fcs fd (LoadFromEnv env) = Some (fd', c', ic)"
  shows "ic_Level ic = ParseLogLevel (env ''LOG_LEVEL'')"
  by (simp add: Build_level [OF assms(2)] LoadFromEnv_level assms(1))

theorem LOG_LEVEL_decides_witness:
  "\<exists>fd' c' ic. Build prefix_engine [] [] [] [] NewFieldDictionary
     (LoadFromEnv (\<lambda>k. if k = ''LOG_LEVEL'' then ''ERROR'' else if k = ''APP_ENV'' then ''production'' else []) :: unit config_builder)
       = Some (fd', c', ic) \<and> ic_Level ic = ErrorLevel"
proof -
  let ?env = "\<lambda>k. if k = ''LOG_LEVEL'' then ''ERROR'' else if k = ''APP_ENV'' then ''production'' else []"
  have "list_all (compiles prefix_engine) []" "list_all (rule_valid prefix_engine) getDefaultMaskingRules"
    by (simp_all add: getDefaultMaskingRules_def default_rule_def rule_valid_def validateRule_def prefix_engine_def)
  from Build_succeeds [OF this, where c = "LoadFromEnv ?env :: unit config_builder" and names = "[]" and scs = "[]" and fcs = "[]" and fd = NewFieldDictionary]
  obtain fd' c' and ic :: "(unit, string) immutable_config"
    where b: "Build prefix_engine [] [] [] [] NewFieldDictionary (LoadFromEnv ?env) = Some (fd', c', ic)" by blast
  have "ParseLogLevel ''ERROR'' = ErrorLevel" by (simp add: ParseLogLevel_def ToUpper_def upper_char_def ch_def)
  then have "ic_Level ic = ErrorLevel" using LOG_LEVEL_decides [of ?env, OF _ b] by simp
  then show ?thesis using b by blast
qed

end
