(* ===== verification/Http_Sink.thy ===== *)
theory Http_Sink
  imports Log_Entry String_Helpers "HOL-Library.Multiset"
begin

text \<open>
  The HTTP adapter (\<^verbatim>\<open>adapters/outputs/http/http.go\<close>, \<^verbatim>\<open>adapters/outputs/http/config.go\<close>): a buffer of
  pointers to entries, sent in batches, and its own JSON formatter.

  A pointer is an index into the memory \<open>mem\<close>, since the adapter keeps the caller's pointer and reads the
  entry when a batch is sent. The server is a record of what \<open>net/http\<close> makes of a request: whether it can be
  built, and the status of the answer, or nothing for a failed exchange. Pooled buffers are reset before use
  and are not part of the state. \<open>ft\<close> prints a \<open>float64\<close> with \<open>'f'\<close>, \<open>sprint32\<close> a \<open>float32\<close> with \<open>fmt.Sprint\<close>.
\<close>

section \<open>Errors and options\<close>

datatype http_error = ErrHTTPNilEntry | ErrHTTPCreateReq | ErrHTTPSendReq | HTTPStatusError int string

definition buildErrorMessage :: "int \<Rightarrow> string" where
  "buildErrorMessage status = FormatIntWithPrefix ''HTTP error: '' status"

definition httpStatusErrors :: "http_error option list" where
  "httpStatusErrors =
     map (\<lambda>i. if 100 \<le> i then Some (HTTPStatusError (int i) (buildErrorMessage (int i))) else None) [0..<600]"

definition newHTTPStatusError :: "int \<Rightarrow> http_error option" where
  "newHTTPStatusError status =
     (if status \<ge> 100 \<and> status < 600 then httpStatusErrors ! nat status
      else Some (HTTPStatusError status (buildErrorMessage status)))"

record 'd http_options =
  ho_URL :: string
  ho_Method :: string
  ho_Headers :: "(string \<times> string) list option"
  ho_BatchSize :: int
  ho_FlushInterval :: int
  ho_Timeout :: int
  ho_Formatter :: "('d full_entry \<Rightarrow> bytes) option"

record 'd http_adapter =
  ha_url :: string
  ha_method :: string
  ha_headers :: "(string \<times> string) list"
  ha_batchSize :: int
  ha_flushInterval :: int
  ha_timeout :: int
  ha_buffer :: "nat list"
  ha_adapterType :: string
  ha_formatter :: "'d full_entry \<Rightarrow> bytes"
  ha_flushInProgress :: bool
  ha_cancelled :: bool      \<comment> \<open>the context is cancelled\<close>

record http_request =
  rq_method :: string
  rq_url :: string
  rq_headers :: "(string \<times> string) list"
  rq_body :: bytes

record 's http_server =
  sv_valid :: "string \<Rightarrow> string \<Rightarrow> bool"                 \<comment> \<open>\<open>http.NewRequestWithContext\<close> succeeds\<close>
  sv_do :: "'s \<Rightarrow> http_request \<Rightarrow> 's \<times> int option"        \<comment> \<open>\<open>Client.Do\<close>: the status, \<open>None\<close> for an error\<close>

section \<open>The formatter\<close>

definition escape_quotes :: "string \<Rightarrow> string" where
  "escape_quotes s = concat (map (\<lambda>c. if c = CHR 0x22 then [CHR 0x5C, CHR 0x22] else [c]) s)"

fun sprint :: "(go_float \<Rightarrow> string) \<Rightarrow> go_any \<Rightarrow> string" where
  "sprint sprint32 GNil = ''<nil>''"
| "sprint sprint32 (GString s) = s"
| "sprint sprint32 (GBool b) = (if b then ''true'' else ''false'')"
| "sprint sprint32 (GInt i) = itoa i"
| "sprint sprint32 (GInt8 i) = itoa i"
| "sprint sprint32 (GInt16 i) = itoa i"
| "sprint sprint32 (GInt32 i) = itoa i"
| "sprint sprint32 (GInt64 i) = itoa i"
| "sprint sprint32 (GUint u) = itoa u"
| "sprint sprint32 (GUint8 u) = itoa u"
| "sprint sprint32 (GUint16 u) = itoa u"
| "sprint sprint32 (GUint32 u) = itoa u"
| "sprint sprint32 (GUint64 u) = itoa u"
| "sprint sprint32 (GFloat32 f) = sprint32 f"
| "sprint sprint32 (GFloat64 f) = sprint32 f"
| "sprint sprint32 (GError e) = e"
| "sprint sprint32 (GOther t) = t"

definition zj_value :: "(go_float \<Rightarrow> string) \<Rightarrow> (go_float \<Rightarrow> string) \<Rightarrow> go_any \<Rightarrow> bytes" where
  "zj_value ft sprint32 v =
     (case v of
        GString s \<Rightarrow> ''\"'' @ s @ ''\"''
      | GInt64 i \<Rightarrow> itoa i
      | GFloat64 f \<Rightarrow> ft f
      | GBool b \<Rightarrow> if b then ''true'' else ''false''
      | _ \<Rightarrow> ''\"'' @ sprint sprint32 v @ ''\"'')"

fun zj_fields :: "(go_float \<Rightarrow> string) \<Rightarrow> (go_float \<Rightarrow> string) \<Rightarrow> nat \<Rightarrow> typed_field list \<Rightarrow> bytes" where
  "zj_fields ft sprint32 i [] = []"
| "zj_fields ft sprint32 i (f # fs) =
     (if i > 0 then '','' else []) @ ''\"'' @ tf_Key f @ ''\":'' @ zj_value ft sprint32 (tf_Value f)
       @ zj_fields ft sprint32 (i + 1) fs"

definition zj_Format ::
  "(go_float \<Rightarrow> string) \<Rightarrow> (go_float \<Rightarrow> string) \<Rightarrow> 'd full_entry option \<Rightarrow> bytes" where
  "zj_Format ft sprint32 e =
     (case e of
        None \<Rightarrow> []
      | Some e \<Rightarrow>
          ''{'' @ ''\"level\":\"'' @ level_String (le_Level e) @ ''\"'' @
          (if le_Message e \<noteq> [] then '',\"message\":\"'' @ escape_quotes (le_Message e) @ ''\"'' else []) @
          (if le_Timestamp e \<noteq> None then '',\"timestamp\":'' @ itoa (le_TimestampUnix e) else []) @
          (if length (le_Fields e) > 0 then '',\"fields\":{'' @ zj_fields ft sprint32 0 (le_Fields e) @ ''}'' else []) @
          ''}'')"

definition zj_EstimatedSize :: int where
  "zj_EstimatedSize = 2048"

text \<open>
  \<open>FormatBatch\<close> writes each entry behind the text so far, in the pooled array of \<open>cap\<close> bytes: an entry that
  does not fit is formatted elsewhere and the slice expression panics. \<open>grow\<close> is the capacity of \<open>append\<close>.
\<close>

definition append_byte :: "(nat \<Rightarrow> nat) \<Rightarrow> char \<Rightarrow> bytes \<times> nat \<Rightarrow> bytes \<times> nat" where
  "append_byte grow c = (\<lambda>(buf, cap). (buf @ [c], if length buf < cap then cap else grow (length buf)))"

fun batch_loop ::
  "(nat \<Rightarrow> nat) \<Rightarrow> ('d full_entry \<Rightarrow> bytes) \<Rightarrow> nat \<Rightarrow> 'd full_entry list \<Rightarrow> bytes \<times> nat \<Rightarrow> (bytes \<times> nat) option" where
  "batch_loop grow fmt i [] st = Some st"
| "batch_loop grow fmt i (e # es) st =
     (let (buf, cap) = (if i > 0 then append_byte grow (CHR '','') st else st);
          txt = fmt e
      in if length buf + length txt \<le> cap then batch_loop grow fmt (i + 1) es (buf @ txt, cap) else None)"

definition FormatBatch ::
  "(nat \<Rightarrow> nat) \<Rightarrow> ('d full_entry \<Rightarrow> bytes) \<Rightarrow> nat \<Rightarrow> 'd full_entry list \<Rightarrow> bytes option" where
  "FormatBatch grow fmt cap es =
     (if length es = 0 then Some ''[]''
      else map_option (fst \<circ> append_byte grow (CHR '']''))
             (batch_loop grow fmt 0 es (append_byte grow (CHR ''['') ([], cap))))"

section \<open>Construction\<close>

definition ha_SetFormatter :: "('d full_entry \<Rightarrow> bytes) option \<Rightarrow> 'd http_adapter \<Rightarrow> 'd http_adapter" where
  "ha_SetFormatter f a = (case f of None \<Rightarrow> a | Some f \<Rightarrow> a\<lparr>ha_formatter := f\<rparr>)"

definition zero_options :: "'d http_options" where
  "zero_options = \<lparr>ho_URL = [], ho_Method = [], ho_Headers = None, ho_BatchSize = 0, ho_FlushInterval = 0,
                   ho_Timeout = 0, ho_Formatter = None\<rparr>"

text \<open>A negative batch size panics where the buffer is made.\<close>

definition NewHTTPAdapterWithOptions ::
  "('d full_entry \<Rightarrow> bytes) \<Rightarrow> 'd http_options option \<Rightarrow> 'd http_adapter option" where
  "NewHTTPAdapterWithOptions zj options =
     (let options = (case options of None \<Rightarrow> zero_options | Some x \<Rightarrow> x);
          method = (if ho_Method options = [] then ''POST'' else ho_Method options);
          batchSize = (if ho_BatchSize options = 0 then 100 else ho_BatchSize options);
          timeout = (if ho_Timeout options = 0 then 30 * 1000000000 else ho_Timeout options);
          headers = (case ho_Headers options of None \<Rightarrow> [(''Content-Type'', ''application/json'')] | Some h \<Rightarrow> h)
      in if batchSize < 0 then None
         else Some (ha_SetFormatter (Some (case ho_Formatter options of Some f \<Rightarrow> f | None \<Rightarrow> zj))
           \<lparr>ha_url = ho_URL options, ha_method = method, ha_headers = headers, ha_batchSize = batchSize,
            ha_flushInterval = ho_FlushInterval options, ha_timeout = timeout, ha_buffer = [],
            ha_adapterType = ''HTTPAdapter'', ha_formatter = zj, ha_flushInProgress = False, ha_cancelled = False\<rparr>))"

definition NewHTTPAdapter :: "('d full_entry \<Rightarrow> bytes) \<Rightarrow> string \<Rightarrow> 'd http_adapter option" where
  "NewHTTPAdapter zj url =
     NewHTTPAdapterWithOptions zj (Some (zero_options\<lparr>ho_URL := url, ho_FlushInterval := 5 * 1000000000\<rparr>))"

definition NewStreamingHTTPAdapter :: "('d full_entry \<Rightarrow> bytes) \<Rightarrow> string \<Rightarrow> int \<Rightarrow> 'd http_adapter option" where
  "NewStreamingHTTPAdapter zj url timeout =
     (let timeout = (if timeout = 0 then 10 * 1000000000 else timeout)
      in map_option (\<lambda>a. a\<lparr>ha_adapterType := ''StreamingHTTPAdapter''\<rparr>)
           (NewHTTPAdapterWithOptions zj (Some (zero_options\<lparr>ho_URL := url, ho_Timeout := timeout, ho_BatchSize := 1\<rparr>))))"

definition ha_Name :: "'d http_adapter \<Rightarrow> string" where
  "ha_Name a = ha_adapterType a"

definition ha_Health :: "'d http_adapter \<Rightarrow> string option" where
  "ha_Health a = (if ha_cancelled a then Some ''context canceled'' else None)"

section \<open>Sending\<close>

definition unix_seconds :: "int option \<Rightarrow> int" where
  "unix_seconds t = (case t of None \<Rightarrow> - 62135596800 | Some n \<Rightarrow> n div 1000000000)"

fun join_comma :: "bytes list \<Rightarrow> bytes" where
  "join_comma [] = []"
| "join_comma [x] = x"
| "join_comma (x # xs) = x @ '','' @ join_comma xs"

definition batch_body :: "('d full_entry \<Rightarrow> bytes) \<Rightarrow> 'd full_entry list \<Rightarrow> bytes" where
  "batch_body fmt es =
     ''{\"timestamp\":'' @ itoa (unix_seconds (le_Timestamp (hd es))) @ '',\"count\":'' @ itoa (int (length es)) @
     '',\"entries\":['' @ join_comma (map fmt es) @ '']}''"

definition sendBatch ::
  "'s http_server \<Rightarrow> (nat \<Rightarrow> 'd full_entry) \<Rightarrow> 'd http_adapter \<Rightarrow> nat list \<Rightarrow> 's \<Rightarrow> 's \<times> http_error option" where
  "sendBatch sv mem a window s =
     (if length window = 0 then (s, None)
      else let body = batch_body (ha_formatter a) (map mem window) in
           if \<not> sv_valid sv (ha_method a) (ha_url a) then (s, Some ErrHTTPCreateReq)
           else if ha_cancelled a then (s, Some ErrHTTPSendReq)
           else case sv_do sv s \<lparr>rq_method = ha_method a, rq_url = ha_url a, rq_headers = ha_headers a, rq_body = body\<rparr> of
                  (s, None) \<Rightarrow> (s, Some ErrHTTPSendReq)
                | (s, Some status) \<Rightarrow> (s, if status < 200 \<or> status \<ge> 300 then newHTTPStatusError status else None))"

text \<open>
  \<open>Flush\<close> takes the buffer and sends it window by window; a window that fails goes back in front of the
  buffer and the loop ends. The batch size is positive after construction.
\<close>

definition take_buffer :: "'d http_adapter \<Rightarrow> nat list \<times> 'd http_adapter" where
  "take_buffer a = (ha_buffer a, a\<lparr>ha_buffer := []\<rparr>)"

definition requeue :: "nat list \<Rightarrow> 'd http_adapter \<Rightarrow> 'd http_adapter" where
  "requeue window a = a\<lparr>ha_buffer := window @ ha_buffer a\<rparr>"

function flush_loop ::
  "'s http_server \<Rightarrow> (nat \<Rightarrow> 'd full_entry) \<Rightarrow> nat list \<Rightarrow> 'd http_adapter \<Rightarrow> 's \<Rightarrow> 'd http_adapter \<times> 's \<times> http_error option" where
  "flush_loop sv mem rest a s =
     (if rest = [] \<or> ha_batchSize a \<le> 0 then (a, s, None)
      else let window = take (nat (ha_batchSize a)) rest in
           case sendBatch sv mem a window s of
             (s, None) \<Rightarrow> flush_loop sv mem (drop (nat (ha_batchSize a)) rest) a s
           | (s, Some err) \<Rightarrow> (requeue window a, s, Some err))"
  by pat_completeness auto
termination by (relation "measure (\<lambda>(sv, mem, rest, a, s). length rest)") auto

declare flush_loop.simps [simp del]

definition ha_Flush ::
  "'s http_server \<Rightarrow> (nat \<Rightarrow> 'd full_entry) \<Rightarrow> 'd http_adapter \<Rightarrow> 's \<Rightarrow> 'd http_adapter \<times> 's \<times> http_error option" where
  "ha_Flush sv mem a s =
     (if length (ha_buffer a) = 0 then (a, s, None)
      else case take_buffer a of (entries, a) \<Rightarrow> flush_loop sv mem entries a s)"

text \<open>
  \<open>Write\<close>: the last component says whether a background flush has been started. In streaming mode the
  flush is done on the spot.
\<close>

definition ha_Write ::
  "'s http_server \<Rightarrow> (nat \<Rightarrow> 'd full_entry) \<Rightarrow> nat option \<Rightarrow> 'd http_adapter \<Rightarrow> 's \<Rightarrow>
   'd http_adapter \<times> 's \<times> http_error option \<times> bool" where
  "ha_Write sv mem e a s =
     (case e of
        None \<Rightarrow> (a, s, Some ErrHTTPNilEntry, False)
      | Some p \<Rightarrow>
          let a = a\<lparr>ha_buffer := ha_buffer a @ [p]\<rparr> in
          if int (length (ha_buffer a)) \<ge> ha_batchSize a
          then if ha_batchSize a = 1 then (case ha_Flush sv mem a s of (a, s, err) \<Rightarrow> (a, s, err, False))
               else if \<not> ha_flushInProgress a then (a\<lparr>ha_flushInProgress := True\<rparr>, s, None, True)
               else (a, s, None, False)
          else (a, s, None, False))"

definition ha_WriteZero ::
  "'s http_server \<Rightarrow> (nat \<Rightarrow> 'd full_entry) \<Rightarrow> nat option \<Rightarrow> 'd http_adapter \<Rightarrow> 's \<Rightarrow>
   'd http_adapter \<times> 's \<times> http_error option \<times> bool" where
  "ha_WriteZero sv mem e a s = ha_Write sv mem e a s"

text \<open>The goroutine \<open>Write\<close> starts.\<close>

definition background_flush ::
  "'s http_server \<Rightarrow> (nat \<Rightarrow> 'd full_entry) \<Rightarrow> 'd http_adapter \<Rightarrow> 's \<Rightarrow> 'd http_adapter \<times> 's" where
  "background_flush sv mem a s = (case ha_Flush sv mem a s of (a, s, _) \<Rightarrow> (a\<lparr>ha_flushInProgress := False\<rparr>, s))"

text \<open>A tick of the flush timer, which runs only for a non-zero interval, and its final flush.\<close>

definition timer_tick ::
  "'s http_server \<Rightarrow> (nat \<Rightarrow> 'd full_entry) \<Rightarrow> 'd http_adapter \<Rightarrow> 's \<Rightarrow> 'd http_adapter \<times> 's" where
  "timer_tick sv mem a s =
     (if ha_flushInterval a = 0 \<and> \<not> ha_cancelled a then (a, s)
      else case ha_Flush sv mem a s of (a, s, _) \<Rightarrow> (a, s))"

definition ha_Close ::
  "'s http_server \<Rightarrow> (nat \<Rightarrow> 'd full_entry) \<Rightarrow> 'd http_adapter \<Rightarrow> 's \<Rightarrow> 'd http_adapter \<times> 's" where
  "ha_Close sv mem a s =
     (case ha_Flush sv mem a s of (a, s, _) \<Rightarrow> timer_tick sv mem (a\<lparr>ha_cancelled := True\<rparr>) s)"

section \<open>Every interleaving of writes and flushes\<close>

text \<open>
  A flush holds the lock while it takes the buffer and while it puts a failed window back; in between,
  writes and other flushes run. A flight is what a running flush has still to send. \<open>EWrite\<close> is the locked
  part of \<open>Write\<close>, \<open>ETake\<close> the start of a flush, whoever calls it, \<open>ESend k\<close> the next turn of the loop of
  flight \<open>k\<close>, with the memory at that moment, \<open>ECancel\<close> the cancellation of \<open>Close\<close>.
\<close>

datatype 'd http_event = EWrite nat | ETake | ESend nat "nat \<Rightarrow> 'd full_entry" | ECancel

record ('s, 'd) http_system =
  hy_ad :: "'d http_adapter"
  hy_srv :: 's
  hy_flights :: "nat list list"
  hy_given :: "nat list"
  hy_sent :: "nat list list"      \<comment> \<open>the windows the server accepted\<close>
  hy_lost :: "nat list"
  hy_failed :: nat

definition send_turn ::
  "'s http_server \<Rightarrow> (nat \<Rightarrow> 'd full_entry) \<Rightarrow> nat \<Rightarrow> ('s, 'd) http_system \<Rightarrow> ('s, 'd) http_system" where
  "send_turn sv mem k y =
     (let a = hy_ad y; rest = hy_flights y ! k; b = nat (ha_batchSize a); window = take b rest in
      case sendBatch sv mem a window (hy_srv y) of
        (s, None) \<Rightarrow> y\<lparr>hy_srv := s, hy_flights := (hy_flights y)[k := drop b rest], hy_sent := hy_sent y @ [window]\<rparr>
      | (s, Some err) \<Rightarrow>
          y\<lparr>hy_ad := requeue window a, hy_srv := s, hy_flights := (hy_flights y)[k := []],
            hy_lost := hy_lost y @ drop b rest, hy_failed := hy_failed y + 1\<rparr>)"

fun http_step :: "'s http_server \<Rightarrow> ('s, 'd) http_system \<Rightarrow> 'd http_event \<Rightarrow> ('s, 'd) http_system" where
  "http_step sv y (EWrite p) =
     y\<lparr>hy_ad := (hy_ad y)\<lparr>ha_buffer := ha_buffer (hy_ad y) @ [p]\<rparr>, hy_given := hy_given y @ [p]\<rparr>"
| "http_step sv y ETake =
     (case take_buffer (hy_ad y) of (entries, a) \<Rightarrow> y\<lparr>hy_ad := a, hy_flights := hy_flights y @ [entries]\<rparr>)"
| "http_step sv y (ESend k mem) =
     (if k < length (hy_flights y) \<and> hy_flights y ! k \<noteq> [] then send_turn sv mem k y else y)"
| "http_step sv y ECancel = y\<lparr>hy_ad := (hy_ad y)\<lparr>ha_cancelled := True\<rparr>\<rparr>"

definition http_start :: "'d http_adapter \<Rightarrow> 's \<Rightarrow> ('s, 'd) http_system" where
  "http_start a s = \<lparr>hy_ad = a, hy_srv = s, hy_flights = [], hy_given = [], hy_sent = [], hy_lost = [], hy_failed = 0\<rparr>"

definition http_ok :: "int \<Rightarrow> ('s, 'd) http_system \<Rightarrow> bool" where
  "http_ok b y \<longleftrightarrow>
     ha_batchSize (hy_ad y) = b \<and>
     mset (concat (hy_sent y)) + mset (concat (hy_flights y)) + mset (ha_buffer (hy_ad y)) + mset (hy_lost y) = mset (hy_given y) \<and>
     list_all (\<lambda>w. w \<noteq> [] \<and> int (length w) \<le> b) (hy_sent y) \<and>
     (hy_failed y = 0 \<longrightarrow> hy_lost y = [])"

lemma mset_concat_update:
  "k < length xss \<Longrightarrow> mset (concat xss) = mset (xss ! k) + mset (concat (xss[k := []]))"
  by (induction xss arbitrary: k) (auto split: nat.split simp: less_Suc_eq_0_disj)

lemma mset_concat_update_to:
  "k < length xss \<Longrightarrow> mset (concat (xss[k := ys])) = mset ys + mset (concat (xss[k := []]))"
  using mset_concat_update [of k "xss[k := ys]"] by simp

lemma send_turn_ok:
  assumes "http_ok b y" "0 < b" "k < length (hy_flights y)" "hy_flights y ! k \<noteq> []"
  shows "http_ok b (send_turn sv mem k y)"
proof -
  let ?rest = "hy_flights y ! k"
  let ?w = "take (nat b) ?rest"
  have b: "ha_batchSize (hy_ad y) = b" using assms(1) by (simp add: http_ok_def)
  have rest: "mset ?rest = mset ?w + mset (drop (nat b) ?rest)"
    by (metis append_take_drop_id mset_append)
  have fl: "mset (concat (hy_flights y)) = mset ?w + mset (drop (nat b) ?rest) + mset (concat ((hy_flights y)[k := []]))"
    using mset_concat_update [OF assms(3)] rest by simp
  have w: "?w \<noteq> []" "int (length ?w) \<le> b" using assms(2,4) by (auto simp: min_def)
  obtain s err where sb: "sendBatch sv mem (hy_ad y) ?w (hy_srv y) = (s, err)" by fastforce
  show ?thesis
  proof (cases err)
    case None
    then have "send_turn sv mem k y =
        y\<lparr>hy_srv := s, hy_flights := (hy_flights y)[k := drop (nat b) ?rest], hy_sent := hy_sent y @ [?w]\<rparr>"
      by (simp add: send_turn_def b sb Let_def)
    moreover have turn: "mset (concat (hy_sent y)) + mset ?w + mset (concat ((hy_flights y)[k := drop (nat b) ?rest])) =
        mset (concat (hy_sent y)) + mset (concat (hy_flights y))"
      using fl mset_concat_update_to [OF assms(3), of "drop (nat b) ?rest"] by simp
    have "mset (concat (hy_sent y)) + mset (concat (hy_flights y)) + mset (ha_buffer (hy_ad y)) + mset (hy_lost y) = mset (hy_given y)"
      using assms(1) by (simp add: http_ok_def)
    then have "mset (concat (hy_sent y)) + mset ?w + mset (concat ((hy_flights y)[k := drop (nat b) ?rest]))
        + mset (ha_buffer (hy_ad y)) + mset (hy_lost y) = mset (hy_given y)" by (simp only: turn)
    ultimately show ?thesis using assms(1) w by (simp add: http_ok_def)
  next
    case (Some e)
    then have "send_turn sv mem k y =
        y\<lparr>hy_ad := requeue ?w (hy_ad y), hy_srv := s, hy_flights := (hy_flights y)[k := []],
          hy_lost := hy_lost y @ drop (nat b) ?rest, hy_failed := hy_failed y + 1\<rparr>"
      by (simp add: send_turn_def b sb Let_def)
    then show ?thesis using assms(1) fl by (simp add: http_ok_def requeue_def ac_simps)
  qed
qed

lemma http_step_ok: "http_ok b y \<Longrightarrow> 0 < b \<Longrightarrow> http_ok b (http_step sv y ev)"
proof (cases ev)
  case (ESend k mem)
  assume "http_ok b y" "0 < b"
  then show ?thesis by (auto simp: ESend intro: send_turn_ok)
qed (simp_all add: http_ok_def take_buffer_def ac_simps)

lemma http_run_ok: "http_ok b y \<Longrightarrow> 0 < b \<Longrightarrow> http_ok b (foldl (http_step sv) y evs)"
  by (induction evs arbitrary: y) (simp_all add: http_step_ok)

lemma new_http_adapter:
  assumes "NewHTTPAdapterWithOptions zj options = Some a"
  shows "0 < ha_batchSize a" "ha_buffer a = []" "\<not> ha_cancelled a" "\<not> ha_flushInProgress a"
  using assms by (auto simp: NewHTTPAdapterWithOptions_def ha_SetFormatter_def Let_def split: if_splits option.splits)

text \<open>
  C12: Whatever the interleaving of writes, flushes and cancellation, every entry written is in exactly
  one place: in a batch the server accepted, in a running flush, in the buffer, or lost behind a failed
  batch; batches respect the size, and without a failure nothing is lost.
\<close>

theorem http_conserves_entries:
  assumes "NewHTTPAdapterWithOptions zj options = Some a"
  shows "let y = foldl (http_step sv) (http_start a s) evs in
     mset (hy_given y) =
       mset (concat (hy_sent y)) + mset (concat (hy_flights y)) + mset (ha_buffer (hy_ad y)) + mset (hy_lost y) \<and>
     list_all (\<lambda>w. w \<noteq> [] \<and> int (length w) \<le> ha_batchSize a) (hy_sent y) \<and>
     (hy_failed y = 0 \<longrightarrow> hy_lost y = [])"
proof -
  have "http_ok (ha_batchSize a) (http_start a s)"
    using new_http_adapter [OF assms] by (simp add: http_ok_def http_start_def)
  from http_run_ok [OF this new_http_adapter(1) [OF assms], of sv evs] show ?thesis
    by (simp add: http_ok_def Let_def)
qed

text \<open>A flush that runs undisturbed is a take and turns of the same flight.\<close>

lemma flush_loop_turns:
  assumes "0 < ha_batchSize a"
  shows "flush_loop sv mem rest a s = (a', s', err) \<Longrightarrow>
     \<exists>n sent lost failed. foldl (http_step sv) (y\<lparr>hy_ad := a, hy_srv := s, hy_flights := [rest]\<rparr>) (replicate n (ESend 0 mem)) =
       y\<lparr>hy_ad := a', hy_srv := s', hy_flights := [[]], hy_sent := sent, hy_lost := lost, hy_failed := failed\<rparr>"
  using assms
proof (induction "length rest" arbitrary: rest s y rule: less_induct)
  case less
  show ?case
  proof (cases "rest = []")
    case True
    then have "a' = a" "s' = s" using less.prems by (simp_all add: flush_loop.simps)
    then show ?thesis
      by (intro exI [of _ 0] exI [of _ "hy_sent y"] exI [of _ "hy_lost y"] exI [of _ "hy_failed y"]) (simp add: True)
  next
    case False
    let ?b = "nat (ha_batchSize a)"
    obtain s1 e where sb: "sendBatch sv mem a (take ?b rest) s = (s1, e)" by fastforce
    show ?thesis
    proof (cases e)
      case None
      have fl: "flush_loop sv mem (drop ?b rest) a s1 = (a', s', err)"
        using less.prems False sb None by (simp add: flush_loop.simps [of sv mem rest])
      have turn: "http_step sv (y\<lparr>hy_ad := a, hy_srv := s, hy_flights := [rest]\<rparr>) (ESend 0 mem) =
          (y\<lparr>hy_sent := hy_sent y @ [take ?b rest]\<rparr>)\<lparr>hy_ad := a, hy_srv := s1, hy_flights := [drop ?b rest]\<rparr>"
        using False sb None by (simp add: send_turn_def Let_def)
      have "length (drop ?b rest) < length rest" using False less.prems(2) by (cases rest) auto
      from less.hyps [OF this fl less.prems(2), of "y\<lparr>hy_sent := hy_sent y @ [take ?b rest]\<rparr>"]
      obtain n sent lost failed where
        "foldl (http_step sv) ((y\<lparr>hy_sent := hy_sent y @ [take ?b rest]\<rparr>)\<lparr>hy_ad := a, hy_srv := s1, hy_flights := [drop ?b rest]\<rparr>)
           (replicate n (ESend 0 mem)) =
         (y\<lparr>hy_sent := hy_sent y @ [take ?b rest]\<rparr>)\<lparr>hy_ad := a', hy_srv := s', hy_flights := [[]], hy_sent := sent, hy_lost := lost, hy_failed := failed\<rparr>"
        by blast
      then show ?thesis using turn
        by (intro exI [of _ "Suc n"] exI [of _ sent] exI [of _ lost] exI [of _ failed]) simp
    next
      case (Some er)
      have r: "a' = requeue (take ?b rest) a" "s' = s1"
        using less.prems False sb Some by (simp_all add: flush_loop.simps [of sv mem rest])
      then show ?thesis using False sb Some
        by (intro exI [of _ 1] exI [of _ "hy_sent y"] exI [of _ "hy_lost y @ drop ?b rest"] exI [of _ "hy_failed y + 1"])
          (simp add: send_turn_def Let_def)
    qed
  qed
qed

section \<open>What a failure loses\<close>

text \<open>
  When the first batch of a flush fails, it goes back into the buffer and everything behind it is
  dropped, although the caller is told only that one batch failed.
\<close>

theorem http_failed_batch_loses_rest:
  assumes "0 < ha_batchSize a" "ha_buffer a \<noteq> []"
    "sendBatch sv mem (a\<lparr>ha_buffer := []\<rparr>) (take (nat (ha_batchSize a)) (ha_buffer a)) s = (s', Some err)"
  shows "ha_Flush sv mem a s = (a\<lparr>ha_buffer := take (nat (ha_batchSize a)) (ha_buffer a)\<rparr>, s', Some err)"
  using assms by (simp add: ha_Flush_def take_buffer_def flush_loop.simps [of sv mem "ha_buffer a"] requeue_def)

definition busy_server :: "nat http_server" where
  "busy_server = \<lparr>sv_valid = (\<lambda>_ _. True), sv_do = (\<lambda>n rq. (n + 1, Some 503))\<rparr>"

definition small_http :: "unit http_adapter" where
  "small_http = the (NewHTTPAdapterWithOptions (zj_Format (\<lambda>_. []) (\<lambda>_. []) \<circ> Some) (Some (zero_options\<lparr>ho_BatchSize := 2\<rparr>)))"

theorem http_conserves_entries_witness:
  "let y = foldl (http_step busy_server) (http_start small_http 0)
             [EWrite 4, EWrite 5, EWrite 6, ETake, ESend 0 (\<lambda>_. empty_entry), EWrite 7]
   in mset (hy_given y) =
        mset (concat (hy_sent y)) + mset (concat (hy_flights y)) + mset (ha_buffer (hy_ad y)) + mset (hy_lost y) \<and>
      list_all (\<lambda>w. w \<noteq> [] \<and> int (length w) \<le> ha_batchSize small_http) (hy_sent y) \<and>
      (hy_failed y = 0 \<longrightarrow> hy_lost y = [])"
proof (rule http_conserves_entries)
  show "NewHTTPAdapterWithOptions (zj_Format (\<lambda>_. []) (\<lambda>_. []) \<circ> Some) (Some (zero_options\<lparr>ho_BatchSize := 2\<rparr>)) = Some small_http"
    by (simp add: small_http_def NewHTTPAdapterWithOptions_def zero_options_def)
qed

theorem http_failed_batch_loses_rest_witness:
  "fst (ha_Flush busy_server (\<lambda>_. empty_entry) (small_http\<lparr>ha_buffer := [0, 1, 2, 3, 4]\<rparr>) 0) = small_http\<lparr>ha_buffer := [0, 1]\<rparr>"
proof -
  let ?a = "small_http\<lparr>ha_buffer := [0, 1, 2, 3, 4]\<rparr>"
  have b: "ha_batchSize small_http = 2" "\<not> ha_cancelled small_http"
    by (simp_all add: small_http_def NewHTTPAdapterWithOptions_def zero_options_def ha_SetFormatter_def)
  obtain err where "newHTTPStatusError 503 = Some err" by (simp add: newHTTPStatusError_def httpStatusErrors_def)
  then have "sendBatch busy_server (\<lambda>_. empty_entry) (?a\<lparr>ha_buffer := []\<rparr>) (take (nat (ha_batchSize ?a)) (ha_buffer ?a)) 0 = (1, Some err)"
    using b by (simp add: sendBatch_def busy_server_def Let_def)
  with http_failed_batch_loses_rest [of ?a busy_server "\<lambda>_. empty_entry" 0 1 err] b show ?thesis by simp
qed

section \<open>The buffer holds pointers\<close>

definition recorder :: "bytes list http_server" where
  "recorder = \<lparr>sv_valid = (\<lambda>_ _. True), sv_do = (\<lambda>seen rq. (seen @ [rq_body rq], Some 200))\<rparr>"

text \<open>
  The adapter keeps the pointer and reads the entry when the batch is sent: two lines logged through
  one pooled entry are both sent with what the entry holds at the flush.
\<close>

theorem http_sends_reused_entry:
  assumes "2 < ha_batchSize a" "ha_buffer a = []" "\<not> ha_cancelled a"
  shows "let (a1, s1, _) = ha_Write recorder mem1 (Some p) a s;
             (a2, s2, _) = ha_Write recorder mem2 (Some p) a1 s1;
             (_, s3, _) = ha_Flush recorder mem3 a2 s2
         in s3 = s @ [batch_body (ha_formatter a) [mem3 p, mem3 p]]"
  using assms
  by (simp add: ha_Write_def Let_def ha_Flush_def take_buffer_def flush_loop.simps sendBatch_def recorder_def)

theorem http_sends_reused_entry_witness:
  "let (a1, s1, _) = ha_Write recorder (\<lambda>_. empty_entry\<lparr>le_Message := ''first''\<rparr>) (Some 0) (the (NewHTTPAdapter le_Message [])) [];
       (a2, s2, _) = ha_Write recorder (\<lambda>_. empty_entry\<lparr>le_Message := ''second''\<rparr>) (Some 0) a1 s1;
       (_, s3, _) = ha_Flush recorder (\<lambda>_. empty_entry\<lparr>le_Message := ''second''\<rparr>) (a2 :: unit http_adapter) s2
   in s3 = [batch_body le_Message [(empty_entry :: unit full_entry)\<lparr>le_Message := ''second''\<rparr>, empty_entry\<lparr>le_Message := ''second''\<rparr>]]"
  using http_sends_reused_entry [of "the (NewHTTPAdapter le_Message []) :: unit http_adapter"
      "\<lambda>_. empty_entry\<lparr>le_Message := ''first''\<rparr>" 0 "[]" "\<lambda>_. empty_entry\<lparr>le_Message := ''second''\<rparr>"
      "\<lambda>_. empty_entry\<lparr>le_Message := ''second''\<rparr>"]
  by (simp add: NewHTTPAdapter_def NewHTTPAdapterWithOptions_def zero_options_def ha_SetFormatter_def)

section \<open>The formatter's texts\<close>

text \<open>Only quotes are escaped: a message of a single backslash swallows the closing quote.\<close>

lemma escape_quotes_simps [simp]:
  "escape_quotes [] = []"
  "escape_quotes (c # s) = (if c = CHR 0x22 then [CHR 0x5C, CHR 0x22] else [c]) @ escape_quotes s"
  by (simp_all add: escape_quotes_def)

lemma backslash_swallows_quote: "read_string (escape_quotes [CHR 0x5C] @ ''\"}'') = None"
  by (simp add: simple_escape_def push_char_def)

text \<open>Typed fields keep their value outside \<open>Value\<close>: the formatter prints none of them.\<close>

lemma typed_value_lost:
  "tf_Value f = GNil \<Longrightarrow> zj_fields ft sp 0 [f] = ''\"'' @ tf_Key f @ ''\":\"<nil>\"''"
  by (simp add: zj_value_def)

text \<open>A batch fits the pooled array or panics.\<close>

lemma FormatBatch_too_long:
  "0 < cap \<Longrightarrow> cap < 1 + length (fmt e) \<Longrightarrow> FormatBatch grow fmt cap (e # es) = None"
  by (simp add: FormatBatch_def append_byte_def)

end
