(* ===== verification/Alert_Senders.thy ===== *)
theory Alert_Senders
  imports Http_Sink
begin

text \<open>
  The alert senders (\<^verbatim>\<open>alerts/alerts.go\<close>): Slack, PagerDuty and a webhook, each with a rate limit. The state of a
  sender is the time of its last attempt. A message is a tree of values; \<open>marshal\<close> is \<open>json.Marshal\<close> on it, \<open>pv\<close> prints a
  value with \<open>%v\<close> and \<open>tm\<close> a time in RFC 3339. The server is the one of the HTTP adapter. A call of \<open>Send\<close> reads the
  clock at \<open>t1\<close> for the test and at \<open>t2\<close> for the record.
\<close>

datatype alert_json =
    JString string | JBool bool | JAny go_any | JTime "int option" | JArray "alert_json list" | JObject "(string \<times> alert_json) list"

record slack_config =
  sl_WebhookURL :: string
  sl_Channel :: string
  sl_Username :: string
  sl_IconEmoji :: string
  sl_Threshold :: nat
  sl_RateLimit :: int
  sl_Headers :: "(string \<times> string) list"

record pagerduty_config =
  pd_IntegrationKey :: string
  pd_Severity :: string
  pd_Threshold :: nat
  pd_RateLimit :: int

record webhook_config =
  wh_URL :: string
  wh_Method :: string
  wh_Headers :: "(string \<times> string) list"
  wh_Threshold :: nat
  wh_RateLimit :: int
  wh_Timeout :: int
  wh_ContentType :: string

record alert_payload =
  al_Timestamp :: "int option"
  al_Level :: string
  al_Message :: string
  al_Component :: string
  al_Fields :: "(string \<times> go_any) list"
  al_Error :: string

datatype alert_error = MarshalFailed | RequestFailed | SendFailed | BadStatus int

definition NewSlackSender :: "slack_config \<Rightarrow> slack_config" where
  "NewSlackSender c = (if sl_RateLimit c = 0 then c\<lparr>sl_RateLimit := 60 * 1000000000\<rparr> else c)"

definition NewPagerDutySender :: "pagerduty_config \<Rightarrow> pagerduty_config" where
  "NewPagerDutySender c =
     (let c = (if pd_RateLimit c = 0 then c\<lparr>pd_RateLimit := 60 * 1000000000\<rparr> else c)
      in if pd_Severity c = [] then c\<lparr>pd_Severity := ''error''\<rparr> else c)"

definition NewWebhookSender :: "webhook_config \<Rightarrow> webhook_config" where
  "NewWebhookSender c =
     (let c = (if wh_RateLimit c = 0 then c\<lparr>wh_RateLimit := 60 * 1000000000\<rparr> else c);
          c = (if wh_Method c = [] then c\<lparr>wh_Method := ''POST''\<rparr> else c);
          c = (if wh_Timeout c = 0 then c\<lparr>wh_Timeout := 10 * 1000000000\<rparr> else c)
      in if wh_ContentType c = [] then c\<lparr>wh_ContentType := ''application/json''\<rparr> else c)"

text \<open>\<open>time.Since\<close>, which saturates; the zero time is further back than any duration reaches.\<close>

definition time_since :: "int \<Rightarrow> int option \<Rightarrow> int" where
  "time_since now t = (case t of None \<Rightarrow> max_int | Some t \<Rightarrow> min max_int (max (- max_int - 1) (now - t)))"

definition post_alert ::
  "'s http_server \<Rightarrow> string \<Rightarrow> string \<Rightarrow> (string \<times> string) list \<Rightarrow> bytes option \<Rightarrow> 's \<Rightarrow> 's \<times> alert_error option" where
  "post_alert sv method url headers body s =
     (case body of
        None \<Rightarrow> (s, Some MarshalFailed)
      | Some body \<Rightarrow>
          if \<not> sv_valid sv method url then (s, Some RequestFailed)
          else case sv_do sv s \<lparr>rq_method = method, rq_url = url, rq_headers = headers, rq_body = body\<rparr> of
                 (s, None) \<Rightarrow> (s, Some SendFailed)
               | (s, Some status) \<Rightarrow> (s, if status < 200 \<or> status \<ge> 300 then Some (BadStatus status) else None))"

definition slack_message :: "(go_any \<Rightarrow> string) \<Rightarrow> slack_config \<Rightarrow> alert_payload \<Rightarrow> alert_json" where
  "slack_message pv c p = JObject
     ([(''text'', JString (''['' @ al_Level p @ ''] '' @ al_Component p @ '': '' @ al_Message p))] @
      (if sl_Channel c \<noteq> [] then [(''channel'', JString (sl_Channel c))] else []) @
      (if sl_Username c \<noteq> [] then [(''username'', JString (sl_Username c))] else []) @
      (if sl_IconEmoji c \<noteq> [] then [(''icon_emoji'', JString (sl_IconEmoji c))] else []) @
      (if length (al_Fields p) > 0
       then [(''attachments'', JArray [JObject [(''fields'', JArray (map (\<lambda>(k, v).
              JObject [(''title'', JString k), (''value'', JString (pv v)), (''short'', JBool True)]) (al_Fields p)))]])] else []))"

definition pagerduty_message :: "(int option \<Rightarrow> string) \<Rightarrow> pagerduty_config \<Rightarrow> alert_payload \<Rightarrow> alert_json" where
  "pagerduty_message tm c p = JObject
     [(''routing_key'', JString (pd_IntegrationKey c)), (''event_action'', JString ''trigger''),
      (''payload'', JObject [(''summary'', JString (al_Message p)), (''severity'', JString (pd_Severity c)),
         (''source'', JString (al_Component p)), (''timestamp'', JString (tm (al_Timestamp p))),
         (''custom_details'', JObject (map (\<lambda>(k, v). (k, JAny v)) (al_Fields p)))])]"

definition payload_message :: "alert_payload \<Rightarrow> alert_json" where
  "payload_message p = JObject
     ([(''timestamp'', JTime (al_Timestamp p)), (''level'', JString (al_Level p)), (''message'', JString (al_Message p))] @
      (if al_Component p \<noteq> [] then [(''component'', JString (al_Component p))] else []) @
      (if al_Fields p \<noteq> [] then [(''fields'', JObject (map (\<lambda>(k, v). (k, JAny v)) (al_Fields p)))] else []) @
      (if al_Error p \<noteq> [] then [(''error'', JString (al_Error p))] else []))"

definition slack_Send ::
  "(alert_json \<Rightarrow> bytes option) \<Rightarrow> (go_any \<Rightarrow> string) \<Rightarrow> 's http_server \<Rightarrow> slack_config \<Rightarrow> int \<Rightarrow> int \<Rightarrow> alert_payload \<Rightarrow>
   int option \<times> 's \<Rightarrow> (int option \<times> 's) \<times> alert_error option" where
  "slack_Send marshal pv sv c t1 t2 p = (\<lambda>(lastSent, s).
     if time_since t1 lastSent < sl_RateLimit c then ((lastSent, s), None)
     else (case post_alert sv ''POST'' (sl_WebhookURL c) ((''Content-Type'', ''application/json'') # sl_Headers c)
                  (marshal (slack_message pv c p)) s of
             (s, err) \<Rightarrow> ((Some t2, s), err)))"

definition pagerduty_Send ::
  "(alert_json \<Rightarrow> bytes option) \<Rightarrow> (int option \<Rightarrow> string) \<Rightarrow> 's http_server \<Rightarrow> pagerduty_config \<Rightarrow> int \<Rightarrow> int \<Rightarrow> alert_payload \<Rightarrow>
   int option \<times> 's \<Rightarrow> (int option \<times> 's) \<times> alert_error option" where
  "pagerduty_Send marshal tm sv c t1 t2 p = (\<lambda>(lastSent, s).
     if time_since t1 lastSent < pd_RateLimit c then ((lastSent, s), None)
     else (case post_alert sv ''POST'' ''https://events.pagerduty.com/v2/enqueue'' [(''Content-Type'', ''application/json'')]
                  (marshal (pagerduty_message tm c p)) s of
             (s, err) \<Rightarrow> ((Some t2, s), err)))"

definition webhook_Send ::
  "(alert_json \<Rightarrow> bytes option) \<Rightarrow> 's http_server \<Rightarrow> webhook_config \<Rightarrow> int \<Rightarrow> int \<Rightarrow> alert_payload \<Rightarrow>
   int option \<times> 's \<Rightarrow> (int option \<times> 's) \<times> alert_error option" where
  "webhook_Send marshal sv c t1 t2 p = (\<lambda>(lastSent, s).
     if time_since t1 lastSent < wh_RateLimit c then ((lastSent, s), None)
     else (case post_alert sv (wh_Method c) (wh_URL c) ((''Content-Type'', wh_ContentType c) # wh_Headers c)
                  (marshal (payload_message p)) s of
             (s, err) \<Rightarrow> ((Some t2, s), err)))"

section \<open>The rate limit\<close>

text \<open>
  The contract the three senders share: a call either leaves everything as it is and reports success, because the
  last attempt is less than the limit ago, or records its time and makes one attempt.
\<close>

locale limited_sender =
  fixes rate :: int
    and try_send :: "alert_payload \<Rightarrow> 's \<Rightarrow> 's \<times> alert_error option"
    and send :: "int \<Rightarrow> int \<Rightarrow> alert_payload \<Rightarrow> int option \<times> 's \<Rightarrow> (int option \<times> 's) \<times> alert_error option"
  assumes limited: "time_since t1 lastSent < rate \<Longrightarrow> send t1 t2 p (lastSent, s) = ((lastSent, s), None)"
    and attempted: "\<not> time_since t1 lastSent < rate \<Longrightarrow>
      send t1 t2 p (lastSent, s) = ((Some t2, fst (try_send p s)), snd (try_send p s))"
begin

text \<open>The calls in order, with the two readings of the clock; the result lists the attempts by their readings.\<close>

fun attempts :: "(int \<times> int \<times> alert_payload) list \<Rightarrow> int option \<times> 's \<Rightarrow> (int \<times> int) list" where
  "attempts [] st = []"
| "attempts ((t1, t2, p) # calls) st =
     (if time_since t1 (fst st) < rate then attempts calls (fst (send t1 t2 p st))
      else (t1, t2) # attempts calls (fst (send t1 t2 p st)))"

fun spaced :: "int option \<Rightarrow> (int \<times> int) list \<Rightarrow> bool" where
  "spaced prev [] = True"
| "spaced prev ((t1, t2) # ts) \<longleftrightarrow> (case prev of None \<Rightarrow> True | Some t \<Rightarrow> min rate max_int \<le> t1 - t) \<and> spaced (Some t2) ts"

lemma attempts_spaced: "0 \<le> rate \<Longrightarrow> spaced (fst st) (attempts calls st)"
proof (induction calls arbitrary: st)
  case (Cons call calls)
  obtain t1 t2 p where c: "call = (t1, t2, p)" by (cases call)
  obtain lastSent s where st: "st = (lastSent, s)" by (cases st)
  show ?case
  proof (cases "time_since t1 lastSent < rate")
    case True
    with Cons.IH [OF Cons.prems, of st] show ?thesis by (simp add: c st limited)
  next
    case False
    have "case lastSent of None \<Rightarrow> True | Some t \<Rightarrow> min rate max_int \<le> t1 - t"
      using False Cons.prems by (auto simp: time_since_def max_int_def split: option.split)
    with False Cons.IH [OF Cons.prems, of "(Some t2, fst (try_send p s))"] show ?thesis by (simp add: c st attempted)
  qed
qed simp

lemma failure_blocks:
  assumes "\<not> time_since t1 lastSent < rate" and "time_since t1' (Some t2) < rate"
  shows "send t1' t2' p' (fst (send t1 t2 p (lastSent, s))) = ((Some t2, fst (try_send p s)), None)"
  by (simp only: attempted [OF assms(1)] fst_conv limited [OF assms(2)])

end

interpretation slack: limited_sender "sl_RateLimit c"
    "\<lambda>p. post_alert sv ''POST'' (sl_WebhookURL c) ((''Content-Type'', ''application/json'') # sl_Headers c) (marshal (slack_message pv c p))"
    "slack_Send marshal pv sv c"
  for marshal pv sv c
  by unfold_locales (simp_all add: slack_Send_def split: prod.split)

interpretation pagerduty: limited_sender "pd_RateLimit c"
    "\<lambda>p. post_alert sv ''POST'' ''https://events.pagerduty.com/v2/enqueue'' [(''Content-Type'', ''application/json'')]
       (marshal (pagerduty_message tm c p))"
    "pagerduty_Send marshal tm sv c"
  for marshal tm sv c
  by unfold_locales (simp_all add: pagerduty_Send_def split: prod.split)

interpretation webhook: limited_sender "wh_RateLimit c"
    "\<lambda>p. post_alert sv (wh_Method c) (wh_URL c) ((''Content-Type'', wh_ContentType c) # wh_Headers c) (marshal (payload_message p))"
    "webhook_Send marshal sv c"
  for marshal sv c
  by unfold_locales (simp_all add: webhook_Send_def split: prod.split)

section \<open>Properties\<close>

text \<open>
  The attempts of a webhook sender, by the times they record, and what it returns; the requests are counted by a server
  that records them.
\<close>

fun webhook_run ::
  "(alert_json \<Rightarrow> bytes option) \<Rightarrow> 's http_server \<Rightarrow> webhook_config \<Rightarrow> (int \<times> int \<times> alert_payload) list \<Rightarrow> int option \<times> 's \<Rightarrow>
   (int option \<times> 's) \<times> alert_error option list" where
  "webhook_run marshal sv c [] st = (st, [])"
| "webhook_run marshal sv c ((t1, t2, p) # calls) st =
     (case webhook_Send marshal sv c t1 t2 p st of (st, err) \<Rightarrow>
        (case webhook_run marshal sv c calls st of (st, errs) \<Rightarrow> (st, err # errs)))"

definition webhook_busy :: "nat http_server" where
  "webhook_busy = \<lparr>sv_valid = (\<lambda>_ _. True), sv_do = (\<lambda>n rq. (n + 1, Some 503))\<rparr>"

text \<open>
  An alert that fails uses up the rate limit: until it has passed, every further alert is dropped and
  reported as sent.
\<close>

theorem failed_alert_silences:
  assumes "\<not> time_since t1 lastSent < wh_RateLimit c"
    and "list_all (\<lambda>(u1, u2, q). time_since u1 (Some t2) < wh_RateLimit c) calls"
    and "webhook_Send marshal sv c t1 t2 p (lastSent, s) = (st, Some err)"
  shows "webhook_run marshal sv c calls st = (st, map (\<lambda>_. None) calls)"
proof -
  have st: "fst st = Some t2" using assms(3) unfolding webhook.attempted [OF assms(1)] by auto
  have "webhook_run marshal sv c calls (Some t2, s') = ((Some t2, s'), map (\<lambda>_. None) calls)" for s'
    using assms(2) by (induction calls) (auto simp: webhook.limited)
  with st show ?thesis by (metis prod.collapse)
qed

definition demo_webhook :: webhook_config where
  "demo_webhook = NewWebhookSender \<lparr>wh_URL = ''http://hook'', wh_Method = [], wh_Headers = [], wh_Threshold = 5, wh_RateLimit = 0,
     wh_Timeout = 0, wh_ContentType = []\<rparr>"

definition demo_alert :: alert_payload where
  "demo_alert = \<lparr>al_Timestamp = None, al_Level = ''FATAL'', al_Message = ''down'', al_Component = [], al_Fields = [], al_Error = []\<rparr>"

theorem failed_alert_silences_witness:
  "webhook_run (\<lambda>j. Some []) webhook_busy demo_webhook [(60, 61, demo_alert), (59000000000, 59000000001, demo_alert)] (Some 50, 1) =
     ((Some 50, 1), [None, None])"
proof -
  have r: "wh_RateLimit demo_webhook = 60000000000" by (simp add: demo_webhook_def NewWebhookSender_def)
  have "webhook_Send (\<lambda>j. Some []) webhook_busy demo_webhook 40 50 demo_alert (None, 0) = ((Some 50, 1), Some (BadStatus 503))"
    by (simp add: webhook_Send_def r time_since_def max_int_def post_alert_def webhook_busy_def)
  from failed_alert_silences [OF _ _ this, of "[(60, 61, demo_alert), (59000000000, 59000000001, demo_alert)]"] r
  show ?thesis by (simp add: time_since_def max_int_def)
qed

text \<open>Attempts of the senders are spaced by the limit.\<close>

lemma slack_attempts_spaced: "0 \<le> sl_RateLimit c \<Longrightarrow> limited_sender.spaced (sl_RateLimit c) (fst st) (limited_sender.attempts (sl_RateLimit c) (slack_Send marshal pv sv c) calls st)"
  by (rule slack.attempts_spaced)

lemma webhook_attempts_spaced: "0 \<le> wh_RateLimit c \<Longrightarrow> limited_sender.spaced (wh_RateLimit c) (fst st) (limited_sender.attempts (wh_RateLimit c) (webhook_Send marshal sv c) calls st)"
  by (rule webhook.attempts_spaced)

text \<open>The threshold of a configuration is never consulted.\<close>

lemma threshold_ignored:
  "slack_Send marshal pv sv (c\<lparr>sl_Threshold := t\<rparr>) t1 t2 p st = slack_Send marshal pv sv c t1 t2 p st"
  "webhook_Send marshal sv (w\<lparr>wh_Threshold := t\<rparr>) t1 t2 p st = webhook_Send marshal sv w t1 t2 p st"
  by (cases st; simp add: slack_Send_def webhook_Send_def slack_message_def)+

end
