(* ===== verification/Otel_Adapter.thy ===== *)
theory Otel_Adapter
  imports Masking
begin

text \<open>
  The OpenTelemetry output (\<^verbatim>\<open>otelbridge/adapter.go\<close>): an entry becomes a log record with its trace
  context, severity, body and attributes.

  The OpenTelemetry module itself is not part of the repository. Trace identifiers are of any type; a
  \<open>trace_api\<close> holds the functions of \<^verbatim>\<open>otel/trace\<close> the code calls, a provider and its logger are records of
  functions on a state of their own. The values, the severities and the record of \<^verbatim>\<open>otel/log\<close> are
  represented by the calls that build them: which constructor, which setter, with which argument. A
  context is the span context stored in it, \<open>None\<close> for \<open>context.Background()\<close>. The values of the records
  have no byte slices and no \<open>uintptr\<close>, so these two cases of \<open>anyValue\<close> do not arise; \<open>widen\<close> is Go's
  conversion from \<open>float32\<close> to \<open>float64\<close>.
\<close>

section \<open>The API\<close>

record ('t, 'p) span_context =
  sc_TraceID :: 't
  sc_SpanID :: 'p
  sc_TraceFlags :: int

record ('t, 'p) trace_api =
  ta_TraceIDFromHex :: "string \<Rightarrow> 't option"
  ta_SpanIDFromHex :: "string \<Rightarrow> 'p option"
  ta_noTrace :: 't     \<comment> \<open>\<open>trace.TraceID{}\<close>\<close>
  ta_noSpan :: 'p
  ta_TraceString :: "'t \<Rightarrow> string"
  ta_SpanString :: "'p \<Rightarrow> string"
  ta_FlagsString :: "int \<Rightarrow> string"
  ta_IsValid :: "('t, 'p) span_context \<Rightarrow> bool"

datatype otel_value = OEmpty | OString string | OInt64 int | OFloat64 go_float | OBool bool

datatype otel_severity =
    SeverityUndefined | SeverityTrace1 | SeverityDebug1 | SeverityInfo1 | SeverityWarn1
  | SeverityError1 | SeverityFatal1 | SeverityFatal2

record otel_record =
  or_Timestamp :: "int option"
  or_Severity :: otel_severity
  or_SeverityText :: string
  or_Body :: otel_value
  or_Attributes :: "(string \<times> otel_value) list"

definition zero_record :: otel_record where
  "zero_record = \<lparr>or_Timestamp = None, or_Severity = SeverityUndefined, or_SeverityText = [], or_Body = OEmpty, or_Attributes = []\<rparr>"

record ('t, 'p, 's) otel_logger =
  ol_Enabled :: "('t, 'p) span_context option \<Rightarrow> otel_severity \<Rightarrow> 's \<Rightarrow> 's \<times> bool"
  ol_Emit :: "('t, 'p) span_context option \<Rightarrow> otel_record \<Rightarrow> 's \<Rightarrow> 's"

datatype logger_option = InstrumentationVersion string | SchemaURL string

text \<open>A drain operation gets the deadline of its context, if any, and returns the error it reports.\<close>

type_synonym 's flush_func = "int option \<Rightarrow> 's \<Rightarrow> 's \<times> string option"

record ('t, 'p, 's) otel_provider =
  op_Logger :: "string \<Rightarrow> logger_option list \<Rightarrow> ('t, 'p, 's) otel_logger option"
  op_ForceFlush :: "'s flush_func option"

section \<open>Construction\<close>

definition DefaultAdapterName :: string where
  "DefaultAdapterName = ''otel''"

definition DefaultFlushTimeout :: int where
  "DefaultFlushTimeout = 5 * 1000000000"

record ('t, 'p, 's) otel_config =
  oc_provider :: "('t, 'p, 's) otel_provider option"
  oc_name :: string
  oc_version :: string
  oc_schemaURL :: string
  oc_flushTimeout :: int
  oc_flushFunc :: "'s flush_func option"

record ('t, 'p, 's) otel_adapter =
  oa_logger :: "('t, 'p, 's) otel_logger option"
  oa_provider :: "('t, 'p, 's) otel_provider"
  oa_name :: string
  oa_flushTimeout :: int
  oa_flushFunc :: "'s flush_func option"
  oa_globalProvider :: bool

definition WithFlushFunc :: "'s flush_func option \<Rightarrow> ('t, 'p, 's) otel_config \<Rightarrow> ('t, 'p, 's) otel_config" where
  "WithFlushFunc fn c = c\<lparr>oc_flushFunc := fn\<rparr>"

definition WithLoggerProvider ::
  "('t, 'p, 's) otel_provider option \<Rightarrow> ('t, 'p, 's) otel_config \<Rightarrow> ('t, 'p, 's) otel_config" where
  "WithLoggerProvider provider c = (if provider \<noteq> None then c\<lparr>oc_provider := provider\<rparr> else c)"

definition WithName :: "string \<Rightarrow> ('t, 'p, 's) otel_config \<Rightarrow> ('t, 'p, 's) otel_config" where
  "WithName name c = (if name \<noteq> [] then c\<lparr>oc_name := name\<rparr> else c)"

definition WithVersion :: "string \<Rightarrow> ('t, 'p, 's) otel_config \<Rightarrow> ('t, 'p, 's) otel_config" where
  "WithVersion version c = c\<lparr>oc_version := version\<rparr>"

definition WithSchemaURL :: "string \<Rightarrow> ('t, 'p, 's) otel_config \<Rightarrow> ('t, 'p, 's) otel_config" where
  "WithSchemaURL url c = c\<lparr>oc_schemaURL := url\<rparr>"

definition WithFlushTimeout :: "int \<Rightarrow> ('t, 'p, 's) otel_config \<Rightarrow> ('t, 'p, 's) otel_config" where
  "WithFlushTimeout d c = c\<lparr>oc_flushTimeout := d\<rparr>"

definition NewAdapter ::
  "('t, 'p, 's) otel_provider \<Rightarrow> string \<Rightarrow> (('t, 'p, 's) otel_config \<Rightarrow> ('t, 'p, 's) otel_config) list \<Rightarrow>
   ('t, 'p, 's) otel_adapter" where
  "NewAdapter global_provider scopeName opts =
     (let cfg = foldl (\<lambda>c opt. opt c) \<lparr>oc_provider = None, oc_name = DefaultAdapterName, oc_version = [], oc_schemaURL = [],
                  oc_flushTimeout = DefaultFlushTimeout, oc_flushFunc = None\<rparr> opts;
          usesGlobal = (oc_provider cfg = None);
          provider = (case oc_provider cfg of None \<Rightarrow> global_provider | Some p \<Rightarrow> p);
          logOpts = (if oc_version cfg \<noteq> [] then [InstrumentationVersion (oc_version cfg)] else []) @
                    (if oc_schemaURL cfg \<noteq> [] then [SchemaURL (oc_schemaURL cfg)] else [])
      in \<lparr>oa_logger = op_Logger provider scopeName logOpts, oa_provider = provider, oa_name = oc_name cfg,
          oa_flushTimeout = oc_flushTimeout cfg, oa_flushFunc = oc_flushFunc cfg, oa_globalProvider = usesGlobal\<rparr>)"

datatype otel_error = ErrFlushUnavailable | ErrAdapterClosed | FlushFailed string

definition oa_Name :: "('t, 'p, 's) otel_adapter \<Rightarrow> string" where
  "oa_Name a = oa_name a"

definition oa_Flush :: "('t, 'p, 's) otel_adapter \<Rightarrow> 's \<Rightarrow> 's \<times> otel_error option" where
  "oa_Flush a s =
     (let run = (\<lambda>flush. let (s, err) = flush (if oa_flushTimeout a \<le> 0 then None else Some (oa_flushTimeout a)) s
                  in (s, map_option FlushFailed err))
      in case oa_flushFunc a of
           Some flush \<Rightarrow> run flush
         | None \<Rightarrow> (case op_ForceFlush (oa_provider a) of
             Some flush \<Rightarrow> run flush
           | None \<Rightarrow> if oa_globalProvider a then (s, Some ErrFlushUnavailable) else (s, None)))"

definition oa_Close :: "('t, 'p, 's) otel_adapter \<Rightarrow> 's \<Rightarrow> 's \<times> otel_error option" where
  "oa_Close a s = oa_Flush a s"

definition oa_SetFormatter :: "'f \<Rightarrow> ('t, 'p, 's) otel_adapter \<Rightarrow> ('t, 'p, 's) otel_adapter" where
  "oa_SetFormatter f a = a"

definition oa_Health :: "('t, 'p, 's) otel_adapter \<Rightarrow> otel_error option" where
  "oa_Health a = (if oa_logger a = None then Some ErrAdapterClosed else None)"

section \<open>Values\<close>

definition severityOf :: "nat \<Rightarrow> otel_severity" where
  "severityOf level =
     (if level = TraceLevel then SeverityTrace1 else if level = DebugLevel then SeverityDebug1
      else if level = InfoLevel then SeverityInfo1 else if level = WarnLevel then SeverityWarn1
      else if level = ErrorLevel then SeverityError1 else if level = FatalLevel then SeverityFatal1
      else if level = PanicLevel then SeverityFatal2 else SeverityUndefined)"

definition uintValue :: "int \<Rightarrow> otel_value" where
  "uintValue v = (if v > max_int then OString (itoa v) else OInt64 v)"

fun anyValue :: "(go_float \<Rightarrow> go_float) \<Rightarrow> go_any \<Rightarrow> otel_value" where
  "anyValue widen GNil = OEmpty"
| "anyValue widen (GString s) = OString s"
| "anyValue widen (GBool b) = OBool b"
| "anyValue widen (GInt i) = OInt64 i"
| "anyValue widen (GInt8 i) = OInt64 i"
| "anyValue widen (GInt16 i) = OInt64 i"
| "anyValue widen (GInt32 i) = OInt64 i"
| "anyValue widen (GInt64 i) = OInt64 i"
| "anyValue widen (GUint u) = uintValue u"
| "anyValue widen (GUint8 u) = OInt64 u"
| "anyValue widen (GUint16 u) = OInt64 u"
| "anyValue widen (GUint32 u) = OInt64 u"
| "anyValue widen (GUint64 u) = uintValue u"
| "anyValue widen (GFloat32 f) = OFloat64 (widen f)"
| "anyValue widen (GFloat64 f) = OFloat64 f"
| "anyValue widen (GError e) = OString e"
| "anyValue widen (GOther t) = OString t"

definition logValue :: "(go_float \<Rightarrow> go_float) \<Rightarrow> typed_field \<Rightarrow> otel_value" where
  "logValue widen f =
     (if fv_Kind (tf_Val f) \<noteq> KindUnknown \<and> tf_Value f \<noteq> GNil then anyValue widen (tf_Value f)
      else case fv_Kind (tf_Val f) of
             KindString \<Rightarrow> OString (fv_String (tf_Val f))
           | KindError \<Rightarrow> OString (fv_String (tf_Val f))
           | KindInt \<Rightarrow> OInt64 (fv_Int64 (tf_Val f))
           | KindInt64 \<Rightarrow> OInt64 (fv_Int64 (tf_Val f))
           | KindFloat64 \<Rightarrow> OFloat64 (fv_Float64 (tf_Val f))
           | KindBool \<Rightarrow> OBool (fv_Int64 (tf_Val f) \<noteq> 0)
           | KindAny \<Rightarrow> anyValue widen (fv_Any (tf_Val f))
           | KindUnknown \<Rightarrow> anyValue widen (tf_Value f))"

definition stringOf :: "(go_float \<Rightarrow> go_float) \<Rightarrow> typed_field \<Rightarrow> string option" where
  "stringOf widen f = (case logValue widen f of OString s \<Rightarrow> Some s | _ \<Rightarrow> None)"

definition fieldName :: "typed_field \<Rightarrow> string" where
  "fieldName f = (if tf_Key f \<noteq> [] then tf_Key f else case tf_KeyDesc f of Some k \<Rightarrow> fk_Name k | None \<Rightarrow> [])"

definition errorMessage :: "'d full_entry \<Rightarrow> string" where
  "errorMessage e = (if le_ErrorMsg e \<noteq> [] then le_ErrorMsg e else case le_Error e of Some m \<Rightarrow> m | None \<Rightarrow> [])"

text \<open>\<open>forEachField\<close>: the calls of the function it is given, in order.\<close>

definition counted_prefix :: "int \<Rightarrow> typed_field list \<Rightarrow> typed_field list" where
  "counted_prefix n fs = take (nat n) fs"

definition named :: "typed_field list \<Rightarrow> (string \<times> typed_field) list" where
  "named fs = map (\<lambda>f. (fieldName f, f)) fs"

definition forEachField :: "'d full_entry \<Rightarrow> (string \<times> typed_field) list" where
  "forEachField e =
     named (counted_prefix (le_StaticFieldCount e) (le_StaticFields e)) @
     named (le_Fields e) @
     named (counted_prefix (le_StaticContextCount e) (le_StaticContext e)) @
     named (le_Context e) @
     (case le_IndexedStore e of
        None \<Rightarrow> []
      | Some st \<Rightarrow> map (\<lambda>(key, v). (key, \<lparr>tf_Key = key, tf_KeyDesc = None, tf_Val = StringValue v, tf_Value = GNil\<rparr>))
                     (st_Iterate st))"

definition entryTime :: "'d full_entry \<Rightarrow> int option" where
  "entryTime e = (if le_TimestampUnix e \<noteq> 0 then Some (le_TimestampUnix e) else le_Timestamp e)"

section \<open>Correlation\<close>

definition Key :: "string \<Rightarrow> field_key" where
  "Key name = \<lparr>fk_Name = name, fk_JSONFragment = KeyFragment name\<rparr>"

definition keyTraceID :: field_key where "keyTraceID = Key ''trace_id''"
definition keySpanID :: field_key where "keySpanID = Key ''span_id''"
definition keyTraceFlags :: field_key where "keyTraceFlags = Key ''trace_flags''"

definition bitTraceID :: "8 word" where "bitTraceID = 1"
definition bitSpanID :: "8 word" where "bitSpanID = 2"
definition bitTraceFlags :: "8 word" where "bitTraceFlags = 4"

text \<open>\<open>strconv.ParseUint(_, 16, 8)\<close>.\<close>

definition hex_digit :: "char \<Rightarrow> int option" where
  "hex_digit c =
     (let n = (of_char c :: nat) in
      if 48 \<le> n \<and> n \<le> 57 then Some (int n - 48)
      else if 97 \<le> n \<and> n \<le> 102 then Some (int n - 87)
      else if 65 \<le> n \<and> n \<le> 70 then Some (int n - 55) else None)"

fun hex_number :: "int \<Rightarrow> string \<Rightarrow> int option" where
  "hex_number acc [] = Some acc"
| "hex_number acc (c # cs) = (case hex_digit c of None \<Rightarrow> None | Some d \<Rightarrow> hex_number (16 * acc + d) cs)"

definition parse_hex_byte :: "string \<Rightarrow> int option" where
  "parse_hex_byte s =
     (if s = [] then None
      else case hex_number 0 s of None \<Rightarrow> None | Some n \<Rightarrow> if n \<le> 255 then Some n else None)"

definition correlation_bit :: "string \<Rightarrow> 8 word" where
  "correlation_bit key =
     (if key = fk_Name keyTraceID then bitTraceID else if key = fk_Name keySpanID then bitSpanID
      else if key = fk_Name keyTraceFlags then bitTraceFlags else 0)"

definition empty_span :: "('t, 'p) trace_api \<Rightarrow> ('t, 'p) span_context" where
  "empty_span api = \<lparr>sc_TraceID = ta_noTrace api, sc_SpanID = ta_noSpan api, sc_TraceFlags = 0\<rparr>"

definition correlate ::
  "('t, 'p) trace_api \<Rightarrow> (go_float \<Rightarrow> go_float) \<Rightarrow> ('t, 'p) span_context \<times> 8 word \<Rightarrow> string \<times> typed_field \<Rightarrow>
   ('t, 'p) span_context \<times> 8 word" where
  "correlate api widen = (\<lambda>(cfg, consumed) (key, f).
     let bt = correlation_bit key in
     if bt = 0 then (cfg, consumed)
     else
       let consumed = consumed AND NOT bt;
           cfg = (if bt = bitTraceID then cfg\<lparr>sc_TraceID := ta_noTrace api\<rparr>
                  else if bt = bitSpanID then cfg\<lparr>sc_SpanID := ta_noSpan api\<rparr> else cfg\<lparr>sc_TraceFlags := 0\<rparr>)
       in case stringOf widen f of
            None \<Rightarrow> (cfg, consumed)
          | Some hex \<Rightarrow>
              if bt = bitTraceID then
                (case ta_TraceIDFromHex api hex of Some i \<Rightarrow> (cfg\<lparr>sc_TraceID := i\<rparr>, consumed OR bitTraceID) | None \<Rightarrow> (cfg, consumed))
              else if bt = bitSpanID then
                (case ta_SpanIDFromHex api hex of Some i \<Rightarrow> (cfg\<lparr>sc_SpanID := i\<rparr>, consumed OR bitSpanID) | None \<Rightarrow> (cfg, consumed))
              else
                (case parse_hex_byte hex of Some v \<Rightarrow> (cfg\<lparr>sc_TraceFlags := v\<rparr>, consumed OR bitTraceFlags) | None \<Rightarrow> (cfg, consumed)))"

definition spanContext ::
  "('t, 'p) trace_api \<Rightarrow> (go_float \<Rightarrow> go_float) \<Rightarrow> 'd full_entry \<Rightarrow> ('t, 'p) span_context option \<times> 8 word \<times> nat" where
  "spanContext api widen e =
     (let fs = forEachField e; (cfg, consumed) = foldl (correlate api widen) (empty_span api, 0) fs
      in if consumed AND bitTraceID = 0 then (None, 0, length fs) else (Some cfg, consumed, length fs))"

section \<open>Attributes\<close>

definition bitComponent :: "8 word" where "bitComponent = 1"
definition bitError :: "8 word" where "bitError = 2"
definition bitFilePath :: "8 word" where "bitFilePath = 4"
definition bitLineNo :: "8 word" where "bitLineNo = 8"

definition derivedKeyBit :: "string \<Rightarrow> 8 word" where
  "derivedKeyBit key =
     (if key = ''component'' then bitComponent else if key = ''error'' then bitError
      else if key = ''code.file.path'' then bitFilePath else if key = ''code.line.number'' then bitLineNo else 0)"

definition correlation_slot :: "string \<Rightarrow> nat option" where
  "correlation_slot key =
     (if key = fk_Name keyTraceID then Some 0 else if key = fk_Name keySpanID then Some 1
      else if key = fk_Name keyTraceFlags then Some 2 else None)"

definition add_attribute ::
  "(go_float \<Rightarrow> go_float) \<Rightarrow> 8 word \<Rightarrow> (string \<times> otel_value) list \<times> 8 word \<times> nat list \<Rightarrow> string \<times> typed_field \<Rightarrow>
   (string \<times> otel_value) list \<times> 8 word \<times> nat list" where
  "add_attribute widen consumed = (\<lambda>(dst, claimed, slots) (key, f).
     if key = [] then (dst, claimed, slots)
     else if consumed AND correlation_bit key \<noteq> 0 then (dst, claimed, slots)
     else
       let claimed = claimed OR derivedKeyBit key; kv = (key, logValue widen f)
       in case correlation_slot key of
            None \<Rightarrow> (dst @ [kv], claimed, slots)
          | Some c \<Rightarrow>
              if slots ! c \<noteq> 0 then (dst[slots ! c - 1 := kv], claimed, slots)
              else (dst @ [kv], claimed, slots[c := length dst + 1]))"

definition attributes ::
  "(go_float \<Rightarrow> go_float) \<Rightarrow> 'd full_entry \<Rightarrow> 8 word \<Rightarrow> (string \<times> otel_value) list" where
  "attributes widen e consumed =
     (let (dst, claimed, slots) = foldl (add_attribute widen consumed) ([], 0, [0, 0, 0]) (forEachField e);
          dst = (if le_Component e \<noteq> [] \<and> claimed AND bitComponent = 0
                 then dst @ [(''component'', OString (le_Component e))] else dst);
          dst = (if claimed AND bitError = 0
                 then (let msg = errorMessage e in if msg \<noteq> [] then dst @ [(''error'', OString msg)] else dst) else dst)
      in if le_File e \<noteq> [] \<and> le_Line e \<ge> 0
         then (let dst = (if claimed AND bitFilePath = 0 then dst @ [(''code.file.path'', OString (le_File e))] else dst)
               in if claimed AND bitLineNo = 0 then dst @ [(''code.line.number'', OInt64 (le_Line e))] else dst)
         else dst)"

definition attributeCapacity :: "'d full_entry \<Rightarrow> nat \<Rightarrow> nat" where
  "attributeCapacity e n =
     (let n = (if le_Component e \<noteq> [] then n + 1 else n);
          n = (if le_ErrorMsg e \<noteq> [] \<or> le_Error e \<noteq> None then n + 1 else n)
      in if le_File e \<noteq> [] \<and> le_Line e \<ge> 0 then n + 2 else n)"

section \<open>Writing\<close>

text \<open>The array the attributes are staged in: its length, for a capacity that is not 0.\<close>

definition staging :: "nat \<Rightarrow> nat" where
  "staging capacity = (if capacity \<le> 16 then 16 else if capacity \<le> 32 then 32 else capacity)"

definition build_record ::
  "(go_float \<Rightarrow> go_float) \<Rightarrow> 'd full_entry \<Rightarrow> 8 word \<Rightarrow> nat \<Rightarrow> otel_record" where
  "build_record widen e consumed fieldCount =
     (let rec = zero_record;
          rec = (case entryTime e of None \<Rightarrow> rec | Some ts \<Rightarrow> rec\<lparr>or_Timestamp := Some ts\<rparr>);
          rec = rec\<lparr>or_Severity := severityOf (le_Level e)\<rparr>;
          rec = rec\<lparr>or_SeverityText := level_String (le_Level e)\<rparr>;
          rec = rec\<lparr>or_Body := OString (le_Message e)\<rparr>
      in if attributeCapacity e fieldCount \<noteq> 0
         then rec\<lparr>or_Attributes := or_Attributes rec @ attributes widen e consumed\<rparr> else rec)"

definition otel_build ::
  "('t, 'p) trace_api \<Rightarrow> (go_float \<Rightarrow> go_float) \<Rightarrow> ('t, 'p, 's) otel_logger \<Rightarrow> 'd full_entry \<Rightarrow> 's \<Rightarrow>
   's \<times> (('t, 'p) span_context option \<times> otel_record) option" where
  "otel_build api widen lg e s =
     (let sev = severityOf (le_Level e);
          (ctx, consumed, fieldCount) = spanContext api widen e
      in case ol_Enabled lg ctx sev s of
           (s, False) \<Rightarrow> (s, None)
         | (s, True) \<Rightarrow> (s, Some (ctx, build_record widen e consumed fieldCount)))"

definition oa_Write ::
  "('t, 'p) trace_api \<Rightarrow> (go_float \<Rightarrow> go_float) \<Rightarrow> ('t, 'p, 's) otel_adapter \<Rightarrow> 'd full_entry option \<Rightarrow> 's \<Rightarrow> 's \<times> otel_error option" where
  "oa_Write api widen a e s =
     (case e of
        None \<Rightarrow> (s, None)
      | Some e \<Rightarrow>
          (case oa_logger a of
             None \<Rightarrow> (s, Some ErrAdapterClosed)
           | Some lg \<Rightarrow>
               (case otel_build api widen lg e s of
                  (s, None) \<Rightarrow> (s, None)
                | (s, Some (ctx, rec)) \<Rightarrow> (ol_Emit lg ctx rec s, None))))"

definition oa_WriteZero ::
  "('t, 'p) trace_api \<Rightarrow> (go_float \<Rightarrow> go_float) \<Rightarrow> ('t, 'p, 's) otel_adapter \<Rightarrow> 'd full_entry option \<Rightarrow> 's \<Rightarrow> 's \<times> otel_error option" where
  "oa_WriteZero api widen a e s = oa_Write api widen a e s"

end
