(* ===== verification/Otel_Record.thy ===== *)
theory Otel_Record
  imports Otel_Adapter
begin

text \<open>
  What the OpenTelemetry output makes of an entry, stated without bits, slots and passes: the trace context
  comes from the last field of each correlation key, the attributes are the fields in order, and every
  correlation key has at most one attribute, with the value of its last field.
\<close>

section \<open>The reference\<close>

definition last_parse ::
  "(string \<Rightarrow> 'a option) \<Rightarrow> (go_float \<Rightarrow> go_float) \<Rightarrow> string \<Rightarrow> (string \<times> typed_field) list \<Rightarrow> 'a option" where
  "last_parse parse widen key fs =
     Option.bind (map_of (rev fs) key) (\<lambda>f. Option.bind (stringOf widen f) parse)"

definition or_else :: "'a \<Rightarrow> 'a option \<Rightarrow> 'a" where
  "or_else d x = (case x of Some v \<Rightarrow> v | None \<Rightarrow> d)"

definition span_spec ::
  "('t, 'p) trace_api \<Rightarrow> (go_float \<Rightarrow> go_float) \<Rightarrow> (string \<times> typed_field) list \<Rightarrow> ('t, 'p) span_context" where
  "span_spec api widen fs =
     \<lparr>sc_TraceID = or_else (ta_noTrace api) (last_parse (ta_TraceIDFromHex api) widen ''trace_id'' fs),
      sc_SpanID = or_else (ta_noSpan api) (last_parse (ta_SpanIDFromHex api) widen ''span_id'' fs),
      sc_TraceFlags = or_else 0 (last_parse parse_hex_byte widen ''trace_flags'' fs)\<rparr>"

definition traced :: "('t, 'p) trace_api \<Rightarrow> (go_float \<Rightarrow> go_float) \<Rightarrow> (string \<times> typed_field) list \<Rightarrow> bool" where
  "traced api widen fs \<longleftrightarrow> last_parse (ta_TraceIDFromHex api) widen ''trace_id'' fs \<noteq> None"

text \<open>The correlation keys that have become part of the trace context.\<close>

definition consumed_keys :: "('t, 'p) trace_api \<Rightarrow> (go_float \<Rightarrow> go_float) \<Rightarrow> (string \<times> typed_field) list \<Rightarrow> string set" where
  "consumed_keys api widen fs =
     (if \<not> traced api widen fs then {}
      else {''trace_id''}
        \<union> (if last_parse (ta_SpanIDFromHex api) widen ''span_id'' fs \<noteq> None then {''span_id''} else {})
        \<union> (if last_parse parse_hex_byte widen ''trace_flags'' fs \<noteq> None then {''trace_flags''} else {}))"

definition correlation_keys :: "string set" where
  "correlation_keys = {''trace_id'', ''span_id'', ''trace_flags''}"

fun firsts :: "string set \<Rightarrow> (string \<times> 'v) list \<Rightarrow> (string \<times> 'v) list" where
  "firsts seen [] = []"
| "firsts seen ((k, v) # xs) =
     (if k \<in> seen \<and> k \<in> correlation_keys then firsts seen xs
      else (k, v) # firsts (insert k seen) xs)"

definition final_value :: "(string \<rightharpoonup> 'v) \<Rightarrow> string \<times> 'v \<Rightarrow> string \<times> 'v" where
  "final_value m = (\<lambda>(k, v). (k, if k \<in> correlation_keys then the (m k) else v))"

definition settled :: "(string \<times> 'v) list \<Rightarrow> (string \<times> 'v) list" where
  "settled xs = map (final_value (map_of (rev xs))) (firsts {} xs)"

definition derived :: "'d full_entry \<Rightarrow> string set \<Rightarrow> (string \<times> otel_value) list" where
  "derived e ks =
     (if le_Component e \<noteq> [] \<and> ''component'' \<notin> ks then [(''component'', OString (le_Component e))] else []) @
     (if errorMessage e \<noteq> [] \<and> ''error'' \<notin> ks then [(''error'', OString (errorMessage e))] else []) @
     (if le_File e \<noteq> [] \<and> le_Line e \<ge> 0
      then (if ''code.file.path'' \<notin> ks then [(''code.file.path'', OString (le_File e))] else []) @
           (if ''code.line.number'' \<notin> ks then [(''code.line.number'', OInt64 (le_Line e))] else [])
      else [])"

definition attribute_spec ::
  "(go_float \<Rightarrow> go_float) \<Rightarrow> 'd full_entry \<Rightarrow> string set \<Rightarrow> (string \<times> otel_value) list" where
  "attribute_spec widen e hidden =
     (let fs = filter (\<lambda>(k, f). k \<noteq> [] \<and> k \<notin> hidden) (forEachField e)
      in settled (map (\<lambda>(k, f). (k, logValue widen f)) fs) @ derived e (fst ` set fs))"

section \<open>Correlation keeps the last occurrence\<close>

lemmas correlation_names = keyTraceID_def keySpanID_def keyTraceFlags_def Key_def
lemmas correlation_bits = bitTraceID_def bitSpanID_def bitTraceFlags_def

lemma last_parse_snoc:
  "last_parse parse widen key (fs @ [(k, f)]) =
     (if k = key then Option.bind (stringOf widen f) parse else last_parse parse widen key fs)"
  by (simp add: last_parse_def)

definition consumed_word :: "bool \<Rightarrow> bool \<Rightarrow> bool \<Rightarrow> 8 word" where
  "consumed_word t p f = (if t then 1 else 0) OR (if p then 2 else 0) OR (if f then 4 else 0)"

lemma consumed_word_ops:
  "consumed_word t p f AND - 2 = consumed_word False p f"
  "consumed_word t p f AND - 3 = consumed_word t False f"
  "consumed_word t p f AND - 5 = consumed_word t p False"
  "consumed_word t p f OR 1 = consumed_word True p f"
  "consumed_word t p f OR 2 = consumed_word t True f"
  "consumed_word t p f OR 4 = consumed_word t p True"
  "consumed_word t p f AND 1 = 0 \<longleftrightarrow> \<not> t"
  "consumed_word t p f AND 2 = 0 \<longleftrightarrow> \<not> p"
  "consumed_word t p f AND 4 = 0 \<longleftrightarrow> \<not> f"
  "consumed_word False False False = 0"
  by (cases t; cases p; cases f; simp add: consumed_word_def)+

lemma correlate_other: "correlation_bit k = 0 \<Longrightarrow> correlate api widen st (k, f) = st"
  by (cases st) (simp add: correlate_def)

lemma correlate_key:
  "correlate api widen (cfg, w) (''trace_id'', f) =
     (let t = Option.bind (stringOf widen f) (ta_TraceIDFromHex api)
      in (cfg\<lparr>sc_TraceID := or_else (ta_noTrace api) t\<rparr>, if t = None then w AND NOT 1 else (w AND NOT 1) OR 1))"
  "correlate api widen (cfg, w) (''span_id'', f) =
     (let t = Option.bind (stringOf widen f) (ta_SpanIDFromHex api)
      in (cfg\<lparr>sc_SpanID := or_else (ta_noSpan api) t\<rparr>, if t = None then w AND NOT 2 else (w AND NOT 2) OR 2))"
  "correlate api widen (cfg, w) (''trace_flags'', f) =
     (let t = Option.bind (stringOf widen f) parse_hex_byte
      in (cfg\<lparr>sc_TraceFlags := or_else 0 t\<rparr>, if t = None then w AND NOT 4 else (w AND NOT 4) OR 4))"
  by (simp_all add: correlate_def correlation_bit_def correlation_names correlation_bits or_else_def Let_def split: option.split)

lemma correlate_fold:
  "foldl (correlate api widen) (empty_span api, 0) fs =
     (span_spec api widen fs,
      consumed_word (traced api widen fs) (last_parse (ta_SpanIDFromHex api) widen ''span_id'' fs \<noteq> None)
        (last_parse parse_hex_byte widen ''trace_flags'' fs \<noteq> None))"
proof (induction fs rule: rev_induct)
  case Nil
  show ?case by (simp add: span_spec_def empty_span_def last_parse_def or_else_def traced_def consumed_word_def)
next
  case (snoc x fs)
  obtain k f where x: "x = (k, f)" by fastforce
  consider "k = ''trace_id''" | "k = ''span_id''" | "k = ''trace_flags''" | (no) "correlation_bit k = 0"
      "k \<noteq> ''trace_id''" "k \<noteq> ''span_id''" "k \<noteq> ''trace_flags''"
    by (auto simp: correlation_bit_def correlation_names)
  then show ?case
  proof cases
    case no
    then show ?thesis
      by (simp add: x snoc.IH correlate_other span_spec_def traced_def last_parse_snoc)
  qed (simp_all add: x snoc.IH correlate_key span_spec_def traced_def last_parse_snoc consumed_word_ops Let_def)
qed

lemma spanContext_eq:
  "spanContext api widen e =
     (let fs = forEachField e in
      if traced api widen fs
      then (Some (span_spec api widen fs),
            consumed_word True (last_parse (ta_SpanIDFromHex api) widen ''span_id'' fs \<noteq> None)
              (last_parse parse_hex_byte widen ''trace_flags'' fs \<noteq> None), length fs)
      else (None, 0, length fs))"
  by (simp add: spanContext_def correlate_fold correlation_bits consumed_word_ops Let_def)

section \<open>Attributes in one pass\<close>

lemma firsts_snoc:
  "firsts seen (xs @ [(k, v)]) = firsts seen xs @
     (if k \<in> seen \<union> fst ` set xs \<and> k \<in> correlation_keys then [] else [(k, v)])"
  by (induction seen xs rule: firsts.induct) auto

lemma firsts_keys: "fst ` set (firsts seen xs) \<subseteq> fst ` set xs"
  by (induction seen xs rule: firsts.induct) auto

lemma firsts_le: "length (firsts seen xs) \<le> length xs"
  by (induction seen xs rule: firsts.induct) auto

lemma correlation_slot_iff: "correlation_slot k = None \<longleftrightarrow> k \<notin> correlation_keys"
  by (auto simp: correlation_slot_def correlation_names correlation_keys_def)

lemma correlation_slot_inj: "correlation_slot k = Some c \<Longrightarrow> correlation_slot k' = Some c \<Longrightarrow> k = k'"
  by (auto simp: correlation_slot_def split: if_splits)

lemma correlation_slot_less: "correlation_slot k = Some c \<Longrightarrow> c < 3"
  by (auto simp: correlation_slot_def split: if_splits)

lemmas derived_bits = bitComponent_def bitError_def bitFilePath_def bitLineNo_def

lemma derivedKeyBit_and: "derivedKeyBit k \<noteq> 0 \<Longrightarrow> derivedKeyBit k' AND derivedKeyBit k = 0 \<longleftrightarrow> k' \<noteq> k"
  by (auto simp: derivedKeyBit_def derived_bits split: if_splits)

definition claims :: "8 word \<Rightarrow> string set \<Rightarrow> bool" where
  "claims claimed ks \<longleftrightarrow> (\<forall>k. derivedKeyBit k \<noteq> 0 \<longrightarrow> (claimed AND derivedKeyBit k = 0 \<longleftrightarrow> k \<notin> ks))"

lemma claims_insert: "claims claimed ks \<Longrightarrow> claims (claimed OR derivedKeyBit k) (insert k ks)"
  by (auto simp: claims_def bit.conj_disj_distrib2 derivedKeyBit_and or_eq_0_iff)

definition slots_ok :: "nat list \<Rightarrow> (string \<times> 'v) list \<Rightarrow> (string \<times> 'v) list \<Rightarrow> bool" where
  "slots_ok slots xs dst \<longleftrightarrow> length slots = 3 \<and> (\<forall>k c. correlation_slot k = Some c \<longrightarrow>
     (slots ! c = 0 \<longleftrightarrow> k \<notin> fst ` set xs) \<and>
     (slots ! c \<noteq> 0 \<longrightarrow> slots ! c \<le> length dst \<and> fst (dst ! (slots ! c - 1)) = k) \<and>
     (\<forall>i < length dst. fst (dst ! i) = k \<longrightarrow> Suc i = slots ! c))"

lemma settled_length: "length (settled xs) = length (firsts {} xs)"
  by (simp add: settled_def)

lemma settled_nth:
  assumes "i < length (firsts {} xs)" and "firsts {} xs ! i = (k, v)"
  shows "settled xs ! i = (k, if correlation_slot k \<noteq> None then the (map_of (rev xs) k) else v)"
  using assms by (simp add: settled_def final_value_def correlation_slot_iff)

lemma settled_snoc_new:
  assumes "correlation_slot k = None \<or> k \<notin> fst ` set xs"
  shows "settled (xs @ [(k, v)]) = settled xs @ [(k, v)]"
proof -
  have k: "k \<notin> correlation_keys \<or> k \<notin> fst ` set xs" using assms by (simp add: correlation_slot_iff)
  have "final_value (map_of (rev (xs @ [(k, v)]))) y = final_value (map_of (rev xs)) y" if "y \<in> set (firsts {} xs)" for y
  proof -
    have "fst y \<in> fst ` set xs" using that firsts_keys [of "{}" xs] by auto
    then have "fst y \<in> correlation_keys \<Longrightarrow> fst y \<noteq> k" using k by metis
    then show ?thesis by (cases y) (simp add: final_value_def)
  qed
  then have m: "map (final_value (map_of (rev (xs @ [(k, v)])))) (firsts {} xs) = settled xs"
    unfolding settled_def by (intro map_cong) simp_all
  have "firsts {} (xs @ [(k, v)]) = firsts {} xs @ [(k, v)]" using k by (auto simp: firsts_snoc)
  then show ?thesis unfolding settled_def [of "xs @ [(k, v)]"] map_append by (simp only: m map_append) (simp add: final_value_def)
qed

lemma settled_snoc_again:
  assumes "correlation_slot k = Some c" and "k \<in> fst ` set xs" and "slots_ok slots xs (settled xs)"
  shows "settled (xs @ [(k, v)]) = (settled xs)[slots ! c - 1 := (k, v)]"
proof (rule nth_equalityI)
  have "k \<in> correlation_keys" using assms(1) correlation_slot_iff [of k] by (metis option.distinct(1))
  then have f: "firsts {} (xs @ [(k, v)]) = firsts {} xs" using assms(2) by (simp add: firsts_snoc)
  show "length (settled (xs @ [(k, v)])) = length ((settled xs)[slots ! c - 1 := (k, v)])"
    by (simp add: settled_length f)
  fix i
  assume "i < length (settled (xs @ [(k, v)]))"
  then have i: "i < length (firsts {} xs)" by (simp add: settled_length f)
  obtain k' v' where kv: "firsts {} xs ! i = (k', v')" by fastforce
  note here = settled_nth [OF i kv] settled_nth [of i "xs @ [(k, v)]" k' v', unfolded f, OF i kv]
  have slot: "slots ! c \<noteq> 0" "fst (settled xs ! (slots ! c - 1)) = k" "slots ! c \<le> length (settled xs)"
    "fst (settled xs ! i) = k \<longrightarrow> Suc i = slots ! c"
    using assms i by (auto simp: slots_ok_def settled_length)
  show "settled (xs @ [(k, v)]) ! i = (settled xs)[slots ! c - 1 := (k, v)] ! i"
  proof (cases "k' = k")
    case True
    then have "slots ! c - 1 = i" using slot here(1) by simp
    then show ?thesis using here True i assms(1) by (simp add: settled_length)
  next
    case False
    then have "slots ! c - 1 \<noteq> i" using slot here(1) by auto
    then show ?thesis using here False by simp
  qed
qed

lemma slots_ok_new:
  assumes "slots_ok slots xs dst" and "correlation_slot k = None"
  shows "slots_ok slots (xs @ [(k, v)]) (dst @ [(k, v)])"
  using assms by (fastforce simp: slots_ok_def nth_append less_Suc_eq)

lemma slots_ok_first:
  assumes "slots_ok slots xs dst" and "correlation_slot k = Some c" and "k \<notin> fst ` set xs"
  shows "slots_ok (slots[c := length dst + 1]) (xs @ [(k, v)]) (dst @ [(k, v)])"
proof -
  have z: "slots ! c = 0" and len: "length slots = 3" using assms by (auto simp: slots_ok_def)
  have "c < 3" by (rule correlation_slot_less [OF assms(2)])
  then have c: "slots[c := length dst + 1] ! c = length dst + 1" "\<And>d. d \<noteq> c \<Longrightarrow> slots[c := length dst + 1] ! d = slots ! d"
    using len by simp_all
  show ?thesis unfolding slots_ok_def
  proof (intro conjI allI impI)
    show "length (slots[c := length dst + 1]) = 3" using len by simp
  next
    fix k' c' assume k': "correlation_slot k' = Some c'"
    have same: "c' = c \<longleftrightarrow> k' = k" using correlation_slot_inj [OF assms(2), of k'] k' assms(2) by auto
    have old: "slots ! c' = 0 \<longleftrightarrow> k' \<notin> fst ` set xs"
      "slots ! c' \<noteq> 0 \<Longrightarrow> slots ! c' \<le> length dst \<and> fst (dst ! (slots ! c' - 1)) = k'"
      "\<And>i. i < length dst \<Longrightarrow> fst (dst ! i) = k' \<Longrightarrow> Suc i = slots ! c'"
      using assms(1) k' by (auto simp: slots_ok_def)
    show "slots[c := length dst + 1] ! c' = 0 \<longleftrightarrow> k' \<notin> fst ` set (xs @ [(k, v)])"
      using old(1) same c by (cases "c' = c") auto
    show "slots[c := length dst + 1] ! c' \<le> length (dst @ [(k, v)])" "fst ((dst @ [(k, v)]) ! (slots[c := length dst + 1] ! c' - 1)) = k'"
      if "slots[c := length dst + 1] ! c' \<noteq> 0"
      using that old(2) same c by (cases "c' = c"; auto simp: nth_append)+
    show "Suc i = slots[c := length dst + 1] ! c'" if "i < length (dst @ [(k, v)])" "fst ((dst @ [(k, v)]) ! i) = k'" for i
      using that old(3) [of i] old(1) same c z assms(3)
      by (cases "c' = c"; cases "i < length dst") (auto simp: nth_append)
  qed
qed

lemma slots_ok_again:
  assumes "slots_ok slots xs dst" and "correlation_slot k = Some c" and "k \<in> fst ` set xs"
  shows "slots_ok slots (xs @ [(k, v)]) (dst[slots ! c - 1 := (k, v)])"
proof -
  have "slots ! c \<noteq> 0" "slots ! c \<le> length dst" "fst (dst ! (slots ! c - 1)) = k" using assms by (auto simp: slots_ok_def)
  then have "map fst (dst[slots ! c - 1 := (k, v)]) = map fst dst" by (metis fst_conv list_update_id map_update)
  then have "\<And>i. i < length dst \<Longrightarrow> fst (dst[slots ! c - 1 := (k, v)] ! i) = fst (dst ! i)"
    by (metis length_list_update nth_map)
  note same = this
  have keys: "fst ` set (xs @ [(k, v)]) = fst ` set xs" using assms(3) by auto
  show ?thesis unfolding slots_ok_def keys
  proof (intro conjI allI impI)
    show "length slots = 3" using assms(1) by (simp add: slots_ok_def)
  next
    fix k' c' assume k': "correlation_slot k' = Some c'"
    have old: "slots ! c' = 0 \<longleftrightarrow> k' \<notin> fst ` set xs"
      "slots ! c' \<noteq> 0 \<Longrightarrow> slots ! c' \<le> length dst \<and> fst (dst ! (slots ! c' - 1)) = k'"
      "\<And>i. i < length dst \<Longrightarrow> fst (dst ! i) = k' \<Longrightarrow> Suc i = slots ! c'"
      using assms(1) k' by (auto simp: slots_ok_def)
    show "slots ! c' = 0 \<longleftrightarrow> k' \<notin> fst ` set xs" by (rule old(1))
    show "slots ! c' \<le> length (dst[slots ! c - 1 := (k, v)])" if "slots ! c' \<noteq> 0" using old(2) [OF that] by simp
    show "fst (dst[slots ! c - 1 := (k, v)] ! (slots ! c' - 1)) = k'" if "slots ! c' \<noteq> 0"
    proof -
      have "slots ! c' - 1 < length dst" using old(2) [OF that] that by linarith
      from same [OF this] old(2) [OF that] show ?thesis by simp
    qed
    show "Suc i = slots ! c'" if "i < length (dst[slots ! c - 1 := (k, v)])" "fst (dst[slots ! c - 1 := (k, v)] ! i) = k'" for i
      using that old(3) [of i] same [of i] by simp
  qed
qed

definition carried :: "8 word \<Rightarrow> (string \<times> typed_field) list \<Rightarrow> (string \<times> typed_field) list" where
  "carried w fs = filter (\<lambda>(k, f). k \<noteq> [] \<and> w AND correlation_bit k = 0) fs"

definition valued :: "(go_float \<Rightarrow> go_float) \<Rightarrow> (string \<times> typed_field) list \<Rightarrow> (string \<times> otel_value) list" where
  "valued widen fs = map (\<lambda>(k, f). (k, logValue widen f)) fs"

lemma valued_keys: "fst ` set (valued widen fs) = fst ` set fs"
  by (force simp: valued_def)

lemma add_attribute_fold:
  "\<exists>claimed slots. foldl (add_attribute widen w) ([], 0, [0, 0, 0]) fs = (settled (valued widen (carried w fs)), claimed, slots)
     \<and> slots_ok slots (valued widen (carried w fs)) (settled (valued widen (carried w fs)))
     \<and> claims claimed (fst ` set (carried w fs))"
proof (induction fs rule: rev_induct)
  case Nil
  have "[0, 0, 0] ! c = (0 :: nat)" if "c < 3" for c using that by (auto simp: less_Suc_eq numeral_3_eq_3)
  then show ?case
    by (auto simp: carried_def valued_def settled_def slots_ok_def claims_def dest: correlation_slot_less)
next
  case (snoc x fs)
  obtain k f where x: "x = (k, f)" by fastforce
  let ?vs = "valued widen (carried w fs)"
  from snoc.IH obtain claimed slots where IH:
    "foldl (add_attribute widen w) ([], 0, [0, 0, 0]) fs = (settled ?vs, claimed, slots)"
    "slots_ok slots ?vs (settled ?vs)" "claims claimed (fst ` set (carried w fs))" by blast
  show ?case
  proof (cases "k = [] \<or> w AND correlation_bit k \<noteq> 0")
    case True
    then have "carried w (fs @ [x]) = carried w fs" by (auto simp: carried_def x)
    moreover have "add_attribute widen w (settled ?vs, claimed, slots) x = (settled ?vs, claimed, slots)"
      using True by (auto simp: add_attribute_def x)
    ultimately show ?thesis using IH by simp
  next
    case False
    then have c: "carried w (fs @ [x]) = carried w fs @ [(k, f)]"
      and v: "valued widen (carried w (fs @ [x])) = ?vs @ [(k, logValue widen f)]" by (simp_all add: carried_def valued_def x)
    have cl: "claims (claimed OR derivedKeyBit k) (fst ` set (carried w (fs @ [x])))"
      using claims_insert [OF IH(3), of k] by (simp add: c)
    have ks: "k \<in> fst ` set ?vs \<longleftrightarrow> k \<in> fst ` set (carried w fs)" by (simp only: valued_keys)
    show ?thesis
    proof (cases "correlation_slot k")
      case None
      then have "add_attribute widen w (settled ?vs, claimed, slots) x = (settled ?vs @ [(k, logValue widen f)], claimed OR derivedKeyBit k, slots)"
        using False by (simp add: add_attribute_def x)
      with None IH settled_snoc_new [of k ?vs "logValue widen f"] slots_ok_new [OF IH(2) None, of "logValue widen f"] cl
      show ?thesis by (simp add: v)
    next
      case (Some i)
      show ?thesis
      proof (cases "k \<in> fst ` set ?vs")
        case True
        then have "slots ! i \<noteq> 0" using IH(2) Some by (simp add: slots_ok_def)
        then have "add_attribute widen w (settled ?vs, claimed, slots) x =
            ((settled ?vs)[slots ! i - 1 := (k, logValue widen f)], claimed OR derivedKeyBit k, slots)"
          using False Some by (simp add: add_attribute_def x)
        with IH settled_snoc_again [OF Some True IH(2), of "logValue widen f"]
          slots_ok_again [OF IH(2) Some True, of "logValue widen f"] cl
        show ?thesis by (simp add: v)
      next
        case new: False
        then have "slots ! i = 0" using IH(2) Some by (simp add: slots_ok_def)
        then have "add_attribute widen w (settled ?vs, claimed, slots) x =
            (settled ?vs @ [(k, logValue widen f)], claimed OR derivedKeyBit k, slots[i := length (settled ?vs) + 1])"
          using False Some by (simp add: add_attribute_def x)
        with IH settled_snoc_new [of k ?vs "logValue widen f"] new slots_ok_first [OF IH(2) Some new, of "logValue widen f"] cl
        show ?thesis by (simp add: v)
      qed
    qed
  qed
qed

lemma attributes_eq:
  "attributes widen e w = settled (valued widen (carried w (forEachField e))) @ derived e (fst ` set (carried w (forEachField e)))"
proof -
  let ?ks = "fst ` set (carried w (forEachField e))"
  from add_attribute_fold [of widen w "forEachField e"] obtain claimed slots where f:
    "foldl (add_attribute widen w) ([], 0, [0, 0, 0]) (forEachField e) = (settled (valued widen (carried w (forEachField e))), claimed, slots)"
    and cl: "claims claimed ?ks" by blast
  have "claimed AND bitComponent = 0 \<longleftrightarrow> ''component'' \<notin> ?ks" "claimed AND bitError = 0 \<longleftrightarrow> ''error'' \<notin> ?ks"
    "claimed AND bitFilePath = 0 \<longleftrightarrow> ''code.file.path'' \<notin> ?ks" "claimed AND bitLineNo = 0 \<longleftrightarrow> ''code.line.number'' \<notin> ?ks"
    using cl [unfolded claims_def, rule_format, of "''component''"] cl [unfolded claims_def, rule_format, of "''error''"]
      cl [unfolded claims_def, rule_format, of "''code.file.path''"] cl [unfolded claims_def, rule_format, of "''code.line.number''"]
    by (simp_all add: derivedKeyBit_def derived_bits)
  then show ?thesis by (simp add: attributes_def f derived_def Let_def)
qed

section \<open>Bounds\<close>

lemma settled_le: "length (settled xs) \<le> length xs"
  by (simp add: settled_length firsts_le)

lemma derived_le: "n + length (derived e ks) \<le> attributeCapacity e n"
  by (auto simp: derived_def attributeCapacity_def errorMessage_def Let_def split: option.split)

lemma attributes_le: "length (attributes widen e w) \<le> attributeCapacity e (length (forEachField e))"
proof -
  have "length (settled (valued widen (carried w (forEachField e)))) \<le> length (forEachField e)"
    by (rule order_trans [OF settled_le]) (simp add: valued_def carried_def)
  with derived_le [of "length (forEachField e)" e "fst ` set (carried w (forEachField e))"] show ?thesis
    by (simp add: attributes_eq)
qed

lemma build_record_eq:
  "build_record widen e w (length (forEachField e)) =
     \<lparr>or_Timestamp = entryTime e, or_Severity = severityOf (le_Level e), or_SeverityText = level_String (le_Level e),
      or_Body = OString (le_Message e), or_Attributes = attributes widen e w\<rparr>"
proof -
  have "attributeCapacity e (length (forEachField e)) = 0 \<Longrightarrow> attributes widen e w = []"
    using attributes_le [of widen e w] by simp
  then show ?thesis by (auto simp: build_record_def zero_record_def Let_def split: option.split)
qed

text \<open>The word \<open>consumed\<close> stands for the keys consumed.\<close>

lemma carried_consumed:
  "carried (fst (snd (spanContext api widen e))) (forEachField e) =
     filter (\<lambda>(k, f). k \<noteq> [] \<and> k \<notin> consumed_keys api widen (forEachField e)) (forEachField e)"
proof -
  have "fst (snd (spanContext api widen e)) AND correlation_bit k = 0 \<longleftrightarrow> k \<notin> consumed_keys api widen (forEachField e)" for k
    by (auto simp: spanContext_eq Let_def consumed_keys_def correlation_bit_def correlation_names correlation_bits consumed_word_ops)
  then show ?thesis by (simp add: carried_def)
qed

lemma attributes_spec:
  "attributes widen e (fst (snd (spanContext api widen e))) = attribute_spec widen e (consumed_keys api widen (forEachField e))"
  by (simp add: attributes_eq carried_consumed attribute_spec_def valued_def Let_def)

definition record_spec :: "('t, 'p) trace_api \<Rightarrow> (go_float \<Rightarrow> go_float) \<Rightarrow> 'd full_entry \<Rightarrow> otel_record" where
  "record_spec api widen e =
     \<lparr>or_Timestamp = entryTime e, or_Severity = severityOf (le_Level e), or_SeverityText = level_String (le_Level e),
      or_Body = OString (le_Message e), or_Attributes = attribute_spec widen e (consumed_keys api widen (forEachField e))\<rparr>"

definition context_spec :: "('t, 'p) trace_api \<Rightarrow> (go_float \<Rightarrow> go_float) \<Rightarrow> 'd full_entry \<Rightarrow> ('t, 'p) span_context option" where
  "context_spec api widen e =
     (if traced api widen (forEachField e) then Some (span_spec api widen (forEachField e)) else None)"

lemma otel_build_eq:
  "otel_build api widen lg e s =
     (case ol_Enabled lg (context_spec api widen e) (severityOf (le_Level e)) s of
        (s, False) \<Rightarrow> (s, None)
      | (s, True) \<Rightarrow> (s, Some (context_spec api widen e, record_spec api widen e)))"
proof -
  obtain ctx w n where sc: "spanContext api widen e = (ctx, w, n)" by (metis prod_cases3)
  then have c: "ctx = context_spec api widen e" "n = length (forEachField e)"
    by (auto simp: spanContext_eq context_spec_def Let_def split: if_splits)
  have "build_record widen e w n = record_spec api widen e"
    using attributes_spec [of widen e api] by (simp add: c(2) build_record_eq record_spec_def sc)
  then show ?thesis by (simp add: otel_build_def sc c(1))
qed

end
