(* ===== verification/Otel_Bridge.thy ===== *)
theory Otel_Bridge
  imports Otel_Record Core_Session
begin

text \<open>
  Correlation from end to end: \<open>Bind\<close> (\<^verbatim>\<open>otelbridge/bridge.go\<close>) stamps a span onto a child logger, the core
  logger carries it into its lines, and the OpenTelemetry output reads it back; and what the output shows of an
  entry the masker has been over.
\<close>

section \<open>Binding a span\<close>

text \<open>\<open>sc\<close> is \<open>trace.SpanContextFromContext(ctx)\<close>.\<close>

definition Bind :: "('t, 'p) trace_api \<Rightarrow> ('t, 'p) span_context \<Rightarrow> logger \<Rightarrow> logger" where
  "Bind api sc l =
     (if \<not> ta_IsValid api sc then l
      else cx_Logger (foldl cx_arg (lg_With l)
        [(Some keyTraceID, fk_Name keyTraceID, AStr (ta_TraceString api (sc_TraceID sc))),
         (Some keySpanID, fk_Name keySpanID, AStr (ta_SpanString api (sc_SpanID sc))),
         (Some keyTraceFlags, fk_Name keyTraceFlags, AStr (ta_FlagsString api (sc_TraceFlags sc)))]))"



definition bound_span :: "('t, 'p) trace_api \<Rightarrow> ('t, 'p) span_context \<Rightarrow> typed_field list" where
  "bound_span api sc =
     [captured (Some keyTraceID) ''trace_id'' (StringValue (ta_TraceString api (sc_TraceID sc))),
      captured (Some keySpanID) ''span_id'' (StringValue (ta_SpanString api (sc_SpanID sc))),
      captured (Some keyTraceFlags) ''trace_flags'' (StringValue (ta_FlagsString api (sc_TraceFlags sc)))]"


lemma lg_With_ok: "descends c l \<Longrightarrow> context_ok (lg_With l) \<and> cx_l (lg_With l) = l \<and> cx_fields (lg_With l) = lg_boundFields l"
  using descends_ok [of c l] by (auto simp: lg_With_def context_ok_def logger_ok_def)

lemma Bind_fields:
  assumes "descends c l" and "ta_IsValid api sc"
  shows "lg_boundFields (Bind api sc l) = take maxBoundFields (lg_boundFields l @ bound_span api sc)"
proof -
  let ?args = "[(Some keyTraceID, fk_Name keyTraceID, AStr (ta_TraceString api (sc_TraceID sc))),
         (Some keySpanID, fk_Name keySpanID, AStr (ta_SpanString api (sc_SpanID sc))),
         (Some keyTraceFlags, fk_Name keyTraceFlags, AStr (ta_FlagsString api (sc_TraceFlags sc)))]"
  have "map arg_field ?args = bound_span api sc"
    by (simp add: arg_field_def bound_span_def correlation_names)
  moreover have "lg_boundFields (cx_Logger (foldl cx_arg (lg_With l) ?args)) = cx_fields (foldl cx_arg (lg_With l) ?args)"
    by (simp add: cx_Logger_def Let_def)
  ultimately show ?thesis
    using cx_args_fields [of "lg_With l" ?args] lg_With_ok [OF assms(1)] assms(2) unfolding Bind_def by simp
qed



section \<open>What a line carries\<close>













section \<open>What the masker leaves to see\<close>

text \<open>The output depends on the entry only through these.\<close>

lemma otel_build_cong:
  assumes "forEachField a = forEachField b" and "le_Level a = le_Level b" and "entryTime a = entryTime b"
    and "le_Message a = le_Message b" and "le_Component a = le_Component b" and "errorMessage a = errorMessage b"
    and "le_File a = le_File b" and "le_Line a = le_Line b"
  shows "otel_build api widen lg a s = otel_build api widen lg b s"
proof -
  have "context_spec api widen a = context_spec api widen b" using assms(1) by (simp add: context_spec_def)
  moreover have "record_spec api widen a = record_spec api widen b"
  proof -
    have "derived a = derived b" unfolding derived_def assms(5-8) ..
    then show ?thesis unfolding record_spec_def attribute_spec_def assms(1-4) by simp
  qed
  ultimately show ?thesis using assms(2) by (simp only: otel_build_eq)
qed

definition same_when_hidden :: "'r masker_snapshot \<Rightarrow> 'd full_entry \<Rightarrow> 'd full_entry \<Rightarrow> bool" where
  "same_when_hidden sn e e' \<longleftrightarrow>
     list_all2 (hidden_eq sn) (counted_prefix (le_StaticFieldCount e) (le_StaticFields e))
       (counted_prefix (le_StaticFieldCount e') (le_StaticFields e')) \<and>
     list_all2 (hidden_eq sn) (le_Fields e) (le_Fields e') \<and>
     list_all2 (hidden_eq sn) (counted_prefix (le_StaticContextCount e) (le_StaticContext e))
       (counted_prefix (le_StaticContextCount e') (le_StaticContext e')) \<and>
     list_all2 (hidden_eq sn) (le_Context e) (le_Context e') \<and>
     le_IndexedStore e = le_IndexedStore e' \<and>
     le_Level e = le_Level e' \<and> le_TimestampUnix e = le_TimestampUnix e' \<and> le_Timestamp e = le_Timestamp e' \<and>
     le_Message e = le_Message e' \<and> le_Component e = le_Component e' \<and> le_ErrorMsg e = le_ErrorMsg e' \<and>
     le_Error e = le_Error e' \<and> le_File e = le_File e' \<and> le_Line e = le_Line e'"

lemma counted_prefix_min: "counted_prefix c fs = take (nat (min c (int (length fs)))) fs"
  by (auto simp: counted_prefix_def min_def)

lemma counted_prefix_mask:
  "counted_prefix c (mask_prefix eng reg fs c sn) = maskFields eng reg (counted_prefix c fs) sn"
  by (simp only: counted_prefix_min mask_prefix_take)

lemma Apply_parts:
  assumes "pm_activeState pm = Some sn" and "\<not> (fieldRules sn = Map.empty \<and> regexRules sn = [] \<and> pm_registry pm = None)"
  obtains a where "Apply eng pm (Some e) = Some a"
    "counted_prefix (le_StaticFieldCount a) (le_StaticFields a) =
       maskFields eng (pm_registry pm) (counted_prefix (le_StaticFieldCount e) (le_StaticFields e)) (Some sn)"
    "le_Fields a = maskFields eng (pm_registry pm) (le_Fields e) (Some sn)"
    "counted_prefix (le_StaticContextCount a) (le_StaticContext a) =
       maskFields eng (pm_registry pm) (counted_prefix (le_StaticContextCount e) (le_StaticContext e)) (Some sn)"
    "le_Context a = maskFields eng (pm_registry pm) (le_Context e) (Some sn)"
    "le_IndexedStore a = map_option (TransformValues (\<lambda>key v. fv_String (tf_Val (maskFieldFast eng (pm_registry pm)
       \<lparr>tf_Key = key, tf_KeyDesc = None, tf_Val = StringValue v, tf_Value = GNil\<rparr> (Some sn))))) (le_IndexedStore e)"
    "le_Level a = le_Level e" "entryTime a = entryTime e" "le_Message a = maskString eng (le_Message e) (Some sn)"
    "le_Component a = le_Component e" "errorMessage a = errorMessage e" "le_File a = le_File e" "le_Line a = le_Line e"
proof -
  obtain a where a: "Apply eng pm (Some e) = Some a"
      "le_StaticFields a = mask_prefix eng (pm_registry pm) (le_StaticFields e) (le_StaticFieldCount e) (Some sn)"
      "le_StaticFieldCount a = le_StaticFieldCount e" "le_Fields a = maskFields eng (pm_registry pm) (le_Fields e) (Some sn)"
      "le_StaticContext a = mask_prefix eng (pm_registry pm) (le_StaticContext e) (le_StaticContextCount e) (Some sn)"
      "le_StaticContextCount a = le_StaticContextCount e" "le_Context a = maskFields eng (pm_registry pm) (le_Context e) (Some sn)"
      "le_IndexedStore a = map_option (TransformValues (\<lambda>key v. fv_String (tf_Val (maskFieldFast eng (pm_registry pm)
       \<lparr>tf_Key = key, tf_KeyDesc = None, tf_Val = StringValue v, tf_Value = GNil\<rparr> (Some sn))))) (le_IndexedStore e)"
      "le_TimestampUnix a = le_TimestampUnix e" "le_Timestamp a = le_Timestamp e" "le_Level a = le_Level e"
      "le_Message a = maskString eng (le_Message e) (Some sn)" "le_Component a = le_Component e" "le_Error a = le_Error e"
      "le_ErrorMsg a = le_ErrorMsg e" "le_File a = le_File e" "le_Line a = le_Line e"
    unfolding Apply_def by (simp only: assms(1) prod.case option.case if_not_P [OF assms(2)] Let_def) simp
  show thesis by (rule that [OF a(1)]) (simp_all add: a entryTime_def errorMessage_def counted_prefix_mask)
qed

lemma masked_builds_agree:
  assumes "pm_activeState pm = Some sn" and "pm_registry pm = None" and "same_when_hidden sn e e'"
  shows "map_option (\<lambda>x. otel_build api widen lg x s) (Apply eng pm (Some e)) =
     map_option (\<lambda>x. otel_build api widen lg x s) (Apply eng pm (Some e'))"
proof (cases "fieldRules sn = Map.empty \<and> regexRules sn = []")
  case True
  then have "hidden_eq sn = (=)" by (auto simp: hidden_eq_def fun_eq_iff)
  then have "otel_build api widen lg e s = otel_build api widen lg e' s"
    using assms(3) by (intro otel_build_cong) (simp_all add: same_when_hidden_def list.rel_eq forEachField_def entryTime_def errorMessage_def)
  with True assms(1,2) show ?thesis by (simp add: Apply_def)
next
  case False
  then have n: "\<not> (fieldRules sn = Map.empty \<and> regexRules sn = [] \<and> pm_registry pm = None)" by blast
  obtain a where a: "Apply eng pm (Some e) = Some a"
    "counted_prefix (le_StaticFieldCount a) (le_StaticFields a) =
       maskFields eng None (counted_prefix (le_StaticFieldCount e) (le_StaticFields e)) (Some sn)"
    "le_Fields a = maskFields eng None (le_Fields e) (Some sn)"
    "counted_prefix (le_StaticContextCount a) (le_StaticContext a) =
       maskFields eng None (counted_prefix (le_StaticContextCount e) (le_StaticContext e)) (Some sn)"
    "le_Context a = maskFields eng None (le_Context e) (Some sn)"
    "le_IndexedStore a = map_option (TransformValues (\<lambda>key v. fv_String (tf_Val (maskFieldFast eng None
       \<lparr>tf_Key = key, tf_KeyDesc = None, tf_Val = StringValue v, tf_Value = GNil\<rparr> (Some sn))))) (le_IndexedStore e)"
    "le_Level a = le_Level e" "entryTime a = entryTime e" "le_Message a = maskString eng (le_Message e) (Some sn)"
    "le_Component a = le_Component e" "errorMessage a = errorMessage e" "le_File a = le_File e" "le_Line a = le_Line e"
    by (rule Apply_parts [OF assms(1) n, of eng e, unfolded assms(2)]) blast
  obtain b where b: "Apply eng pm (Some e') = Some b"
    "counted_prefix (le_StaticFieldCount b) (le_StaticFields b) =
       maskFields eng None (counted_prefix (le_StaticFieldCount e') (le_StaticFields e')) (Some sn)"
    "le_Fields b = maskFields eng None (le_Fields e') (Some sn)"
    "counted_prefix (le_StaticContextCount b) (le_StaticContext b) =
       maskFields eng None (counted_prefix (le_StaticContextCount e') (le_StaticContext e')) (Some sn)"
    "le_Context b = maskFields eng None (le_Context e') (Some sn)"
    "le_IndexedStore b = map_option (TransformValues (\<lambda>key v. fv_String (tf_Val (maskFieldFast eng None
       \<lparr>tf_Key = key, tf_KeyDesc = None, tf_Val = StringValue v, tf_Value = GNil\<rparr> (Some sn))))) (le_IndexedStore e')"
    "le_Level b = le_Level e'" "entryTime b = entryTime e'" "le_Message b = maskString eng (le_Message e') (Some sn)"
    "le_Component b = le_Component e'" "errorMessage b = errorMessage e'" "le_File b = le_File e'" "le_Line b = le_Line e'"
    by (rule Apply_parts [OF assms(1) n, of eng e', unfolded assms(2)]) blast
  note h = assms(3) [unfolded same_when_hidden_def]
  have "counted_prefix (le_StaticFieldCount a) (le_StaticFields a) = counted_prefix (le_StaticFieldCount b) (le_StaticFields b)"
    "le_Fields a = le_Fields b" "le_Context a = le_Context b" "le_IndexedStore a = le_IndexedStore b"
    "counted_prefix (le_StaticContextCount a) (le_StaticContext a) = counted_prefix (le_StaticContextCount b) (le_StaticContext b)"
    unfolding a b using h by (auto intro: hidden_eq_maskFields)
  then have "otel_build api widen lg a s = otel_build api widen lg b s"
    using h by (intro otel_build_cong) (simp_all add: forEachField_def a(7-13) b(7-13), simp_all add: entryTime_def errorMessage_def)
  then show ?thesis by (simp add: a(1) b(1))
qed

section \<open>An instance of the API\<close>

definition hex_api :: "(string, string) trace_api" where
  "hex_api = \<lparr>ta_TraceIDFromHex = (\<lambda>s. if length s = 32 then Some s else None),
     ta_SpanIDFromHex = (\<lambda>s. if length s = 16 then Some s else None),
     ta_noTrace = replicate 32 (CHR ''0''), ta_noSpan = replicate 16 (CHR ''0''),
     ta_TraceString = (\<lambda>s. s), ta_SpanString = (\<lambda>s. s),
     ta_FlagsString = (\<lambda>n. [hexDigit (nat n div 16), hexDigit (nat n mod 16)]),
     ta_IsValid = (\<lambda>sc. length (sc_TraceID sc) = 32 \<and> length (sc_SpanID sc) = 16)\<rparr>"






section \<open>Properties\<close>



text \<open>
  C19: The adapter emits exactly the specified record under the specified context, or nothing if the
  SDK declines: the trace context of the last occurrence of each correlation key, and the fields in order, without
  keyless ones and without the correlation keys consumed, each remaining correlation key once with its
  last value, followed by the derived attributes no field has claimed.
\<close>

theorem otel_record_exact:
  assumes "oa_logger a = Some lg"
  shows "oa_Write api widen a (Some e) s =
     (case ol_Enabled lg (context_spec api widen e) (severityOf (le_Level e)) s of
        (s, False) \<Rightarrow> (s, None)
      | (s, True) \<Rightarrow> (ol_Emit lg (context_spec api widen e) (record_spec api widen e) s, None))"
  using assms by (simp add: oa_Write_def otel_build_eq split: prod.split bool.split)

definition collecting :: "(string, string, ((string, string) span_context option \<times> otel_record) list) otel_logger" where
  "collecting = \<lparr>ol_Enabled = (\<lambda>ctx sev s. (s, True)), ol_Emit = (\<lambda>ctx r s. s @ [(ctx, r)])\<rparr>"

definition collecting_adapter :: "(string, string, ((string, string) span_context option \<times> otel_record) list) otel_adapter" where
  "collecting_adapter =
     NewAdapter \<lparr>op_Logger = (\<lambda>scope opts. Some collecting), op_ForceFlush = None\<rparr> ''app'' [WithName ''otel2'']"

theorem otel_record_exact_witness:
  "oa_Write hex_api (\<lambda>f. f) collecting_adapter (Some (empty_entry\<lparr>le_Message := ''m''\<rparr> :: unit full_entry)) [] =
     ([(None, record_spec hex_api (\<lambda>f. f) (empty_entry\<lparr>le_Message := ''m''\<rparr> :: unit full_entry))], None)"
proof -
  have lg: "oa_logger collecting_adapter = Some collecting"
    by (simp add: collecting_adapter_def NewAdapter_def WithName_def Let_def)
  have "context_spec hex_api (\<lambda>f. f) (empty_entry\<lparr>le_Message := ''m''\<rparr> :: unit full_entry) = None"
    by (simp add: context_spec_def traced_def last_parse_def forEachField_def empty_entry_def named_def counted_prefix_def)
  then show ?thesis
    using otel_record_exact [of collecting_adapter collecting hex_api "\<lambda>f. f" "empty_entry\<lparr>le_Message := ''m''\<rparr> :: unit full_entry" "[]"]
      lg by (simp add: collecting_def)
qed

text \<open>
  C20: What a field rule masks does not leave the host: two entries that differ only in the values of fields the
  rules name, in any of the four lists of fields, are turned into the same record under the same context
  once the masker has been over them.
\<close>

theorem otel_hides_masked:
  assumes "pm_activeState pm = Some sn" and "pm_registry pm = None" and "same_when_hidden sn e e'"
  shows "map_option (\<lambda>x. otel_build api widen lg x s) (Apply eng pm (Some e)) =
     map_option (\<lambda>x. otel_build api widen lg x s) (Apply eng pm (Some e'))"
  by (rule masked_builds_agree [OF assms])

theorem otel_hides_masked_witness:
  "map_option (\<lambda>x. otel_build hex_api (\<lambda>f. f) collecting x []) (Apply prefix_engine password_masker (Some (login_entry ''hunter2''))) =
   map_option (\<lambda>x. otel_build hex_api (\<lambda>f. f) collecting x []) (Apply prefix_engine password_masker (Some (login_entry ''letmein'')))"
  by (rule otel_hides_masked [where sn = "\<lparr>fieldRules = [''password'' \<mapsto> ''***PASSWORD***''], regexRules = []\<rparr>"])
    (simp_all add: password_masker_def login_entry_def empty_entry_def same_when_hidden_def counted_prefix_def
      hidden_eq_def same_key_def mask_key_def)

section \<open>Limits\<close>

text \<open>
  A context that is full takes no more fields: \<open>Bind\<close> returns a child that stays on the span bound
  before, or on none.
\<close>

lemma Bind_full_context:
  assumes "descends c l" and "ta_IsValid api sc" and "length (lg_boundFields l) = maxBoundFields"
  shows "lg_boundFields (Bind api sc l) = lg_boundFields l"
  using Bind_fields [OF assms(1,2)] assms(3) by simp

text \<open>The masker does not look at the error of the entry, nor at the component: both are exported as they are.\<close>

lemma error_exported_unmasked:
  assumes "pm_activeState pm = Some sn" and "\<not> (fieldRules sn = Map.empty \<and> regexRules sn = [] \<and> pm_registry pm = None)"
    and "le_Fields e = []" and "le_StaticFieldCount e = 0" and "le_StaticContextCount e = 0" and "le_Context e = []"
    and "le_IndexedStore e = None" and "le_Component e = []" and "le_File e = []" and "le_ErrorMsg e \<noteq> []"
  shows "map_option (\<lambda>x. or_Attributes (record_spec api widen x)) (Apply eng pm (Some e)) =
     Some [(''error'', OString (le_ErrorMsg e))]"
proof -
  obtain a where "Apply eng pm (Some e) = Some a" "forEachField a = []" "le_Component a = []" "errorMessage a = le_ErrorMsg e" "le_File a = []"
  proof (rule Apply_parts [OF assms(1,2), of eng e], goal_cases)
    case (1 a)
    then show ?case using assms(3-10) by (intro that [of a]) (simp_all add: forEachField_def counted_prefix_def maskFields_def named_def errorMessage_def)
  qed
  then show ?thesis using assms(10) by (simp add: record_spec_def attribute_spec_def derived_def settled_def)
qed

end
