(* ===== verification/Slog_Bridge.thy ===== *)
theory Slog_Bridge
  imports Core_Session
begin

text \<open>
  The \<^verbatim>\<open>log/slog\<close> handler (\<^verbatim>\<open>slogbridge/handler.go\<close>) on top of the core logger.

  A \<^verbatim>\<open>slog\<close> value is given with its \<open>LogValuer\<close>s resolved. \<open>dur\<close> is \<open>time.Duration.String\<close> and \<open>tm\<close> the text of a
  time in the layout of the source. The typed builder is the list of the fields it has been given.
\<close>

datatype slog_value =
    SVString string | SVInt64 int | SVUint64 int | SVFloat64 go_float | SVBool bool
  | SVDuration int | SVTime int | SVAny go_any | SVGroup "(string \<times> slog_value) list"

type_synonym slog_attr = "string \<times> slog_value"
type_synonym builder_field = "field_key option \<times> string \<times> field_arg"

definition slog_LevelInfo :: int where "slog_LevelInfo = 0"
definition slog_LevelWarn :: int where "slog_LevelWarn = 4"
definition slog_LevelError :: int where "slog_LevelError = 8"

record slog_handler =
  sh_logger :: logger
  sh_prefix :: string
  sh_bound :: "(string \<times> slog_attr) list"

definition slog_New :: "logger \<Rightarrow> slog_handler" where
  "slog_New l = \<lparr>sh_logger = l, sh_prefix = [], sh_bound = []\<rparr>"

definition mapLevel :: "int \<Rightarrow> nat" where
  "mapLevel l =
     (if l < slog_LevelInfo then DebugLevel else if l < slog_LevelWarn then InfoLevel
      else if l < slog_LevelError then WarnLevel else ErrorLevel)"

definition slog_Enabled :: "slog_handler \<Rightarrow> int \<Rightarrow> bool" where
  "slog_Enabled h level \<longleftrightarrow> mapLevel level \<ge> logger_level (sh_logger h)"

fun appendScalar ::
  "(int \<Rightarrow> string) \<Rightarrow> (int \<Rightarrow> string) \<Rightarrow> builder_field list \<Rightarrow> string \<Rightarrow> slog_value \<Rightarrow> builder_field list" where
  "appendScalar dur tm b key (SVString s) = b @ [(None, key, AStr s)]"
| "appendScalar dur tm b key (SVInt64 i) = b @ [(None, key, AInt64 i)]"
| "appendScalar dur tm b key (SVUint64 u) = b @ [(None, key, AAny (GUint64 u))]"
| "appendScalar dur tm b key (SVFloat64 f) = b @ [(None, key, AFloat f)]"
| "appendScalar dur tm b key (SVBool v) = b @ [(None, key, ABool v)]"
| "appendScalar dur tm b key (SVDuration d) = b @ [(None, key, AStr (dur d))]"
| "appendScalar dur tm b key (SVTime t) = b @ [(None, key, AStr (tm t))]"
| "appendScalar dur tm b key (SVAny v) = b @ [(None, key, AAny v)]"
| "appendScalar dur tm b key (SVGroup g) = b"

fun appendAttr ::
    "(int \<Rightarrow> string) \<Rightarrow> (int \<Rightarrow> string) \<Rightarrow> builder_field list \<Rightarrow> string \<Rightarrow> slog_attr \<Rightarrow> builder_field list"
  and appendGroup ::
    "(int \<Rightarrow> string) \<Rightarrow> (int \<Rightarrow> string) \<Rightarrow> builder_field list \<Rightarrow> string \<Rightarrow> slog_attr list \<Rightarrow> builder_field list" where
  "appendAttr dur tm b prefix (key, v) =
     (if key = [] \<and> v = SVAny GNil then b
      else case v of
             SVGroup gs \<Rightarrow>
               if length gs = 0 then b
               else appendGroup dur tm b (if key \<noteq> [] then prefix @ key @ ''.'' else prefix) gs
           | _ \<Rightarrow> appendScalar dur tm b (prefix @ key) v)"
| "appendGroup dur tm b p [] = b"
| "appendGroup dur tm b p (ga # gs) = appendGroup dur tm (appendAttr dur tm b p ga) p gs"

definition WithAttrs :: "slog_attr list \<Rightarrow> slog_handler \<Rightarrow> slog_handler" where
  "WithAttrs attrs h =
     (if length attrs = 0 then h else h\<lparr>sh_bound := sh_bound h @ map (\<lambda>a. (sh_prefix h, a)) attrs\<rparr>)"

definition WithGroup :: "string \<Rightarrow> slog_handler \<Rightarrow> slog_handler" where
  "WithGroup name h = (if name = [] then h else h\<lparr>sh_prefix := sh_prefix h @ name @ ''.''\<rparr>)"

definition emit_method :: "nat \<Rightarrow> log_method" where
  "emit_method level =
     (if level = DebugLevel then LDebug else if level = InfoLevel then LInfo
      else if level = WarnLevel then LWarn else LError)"

definition slog_Handle ::
  "(int \<Rightarrow> string) \<Rightarrow> (int \<Rightarrow> string) \<Rightarrow> 's log_env \<Rightarrow> slog_handler \<Rightarrow> int \<Rightarrow> string \<Rightarrow> slog_attr list \<Rightarrow>
   perPState \<times> 's log_world \<Rightarrow> perPState \<times> 's log_world" where
  "slog_Handle dur tm env h level msg attrs sw =
     (let b = foldl (\<lambda>b ba. appendAttr dur tm b (fst ba) (snd ba)) [] (sh_bound h);
          b = foldl (\<lambda>b a. appendAttr dur tm b (sh_prefix h) a) b attrs
      in typed_line env (sh_logger h) b (emit_method (mapLevel level)) msg (fst sw) (snd sw))"

section \<open>The reference\<close>

text \<open>
  What the \<^verbatim>\<open>slog.Handler\<close> contract asks for: every attribute appears under the groups open when it was given,
  groups without attributes and empty attributes do not appear, and groups without a name are inlined. A path
  is the list of the names of the open groups.
\<close>

definition dotted :: "string list \<Rightarrow> string" where
  "dotted path = concat (map (\<lambda>g. g @ ''.'') path)"

definition scalar_arg :: "(int \<Rightarrow> string) \<Rightarrow> (int \<Rightarrow> string) \<Rightarrow> slog_value \<Rightarrow> field_arg" where
  "scalar_arg dur tm v =
     (case v of SVString s \<Rightarrow> AStr s | SVInt64 i \<Rightarrow> AInt64 i | SVUint64 u \<Rightarrow> AAny (GUint64 u) | SVFloat64 f \<Rightarrow> AFloat f
      | SVBool x \<Rightarrow> ABool x | SVDuration d \<Rightarrow> AStr (dur d) | SVTime t \<Rightarrow> AStr (tm t) | SVAny x \<Rightarrow> AAny x | SVGroup g \<Rightarrow> AAny GNil)"

fun leaves :: "string list \<Rightarrow> slog_attr \<Rightarrow> (string list \<times> string \<times> slog_value) list"
  and group_leaves :: "string list \<Rightarrow> slog_attr list \<Rightarrow> (string list \<times> string \<times> slog_value) list" where
  "leaves path (key, SVGroup gs) = group_leaves (if key = [] then path else path @ [key]) gs"
| "leaves path (key, v) = (if (key, v) = ([], SVAny GNil) then [] else [(path, key, v)])"
| "group_leaves path [] = []"
| "group_leaves path (a # gs) = leaves path a @ group_leaves path gs"

definition leaf_field :: "(int \<Rightarrow> string) \<Rightarrow> (int \<Rightarrow> string) \<Rightarrow> string list \<times> string \<times> slog_value \<Rightarrow> builder_field" where
  "leaf_field dur tm = (\<lambda>(path, key, v). (None, dotted path @ key, scalar_arg dur tm v))"

datatype slog_op = OpGroup string | OpAttrs "slog_attr list"

fun apply_op :: "slog_handler \<Rightarrow> slog_op \<Rightarrow> slog_handler" where
  "apply_op h (OpGroup g) = WithGroup g h"
| "apply_op h (OpAttrs as) = WithAttrs as h"

fun open_groups :: "slog_op list \<Rightarrow> string list" where
  "open_groups [] = []"
| "open_groups (OpGroup g # ops) = (if g = [] then open_groups ops else g # open_groups ops)"
| "open_groups (OpAttrs as # ops) = open_groups ops"

fun bound_leaves :: "string list \<Rightarrow> slog_op list \<Rightarrow> (string list \<times> string \<times> slog_value) list" where
  "bound_leaves path [] = []"
| "bound_leaves path (OpGroup g # ops) = bound_leaves (if g = [] then path else path @ [g]) ops"
| "bound_leaves path (OpAttrs as # ops) = group_leaves path as @ bound_leaves path ops"

definition slog_fields ::
  "(int \<Rightarrow> string) \<Rightarrow> (int \<Rightarrow> string) \<Rightarrow> slog_op list \<Rightarrow> slog_attr list \<Rightarrow> builder_field list" where
  "slog_fields dur tm ops attrs =
     map (leaf_field dur tm) (bound_leaves [] ops @ group_leaves (open_groups ops) attrs)"

section \<open>The handler meets the reference\<close>

lemma dotted_simps [simp]: "dotted [] = []" "dotted (path @ [g]) = dotted path @ g @ ''.''"
  by (simp_all add: dotted_def)

lemma appendAttr_leaves:
  "appendAttr dur tm b (dotted path) a = b @ map (leaf_field dur tm) (leaves path a)"
  "appendGroup dur tm b (dotted path) gs = b @ map (leaf_field dur tm) (group_leaves path gs)"
proof (induction path a and path gs arbitrary: b and b rule: leaves_group_leaves.induct)
  case (1 path key gs)
  from 1 [of b] show ?case
    by (cases "key = []"; cases gs) (simp_all flip: dotted_simps(2))
qed (simp_all add: leaf_field_def scalar_arg_def)

lemma fold_attrs:
  "foldl (\<lambda>b a. appendAttr dur tm b (dotted path) a) b as = b @ map (leaf_field dur tm) (group_leaves path as)"
  by (induction as arbitrary: b) (simp_all add: appendAttr_leaves)

lemma open_groups_snoc: "open_groups (ops @ [op]) = open_groups ops @ (case op of OpGroup g \<Rightarrow> if g = [] then [] else [g] | OpAttrs as \<Rightarrow> [])"
  by (induction ops rule: open_groups.induct) (simp_all split: slog_op.split)

lemma bound_leaves_snoc:
  "bound_leaves path (ops @ [op]) = bound_leaves path ops @
     (case op of OpGroup g \<Rightarrow> [] | OpAttrs as \<Rightarrow> group_leaves (path @ open_groups ops) as)"
  by (induction path ops rule: bound_leaves.induct) (simp_all split: slog_op.split)

lemma handler_state:
  "sh_logger (foldl apply_op (slog_New l) ops) = l \<and>
   sh_prefix (foldl apply_op (slog_New l) ops) = dotted (open_groups ops) \<and>
   foldl (\<lambda>b ba. appendAttr dur tm b (fst ba) (snd ba)) [] (sh_bound (foldl apply_op (slog_New l) ops)) =
     map (leaf_field dur tm) (bound_leaves [] ops)"
proof (induction ops rule: rev_induct)
  case (snoc op ops)
  have m: "foldl (\<lambda>b ba. appendAttr dur tm b (fst ba) (snd ba)) b (map (\<lambda>a. (p, a)) as) = foldl (\<lambda>b a. appendAttr dur tm b p a) b as"
    for b p as by (induction as arbitrary: b) simp_all
  show ?case
  proof (cases op)
    case (OpGroup g)
    with snoc.IH show ?thesis by (simp add: WithGroup_def open_groups_snoc bound_leaves_snoc)
  next
    case (OpAttrs as)
    with snoc.IH show ?thesis
      by (cases "as = []") (simp_all add: WithAttrs_def open_groups_snoc bound_leaves_snoc m fold_attrs)
  qed
qed (simp add: slog_New_def)

lemma emit_method_level: "method_level (emit_method (mapLevel level)) = mapLevel level"
  by (simp add: emit_method_def mapLevel_def level_defs)

lemma emit_method_samplable: "samplable (emit_method n)"
  by (simp add: emit_method_def samplable_def level_defs)

section \<open>Properties\<close>

text \<open>
  C21: A record handled by any handler derived by groups and bound attributes, on any logger, shows at the adapters
  exactly as the line of the logger that carries, after the logger's own bound fields, the attributes the contract
  asks for, under their dotted groups and in order, at the mapped level, and nothing when the handler is not enabled
  for the level.
\<close>

theorem slog_line_exact:
  assumes "descends c l" and "env_ok env" and "world_ok env w" and "pooled s"
  shows "same_output env l
     (snd (slog_Handle dur tm env (foldl apply_op (slog_New l) ops) level msg attrs (s, w)))
     (if slog_Enabled (foldl apply_op (slog_New l) ops) level
      then spec_call env l (CTyped (slog_fields dur tm ops attrs) (emit_method (mapLevel level)) msg) w else w)"
proof -
  let ?h = "foldl apply_op (slog_New l) ops"
  let ?call = "CTyped (slog_fields dur tm ops attrs) (emit_method (mapLevel level)) msg"
  note hs = handler_state [of l ops dur tm]
  have "slog_Handle dur tm env ?h level msg attrs (s, w) = log_call env l ?call (s, w)"
    by (simp add: slog_Handle_def hs fold_attrs slog_fields_def)
  moreover have "same_output env l (snd (log_call env l ?call (s, w))) (spec_call env l ?call w)"
    using assms descends_ok [OF assms(1)] by (intro log_call_ok(1)) (simp add: ready_def)
  moreover have "spec_call env l ?call w = w" if "\<not> slog_Enabled ?h level"
    using that by (simp add: slog_Enabled_def hs spec_call_def message_spec_def below_threshold_def emit_method_level
        emit_method_samplable)
  ultimately show ?thesis by (cases "slog_Enabled ?h level") simp_all
qed

theorem slog_line_exact_witness:
  "same_output demo_env demo_child
     (snd (slog_Handle (\<lambda>_. ''1s'') (\<lambda>_. []) demo_env
        (foldl apply_op (slog_New demo_child) [OpAttrs [(''a'', SVInt64 1)], OpGroup ''req'', OpAttrs [(''id'', SVString ''x'')]])
        4 ''m'' [(''took'', SVDuration 1), (''user'', SVGroup [(''name'', SVString ''bob''), ([], SVAny GNil)])] (new_perPState, demo_world)))
     (spec_call demo_env demo_child (CTyped [(None, ''a'', AInt64 1), (None, ''req.id'', AStr ''x''), (None, ''req.took'', AStr ''1s''),
        (None, ''req.user.name'', AStr ''bob'')] LWarn ''m'') demo_world)"
proof -
  have d: "descends demo_config demo_child" unfolding demo_child_def by (rule descends.child [OF descends.root])
  have "logger_level demo_child = 2"
    by (simp add: demo_child_def cx_Logger_def cx_add_def lg_With_def NewLogger_def demo_config_def maxBoundFields_def
        logger_level_def level_defs Let_def setupFunctionPointers_def level_table_def)
  moreover have "mapLevel 4 = 3" by (simp add: mapLevel_def slog_LevelInfo_def slog_LevelWarn_def slog_LevelError_def level_defs)
  ultimately have en: "slog_Enabled (foldl apply_op (slog_New demo_child)
      [OpAttrs [(''a'', SVInt64 1)], OpGroup ''req'', OpAttrs [(''id'', SVString ''x'')]]) 4"
    by (simp only: slog_Enabled_def handler_state)
  have "slog_fields (\<lambda>_. ''1s'') (\<lambda>_. []) [OpAttrs [(''a'', SVInt64 1)], OpGroup ''req'', OpAttrs [(''id'', SVString ''x'')]]
      [(''took'', SVDuration 1), (''user'', SVGroup [(''name'', SVString ''bob''), ([], SVAny GNil)])] =
    [(None, ''a'', AInt64 1), (None, ''req.id'', AStr ''x''), (None, ''req.took'', AStr ''1s''), (None, ''req.user.name'', AStr ''bob'')]"
    by (simp add: slog_fields_def leaf_field_def scalar_arg_def dotted_def)
  moreover have "emit_method (mapLevel 4) = LWarn" by (simp add: \<open>mapLevel 4 = 3\<close> emit_method_def level_defs)
  ultimately show ?thesis
    using slog_line_exact [OF d demo_ok, of "\<lambda>_. ''1s''" "\<lambda>_. []"
        "[OpAttrs [(''a'', SVInt64 1)], OpGroup ''req'', OpAttrs [(''id'', SVString ''x'')]]" 4 "''m''"
        "[(''took'', SVDuration 1), (''user'', SVGroup [(''name'', SVString ''bob''), ([], SVAny GNil)])]"]
    by (simp only: en if_True)
qed

end
