(* ===== verification/Text_Formatter.thy ===== *)
theory Text_Formatter
  imports Json_Line
begin

text \<open>
  The text formatter (\<^verbatim>\<open>adapters/formatters/text/formatter.go\<close>) with its wall clock: a global text that a background
  goroutine renews every second, from the construction of the first formatter until the clock is stopped.
  \<open>tz\<close> is the offset of the local zone.
\<close>

definition maxIntCache :: nat where "maxIntCache = 1000"
definition maxMessageSize :: nat where "maxMessageSize = 1024"

definition text_smallInts :: "string list" where
  "text_smallInts = map (\<lambda>i. itoa (int i)) [0..<maxIntCache]"

record text_clock =
  tc_bytes :: bytes        \<comment> \<open>\<open>globalTimeBytes\<close>\<close>
  tc_running :: bool       \<comment> \<open>\<open>clockOnce\<close> has fired\<close>
  tc_stopped :: bool

definition text_time :: "(int \<Rightarrow> int) \<Rightarrow> int \<Rightarrow> string" where
  "text_time tz sec =
     (let l = sec + tz sec; (year, month, day) = civil (l div 86400); (hour, mn, s) = clock l
      in zpad 4 year @ ''-'' @ zpad 2 month @ ''-'' @ zpad 2 day @ '' '' @ zpad 2 hour @ '':'' @ zpad 2 mn @ '':'' @ zpad 2 s)"

definition updateTimeCache :: "(int \<Rightarrow> int) \<Rightarrow> int \<Rightarrow> text_clock \<Rightarrow> text_clock" where
  "updateTimeCache tz sec c = c\<lparr>tc_bytes := ''['' @ text_time tz sec @ ''] ''\<rparr>"

text \<open>The state after the initialisation of the package.\<close>

definition text_init :: "(int \<Rightarrow> int) \<Rightarrow> int \<Rightarrow> text_clock" where
  "text_init tz sec = updateTimeCache tz sec \<lparr>tc_bytes = [], tc_running = False, tc_stopped = False\<rparr>"

definition startClock :: "text_clock \<Rightarrow> text_clock" where
  "startClock c = c\<lparr>tc_running := True\<rparr>"

definition StopClock :: "text_clock \<Rightarrow> text_clock" where
  "StopClock c = (if tc_stopped c then c else c\<lparr>tc_stopped := True\<rparr>)"

text \<open>A turn of the goroutine at a boundary of a second.\<close>

definition clock_turn :: "(int \<Rightarrow> int) \<Rightarrow> int \<Rightarrow> text_clock \<Rightarrow> text_clock" where
  "clock_turn tz sec c = (if tc_running c \<and> \<not> tc_stopped c then updateTimeCache tz sec c else c)"

definition NewTextFormatter :: "text_clock \<Rightarrow> text_clock" where
  "NewTextFormatter c = startClock c"

section \<open>Lines\<close>

definition text_level :: "nat \<Rightarrow> string" where
  "text_level l =
     (if l = InfoLevel then ''INFO  - '' else if l = ErrorLevel then ''ERROR - '' else if l = DebugLevel then ''DEBUG - ''
      else if l = WarnLevel then ''WARN  - '' else if l = TraceLevel then ''TRACE - '' else if l = FatalLevel then ''FATAL - ''
      else ''UNK   - '')"

fun last_slash :: "string \<Rightarrow> nat \<Rightarrow> int" where
  "last_slash f 0 = -1"
| "last_slash f (Suc i) = (if f ! i = CHR ''/'' then int i else last_slash f i)"

definition text_appendCaller :: "bytes \<Rightarrow> string \<Rightarrow> int \<Rightarrow> bytes" where
  "text_appendCaller dst f line =
     (let dst = dst @ '' ['';
          dst = dst @ drop (nat (last_slash f (length f) + 1)) f;
          dst = dst @ '':'';
          dst = (if line \<ge> 0 \<and> line < int maxIntCache then dst @ text_smallInts ! nat line else dst @ itoa line)
      in dst @ '']'')"

definition text_Format :: "text_clock \<Rightarrow> ('a log_entry_scheme) option \<Rightarrow> bytes \<Rightarrow> bytes" where
  "text_Format c e dst =
     (case e of
        None \<Rightarrow> dst
      | Some e \<Rightarrow>
          (let dst = dst @ tc_bytes c;
               dst = dst @ text_level (le_Level e);
               msg = le_Message e;
               dst = (if length msg > maxMessageSize then dst @ take maxMessageSize msg @ ''...'' else dst @ msg);
               dst = (if le_File e \<noteq> [] then text_appendCaller dst (le_File e) (le_Line e) else dst)
           in dst @ [CHR 0x0A]))"

definition text_EstimatedSize :: int where
  "text_EstimatedSize = 2048"

section \<open>The reference\<close>

definition text_base :: "string \<Rightarrow> string" where
  "text_base f = rev (takeWhile (\<lambda>c. c \<noteq> CHR ''/'') (rev f))"

definition shortened :: "string \<Rightarrow> string" where
  "shortened msg = (if length msg > 1024 then take 1024 msg @ ''...'' else msg)"

definition text_spec :: "bytes \<Rightarrow> nat \<Rightarrow> string \<Rightarrow> string \<Rightarrow> int \<Rightarrow> string" where
  "text_spec ts level msg f line =
     ts @ text_level level @ shortened msg @ (if f = [] then [] else '' ['' @ text_base f @ '':'' @ itoa line @ '']'') @ [CHR 0x0A]"

lemma last_slash_take: "i \<le> length f \<Longrightarrow> drop (nat (last_slash f i + 1)) (take i f) = rev (takeWhile (\<lambda>c. c \<noteq> CHR ''/'') (rev (take i f)))"
proof (induction i)
  case (Suc i)
  have "take (Suc i) f = take i f @ [f ! i]" using Suc.prems by (simp add: take_Suc_conv_app_nth)
  moreover have "last_slash f j + 1 \<le> int j" for j by (induction j) auto
  then have "nat (last_slash f i + 1) \<le> i" by (simp add: nat_le_iff)
  ultimately show ?case using Suc by simp
qed simp

lemma last_slash_base: "drop (nat (last_slash f (length f) + 1)) f = text_base f"
  using last_slash_take [of "length f" f] by (simp add: text_base_def)

lemma text_smallInts_itoa: "line \<ge> 0 \<Longrightarrow> line < int maxIntCache \<Longrightarrow> text_smallInts ! nat line = itoa line"
  by (simp add: text_smallInts_def nat_less_iff)

lemma text_Format_eq:
  "text_Format c (Some e) dst = dst @ text_spec (tc_bytes c) (le_Level e) (le_Message e) (le_File e) (le_Line e)"
  by (simp add: text_Format_def text_spec_def text_appendCaller_def last_slash_base text_smallInts_itoa shortened_def maxMessageSize_def Let_def)

section \<open>Properties\<close>

lemma text_time_length:
  assumes "tz_ok tz" and "sec_ok sec"
  shows "length (text_time tz sec) = 19"
proof -
  let ?l = "sec + tz sec"
  obtain y m d where c: "civil (?l div 86400) = (y, m, d)" by (cases "civil (?l div 86400)") auto
  have t: "- 86400 \<le> tz sec" "tz sec \<le> 86400" using assms(1) by (simp_all add: tz_ok_def)
  with assms(2) have "- 200000 \<le> ?l div 86400" "?l div 86400 \<le> 200000" unfolding sec_ok_def by linarith+
  with civil_two_digits [OF c] have len: "length (zpad 4 y) = 4" "length (zpad 2 m) = 2" "length (zpad 2 d) = 2"
    by (simp_all add: zpad4_length zpad2_length)
  have r: "0 \<le> ?l mod 86400" "?l mod 86400 < 86400" by simp_all
  have hour: "0 \<le> ?l mod 86400 div 3600" "?l mod 86400 div 3600 \<le> 99"
    using r by (simp add: pos_imp_zdiv_nonneg_iff, linarith)
  have sixty: "0 \<le> x mod 60" "x mod 60 \<le> 99" for x :: int
    by (simp, use pos_mod_bound [of 60 x] in linarith)
  obtain h mn sc where clk: "clock ?l = (h, mn, sc)" by (cases "clock ?l") auto
  then have "length (zpad 2 h) = 2" "length (zpad 2 mn) = 2" "length (zpad 2 sc) = 2"
    using zpad2_length [OF hour] zpad2_length [OF sixty [of "?l mod 86400 div 60"]]
      zpad2_length [OF sixty [of "?l mod 86400"]] by (auto simp only: clock_def Let_def prod.inject)
  with len show ?thesis by (simp add: text_time_def Let_def c clk)
qed

lemma text_level_length: "length (text_level l) = 8"
  by (simp add: text_level_def)

text \<open>
  The texts the clock may hold: those of the instants it was renewed at, the first one being the initialisation.
\<close>

definition clock_run :: "(int \<Rightarrow> int) \<Rightarrow> int \<Rightarrow> (text_clock \<Rightarrow> text_clock) list \<Rightarrow> text_clock" where
  "clock_run tz sec fs = foldl (\<lambda>c f. f c) (text_init tz sec) fs"

fun clock_event :: "(int \<Rightarrow> int) \<Rightarrow> int option \<times> bool \<Rightarrow> text_clock \<Rightarrow> text_clock" where
  "clock_event tz (Some sec, b) c = clock_turn tz sec c"
| "clock_event tz (None, True) c = NewTextFormatter c"
| "clock_event tz (None, False) c = StopClock c"

lemma clock_bytes:
  assumes "tz_ok tz" and "sec_ok sec" and "list_all (\<lambda>ev. case fst ev of Some s \<Rightarrow> sec_ok s | None \<Rightarrow> True) evs"
  shows "length (tc_bytes (clock_run tz sec (map (clock_event tz) evs))) = 22"
  using assms(3)
proof (induction evs rule: rev_induct)
  case Nil
  show ?case using text_time_length [OF assms(1,2)] by (simp add: clock_run_def text_init_def updateTimeCache_def)
next
  case (snoc ev evs)
  let ?c = "clock_run tz sec (map (clock_event tz) evs)"
  have IH: "length (tc_bytes ?c) = 22" using snoc by simp
  have "length (tc_bytes (clock_event tz ev ?c)) = 22"
    using IH snoc.prems text_time_length [OF assms(1)]
    by (cases "(tz, ev, ?c)" rule: clock_event.cases)
      (auto simp: clock_turn_def updateTimeCache_def NewTextFormatter_def startClock_def StopClock_def)
  then show ?case by (simp add: clock_run_def)
qed

lemma shortened_length: "length (shortened msg) \<le> 1027"
  by (simp add: shortened_def)

text \<open>
  Whatever the clock has been through, starts, turns and the stop, a line is the time, the tag of the level, the
  message cut at its limit and the call site, and no longer than 1058 bytes besides the call site, however long
  the message.
\<close>

theorem text_line_exact_and_bounded:
  assumes "tz_ok tz" and "sec_ok sec" and "list_all (\<lambda>ev. case fst ev of Some s \<Rightarrow> sec_ok s | None \<Rightarrow> True) evs"
  shows "let c = clock_run tz sec (map (clock_event tz) evs);
             site = (if le_File e = [] then [] else '' ['' @ text_base (le_File e) @ '':'' @ itoa (le_Line e) @ '']'')
         in text_Format c (Some e) dst = dst @ tc_bytes c @ text_level (le_Level e) @ shortened (le_Message e) @ site @ [CHR 0x0A]
            \<and> length (text_Format c (Some e) []) \<le> 1058 + length site"
proof -
  let ?c = "clock_run tz sec (map (clock_event tz) evs)"
  have "length (tc_bytes ?c) = 22" by (rule clock_bytes [OF assms])
  moreover have "length (shortened (le_Message e)) \<le> 1027" by (rule shortened_length)
  ultimately show ?thesis by (auto simp: text_Format_eq text_spec_def text_level_length Let_def)
qed

theorem text_line_exact_and_bounded_witness:
  "let c = clock_run (\<lambda>_. 0) 1700000000 (map (clock_event (\<lambda>_. 0)) [(None, True), (Some 1700000001, True), (None, False)]);
       e = \<lparr>le_Timestamp = None, le_TimestampUnix = 0, le_Level = 2, le_Message = replicate 5000 (CHR ''x''), le_File = ''/a/b.go'',
            le_Line = 7, le_Fields = [], le_StaticFields = [], le_StaticFieldCount = 0\<rparr>;
       site = (if le_File e = [] then [] else '' ['' @ text_base (le_File e) @ '':'' @ itoa (le_Line e) @ '']'')
   in text_Format c (Some e) ''>'' = ''>'' @ tc_bytes c @ text_level (le_Level e) @ shortened (le_Message e) @ site @ [CHR 0x0A]
      \<and> length (text_Format c (Some e) []) \<le> 1058 + length site"
  unfolding Let_def
  by (rule text_line_exact_and_bounded [unfolded Let_def]) (simp_all add: tz_ok_def sec_ok_def)

section \<open>Limits\<close>

text \<open>The line shows neither the entry's own time nor any of its fields.\<close>

lemma text_shows_no_fields:
  "text_Format c (Some (e\<lparr>le_Fields := fs, le_StaticFields := st, le_StaticFieldCount := n, le_TimestampUnix := t\<rparr>)) dst =
   text_Format c (Some e) dst"
  by (simp add: text_Format_eq)

text \<open>The message is copied as it is: one with a line break makes two lines, the second of the message's choosing.\<close>

lemma text_message_forges_line:
  "le_Message e = [CHR 0x0A] @ tc_bytes c @ text_level InfoLevel @ ''ok'' \<Longrightarrow> le_File e = [] \<Longrightarrow> length (le_Message e) \<le> 1024 \<Longrightarrow>
   text_Format c (Some e) [] = tc_bytes c @ text_level (le_Level e) @ [CHR 0x0A] @
     text_Format c (Some (e\<lparr>le_Level := InfoLevel, le_Message := ''ok''\<rparr>)) []"
  by (simp add: text_Format_eq text_spec_def shortened_def)

text \<open>After the stop the time stands still, also for formatters built later.\<close>

lemma stopped_clock_stays:
  "tc_stopped c \<Longrightarrow> tc_bytes (clock_turn tz sec (NewTextFormatter c)) = tc_bytes c"
  by (simp add: clock_turn_def NewTextFormatter_def startClock_def)

lemma panic_tag: "text_level PanicLevel = ''UNK   - ''"
  by (simp add: text_level_def level_defs)

end
