(* ===== verification/Syslog_Sink.thy ===== *)
theory Syslog_Sink
  imports Text_Formatter
begin

text \<open>
  The syslog sink for Unix, \<^verbatim>\<open>adapters/outputs/syslog/syslog_unix.go\<close>, and the sink that drops everything,
  \<^verbatim>\<open>adapters/outputs/discard/discard.go\<close>.

  Of the standard library's \<^verbatim>\<open>log/syslog\<close> the model has what the sink uses: a writer is bound to the facility and the
  tag it was opened with, refuses a priority out of range, and each of its methods sends one message with the facility of
  the writer and the severity of the method. Whether a connection is made and whether a message gets through
  are arguments. Formatters are functions; the clock of the text formatter is inside the function.
\<close>

section \<open>The system log\<close>

datatype severity = LOG_CRIT | LOG_ERR | LOG_WARNING | LOG_INFO | LOG_DEBUG

fun severity_code :: "severity \<Rightarrow> int" where
  "severity_code LOG_CRIT = 2"
| "severity_code LOG_ERR = 3"
| "severity_code LOG_WARNING = 4"
| "severity_code LOG_INFO = 6"
| "severity_code LOG_DEBUG = 7"

definition LOG_LOCAL0 :: int where "LOG_LOCAL0 = 128"
definition LOG_LOCAL7 :: int where "LOG_LOCAL7 = 184"

record syslog_writer =
  yw_priority :: int
  yw_tag :: string

record syslog_message =
  ym_priority :: int
  ym_tag :: string
  ym_text :: string

text \<open>The log with what has arrived, and the errors of the attempts.\<close>

record syslog_net =
  yn_messages :: "syslog_message list"
  yn_attempts :: nat

record syslog_host =
  yh_program :: string
  yh_connect :: "string \<Rightarrow> string \<Rightarrow> string option"
  yh_send :: "nat \<Rightarrow> string option"

definition syslog_Dial :: "syslog_host \<Rightarrow> string \<Rightarrow> string \<Rightarrow> int \<Rightarrow> string \<Rightarrow> string + syslog_writer" where
  "syslog_Dial h network raddr priority tag =
     (if priority < 0 \<or> priority > LOG_LOCAL7 + severity_code LOG_DEBUG then Inl ''log/syslog: invalid priority''
      else case yh_connect h network raddr of
             Some err \<Rightarrow> Inl err
           | None \<Rightarrow> Inr \<lparr>yw_priority = priority, yw_tag = (if tag = [] then yh_program h else tag)\<rparr>)"

definition syslog_send :: "syslog_host \<Rightarrow> syslog_writer \<Rightarrow> severity \<Rightarrow> string \<Rightarrow> syslog_net \<Rightarrow> syslog_net \<times> string option" where
  "syslog_send h wr sev text n =
     (let e = yh_send h (yn_attempts n); n = n\<lparr>yn_attempts := yn_attempts n + 1\<rparr> in
      case e of
        Some err \<Rightarrow> (n, Some err)
      | None \<Rightarrow> (n\<lparr>yn_messages := yn_messages n @
          [\<lparr>ym_priority = yw_priority wr div 8 * 8 + severity_code sev, ym_tag = yw_tag wr, ym_text = text\<rparr>]\<rparr>, None))"

section \<open>The sink\<close>

type_synonym 'e sys_formatter = "'e option \<Rightarrow> bytes \<Rightarrow> bytes"

record 'e syslog_adapter =
  ya_writer :: "syslog_writer option"
  ya_formatter :: "'e sys_formatter"
  ya_facility :: int
  ya_tag :: string
  ya_lastError :: "string option"

record 'e syslog_options =
  yo_Network :: string
  yo_Address :: string
  yo_Facility :: int
  yo_Tag :: string
  yo_Formatter :: "'e sys_formatter option"

definition NewSyslogAdapterWithOptions :: "syslog_host \<Rightarrow> 'e sys_formatter \<Rightarrow> 'e syslog_options \<Rightarrow> 'e syslog_adapter" where
  "NewSyslogAdapterWithOptions h text_formatter options =
     (let f = (case yo_Formatter options of None \<Rightarrow> text_formatter | Some f \<Rightarrow> f);
          a = \<lparr>ya_writer = None, ya_formatter = f, ya_facility = yo_Facility options, ya_tag = yo_Tag options, ya_lastError = None\<rparr>;
          r = (if yo_Network options \<noteq> [] \<and> yo_Address options \<noteq> []
               then syslog_Dial h (yo_Network options) (yo_Address options) (yo_Facility options) (yo_Tag options)
               else syslog_Dial h [] [] (yo_Facility options) (yo_Tag options))
      in case r of Inl err \<Rightarrow> a\<lparr>ya_lastError := Some err\<rparr> | Inr wr \<Rightarrow> a\<lparr>ya_writer := Some wr\<rparr>)"

definition NewSyslogAdapter :: "syslog_host \<Rightarrow> 'e sys_formatter \<Rightarrow> string \<Rightarrow> 'e syslog_adapter" where
  "NewSyslogAdapter h text_formatter tag =
     NewSyslogAdapterWithOptions h text_formatter
       \<lparr>yo_Network = [], yo_Address = [], yo_Facility = LOG_LOCAL0, yo_Tag = tag, yo_Formatter = None\<rparr>"

definition level_severity :: "nat \<Rightarrow> severity" where
  "level_severity level =
     (if level = TraceLevel \<or> level = DebugLevel then LOG_DEBUG
      else if level = InfoLevel then LOG_INFO
      else if level = WarnLevel then LOG_WARNING
      else if level = ErrorLevel then LOG_ERR
      else if level = FatalLevel \<or> level = PanicLevel then LOG_CRIT
      else LOG_INFO)"

text \<open>\<open>None\<close> is the panic of a nil entry, whose level is read after the formatting.\<close>

definition ya_Write ::
  "syslog_host \<Rightarrow> 'a log_entry_scheme syslog_adapter \<Rightarrow> 'a log_entry_scheme option \<Rightarrow> syslog_net \<Rightarrow> (syslog_net \<times> string option) option" where
  "ya_Write h a entry n =
     (case ya_writer a of
        None \<Rightarrow>
          (case ya_lastError a of
             Some err \<Rightarrow> Some (n, Some (FormatErrorMsg ''syslog writer not initialized'' (Some err)))
           | None \<Rightarrow> Some (n, Some ''syslog writer not initialized''))
      | Some wr \<Rightarrow>
          let formatted = ya_formatter a entry [] in
          (case entry of
             None \<Rightarrow> None
           | Some e \<Rightarrow> Some (syslog_send h wr (level_severity (le_Level e)) formatted n)))"

definition ya_WriteZero ::
  "syslog_host \<Rightarrow> 'a log_entry_scheme syslog_adapter \<Rightarrow> 'a log_entry_scheme option \<Rightarrow> syslog_net \<Rightarrow> (syslog_net \<times> string option) option" where
  "ya_WriteZero h a entry n =
     (if entry = None then Some (n, Some ''cannot write nil entry'') else ya_Write h a entry n)"

definition ya_SetFormatter :: "'e sys_formatter option \<Rightarrow> 'e syslog_adapter \<Rightarrow> 'e syslog_adapter" where
  "ya_SetFormatter f a = (case f of None \<Rightarrow> a | Some f \<Rightarrow> a\<lparr>ya_formatter := f\<rparr>)"

definition ya_SetFacility :: "int \<Rightarrow> 'e syslog_adapter \<Rightarrow> 'e syslog_adapter" where
  "ya_SetFacility facility a = a\<lparr>ya_facility := facility\<rparr>"

definition ya_GetFacility :: "'e syslog_adapter \<Rightarrow> int" where
  "ya_GetFacility a = ya_facility a"

definition ya_SetTag :: "string \<Rightarrow> 'e syslog_adapter \<Rightarrow> 'e syslog_adapter" where
  "ya_SetTag tag a = a\<lparr>ya_tag := tag\<rparr>"

definition ya_GetTag :: "'e syslog_adapter \<Rightarrow> string" where
  "ya_GetTag a = ya_tag a"

definition ya_Health :: "'e syslog_adapter \<Rightarrow> string option" where
  "ya_Health a = (if ya_writer a = None then Some ''syslog writer not initialized'' else None)"

definition ya_Close :: "'e syslog_adapter \<Rightarrow> 'e syslog_adapter" where
  "ya_Close a = (if ya_writer a \<noteq> None then a\<lparr>ya_writer := None\<rparr> else a)"

text \<open>The sink that drops everything.\<close>

definition discard_Write :: "'e option \<Rightarrow> string option" where
  "discard_Write entry = None"

definition discard_WriteZero :: "'e option \<Rightarrow> string option" where
  "discard_WriteZero entry = None"

section \<open>One message a line\<close>

datatype 'a syslog_call = YWrite "'a log_entry_scheme" | YSetFormatter "'a log_entry_scheme sys_formatter option"
  | YSetFacility int | YSetTag string | YClose

fun syslog_do :: "syslog_host \<Rightarrow> 'a log_entry_scheme syslog_adapter \<times> syslog_net \<Rightarrow> 'a syslog_call \<Rightarrow> 'a log_entry_scheme syslog_adapter \<times> syslog_net" where
  "syslog_do h (a, n) (YWrite e) = (a, case ya_Write h a (Some e) n of None \<Rightarrow> n | Some (n, _) \<Rightarrow> n)"
| "syslog_do h (a, n) (YSetFormatter f) = (ya_SetFormatter f a, n)"
| "syslog_do h (a, n) (YSetFacility x) = (ya_SetFacility x a, n)"
| "syslog_do h (a, n) (YSetTag t) = (ya_SetTag t a, n)"
| "syslog_do h (a, n) YClose = (ya_Close a, n)"

text \<open>
  The reference: the formatter in force, whether the sink is open, how many messages have been tried and what the log
  holds; facility and tag are those of the construction throughout.
\<close>

fun syslog_spec ::
  "syslog_host \<Rightarrow> int \<Rightarrow> string \<Rightarrow> 'a syslog_call list \<Rightarrow> 'a log_entry_scheme sys_formatter \<Rightarrow> nat \<Rightarrow> syslog_message list" where
  "syslog_spec h facility tag [] f k = []"
| "syslog_spec h facility tag (YWrite e # cs) f k =
     (case yh_send h k of
        None \<Rightarrow> [\<lparr>ym_priority = facility div 8 * 8 + severity_code (level_severity (le_Level e)), ym_tag = tag, ym_text = f (Some e) []\<rparr>]
      | Some _ \<Rightarrow> []) @ syslog_spec h facility tag cs f (k + 1)"
| "syslog_spec h facility tag (YSetFormatter g # cs) f k = syslog_spec h facility tag cs (case g of None \<Rightarrow> f | Some g \<Rightarrow> g) k"
| "syslog_spec h facility tag (YClose # cs) f k = []"
| "syslog_spec h facility tag (_ # cs) f k = syslog_spec h facility tag cs f k"

lemma closed_syslog_silent:
  "ya_writer a = None \<Longrightarrow> snd (foldl (syslog_do h) (a, n) cs) = n"
proof (induction cs arbitrary: a)
  case (Cons c cs)
  then show ?case
    by (cases c) (simp_all add: ya_Write_def ya_SetFormatter_def ya_SetFacility_def ya_SetTag_def ya_Close_def split: option.split)
qed simp

lemma open_syslog_spec:
  "ya_writer a = Some \<lparr>yw_priority = facility, yw_tag = tag\<rparr> \<Longrightarrow>
     yn_messages (snd (foldl (syslog_do h) (a, n) cs)) =
       yn_messages n @ syslog_spec h facility tag cs (ya_formatter a) (yn_attempts n)"
proof (induction cs arbitrary: a n)
  case (Cons c cs)
  show ?case
  proof (cases c)
    case (YWrite e)
    then show ?thesis using Cons by (cases "yh_send h (yn_attempts n)") (simp_all add: ya_Write_def syslog_send_def Let_def)
  next
    case (YSetFormatter g)
    then show ?thesis using Cons by (cases g) (simp_all add: ya_SetFormatter_def)
  next
    case YClose
    then show ?thesis using Cons.prems by (simp add: ya_Close_def closed_syslog_silent)
  qed (use Cons in \<open>simp_all add: ya_SetFacility_def ya_SetTag_def\<close>)
qed simp

text \<open>
  A sink that could be opened sends one message for every entry written until it is closed, in order, with the text
  its formatter gives and the severity of its level, except those the system refuses. Facility and tag are the ones given at
  the construction for good: changing them later changes no message.
\<close>

theorem syslog_messages_exact:
  assumes "ya_writer (NewSyslogAdapterWithOptions h tf options) = Some wr"
  shows "yn_messages (snd (foldl (syslog_do h) (NewSyslogAdapterWithOptions h tf options, \<lparr>yn_messages = [], yn_attempts = 0\<rparr>) calls)) =
    syslog_spec h (yo_Facility options) (if yo_Tag options = [] then yh_program h else yo_Tag options) calls
      (case yo_Formatter options of None \<Rightarrow> tf | Some f \<Rightarrow> f) 0"
proof -
  let ?a = "NewSyslogAdapterWithOptions h tf options"
  have w: "ya_writer ?a = Some \<lparr>yw_priority = yo_Facility options, yw_tag = (if yo_Tag options = [] then yh_program h else yo_Tag options)\<rparr>"
    using assms by (auto simp: NewSyslogAdapterWithOptions_def syslog_Dial_def Let_def split: if_splits option.splits)
  have "ya_formatter ?a = (case yo_Formatter options of None \<Rightarrow> tf | Some f \<Rightarrow> f)"
    by (simp add: NewSyslogAdapterWithOptions_def Let_def split: sum.split)
  with open_syslog_spec [OF w, of h "\<lparr>yn_messages = [], yn_attempts = 0\<rparr>" calls] show ?thesis by simp
qed

definition demo_host :: syslog_host where
  "demo_host = \<lparr>yh_program = ''app'', yh_connect = (\<lambda>_ _. None), yh_send = (\<lambda>_. None)\<rparr>"

definition demo_syslog_options :: "'e syslog_options" where
  "demo_syslog_options = \<lparr>yo_Network = [], yo_Address = [], yo_Facility = LOG_LOCAL0, yo_Tag = ''shop'', yo_Formatter = None\<rparr>"

definition demo_log_entry :: log_entry where
  "demo_log_entry = \<lparr>le_Timestamp = None, le_TimestampUnix = 0, le_Level = ErrorLevel, le_Message = ''down'', le_File = [],
     le_Line = 0, le_Fields = [], le_StaticFields = [], le_StaticFieldCount = 0\<rparr>"

definition shouting :: "log_entry sys_formatter" where
  "shouting e dst = (case e of None \<Rightarrow> dst | Some e \<Rightarrow> dst @ le_Message e @ ''!'')"

theorem syslog_messages_exact_witness:
  "yn_messages (snd (foldl (syslog_do demo_host)
      (NewSyslogAdapterWithOptions demo_host shouting demo_syslog_options, \<lparr>yn_messages = [], yn_attempts = 0\<rparr>)
      [YSetTag ''other'', YSetFacility 8, YWrite demo_log_entry, YClose, YWrite demo_log_entry])) =
   [\<lparr>ym_priority = 131, ym_tag = ''shop'', ym_text = ''down!''\<rparr>]"
proof -
  have "ya_writer (NewSyslogAdapterWithOptions demo_host shouting demo_syslog_options) = Some \<lparr>yw_priority = LOG_LOCAL0, yw_tag = ''shop''\<rparr>"
    by (simp add: NewSyslogAdapterWithOptions_def demo_syslog_options_def demo_host_def syslog_Dial_def LOG_LOCAL0_def LOG_LOCAL7_def Let_def)
  then show ?thesis
    unfolding syslog_messages_exact [OF \<open>ya_writer _ = _\<close>]
    by (simp add: demo_syslog_options_def demo_host_def level_severity_def level_defs demo_log_entry_def shouting_def LOG_LOCAL0_def)
qed

text \<open>A sink that could not be opened reports the reason with every write.\<close>

lemma syslog_open_error_reported:
  "ya_writer a = None \<Longrightarrow> ya_lastError a = Some err \<Longrightarrow>
     ya_Write h a e n = Some (n, Some (''syslog writer not initialized: '' @ err))"
  by (simp add: ya_Write_def FormatErrorMsg_def)

lemma syslog_nil_entry_panics: "ya_writer a = Some wr \<Longrightarrow> ya_Write h a None n = None"
  by (simp add: ya_Write_def Let_def)

end
