(* ===== verification/Race_Prevention.thy ===== *)
theory Race_Prevention
  imports Log_Entry
begin

text \<open>
  The race prevention layer (\<^verbatim>\<open>race/race.go\<close>): two detectors, the states it keeps per thread, and the guarded
  accesses.

  Every reading of the clock is a value of its own: \<open>ck n\<close> is the \<open>n\<close>-th reading, and the state counts them.
  A pointer is an address, paired with what it points to where that is read; thread states are addressed by
  their position in \<open>rp_heap\<close>. The pool of thread states is never given anything back, so what counts is whether it has a
  constructor. Each operation is modelled as one step, except \<open>SafePipelineTransition\<close>, whose load and
  compare-and-swap are two. \<open>None\<close> is a panic.
\<close>

section \<open>Detectors\<close>

record access_record =
  ar_ThreadID :: u64
  ar_Timestamp :: int
  ar_Operation :: string

record basic_detector =
  bd_accesses :: "nat \<rightharpoonup> access_record list"
  bd_raceCount :: u64

record order_detector =
  od_violations :: u64
  od_barriers :: "nat \<rightharpoonup> int"

datatype race_detector = BasicRaceDetector basic_detector | MemoryOrderDetector order_detector

definition NewBasicRaceDetector :: race_detector where
  "NewBasicRaceDetector = BasicRaceDetector \<lparr>bd_accesses = Map.empty, bd_raceCount = 0\<rparr>"

definition NewMemoryOrderDetector :: race_detector where
  "NewMemoryOrderDetector = MemoryOrderDetector \<lparr>od_violations = 0, od_barriers = Map.empty\<rparr>"

definition conflict :: "string \<Rightarrow> string \<Rightarrow> bool" where
  "conflict op old \<longleftrightarrow> (op = ''write'' \<and> old = ''write'') \<or> (op = ''read'' \<and> old = ''write'') \<or> (op = ''write'' \<and> old = ''read'')"

definition basic_CheckRace :: "u64 \<Rightarrow> string \<Rightarrow> nat \<Rightarrow> basic_detector \<Rightarrow> basic_detector \<times> bool" where
  "basic_CheckRace threadID op p d =
     (case bd_accesses d p of
        None \<Rightarrow> (d, False)
      | Some rs \<Rightarrow>
          if list_ex (\<lambda>r. ar_ThreadID r \<noteq> threadID \<and> conflict op (ar_Operation r)) rs
          then (d\<lparr>bd_raceCount := bd_raceCount d + 1\<rparr>, True) else (d, False))"

definition basic_RecordAccess :: "(nat \<Rightarrow> int) \<Rightarrow> u64 \<Rightarrow> string \<Rightarrow> nat \<Rightarrow> basic_detector \<Rightarrow> nat \<Rightarrow> basic_detector \<times> nat" where
  "basic_RecordAccess ck threadID op p d tick =
     (let r = \<lparr>ar_ThreadID = threadID, ar_Timestamp = ck tick, ar_Operation = op\<rparr>
      in (d\<lparr>bd_accesses := (bd_accesses d)(p \<mapsto> (case bd_accesses d p of None \<Rightarrow> [r] | Some rs \<Rightarrow> rs @ [r]))\<rparr>, tick + 1))"

definition order_CheckRace :: "(nat \<Rightarrow> int) \<Rightarrow> nat \<Rightarrow> order_detector \<Rightarrow> nat \<Rightarrow> order_detector \<times> nat \<times> bool" where
  "order_CheckRace ck p d tick =
     (case od_barriers d p of
        None \<Rightarrow> (d, tick, False)
      | Some t \<Rightarrow> if ck tick < t then (d\<lparr>od_violations := od_violations d + 1\<rparr>, tick + 1, True) else (d, tick + 1, False))"

definition order_RecordAccess :: "(nat \<Rightarrow> int) \<Rightarrow> string \<Rightarrow> nat \<Rightarrow> order_detector \<Rightarrow> nat \<Rightarrow> order_detector \<times> nat" where
  "order_RecordAccess ck op p d tick =
     (if op = ''barrier'' then (d\<lparr>od_barriers := (od_barriers d)(p \<mapsto> ck tick)\<rparr>, tick + 1) else (d, tick))"

fun CheckRace :: "(nat \<Rightarrow> int) \<Rightarrow> u64 \<Rightarrow> string \<Rightarrow> nat \<Rightarrow> race_detector \<Rightarrow> nat \<Rightarrow> race_detector \<times> nat \<times> bool" where
  "CheckRace ck threadID op p (BasicRaceDetector d) tick =
     (case basic_CheckRace threadID op p d of (d, r) \<Rightarrow> (BasicRaceDetector d, tick, r))"
| "CheckRace ck threadID op p (MemoryOrderDetector d) tick =
     (case order_CheckRace ck p d tick of (d, tick, r) \<Rightarrow> (MemoryOrderDetector d, tick, r))"

fun RecordAccess :: "(nat \<Rightarrow> int) \<Rightarrow> u64 \<Rightarrow> string \<Rightarrow> nat \<Rightarrow> race_detector \<Rightarrow> nat \<Rightarrow> race_detector \<times> nat" where
  "RecordAccess ck threadID op p (BasicRaceDetector d) tick =
     (case basic_RecordAccess ck threadID op p d tick of (d, tick) \<Rightarrow> (BasicRaceDetector d, tick))"
| "RecordAccess ck threadID op p (MemoryOrderDetector d) tick =
     (case order_RecordAccess ck op p d tick of (d, tick) \<Rightarrow> (MemoryOrderDetector d, tick))"


fun detector_Reset :: "race_detector \<Rightarrow> race_detector" where
  "detector_Reset (BasicRaceDetector d) = BasicRaceDetector (d\<lparr>bd_accesses := Map.empty, bd_raceCount := 0\<rparr>)"
| "detector_Reset (MemoryOrderDetector d) = MemoryOrderDetector (d\<lparr>od_barriers := Map.empty, od_violations := 0\<rparr>)"

section \<open>The layer\<close>

record thread_state =
  ts_threadID :: u64
  ts_lastWrite :: int
  ts_lastRead :: int
  ts_accessCount :: u64
  ts_writeCount :: u64
  ts_readCount :: u64

record race_prevention =
  rp_state :: u64
  rp_version :: u64
  rp_lastAccess :: int
  rp_writeBarrier :: bool
  rp_readBarrier :: bool
  rp_tlsNew :: bool                     \<comment> \<open>the pool has a constructor\<close>
  rp_threads :: "(u64 \<times> nat) list"
  rp_heap :: "thread_state list"
  rp_detectors :: "race_detector list"
  rp_raceCount :: u64
  rp_syncOperations :: u64
  rp_lockFreeOps :: u64
  rp_barrierOps :: u64
  rp_tick :: nat

definition zero_prevention :: race_prevention where
  "zero_prevention = \<lparr>rp_state = 0, rp_version = 0, rp_lastAccess = 0, rp_writeBarrier = False, rp_readBarrier = False,
     rp_tlsNew = False, rp_threads = [], rp_heap = [], rp_detectors = [], rp_raceCount = 0, rp_syncOperations = 0,
     rp_lockFreeOps = 0, rp_barrierOps = 0, rp_tick = 0\<rparr>"

text \<open>The argument is the global instance.\<close>

definition InitializeRacePrevention :: "race_prevention option \<Rightarrow> race_prevention option" where
  "InitializeRacePrevention g =
     (if g \<noteq> None then g
      else Some (zero_prevention\<lparr>rp_detectors := [NewBasicRaceDetector, NewMemoryOrderDetector], rp_tlsNew := True\<rparr>))"

definition read_clock :: "(nat \<Rightarrow> int) \<Rightarrow> race_prevention \<Rightarrow> int \<times> race_prevention" where
  "read_clock ck rp = (ck (rp_tick rp), rp\<lparr>rp_tick := rp_tick rp + 1\<rparr>)"

definition routineID :: "(nat \<Rightarrow> int) \<Rightarrow> race_prevention \<Rightarrow> u64 \<times> race_prevention" where
  "routineID ck rp = (case read_clock ck rp of (t, rp) \<Rightarrow> (word_of_int t, rp))"

definition store_thread :: "u64 \<Rightarrow> nat \<Rightarrow> (u64 \<times> nat) list \<Rightarrow> (u64 \<times> nat) list" where
  "store_thread k r m = (k, r) # filter (\<lambda>x. fst x \<noteq> k) m"

definition getThreadState :: "(nat \<Rightarrow> int) \<Rightarrow> race_prevention \<Rightarrow> (nat \<times> race_prevention) option" where
  "getThreadState ck rp =
     (case routineID ck rp of (k, rp) \<Rightarrow>
        (case map_of (rp_threads rp) k of
           Some r \<Rightarrow> Some (r, rp)
         | None \<Rightarrow>
             if \<not> rp_tlsNew rp then None
             else (case read_clock ck rp of (t, rp) \<Rightarrow>
               let r = length (rp_heap rp);
                   ts = \<lparr>ts_threadID = word_of_int t, ts_lastWrite = 0, ts_lastRead = 0, ts_accessCount = 0,
                         ts_writeCount = 0, ts_readCount = 0\<rparr>;
                   rp = rp\<lparr>rp_heap := rp_heap rp @ [ts]\<rparr>
               in case routineID ck rp of (k, rp) \<Rightarrow> Some (r, rp\<lparr>rp_threads := store_thread k r (rp_threads rp)\<rparr>))))"

definition memoryBarrier :: "string \<Rightarrow> race_prevention \<Rightarrow> race_prevention" where
  "memoryBarrier op rp =
     (let rp = (if op = ''write'' then rp\<lparr>rp_writeBarrier := True\<rparr> else rp\<lparr>rp_readBarrier := True\<rparr>);
          rp = (if op = ''write'' then rp\<lparr>rp_writeBarrier := False\<rparr> else rp\<lparr>rp_readBarrier := False\<rparr>)
      in rp\<lparr>rp_barrierOps := rp_barrierOps rp + 1\<rparr>)"

fun check_detectors ::
  "(nat \<Rightarrow> int) \<Rightarrow> u64 \<Rightarrow> string \<Rightarrow> nat \<Rightarrow> race_detector list \<Rightarrow> nat \<Rightarrow> race_detector list \<times> nat \<times> bool" where
  "check_detectors ck threadID op p [] tick = ([], tick, False)"
| "check_detectors ck threadID op p (d # ds) tick =
     (case CheckRace ck threadID op p d tick of
        (d, tick, True) \<Rightarrow> (d # ds, tick, True)
      | (d, tick, False) \<Rightarrow> (case check_detectors ck threadID op p ds tick of (ds, tick, r) \<Rightarrow> (d # ds, tick, r)))"

definition detectRace :: "(nat \<Rightarrow> int) \<Rightarrow> u64 \<Rightarrow> string \<Rightarrow> nat \<Rightarrow> race_prevention \<Rightarrow> race_prevention \<times> bool" where
  "detectRace ck threadID op p rp =
     (case check_detectors ck threadID op p (rp_detectors rp) (rp_tick rp) of
        (ds, tick, r) \<Rightarrow> (rp\<lparr>rp_detectors := ds, rp_tick := tick\<rparr>, r))"

fun record_detectors ::
  "(nat \<Rightarrow> int) \<Rightarrow> u64 \<Rightarrow> string \<Rightarrow> nat \<Rightarrow> race_detector list \<Rightarrow> nat \<Rightarrow> race_detector list \<times> nat" where
  "record_detectors ck threadID op p [] tick = ([], tick)"
| "record_detectors ck threadID op p (d # ds) tick =
     (case RecordAccess ck threadID op p d tick of (d, tick) \<Rightarrow>
        (case record_detectors ck threadID op p ds tick of (ds, tick) \<Rightarrow> (d # ds, tick)))"

definition recordAccess :: "(nat \<Rightarrow> int) \<Rightarrow> u64 \<Rightarrow> string \<Rightarrow> nat \<Rightarrow> race_prevention \<Rightarrow> race_prevention" where
  "recordAccess ck threadID op p rp =
     (case record_detectors ck threadID op p (rp_detectors rp) (rp_tick rp) of
        (ds, tick) \<Rightarrow> rp\<lparr>rp_detectors := ds, rp_tick := tick\<rparr>)"

definition updateThreadState :: "(nat \<Rightarrow> int) \<Rightarrow> nat \<Rightarrow> string \<Rightarrow> race_prevention \<Rightarrow> race_prevention" where
  "updateThreadState ck r op rp =
     (case read_clock ck rp of (t, rp) \<Rightarrow>
        let ts = rp_heap rp ! r;
            ts = (if op = ''write'' then ts\<lparr>ts_lastWrite := t, ts_writeCount := ts_writeCount ts + 1\<rparr>
                  else ts\<lparr>ts_lastRead := t, ts_readCount := ts_readCount ts + 1\<rparr>);
            ts = ts\<lparr>ts_accessCount := ts_accessCount ts + 1\<rparr>
        in rp\<lparr>rp_heap := (rp_heap rp)[r := ts], rp_lastAccess := t\<rparr>)"

definition createDefensiveCopy :: "typed_field option \<Rightarrow> typed_field option" where
  "createDefensiveCopy f =
     (case f of
        None \<Rightarrow> None
      | Some f \<Rightarrow> Some \<lparr>tf_Key = tf_Key f, tf_KeyDesc = None, tf_Val = zero_value, tf_Value = tf_Value f\<rparr>)"

definition createDefensiveEntryCopy :: "'d full_entry option \<Rightarrow> 'd full_entry option" where
  "createDefensiveEntryCopy e = e"

section \<open>Guarded accesses\<close>

text \<open>
  The pointer an access returns: the one it was given, or a new one to a copy. A field pointer is its address,
  0 for \<open>nil\<close>, with the field behind it.
\<close>

datatype 'a access = Same | Copy "'a option"

definition SafeFieldAccess ::
  "(nat \<Rightarrow> int) \<Rightarrow> nat \<times> typed_field option \<Rightarrow> string \<Rightarrow> race_prevention option \<Rightarrow> (race_prevention option \<times> typed_field access) option" where
  "SafeFieldAccess ck fieldData op g =
     (case g of
        None \<Rightarrow> Some (None, Same)
      | Some rp \<Rightarrow>
          (case getThreadState ck rp of
             None \<Rightarrow> None
           | Some (r, rp) \<Rightarrow>
               let rp = memoryBarrier op rp; tid = ts_threadID (rp_heap rp ! r)
               in case detectRace ck tid op (fst fieldData) rp of
                    (rp, True) \<Rightarrow> Some (Some rp, Copy (createDefensiveCopy (snd fieldData)))
                  | (rp, False) \<Rightarrow>
                      let rp = recordAccess ck tid op (fst fieldData) rp;
                          rp = updateThreadState ck r op rp
                      in Some (Some (rp\<lparr>rp_syncOperations := rp_syncOperations rp + 1\<rparr>), Same)))"

definition SafeEntryPoolAccess ::
  "(nat \<Rightarrow> int) \<Rightarrow> nat \<times> 'd full_entry option \<Rightarrow> string \<Rightarrow> race_prevention option \<Rightarrow> (race_prevention option \<times> 'd full_entry access) option" where
  "SafeEntryPoolAccess ck e op g =
     (case g of
        None \<Rightarrow> Some (None, Same)
      | Some rp \<Rightarrow>
          (case getThreadState ck (memoryBarrier op rp) of
             None \<Rightarrow> None
           | Some (r, rp) \<Rightarrow>
               let tid = ts_threadID (rp_heap rp ! r)
               in case detectRace ck tid op (fst e) rp of
                    (rp, True) \<Rightarrow> Some (Some (rp\<lparr>rp_raceCount := rp_raceCount rp + 1\<rparr>), Copy (createDefensiveEntryCopy (snd e)))
                  | (rp, False) \<Rightarrow> Some (Some (updateThreadState ck r op (recordAccess ck tid op (fst e) rp)), Same)))"

text \<open>\<open>p\<close> is the address of the parameter, which escapes.\<close>

definition SafeStrategyAccess ::
  "(nat \<Rightarrow> int) \<Rightarrow> nat \<Rightarrow> string \<Rightarrow> race_prevention option \<Rightarrow> race_prevention option option" where
  "SafeStrategyAccess ck p op g =
     (case g of
        None \<Rightarrow> Some None
      | Some rp \<Rightarrow>
          (case getThreadState ck (memoryBarrier op rp) of
             None \<Rightarrow> None
           | Some (r, rp) \<Rightarrow>
               let rp = recordAccess ck (ts_threadID (rp_heap rp ! r)) op p rp;
                   rp = updateThreadState ck r op rp
               in Some (Some (rp\<lparr>rp_syncOperations := rp_syncOperations rp + 1\<rparr>))))"

definition SafePipelineExecution ::
  "(nat \<Rightarrow> int) \<Rightarrow> nat \<Rightarrow> string \<Rightarrow> race_prevention option \<Rightarrow> race_prevention option option" where
  "SafePipelineExecution ck p op g =
     (case g of
        None \<Rightarrow> Some None
      | Some rp \<Rightarrow>
          (case getThreadState ck (memoryBarrier op rp) of
             None \<Rightarrow> None
           | Some (r, rp) \<Rightarrow>
               let tid = ts_threadID (rp_heap rp ! r);
                   rp = (case detectRace ck tid op p rp of
                           (rp, True) \<Rightarrow> rp\<lparr>rp_raceCount := rp_raceCount rp + 1\<rparr>
                         | (rp, False) \<Rightarrow> rp);
                   rp = updateThreadState ck r op (recordAccess ck tid op p rp)
               in Some (Some (rp\<lparr>rp_syncOperations := rp_syncOperations rp + 1\<rparr>))))"

text \<open>A transition loads the state, and later compares and swaps.\<close>

definition transition_load :: "race_prevention \<Rightarrow> u64 \<times> race_prevention" where
  "transition_load rp = (rp_state rp, rp\<lparr>rp_writeBarrier := True\<rparr>)"

definition transition_swap :: "u64 \<Rightarrow> race_prevention \<Rightarrow> race_prevention \<times> bool" where
  "transition_swap currentState rp =
     (if rp_state rp = currentState
      then (rp\<lparr>rp_state := currentState + 1, rp_writeBarrier := False, rp_version := rp_version rp + 1,
               rp_lockFreeOps := rp_lockFreeOps rp + 1\<rparr>, True)
      else (rp, False))"

definition SafePipelineTransition :: "race_prevention option \<Rightarrow> race_prevention option \<times> bool" where
  "SafePipelineTransition g =
     (case g of
        None \<Rightarrow> (None, True)
      | Some rp \<Rightarrow> (case transition_load rp of (cur, rp) \<Rightarrow> (case transition_swap cur rp of (rp, ok) \<Rightarrow> (Some rp, ok))))"

definition SafeFieldAccessWithContext ::
  "(nat \<Rightarrow> int) \<Rightarrow> nat \<times> typed_field option \<Rightarrow> string \<Rightarrow> race_prevention option \<Rightarrow> (race_prevention option \<times> typed_field access) option" where
  "SafeFieldAccessWithContext ck fieldData op g = SafeFieldAccess ck fieldData op (InitializeRacePrevention g)"

definition SafePipelineTransitionWithContext :: "race_prevention option \<Rightarrow> race_prevention option \<times> bool" where
  "SafePipelineTransitionWithContext g = SafePipelineTransition (InitializeRacePrevention g)"

section \<open>Statistics, reset, registry\<close>




definition rp_Reset :: "race_prevention option \<Rightarrow> race_prevention option" where
  "rp_Reset g = map_option (\<lambda>rp. rp\<lparr>rp_detectors := map detector_Reset (rp_detectors rp), rp_threads := [], rp_raceCount := 0,
     rp_syncOperations := 0, rp_lockFreeOps := 0, rp_barrierOps := 0, rp_lastAccess := 0\<rparr>) g"

record strategy_registry =
  sg_strategies :: "u64 set"
  sg_count :: u64

definition RegisterStrategy :: "race_prevention option \<Rightarrow> u64 \<Rightarrow> strategy_registry \<Rightarrow> strategy_registry" where
  "RegisterStrategy g i sg =
     (case g of None \<Rightarrow> sg | Some _ \<Rightarrow> sg\<lparr>sg_strategies := insert i (sg_strategies sg), sg_count := sg_count sg + 1\<rparr>)"

definition UnregisterStrategy :: "race_prevention option \<Rightarrow> u64 \<Rightarrow> strategy_registry \<Rightarrow> strategy_registry" where
  "UnregisterStrategy g i sg =
     (case g of
        None \<Rightarrow> sg
      | Some _ \<Rightarrow>
          let sg = sg\<lparr>sg_strategies := sg_strategies sg - {i}\<rparr>
          in if sg_count sg > 0 then sg\<lparr>sg_count := sg_count sg + NOT 0\<rparr> else sg)"

definition GenerateStrategyID :: "(nat \<Rightarrow> int) \<Rightarrow> race_prevention option \<Rightarrow> race_prevention option \<times> u64" where
  "GenerateStrategyID ck g =
     (case g of
        None \<Rightarrow> (None, 0)
      | Some rp \<Rightarrow> (case read_clock ck rp of (t, rp) \<Rightarrow>
          (Some (rp\<lparr>rp_version := rp_version rp + 1\<rparr>), word_of_int t + (rp_version rp + 1))))"

section \<open>What the detectors compare\<close>

text \<open>A clock that moves between any two of its first \<open>N\<close> readings.\<close>

definition moving_clock :: "nat \<Rightarrow> (nat \<Rightarrow> int) \<Rightarrow> bool" where
  "moving_clock N ck \<longleftrightarrow> 0 \<le> ck 0 \<and> ck N < 2 ^ 63 \<and> (\<forall>i j. i < j \<longrightarrow> j \<le> N \<longrightarrow> ck i < ck j)"

definition reading_id :: "(nat \<Rightarrow> int) \<Rightarrow> nat \<Rightarrow> u64" where
  "reading_id ck i = word_of_int (ck i)"

lemma clock_range: "moving_clock N ck \<Longrightarrow> i \<le> N \<Longrightarrow> 0 \<le> ck i \<and> ck i < 2 ^ 63"
proof -
  assume ck: "moving_clock N ck" and i: "i \<le> N"
  have "ck 0 \<le> ck i" using ck i by (cases "i = 0") (auto simp: moving_clock_def intro: less_imp_le)
  moreover have "ck i \<le> ck N" using ck i by (cases "i = N") (auto simp: moving_clock_def intro: less_imp_le)
  ultimately show ?thesis using ck by (simp add: moving_clock_def)
qed

lemma clock_less: "moving_clock N ck \<Longrightarrow> i < j \<Longrightarrow> j \<le> N \<Longrightarrow> ck i < ck j"
  by (simp add: moving_clock_def)

lemma reading_id_fresh:
  assumes "moving_clock N ck" and "i < j" and "j \<le> N"
  shows "reading_id ck i \<noteq> reading_id ck j"
proof -
  have "uint (reading_id ck k) = ck k" if "k \<le> N" for k
    using clock_range [OF assms(1) that] by (simp add: reading_id_def uint_word_of_int)
  from this [of i] this [of j] clock_less [OF assms] assms(2,3) show ?thesis by auto
qed

definition records_at :: "basic_detector \<Rightarrow> nat \<Rightarrow> access_record list" where
  "records_at b p = (case bd_accesses b p of None \<Rightarrow> [] | Some rs \<Rightarrow> rs)"

definition stamped :: "(nat \<Rightarrow> int) \<Rightarrow> nat \<Rightarrow> basic_detector \<Rightarrow> order_detector \<Rightarrow> (u64 \<times> nat) list \<Rightarrow> bool" where
  "stamped ck n b m threads \<longleftrightarrow>
     (\<forall>p. list_all (\<lambda>r. \<exists>i<n. ar_ThreadID r = reading_id ck i) (records_at b p)) \<and>
     (\<forall>p t. od_barriers m p = Some t \<longrightarrow> (\<exists>i<n. t = ck i)) \<and>
     list_all (\<lambda>k. \<exists>i<n. fst k = reading_id ck i) threads"

definition recorded :: "basic_detector \<Rightarrow> (nat \<times> string) list \<Rightarrow> bool" where
  "recorded b hist \<longleftrightarrow> (\<forall>p. map ar_Operation (records_at b p) = map snd (filter (\<lambda>h. fst h = p) hist))"

definition race_inv :: "(nat \<Rightarrow> int) \<Rightarrow> (nat \<times> string) list \<Rightarrow> race_prevention \<Rightarrow> bool" where
  "race_inv ck hist rp \<longleftrightarrow> rp_tlsNew rp \<and> (\<exists>b m. rp_detectors rp = [BasicRaceDetector b, MemoryOrderDetector m] \<and>
     recorded b hist \<and> stamped ck (rp_tick rp) b m (rp_threads rp))"

definition raced :: "(nat \<times> string) list \<Rightarrow> nat \<Rightarrow> string \<Rightarrow> bool" where
  "raced hist p op \<longleftrightarrow> list_ex (\<lambda>(q, old). q = p \<and> conflict op old) hist"

lemma stamped_mono: "stamped ck n b m ts \<Longrightarrow> n \<le> n' \<Longrightarrow> stamped ck n' b m ts"
  unfolding stamped_def list_all_iff by (meson less_le_trans)

lemma new_thread:
  assumes "moving_clock N ck" and "stamped ck (rp_tick rp) b m (rp_threads rp)" and "rp_tlsNew rp" and "rp_tick rp + 2 \<le> N"
  shows "getThreadState ck rp = Some (length (rp_heap rp),
     rp\<lparr>rp_heap := rp_heap rp @ [\<lparr>ts_threadID = reading_id ck (rp_tick rp + 1), ts_lastWrite = 0, ts_lastRead = 0, ts_accessCount = 0,
          ts_writeCount = 0, ts_readCount = 0\<rparr>],
        rp_threads := (reading_id ck (rp_tick rp + 2), length (rp_heap rp)) # rp_threads rp, rp_tick := rp_tick rp + 3\<rparr>)"
proof -
  have fresh: "k \<noteq> reading_id ck j" if "k \<in> fst ` set (rp_threads rp)" "rp_tick rp \<le> j" "j \<le> N" for k j
  proof -
    from that(1) assms(2) obtain i where "i < rp_tick rp" "k = reading_id ck i" by (auto simp: stamped_def list_all_iff)
    then show ?thesis using reading_id_fresh [OF assms(1), of i j] that(2,3) by simp
  qed
  have none: "map_of (rp_threads rp) (reading_id ck (rp_tick rp)) = None"
    using fresh [of _ "rp_tick rp"] assms(4) by (fastforce simp: map_of_eq_None_iff)
  have keep: "filter (\<lambda>x. fst x \<noteq> reading_id ck (rp_tick rp + 2)) (rp_threads rp) = rp_threads rp"
    using fresh [of _ "rp_tick rp + 2"] assms(4) by (force simp: filter_id_conv)
  show ?thesis
    using none keep assms(3)
    by (simp add: getThreadState_def routineID_def read_clock_def store_thread_def reading_id_def Let_def numeral_3_eq_3 numeral_2_eq_2)
qed

lemma basic_check:
  assumes "moving_clock N ck" and "stamped ck n b m ts" and "recorded b hist" and "n \<le> j" and "j \<le> N"
  shows "snd (basic_CheckRace (reading_id ck j) op p b) \<longleftrightarrow> raced hist p op"
    and "records_at (fst (basic_CheckRace (reading_id ck j) op p b)) = records_at b"
proof -
  have "ar_ThreadID r \<noteq> reading_id ck j" if "r \<in> set (records_at b p)" for r
  proof -
    from that assms(2) obtain i where "i < n" "ar_ThreadID r = reading_id ck i" unfolding stamped_def list_all_iff by blast
    then show ?thesis using reading_id_fresh [OF assms(1), of i j] assms(4,5) by simp
  qed
  then have "list_ex (\<lambda>r. ar_ThreadID r \<noteq> reading_id ck j \<and> conflict op (ar_Operation r)) (records_at b p) \<longleftrightarrow>
      list_ex (conflict op) (map ar_Operation (records_at b p))" by (auto simp: list_ex_iff)
  also have "\<dots> \<longleftrightarrow> raced hist p op" using assms(3) by (auto simp: recorded_def raced_def list_ex_iff)
  finally show "snd (basic_CheckRace (reading_id ck j) op p b) \<longleftrightarrow> raced hist p op"
    by (auto simp: basic_CheckRace_def records_at_def split: option.splits if_splits)
  show "records_at (fst (basic_CheckRace (reading_id ck j) op p b)) = records_at b"
    by (auto simp: basic_CheckRace_def records_at_def fun_eq_iff split: option.splits if_splits)
qed

lemma order_check:
  assumes "moving_clock N ck" and "stamped ck n b m ts" and "n \<le> j" and "j \<le> N"
  shows "order_CheckRace ck p m j = (m, if od_barriers m p = None then j else j + 1, False)"
proof (cases "od_barriers m p")
  case (Some t)
  with assms(2) obtain i where "i < n" "t = ck i" unfolding stamped_def by blast
  then have "\<not> ck j < t" using clock_less [OF assms(1), of i j] assms(3,4) by simp
  with Some show ?thesis by (simp add: order_CheckRace_def)
qed (simp add: order_CheckRace_def)

lemma basic_record:
  assumes "recorded b hist" and "stamped ck n b m ts" and "j < n"
  shows "recorded (fst (basic_RecordAccess ck (reading_id ck j) op p b k)) (hist @ [(p, op)])"
    and "stamped ck n (fst (basic_RecordAccess ck (reading_id ck j) op p b k)) m ts"
proof -
  have r: "records_at (fst (basic_RecordAccess ck (reading_id ck j) op p b k)) q =
      (if q = p then records_at b p @ [\<lparr>ar_ThreadID = reading_id ck j, ar_Timestamp = ck k, ar_Operation = op\<rparr>] else records_at b q)" for q
    by (simp add: basic_RecordAccess_def records_at_def Let_def split: option.split)
  show "recorded (fst (basic_RecordAccess ck (reading_id ck j) op p b k)) (hist @ [(p, op)])"
    using assms(1) by (simp add: recorded_def r)
  show "stamped ck n (fst (basic_RecordAccess ck (reading_id ck j) op p b k)) m ts"
    using assms(2,3) by (auto simp: stamped_def r list_all_iff)
qed

lemma order_record:
  assumes "stamped ck n b m ts" and "k < n"
  shows "stamped ck n b (fst (order_RecordAccess ck op p m k)) ts"
  using assms by (auto simp: stamped_def order_RecordAccess_def)

text \<open>One guarded access, from a state whose detectors have recorded \<open>hist\<close>.\<close>

lemma memoryBarrier_parts [simp]:
  "rp_detectors (memoryBarrier op rp) = rp_detectors rp" "rp_tick (memoryBarrier op rp) = rp_tick rp"
  "rp_threads (memoryBarrier op rp) = rp_threads rp" "rp_heap (memoryBarrier op rp) = rp_heap rp"
  "rp_tlsNew (memoryBarrier op rp) = rp_tlsNew rp"
  by (simp_all add: memoryBarrier_def Let_def)

lemma updateThreadState_parts [simp]:
  "rp_detectors (updateThreadState ck r op rp) = rp_detectors rp" "rp_tick (updateThreadState ck r op rp) = rp_tick rp + 1"
  "rp_threads (updateThreadState ck r op rp) = rp_threads rp" "rp_tlsNew (updateThreadState ck r op rp) = rp_tlsNew rp"
  by (simp_all add: updateThreadState_def read_clock_def Let_def)

lemma detect_two:
  assumes "moving_clock N ck" and "rp_detectors rp = [BasicRaceDetector b, MemoryOrderDetector m]"
    and "stamped ck n b m ts" and "recorded b hist" and "n \<le> j" and "j \<le> N" and "n \<le> rp_tick rp" and "rp_tick rp \<le> N"
  shows "\<exists>b' t. detectRace ck (reading_id ck j) op p rp =
      (rp\<lparr>rp_detectors := [BasicRaceDetector b', MemoryOrderDetector m], rp_tick := t\<rparr>, raced hist p op)
    \<and> records_at b' = records_at b \<and> rp_tick rp \<le> t \<and> t \<le> rp_tick rp + 1"
proof -
  obtain b' r where b: "basic_CheckRace (reading_id ck j) op p b = (b', r)" by fastforce
  with basic_check [OF assms(1,3,4,5,6), of op p] have br: "r = raced hist p op" "records_at b' = records_at b" by simp_all
  note o = order_check [OF assms(1,3,7,8), of p]
  show ?thesis
  proof (cases "raced hist p op")
    case True
    then show ?thesis using br by (intro exI [of _ b'] exI [of _ "rp_tick rp"]) (simp add: detectRace_def assms(2) b)
  next
    case False
    then show ?thesis using br
      by (intro exI [of _ b'] exI [of _ "if od_barriers m p = None then rp_tick rp else rp_tick rp + 1"])
        (simp add: detectRace_def assms(2) b o)
  qed
qed

lemma record_two:
  assumes "rp_detectors rp = [BasicRaceDetector b, MemoryOrderDetector m]" and "stamped ck (rp_tick rp) b m (rp_threads rp)"
    and "recorded b hist" and "j < rp_tick rp"
  shows "\<exists>b' m' t. recordAccess ck (reading_id ck j) op p rp =
      rp\<lparr>rp_detectors := [BasicRaceDetector b', MemoryOrderDetector m'], rp_tick := t\<rparr>
    \<and> recorded b' (hist @ [(p, op)]) \<and> stamped ck t b' m' (rp_threads rp) \<and> rp_tick rp < t \<and> t \<le> rp_tick rp + 2"
proof -
  let ?k = "rp_tick rp"
  obtain b' k1 where b: "basic_RecordAccess ck (reading_id ck j) op p b ?k = (b', k1)" by fastforce
  then have k1: "k1 = ?k + 1" by (auto simp: basic_RecordAccess_def Let_def)
  obtain m' t where m: "order_RecordAccess ck op p m k1 = (m', t)" by fastforce
  then have t: "k1 \<le> t" "t \<le> k1 + 1" by (auto simp: order_RecordAccess_def split: if_splits)
  have same: "t = k1 \<Longrightarrow> m' = m" using m by (auto simp: order_RecordAccess_def split: if_splits)
  have s: "recorded b' (hist @ [(p, op)])" "stamped ck ?k b' m (rp_threads rp)"
    using basic_record [OF assms(3,2,4), of op p ?k] b by simp_all
  have "stamped ck t b' m' (rp_threads rp)"
  proof (cases "t = k1")
    case True
    then show ?thesis using same stamped_mono [OF s(2), of t] t k1 by simp
  next
    case False
    then have "k1 < t" using t by simp
    then show ?thesis using order_record [OF stamped_mono [OF s(2), of t], of k1 op p] m k1 by simp
  qed
  then show ?thesis using s t k1
    by (intro exI [of _ b'] exI [of _ m'] exI [of _ t]) (simp add: recordAccess_def assms(1) b m [unfolded k1, simplified] k1)
qed

lemma guarded_access:
  assumes "moving_clock N ck" and "race_inv ck hist rp" and "rp_tick rp + 8 \<le> N"
  shows "\<exists>rp'. SafeFieldAccess ck (p, f) op (Some rp) =
      Some (Some rp', if raced hist p op then Copy (createDefensiveCopy f) else Same)
    \<and> race_inv ck (if raced hist p op then hist else hist @ [(p, op)]) rp' \<and> rp_tick rp' \<le> rp_tick rp + 8
    \<and> length (rp_threads rp') = length (rp_threads rp) + 1"
proof -
  from assms(2) obtain b m where d: "rp_detectors rp = [BasicRaceDetector b, MemoryOrderDetector m]" "recorded b hist"
    "stamped ck (rp_tick rp) b m (rp_threads rp)" "rp_tlsNew rp" by (auto simp: race_inv_def)
  let ?n = "rp_tick rp"
  define j where "j = ?n + 1"
  have j: "?n \<le> j" "j \<le> N" "j < ?n + 3" using assms(3) by (simp_all add: j_def)
  define rp1 where "rp1 = rp\<lparr>rp_heap := rp_heap rp @ [\<lparr>ts_threadID = reading_id ck j, ts_lastWrite = 0, ts_lastRead = 0,
      ts_accessCount = 0, ts_writeCount = 0, ts_readCount = 0\<rparr>],
    rp_threads := (reading_id ck (?n + 2), length (rp_heap rp)) # rp_threads rp, rp_tick := ?n + 3\<rparr>"
  have gt: "getThreadState ck rp = Some (length (rp_heap rp), rp1)"
    unfolding rp1_def j_def using new_thread [OF assms(1) d(3,4)] assms(3) by simp
  define rp2 where "rp2 = memoryBarrier op rp1"
  have r2: "rp_detectors rp2 = [BasicRaceDetector b, MemoryOrderDetector m]" "rp_tick rp2 = ?n + 3"
    "rp_threads rp2 = (reading_id ck (?n + 2), length (rp_heap rp)) # rp_threads rp" "rp_tlsNew rp2"
    "ts_threadID (rp_heap rp1 ! length (rp_heap rp)) = reading_id ck j"
    by (simp_all add: rp2_def rp1_def d)
  obtain b' t where dt: "detectRace ck (reading_id ck j) op p rp2 =
      (rp2\<lparr>rp_detectors := [BasicRaceDetector b', MemoryOrderDetector m], rp_tick := t\<rparr>, raced hist p op)"
    "records_at b' = records_at b" "?n + 3 \<le> t" "t \<le> ?n + 4"
    using detect_two [OF assms(1) r2(1) d(3,2), of j op p] assms(3) r2(2) j by auto
  define rp3 where "rp3 = rp2\<lparr>rp_detectors := [BasicRaceDetector b', MemoryOrderDetector m], rp_tick := t\<rparr>"
  have "\<exists>i<t. reading_id ck (?n + 2) = reading_id ck i" using dt(3) by (intro exI [of _ "?n + 2"]) simp
  moreover have "stamped ck t b m (rp_threads rp)" using stamped_mono [OF d(3), of t] dt(3) by simp
  ultimately have st: "stamped ck t b' m (rp_threads rp3)"
    by (simp add: stamped_def dt(2) rp3_def r2(3))
  have rc: "recorded b' hist" using d(2) by (simp add: recorded_def dt(2))
  note def = SafeFieldAccess_def gt rp2_def [symmetric] r2(5) dt(1) Let_def
  show ?thesis
  proof (cases "raced hist p op")
    case True
    have "race_inv ck hist rp3" using st rc by (simp add: race_inv_def rp3_def r2(4))
    with True dt(4) show ?thesis by (intro exI [of _ rp3]) (simp add: def, simp add: rp3_def r2(3))
  next
    case False
    have r3: "rp_detectors rp3 = [BasicRaceDetector b', MemoryOrderDetector m]" "rp_tick rp3 = t" "rp_tlsNew rp3"
      by (simp_all add: rp3_def r2(4))
    obtain b2 m2 t2 where ra: "recordAccess ck (reading_id ck j) op p rp3 =
        rp3\<lparr>rp_detectors := [BasicRaceDetector b2, MemoryOrderDetector m2], rp_tick := t2\<rparr>"
      "recorded b2 (hist @ [(p, op)])" "stamped ck t2 b2 m2 (rp_threads rp3)" "t2 \<le> t + 2"
      using record_two [OF r3(1) st [folded r3(2)] rc, of j op p] dt(3) r3(2) j by auto
    let ?rp4 = "updateThreadState ck (length (rp_heap rp)) op (recordAccess ck (reading_id ck j) op p rp3)"
    have "race_inv ck (hist @ [(p, op)]) (?rp4\<lparr>rp_syncOperations := rp_syncOperations ?rp4 + 1\<rparr>)"
      using ra(2) stamped_mono [OF ra(3), of "t2 + 1"] r3(3) by (simp add: race_inv_def ra(1))
    moreover have "rp_tick ?rp4 \<le> ?n + 8" "length (rp_threads ?rp4) = length (rp_threads rp) + 1"
      using ra(4) dt(4) by (simp_all add: ra(1)) (simp add: rp3_def r2(3))
    ultimately show ?thesis using False
      by (intro exI [of _ "?rp4\<lparr>rp_syncOperations := rp_syncOperations ?rp4 + 1\<rparr>"]) (simp add: def Let_def flip: rp3_def)
  qed
qed

section \<open>Sequences of accesses\<close>

text \<open>An access of a field at an address; the goroutine is not an argument, since the code never learns it.\<close>

type_synonym field_access = "(nat \<times> typed_field option) \<times> string"

fun run_accesses ::
  "(nat \<Rightarrow> int) \<Rightarrow> race_prevention option \<Rightarrow> field_access list \<Rightarrow> (race_prevention option \<times> typed_field access list) option" where
  "run_accesses ck g [] = Some (g, [])"
| "run_accesses ck g ((fd, op) # calls) =
     (case SafeFieldAccess ck fd op g of
        None \<Rightarrow> None
      | Some (g, r) \<Rightarrow> map_option (\<lambda>(g, rs). (g, r # rs)) (run_accesses ck g calls))"

text \<open>The reference: an access is a race if an earlier one that was not, by whomever, conflicts with it.\<close>

fun race_reference :: "(nat \<times> string) list \<Rightarrow> field_access list \<Rightarrow> typed_field access list" where
  "race_reference hist [] = []"
| "race_reference hist (((p, f), op) # calls) =
     (if raced hist p op then Copy (createDefensiveCopy f) # race_reference hist calls
      else Same # race_reference (hist @ [(p, op)]) calls)"

lemma run_accesses_reference:
  assumes "moving_clock N ck" and "race_inv ck hist rp" and "rp_tick rp + 8 * length calls \<le> N"
  shows "\<exists>rp'. run_accesses ck (Some rp) calls = Some (Some rp', race_reference hist calls)
    \<and> length (rp_threads rp') = length (rp_threads rp) + length calls"
  using assms(2,3)
proof (induction calls arbitrary: hist rp)
  case (Cons c calls)
  obtain p f op where c: "c = ((p, f), op)" by (metis prod.collapse)
  from guarded_access [OF assms(1) Cons.prems(1), of p f op] Cons.prems(2) obtain rp1 where g:
    "SafeFieldAccess ck (p, f) op (Some rp) = Some (Some rp1, if raced hist p op then Copy (createDefensiveCopy f) else Same)"
    "race_inv ck (if raced hist p op then hist else hist @ [(p, op)]) rp1" "rp_tick rp1 \<le> rp_tick rp + 8"
    "length (rp_threads rp1) = length (rp_threads rp) + 1" by auto
  with Cons.IH [OF g(2)] Cons.prems(2) obtain rp2 where
    "run_accesses ck (Some rp1) calls = Some (Some rp2, race_reference (if raced hist p op then hist else hist @ [(p, op)]) calls)"
    "length (rp_threads rp2) = length (rp_threads rp1) + length calls" by auto
  with g show ?case by (auto simp: c)
qed simp

lemma race_inv_init: "InitializeRacePrevention None = Some rp \<Longrightarrow> race_inv ck [] rp \<and> rp_tick rp = 0 \<and> rp_threads rp = []"
  by (auto simp: InitializeRacePrevention_def race_inv_def zero_prevention_def NewBasicRaceDetector_def
      NewMemoryOrderDetector_def recorded_def stamped_def records_at_def)


lemma counting_clock: "moving_clock 100 (\<lambda>n. int n)"
  by (simp add: moving_clock_def)

definition demo_text_field :: typed_field where
  "demo_text_field = \<lparr>tf_Key = ''user'', tf_KeyDesc = None, tf_Val = StringValue ''bob'', tf_Value = GNil\<rparr>"


text \<open>
  A goroutine that writes a field and then reads it is given a copy without the value: the defensive copy
  leaves out the typed value and the declared key.
\<close>

theorem defensive_copy_loses_value:
  assumes "moving_clock N ck" and "16 \<le> N"
  shows "map_option snd (run_accesses ck (InitializeRacePrevention None) [((p, Some f), ''write''), ((p, Some f), ''read'')]) =
     Some [Same, Copy (Some (f\<lparr>tf_KeyDesc := None, tf_Val := zero_value\<rparr>))]"
proof -
  obtain rp where rp: "InitializeRacePrevention None = Some rp" by (simp add: InitializeRacePrevention_def)
  from run_accesses_reference [OF assms(1), of "[]" rp "[((p, Some f), ''write''), ((p, Some f), ''read'')]"]
    race_inv_init [OF rp, of ck] assms(2)
  show ?thesis unfolding rp by (auto simp del: run_accesses.simps simp: raced_def conflict_def createDefensiveCopy_def)
qed

theorem defensive_copy_loses_value_witness:
  "map_option snd (run_accesses (\<lambda>n. int n) (InitializeRacePrevention None)
     [((16, Some demo_text_field), ''write''), ((16, Some demo_text_field), ''read'')]) =
   Some [Same, Copy (Some \<lparr>tf_Key = ''user'', tf_KeyDesc = None, tf_Val = zero_value, tf_Value = GNil\<rparr>)]"
  using defensive_copy_loses_value [OF counting_clock, of 16 demo_text_field] by (simp add: demo_text_field_def)

section \<open>Transitions and the registry\<close>

text \<open>
  Interleaved transitions: \<open>Inl\<close> loads, \<open>Inr k\<close> swaps with the \<open>k\<close>-th value loaded. The state and the version advance
  together, once for every transition that succeeds; one that fails leaves the write barrier raised.
\<close>

fun transition_step :: "race_prevention \<times> u64 list \<Rightarrow> unit + nat \<Rightarrow> race_prevention \<times> u64 list" where
  "transition_step (rp, seen) (Inl u) = (case transition_load rp of (cur, rp) \<Rightarrow> (rp, seen @ [cur]))"
| "transition_step (rp, seen) (Inr k) = (if k < length seen then (fst (transition_swap (seen ! k) rp), seen) else (rp, seen))"

lemma transition_step_counts:
  "rp_state (fst (transition_step x ev)) - rp_version (fst (transition_step x ev)) = rp_state (fst x) - rp_version (fst x)"
  "rp_lockFreeOps (fst (transition_step x ev)) - rp_version (fst (transition_step x ev)) = rp_lockFreeOps (fst x) - rp_version (fst x)"
  by (cases "(x, ev)" rule: transition_step.cases; simp add: transition_load_def transition_swap_def)+

lemma transitions_count_successes:
  "rp_state (fst (foldl transition_step (zero_prevention, []) evs)) = rp_version (fst (foldl transition_step (zero_prevention, []) evs))
   \<and> rp_lockFreeOps (fst (foldl transition_step (zero_prevention, []) evs)) = rp_version (fst (foldl transition_step (zero_prevention, []) evs))"
proof (induction evs rule: rev_induct)
  case (snoc ev evs)
  let ?x = "foldl transition_step (zero_prevention, []) evs"
  have "rp_state (fst (transition_step ?x ev)) - rp_version (fst (transition_step ?x ev)) = 0"
    "rp_lockFreeOps (fst (transition_step ?x ev)) - rp_version (fst (transition_step ?x ev)) = 0"
    using snoc.IH transition_step_counts [of ?x ev] by simp_all
  then show ?case by simp
qed (simp add: zero_prevention_def)

lemma failed_transition_keeps_barrier:
  "snd (transition_swap cur (snd (transition_load rp))) = False \<Longrightarrow> rp_writeBarrier (fst (transition_swap cur (snd (transition_load rp))))"
  by (simp add: transition_load_def transition_swap_def split: if_splits)

text \<open>The registry counts calls, not strategies: registering one twice and removing it leaves a count of one.\<close>

lemma strategy_count_drifts:
  "sg_count (UnregisterStrategy (Some rp) i (RegisterStrategy (Some rp) i (RegisterStrategy (Some rp) i
     \<lparr>sg_strategies = {}, sg_count = 0\<rparr>))) = 1"
  by (simp add: RegisterStrategy_def UnregisterStrategy_def Let_def)

text \<open>An instance not made by \<open>InitializeRacePrevention\<close> has no constructor for thread states and panics.\<close>

lemma zero_instance_panics: "SafeFieldAccess ck fd op (Some zero_prevention) = None"
  by (simp add: SafeFieldAccess_def getThreadState_def routineID_def read_clock_def zero_prevention_def)

end
