(* ===== verification/Pipeline_Metrics.thy ===== *)
theory Pipeline_Metrics
  imports Halo_Prelude Complex_Main "HOL-Library.AList"
begin

text \<open>
  The metrics of the pipelines (\<^verbatim>\<open>pipeline/pipeline_metrics.go\<close>). An \<open>int64\<close> is a 64-bit word read by \<open>sint\<close>, so
  that its additions wrap as Go's do; a \<open>float64\<close> is a real, without rounding. The map of pipelines is the list of its
  entries; the report ranges over it in an order of its own, which is an argument.
\<close>

type_synonym i64 = "64 word"

record pipeline_metrics =
  px_ProcessedCount :: i64
  px_MaskedCount :: i64
  px_SampledCount :: i64
  px_QueueSize :: int
  px_TotalTime :: i64
  px_MinTime :: i64
  px_MaxTime :: i64
  px_AvgTime :: real
  px_ErrorCount :: i64
  px_DroppedCount :: i64
  px_Allocations :: i64
  px_BytesAllocated :: i64

record metrics_collector =
  mc_totalProcessed :: i64
  mc_totalMasked :: i64
  mc_totalSampled :: i64
  mc_totalErrors :: i64
  mc_totalDropped :: i64
  mc_totalAllocations :: i64
  mc_totalBytes :: i64
  mc_totalTime :: i64
  mc_minTime :: i64
  mc_maxTime :: i64
  mc_pipelines :: "(string \<times> pipeline_metrics) list"
  mc_startTime :: int
  mc_lastResetTime :: int
  mc_collectionPeriod :: int

definition NewPipelineMetricsCollector :: "int \<Rightarrow> metrics_collector" where
  "NewPipelineMetricsCollector now = \<lparr>mc_totalProcessed = 0, mc_totalMasked = 0, mc_totalSampled = 0, mc_totalErrors = 0,
     mc_totalDropped = 0, mc_totalAllocations = 0, mc_totalBytes = 0, mc_totalTime = 0, mc_minTime = 0, mc_maxTime = 0,
     mc_pipelines = [], mc_startTime = now, mc_lastResetTime = now, mc_collectionPeriod = 60 * 1000000000\<rparr>"

definition lower_min :: "i64 \<Rightarrow> i64 \<Rightarrow> i64" where
  "lower_min cur d = (if cur = 0 \<or> sint d < sint cur then d else cur)"

definition raise_max :: "i64 \<Rightarrow> i64 \<Rightarrow> i64" where
  "raise_max cur d = (if sint d > sint cur then d else cur)"

definition merge_metrics :: "pipeline_metrics \<Rightarrow> pipeline_metrics \<Rightarrow> i64 \<Rightarrow> pipeline_metrics" where
  "merge_metrics ex m d =
     (let ex = ex\<lparr>px_ProcessedCount := px_ProcessedCount ex + px_ProcessedCount m, px_MaskedCount := px_MaskedCount ex + px_MaskedCount m,
            px_SampledCount := px_SampledCount ex + px_SampledCount m, px_ErrorCount := px_ErrorCount ex + px_ErrorCount m,
            px_DroppedCount := px_DroppedCount ex + px_DroppedCount m, px_Allocations := px_Allocations ex + px_Allocations m,
            px_BytesAllocated := px_BytesAllocated ex + px_BytesAllocated m\<rparr>;
          ex = ex\<lparr>px_TotalTime := px_TotalTime ex + d, px_MinTime := lower_min (px_MinTime ex) d,
            px_MaxTime := raise_max (px_MaxTime ex) d\<rparr>
      in if sint (px_ProcessedCount ex) > 0
         then ex\<lparr>px_AvgTime := real_of_int (sint (px_TotalTime ex)) / real_of_int (sint (px_ProcessedCount ex))\<rparr> else ex)"

definition first_metrics :: "pipeline_metrics \<Rightarrow> i64 \<Rightarrow> pipeline_metrics" where
  "first_metrics m d = m\<lparr>px_TotalTime := d, px_MinTime := d, px_MaxTime := d, px_AvgTime := real_of_int (sint d)\<rparr>"

definition RecordPipelineMetrics :: "string \<Rightarrow> pipeline_metrics \<Rightarrow> i64 \<Rightarrow> metrics_collector \<Rightarrow> metrics_collector" where
  "RecordPipelineMetrics name m d c =
     (let c = c\<lparr>mc_pipelines := (case map_of (mc_pipelines c) name of
            Some ex \<Rightarrow> AList.update name (merge_metrics ex m d) (mc_pipelines c)
          | None \<Rightarrow> mc_pipelines c @ [(name, first_metrics m d)])\<rparr>;
          c = c\<lparr>mc_totalProcessed := mc_totalProcessed c + px_ProcessedCount m, mc_totalMasked := mc_totalMasked c + px_MaskedCount m,
            mc_totalSampled := mc_totalSampled c + px_SampledCount m, mc_totalErrors := mc_totalErrors c + px_ErrorCount m,
            mc_totalDropped := mc_totalDropped c + px_DroppedCount m, mc_totalAllocations := mc_totalAllocations c + px_Allocations m,
            mc_totalBytes := mc_totalBytes c + px_BytesAllocated m, mc_totalTime := mc_totalTime c + d\<rparr>
      in c\<lparr>mc_minTime := lower_min (mc_minTime c) d, mc_maxTime := raise_max (mc_maxTime c) d\<rparr>)"

definition RecordPipelineExecution :: "string \<Rightarrow> pipeline_metrics \<Rightarrow> i64 \<Rightarrow> metrics_collector \<Rightarrow> metrics_collector" where
  "RecordPipelineExecution name m d c = RecordPipelineMetrics name m d c"

definition calculateGlobalAvgTime :: "metrics_collector \<Rightarrow> real" where
  "calculateGlobalAvgTime c =
     (if mc_totalProcessed c = 0 then 0
      else real_of_int (sint (mc_totalTime c)) / real_of_int (sint (mc_totalProcessed c)))"

record global_metrics =
  gm_TotalProcessed :: i64
  gm_TotalMasked :: i64
  gm_TotalSampled :: i64
  gm_TotalErrors :: i64
  gm_TotalDropped :: i64
  gm_TotalAllocations :: i64
  gm_TotalBytes :: i64
  gm_MinTime :: i64
  gm_MaxTime :: i64
  gm_AvgTime :: real
  gm_Uptime :: int

definition GetGlobalMetrics :: "int \<Rightarrow> metrics_collector \<Rightarrow> global_metrics" where
  "GetGlobalMetrics now c = \<lparr>gm_TotalProcessed = mc_totalProcessed c, gm_TotalMasked = mc_totalMasked c,
     gm_TotalSampled = mc_totalSampled c, gm_TotalErrors = mc_totalErrors c, gm_TotalDropped = mc_totalDropped c,
     gm_TotalAllocations = mc_totalAllocations c, gm_TotalBytes = mc_totalBytes c, gm_MinTime = mc_minTime c,
     gm_MaxTime = mc_maxTime c, gm_AvgTime = calculateGlobalAvgTime c, gm_Uptime = now - mc_startTime c\<rparr>"

definition GetPipelineMetrics :: "string \<Rightarrow> metrics_collector \<Rightarrow> pipeline_metrics option" where
  "GetPipelineMetrics name c = map_of (mc_pipelines c) name"

definition GetAllPipelineMetrics :: "metrics_collector \<Rightarrow> (string \<times> pipeline_metrics) list" where
  "GetAllPipelineMetrics c = mc_pipelines c"

definition mc_Reset :: "int \<Rightarrow> metrics_collector \<Rightarrow> metrics_collector" where
  "mc_Reset now c = c\<lparr>mc_totalProcessed := 0, mc_totalMasked := 0, mc_totalSampled := 0, mc_totalErrors := 0, mc_totalDropped := 0,
     mc_totalAllocations := 0, mc_totalBytes := 0, mc_totalTime := 0, mc_minTime := 0, mc_maxTime := 0, mc_pipelines := [],
     mc_lastResetTime := now\<rparr>"

definition SetCollectionPeriod :: "int \<Rightarrow> metrics_collector \<Rightarrow> metrics_collector" where
  "SetCollectionPeriod p c = c\<lparr>mc_collectionPeriod := p\<rparr>"

section \<open>The report\<close>

definition calculatePerformanceGrade :: "global_metrics \<Rightarrow> string" where
  "calculatePerformanceGrade g =
     (let avgTime = gm_AvgTime g in
      if avgTime < 10 then ''A+ (World Class)'' else if avgTime < 20 then ''A (Excellent)''
      else if avgTime < 50 then ''B (Good)'' else if avgTime < 100 then ''C (Acceptable)'' else ''D (Needs Improvement)'')"

definition generateRecommendations :: "global_metrics \<Rightarrow> (string \<times> pipeline_metrics) list \<Rightarrow> string list" where
  "generateRecommendations g ps =
     (let r = [];
          r = (if gm_AvgTime g > 50 then r @ [''Consider optimizing pipeline configuration for better performance''] else r);
          r = (if sint (gm_TotalErrors g) > go_div (sint (gm_TotalProcessed g)) 100
               then r @ [''High error rate detected - check adapter configurations''] else r);
          r = (if sint (gm_TotalDropped g) > go_div (sint (gm_TotalProcessed g)) 1000
               then r @ [''Log drops detected - consider increasing buffer sizes or async queue capacity''] else r);
          r = (if sint (gm_TotalAllocations g) > sint (gm_TotalProcessed g * 2)
               then r @ [''High allocation rate - optimize object pooling configuration''] else r);
          r = foldl (\<lambda>r (name, m). if real_of_int (sint (px_MaxTime m)) > px_AvgTime m * 10
                     then r @ [''High timing variance in '' @ name @ '' pipeline - check for resource contention''] else r) r ps
      in if length r = 0 then r @ [''Performance is within acceptable parameters''] else r)"

record performance_report =
  pr_Timestamp :: int
  pr_GlobalMetrics :: global_metrics
  pr_PipelineMetrics :: "(string \<times> pipeline_metrics) list"
  pr_PerformanceGrade :: string
  pr_Recommendations :: "string list"

definition GeneratePerformanceReport ::
  "int \<Rightarrow> ((string \<times> pipeline_metrics) list \<Rightarrow> (string \<times> pipeline_metrics) list) \<Rightarrow> metrics_collector \<Rightarrow> performance_report" where
  "GeneratePerformanceReport now range_order c =
     (let g = GetGlobalMetrics now c; ps = GetAllPipelineMetrics c
      in \<lparr>pr_Timestamp = now, pr_GlobalMetrics = g, pr_PipelineMetrics = ps, pr_PerformanceGrade = calculatePerformanceGrade g,
          pr_Recommendations = generateRecommendations g (range_order ps)\<rparr>)"

section \<open>Totals and parts\<close>

datatype metrics_op = MRecord string pipeline_metrics i64 | MReset int

fun metrics_step :: "metrics_collector \<Rightarrow> metrics_op \<Rightarrow> metrics_collector" where
  "metrics_step c (MRecord name m d) = RecordPipelineMetrics name m d c"
| "metrics_step c (MReset now) = mc_Reset now c"

definition total_of :: "(pipeline_metrics \<Rightarrow> i64) \<Rightarrow> metrics_collector \<Rightarrow> i64" where
  "total_of f c = sum_list (map (f \<circ> snd) (mc_pipelines c))"

definition parts_ok :: "metrics_collector \<Rightarrow> bool" where
  "parts_ok c \<longleftrightarrow> distinct (map fst (mc_pipelines c)) \<and>
     mc_totalProcessed c = total_of px_ProcessedCount c \<and> mc_totalMasked c = total_of px_MaskedCount c \<and>
     mc_totalSampled c = total_of px_SampledCount c \<and> mc_totalErrors c = total_of px_ErrorCount c \<and>
     mc_totalDropped c = total_of px_DroppedCount c \<and> mc_totalAllocations c = total_of px_Allocations c \<and>
     mc_totalBytes c = total_of px_BytesAllocated c \<and> mc_totalTime c = total_of px_TotalTime c"

definition timed :: "metrics_op \<Rightarrow> bool" where
  "timed op = (case op of MRecord name m d \<Rightarrow> 0 < sint d | MReset now \<Rightarrow> True)"

text \<open>The extremes: with positive durations those of all pipelines, and 0 while there is none.\<close>

definition attained :: "(pipeline_metrics \<Rightarrow> i64) \<Rightarrow> i64 \<Rightarrow> (string \<rightharpoonup> pipeline_metrics) \<Rightarrow> bool" where
  "attained f x ps \<longleftrightarrow> (\<exists>n m. ps n = Some m \<and> f m = x)"

definition bounded_by :: "i64 \<Rightarrow> i64 \<Rightarrow> (string \<rightharpoonup> pipeline_metrics) \<Rightarrow> bool" where
  "bounded_by lo hi ps \<longleftrightarrow> (\<forall>n m. ps n = Some m \<longrightarrow>
     sint lo \<le> sint (px_MinTime m) \<and> 0 < sint (px_MinTime m) \<and> 0 < sint (px_MaxTime m) \<and> sint (px_MaxTime m) \<le> sint hi)"

definition extremes_ok :: "metrics_collector \<Rightarrow> bool" where
  "extremes_ok c \<longleftrightarrow> bounded_by (mc_minTime c) (mc_maxTime c) (map_of (mc_pipelines c)) \<and>
     (if map_of (mc_pipelines c) = Map.empty then mc_minTime c = 0 \<and> mc_maxTime c = 0
      else 0 < sint (mc_minTime c) \<and> attained px_MinTime (mc_minTime c) (map_of (mc_pipelines c)) \<and>
           attained px_MaxTime (mc_maxTime c) (map_of (mc_pipelines c)))"

lemma sum_update:
  fixes f :: "'b \<Rightarrow> i64"
  shows "distinct (map fst ps) \<Longrightarrow> map_of ps k = Some old \<Longrightarrow>
    sum_list (map (f \<circ> snd) (AList.update k v ps)) = sum_list (map (f \<circ> snd) ps) + (f v - f old)"
proof (induction ps)
  case (Cons x ps)
  show ?case
  proof (cases "fst x = k")
    case True
    then have "map_of ps k = None" using Cons.prems by (auto simp: map_of_eq_None_iff)
    with True Cons.prems show ?thesis by (cases x) simp
  next
    case False
    with Cons show ?thesis by (cases x) simp
  qed
qed simp

lemma merge_metrics_parts [simp]:
  "px_ProcessedCount (merge_metrics ex m d) = px_ProcessedCount ex + px_ProcessedCount m"
  "px_MaskedCount (merge_metrics ex m d) = px_MaskedCount ex + px_MaskedCount m"
  "px_SampledCount (merge_metrics ex m d) = px_SampledCount ex + px_SampledCount m"
  "px_ErrorCount (merge_metrics ex m d) = px_ErrorCount ex + px_ErrorCount m"
  "px_DroppedCount (merge_metrics ex m d) = px_DroppedCount ex + px_DroppedCount m"
  "px_Allocations (merge_metrics ex m d) = px_Allocations ex + px_Allocations m"
  "px_BytesAllocated (merge_metrics ex m d) = px_BytesAllocated ex + px_BytesAllocated m"
  "px_TotalTime (merge_metrics ex m d) = px_TotalTime ex + d"
  "px_MinTime (merge_metrics ex m d) = lower_min (px_MinTime ex) d"
  "px_MaxTime (merge_metrics ex m d) = raise_max (px_MaxTime ex) d"
  by (simp_all add: merge_metrics_def Let_def)

lemma first_metrics_parts [simp]:
  "px_ProcessedCount (first_metrics m d) = px_ProcessedCount m" "px_MaskedCount (first_metrics m d) = px_MaskedCount m"
  "px_SampledCount (first_metrics m d) = px_SampledCount m" "px_ErrorCount (first_metrics m d) = px_ErrorCount m"
  "px_DroppedCount (first_metrics m d) = px_DroppedCount m" "px_Allocations (first_metrics m d) = px_Allocations m"
  "px_BytesAllocated (first_metrics m d) = px_BytesAllocated m" "px_TotalTime (first_metrics m d) = d"
  "px_MinTime (first_metrics m d) = d" "px_MaxTime (first_metrics m d) = d"
  by (simp_all add: first_metrics_def)

lemma record_parts:
  "mc_pipelines (RecordPipelineMetrics name m d c) = (case map_of (mc_pipelines c) name of
            Some ex \<Rightarrow> AList.update name (merge_metrics ex m d) (mc_pipelines c)
          | None \<Rightarrow> mc_pipelines c @ [(name, first_metrics m d)])"
  "mc_minTime (RecordPipelineMetrics name m d c) = lower_min (mc_minTime c) d"
  "mc_maxTime (RecordPipelineMetrics name m d c) = raise_max (mc_maxTime c) d"
  by (simp_all add: RecordPipelineMetrics_def Let_def)

lemma record_total:
  assumes "distinct (map fst (mc_pipelines c))" and "\<And>ex. f (merge_metrics ex m d) = f ex + x" and "f (first_metrics m d) = x"
  shows "total_of f (RecordPipelineMetrics name m d c) = total_of f c + x"
  using assms by (auto simp: total_of_def record_parts sum_update split: option.split)

lemma record_distinct:
  "distinct (map fst (mc_pipelines c)) \<Longrightarrow> distinct (map fst (mc_pipelines (RecordPipelineMetrics name m d c)))"
  by (auto simp: record_parts distinct_update map_of_eq_None_iff split: option.split)

lemma record_parts_ok: "parts_ok c \<Longrightarrow> parts_ok (RecordPipelineMetrics name m d c)"
  unfolding parts_ok_def
  by (intro conjI record_distinct; (simp add: record_total)?; simp add: RecordPipelineMetrics_def Let_def)

lemma record_map:
  "map_of (mc_pipelines (RecordPipelineMetrics name m d c)) = (map_of (mc_pipelines c))(name \<mapsto>
     (case map_of (mc_pipelines c) name of Some ex \<Rightarrow> merge_metrics ex m d | None \<Rightarrow> first_metrics m d))"
  by (auto simp: record_parts update_conv fun_eq_iff map_add_def split: option.split)

lemma sint_eqD: "sint x = sint y \<Longrightarrow> x = y" for x y :: i64
  by (rule signed_word_eqI) simp

lemma record_extremes_ok:
  assumes "extremes_ok c" and "0 < sint d"
  shows "extremes_ok (RecordPipelineMetrics name m d c)"
proof -
  let ?ps = "map_of (mc_pipelines c)"
  let ?new = "case ?ps name of Some ex \<Rightarrow> merge_metrics ex m d | None \<Rightarrow> first_metrics m d"
  let ?lo = "lower_min (mc_minTime c) d" and ?hi = "raise_max (mc_maxTime c) d"
  have b: "\<And>n k. ?ps n = Some k \<Longrightarrow> sint (mc_minTime c) \<le> sint (px_MinTime k) \<and> 0 < sint (px_MinTime k) \<and>
      0 < sint (px_MaxTime k) \<and> sint (px_MaxTime k) \<le> sint (mc_maxTime c)"
    using assms(1) by (auto simp: extremes_ok_def bounded_by_def)
  have lo0: "mc_minTime c = 0 \<longleftrightarrow> ?ps = Map.empty" using assms(1) by (auto simp: extremes_ok_def split: if_splits)
  have new: "px_MinTime ?new = (case ?ps name of Some ex \<Rightarrow> lower_min (px_MinTime ex) d | None \<Rightarrow> d)"
    "px_MaxTime ?new = (case ?ps name of Some ex \<Rightarrow> raise_max (px_MaxTime ex) d | None \<Rightarrow> d)"
    by (simp_all split: option.split)
  have lo: "sint ?lo \<le> sint d" "mc_minTime c \<noteq> 0 \<Longrightarrow> sint ?lo \<le> sint (mc_minTime c)" "0 < sint ?lo"
    using assms lo0 by (auto simp: lower_min_def extremes_ok_def split: if_splits)
  have hi: "sint d \<le> sint ?hi" "sint (mc_maxTime c) \<le> sint ?hi" by (auto simp: raise_max_def)
  have mn: "sint ?lo \<le> sint (px_MinTime ?new)" "0 < sint (px_MinTime ?new)" "0 < sint (px_MaxTime ?new)" "sint (px_MaxTime ?new) \<le> sint ?hi"
    unfolding new using lo hi assms(2) b [of name] lo0
    by (auto simp: lower_min_def raise_max_def split: option.splits if_splits)
  have rest: "sint ?lo \<le> sint (px_MinTime k) \<and> sint (px_MaxTime k) \<le> sint ?hi" if "?ps n = Some k" for n k
    using b [OF that] lo(2) lo0 hi(2) that by (metis option.distinct(1) order_trans)
  have "bounded_by ?lo ?hi (?ps(name \<mapsto> ?new))"
    using mn rest b by (simp add: bounded_by_def)
  moreover have "attained px_MinTime ?lo (?ps(name \<mapsto> ?new))"
  proof (cases "?lo = d")
    case True
    have "px_MinTime ?new = d"
      unfolding new using True lo0 b [of name] by (auto simp: lower_min_def split: option.splits if_splits intro: sint_eqD)
    with True show ?thesis unfolding attained_def by (intro exI [of _ name] exI [of _ ?new]) simp
  next
    case False
    then have eq: "?lo = mc_minTime c" "mc_minTime c \<noteq> 0" "\<not> sint d < sint (mc_minTime c)" by (auto simp: lower_min_def split: if_splits)
    with lo0 assms(1) obtain n k where k: "?ps n = Some k" "px_MinTime k = mc_minTime c"
      by (auto simp: extremes_ok_def attained_def)
    show ?thesis
    proof (cases "n = name")
      case True
      then have "px_MinTime ?new = mc_minTime c" unfolding new using k eq by (simp add: lower_min_def)
      with eq show ?thesis unfolding attained_def by (intro exI [of _ name] exI [of _ ?new]) simp
    next
      case False
      with k eq show ?thesis unfolding attained_def by (intro exI [of _ n] exI [of _ k]) simp
    qed
  qed
  moreover have "attained px_MaxTime ?hi (?ps(name \<mapsto> ?new))"
  proof (cases "?hi = d")
    case True
    then have "px_MaxTime ?new = d"
      unfolding new using hi b [of name] by (auto simp: raise_max_def split: option.splits if_splits intro: sint_eqD)
    with True show ?thesis unfolding attained_def by (intro exI [of _ name] exI [of _ ?new]) simp
  next
    case False
    then have eq: "?hi = mc_maxTime c" "\<not> sint d > sint (mc_maxTime c)" by (auto simp: raise_max_def split: if_splits)
    have "?ps \<noteq> Map.empty" using eq(2) assms by (auto simp: extremes_ok_def)
    with assms(1) obtain n k where k: "?ps n = Some k" "px_MaxTime k = mc_maxTime c"
      by (auto simp: extremes_ok_def attained_def)
    show ?thesis
    proof (cases "n = name")
      case True
      then have "px_MaxTime ?new = mc_maxTime c" unfolding new using k eq by (simp add: raise_max_def)
      with eq show ?thesis unfolding attained_def by (intro exI [of _ name] exI [of _ ?new]) simp
    next
      case False
      with k eq show ?thesis unfolding attained_def by (intro exI [of _ n] exI [of _ k]) simp
    qed
  qed
  ultimately show ?thesis using lo(3) unfolding extremes_ok_def record_map record_parts(2,3) by simp
qed

lemma metrics_run_ok:
  assumes "list_all timed ops" and "parts_ok c" and "extremes_ok c"
  shows "parts_ok (foldl metrics_step c ops) \<and> extremes_ok (foldl metrics_step c ops)"
  using assms
proof (induction ops arbitrary: c)
  case (Cons op ops)
  have "parts_ok (metrics_step c op) \<and> extremes_ok (metrics_step c op)"
  proof (cases op)
    case (MRecord name m d)
    with Cons.prems show ?thesis by (simp add: timed_def record_parts_ok record_extremes_ok)
  next
    case (MReset now)
    then show ?thesis by (simp add: mc_Reset_def parts_ok_def total_of_def extremes_ok_def bounded_by_def)
  qed
  with Cons show ?case by simp
qed simp

section \<open>Properties\<close>

text \<open>
  C32: After any sequence of recordings and resets every global counter is the sum of the pipelines' counters,
  with the wrap-around of the counters, and the global extremes are the extremes of the pipelines, as long as
  every recorded duration is positive.
\<close>

theorem metrics_totals_are_sums:
  assumes "list_all timed ops"
  shows "let c = foldl metrics_step (NewPipelineMetricsCollector now) ops; g = GetGlobalMetrics later c;
             sum = (\<lambda>f. sum_list (map (f \<circ> snd) (GetAllPipelineMetrics c)))
         in gm_TotalProcessed g = sum px_ProcessedCount \<and> gm_TotalMasked g = sum px_MaskedCount \<and>
            gm_TotalSampled g = sum px_SampledCount \<and> gm_TotalErrors g = sum px_ErrorCount \<and>
            gm_TotalDropped g = sum px_DroppedCount \<and> gm_TotalAllocations g = sum px_Allocations \<and>
            gm_TotalBytes g = sum px_BytesAllocated \<and> mc_totalTime c = sum px_TotalTime \<and>
            distinct (map fst (GetAllPipelineMetrics c)) \<and> extremes_ok c"
proof -
  have "parts_ok (NewPipelineMetricsCollector now)" "extremes_ok (NewPipelineMetricsCollector now)"
    by (simp_all add: NewPipelineMetricsCollector_def parts_ok_def total_of_def extremes_ok_def bounded_by_def)
  from metrics_run_ok [OF assms this] show ?thesis
    by (simp add: parts_ok_def total_of_def GetGlobalMetrics_def GetAllPipelineMetrics_def Let_def)
qed

definition ten_processed :: pipeline_metrics where
  "ten_processed = \<lparr>px_ProcessedCount = 10, px_MaskedCount = 0, px_SampledCount = 0, px_QueueSize = 0, px_TotalTime = 0,
     px_MinTime = 0, px_MaxTime = 0, px_AvgTime = 0, px_ErrorCount = 1, px_DroppedCount = 0, px_Allocations = 0, px_BytesAllocated = 0\<rparr>"

theorem metrics_totals_are_sums_witness:
  "let c = foldl metrics_step (NewPipelineMetricsCollector 5)
             [MRecord ''direct'' ten_processed 40, MRecord ''full'' ten_processed 90, MRecord ''direct'' ten_processed 20];
       g = GetGlobalMetrics 9 c; sum = (\<lambda>f. sum_list (map (f \<circ> snd) (GetAllPipelineMetrics c)))
   in gm_TotalProcessed g = sum px_ProcessedCount \<and> gm_TotalMasked g = sum px_MaskedCount \<and>
      gm_TotalSampled g = sum px_SampledCount \<and> gm_TotalErrors g = sum px_ErrorCount \<and>
      gm_TotalDropped g = sum px_DroppedCount \<and> gm_TotalAllocations g = sum px_Allocations \<and>
      gm_TotalBytes g = sum px_BytesAllocated \<and> mc_totalTime c = sum px_TotalTime \<and>
      distinct (map fst (GetAllPipelineMetrics c)) \<and> extremes_ok c"
  by (rule metrics_totals_are_sums) (simp add: timed_def)

section \<open>Averages\<close>

text \<open>
  The first recording of a pipeline stores the duration as its average, whatever number of lines it covers; every
  later one, and the global average, divide by that number.
\<close>

lemma first_average:
  "GetPipelineMetrics name c = None \<Longrightarrow>
   map_option px_AvgTime (GetPipelineMetrics name (RecordPipelineMetrics name m d c)) = Some (real_of_int (sint d))"
  by (simp add: GetPipelineMetrics_def record_map first_metrics_def)

lemma first_average_not_global:
  "calculateGlobalAvgTime (RecordPipelineMetrics ''direct'' ten_processed 40 (NewPipelineMetricsCollector 0)) = 4"
  by (simp add: calculateGlobalAvgTime_def RecordPipelineMetrics_def NewPipelineMetricsCollector_def ten_processed_def Let_def)

text \<open>A duration of zero counts as no duration: the next one replaces it as the minimum.\<close>

lemma zero_duration_forgotten: "lower_min (lower_min 7 0) 9 = 9"
  by (simp add: lower_min_def)

text \<open>With nothing recorded the best grade is given.\<close>

lemma idle_grade: "calculatePerformanceGrade (GetGlobalMetrics later (NewPipelineMetricsCollector now)) = ''A+ (World Class)''"
  by (simp add: calculatePerformanceGrade_def GetGlobalMetrics_def calculateGlobalAvgTime_def NewPipelineMetricsCollector_def Let_def)

end
