(* ===== verification/Metrics_Collector.thy ===== *)
theory Metrics_Collector
  imports Halo_Prelude
begin

text \<open>
  The metrics of the logger (\<^verbatim>\<open>metrics/collector.go\<close>) and their adapter to the logger's interface
  (\<^verbatim>\<open>metrics/adapter.go\<close>). Counters are 64-bit words. The minutes are addressed by their index in the array, also from
  a snapshot, which holds pointers to them. \<open>RecordLog\<close> is one step: its compare-and-swap loops only resolve
  concurrent updates. \<open>mem\<close> are the memory figures of the runtime. The HTTP handler, which prints a snapshot, is not
  modelled.
\<close>

record minute_metrics =
  mm_Timestamp :: int
  mm_TotalLogs :: u64
  mm_ErrorLogs :: u64
  mm_WarnLogs :: u64
  mm_InfoLogs :: u64
  mm_DebugLogs :: u64
  mm_AvgLatency :: u64
  mm_MaxLatency :: u64
  mm_MinLatency :: u64
  mm_DroppedLogs :: u64
  mm_RetriedLogs :: u64

record log_metrics =
  lm_totalLogs :: u64
  lm_errorLogs :: u64
  lm_warnLogs :: u64
  lm_infoLogs :: u64
  lm_debugLogs :: u64
  lm_totalLatency :: u64
  lm_maxLatency :: u64
  lm_minLatency :: u64
  lm_activeGoroutines :: int
  lm_contentionCount :: u64
  lm_droppedLogs :: u64
  lm_retriedLogs :: u64
  lm_minuteMetrics :: "minute_metrics list"
  lm_currentMinute :: nat
  lm_enabled :: bool

record 'm metrics_snapshot =
  sn_Timestamp :: int
  sn_TotalLogs :: u64
  sn_ErrorLogs :: u64
  sn_WarnLogs :: u64
  sn_InfoLogs :: u64
  sn_DebugLogs :: u64
  sn_AvgLatency :: u64
  sn_MaxLatency :: u64
  sn_MinLatency :: u64
  sn_DroppedLogs :: u64
  sn_RetriedLogs :: u64
  sn_ActiveGoroutines :: int
  sn_ContentionCount :: u64
  sn_MemoryUsage :: "'m option"
  sn_RecentMinutes :: "nat list"

definition new_minute :: "int \<Rightarrow> minute_metrics" where
  "new_minute t = \<lparr>mm_Timestamp = t, mm_TotalLogs = 0, mm_ErrorLogs = 0, mm_WarnLogs = 0, mm_InfoLogs = 0, mm_DebugLogs = 0,
     mm_AvgLatency = 0, mm_MaxLatency = 0, mm_MinLatency = 0, mm_DroppedLogs = 0, mm_RetriedLogs = 0\<rparr>"

text \<open>\<open>now\<close> is the time of construction in nanoseconds and \<open>minute\<close> its minute of the hour.\<close>

definition NewCollector :: "int \<Rightarrow> nat \<Rightarrow> bool \<Rightarrow> log_metrics" where
  "NewCollector now minute en = \<lparr>lm_totalLogs = 0, lm_errorLogs = 0, lm_warnLogs = 0, lm_infoLogs = 0, lm_debugLogs = 0,
     lm_totalLatency = 0, lm_maxLatency = 0, lm_minLatency = 0, lm_activeGoroutines = 0, lm_contentionCount = 0,
     lm_droppedLogs = 0, lm_retriedLogs = 0,
     lm_minuteMetrics = map (\<lambda>i. new_minute (now + (int i - int minute) * 60 * 1000000000)) [0..<60],
     lm_currentMinute = minute, lm_enabled = en\<rparr>"

definition updateMinuteMetrics :: "string \<Rightarrow> u64 \<Rightarrow> bool \<Rightarrow> bool \<Rightarrow> log_metrics \<Rightarrow> log_metrics" where
  "updateMinuteMetrics level latency dropped retried c =
     (let m = lm_minuteMetrics c ! lm_currentMinute c;
          m = m\<lparr>mm_TotalLogs := mm_TotalLogs m + 1\<rparr>;
          m = (if level = ''ERROR'' then m\<lparr>mm_ErrorLogs := mm_ErrorLogs m + 1\<rparr>
               else if level = ''WARN'' then m\<lparr>mm_WarnLogs := mm_WarnLogs m + 1\<rparr>
               else if level = ''INFO'' then m\<lparr>mm_InfoLogs := mm_InfoLogs m + 1\<rparr>
               else if level = ''DEBUG'' then m\<lparr>mm_DebugLogs := mm_DebugLogs m + 1\<rparr> else m);
          m = (if mm_TotalLogs m = 1 then m\<lparr>mm_MinLatency := latency, mm_MaxLatency := latency\<rparr>
               else (let m = (if latency < mm_MinLatency m then m\<lparr>mm_MinLatency := latency\<rparr> else m)
                     in if latency > mm_MaxLatency m then m\<lparr>mm_MaxLatency := latency\<rparr> else m));
          m = m\<lparr>mm_AvgLatency := (mm_AvgLatency m * (mm_TotalLogs m - 1) + latency) div mm_TotalLogs m\<rparr>;
          m = (if dropped then m\<lparr>mm_DroppedLogs := mm_DroppedLogs m + 1\<rparr> else m);
          m = (if retried then m\<lparr>mm_RetriedLogs := mm_RetriedLogs m + 1\<rparr> else m)
      in c\<lparr>lm_minuteMetrics := (lm_minuteMetrics c)[lm_currentMinute c := m]\<rparr>)"

definition collector_RecordLog :: "string \<Rightarrow> int \<Rightarrow> bool \<Rightarrow> bool \<Rightarrow> log_metrics \<Rightarrow> log_metrics" where
  "collector_RecordLog level latency dropped retried c =
     (if \<not> lm_enabled c then c
      else
        let c = c\<lparr>lm_totalLogs := lm_totalLogs c + 1\<rparr>;
            c = (if level = ''ERROR'' then c\<lparr>lm_errorLogs := lm_errorLogs c + 1\<rparr>
                 else if level = ''WARN'' then c\<lparr>lm_warnLogs := lm_warnLogs c + 1\<rparr>
                 else if level = ''INFO'' then c\<lparr>lm_infoLogs := lm_infoLogs c + 1\<rparr>
                 else if level = ''DEBUG'' then c\<lparr>lm_debugLogs := lm_debugLogs c + 1\<rparr> else c);
            latencyNs = word_of_int latency;
            c = c\<lparr>lm_totalLatency := lm_totalLatency c + latencyNs\<rparr>;
            c = (if latencyNs \<le> lm_maxLatency c then c else c\<lparr>lm_maxLatency := latencyNs\<rparr>);
            c = (if lm_minLatency c = 0 \<or> latencyNs < lm_minLatency c then c\<lparr>lm_minLatency := latencyNs\<rparr> else c);
            c = (if dropped then c\<lparr>lm_droppedLogs := lm_droppedLogs c + 1\<rparr> else c);
            c = (if retried then c\<lparr>lm_retriedLogs := lm_retriedLogs c + 1\<rparr> else c)
        in updateMinuteMetrics level latencyNs dropped retried c)"

definition recent_minutes :: "log_metrics \<Rightarrow> nat list" where
  "recent_minutes c =
     filter (\<lambda>idx. mm_TotalLogs (lm_minuteMetrics c ! idx) > 0) (map (\<lambda>i. (lm_currentMinute c + 60 - i) mod 60) [0..<10])"

definition GetSnapshot :: "int \<Rightarrow> 'm \<Rightarrow> log_metrics \<Rightarrow> 'm metrics_snapshot" where
  "GetSnapshot now mem c =
     (if \<not> lm_enabled c
      then \<lparr>sn_Timestamp = now, sn_TotalLogs = 0, sn_ErrorLogs = 0, sn_WarnLogs = 0, sn_InfoLogs = 0, sn_DebugLogs = 0,
            sn_AvgLatency = 0, sn_MaxLatency = 0, sn_MinLatency = 0, sn_DroppedLogs = 0, sn_RetriedLogs = 0,
            sn_ActiveGoroutines = 0, sn_ContentionCount = 0, sn_MemoryUsage = None, sn_RecentMinutes = []\<rparr>
      else \<lparr>sn_Timestamp = now, sn_TotalLogs = lm_totalLogs c, sn_ErrorLogs = lm_errorLogs c, sn_WarnLogs = lm_warnLogs c,
            sn_InfoLogs = lm_infoLogs c, sn_DebugLogs = lm_debugLogs c,
            sn_AvgLatency = (if lm_totalLogs c > 0 then lm_totalLatency c div lm_totalLogs c else 0),
            sn_MaxLatency = lm_maxLatency c, sn_MinLatency = lm_minLatency c, sn_DroppedLogs = lm_droppedLogs c,
            sn_RetriedLogs = lm_retriedLogs c, sn_ActiveGoroutines = lm_activeGoroutines c,
            sn_ContentionCount = lm_contentionCount c, sn_MemoryUsage = Some mem, sn_RecentMinutes = recent_minutes c\<rparr>)"

definition collector_SetEnabled :: "bool \<Rightarrow> log_metrics \<Rightarrow> log_metrics" where
  "collector_SetEnabled en c = c\<lparr>lm_enabled := en\<rparr>"

definition collector_IsEnabled :: "log_metrics \<Rightarrow> bool" where
  "collector_IsEnabled c = lm_enabled c"

definition IncrementContention :: "log_metrics \<Rightarrow> log_metrics" where
  "IncrementContention c = (if lm_enabled c then c\<lparr>lm_contentionCount := lm_contentionCount c + 1\<rparr> else c)"

definition SetActiveGoroutines :: "int \<Rightarrow> log_metrics \<Rightarrow> log_metrics" where
  "SetActiveGoroutines n c = (if lm_enabled c then c\<lparr>lm_activeGoroutines := n\<rparr> else c)"

section \<open>The adapter\<close>

definition levelToString :: "nat \<Rightarrow> string" where
  "levelToString l =
     (if l = TraceLevel then ''TRACE'' else if l = DebugLevel then ''DEBUG'' else if l = InfoLevel then ''INFO''
      else if l = WarnLevel then ''WARN'' else if l = ErrorLevel then ''ERROR'' else if l = FatalLevel then ''FATAL''
      else if l = PanicLevel then ''PANIC'' else ''INFO'')"

definition ca_RecordLog :: "nat \<Rightarrow> log_metrics \<Rightarrow> log_metrics" where
  "ca_RecordLog l c = collector_RecordLog (levelToString l) 0 False False c"

definition ca_RecordError :: "log_metrics \<Rightarrow> log_metrics" where
  "ca_RecordError c = collector_RecordLog ''ERROR'' 0 False False c"

definition ca_RecordErrorHandled :: "log_metrics \<Rightarrow> log_metrics" where
  "ca_RecordErrorHandled c = collector_RecordLog ''ERROR'' 0 False False c"

definition ca_RecordDropped :: "log_metrics \<Rightarrow> log_metrics" where
  "ca_RecordDropped c = collector_RecordLog [] 0 True False c"

definition ca_RecordLogWithLatency :: "nat \<Rightarrow> int \<Rightarrow> log_metrics \<Rightarrow> log_metrics" where
  "ca_RecordLogWithLatency l latency c = collector_RecordLog (levelToString l) latency False False c"

definition ca_GetDroppedCount :: "int \<Rightarrow> 'm \<Rightarrow> log_metrics \<Rightarrow> int" where
  "ca_GetDroppedCount now mem c = sint (sn_DroppedLogs (GetSnapshot now mem c))"

definition ca_Reset :: "log_metrics \<Rightarrow> log_metrics" where
  "ca_Reset c = c"

definition ca_RecordComponent :: "string \<Rightarrow> log_metrics \<Rightarrow> log_metrics" where
  "ca_RecordComponent comp_name c = c"

record metrics_stats =
  ms_TotalLogs :: int
  ms_DebugCount :: int
  ms_InfoCount :: int
  ms_WarnCount :: int
  ms_ErrorCount :: int
  ms_FatalCount :: int
  ms_ErrorsHandled :: int
  ms_ErrorsTotal :: int
  ms_DroppedCount :: int
  ms_ComponentStats :: "string \<rightharpoonup> int"

definition ca_GetStats :: "int \<Rightarrow> 'm \<Rightarrow> log_metrics \<Rightarrow> metrics_stats" where
  "ca_GetStats now mem c =
     (let sn = GetSnapshot now mem c
      in \<lparr>ms_TotalLogs = sint (sn_TotalLogs sn), ms_DebugCount = sint (sn_DebugLogs sn), ms_InfoCount = sint (sn_InfoLogs sn),
          ms_WarnCount = sint (sn_WarnLogs sn), ms_ErrorCount = sint (sn_ErrorLogs sn), ms_FatalCount = 0, ms_ErrorsHandled = 0,
          ms_ErrorsTotal = sint (sn_ErrorLogs sn), ms_DroppedCount = sint (sn_DroppedLogs sn), ms_ComponentStats = Map.empty\<rparr>)"

definition ca_Clone :: "int \<Rightarrow> nat \<Rightarrow> log_metrics \<Rightarrow> log_metrics" where
  "ca_Clone now minute c = NewCollector now minute (collector_IsEnabled c)"

section \<open>What is counted\<close>

record log_event =
  ev_level :: string
  ev_latency :: int
  ev_dropped :: bool
  ev_retried :: bool

definition record_event :: "log_metrics \<Rightarrow> log_event \<Rightarrow> log_metrics" where
  "record_event c e = collector_RecordLog (ev_level e) (ev_latency e) (ev_dropped e) (ev_retried e) c"

definition counted_events :: "(log_event \<Rightarrow> bool) \<Rightarrow> log_event list \<Rightarrow> u64" where
  "counted_events P es = of_nat (length (filter P es))"

lemma counted_snoc [simp]: "counted_events P (es @ [e]) = counted_events P es + (if P e then 1 else 0)"
  "counted_events P [] = 0"
  by (simp_all add: counted_events_def)

lemma updateMinute_parts [simp]:
  "lm_totalLogs (updateMinuteMetrics l t d r c) = lm_totalLogs c" "lm_errorLogs (updateMinuteMetrics l t d r c) = lm_errorLogs c"
  "lm_warnLogs (updateMinuteMetrics l t d r c) = lm_warnLogs c" "lm_infoLogs (updateMinuteMetrics l t d r c) = lm_infoLogs c"
  "lm_debugLogs (updateMinuteMetrics l t d r c) = lm_debugLogs c" "lm_totalLatency (updateMinuteMetrics l t d r c) = lm_totalLatency c"
  "lm_maxLatency (updateMinuteMetrics l t d r c) = lm_maxLatency c" "lm_minLatency (updateMinuteMetrics l t d r c) = lm_minLatency c"
  "lm_droppedLogs (updateMinuteMetrics l t d r c) = lm_droppedLogs c" "lm_retriedLogs (updateMinuteMetrics l t d r c) = lm_retriedLogs c"
  "lm_enabled (updateMinuteMetrics l t d r c) = lm_enabled c" "lm_currentMinute (updateMinuteMetrics l t d r c) = lm_currentMinute c"
  by (simp_all add: updateMinuteMetrics_def Let_def)

text \<open>The minute's counters after one more line.\<close>

definition minute_counts :: "minute_metrics \<Rightarrow> u64 list" where
  "minute_counts m = [mm_TotalLogs m, mm_ErrorLogs m, mm_WarnLogs m, mm_InfoLogs m, mm_DebugLogs m, mm_DroppedLogs m, mm_RetriedLogs m]"

definition event_counts :: "log_event list \<Rightarrow> u64 list" where
  "event_counts es = [counted_events (\<lambda>e. True) es, counted_events (\<lambda>e. ev_level e = ''ERROR'') es, counted_events (\<lambda>e. ev_level e = ''WARN'') es,
     counted_events (\<lambda>e. ev_level e = ''INFO'') es, counted_events (\<lambda>e. ev_level e = ''DEBUG'') es,
     counted_events ev_dropped es, counted_events ev_retried es]"

definition collector_counts :: "log_metrics \<Rightarrow> u64 list" where
  "collector_counts c = [lm_totalLogs c, lm_errorLogs c, lm_warnLogs c, lm_infoLogs c, lm_debugLogs c, lm_droppedLogs c, lm_retriedLogs c]"

definition bump_counts :: "log_event \<Rightarrow> u64 list \<Rightarrow> u64 list" where
  "bump_counts e cs = [cs ! 0 + 1, cs ! 1 + (if ev_level e = ''ERROR'' then 1 else 0), cs ! 2 + (if ev_level e = ''WARN'' then 1 else 0),
     cs ! 3 + (if ev_level e = ''INFO'' then 1 else 0), cs ! 4 + (if ev_level e = ''DEBUG'' then 1 else 0),
     cs ! 5 + (if ev_dropped e then 1 else 0), cs ! 6 + (if ev_retried e then 1 else 0)]"

lemma event_counts_snoc: "event_counts (es @ [e]) = bump_counts e (event_counts es)"
  by (simp add: event_counts_def bump_counts_def)

lemma record_collector_counts:
  "lm_enabled c \<Longrightarrow> collector_counts (record_event c e) = bump_counts e (collector_counts c)"
  by (simp add: record_event_def collector_RecordLog_def collector_counts_def bump_counts_def Let_def)

lemma bump_same:
  "bump_counts \<lparr>ev_level = ev_level e, ev_latency = t, ev_dropped = ev_dropped e, ev_retried = ev_retried e\<rparr> cs = bump_counts e cs"
  by (simp add: bump_counts_def)

lemma record_minutes:
  assumes "lm_enabled c" and "lm_currentMinute c < length (lm_minuteMetrics c)"
  shows "\<exists>m. lm_minuteMetrics (record_event c e) = (lm_minuteMetrics c)[lm_currentMinute c := m] \<and>
     minute_counts m = bump_counts e (minute_counts (lm_minuteMetrics c ! lm_currentMinute c))"
proof -
  have "\<exists>m. lm_minuteMetrics (updateMinuteMetrics l t d r c') = (lm_minuteMetrics c')[lm_currentMinute c' := m] \<and>
      minute_counts m = bump_counts \<lparr>ev_level = l, ev_latency = 0, ev_dropped = d, ev_retried = r\<rparr> (minute_counts (lm_minuteMetrics c' ! lm_currentMinute c'))"
    for l t d r c'
    by (intro exI conjI, simp only: updateMinuteMetrics_def Let_def, simp, simp add: minute_counts_def bump_counts_def)
  moreover have "\<exists>c'. record_event c e = updateMinuteMetrics (ev_level e) (word_of_int (ev_latency e)) (ev_dropped e) (ev_retried e) c' \<and>
      lm_minuteMetrics c' = lm_minuteMetrics c \<and> lm_currentMinute c' = lm_currentMinute c"
    unfolding record_event_def collector_RecordLog_def Let_def using assms(1)
    by (simp only: not_True_eq_False if_False) (intro exI conjI, rule refl, simp_all)
  ultimately show ?thesis by (metis (no_types, lifting) bump_same)
qed

lemma record_frame:
  "lm_currentMinute (record_event c e) = lm_currentMinute c" "lm_enabled (record_event c e) = lm_enabled c"
  "lm_enabled c \<Longrightarrow> lm_maxLatency (record_event c e) = max (lm_maxLatency c) (word_of_int (ev_latency e))"
  "lm_enabled c \<Longrightarrow> lm_totalLatency (record_event c e) = lm_totalLatency c + word_of_int (ev_latency e)"
  by (auto simp: record_event_def collector_RecordLog_def Let_def max_def)

definition minutes_ok :: "int \<Rightarrow> nat \<Rightarrow> log_event list \<Rightarrow> log_metrics \<Rightarrow> bool" where
  "minutes_ok now minute es c \<longleftrightarrow> lm_enabled c \<and> lm_currentMinute c = minute \<and> length (lm_minuteMetrics c) = 60 \<and>
     collector_counts c = event_counts es \<and> minute_counts (lm_minuteMetrics c ! minute) = event_counts es \<and>
     (\<forall>i<60. i \<noteq> minute \<longrightarrow> mm_TotalLogs (lm_minuteMetrics c ! i) = 0) \<and>
     lm_maxLatency c = foldl max 0 (map (\<lambda>e. word_of_int (ev_latency e)) es) \<and>
     lm_totalLatency c = sum_list (map (\<lambda>e. word_of_int (ev_latency e)) es)"

lemma minutes_run:
  assumes "minute < 60"
  shows "minutes_ok now minute es (foldl record_event (NewCollector now minute True) es)"
proof (induction es rule: rev_induct)
  case Nil
  show ?case using assms
    by (simp add: minutes_ok_def NewCollector_def collector_counts_def event_counts_def minute_counts_def new_minute_def)
next
  case (snoc e es)
  let ?c = "foldl record_event (NewCollector now minute True) es"
  have ok: "minutes_ok now minute es ?c" by (rule snoc.IH)
  then obtain m where m: "lm_minuteMetrics (record_event ?c e) = (lm_minuteMetrics ?c)[minute := m]"
    "minute_counts m = bump_counts e (minute_counts (lm_minuteMetrics ?c ! minute))"
    using record_minutes [of ?c e] assms by (auto simp: minutes_ok_def)
  show ?case using ok m assms
    by (simp add: minutes_ok_def record_frame record_collector_counts event_counts_snoc)
qed

section \<open>Properties\<close>

text \<open>
  The collector counts every recorded line once, by level and kind, and keeps the largest latency and their
  sum. The minutes never advance: however long it runs, all of it is in the bucket of the minute of construction, and
  a snapshot shows at most this one.
\<close>

theorem collector_counts_in_one_minute:
  assumes "minute < 60" and "length es < 2 ^ 64"
  shows "let c = foldl record_event (NewCollector now minute True) es; sn = GetSnapshot later mem c
         in [sn_TotalLogs sn, sn_ErrorLogs sn, sn_WarnLogs sn, sn_InfoLogs sn, sn_DebugLogs sn, sn_DroppedLogs sn, sn_RetriedLogs sn]
              = event_counts es \<and>
            sn_MaxLatency sn = foldl max 0 (map (\<lambda>e. word_of_int (ev_latency e)) es) \<and>
            sn_AvgLatency sn = sum_list (map (\<lambda>e. word_of_int (ev_latency e)) es) div of_nat (length es) \<and>
            minute_counts (lm_minuteMetrics c ! minute) = event_counts es \<and>
            sn_RecentMinutes sn = (if es = [] then [] else [minute])"
proof -
  define c where "c = foldl record_event (NewCollector now minute True) es"
  have ok: "minutes_ok now minute es c" unfolding c_def by (rule minutes_run [OF assms(1)])
  have tot: "lm_totalLogs c = of_nat (length es)"
    using ok by (simp add: minutes_ok_def collector_counts_def event_counts_def counted_events_def)
  have mtot: "mm_TotalLogs (lm_minuteMetrics c ! minute) = of_nat (length es)"
    using ok by (simp add: minutes_ok_def minute_counts_def event_counts_def counted_events_def)
  have z: "(of_nat (length es) :: u64) = 0 \<longleftrightarrow> es = []"
    using assms(2) by (simp add: word_of_nat_eq_0_iff) (auto dest: dvd_imp_le)
  have zero: "mm_TotalLogs (lm_minuteMetrics c ! ((minute + 60 - i) mod 60)) = 0" if "0 < i" "i < 10" for i
  proof -
    have "(minute + 60 - i) mod 60 \<noteq> minute" using that assms(1) by (auto simp: mod_if)
    then show ?thesis using ok by (simp add: minutes_ok_def)
  qed
  have idx: "[0..<10] = 0 # [1..<10]" by (simp add: upt_rec)
  have cur: "lm_currentMinute c = minute" using ok by (simp add: minutes_ok_def)
  have "filter (\<lambda>idx. mm_TotalLogs (lm_minuteMetrics c ! idx) > 0) (map (\<lambda>i. (minute + 60 - i) mod 60) [1..<10]) = []"
    using zero by (auto simp: filter_empty_conv)
  then have "recent_minutes c = (if es = [] then [] else [minute])"
    using mtot z assms(1) unfolding recent_minutes_def cur idx by (simp add: word_neq_0_conv [symmetric])
  moreover have "lm_enabled c" using ok by (simp add: minutes_ok_def)
  ultimately show ?thesis unfolding c_def [symmetric] using ok tot z
    by (auto simp: GetSnapshot_def minutes_ok_def collector_counts_def Let_def word_neq_0_conv [symmetric])
qed

theorem collector_counts_in_one_minute_witness:
  "let es = [\<lparr>ev_level = ''INFO'', ev_latency = 5, ev_dropped = False, ev_retried = True\<rparr>,
             \<lparr>ev_level = ''FATAL'', ev_latency = 9, ev_dropped = False, ev_retried = False\<rparr>];
       c = foldl record_event (NewCollector 0 59 True) es; sn = GetSnapshot 7200000000000 () c
   in [sn_TotalLogs sn, sn_ErrorLogs sn, sn_WarnLogs sn, sn_InfoLogs sn, sn_DebugLogs sn, sn_DroppedLogs sn, sn_RetriedLogs sn]
        = event_counts es \<and>
      sn_MaxLatency sn = foldl max 0 (map (\<lambda>e. word_of_int (ev_latency e)) es) \<and>
      sn_AvgLatency sn = sum_list (map (\<lambda>e. word_of_int (ev_latency e)) es) div of_nat (length es) \<and>
      minute_counts (lm_minuteMetrics c ! 59) = event_counts es \<and>
      sn_RecentMinutes sn = (if es = [] then [] else [59])"
  unfolding Let_def by (rule collector_counts_in_one_minute [unfolded Let_def]) simp_all

section \<open>Limits of the adapter\<close>

text \<open>A dropped line and a handled error count as lines, a fatal one only in the total.\<close>

lemma dropped_counts_as_line:
  "lm_enabled c \<Longrightarrow> lm_totalLogs (ca_RecordDropped c) = lm_totalLogs c + 1 \<and> lm_droppedLogs (ca_RecordDropped c) = lm_droppedLogs c + 1"
  by (simp add: ca_RecordDropped_def collector_RecordLog_def Let_def)

lemma fatal_counted_nowhere:
  "lm_enabled c \<Longrightarrow> l \<in> {TraceLevel, FatalLevel, PanicLevel} \<Longrightarrow>
   collector_counts (ca_RecordLog l c) = (collector_counts c)[0 := lm_totalLogs c + 1]"
  by (auto simp: ca_RecordLog_def collector_RecordLog_def levelToString_def level_defs collector_counts_def Let_def)

lemma reset_resets_nothing: "collector_counts (ca_Reset c) = collector_counts c"
  by (simp add: ca_Reset_def)

end
