(* ===== verification/Default_Rules.thy ===== *)
theory Default_Rules
  imports Config_Ids
begin

text \<open>
  The built-in rules of the PII masker, \<open>addDefaultPatterns\<close> of \<^verbatim>\<open>masking/pii_masker.go\<close>, and the methods of the masker
  on single fields and texts. Elsewhere the built-in rules are an argument; here they are the list of the source.
  The patterns are written with a backtick for each backslash, a character no pattern contains.
\<close>

definition raw :: "string \<Rightarrow> string" where
  "raw s = map (\<lambda>c. if c = CHR 0x60 then CHR 0x5C else c) s"

definition built_in :: "string \<Rightarrow> string \<Rightarrow> string \<Rightarrow> stored_rule" where
  "built_in pattern replace kind = \<lparr>mr_Type = kind, mr_Pattern = raw pattern, mr_Replace = replace, mr_owner = None\<rparr>"

definition default_rules :: "stored_rule list" where
  "default_rules =
    [built_in ''password'' ''***PASSWORD***'' ''field'',
     built_in ''passwd'' ''***PASSWORD***'' ''field'',
     built_in ''pwd'' ''***PASSWORD***'' ''field'',
     built_in ''pass'' ''***PASSWORD***'' ''field'',
     built_in ''secret'' ''***SECRET***'' ''field'',
     built_in ''token'' ''***TOKEN***'' ''field'',
     built_in ''api_key'' ''***API_KEY***'' ''field'',
     built_in ''apikey'' ''***API_KEY***'' ''field'',
     built_in ''`b[A-Za-z0-9._%+-]+@[A-Za-z0-9.-]+`.[A-Z|a-z]{2,}`b'' ''[EMAIL]'' ''regex'',
     built_in ''`b`d{4}[-`s]?`d{4}[-`s]?`d{4}[-`s]?`d{4}`b'' ''[CREDIT_CARD]'' ''regex'',
     built_in ''`b`d{3}-`d{2}-`d{4}`b'' ''[SSN]'' ''regex'',
     built_in ''(?:`(`d{3}`)`s?`d{3}[-.]?`d{4}|`b`d{3}[-.]?`d{3}[-.]?`d{4}`b)'' ''[PHONE]'' ''regex'',
     built_in ''`b(?:[0-9]{1,3}`.){3}[0-9]{1,3}`b'' ''[IP_ADDRESS]'' ''regex'',
     built_in ''`bsk-[a-zA-Z0-9]{10,}`b'' ''***API_KEY***'' ''regex'',
     built_in ''`bapi[_-]?key[:`s]*[a-zA-Z0-9]{8,}`b'' ''***API_KEY***'' ''regex'',
     built_in ''`bpassword:`s+[a-zA-Z0-9]{5,}`b'' ''Password: ***PASSWORD***'' ''regex'',
     built_in ''`bpass:`s+[a-zA-Z0-9]{5,}`b'' ''Pass: ***PASSWORD***'' ''regex'',
     built_in ''`bPassword:`s+[a-zA-Z0-9]{5,}`b'' ''Password: ***PASSWORD***'' ''regex'',
     built_in ''`bPass:`s+[a-zA-Z0-9]{5,}`b'' ''Pass: ***PASSWORD***'' ''regex'',
     built_in ''`b[a-zA-Z0-9]{12,}`b'' ''REDACTED'' ''regex'',
     built_in (''`b[a-zA-Z0-9!@#$%^&*()_+=`-{}`[`]:;'' @ [CHR 0x22, CHR 0x27] @ ''|`?/.,<>~]{12,}`b'') ''REDACTED'' ''regex'',
     built_in ''`b[a-zA-Z][a-zA-Z0-9]{11,}`b'' ''REDACTED'' ''regex'',
     built_in ''password'' ''***PASSWORD***'' ''field'',
     built_in ''passwd'' ''***PASSWORD***'' ''field'',
     built_in ''pwd'' ''***PASSWORD***'' ''field'',
     built_in ''pass'' ''***PASSWORD***'' ''field'']"

definition NewPIIMasker :: "'r regex_engine \<Rightarrow> 'r pii_masker option" where
  "NewPIIMasker eng = NewPIIMaskerWithRegistry eng default_rules None"

definition MaskField :: "'r regex_engine \<Rightarrow> 'r pii_masker \<Rightarrow> typed_field \<Rightarrow> typed_field" where
  "MaskField eng pm field = maskFieldFast eng (pm_registry pm) field (pm_activeState pm)"

definition pm_MaskFields :: "'r regex_engine \<Rightarrow> 'r pii_masker \<Rightarrow> typed_field list \<Rightarrow> typed_field list" where
  "pm_MaskFields eng pm fs = maskFields eng (pm_registry pm) fs (pm_activeState pm)"

definition pm_MaskString :: "'r regex_engine \<Rightarrow> 'r pii_masker \<Rightarrow> string \<Rightarrow> string" where
  "pm_MaskString eng pm input = maskString eng input (pm_activeState pm)"

definition GetPatterns :: "'r pii_masker \<Rightarrow> string set" where
  "GetPatterns pm = dom (pm_patternNames pm)"

section \<open>What the built-in rules hide\<close>

definition hidden_names :: "(string \<times> string) list" where
  "hidden_names = [(''password'', ''***PASSWORD***''), (''passwd'', ''***PASSWORD***''), (''pwd'', ''***PASSWORD***''),
     (''pass'', ''***PASSWORD***''), (''secret'', ''***SECRET***''), (''token'', ''***TOKEN***''), (''api_key'', ''***API_KEY***''),
     (''apikey'', ''***API_KEY***'')]"

text \<open>The field rules of a snapshot are the field rules among the stored ones, the last of a name winning.\<close>

lemma build_snapshot_fieldRules:
  "build_snapshot eng snap rules = Inr sn \<Longrightarrow>
     fieldRules sn = foldl (\<lambda>m (p, q). m(p \<mapsto> q)) (fieldRules snap)
       (map (\<lambda>r. (mr_Pattern r, mr_Replace r)) (filter (\<lambda>r. mr_Type r = ''field'') rules))"
  by (induction rules arbitrary: snap) (auto split: if_splits option.splits)

lemma default_field_rules:
  "map (\<lambda>r. (mr_Pattern r, mr_Replace r)) (filter (\<lambda>r. mr_Type r = ''field'') default_rules) =
     hidden_names @ take 4 hidden_names"
  by (simp add: default_rules_def built_in_def raw_def hidden_names_def)

lemma foldl_map_upd: "foldl (\<lambda>m (p, q). m(p \<mapsto> q)) m ps = m ++ map_of (rev ps)"
  by (induction ps arbitrary: m) (auto simp: map_add_upd_left)

lemma hidden_names_map: "map_of (rev (hidden_names @ take 4 hidden_names)) = map_of hidden_names"
  by (rule ext) (simp add: hidden_names_def)

lemma default_masker:
  assumes "list_all (compiles eng) default_rules"
  shows "\<exists>pm sn. NewPIIMasker eng = Some pm \<and> pm_activeState pm = Some sn \<and> pm_registry pm = None
    \<and> fieldRules sn = map_of hidden_names \<and> pm_patternNames pm = Map.empty"
proof -
  obtain sn where sn: "build_snapshot eng \<lparr>fieldRules = Map.empty, regexRules = []\<rparr> default_rules = Inr sn"
    using build_snapshot_Inr [OF assms] by blast
  have "fieldRules sn = map_of hidden_names"
    using build_snapshot_fieldRules [OF sn] unfolding default_field_rules foldl_map_upd hidden_names_map by simp
  with sn show ?thesis by (simp add: NewPIIMasker_def NewPIIMaskerWithRegistry_def updateSnapshot_def publishRules_def)
qed

text \<open>
  When the built-in patterns compile, the masker without a registry replaces the value of every field with one of the
  eight built-in names, whatever its type, by the mask of the name, in both places a field keeps its value.
\<close>

theorem built_in_names_hidden:
  assumes "list_all (compiles eng) default_rules" and "(mask_key f, m) \<in> set hidden_names"
  shows "\<exists>pm. NewPIIMasker eng = Some pm \<and> tf_Val (MaskField eng pm f) = StringValue m \<and> tf_Value (MaskField eng pm f) = GString m"
proof -
  obtain pm sn where p: "NewPIIMasker eng = Some pm" "pm_activeState pm = Some sn" "pm_registry pm = None"
    "fieldRules sn = map_of hidden_names" using default_masker [OF assms(1)] by blast
  have "distinct (map fst hidden_names)" by (simp add: hidden_names_def)
  then have "map_of hidden_names (mask_key f) = Some m" using assms(2) by simp
  with p show ?thesis
    by (auto simp: MaskField_def maskFieldFast_def registry_mask_def setMaskedString_def mask_key_def Let_def)
qed

theorem built_in_names_hidden_witness:
  "\<exists>pm. NewPIIMasker prefix_engine = Some pm
    \<and> tf_Val (MaskField prefix_engine pm (any_field ''token'' (GInt 5))) = StringValue ''***TOKEN***''
    \<and> tf_Value (MaskField prefix_engine pm (any_field ''token'' (GInt 5))) = GString ''***TOKEN***''"
  by (rule built_in_names_hidden)
    (simp_all add: prefix_engine_def compiles_def validateRule_def default_rules_def built_in_def hidden_names_def mask_key_def any_field_def)

text \<open>The names are compared as they are: the same name in capitals has no rule of its own.\<close>

lemma capital_name_has_no_rule:
  "list_all (compiles eng) default_rules \<Longrightarrow> NewPIIMasker eng = Some pm \<Longrightarrow> pm_activeState pm = Some sn \<Longrightarrow> fieldRules sn ''Password'' = None"
  using default_masker [of eng] by (auto simp: hidden_names_def)

text \<open>The built-in masker names no pattern, so none of its patterns can be removed by a name.\<close>

lemma built_in_patterns_unnamed:
  "list_all (compiles eng) default_rules \<Longrightarrow> NewPIIMasker eng = Some pm \<Longrightarrow> GetPatterns pm = {} \<and> RemovePattern eng pm name = pm"
  using default_masker [of eng] by (auto simp: GetPatterns_def RemovePattern_def)

end
