(* ===== verification/Worker_Pool.thy ===== *)
theory Worker_Pool
  imports Halo_Prelude "HOL-Library.Multiset" "HOL-Library.AList"
begin

text \<open>
  The worker pool for asynchronous entries, \<^verbatim>\<open>pool/worker_pool.go\<close>: callers submit entries to a buffered
  channel without blocking, workers write them and give them back to the entry pool, and \<open>Close\<close> signals the
  workers, waits until they have drained the channel and closes it. The package keeps one active pool for each
  number of workers.

  Goroutines interleave at the operations on shared state: a load or a swap of an atomic variable, a send or a
  receive, closing a channel and the wait of \<open>Close\<close> are one step each. Where \<open>select\<close> has two ready cases
  the event says which one it takes. An entry in the channel carries, for the statements only, whether the pool was
  already stopped when it was sent.
\<close>

section \<open>State\<close>

type_synonym task = "nat \<times> bool"   \<comment> \<open>the entry; sent after the pool was stopped\<close>

datatype worker_pc = WLoop | WHold task | WDrain | WDrainHold task | WDone
datatype caller_pc = SIdle | SEntered nat | SNotStopped nat | SHasWriter nat | SPanicked
datatype closer_pc = CIdle | CSwapped | CWaiting | CDrained | CReturned

record pool_state =
  ws_taskCh :: "task list"
  ws_capacity :: nat
  ws_taskClosed :: bool
  ws_stopClosed :: bool
  ws_stopped :: bool
  ws_writer :: "nat option option"   \<comment> \<open>nil pointer, pointer to a nil function, pointer to a function\<close>
  ws_workers :: "worker_pc list"
  ws_callers :: "caller_pc list"
  ws_closers :: "closer_pc list"
  ws_accepted :: "task list"         \<comment> \<open>entries for which \<open>Submit\<close> returned true\<close>
  ws_refused :: "nat list"
  ws_written :: "(nat \<times> task) list"  \<comment> \<open>writer and entry\<close>
  ws_released :: "task list"

definition newWorkerPool :: "int \<Rightarrow> nat \<Rightarrow> nat \<Rightarrow> pool_state" where
  "newWorkerPool workerCount callers closers =
     (let n = (if workerCount \<le> 0 then 1 else nat workerCount)
      in \<lparr>ws_taskCh = [], ws_capacity = n * 64, ws_taskClosed = False, ws_stopClosed = False, ws_stopped = False,
          ws_writer = None, ws_workers = replicate n WLoop, ws_callers = replicate callers SIdle,
          ws_closers = replicate closers CIdle, ws_accepted = [], ws_refused = [], ws_written = [], ws_released = []\<rparr>)"

definition wp_SetWriter :: "nat option \<Rightarrow> pool_state \<Rightarrow> pool_state" where
  "wp_SetWriter w p = p\<lparr>ws_writer := Some w\<rparr>"

definition GetWriter :: "pool_state \<Rightarrow> nat option" where
  "GetWriter p = (case ws_writer p of None \<Rightarrow> None | Some w \<Rightarrow> w)"

definition GetBufferCurrent :: "pool_state \<Rightarrow> nat" where
  "GetBufferCurrent p = length (ws_taskCh p)"

definition GetBufferSize :: "pool_state \<Rightarrow> nat" where
  "GetBufferSize p = ws_capacity p"

section \<open>Steps\<close>

text \<open>\<open>processEntry\<close>: the writer, when there is one, then the release.\<close>

definition processEntry :: "task \<Rightarrow> pool_state \<Rightarrow> pool_state" where
  "processEntry t p =
     (let p = (case GetWriter p of None \<Rightarrow> p | Some w \<Rightarrow> p\<lparr>ws_written := ws_written p @ [(w, t)]\<rparr>)
      in p\<lparr>ws_released := ws_released p @ [t]\<rparr>)"

text \<open>
  A worker in its loop, in the case the channel of entries is taken, and in \<open>drain\<close>; a receive from
  an empty open channel blocks in the loop and takes the default case in \<open>drain\<close>.
\<close>

fun worker_step :: "worker_pc \<Rightarrow> pool_state \<Rightarrow> (worker_pc \<times> pool_state) option" where
  "worker_step WLoop p =
     (case ws_taskCh p of
        t # ts \<Rightarrow> Some (WHold t, p\<lparr>ws_taskCh := ts\<rparr>)
      | [] \<Rightarrow> if ws_taskClosed p then Some (WDone, p) else None)"
| "worker_step (WHold t) p = Some (WLoop, processEntry t p)"
| "worker_step WDrain p =
     (case ws_taskCh p of
        t # ts \<Rightarrow> Some (WDrainHold t, p\<lparr>ws_taskCh := ts\<rparr>)
      | [] \<Rightarrow> Some (WDone, p))"
| "worker_step (WDrainHold t) p = Some (WDrain, processEntry t p)"
| "worker_step WDone p = None"

fun worker_stop :: "worker_pc \<Rightarrow> pool_state \<Rightarrow> (worker_pc \<times> pool_state) option" where
  "worker_stop WLoop p = (if ws_stopClosed p then Some (WDrain, p) else None)"
| "worker_stop _ p = None"

text \<open>\<open>Submit\<close>: the two fast-path checks and the send, which panics on a closed channel.\<close>

definition send_task :: "nat \<Rightarrow> pool_state \<Rightarrow> caller_pc \<times> pool_state" where
  "send_task e p =
     (if ws_taskClosed p then (SPanicked, p)
      else if length (ws_taskCh p) < ws_capacity p
      then let t = (e, ws_stopped p)
           in (SIdle, p\<lparr>ws_taskCh := ws_taskCh p @ [t], ws_accepted := ws_accepted p @ [t]\<rparr>)
      else (SIdle, p\<lparr>ws_refused := ws_refused p @ [e]\<rparr>))"

fun Submit :: "caller_pc \<Rightarrow> pool_state \<Rightarrow> (caller_pc \<times> pool_state) option" where
  "Submit (SEntered e) p =
     Some (if ws_stopped p then (SIdle, p\<lparr>ws_refused := ws_refused p @ [e]\<rparr>) else (SNotStopped e, p))"
| "Submit (SNotStopped e) p =
     Some (if GetWriter p = None then (SIdle, p\<lparr>ws_refused := ws_refused p @ [e]\<rparr>) else (SHasWriter e, p))"
| "Submit (SHasWriter e) p = Some (send_task e p)"
| "Submit _ p = None"

text \<open>\<open>Close\<close>: the swap, closing the stop channel, the wait for the workers, closing the channel of entries.\<close>

fun wp_Close :: "closer_pc \<Rightarrow> pool_state \<Rightarrow> (closer_pc \<times> pool_state) option" where
  "wp_Close CIdle p = Some (if ws_stopped p then (CReturned, p) else (CSwapped, p\<lparr>ws_stopped := True\<rparr>))"
| "wp_Close CSwapped p = Some (CWaiting, p\<lparr>ws_stopClosed := True\<rparr>)"
| "wp_Close CWaiting p = (if list_all (\<lambda>w. w = WDone) (ws_workers p) then Some (CDrained, p) else None)"
| "wp_Close CDrained p = Some (CReturned, p\<lparr>ws_taskClosed := True\<rparr>)"
| "wp_Close CReturned p = None"

datatype pool_event = PSubmit nat nat | PCaller nat | PWorker nat | PStop nat | PCloser nat | PSetWriter "nat option"

definition at_worker :: "(worker_pc \<Rightarrow> pool_state \<Rightarrow> (worker_pc \<times> pool_state) option) \<Rightarrow> nat \<Rightarrow> pool_state \<Rightarrow> pool_state option" where
  "at_worker f i p =
     (if i < length (ws_workers p)
      then map_option (\<lambda>(w, q). q\<lparr>ws_workers := (ws_workers p)[i := w]\<rparr>) (f (ws_workers p ! i) p) else None)"

definition at_caller :: "(caller_pc \<Rightarrow> pool_state \<Rightarrow> (caller_pc \<times> pool_state) option) \<Rightarrow> nat \<Rightarrow> pool_state \<Rightarrow> pool_state option" where
  "at_caller f i p =
     (if i < length (ws_callers p)
      then map_option (\<lambda>(c, q). q\<lparr>ws_callers := (ws_callers p)[i := c]\<rparr>) (f (ws_callers p ! i) p) else None)"

definition at_closer :: "(closer_pc \<Rightarrow> pool_state \<Rightarrow> (closer_pc \<times> pool_state) option) \<Rightarrow> nat \<Rightarrow> pool_state \<Rightarrow> pool_state option" where
  "at_closer f i p =
     (if i < length (ws_closers p)
      then map_option (\<lambda>(c, q). q\<lparr>ws_closers := (ws_closers p)[i := c]\<rparr>) (f (ws_closers p ! i) p) else None)"

text \<open>An event that is not enabled is no step.\<close>

fun wp_step :: "pool_event \<Rightarrow> pool_state \<Rightarrow> pool_state option" where
  "wp_step (PSubmit i e) p = at_caller (\<lambda>c q. if c = SIdle then Some (SEntered e, q) else None) i p"
| "wp_step (PCaller i) p = at_caller Submit i p"
| "wp_step (PWorker i) p = at_worker worker_step i p"
| "wp_step (PStop i) p = at_worker worker_stop i p"
| "wp_step (PCloser i) p = at_closer wp_Close i p"
| "wp_step (PSetWriter w) p = Some (wp_SetWriter w p)"

fun wp_run :: "pool_event list \<Rightarrow> pool_state \<Rightarrow> pool_state option" where
  "wp_run [] p = Some p"
| "wp_run (ev # evs) p = (case wp_step ev p of None \<Rightarrow> None | Some q \<Rightarrow> wp_run evs q)"

lemma wp_run_append: "wp_run (xs @ ys) p = (case wp_run xs p of None \<Rightarrow> None | Some q \<Rightarrow> wp_run ys q)"
  by (induction xs arbitrary: p) (auto split: option.splits)

lemma wp_run_invariant:
  assumes "\<And>ev p q. wp_step ev p = Some q \<Longrightarrow> ev \<in> set evs \<Longrightarrow> I p \<Longrightarrow> I q"
  shows "wp_run evs p = Some q \<Longrightarrow> I p \<Longrightarrow> I q"
  using assms by (induction evs arbitrary: p) (auto split: option.splits)

section \<open>Invariants\<close>

fun held :: "worker_pc \<Rightarrow> task list" where
  "held (WHold t) = [t]"
| "held (WDrainHold t) = [t]"
| "held _ = []"

definition in_hand :: "pool_state \<Rightarrow> task list" where
  "in_hand p = concat (map held (ws_workers p))"

definition all_done :: "pool_state \<Rightarrow> bool" where
  "all_done p = list_all (\<lambda>w. w = WDone) (ws_workers p)"

fun seen_stop :: "worker_pc \<Rightarrow> bool" where
  "seen_stop WLoop = False"
| "seen_stop (WHold t) = False"
| "seen_stop _ = True"

text \<open>The books balance, and each stage of the shutdown has the stages before it behind it.\<close>

definition balanced :: "pool_state \<Rightarrow> bool" where
  "balanced p \<longleftrightarrow> mset (ws_accepted p) = mset (ws_taskCh p) + mset (in_hand p) + mset (ws_released p)
     \<and> length (ws_taskCh p) \<le> ws_capacity p"

definition staged :: "pool_state \<Rightarrow> bool" where
  "staged p \<longleftrightarrow> (ws_stopClosed p \<longrightarrow> ws_stopped p) \<and> (ws_taskClosed p \<longrightarrow> ws_stopClosed p \<and> all_done p)
     \<and> (\<forall>w \<in> set (ws_workers p). seen_stop w \<longrightarrow> ws_stopClosed p)
     \<and> (WDone \<in> set (ws_workers p) \<longrightarrow> list_all snd (ws_taskCh p))
     \<and> (\<forall>c \<in> set (ws_closers p). (c = CSwapped \<longrightarrow> ws_stopped p) \<and> (c = CWaiting \<longrightarrow> ws_stopClosed p)
          \<and> (c = CDrained \<longrightarrow> ws_stopClosed p \<and> all_done p))"

text \<open>While no writer is taken away, every entry on its way has one.\<close>

definition writer_set :: "pool_state \<Rightarrow> bool" where
  "writer_set p \<longleftrightarrow> map snd (ws_written p) = ws_released p
     \<and> (GetWriter p = None \<longrightarrow> ws_taskCh p = [] \<and> (\<forall>w \<in> set (ws_workers p). held w = []) \<and> (\<forall>c \<in> set (ws_callers p). \<forall>e. c \<noteq> SHasWriter e))"

lemma concat_update:
  "i < length ws \<Longrightarrow> mset (concat (map held (ws[i := w]))) + mset (held (ws ! i)) = mset (concat (map held ws)) + mset (held w)"
  by (induction ws arbitrary: i) (auto split: nat.split simp: less_Suc_eq_0_disj)

lemma processEntry_parts:
  "ws_taskCh (processEntry t p) = ws_taskCh p" "ws_capacity (processEntry t p) = ws_capacity p"
  "ws_taskClosed (processEntry t p) = ws_taskClosed p" "ws_stopClosed (processEntry t p) = ws_stopClosed p"
  "ws_stopped (processEntry t p) = ws_stopped p" "ws_writer (processEntry t p) = ws_writer p"
  "ws_workers (processEntry t p) = ws_workers p" "ws_callers (processEntry t p) = ws_callers p"
  "ws_closers (processEntry t p) = ws_closers p" "ws_accepted (processEntry t p) = ws_accepted p"
  "ws_released (processEntry t p) = ws_released p @ [t]" "ws_refused (processEntry t p) = ws_refused p"
  by (simp_all add: processEntry_def Let_def split: option.splits)

lemma all_done_update: "all_done p \<Longrightarrow> i < length (ws_workers p) \<Longrightarrow> ws_workers p ! i = WDone"
  by (simp add: all_done_def list_all_length)

lemma new_pool_inv: "balanced (newWorkerPool n c k)" "staged (newWorkerPool n c k)" "writer_set (newWorkerPool n c k)"
  by (auto simp: newWorkerPool_def balanced_def staged_def writer_set_def in_hand_def all_done_def Let_def GetWriter_def)

lemma worker_step_balanced:
  assumes "balanced p" "at_worker worker_step i p = Some q \<or> at_worker worker_stop i p = Some q"
  shows "balanced q"
proof -
  have i: "i < length (ws_workers p)" using assms(2) by (auto simp: at_worker_def split: if_splits)
  from concat_update [OF i] have c: "\<And>w. mset (concat (map held ((ws_workers p)[i := w]))) + mset (held (ws_workers p ! i)) =
    mset (concat (map held (ws_workers p))) + mset (held w)" .
  show ?thesis
    using assms c [of WLoop] c [of WDrain] c [of WDone] c [of "WHold (hd (ws_taskCh p))"] c [of "WDrainHold (hd (ws_taskCh p))"]
    by (cases "ws_workers p ! i")
      (auto simp: at_worker_def balanced_def in_hand_def processEntry_parts split: if_splits list.splits)
qed

lemma caller_step_balanced:
  assumes "balanced p" "at_caller Submit i p = Some q"
  shows "balanced q"
  using assms
  by (cases "ws_callers p ! i")
    (auto simp: at_caller_def balanced_def in_hand_def send_task_def Let_def split: if_splits)

lemma closer_step_balanced:
  assumes "balanced p" "at_closer wp_Close i p = Some q"
  shows "balanced q"
  using assms
  by (cases "ws_closers p ! i") (auto simp: at_closer_def balanced_def in_hand_def split: if_splits)

lemma step_balanced: "wp_step ev p = Some q \<Longrightarrow> balanced p \<Longrightarrow> balanced q"
  by (cases ev)
    (auto intro: worker_step_balanced caller_step_balanced closer_step_balanced simp: wp_SetWriter_def,
     auto simp: at_caller_def balanced_def in_hand_def split: if_splits)

lemma updated_member: "w \<in> set (xs[i := x]) \<Longrightarrow> w = x \<or> w \<in> set xs"
  using set_update_subset_insert by fastforce

lemma staged_all_done: "staged p \<Longrightarrow> ws_taskClosed p \<Longrightarrow> i < length (ws_workers p) \<Longrightarrow> ws_workers p ! i = WDone"
  by (auto simp: staged_def intro: all_done_update)

text \<open>A step of a worker that is not done leaves no closer behind the wait.\<close>

lemma staged_worker:
  assumes "staged p" "i < length (ws_workers p)" "ws_workers p ! i \<noteq> WDone" "seen_stop w \<Longrightarrow> ws_stopClosed p"
    and "ws_taskCh q = ws_taskCh p \<or> ws_taskCh q = tl (ws_taskCh p)" "w = WDone \<Longrightarrow> ws_taskCh q = []"
    and "ws_stopClosed q = ws_stopClosed p" "ws_taskClosed q = ws_taskClosed p" "ws_stopped q = ws_stopped p"
    and "ws_closers q = ws_closers p"
  shows "staged (q\<lparr>ws_workers := (ws_workers p)[i := w]\<rparr>)"
proof -
  have nd: "\<not> all_done p" using assms(2,3) by (auto simp: all_done_def list_all_length)
  have late: "list_all snd (ws_taskCh q)" if "list_all snd (ws_taskCh p)"
    using assms(5) that by (cases "ws_taskCh p") auto
  show ?thesis
    using assms(1,4,6-10) nd late unfolding staged_def
    by (auto dest!: updated_member)
qed

lemma worker_step_staged:
  assumes "staged p" "at_worker worker_step i p = Some q \<or> at_worker worker_stop i p = Some q"
  shows "staged q"
proof -
  have i: "i < length (ws_workers p)" using assms(2) by (auto simp: at_worker_def split: if_splits)
  have s: "seen_stop (ws_workers p ! i) \<Longrightarrow> ws_stopClosed p" using assms(1) i by (auto simp: staged_def)
  have open_loop: "ws_workers p ! i = WLoop \<Longrightarrow> \<not> ws_taskClosed p"
    using staged_all_done [OF assms(1) _ i] by auto
  show ?thesis
    using assms(2) i s open_loop
    by (cases "ws_workers p ! i")
      (auto simp: at_worker_def processEntry_parts intro!: staged_worker [OF assms(1)] split: if_splits list.splits)
qed

lemma staged_frame:
  assumes "staged p" "ws_stopClosed q = ws_stopClosed p" "ws_taskClosed q = ws_taskClosed p" "ws_stopped q = ws_stopped p"
    and "ws_workers q = ws_workers p" "ws_closers q = ws_closers p"
    and "WDone \<in> set (ws_workers p) \<Longrightarrow> list_all snd (ws_taskCh p) \<Longrightarrow> list_all snd (ws_taskCh q)"
  shows "staged q"
  using assms(1,7) by (simp add: staged_def all_done_def assms(2-6))

lemma done_stopped: "staged p \<Longrightarrow> WDone \<in> set (ws_workers p) \<Longrightarrow> ws_stopped p"
  unfolding staged_def using seen_stop.simps(5) by blast

lemma caller_step_staged:
  assumes "staged p" "at_caller Submit i p = Some q"
  shows "staged q"
  by (rule staged_frame [OF assms(1)]; use assms(2) done_stopped [OF assms(1)] in
      \<open>cases "ws_callers p ! i"; auto simp: at_caller_def send_task_def Let_def split: if_splits\<close>)

text \<open>A closer moves on when what its next stage needs is there.\<close>

lemma staged_closer:
  assumes "staged p" "ws_workers q = ws_workers p" "ws_taskCh q = ws_taskCh p" "ws_closers q = (ws_closers p)[i := c]"
    and "ws_stopped p \<Longrightarrow> ws_stopped q" "ws_stopClosed p \<Longrightarrow> ws_stopClosed q" "ws_stopClosed q \<Longrightarrow> ws_stopped q"
    and "ws_taskClosed q \<Longrightarrow> ws_taskClosed p \<or> (ws_stopClosed q \<and> all_done p)"
    and "c = CSwapped \<Longrightarrow> ws_stopped q" "c = CWaiting \<Longrightarrow> ws_stopClosed q" "c = CDrained \<Longrightarrow> ws_stopClosed q \<and> all_done p"
  shows "staged q"
proof -
  have d: "all_done q = all_done p" using assms(2) by (simp add: all_done_def)
  have "(k = CSwapped \<longrightarrow> ws_stopped q) \<and> (k = CWaiting \<longrightarrow> ws_stopClosed q) \<and> (k = CDrained \<longrightarrow> ws_stopClosed q \<and> all_done p)"
    if "k \<in> set (ws_closers q)" for k
    using updated_member [OF that [unfolded assms(4)]]
  proof
    assume "k \<in> set (ws_closers p)"
    with assms(1,5,6) show ?thesis unfolding staged_def by blast
  qed (use assms(9-11) in blast)
  moreover have "ws_taskClosed q \<longrightarrow> ws_stopClosed q \<and> all_done p" using assms(1,6,8) unfolding staged_def by blast
  moreover have "\<forall>w \<in> set (ws_workers q). seen_stop w \<longrightarrow> ws_stopClosed q"
    using assms(1,2,6) unfolding staged_def by auto
  moreover have "WDone \<in> set (ws_workers q) \<longrightarrow> list_all snd (ws_taskCh q)"
    using assms(1-3) unfolding staged_def by simp
  ultimately show ?thesis
    using assms(7) unfolding staged_def d by simp
qed

lemma closer_step_staged:
  assumes "staged p" "at_closer wp_Close i p = Some q"
  shows "staged q"
proof -
  have i: "i < length (ws_closers p)" using assms(2) by (auto simp: at_closer_def split: if_splits)
  then have m: "ws_closers p ! i \<in> set (ws_closers p)" by simp
  have stages: "ws_closers p ! i = CSwapped \<Longrightarrow> ws_stopped p" "ws_closers p ! i = CWaiting \<Longrightarrow> ws_stopClosed p"
    "ws_closers p ! i = CDrained \<Longrightarrow> ws_stopClosed p \<and> all_done p" "ws_stopClosed p \<Longrightarrow> ws_stopped p"
    using assms(1) m unfolding staged_def by blast+
  obtain c q0 where c: "wp_Close (ws_closers p ! i) p = Some (c, q0)" "q = q0\<lparr>ws_closers := (ws_closers p)[i := c]\<rparr>"
    using assms(2) i by (auto simp: at_closer_def)
  show ?thesis
    by (rule staged_closer [OF assms(1), where i = i and c = c])
      (use c stages in \<open>cases "ws_closers p ! i"; auto simp: all_done_def split: if_splits\<close>)+
qed

lemma step_staged:
  assumes "wp_step ev p = Some q" "staged p"
  shows "staged q"
proof (cases ev)
  case (PSubmit i e)
  with assms show ?thesis by (auto simp: at_caller_def elim!: staged_frame split: if_splits)
next
  case (PSetWriter w)
  with assms show ?thesis by (auto simp: wp_SetWriter_def elim!: staged_frame)
qed (use assms in \<open>auto intro: worker_step_staged caller_step_staged closer_step_staged\<close>)

lemma worker_step_writer_set:
  assumes "writer_set p" "at_worker worker_step i p = Some q \<or> at_worker worker_stop i p = Some q"
  shows "writer_set q"
proof -
  have i: "i < length (ws_workers p)" using assms(2) by (auto simp: at_worker_def split: if_splits)
  then have h: "GetWriter p = None \<Longrightarrow> held (ws_workers p ! i) = []" using assms(1) by (simp add: writer_set_def)
  show ?thesis
  proof (cases "GetWriter p")
    case None
    with assms h i show ?thesis
      by (cases "ws_workers p ! i")
        (auto simp: at_worker_def writer_set_def GetWriter_def dest!: updated_member split: if_splits)
  next
    case (Some v)
    with assms h i show ?thesis
      by (cases "ws_workers p ! i")
        (auto simp: at_worker_def writer_set_def GetWriter_def processEntry_def Let_def split: if_splits list.splits)
  qed
qed

lemma caller_step_writer_set:
  assumes "writer_set p" "at_caller Submit i p = Some q"
  shows "writer_set q"
proof -
  from assms(2) have i: "i < length (ws_callers p)" by (auto simp: at_caller_def split: if_splits)
  then have m: "ws_callers p ! i \<in> set (ws_callers p)" by simp
  show ?thesis
    using assms i m
    by (cases "ws_callers p ! i")
      (auto simp: at_caller_def writer_set_def GetWriter_def send_task_def Let_def dest!: updated_member split: if_splits)
qed

lemma step_writer_set:
  assumes "wp_step ev p = Some q" "ev \<noteq> PSetWriter None" "writer_set p"
  shows "writer_set q"
proof (cases ev)
  case (PCloser i)
  with assms show ?thesis
    by (cases "ws_closers p ! i") (auto simp: at_closer_def writer_set_def GetWriter_def split: if_splits)
next
  case (PSubmit i e)
  with assms show ?thesis
    by (auto simp: at_caller_def writer_set_def GetWriter_def dest!: updated_member split: if_splits)
next
  case (PSetWriter w)
  with assms show ?thesis by (cases w) (auto simp: wp_SetWriter_def writer_set_def GetWriter_def)
qed (use assms in \<open>auto intro: worker_step_writer_set caller_step_writer_set\<close>)

section \<open>What a pool promises\<close>

lemma early_done:
  assumes "balanced p" "staged p" "ws_taskClosed p" "0 < length (ws_workers p)"
  shows "filter_mset (\<lambda>t. \<not> snd t) (mset (ws_accepted p)) = filter_mset (\<lambda>t. \<not> snd t) (mset (ws_released p))"
proof -
  have d: "all_done p" using assms(2,3) unfolding staged_def by blast
  then have "WDone \<in> set (ws_workers p)" using assms(4) nth_mem [OF assms(4)] all_done_update by fastforce
  then have "list_all snd (ws_taskCh p)" using assms(2) unfolding staged_def by blast
  then have "filter (\<lambda>t. \<not> snd t) (ws_taskCh p) = []" by (simp add: filter_empty_conv list_all_iff)
  then have t: "filter_mset (\<lambda>t. \<not> snd t) (mset (ws_taskCh p)) = {#}" by (metis mset_filter mset.simps(1))
  have "in_hand p = []" using d by (auto simp: in_hand_def all_done_def list_all_iff)
  then show ?thesis using assms(1) t by (simp add: balanced_def)
qed

lemma step_workers: "wp_step ev p = Some q \<Longrightarrow> length (ws_workers q) = length (ws_workers p)"
proof (cases ev)
  case (PCaller i)
  then show "wp_step ev p = Some q \<Longrightarrow> length (ws_workers q) = length (ws_workers p)"
    by (cases "ws_callers p ! i") (auto simp: at_caller_def send_task_def Let_def split: if_splits)
next
  case (PCloser i)
  then show "wp_step ev p = Some q \<Longrightarrow> length (ws_workers q) = length (ws_workers p)"
    by (cases "ws_closers p ! i") (auto simp: at_closer_def split: if_splits)
qed (auto simp: at_worker_def at_caller_def wp_SetWriter_def split: if_splits)

text \<open>
  C14: Whatever the interleaving of callers, workers and closers, an entry that \<open>Submit\<close> took is in exactly one place: in
  the channel, with one worker, or written and released, once; the channel never holds more than its capacity. When
  \<open>Close\<close> has closed the channel everything taken before the pool was stopped has been written.
\<close>

theorem worker_pool_writes_accepted:
  assumes "wp_run evs (newWorkerPool n callers closers) = Some p" and "PSetWriter None \<notin> set evs"
  shows "mset (ws_accepted p) = mset (ws_taskCh p) + mset (in_hand p) + mset (ws_released p)
    \<and> map snd (ws_written p) = ws_released p \<and> length (ws_taskCh p) \<le> ws_capacity p
    \<and> (ws_taskClosed p \<longrightarrow> filter_mset (\<lambda>t. \<not> snd t) (mset (ws_accepted p)) = filter_mset (\<lambda>t. \<not> snd t) (mset (ws_released p)))"
proof -
  let ?I = "\<lambda>p. balanced p \<and> staged p \<and> writer_set p \<and> 0 < length (ws_workers p)"
  have "?I p"
  proof (rule wp_run_invariant [OF _ assms(1)])
    show "?I q" if "wp_step ev r = Some q" "ev \<in> set evs" "?I r" for ev r q
      using that assms(2) step_balanced [OF that(1)] step_staged [OF that(1)] step_writer_set [OF that(1)] step_workers [OF that(1)]
      by auto
    show "?I (newWorkerPool n callers closers)"
      by (simp add: new_pool_inv) (simp add: newWorkerPool_def Let_def)
  qed
  then have b: "balanced p" and st: "staged p" and w: "writer_set p" and l: "0 < length (ws_workers p)" by blast+
  from early_done [OF b st _ l] b w show ?thesis unfolding balanced_def writer_set_def by blast
qed

text \<open>One worker, one caller and one closer; the entry is sent before the stop and written.\<close>

definition orderly :: "pool_event list" where
  "orderly = [PSetWriter (Some 3), PSubmit 0 7, PCaller 0, PCaller 0, PCaller 0, PCloser 0, PCloser 0,
     PStop 0, PWorker 0, PWorker 0, PWorker 0, PCloser 0, PCloser 0]"

lemmas pool_eval = newWorkerPool_def wp_SetWriter_def GetWriter_def send_task_def processEntry_def at_worker_def
  at_caller_def at_closer_def Let_def

theorem worker_pool_writes_accepted_witness:
  "\<exists>p. wp_run orderly (newWorkerPool 1 1 1) = Some p \<and> ws_closers p = [CReturned] \<and> ws_written p = [(3, (7, False))] \<and>
     mset (ws_accepted p) = mset (ws_taskCh p) + mset (in_hand p) + mset (ws_released p)
    \<and> map snd (ws_written p) = ws_released p \<and> length (ws_taskCh p) \<le> ws_capacity p
    \<and> (ws_taskClosed p \<longrightarrow> filter_mset (\<lambda>t. \<not> snd t) (mset (ws_accepted p)) = filter_mset (\<lambda>t. \<not> snd t) (mset (ws_released p)))"
proof -
  obtain p where p: "wp_run orderly (newWorkerPool 1 1 1) = Some p" "ws_closers p = [CReturned]" "ws_written p = [(3, (7, False))]"
    by (simp add: orderly_def pool_eval)
  have "PSetWriter None \<notin> set orderly" by (simp add: orderly_def)
  from worker_pool_writes_accepted [OF p(1) this] p show ?thesis by blast
qed

text \<open>The comment on closing the channel, that no submission succeeds any more, overlooks a caller that has passed the checks.\<close>

lemma submit_during_Close_panics:
  "\<exists>p. wp_run [PSetWriter (Some 3), PSubmit 0 7, PCaller 0, PCaller 0, PCloser 0, PCloser 0, PStop 0, PWorker 0,
       PCloser 0, PCloser 0, PCaller 0] (newWorkerPool 1 1 1) = Some p \<and> ws_callers p = [SPanicked]"
  by (simp add: pool_eval)

lemma submit_during_Close_loses_entry:
  "\<exists>p. wp_run [PSetWriter (Some 3), PSubmit 0 7, PCaller 0, PCaller 0, PCloser 0, PCloser 0, PStop 0, PWorker 0,
       PCaller 0, PCloser 0, PCloser 0] (newWorkerPool 1 1 1) = Some p
     \<and> ws_closers p = [CReturned] \<and> ws_accepted p = [(7, True)] \<and> ws_written p = [] \<and> all_done p"
  by (simp add: pool_eval all_done_def)

text \<open>A second \<open>Close\<close> returns while the first still waits for the workers.\<close>

lemma second_Close_returns_early:
  "\<exists>p. wp_run [PSetWriter (Some 3), PSubmit 0 7, PCaller 0, PCaller 0, PCaller 0, PCloser 0, PCloser 1] (newWorkerPool 1 1 2) = Some p
     \<and> ws_closers p = [CSwapped, CReturned] \<and> ws_taskCh p = [(7, False)] \<and> ws_written p = []"
  by (simp add: pool_eval numeral_2_eq_2)

section \<open>\<open>Close\<close> returns\<close>

fun effort :: "worker_pc \<Rightarrow> nat" where
  "effort WLoop = 2"
| "effort (WHold t) = 3"
| "effort WDrain = 1"
| "effort (WDrainHold t) = 2"
| "effort WDone = 0"

definition potential :: "pool_state \<Rightarrow> nat" where
  "potential p = 3 * length (ws_taskCh p) + sum_list (map effort (ws_workers p))"

definition worker_event :: "pool_event \<Rightarrow> bool" where
  "worker_event ev = (case ev of PWorker i \<Rightarrow> True | PStop i \<Rightarrow> True | _ \<Rightarrow> False)"

lemma sum_effort_update:
  "i < length ws \<Longrightarrow> sum_list (map effort (ws[i := w])) + effort (ws ! i) = sum_list (map effort ws) + effort w"
  by (induction ws arbitrary: i) (auto split: nat.split simp: less_Suc_eq_0_disj)

lemma worker_event_lowers:
  assumes "wp_step ev p = Some q" "worker_event ev"
  shows "potential q < potential p \<and> ws_stopClosed q = ws_stopClosed p"
proof -
  from assms obtain i where s: "at_worker worker_step i p = Some q \<or> at_worker worker_stop i p = Some q"
    by (cases ev) (auto simp: worker_event_def)
  then have i: "i < length (ws_workers p)" by (auto simp: at_worker_def split: if_splits)
  note u = sum_effort_update [OF i]
  show ?thesis
    using s i u [of WLoop] u [of WDrain] u [of WDone] u [of "WHold (hd (ws_taskCh p))"] u [of "WDrainHold (hd (ws_taskCh p))"]
    by (cases "ws_workers p ! i")
      (auto simp: at_worker_def potential_def processEntry_parts split: if_splits list.splits)
qed

lemma worker_enabled:
  assumes "ws_stopClosed p" "\<not> all_done p"
  shows "\<exists>ev q. worker_event ev \<and> wp_step ev p = Some q"
proof -
  from assms(2) obtain i where i: "i < length (ws_workers p)" "ws_workers p ! i \<noteq> WDone"
    by (auto simp: all_done_def list_all_length)
  have "\<exists>q. wp_step (PWorker i) p = Some q \<or> wp_step (PStop i) p = Some q"
    using i assms(1) by (cases "ws_workers p ! i") (auto simp: at_worker_def split: list.split)
  then show ?thesis by (metis worker_event_def pool_event.simps(39,40))
qed

text \<open>
  Once the stop is signalled the workers cannot keep \<open>Close\<close> waiting for ever: in whatever order they run, they take
  at most as many steps as three for each waiting entry and each worker, and when none of them can move all
  have returned.
\<close>

theorem workers_drain_and_stop:
  assumes "wp_run evs p = Some q" and "ws_stopClosed p" and "list_all worker_event evs"
  shows "length evs \<le> 3 * length (ws_taskCh p) + 3 * length (ws_workers p)
    \<and> ((\<forall>ev. worker_event ev \<longrightarrow> wp_step ev q = None) \<longrightarrow> list_all (\<lambda>w. w = WDone) (ws_workers q))"
proof -
  have run: "wp_run evs p = Some q \<Longrightarrow> ws_stopClosed p \<Longrightarrow> list_all worker_event evs
    \<Longrightarrow> length evs + potential q \<le> potential p \<and> ws_stopClosed q" for p
  proof (induction evs arbitrary: p)
    case (Cons ev evs)
    then obtain r where r: "wp_step ev p = Some r" "wp_run evs r = Some q" by (auto split: option.splits)
    from worker_event_lowers [OF r(1)] Cons.prems(2,3) Cons.IH [OF r(2)] show ?case by auto
  qed simp
  have "sum_list (map effort ws) \<le> 3 * length ws" for ws
  proof (induction ws)
    case (Cons w ws)
    then show ?case by (cases w) auto
  qed simp
  then have "potential p \<le> 3 * length (ws_taskCh p) + 3 * length (ws_workers p)" by (simp add: potential_def)
  with run [OF assms] worker_enabled [of q] show ?thesis unfolding all_done_def by fastforce
qed

theorem workers_drain_and_stop_witness:
  "length [PStop 0, PWorker 0] \<le> 3 * 0 + 3 * 1
    \<and> ((\<forall>ev. worker_event ev \<longrightarrow> wp_step ev ((newWorkerPool 1 0 0)\<lparr>ws_stopClosed := True, ws_workers := [WDone]\<rparr>) = None)
       \<longrightarrow> list_all (\<lambda>w. w = WDone) (ws_workers ((newWorkerPool 1 0 0)\<lparr>ws_stopClosed := True, ws_workers := [WDone]\<rparr>)))"
proof -
  have "wp_run [PStop 0, PWorker 0] ((newWorkerPool 1 0 0)\<lparr>ws_stopClosed := True\<rparr>) =
      Some ((newWorkerPool 1 0 0)\<lparr>ws_stopClosed := True, ws_workers := [WDone]\<rparr>)"
    by (simp add: pool_eval)
  from workers_drain_and_stop [OF this] show ?thesis
    by (simp add: worker_event_def newWorkerPool_def Let_def)
qed

end
