(* ===== verification/Worker_Cache.thy ===== *)
theory Worker_Cache
  imports Worker_Pool
begin

text \<open>
  The package's table of worker pools, \<^verbatim>\<open>pool/worker_pool.go\<close>: one active pool for each number of workers, taken
  from six pools made in advance when the number is a common one. Pools live in a heap, since both maps refer to
  the same objects.

  Closing a pool is taken as undisturbed here: its entries are written in order and its workers end. A lemma shows
  that this is a run of the steps of \<open>Worker_Pool\<close>.
\<close>

section \<open>An undisturbed \<open>Close\<close>\<close>

definition close_pool :: "pool_state \<Rightarrow> pool_state" where
  "close_pool p =
     (if ws_stopped p then p
      else (foldl (\<lambda>q t. processEntry t q) (p\<lparr>ws_taskCh := []\<rparr>) (ws_taskCh p))
             \<lparr>ws_stopped := True, ws_stopClosed := True, ws_taskClosed := True, ws_workers := map (\<lambda>_. WDone) (ws_workers p)\<rparr>)"

definition twice_each :: "nat \<Rightarrow> pool_event list" where
  "twice_each n = concat (replicate n [PWorker 0, PWorker 0])"

definition stop_each :: "nat \<Rightarrow> nat \<Rightarrow> pool_event list" where
  "stop_each j n = concat (map (\<lambda>i. [PStop i, PWorker i]) [j..<j + n])"

lemma processEntry_taskCh: "processEntry t (p\<lparr>ws_taskCh := ts, ws_workers := ws\<rparr>) = (processEntry t p)\<lparr>ws_taskCh := ts, ws_workers := ws\<rparr>"
  by (simp add: processEntry_def GetWriter_def Let_def split: option.splits)

lemma foldl_process_frame:
  "foldl (\<lambda>q t. processEntry t q) (p\<lparr>ws_taskCh := ts, ws_workers := ws\<rparr>) us =
     (foldl (\<lambda>q t. processEntry t q) p us)\<lparr>ws_taskCh := ts, ws_workers := ws\<rparr>"
  by (induction us arbitrary: p) (simp_all add: processEntry_taskCh)

lemma foldl_process_taskCh: "ws_taskCh (foldl (\<lambda>q t. processEntry t q) p us) = ws_taskCh p"
  by (induction us rule: rev_induct) (simp_all add: processEntry_parts)

lemma drain_run:
  "ws_workers p = WDrain # ws \<Longrightarrow>
     wp_run (twice_each (length (ws_taskCh p))) p = Some (foldl (\<lambda>q t. processEntry t q) (p\<lparr>ws_taskCh := []\<rparr>) (ws_taskCh p))"
proof (induction "ws_taskCh p" arbitrary: p)
  case (Cons t ts)
  let ?q = "processEntry t (p\<lparr>ws_taskCh := ts\<rparr>)"
  have h: "ws_taskCh p = t # ts" using Cons.hyps(2) by simp
  have s: "wp_run [PWorker 0, PWorker 0] p = Some (?q\<lparr>ws_workers := WDrain # ws\<rparr>)"
    using h Cons.prems by (simp add: at_worker_def processEntry_def GetWriter_def Let_def split: option.splits)
  have q: "ws_taskCh (?q\<lparr>ws_workers := WDrain # ws\<rparr>) = ts" by (simp add: processEntry_parts)
  have "?q\<lparr>ws_workers := WDrain # ws\<rparr> = ?q" using Cons.prems by (simp add: processEntry_def GetWriter_def Let_def split: option.splits)
  then have s': "wp_run [PWorker 0, PWorker 0] p = Some ?q" and q': "ws_taskCh ?q = ts" using s q by simp_all
  have "?q\<lparr>ws_taskCh := []\<rparr> = processEntry t (p\<lparr>ws_taskCh := []\<rparr>)"
    by (simp add: processEntry_def GetWriter_def Let_def split: option.splits)
  moreover have "wp_run (twice_each (length ts)) ?q = Some (foldl (\<lambda>q t. processEntry t q) (?q\<lparr>ws_taskCh := []\<rparr>) ts)"
    using Cons.hyps(1) [of ?q] q' Cons.prems by (simp add: processEntry_parts)
  moreover have "twice_each (length (ws_taskCh p)) = [PWorker 0, PWorker 0] @ twice_each (length ts)"
    by (simp add: h twice_each_def)
  ultimately show ?case using s' h by (simp only: wp_run_append option.case foldl_Cons)
qed (simp add: twice_each_def)

lemma stop_run:
  "ws_workers p = replicate j WDone @ replicate n WLoop \<Longrightarrow> ws_stopClosed p \<Longrightarrow> ws_taskCh p = [] \<Longrightarrow>
     wp_run (stop_each j n) p = Some (p\<lparr>ws_workers := replicate (j + n) WDone\<rparr>)"
proof (induction n arbitrary: j p)
  case (Suc n)
  let ?q = "p\<lparr>ws_workers := replicate (Suc j) WDone @ replicate n WLoop\<rparr>"
  have u: "(replicate j WDone @ WLoop # replicate n WLoop)[j := w] = replicate j WDone @ w # replicate n WLoop" for w
    by (simp add: list_update_append)
  have "wp_run [PStop j, PWorker j] p = Some ?q"
    using Suc.prems by (simp add: at_worker_def nth_append list_update_append replicate_app_Cons_same)
  moreover have "stop_each j (Suc n) = [PStop j, PWorker j] @ stop_each (Suc j) n"
    by (simp add: stop_each_def upt_conv_Cons)
  moreover have "wp_run (stop_each (Suc j) n) ?q = Some (?q\<lparr>ws_workers := replicate (Suc j + n) WDone\<rparr>)"
    by (rule Suc.IH) (use Suc.prems in simp_all)
  ultimately show ?case by (simp only: wp_run_append option.case) simp
qed (simp add: stop_each_def)

lemma undisturbed_close:
  assumes "ws_workers p = replicate (Suc n) WLoop" "\<not> ws_stopped p" "i < length (ws_closers p)" "ws_closers p ! i = CIdle"
  shows "\<exists>evs. wp_run evs p = Some ((close_pool p)\<lparr>ws_closers := (ws_closers p)[i := CReturned]\<rparr>)"
proof -
  let ?p1 = "p\<lparr>ws_stopped := True, ws_stopClosed := True, ws_workers := WDrain # replicate n WLoop, ws_closers := (ws_closers p)[i := CWaiting]\<rparr>"
  let ?p2 = "foldl (\<lambda>q t. processEntry t q) (?p1\<lparr>ws_taskCh := []\<rparr>) (ws_taskCh ?p1)"
  have f: "foldl (\<lambda>q t. processEntry t q) (r\<lparr>ws_stopped := a, ws_stopClosed := b, ws_workers := ws, ws_closers := cs, ws_taskCh := []\<rparr>) ts
      = (foldl (\<lambda>q t. processEntry t q) (r\<lparr>ws_taskCh := []\<rparr>) ts)\<lparr>ws_stopped := a, ws_stopClosed := b, ws_workers := ws, ws_closers := cs\<rparr>"
    for r a b ws cs ts
    by (induction ts rule: rev_induct) (simp_all add: processEntry_def GetWriter_def Let_def split: option.splits)
  let ?p3 = "?p2\<lparr>ws_workers := WDone # replicate n WLoop\<rparr>"
  let ?p4 = "?p3\<lparr>ws_workers := replicate (Suc n) WDone\<rparr>"
  have parts: "ws_taskCh ?p2 = []" "ws_stopClosed ?p2" "ws_workers ?p2 = WDrain # replicate n WLoop"
    "ws_closers ?p2 = (ws_closers p)[i := CWaiting]"
    by (simp_all add: f foldl_process_taskCh)
  have r1: "wp_run [PCloser i, PCloser i, PStop 0] p = Some ?p1"
    using assms by (simp add: at_closer_def at_worker_def)
  have r2: "wp_run (twice_each (length (ws_taskCh ?p1))) ?p1 = Some ?p2"
    by (rule drain_run [of _ "replicate n WLoop"]) simp
  have r3: "wp_run [PWorker 0] ?p2 = Some ?p3" using parts by (simp add: at_worker_def)
  have r4: "wp_run (stop_each 1 n) ?p3 = Some ?p4"
    using stop_run [of ?p3 1 n] parts by simp
  have r5: "wp_run [PCloser i, PCloser i] ?p4 = Some (?p4\<lparr>ws_taskClosed := True, ws_closers := (ws_closers p)[i := CReturned]\<rparr>)"
    using parts assms(3) by (simp add: at_closer_def list_all_iff)
  have e: "?p4\<lparr>ws_taskClosed := True, ws_closers := (ws_closers p)[i := CReturned]\<rparr> =
      (close_pool p)\<lparr>ws_closers := (ws_closers p)[i := CReturned]\<rparr>"
    using assms(1,2) by (simp add: close_pool_def f map_replicate_const)
  have "wp_run ([PCloser i, PCloser i, PStop 0] @ twice_each (length (ws_taskCh ?p1)) @ [PWorker 0] @ stop_each 1 n
      @ [PCloser i, PCloser i]) p = Some (?p4\<lparr>ws_taskClosed := True, ws_closers := (ws_closers p)[i := CReturned]\<rparr>)"
    by (simp only: wp_run_append option.case r1 r2 r3 r4 r5)
  then show ?thesis unfolding e by blast
qed

section \<open>The table\<close>

record pool_cache =
  pc_pools :: "pool_state list"      \<comment> \<open>the heap of pools\<close>
  pc_active :: "(int \<times> nat) list"
  pc_prealloc :: "(int \<times> nat) list"
  pc_once :: bool

definition new_cache :: pool_cache where
  "new_cache = \<lparr>pc_pools = [], pc_active = [], pc_prealloc = [], pc_once = False\<rparr>"

definition common_counts :: "int list" where
  "common_counts = [1, 2, 4, 8, 16, 32]"

text \<open>A new pool of the heap, with a caller and a closer that may use it.\<close>

definition add_pool :: "int \<Rightarrow> pool_cache \<Rightarrow> nat \<times> pool_cache" where
  "add_pool n c = (length (pc_pools c), c\<lparr>pc_pools := pc_pools c @ [newWorkerPool n 1 1]\<rparr>)"

definition preallocate :: "int \<Rightarrow> pool_cache \<Rightarrow> pool_cache" where
  "preallocate n c = (let (r, c) = add_pool n c in c\<lparr>pc_prealloc := AList.update n r (pc_prealloc c)\<rparr>)"

definition InitWorkerPools :: "pool_cache \<Rightarrow> pool_cache" where
  "InitWorkerPools c = (if pc_once c then c else foldl (\<lambda>c n. preallocate n c) (c\<lparr>pc_once := True\<rparr>) common_counts)"

definition GetPreallocatedPool :: "int \<Rightarrow> pool_cache \<Rightarrow> nat option \<times> pool_cache" where
  "GetPreallocatedPool n c = (let c = InitWorkerPools c in (map_of (pc_prealloc c) n, c))"

definition isStopped :: "nat \<Rightarrow> pool_cache \<Rightarrow> bool" where
  "isStopped r c = ws_stopped (pc_pools c ! r)"

definition set_active :: "int \<Rightarrow> nat \<Rightarrow> pool_cache \<Rightarrow> pool_cache" where
  "set_active n r c = c\<lparr>pc_active := AList.update n r (pc_active c)\<rparr>"

definition GetActiveWorkerPool :: "int \<Rightarrow> pool_cache \<Rightarrow> nat \<times> pool_cache" where
  "GetActiveWorkerPool workerCount c =
     (let n = (if workerCount \<le> 0 then 1 else workerCount);
          other = (case GetPreallocatedPool n c of
              (Some r, c) \<Rightarrow> (r, set_active n r c)
            | (None, c) \<Rightarrow> let (r, c) = add_pool n c in (r, set_active n r c))
      in case map_of (pc_active c) n of
           Some r \<Rightarrow> if \<not> isStopped r c then (r, c) else other
         | None \<Rightarrow> other)"

definition close_ref :: "nat \<Rightarrow> pool_cache \<Rightarrow> pool_cache" where
  "close_ref r c = c\<lparr>pc_pools := (pc_pools c)[r := close_pool (pc_pools c ! r)]\<rparr>"

definition StopActiveWorkerPool :: "int \<Rightarrow> pool_cache \<Rightarrow> pool_cache" where
  "StopActiveWorkerPool n c =
     (case map_of (pc_active c) n of
        None \<Rightarrow> c
      | Some r \<Rightarrow> (close_ref r c)\<lparr>pc_active := AList.delete n (pc_active c)\<rparr>)"

definition CloseAllWorkerPools :: "pool_cache \<Rightarrow> pool_cache" where
  "CloseAllWorkerPools c =
     (foldl (\<lambda>c r. if isStopped r c then c else close_ref r c) c (map snd (pc_active c) @ map snd (pc_prealloc c)))
       \<lparr>pc_active := [], pc_prealloc := [], pc_once := False\<rparr>"

datatype cache_call = CGet int | CStop int | CCloseAll

text \<open>The answer of a call: whether the pool it returned runs.\<close>

fun cache_do :: "cache_call \<Rightarrow> pool_cache \<Rightarrow> bool option \<times> pool_cache" where
  "cache_do (CGet n) c = (let (r, c) = GetActiveWorkerPool n c in (Some (\<not> isStopped r c), c))"
| "cache_do (CStop n) c = (None, StopActiveWorkerPool n c)"
| "cache_do CCloseAll c = (None, CloseAllWorkerPools c)"

fun cache_run :: "cache_call list \<Rightarrow> pool_cache \<Rightarrow> bool option list" where
  "cache_run [] c = []"
| "cache_run (x # xs) c = (let (a, c) = cache_do x c in a # cache_run xs c)"

text \<open>
  The reference knows which numbers are active and which common numbers have been stopped for good; a number
  that is not positive counts as one when a pool is asked for, and as itself when one is stopped.
\<close>

fun table_do :: "cache_call \<Rightarrow> int set \<times> int set \<Rightarrow> bool option \<times> int set \<times> int set" where
  "table_do (CGet n) (live, dead) =
     (let n = (if n \<le> 0 then 1 else n) in (Some (n \<notin> dead), insert n live, dead))"
| "table_do (CStop n) (live, dead) =
     (None, live - {n}, if n \<in> live \<and> n \<in> set common_counts then insert n dead else dead)"
| "table_do CCloseAll ld = (None, {}, {})"

fun table_run :: "cache_call list \<Rightarrow> int set \<times> int set \<Rightarrow> bool option list" where
  "table_run [] ld = []"
| "table_run (x # xs) ld = (let (a, ld) = table_do x ld in a # table_run xs ld)"

definition table_ok :: "(nat \<Rightarrow> int) \<Rightarrow> pool_cache \<Rightarrow> int set \<Rightarrow> int set \<Rightarrow> bool" where
  "table_ok own c live dead \<longleftrightarrow> dom (map_of (pc_active c)) = live \<and> dead \<subseteq> set common_counts
     \<and> (\<forall>n r. map_of (pc_active c) n = Some r \<longrightarrow> r < length (pc_pools c) \<and> own r = n
          \<and> (n \<in> set common_counts \<longrightarrow> map_of (pc_prealloc c) n = Some r) \<and> (n \<notin> set common_counts \<longrightarrow> \<not> isStopped r c))
     \<and> (\<forall>n r. map_of (pc_prealloc c) n = Some r \<longrightarrow> r < length (pc_pools c) \<and> own r = n \<and> (isStopped r c \<longleftrightarrow> n \<in> dead))
     \<and> (if pc_once c then dom (map_of (pc_prealloc c)) = set common_counts else pc_prealloc c = [] \<and> live = {} \<and> dead = {})"

lemma stopped_parts:
  "ws_stopped (close_pool p)" "\<not> ws_stopped (newWorkerPool n i j)"
  by (simp_all add: close_pool_def newWorkerPool_def Let_def)

lemma isStopped_close_ref:
  "r < length (pc_pools c) \<Longrightarrow> isStopped k (close_ref r c) = (k = r \<or> isStopped k c)"
  by (auto simp: isStopped_def close_ref_def stopped_parts nth_list_update)

lemma close_ref_parts:
  "pc_active (close_ref r c) = pc_active c" "pc_prealloc (close_ref r c) = pc_prealloc c" "pc_once (close_ref r c) = pc_once c"
  "length (pc_pools (close_ref r c)) = length (pc_pools c)"
  by (simp_all add: close_ref_def)

text \<open>Making the six pools.\<close>

lemma preallocate_fold:
  assumes "distinct ns" "set ns \<inter> dom (map_of (pc_prealloc c)) = {}"
    and "\<forall>n r. map_of (pc_prealloc c) n = Some r \<longrightarrow> r < length (pc_pools c) \<and> own r = n \<and> \<not> isStopped r c"
  shows "\<exists>own'. (\<forall>k < length (pc_pools c). own' k = own k) \<and>
     (let d = foldl (\<lambda>c n. preallocate n c) c ns in
        pc_active d = pc_active c \<and> pc_once d = pc_once c \<and> (\<exists>new. pc_pools d = pc_pools c @ new) \<and>
        dom (map_of (pc_prealloc d)) = dom (map_of (pc_prealloc c)) \<union> set ns \<and>
        (\<forall>n r. map_of (pc_prealloc d) n = Some r \<longrightarrow> r < length (pc_pools d) \<and> own' r = n \<and> \<not> isStopped r d))"
  using assms
proof (induction ns arbitrary: c own)
  case (Cons n ns)
  let ?c = "preallocate n c"
  let ?own = "own(length (pc_pools c) := n)"
  have parts: "pc_active ?c = pc_active c" "pc_once ?c = pc_once c" "pc_pools ?c = pc_pools c @ [newWorkerPool n 1 1]"
    "map_of (pc_prealloc ?c) = (map_of (pc_prealloc c))(n \<mapsto> length (pc_pools c))"
    by (simp_all add: preallocate_def add_pool_def update_conv')
  have new: "\<forall>m r. map_of (pc_prealloc ?c) m = Some r \<longrightarrow> r < length (pc_pools ?c) \<and> ?own r = m \<and> \<not> isStopped r ?c"
  proof (intro allI impI)
    fix m r assume a: "map_of (pc_prealloc ?c) m = Some r"
    show "r < length (pc_pools ?c) \<and> ?own r = m \<and> \<not> isStopped r ?c"
    proof (cases "m = n")
      case True
      with a show ?thesis by (auto simp: parts isStopped_def nth_append stopped_parts)
    next
      case False
      with a have "map_of (pc_prealloc c) m = Some r" by (simp add: parts)
      with Cons.prems(3) have "r < length (pc_pools c)" "own r = m" "\<not> isStopped r c" by blast+
      then show ?thesis by (simp add: parts isStopped_def nth_append)
    qed
  qed
  have "\<exists>own'. (\<forall>k < length (pc_pools ?c). own' k = ?own k) \<and>
     (let d = foldl (\<lambda>c n. preallocate n c) ?c ns in
        pc_active d = pc_active ?c \<and> pc_once d = pc_once ?c \<and> (\<exists>new. pc_pools d = pc_pools ?c @ new) \<and>
        dom (map_of (pc_prealloc d)) = dom (map_of (pc_prealloc ?c)) \<union> set ns \<and>
        (\<forall>n r. map_of (pc_prealloc d) n = Some r \<longrightarrow> r < length (pc_pools d) \<and> own' r = n \<and> \<not> isStopped r d))"
  proof (rule Cons.IH [OF _ _ new])
    have "dom (map_of (pc_prealloc ?c)) = insert n (dom (map_of (pc_prealloc c)))" by (auto simp: parts)
    with Cons.prems(1,2) show "set ns \<inter> dom (map_of (pc_prealloc ?c)) = {}" by auto
  qed (use Cons.prems(1) in simp)
  then obtain own' where o: "\<forall>k < length (pc_pools ?c). own' k = ?own k"
    and d: "let d = foldl (\<lambda>c n. preallocate n c) ?c ns in
        pc_active d = pc_active ?c \<and> pc_once d = pc_once ?c \<and> (\<exists>new. pc_pools d = pc_pools ?c @ new) \<and>
        dom (map_of (pc_prealloc d)) = dom (map_of (pc_prealloc ?c)) \<union> set ns \<and>
        (\<forall>n r. map_of (pc_prealloc d) n = Some r \<longrightarrow> r < length (pc_pools d) \<and> own' r = n \<and> \<not> isStopped r d)" by blast
  have "\<forall>k < length (pc_pools c). own' k = own k" using o by (simp add: parts)
  moreover from d have "let d = foldl (\<lambda>c n. preallocate n c) c (n # ns) in
        pc_active d = pc_active c \<and> pc_once d = pc_once c \<and> (\<exists>new. pc_pools d = pc_pools c @ new) \<and>
        dom (map_of (pc_prealloc d)) = dom (map_of (pc_prealloc c)) \<union> set (n # ns) \<and>
        (\<forall>n r. map_of (pc_prealloc d) n = Some r \<longrightarrow> r < length (pc_pools d) \<and> own' r = n \<and> \<not> isStopped r d)"
    by (auto simp: Let_def parts)
  ultimately show ?case by blast
qed (auto simp: Let_def)

lemma Init_ok:
  assumes "table_ok own c live dead"
  shows "\<exists>own'. table_ok own' (InitWorkerPools c) live dead \<and> pc_once (InitWorkerPools c)
    \<and> pc_active (InitWorkerPools c) = pc_active c"
proof (cases "pc_once c")
  case False
  with assms have e: "pc_prealloc c = []" "live = {}" "dead = {}" "pc_active c = []" by (auto simp: table_ok_def)
  have "distinct common_counts" by (simp add: common_counts_def)
  from preallocate_fold [OF this, of "c\<lparr>pc_once := True\<rparr>" own] e obtain own' where
    "let d = foldl (\<lambda>c n. preallocate n c) (c\<lparr>pc_once := True\<rparr>) common_counts in
        pc_active d = pc_active c \<and> pc_once d \<and>
        dom (map_of (pc_prealloc d)) = set common_counts \<and>
        (\<forall>n r. map_of (pc_prealloc d) n = Some r \<longrightarrow> r < length (pc_pools d) \<and> own' r = n \<and> \<not> isStopped r d)"
    by (auto simp: Let_def)
  then show ?thesis using False e by (auto simp: table_ok_def InitWorkerPools_def Let_def)
qed (use assms in \<open>auto simp: InitWorkerPools_def\<close>)

lemma Get_ok:
  assumes "table_ok own c live dead"
  shows "\<exists>own'. let (r, d) = GetActiveWorkerPool k c; n = (if k \<le> 0 then 1 else k) in
    table_ok own' d (insert n live) dead \<and> (isStopped r d \<longleftrightarrow> n \<in> dead)"
proof -
  define n where "n = (if k \<le> 0 then 1 else k)"
  show ?thesis
  proof (cases "\<exists>r. map_of (pc_active c) n = Some r \<and> \<not> isStopped r c")
    case True
    then obtain r where r: "map_of (pc_active c) n = Some r" "\<not> isStopped r c" by blast
    then have g: "GetActiveWorkerPool k c = (r, c)" by (simp add: GetActiveWorkerPool_def n_def [symmetric])
    from r(1) assms have l: "insert n live = live" by (auto simp: table_ok_def)
    have "n \<notin> dead" using assms r unfolding table_ok_def by blast
    with r(2) assms l show ?thesis by (auto simp: g n_def [symmetric])
  next
    case False
    obtain own' where i: "table_ok own' (InitWorkerPools c) live dead" "pc_once (InitWorkerPools c)" using Init_ok [OF assms] by blast
    let ?c = "InitWorkerPools c"
    show ?thesis
    proof (cases "map_of (pc_prealloc ?c) n")
      case (Some r)
      with False have g: "GetActiveWorkerPool k c = (r, set_active n r ?c)"
        by (auto simp: GetActiveWorkerPool_def n_def [symmetric] GetPreallocatedPool_def Let_def split: option.splits)
      have st: "\<And>j. isStopped j (set_active n r ?c) = isStopped j ?c" by (simp add: isStopped_def set_active_def)
      have p: "r < length (pc_pools ?c)" "own' r = n" "isStopped r ?c \<longleftrightarrow> n \<in> dead" "n \<in> set common_counts"
        using i Some unfolding table_ok_def by (auto simp: dom_def)
      have "table_ok own' (set_active n r ?c) (insert n live) dead"
        using i p Some unfolding table_ok_def st by (auto simp: set_active_def update_conv')
      with p(3) show ?thesis by (auto simp: g st n_def [symmetric])
    next
      case None
      let ?r = "length (pc_pools ?c)"
      define d where "d = set_active n ?r (?c\<lparr>pc_pools := pc_pools ?c @ [newWorkerPool n 1 1]\<rparr>)"
      from None False have g: "GetActiveWorkerPool k c = (?r, d)"
        by (auto simp: d_def GetActiveWorkerPool_def n_def [symmetric] GetPreallocatedPool_def add_pool_def Let_def split: option.splits)
      have old: "\<And>j. j < ?r \<Longrightarrow> isStopped j d = isStopped j ?c" and new: "\<not> isStopped ?r d"
        by (simp_all add: d_def isStopped_def set_active_def nth_append stopped_parts)
      have "dom (map_of (pc_prealloc ?c)) = set common_counts" using i unfolding table_ok_def by simp
      then have nc: "n \<notin> set common_counts" using None by (metis domIff)
      then have nd: "n \<notin> dead" using i unfolding table_ok_def by blast
      have parts: "map_of (pc_active d) = (map_of (pc_active ?c))(n \<mapsto> ?r)" "pc_prealloc d = pc_prealloc ?c"
        "pc_once d" "length (pc_pools d) = Suc ?r"
        using i(2) by (simp_all add: d_def set_active_def update_conv')
      have act: "m < Suc ?r \<and> (own'(?r := n)) m = j \<and> (j \<in> set common_counts \<longrightarrow> map_of (pc_prealloc ?c) j = Some m)
          \<and> (j \<notin> set common_counts \<longrightarrow> \<not> isStopped m d)" if "map_of (pc_active d) j = Some m" for j m
      proof (cases "j = n")
        case True
        with that nc new show ?thesis by (auto simp: parts)
      next
        case False
        with that have "map_of (pc_active ?c) j = Some m" by (simp add: parts)
        with i have "m < ?r" "own' m = j" "j \<in> set common_counts \<longrightarrow> map_of (pc_prealloc ?c) j = Some m"
          "j \<notin> set common_counts \<longrightarrow> \<not> isStopped m ?c" unfolding table_ok_def by blast+
        with old show ?thesis by auto
      qed
      have pre: "m < Suc ?r \<and> (own'(?r := n)) m = j \<and> (isStopped m d \<longleftrightarrow> j \<in> dead)" if "map_of (pc_prealloc ?c) j = Some m" for j m
      proof -
        from that i have "m < ?r" "own' m = j" "isStopped m ?c \<longleftrightarrow> j \<in> dead" unfolding table_ok_def by blast+
        with old show ?thesis by auto
      qed
      have "dom (map_of (pc_active d)) = insert n live" using i by (auto simp: parts table_ok_def)
      moreover have "dead \<subseteq> set common_counts" "dom (map_of (pc_prealloc ?c)) = set common_counts"
        using i unfolding table_ok_def by auto
      ultimately have "table_ok (own'(?r := n)) d (insert n live) dead"
        unfolding table_ok_def parts(2,4) using act pre parts(3) by simp
      with new nd show ?thesis by (auto simp: g n_def [symmetric])
    qed
  qed
qed

lemma Stop_ok:
  assumes "table_ok own c live dead"
  shows "table_ok own (StopActiveWorkerPool n c) (live - {n}) (if n \<in> live \<and> n \<in> set common_counts then insert n dead else dead)"
proof (cases "map_of (pc_active c) n")
  case None
  then have "n \<notin> live" using assms by (auto simp: table_ok_def)
  with None assms show ?thesis by (simp add: StopActiveWorkerPool_def)
next
  case (Some r)
  let ?d = "(close_ref r c)\<lparr>pc_active := AList.delete n (pc_active c)\<rparr>"
  have l: "n \<in> live" and o: "pc_once c" using assms Some by (auto simp: table_ok_def split: if_splits)
  have r: "r < length (pc_pools c)" "own r = n" using assms Some unfolding table_ok_def by blast+
  have st: "isStopped k ?d = (k = r \<or> isStopped k c)" for k
    using isStopped_close_ref [OF r(1), of k] by (simp add: isStopped_def)
  have d: "StopActiveWorkerPool n c = ?d" using Some by (simp add: StopActiveWorkerPool_def)
  have act: "m < length (pc_pools c) \<and> own m = j \<and> (j \<in> set common_counts \<longrightarrow> map_of (pc_prealloc c) j = Some m)
      \<and> (j \<notin> set common_counts \<longrightarrow> \<not> isStopped m ?d)" if "map_of (AList.delete n (pc_active c)) j = Some m" for j m
  proof -
    from that have j: "j \<noteq> n" "map_of (pc_active c) j = Some m" by (auto simp: delete_conv' split: if_splits)
    with assms have "m < length (pc_pools c)" "own m = j" "j \<in> set common_counts \<longrightarrow> map_of (pc_prealloc c) j = Some m"
      "j \<notin> set common_counts \<longrightarrow> \<not> isStopped m c" unfolding table_ok_def by blast+
    with j r(2) st show ?thesis by auto
  qed
  have pre: "m < length (pc_pools c) \<and> own m = j \<and> (isStopped m ?d \<longleftrightarrow> j \<in> (if n \<in> set common_counts then insert n dead else dead))"
    if "map_of (pc_prealloc c) j = Some m" for j m
  proof -
    from that assms have m: "m < length (pc_pools c)" "own m = j" "isStopped m c \<longleftrightarrow> j \<in> dead" unfolding table_ok_def by blast+
    have "j \<in> set common_counts" using assms that o unfolding table_ok_def by auto
    moreover have "m = r" if "j = n" using assms Some \<open>map_of (pc_prealloc c) j = Some m\<close> that calculation
      unfolding table_ok_def by (metis option.inject)
    ultimately show ?thesis using m r(2) st by auto
  qed
  have "dom (map_of (AList.delete n (pc_active c))) = live - {n}" using assms by (auto simp: table_ok_def delete_conv')
  moreover have "dead \<subseteq> set common_counts" "dom (map_of (pc_prealloc c)) = set common_counts"
    using assms o unfolding table_ok_def by auto
  ultimately show ?thesis
    unfolding d table_ok_def using act pre o l by (auto simp: close_ref_parts)
qed

lemma Close_ok:
  shows "table_ok own (CloseAllWorkerPools c) {} {}"
  by (simp add: table_ok_def CloseAllWorkerPools_def)

text \<open>
  C34: The table answers like the reference: a common number of workers that has been stopped once is never served by
  a running pool again, until all pools are closed, while any other number gets a running pool each time.
\<close>

theorem pool_table_reference: "cache_run calls new_cache = table_run calls ({}, {})"
proof -
  have "table_ok own c live dead \<Longrightarrow> cache_run calls c = table_run calls (live, dead)" for own c live dead
  proof (induction calls arbitrary: own c live dead)
    case (Cons x xs)
    show ?case
    proof (cases x)
      case (CGet k)
      obtain r d where g: "GetActiveWorkerPool k c = (r, d)" by fastforce
      from Get_ok [OF Cons.prems, of k] g obtain own' where
        "table_ok own' d (insert (if k \<le> 0 then 1 else k) live) dead" "isStopped r d \<longleftrightarrow> (if k \<le> 0 then 1 else k) \<in> dead"
        by (auto simp: Let_def)
      with Cons.IH CGet g show ?thesis by (simp add: Let_def)
    next
      case (CStop n)
      with Cons.IH [OF Stop_ok [OF Cons.prems, of n]] show ?thesis by simp
    qed (use Cons.IH [OF Close_ok] in simp)
  qed simp
  moreover have "table_ok (\<lambda>_. 0) new_cache {} {}" by (simp add: table_ok_def new_cache_def)
  ultimately show ?thesis by blast
qed

lemma restarted_pool_refuses: "cache_run [CGet 4, CStop 4, CGet 4] new_cache = [Some True, None, Some False]"
  by (simp add: pool_table_reference common_counts_def)

text \<open>A number that is not positive is asked for as one and stopped as itself.\<close>

lemma stop_of_zero_ignored: "cache_run [CGet 0, CStop 0, CGet 1, CStop 1, CGet 0] new_cache = [Some True, None, Some True, None, Some False]"
  by (simp add: pool_table_reference common_counts_def)

end
