(* ===== verification/File_Lock.thy ===== *)
theory File_Lock
  imports String_Helpers
begin

text \<open>
  The lock between processes, \<^verbatim>\<open>adapters/outputs/file/file_lock.go\<close> with its Unix half \<^verbatim>\<open>file_lock_unix.go\<close> and
  \<^verbatim>\<open>file_pid_unix.go\<close>: a process that wants the log opens \<^verbatim>\<open>path.lock\<close>, takes \<open>flock\<close> on it without blocking and
  writes its process number into it; one that finds the lock held looks whether the number belongs to a live
  process and removes the file when it does not.

  The operating system is modelled as far as this uses it: a directory that maps names to files, the contents of
  the files, the holder of the advisory lock of each file, and the answer to signal 0. Removing a name leaves the
  file and its lock to those who have it open. Each system call is one step of one process, so that processes
  interleave between them; a step is told whether its call fails.
\<close>

section \<open>The operating system\<close>

datatype signal_result = SigOk | SigEPERM | SigESRCH

record lock_world =
  fk_dir :: "string \<Rightarrow> nat option"
  fk_data :: "nat \<Rightarrow> string"
  fk_owner :: "nat \<Rightarrow> nat option"   \<comment> \<open>the process whose open file holds \<open>flock\<close>\<close>
  fk_next :: nat                       \<comment> \<open>how many files have been created\<close>
  fk_signal :: "int \<Rightarrow> signal_result"
  fk_pid :: "nat \<Rightarrow> int"

definition os_open :: "string \<Rightarrow> lock_world \<Rightarrow> nat \<times> lock_world" where
  "os_open name w =
     (case fk_dir w name of
        Some f \<Rightarrow> (f, w)
      | None \<Rightarrow> (fk_next w, w\<lparr>fk_dir := (fk_dir w)(name := Some (fk_next w)), fk_data := (fk_data w)(fk_next w := []),
          fk_next := fk_next w + 1\<rparr>))"

definition os_Remove :: "string \<Rightarrow> lock_world \<Rightarrow> lock_world" where
  "os_Remove name w = w\<lparr>fk_dir := (fk_dir w)(name := None)\<rparr>"

definition os_ReadFile :: "string \<Rightarrow> lock_world \<Rightarrow> string option" where
  "os_ReadFile name w = map_option (fk_data w) (fk_dir w name)"

definition set_data :: "nat \<Rightarrow> string \<Rightarrow> lock_world \<Rightarrow> lock_world" where
  "set_data f s w = w\<lparr>fk_data := (fk_data w)(f := s)\<rparr>"

definition set_owner :: "nat \<Rightarrow> nat option \<Rightarrow> lock_world \<Rightarrow> lock_world" where
  "set_owner f h w = w\<lparr>fk_owner := (fk_owner w)(f := h)\<rparr>"

text \<open>\<open>flock\<close> without blocking and \<open>LOCK_UN\<close>.\<close>

definition unix_TryLock :: "nat \<Rightarrow> nat \<Rightarrow> lock_world \<Rightarrow> lock_world option" where
  "unix_TryLock f i w = (if fk_owner w f = None then Some (set_owner f (Some i) w) else None)"

definition unix_Unlock :: "nat \<Rightarrow> lock_world \<Rightarrow> lock_world" where
  "unix_Unlock f w = set_owner f None w"

section \<open>Stale locks\<close>

definition processExistsPlatform :: "int \<Rightarrow> lock_world \<Rightarrow> bool" where
  "processExistsPlatform pid w = (fk_signal w pid = SigOk \<or> fk_signal w pid = SigEPERM)"

definition processExists :: "int \<Rightarrow> lock_world \<Rightarrow> bool" where
  "processExists pid w = (if pid \<le> 0 then False else processExistsPlatform pid w)"

fun pid_digits :: "int \<Rightarrow> string \<Rightarrow> int" where
  "pid_digits pid [] = pid"
| "pid_digits pid (c # cs) = (if is_digit c then pid_digits (wrap_s64 (pid * 10 + (of_char c - 48))) cs else pid)"

definition pid_stale :: "string \<Rightarrow> lock_world \<Rightarrow> bool" where
  "pid_stale data w =
     (let pid = pid_digits 0 data
      in if pid = 0 \<and> data \<noteq> [] \<and> \<not> is_digit (data ! 0) then True else \<not> processExists pid w)"

definition lock_name :: "string \<Rightarrow> string" where
  "lock_name path = path @ ''.lock''"

definition isLockStale :: "string \<Rightarrow> lock_world \<Rightarrow> bool" where
  "isLockStale path w = (case os_ReadFile (lock_name path) w of None \<Rightarrow> False | Some data \<Rightarrow> pid_stale data w)"

definition pid_line :: "int \<Rightarrow> string" where
  "pid_line pid = FormatIntWithPrefix [] pid @ [CHR 0x0A]"

definition writePID_Truncate :: "nat \<Rightarrow> lock_world \<Rightarrow> lock_world" where
  "writePID_Truncate f w = set_data f [] w"

definition writePID_WriteString :: "nat \<Rightarrow> nat \<Rightarrow> lock_world \<Rightarrow> lock_world" where
  "writePID_WriteString i f w = set_data f (pid_line (fk_pid w i)) w"

section \<open>The steps of a process\<close>

text \<open>Where a process is; the number is the file it has open.\<close>

datatype lock_pc =
    LTry | LOpened nat | LLocked nat | LTruncated nat      \<comment> \<open>\<open>TryLock\<close>\<close>
  | LBusy | LStale | LStalePid | LWait                     \<comment> \<open>the loop of \<open>Lock\<close>\<close>
  | LHeld nat | LUnlocked nat | LClosed | LRemoved         \<comment> \<open>\<open>Unlock\<close>\<close>
  | LTimedOut | LFailed

datatype lock_choice = Succeeds | Fails

text \<open>
  One step of process \<open>i\<close>. A released lock counts as \<open>LTry\<close>, since the process may ask for it again; \<open>Fails\<close> in \<open>LWait\<close>
  is the deadline.
\<close>

fun TryLock :: "string \<Rightarrow> nat \<Rightarrow> lock_choice \<Rightarrow> lock_pc \<Rightarrow> lock_world \<Rightarrow> (lock_pc \<times> lock_world) option" where
  "TryLock path i Succeeds LTry w = (let (f, w) = os_open (lock_name path) w in Some (LOpened f, w))"
| "TryLock path i Succeeds (LOpened f) w =
     Some (case unix_TryLock f i w of Some w \<Rightarrow> (LLocked f, w) | None \<Rightarrow> (LBusy, w))"
| "TryLock path i Succeeds (LLocked f) w = Some (LTruncated f, writePID_Truncate f w)"
| "TryLock path i Succeeds (LTruncated f) w = Some (LHeld f, writePID_WriteString i f w)"
| "TryLock path i Fails LTry w = Some (LFailed, w)"
| "TryLock path i Fails (LOpened f) w = Some (LFailed, w)"
| "TryLock path i Fails (LLocked f) w = Some (LFailed, unix_Unlock f w)"
| "TryLock path i Fails (LTruncated f) w = Some (LFailed, unix_Unlock f w)"
| "TryLock path i ch pc w = None"

fun breakStaleLock :: "string \<Rightarrow> lock_choice \<Rightarrow> lock_pc \<Rightarrow> lock_world \<Rightarrow> (lock_pc \<times> lock_world) option" where
  "breakStaleLock path Succeeds LStale w = Some (LStalePid, os_Remove (lock_name path) w)"
| "breakStaleLock path Succeeds LStalePid w = Some (LTry, os_Remove (path @ ''.pid'') w)"
| "breakStaleLock path Fails LStale w = Some (LWait, w)"
| "breakStaleLock path Fails LStalePid w = Some (LWait, w)"
| "breakStaleLock path ch pc w = None"

fun fl_Unlock :: "string \<Rightarrow> lock_choice \<Rightarrow> lock_pc \<Rightarrow> lock_world \<Rightarrow> (lock_pc \<times> lock_world) option" where
  "fl_Unlock path Succeeds (LHeld f) w = Some (LUnlocked f, unix_Unlock f w)"
| "fl_Unlock path Fails (LHeld f) w = Some (LHeld f, w)"
| "fl_Unlock path ch (LUnlocked f) w = Some (LClosed, w)"
| "fl_Unlock path Succeeds LClosed w = Some (LRemoved, os_Remove (lock_name path) w)"
| "fl_Unlock path Succeeds LRemoved w = Some (LTry, os_Remove (path @ ''.pid'') w)"
| "fl_Unlock path Fails LClosed w = Some (LRemoved, w)"
| "fl_Unlock path Fails LRemoved w = Some (LTry, w)"
| "fl_Unlock path ch pc w = None"

fun Lock_loop :: "string \<Rightarrow> lock_choice \<Rightarrow> lock_pc \<Rightarrow> lock_world \<Rightarrow> (lock_pc \<times> lock_world) option" where
  "Lock_loop path Succeeds LBusy w = Some (if isLockStale path w then LStale else LWait, w)"
| "Lock_loop path Fails LBusy w = Some (LWait, w)"
| "Lock_loop path Succeeds LWait w = Some (LTry, w)"
| "Lock_loop path Fails LWait w = Some (LTimedOut, w)"
| "Lock_loop path ch pc w = None"

definition lock_step :: "string \<Rightarrow> nat \<Rightarrow> lock_choice \<Rightarrow> lock_pc \<Rightarrow> lock_world \<Rightarrow> (lock_pc \<times> lock_world) option" where
  "lock_step path i ch pc w =
     (case TryLock path i ch pc w of Some r \<Rightarrow> Some r
      | None \<Rightarrow> case Lock_loop path ch pc w of Some r \<Rightarrow> Some r
      | None \<Rightarrow> case breakStaleLock path ch pc w of Some r \<Rightarrow> Some r
      | None \<Rightarrow> fl_Unlock path ch pc w)"

text \<open>Many processes on one lock.\<close>

fun lock_run :: "string \<Rightarrow> (nat \<times> lock_choice) list \<Rightarrow> lock_pc list \<times> lock_world \<Rightarrow> (lock_pc list \<times> lock_world) option" where
  "lock_run path [] s = Some s"
| "lock_run path ((i, ch) # evs) (pcs, w) =
     (if i < length pcs
      then case lock_step path i ch (pcs ! i) w of
             None \<Rightarrow> None
           | Some (pc, w) \<Rightarrow> lock_run path evs (pcs[i := pc], w)
      else None)"

definition lock_start :: "nat \<Rightarrow> (nat \<Rightarrow> int) \<Rightarrow> (int \<Rightarrow> signal_result) \<Rightarrow> lock_pc list \<times> lock_world" where
  "lock_start n pids signal =
     (replicate n LTry, \<lparr>fk_dir = (\<lambda>_. None), fk_data = (\<lambda>_. []), fk_owner = (\<lambda>_. None), fk_next = 0, fk_signal = signal, fk_pid = pids\<rparr>)"


section \<open>What the lock guarantees\<close>




lemmas os_defs = unix_TryLock_def unix_Unlock_def writePID_Truncate_def writePID_WriteString_def os_open_def os_Remove_def os_ReadFile_def set_data_def set_owner_def






text \<open>The kernel of the examples: processes 100, 101, ... all live.\<close>

definition live_start :: "nat \<Rightarrow> lock_pc list \<times> lock_world" where
  "live_start n = lock_start n (\<lambda>i. 100 + int i) (\<lambda>_. SigOk)"

definition go :: "nat \<Rightarrow> nat \<Rightarrow> (nat \<times> lock_choice) list" where
  "go i k = replicate k (i, Succeeds)"

lemmas lock_eval = live_start_def lock_start_def go_def lock_step_def os_defs numeral_eq_Suc


text \<open>
  \<open>Unlock\<close> removes the file after it has released the lock: a process that has the old file open locks it, and a third
  one locks a new file of the same name.
\<close>

lemma unlock_admits_two_holders:
  "\<exists>w. lock_run ''log'' (go 0 4 @ go 1 1 @ go 0 1 @ go 1 3 @ go 0 2 @ go 2 4) (live_start 3) = Some ([LRemoved, LHeld 0, LHeld 1], w)"
  by (simp add: lock_eval)

text \<open>
  Between \<open>flock\<close> and the writing of the number the file is empty, which another process takes for the
  lock of a dead one: it removes the file and both hold the lock.
\<close>

lemma fresh_lock_is_broken:
  "\<exists>w. lock_run ''log'' (go 0 2 @ go 1 5 @ go 1 4 @ go 0 2) (live_start 2) = Some ([LHeld 0, LHeld 1], w)"
  by (simp add: lock_eval isLockStale_def pid_stale_def processExists_def Let_def)

section \<open>Live holders are left alone\<close>

lemma dec_val_mono: "acc \<le> dec_val acc ds"
proof (induction ds arbitrary: acc)
  case (Cons c cs)
  have "acc \<le> 10 * acc + (of_char c - 48)" by simp
  also note Cons.IH
  finally show ?case by simp
qed simp

lemma pid_digits_dec:
  assumes "\<forall>c \<in> set ds. is_digit c" "int (dec_val acc ds) < 2 ^ 63" "rest = [] \<or> \<not> is_digit (hd rest)"
  shows "pid_digits (int acc) (ds @ rest) = int (dec_val acc ds)"
  using assms(1,2)
proof (induction ds arbitrary: acc)
  case Nil
  with assms(3) show ?case by (cases rest) auto
next
  case (Cons c cs)
  let ?a = "10 * acc + (of_char c - 48)"
  have d: "48 \<le> (of_char c :: nat)" using Cons.prems(1) by (simp add: is_digit_def)
  then have a: "int acc * 10 + (of_char c - 48) = int ?a" using of_nat_of_char [of c, where 'a = int] by (simp add: of_nat_diff)
  have "int ?a < 2 ^ 63" using Cons.prems(2) dec_val_mono [of ?a cs] by simp
  then have "wrap_s64 (int acc * 10 + (of_char c - 48)) = int ?a" unfolding a by (intro wrap_s64_id) (simp add: is_s64_def)
  then have "pid_digits (int acc) ((c # cs) @ rest) = pid_digits (int ?a) (cs @ rest)" using Cons.prems(1) by simp
  also have "\<dots> = int (dec_val ?a cs)" by (rule Cons.IH) (use Cons.prems in simp_all)
  finally show ?case by simp
qed

lemma pid_digits_line:
  assumes "0 < pid" "pid < 2 ^ 63"
  shows "pid_digits 0 (pid_line pid) = pid"
proof -
  have "pid_digits (int 0) (dec (nat pid) @ [CHR 0x0A]) = int (dec_val 0 (dec (nat pid)))"
    by (rule pid_digits_dec) (use assms dec_digits in \<open>auto simp: is_digit_def\<close>)
  with assms show ?thesis by (simp add: pid_line_def itoa_def)
qed

text \<open>
  A file that holds the number of a live process is not taken for stale, and one that holds the number of a dead
  process is, whatever the number.
\<close>

theorem stale_iff_process_gone:
  assumes "fk_dir w (lock_name path) = Some f" and "fk_data w f = pid_line pid" and "0 < pid" and "pid < 2 ^ 63"
  shows "isLockStale path w \<longleftrightarrow> fk_signal w pid = SigESRCH"
proof -
  have h: "pid_line pid \<noteq> []" "pid_digits 0 (pid_line pid) = pid"
    using pid_digits_line [OF assms(3,4)] by (simp_all add: pid_line_def)
  then have "isLockStale path w = (\<not> processExists pid w)"
    using assms(1-3) by (simp add: isLockStale_def os_ReadFile_def pid_stale_def Let_def)
  then show ?thesis using assms(3) by (cases "fk_signal w pid") (simp_all add: processExists_def processExistsPlatform_def)
qed

theorem stale_iff_process_gone_witness:
  "isLockStale ''log'' (set_data 0 (pid_line 4711) ((snd (live_start 1))\<lparr>fk_dir := (\<lambda>_. Some 0)\<rparr>)) \<longleftrightarrow>
     fk_signal (set_data 0 (pid_line 4711) ((snd (live_start 1))\<lparr>fk_dir := (\<lambda>_. Some 0)\<rparr>)) 4711 = SigESRCH"
  by (rule stale_iff_process_gone [where f = 0]) (simp_all add: set_data_def)

end
