(* ===== verification/Color_Registry.thy ===== *)
theory Color_Registry
  imports Config_Loader Complex_Main
begin

text \<open>
  The table of terminal colours, \<^verbatim>\<open>registry/color_registry.go\<close>: two arrays of colours for the levels below 256, the
  one for the dark scheme and the one for all others, a map of names for other levels and for fields, and a
  map of field ids.

  Levels are 64-bit unsigned numbers, arrays are lists of 256 strings. The statistics divide the counters as real
  numbers, where \<open>None\<close> is the quotient of zero by zero.
\<close>

section \<open>State\<close>

record color_registry =
  cr_levelColors :: "string list"
  cr_levelColors256 :: "string list"
  cr_customColors :: "string \<Rightarrow> string option"
  cr_fieldColorsByID :: "int \<Rightarrow> string option"
  cr_colorScheme :: string
  cr_enabled :: bool
  cr_lookupCount :: "64 word"
  cr_cacheHits :: "64 word"

definition esc :: "string \<Rightarrow> string" where
  "esc s = CHR 0x1B # ''['' @ s @ ''m''"

definition default_palette :: "(nat \<times> string) list" where
  "default_palette = [(DebugLevel, esc ''90''), (InfoLevel, esc ''32''), (WarnLevel, esc ''33''), (ErrorLevel, esc ''31''),
     (FatalLevel, esc ''35'')]"

definition dark_palette :: "(nat \<times> string) list" where
  "dark_palette = [(DebugLevel, esc ''38;5;250''), (InfoLevel, esc ''38;5;46''), (WarnLevel, esc ''38;5;226''),
     (ErrorLevel, esc ''38;5;196''), (FatalLevel, esc ''38;5;201'')]"

definition light_palette :: "(nat \<times> string) list" where
  "light_palette = [(DebugLevel, esc ''38;5;240''), (InfoLevel, esc ''38;5;22''), (WarnLevel, esc ''38;5;130''),
     (ErrorLevel, esc ''38;5;124''), (FatalLevel, esc ''38;5;91'')]"

definition paint :: "(nat \<times> string) list \<Rightarrow> string list \<Rightarrow> string list" where
  "paint palette colors = foldl (\<lambda>cs (level, c). cs[level := c]) colors palette"

definition initializeDefaultColors :: "color_registry \<Rightarrow> color_registry" where
  "initializeDefaultColors r =
     r\<lparr>cr_levelColors := paint default_palette (cr_levelColors r), cr_levelColors256 := paint dark_palette (cr_levelColors256 r)\<rparr>"

definition NewColorRegistry :: color_registry where
  "NewColorRegistry = initializeDefaultColors
     \<lparr>cr_levelColors = replicate 256 [], cr_levelColors256 = replicate 256 [], cr_customColors = (\<lambda>_. None),
      cr_fieldColorsByID = (\<lambda>_. None), cr_colorScheme = ''default'', cr_enabled = True, cr_lookupCount = 0, cr_cacheHits = 0\<rparr>"

section \<open>Names of levels\<close>

text \<open>\<open>string(rune)\<close>: the UTF-8 form, with the replacement character for what is no code point.\<close>

definition rune_string :: "int \<Rightarrow> string" where
  "rune_string r =
     (if r < 0 \<or> r > 0x10FFFF \<or> (0xD800 \<le> r \<and> r \<le> 0xDFFF) then map char_of [0xEF, 0xBF, 0xBD :: nat]
      else let n = nat r in
        map char_of
          (if n < 0x80 then [n]
           else if n < 0x800 then [0xC0 + n div 64, 0x80 + n mod 64]
           else if n < 0x10000 then [0xE0 + n div 4096, 0x80 + n div 64 mod 64, 0x80 + n mod 64]
           else [0xF0 + n div 262144, 0x80 + n div 4096 mod 64, 0x80 + n div 64 mod 64, 0x80 + n mod 64]))"

text \<open>The conversion of the 64-bit sum to a rune keeps 32 bits.\<close>

definition to_rune :: "nat \<Rightarrow> int" where
  "to_rune v = (int v + 2 ^ 31) mod 2 ^ 32 - 2 ^ 31"

definition color_levelToString :: "nat \<Rightarrow> string" where
  "color_levelToString level =
     (if level = DebugLevel then ''DEBUG'' else if level = InfoLevel then ''INFO'' else if level = WarnLevel then ''WARN''
      else if level = ErrorLevel then ''ERROR'' else if level = FatalLevel then ''FATAL''
      else rune_string (to_rune ((48 + level) mod 2 ^ 64)))"

section \<open>Operations\<close>

definition getCustomColor :: "color_registry \<Rightarrow> nat \<Rightarrow> string" where
  "getCustomColor r level = (case cr_customColors r (color_levelToString level) of Some c \<Rightarrow> c | None \<Rightarrow> [])"

definition GetColor :: "nat \<Rightarrow> color_registry \<Rightarrow> string \<times> color_registry" where
  "GetColor level r =
     (let r = r\<lparr>cr_lookupCount := cr_lookupCount r + 1\<rparr> in
      if \<not> cr_enabled r then ([], r)
      else if level < 256 then
        let r = r\<lparr>cr_cacheHits := cr_cacheHits r + 1\<rparr>
        in (if cr_colorScheme r = ''dark'' then cr_levelColors256 r ! level else cr_levelColors r ! level, r)
      else (getCustomColor r level, r))"

definition cr_SetColor :: "nat \<Rightarrow> string \<Rightarrow> color_registry \<Rightarrow> color_registry" where
  "cr_SetColor level color r =
     (if level < 256
      then r\<lparr>cr_levelColors := (cr_levelColors r)[level := color], cr_levelColors256 := (cr_levelColors256 r)[level := color]\<rparr>
      else r\<lparr>cr_customColors := (cr_customColors r)(color_levelToString level := Some color)\<rparr>)"

definition applyDarkScheme :: "color_registry \<Rightarrow> color_registry" where
  "applyDarkScheme r = r\<lparr>cr_levelColors := paint dark_palette (cr_levelColors r)\<rparr>"

definition applyLightScheme :: "color_registry \<Rightarrow> color_registry" where
  "applyLightScheme r = r\<lparr>cr_levelColors := paint light_palette (cr_levelColors r)\<rparr>"

definition SetColorScheme :: "string \<Rightarrow> color_registry \<Rightarrow> color_registry" where
  "SetColorScheme scheme r =
     (let r = r\<lparr>cr_colorScheme := scheme\<rparr> in
      if scheme = ''dark'' then applyDarkScheme r
      else if scheme = ''light'' then applyLightScheme r
      else if scheme = ''default'' then initializeDefaultColors r else r)"

definition cr_Enable :: "color_registry \<Rightarrow> color_registry" where
  "cr_Enable r = r\<lparr>cr_enabled := True\<rparr>"

definition cr_Disable :: "color_registry \<Rightarrow> color_registry" where
  "cr_Disable r = r\<lparr>cr_enabled := False\<rparr>"

definition cr_Reset :: "color_registry \<Rightarrow> color_registry" where
  "cr_Reset r =
     (let r = initializeDefaultColors (r\<lparr>cr_customColors := (\<lambda>_. None), cr_colorScheme := ''default'', cr_enabled := True\<rparr>)
      in r\<lparr>cr_lookupCount := 0, cr_cacheHits := 0\<rparr>)"

record color_stats =
  cs_LookupCount :: "64 word"
  cs_CacheHits :: "64 word"
  cs_HitRate :: "real option"
  cs_Enabled :: bool
  cs_Scheme :: string

definition cr_GetPerformanceStats :: "color_registry \<Rightarrow> color_stats" where
  "cr_GetPerformanceStats r =
     \<lparr>cs_LookupCount = cr_lookupCount r, cs_CacheHits = cr_cacheHits r,
      cs_HitRate = (if cr_lookupCount r = 0 then None
                    else Some (of_int (sint (cr_cacheHits r)) / of_int (sint (cr_lookupCount r)) * 100)),
      cs_Enabled = cr_enabled r, cs_Scheme = cr_colorScheme r\<rparr>"

definition colorToANSI :: "color \<Rightarrow> string" where
  "colorToANSI color =
     (case color of ColorRed \<Rightarrow> esc ''31'' | ColorGreen \<Rightarrow> esc ''32'' | ColorYellow \<Rightarrow> esc ''33'' | ColorBlue \<Rightarrow> esc ''34''
      | ColorMagenta \<Rightarrow> esc ''35'' | ColorCyan \<Rightarrow> esc ''36'' | ColorWhite \<Rightarrow> esc ''37'' | ColorBlack \<Rightarrow> esc ''30'' | _ \<Rightarrow> [])"

text \<open>The maps of the configuration, in the order the loops meet them.\<close>

definition cr_RegisterFromConfig :: "(string \<times> color) list \<Rightarrow> color_registry \<Rightarrow> color_registry" where
  "cr_RegisterFromConfig fieldColors r =
     foldl (\<lambda>r (name, color). let s = colorToANSI color
                              in if s \<noteq> [] then r\<lparr>cr_customColors := (cr_customColors r)(name := Some s)\<rparr> else r) r fieldColors"

definition cr_RegisterFromConfigWithIDs :: "(int \<times> color) list \<Rightarrow> color_registry \<Rightarrow> color_registry" where
  "cr_RegisterFromConfigWithIDs byID r =
     foldl (\<lambda>r (fid, color). let s = colorToANSI color
                             in if s \<noteq> [] then r\<lparr>cr_fieldColorsByID := (cr_fieldColorsByID r)(fid := Some s)\<rparr> else r) r byID"

definition GetColorByFieldID :: "int \<Rightarrow> color_registry \<Rightarrow> string option" where
  "GetColorByFieldID fid r = cr_fieldColorsByID r fid"

datatype color_value = CvBool bool | CvString string | CvMap "(string \<times> color_value) list" | CvOther

definition color_level :: "string \<Rightarrow> nat option" where
  "color_level name =
     (let u = ToUpper name in
      if u = ''DEBUG'' then Some DebugLevel else if u = ''INFO'' then Some InfoLevel else if u = ''WARN'' then Some WarnLevel
      else if u = ''ERROR'' then Some ErrorLevel else if u = ''FATAL'' then Some FatalLevel else None)"

definition custom_color :: "color_registry \<Rightarrow> string \<times> color_value \<Rightarrow> color_registry" where
  "custom_color r = (\<lambda>(name, v).
     case (v, color_level name) of (CvString c, Some level) \<Rightarrow> cr_SetColor level c r | _ \<Rightarrow> r)"

definition ConfigureColorsFromConfig :: "(string \<Rightarrow> color_value option) option \<Rightarrow> color_registry \<Rightarrow> color_registry" where
  "ConfigureColorsFromConfig config r =
     (case config of
        None \<Rightarrow> r
      | Some get \<Rightarrow>
          let r = (case get ''colors_enabled'' of Some (CvBool b) \<Rightarrow> if b then cr_Enable r else cr_Disable r | _ \<Rightarrow> r);
              r = (case get ''color_scheme'' of Some (CvString s) \<Rightarrow> SetColorScheme s r | _ \<Rightarrow> r)
          in (case get ''custom_colors'' of Some (CvMap entries) \<Rightarrow> foldl custom_color r entries | _ \<Rightarrow> r))"

section \<open>The last setting decides\<close>

datatype color_call = SetLevel nat string | SetScheme string | SetEnabled bool | ResetColors
  | FieldColors "(string \<times> color) list" | FieldIDs "(int \<times> color) list" | Lookup nat

fun color_do :: "color_registry \<Rightarrow> color_call \<Rightarrow> color_registry" where
  "color_do r (SetLevel level c) = cr_SetColor level c r"
| "color_do r (SetScheme s) = SetColorScheme s r"
| "color_do r (SetEnabled b) = (if b then cr_Enable r else cr_Disable r)"
| "color_do r ResetColors = cr_Reset r"
| "color_do r (FieldColors fs) = cr_RegisterFromConfig fs r"
| "color_do r (FieldIDs fs) = cr_RegisterFromConfigWithIDs fs r"
| "color_do r (Lookup level) = snd (GetColor level r)"

definition color_run :: "color_call list \<Rightarrow> color_registry" where
  "color_run calls = foldl color_do NewColorRegistry calls"

text \<open>What a call sets the colour of a level to in the array of the dark scheme and in the other one.\<close>

fun sets_level :: "bool \<Rightarrow> nat \<Rightarrow> color_call \<Rightarrow> string option" where
  "sets_level dark level (SetLevel l c) = (if l = level then Some c else None)"
| "sets_level dark level (SetScheme s) =
     (if s = ''default'' then map_of (if dark then dark_palette else default_palette) level
      else if dark then None
      else if s = ''dark'' then map_of dark_palette level else if s = ''light'' then map_of light_palette level else None)"
| "sets_level dark level ResetColors = map_of (if dark then dark_palette else default_palette) level"
| "sets_level dark level _ = None"

definition level_color :: "bool \<Rightarrow> nat \<Rightarrow> color_call list \<Rightarrow> string" where
  "level_color dark level calls =
     foldl (\<lambda>c x. case sets_level dark level x of Some c' \<Rightarrow> c' | None \<Rightarrow> c)
       (case map_of (if dark then dark_palette else default_palette) level of Some c \<Rightarrow> c | None \<Rightarrow> []) calls"

text \<open>The colour filed under a name, by a level or by a field.\<close>

fun sets_name :: "string \<Rightarrow> string option \<Rightarrow> color_call \<Rightarrow> string option" where
  "sets_name name c (SetLevel l c') = (if 256 \<le> l \<and> color_levelToString l = name then Some c' else c)"
| "sets_name name c ResetColors = None"
| "sets_name name c (FieldColors fs) =
     foldl (\<lambda>c (n, color). if n = name \<and> colorToANSI color \<noteq> [] then Some (colorToANSI color) else c) c fs"
| "sets_name name c _ = c"

definition name_color :: "string \<Rightarrow> color_call list \<Rightarrow> string option" where
  "name_color name calls = foldl (sets_name name) None calls"

definition last_scheme :: "color_call list \<Rightarrow> string" where
  "last_scheme calls = foldl (\<lambda>s x. case x of SetScheme t \<Rightarrow> t | ResetColors \<Rightarrow> ''default'' | _ \<Rightarrow> s) ''default'' calls"

definition last_enabled :: "color_call list \<Rightarrow> bool" where
  "last_enabled calls = foldl (\<lambda>b x. case x of SetEnabled b' \<Rightarrow> b' | ResetColors \<Rightarrow> True | _ \<Rightarrow> b) True calls"

definition color_spec :: "nat \<Rightarrow> color_call list \<Rightarrow> string" where
  "color_spec level calls =
     (if \<not> last_enabled calls then []
      else if level < 256 then level_color (last_scheme calls = ''dark'') level calls
      else case name_color (color_levelToString level) calls of Some c \<Rightarrow> c | None \<Rightarrow> [])"

lemma paint_length [simp]: "length (paint p cs) = length cs"
  by (induction p arbitrary: cs) (auto simp: paint_def)

lemma paint_nth:
  "distinct (map fst p) \<Longrightarrow> level < length cs \<Longrightarrow> paint p cs ! level = (case map_of p level of Some c \<Rightarrow> c | None \<Rightarrow> cs ! level)"
proof (induction p arbitrary: cs)
  case (Cons x p)
  obtain l c where x: "x = (l, c)" by (cases x)
  have "map_of p l = None" using Cons.prems(1) by (auto simp: x map_of_eq_None_iff)
  moreover have "paint (x # p) cs = paint p (cs[l := c])" by (simp add: paint_def x)
  ultimately show ?case using Cons by (auto simp: x nth_list_update split: option.splits)
qed (simp add: paint_def)

lemma palettes_distinct:
  "distinct (map fst default_palette)" "distinct (map fst dark_palette)" "distinct (map fst light_palette)"
  by (simp_all add: default_palette_def dark_palette_def light_palette_def level_defs)

lemma register_parts:
  "cr_levelColors (cr_RegisterFromConfig fs r) = cr_levelColors r" "cr_levelColors256 (cr_RegisterFromConfig fs r) = cr_levelColors256 r"
  "cr_colorScheme (cr_RegisterFromConfig fs r) = cr_colorScheme r" "cr_enabled (cr_RegisterFromConfig fs r) = cr_enabled r"
  "cr_customColors (cr_RegisterFromConfig fs r) name =
     foldl (\<lambda>c (n, color). if n = name \<and> colorToANSI color \<noteq> [] then Some (colorToANSI color) else c) (cr_customColors r name) fs"
  by (induction fs arbitrary: r) (auto simp: cr_RegisterFromConfig_def Let_def split: prod.splits)

lemma register_id_parts:
  "cr_levelColors (cr_RegisterFromConfigWithIDs fs r) = cr_levelColors r" "cr_levelColors256 (cr_RegisterFromConfigWithIDs fs r) = cr_levelColors256 r"
  "cr_colorScheme (cr_RegisterFromConfigWithIDs fs r) = cr_colorScheme r" "cr_enabled (cr_RegisterFromConfigWithIDs fs r) = cr_enabled r"
  "cr_customColors (cr_RegisterFromConfigWithIDs fs r) = cr_customColors r"
  by (induction fs arbitrary: r) (auto simp: cr_RegisterFromConfigWithIDs_def Let_def split: prod.splits)

lemma lookup_parts:
  "cr_levelColors (snd (GetColor l r)) = cr_levelColors r" "cr_levelColors256 (snd (GetColor l r)) = cr_levelColors256 r"
  "cr_colorScheme (snd (GetColor l r)) = cr_colorScheme r" "cr_enabled (snd (GetColor l r)) = cr_enabled r"
  "cr_customColors (snd (GetColor l r)) = cr_customColors r"
  by (simp_all add: GetColor_def Let_def)

lemmas color_op_defs = cr_SetColor_def SetColorScheme_def applyDarkScheme_def applyLightScheme_def initializeDefaultColors_def
  cr_Enable_def cr_Disable_def cr_Reset_def Let_def

lemma color_run_snoc: "color_run (calls @ [x]) = color_do (color_run calls) x"
  by (simp add: color_run_def)

lemma color_run_lengths: "length (cr_levelColors (color_run calls)) = 256 \<and> length (cr_levelColors256 (color_run calls)) = 256"
proof (induction calls rule: rev_induct)
  case (snoc x calls)
  then show ?case
    by (cases x) (simp_all add: color_run_snoc color_op_defs register_parts register_id_parts lookup_parts)
qed (simp add: color_run_def NewColorRegistry_def initializeDefaultColors_def)

lemma color_run_colors:
  "level < 256 \<Longrightarrow> cr_levelColors (color_run calls) ! level = level_color False level calls
     \<and> cr_levelColors256 (color_run calls) ! level = level_color True level calls"
proof (induction calls rule: rev_induct)
  case Nil
  then show ?case
    by (simp add: color_run_def NewColorRegistry_def initializeDefaultColors_def level_color_def paint_nth palettes_distinct split: option.split)
next
  case (snoc x calls)
  note l = color_run_lengths [of calls]
  from snoc l show ?case
    by (cases x)
      (auto simp: color_run_snoc level_color_def color_op_defs register_parts register_id_parts lookup_parts paint_nth
        palettes_distinct nth_list_update split: option.splits)
qed

lemma color_run_switches:
  "cr_colorScheme (color_run calls) = last_scheme calls \<and> cr_enabled (color_run calls) = last_enabled calls
    \<and> cr_customColors (color_run calls) name = name_color name calls"
proof (induction calls rule: rev_induct)
  case Nil
  then show ?case
    by (simp add: color_run_def NewColorRegistry_def initializeDefaultColors_def last_scheme_def last_enabled_def name_color_def)
next
  case (snoc x calls)
  then show ?case
    by (cases x)
      (auto simp: color_run_snoc last_scheme_def last_enabled_def name_color_def color_op_defs register_parts register_id_parts
        lookup_parts)
qed

text \<open>
  After any sequence of calls the colour of a level is the one set last by a call that reaches the array, or the
  name, that the current scheme reads; while colours are disabled there is none.
\<close>

theorem color_last_setting: "fst (GetColor level (color_run calls)) = color_spec level calls"
proof -
  note s = color_run_switches [of calls "color_levelToString level"]
  show ?thesis
    using s color_run_colors [of level calls]
    by (simp add: GetColor_def color_spec_def getCustomColor_def Let_def)
qed

lemmas color_spec_eval = color_spec_def last_enabled_def last_scheme_def level_color_def level_defs dark_palette_def
  light_palette_def default_palette_def name_color_def

text \<open>
  The dark scheme is painted over the array that it does not read: a colour set before stays, while the other
  schemes replace it.
\<close>

lemma dark_scheme_keeps_custom:
  "fst (GetColor InfoLevel (color_run [SetLevel InfoLevel c, SetScheme ''dark''])) = c"
  "fst (GetColor InfoLevel (color_run [SetLevel InfoLevel c, SetScheme ''light''])) = esc ''38;5;22''"
  by (simp_all add: color_last_setting color_spec_eval)

text \<open>A reset restores the five levels of the palettes only.\<close>

lemma reset_keeps_other_levels: "fst (GetColor TraceLevel (color_run [SetLevel TraceLevel c, ResetColors])) = c"
  by (simp add: color_last_setting color_spec_eval)

text \<open>Levels whose number is no code point share one name, and the name of a level can be the name of a field.\<close>

lemma custom_levels_collide: "fst (GetColor 0xD7D0 (color_run [SetLevel 0xD7D1 c])) = c"
  by (simp add: color_last_setting color_spec_eval color_levelToString_def to_rune_def rune_string_def)

lemma field_color_hits_level:
  "fst (GetColor 272 (color_run [FieldColors [(rune_string 320, ColorRed)]])) = esc ''31''"
  by (simp add: color_last_setting color_spec_eval color_levelToString_def to_rune_def colorToANSI_def esc_def)

text \<open>The bright colours of a configuration are dropped.\<close>

lemma bright_color_dropped: "GetColorByFieldID 3 (cr_RegisterFromConfigWithIDs [(3, ColorBrightRed)] NewColorRegistry) = None"
  by (simp add: GetColorByFieldID_def cr_RegisterFromConfigWithIDs_def colorToANSI_def NewColorRegistry_def initializeDefaultColors_def)

end
