(* ===== verification/Clocks.thy ===== *)
theory Clocks
  imports Halo_Prelude
begin

text \<open>
  The cached clocks: the one the entry functions share (\<^verbatim>\<open>types/clock.go\<close>), \<^verbatim>\<open>CachedClock\<close> of
  \<^verbatim>\<open>types/core_types.go\<close>, and \<^verbatim>\<open>CachedClock\<close> of \<^verbatim>\<open>cache/clock.go\<close>, which a goroutine refreshes.

  Times are nanoseconds since the epoch, and a reading takes what \<^verbatim>\<open>time.Now\<close> returns as an argument. Two
  goroutines that read a clock of \<^verbatim>\<open>types/\<close> at once are two readings one after the other.
\<close>

section \<open>The clock of the entry functions\<close>

record entry_clock =
  ec_cachedTime :: int
  ec_lastUpdate :: int

definition millisecond :: int where
  "millisecond = 1000000"

definition entry_clock_init :: "int \<Rightarrow> entry_clock" where
  "entry_clock_init now = \<lparr>ec_cachedTime = now, ec_lastUpdate = now\<rparr>"

definition entry_clock_now :: "int \<Rightarrow> entry_clock \<Rightarrow> int \<times> entry_clock" where
  "entry_clock_now now cc =
     (if now - ec_lastUpdate cc > millisecond then (now, cc\<lparr>ec_cachedTime := now, ec_lastUpdate := now\<rparr>)
      else (ec_cachedTime cc, cc))"

definition UnixTimestampNow :: "int \<Rightarrow> entry_clock \<Rightarrow> int \<times> entry_clock" where
  "UnixTimestampNow now cc = (let (t, cc) = entry_clock_now now cc in (t div 1000000000, cc))"

section \<open>The clock with an interval\<close>

record cached_clock =
  cl_currentTime :: int
  cl_updateInterval :: int
  cl_lastUpdate :: int

definition NewCachedClock :: "int \<Rightarrow> int \<Rightarrow> cached_clock" where
  "NewCachedClock now updateInterval = \<lparr>cl_currentTime = now, cl_updateInterval = updateInterval, cl_lastUpdate = now\<rparr>"

text \<open>The second test, under the write lock, sees what the first saw when nobody reads in between.\<close>

definition cached_Now :: "int \<Rightarrow> cached_clock \<Rightarrow> int \<times> cached_clock" where
  "cached_Now now c =
     (if now - cl_lastUpdate c > cl_updateInterval c then
        let c = (if now - cl_lastUpdate c > cl_updateInterval c then c\<lparr>cl_currentTime := now, cl_lastUpdate := now\<rparr> else c)
        in (cl_currentTime c, c)
      else (cl_currentTime c, c))"

section \<open>The clock with a goroutine\<close>

record ticking_clock =
  tk_nsec :: int
  tk_interval :: int
  tk_running :: bool
  tk_stopped :: bool

definition NewTickingClock :: "int \<Rightarrow> int \<Rightarrow> ticking_clock" where
  "NewTickingClock now updateInterval =
     (let interval = (if updateInterval \<le> 0 then 10 * millisecond else updateInterval)
      in \<lparr>tk_nsec = now, tk_interval = interval, tk_running = True, tk_stopped = False\<rparr>)"

definition clock_tick :: "int \<Rightarrow> ticking_clock \<Rightarrow> ticking_clock" where
  "clock_tick now cc = (if tk_running cc then cc\<lparr>tk_nsec := now\<rparr> else cc)"

definition GetNsecValue :: "ticking_clock \<Rightarrow> int" where
  "GetNsecValue cc = tk_nsec cc"

definition ticking_Close :: "ticking_clock \<Rightarrow> ticking_clock" where
  "ticking_Close cc = (if tk_stopped cc then cc else cc\<lparr>tk_stopped := True, tk_running := False\<rparr>)"

section \<open>How old a reading is\<close>

fun clock_readings :: "('c \<Rightarrow> int \<Rightarrow> int \<times> 'c) \<Rightarrow> int list \<Rightarrow> 'c \<Rightarrow> int list" where
  "clock_readings rd [] c = []"
| "clock_readings rd (now # nows) c = (let (t, c) = rd c now in t # clock_readings rd nows c)"

text \<open>A reading is never ahead of the clock and at most the interval behind it, and time does not run backwards.\<close>

definition fresh_readings :: "int \<Rightarrow> int list \<Rightarrow> int list \<Rightarrow> bool" where
  "fresh_readings d nows ts \<longleftrightarrow> list_all2 (\<lambda>now t. t \<le> now \<and> now - t \<le> d) nows ts \<and> sorted ts"

lemma cached_clock_fresh:
  assumes "sorted (cl_currentTime c # nows)" "0 \<le> cl_updateInterval c" "cl_lastUpdate c = cl_currentTime c"
  shows "list_all2 (\<lambda>now t. t \<le> now \<and> now - t \<le> cl_updateInterval c) nows (clock_readings (\<lambda>c now. cached_Now now c) nows c)
    \<and> sorted (cl_currentTime c # clock_readings (\<lambda>c now. cached_Now now c) nows c)"
  using assms
proof (induction nows arbitrary: c)
  case (Cons now nows)
  show ?case
  proof (cases "now - cl_lastUpdate c > cl_updateInterval c")
    case True
    let ?c = "c\<lparr>cl_currentTime := now, cl_lastUpdate := now\<rparr>"
    have "cached_Now now c = (now, ?c)" using True by (simp add: cached_Now_def)
    with Cons.IH [of ?c] Cons.prems show ?thesis by auto
  next
    case False
    then have "cached_Now now c = (cl_currentTime c, c)" by (simp add: cached_Now_def)
    moreover have "sorted (cl_currentTime c # nows)" using Cons.prems(1) by auto
    ultimately show ?thesis using Cons False by auto
  qed
qed simp

lemma entry_clock_cached:
  "clock_readings (\<lambda>c now. entry_clock_now now c) nows (entry_clock_init t) =
     clock_readings (\<lambda>c now. cached_Now now c) nows (NewCachedClock t millisecond)"
proof -
  have "cl_updateInterval d = millisecond \<Longrightarrow> ec_cachedTime c = cl_currentTime d \<Longrightarrow> ec_lastUpdate c = cl_lastUpdate d \<Longrightarrow>
      clock_readings (\<lambda>c now. entry_clock_now now c) nows c = clock_readings (\<lambda>c now. cached_Now now c) nows d" for c d
    by (induction nows arbitrary: c d) (simp_all add: entry_clock_now_def cached_Now_def Let_def)
  then show ?thesis by (simp add: entry_clock_init_def NewCachedClock_def)
qed

text \<open>
  On a clock that does not run backwards, every time the cached clocks give out is at most their interval old (one
  millisecond for the entries), never in the future, and never before a time given out earlier.
\<close>

theorem cached_clocks_fresh:
  assumes "sorted (start # nows)" and "0 \<le> interval"
  shows "fresh_readings interval nows (clock_readings (\<lambda>c now. cached_Now now c) nows (NewCachedClock start interval))
    \<and> fresh_readings millisecond nows (clock_readings (\<lambda>c now. entry_clock_now now c) nows (entry_clock_init start))"
proof -
  have f: "fresh_readings d nows (clock_readings (\<lambda>c now. cached_Now now c) nows (NewCachedClock start d))" if "0 \<le> d" for d
    using cached_clock_fresh [of "NewCachedClock start d" nows] assms(1) that
    by (simp add: NewCachedClock_def fresh_readings_def)
  show ?thesis
    unfolding entry_clock_cached using f [OF assms(2)] f [of millisecond] by (simp add: millisecond_def)
qed

theorem cached_clocks_fresh_witness:
  "fresh_readings 50 [10, 40, 90, 200] (clock_readings (\<lambda>c now. cached_Now now c) [10, 40, 90, 200] (NewCachedClock 5 50))
    \<and> fresh_readings millisecond [10, 40, 90, 200] (clock_readings (\<lambda>c now. entry_clock_now now c) [10, 40, 90, 200] (entry_clock_init 5))"
  by (rule cached_clocks_fresh) simp_all

text \<open>When the wall clock is set back the cached time stays ahead until it has caught up.\<close>

lemma set_back_clock_stays: "now \<le> ec_lastUpdate cc + millisecond \<Longrightarrow> fst (entry_clock_now now cc) = ec_cachedTime cc"
  by (simp add: entry_clock_now_def)

text \<open>A closed clock is stopped for good, also the one all share; its readers get the old time.\<close>

lemma closed_clock_stays: "GetNsecValue (foldl (\<lambda>c now. clock_tick now c) (ticking_Close (NewTickingClock t i)) nows) = t"
proof -
  have "\<not> tk_running c \<Longrightarrow> tk_nsec (foldl (\<lambda>c now. clock_tick now c) c nows) = tk_nsec c" for c
    by (induction nows arbitrary: c) (simp_all add: clock_tick_def)
  then show ?thesis by (simp add: GetNsecValue_def ticking_Close_def NewTickingClock_def Let_def)
qed

end
