(* ===== verification/Legacy_Entries.thy ===== *)
theory Legacy_Entries
  imports Log_Entry Clocks
begin

text \<open>
  The two other ways of making a record: \<open>Entry\<close> of \<^verbatim>\<open>core/entry.go\<close>, which keeps sixteen fields in
  an array and the rest in a slice, and the constructors and the pool of \<^verbatim>\<open>types/log_entry_factory.go\<close>.
\<close>

section \<open>\<open>Entry\<close> of the core package\<close>

record stack_entry =
  se_Timestamp :: int
  se_Level :: nat
  se_Component :: string
  se_Message :: string
  se_staticFields :: "typed_field list"
  se_fieldCount :: nat
  se_dynamicFields :: "typed_field list"

definition zero_stack_entry :: stack_entry where
  "zero_stack_entry = \<lparr>se_Timestamp = 0, se_Level = 0, se_Component = [], se_Message = [],
     se_staticFields = replicate 16 zero_field, se_fieldCount = 0, se_dynamicFields = []\<rparr>"

definition se_Reset :: "stack_entry \<Rightarrow> stack_entry" where
  "se_Reset e = e\<lparr>se_Timestamp := 0, se_Level := InfoLevel, se_Component := [], se_Message := [], se_fieldCount := 0,
     se_staticFields := map (\<lambda>f. f\<lparr>tf_Value := GNil\<rparr>) (se_staticFields e), se_dynamicFields := []\<rparr>"

definition se_AddField :: "string \<Rightarrow> go_any \<Rightarrow> stack_entry \<Rightarrow> stack_entry" where
  "se_AddField key v e =
     (if se_fieldCount e < 16
      then let i = se_fieldCount e
           in e\<lparr>se_staticFields := (se_staticFields e)[i := (se_staticFields e ! i)\<lparr>tf_Key := key, tf_Value := v\<rparr>],
                se_fieldCount := i + 1\<rparr>
      else e\<lparr>se_dynamicFields := se_dynamicFields e @ [any_field key v]\<rparr>)"

text \<open>The typed variants hand their value on as the empty interface.\<close>

datatype entry_add = AddAnyField string go_any | AddStringField string string | AddIntField string int | AddInt64Field string int
  | AddFloat64Field string go_float | AddBoolField string bool | AddErrorField "string option"

fun se_add :: "entry_add \<Rightarrow> stack_entry \<Rightarrow> stack_entry" where
  "se_add (AddAnyField k v) e = se_AddField k v e"
| "se_add (AddStringField k s) e = se_AddField k (GString s) e"
| "se_add (AddIntField k i) e = se_AddField k (GInt i) e"
| "se_add (AddInt64Field k i) e = se_AddField k (GInt64 i) e"
| "se_add (AddFloat64Field k x) e = se_AddField k (GFloat64 x) e"
| "se_add (AddBoolField k b) e = se_AddField k (GBool b) e"
| "se_add (AddErrorField err) e = (case err of None \<Rightarrow> e | Some s \<Rightarrow> se_AddField ''error'' (GString s) e)"

definition se_FieldCount :: "stack_entry \<Rightarrow> nat" where
  "se_FieldCount e = se_fieldCount e + length (se_dynamicFields e)"

definition se_Fields :: "stack_entry \<Rightarrow> typed_field list" where
  "se_Fields e =
     (if se_FieldCount e = 0 then []
      else let result = take (se_fieldCount e) (se_staticFields e)
           in if se_dynamicFields e \<noteq> [] then result @ se_dynamicFields e else result)"

text \<open>The callback threads a state and says whether to go on.\<close>

fun visit_fields :: "(string \<Rightarrow> go_any \<Rightarrow> 's \<Rightarrow> 's \<times> bool) \<Rightarrow> typed_field list \<Rightarrow> 's \<Rightarrow> 's \<times> bool" where
  "visit_fields fn [] s = (s, True)"
| "visit_fields fn (f # fs) s =
     (case fn (tf_Key f) (tf_Value f) s of (s, True) \<Rightarrow> visit_fields fn fs s | (s, False) \<Rightarrow> (s, False))"

definition se_ForEachField :: "(string \<Rightarrow> go_any \<Rightarrow> 's \<Rightarrow> 's \<times> bool) \<Rightarrow> stack_entry \<Rightarrow> 's \<Rightarrow> 's" where
  "se_ForEachField fn e s =
     (case visit_fields fn (take (se_fieldCount e) (se_staticFields e)) s of
        (s, False) \<Rightarrow> s
      | (s, True) \<Rightarrow> fst (visit_fields fn (se_dynamicFields e) s))"

text \<open>
  The array of the target is reused while it has room; the fields are copied over its first elements, and the
  dynamic fields over the target's slice, which keeps its array when that is large enough.
\<close>

definition ToLogEntry :: "stack_entry \<Rightarrow> 'd full_entry \<Rightarrow> 'd full_entry" where
  "ToLogEntry e t =
     (let t = t\<lparr>le_TimestampUnix := se_Timestamp e, le_Level := se_Level e, le_Component := se_Component e,
            le_Message := se_Message e, le_StaticFieldCount := int (se_fieldCount e)\<rparr>;
          n = se_fieldCount e; array = le_StaticFields t @ le_StaticFieldsSpare t;
          t = (if n > length array
               then t\<lparr>le_StaticFields := replicate n zero_field, le_StaticFieldsSpare := []\<rparr>
               else t\<lparr>le_StaticFields := take n array, le_StaticFieldsSpare := drop n array\<rparr>);
          t = t\<lparr>le_StaticFields := take n (se_staticFields e) @ drop n (le_StaticFields t)\<rparr>;
          dyn = se_dynamicFields e
      in if dyn \<noteq> []
         then t\<lparr>le_Fields := dyn, le_FieldsSpare := drop (length dyn) (le_Fields t @ le_FieldsSpare t)\<rparr>
         else t)"

section \<open>What an entry holds\<close>

fun added_field :: "entry_add \<Rightarrow> typed_field list" where
  "added_field (AddAnyField k v) = [any_field k v]"
| "added_field (AddStringField k s) = [any_field k (GString s)]"
| "added_field (AddIntField k i) = [any_field k (GInt i)]"
| "added_field (AddInt64Field k i) = [any_field k (GInt64 i)]"
| "added_field (AddFloat64Field k x) = [any_field k (GFloat64 x)]"
| "added_field (AddBoolField k b) = [any_field k (GBool b)]"
| "added_field (AddErrorField err) = (case err of None \<Rightarrow> [] | Some s \<Rightarrow> [any_field ''error'' (GString s)])"

text \<open>Slots are written in their key and value only, so that nothing else of an earlier field shows.\<close>

definition stack_entry_ok :: "stack_entry \<Rightarrow> bool" where
  "stack_entry_ok e \<longleftrightarrow> length (se_staticFields e) = 16 \<and> se_fieldCount e \<le> 16 \<and> (se_dynamicFields e \<noteq> [] \<longrightarrow> se_fieldCount e = 16)
     \<and> (\<forall>f \<in> set (se_staticFields e). tf_KeyDesc f = None \<and> tf_Val f = zero_value)"

lemma se_Fields_eq: "se_Fields e = take (se_fieldCount e) (se_staticFields e) @ se_dynamicFields e"
  by (simp add: se_Fields_def se_FieldCount_def Let_def)

lemma se_AddField_ok:
  assumes "stack_entry_ok e"
  shows "stack_entry_ok (se_AddField k v e) \<and> se_Fields (se_AddField k v e) = se_Fields e @ [any_field k v]"
proof (cases "se_fieldCount e < 16")
  case True
  let ?i = "se_fieldCount e" and ?f = "(se_staticFields e ! se_fieldCount e)\<lparr>tf_Key := k, tf_Value := v\<rparr>"
  have l: "?i < length (se_staticFields e)" using assms True by (simp add: stack_entry_ok_def)
  then have m: "se_staticFields e ! ?i \<in> set (se_staticFields e)" by simp
  then have "tf_KeyDesc (se_staticFields e ! ?i) = None" "tf_Val (se_staticFields e ! ?i) = zero_value"
    using assms unfolding stack_entry_ok_def by blast+
  then have f: "?f = any_field k v" by (simp add: any_field_def)
  have d: "se_dynamicFields e = []" using assms True by (auto simp: stack_entry_ok_def)
  have a: "se_AddField k v e = e\<lparr>se_staticFields := (se_staticFields e)[?i := any_field k v], se_fieldCount := Suc ?i\<rparr>"
    using True f by (simp add: se_AddField_def Let_def)
  have "take (Suc ?i) ((se_staticFields e)[?i := any_field k v]) = take ?i (se_staticFields e) @ [any_field k v]"
    using l by (simp add: take_Suc_conv_app_nth)
  moreover have "\<forall>g \<in> set ((se_staticFields e)[?i := any_field k v]). tf_KeyDesc g = None \<and> tf_Val g = zero_value"
    using assms set_update_subset_insert [of "se_staticFields e" ?i "any_field k v"]
    by (auto simp: stack_entry_ok_def any_field_def)
  ultimately show ?thesis using assms True d by (simp add: a se_Fields_eq stack_entry_ok_def)
next
  case False
  with assms have "se_fieldCount e = 16" by (simp add: stack_entry_ok_def)
  with assms show ?thesis by (simp add: se_AddField_def se_Fields_eq stack_entry_ok_def)
qed

lemma se_add_ok:
  "stack_entry_ok e \<Longrightarrow> stack_entry_ok (se_add a e) \<and> se_Fields (se_add a e) = se_Fields e @ added_field a"
  by (cases a) (simp_all add: se_AddField_ok split: option.split)

lemma se_adds_ok:
  "stack_entry_ok e \<Longrightarrow> stack_entry_ok (foldl (\<lambda>e a. se_add a e) e as)
     \<and> se_Fields (foldl (\<lambda>e a. se_add a e) e as) = se_Fields e @ concat (map added_field as)"
  by (induction as arbitrary: e) (simp_all add: se_add_ok)

lemma se_Reset_ok: "stack_entry_ok e \<Longrightarrow> stack_entry_ok (se_Reset e) \<and> se_Fields (se_Reset e) = []"
  by (auto simp: stack_entry_ok_def se_Reset_def se_Fields_eq)

lemma zero_stack_entry_ok: "stack_entry_ok zero_stack_entry"
  by (simp add: stack_entry_ok_def zero_stack_entry_def zero_field_def)

text \<open>An entry in use: lines that have been added and reset before.\<close>

definition used_before :: "entry_add list list \<Rightarrow> stack_entry" where
  "used_before lines = foldl (\<lambda>e as. se_Reset (foldl (\<lambda>e a. se_add a e) e as)) zero_stack_entry lines"

lemma used_before_ok: "stack_entry_ok (used_before lines) \<and> (se_Fields (used_before lines) = [])"
proof -
  have "stack_entry_ok e \<Longrightarrow> se_Fields e = [] \<Longrightarrow>
      stack_entry_ok (foldl (\<lambda>e as. se_Reset (foldl (\<lambda>e a. se_add a e) e as)) e lines)
      \<and> se_Fields (foldl (\<lambda>e as. se_Reset (foldl (\<lambda>e a. se_add a e) e as)) e lines) = []" for e
    by (induction lines arbitrary: e) (simp_all add: se_adds_ok se_Reset_ok)
  from this [OF zero_stack_entry_ok] show ?thesis
    by (simp add: used_before_def zero_stack_entry_def se_Fields_eq)
qed

lemma visit_fields_append:
  "visit_fields fn (xs @ ys) s = (case visit_fields fn xs s of (s, True) \<Rightarrow> visit_fields fn ys s | (s, False) \<Rightarrow> (s, False))"
  by (induction xs arbitrary: s) (simp_all split: prod.split bool.split)

text \<open>
  However often an entry has been used and reset, it holds exactly the fields added since, in order, whether they
  fit the array or not: \<open>Fields\<close> lists them, \<open>FieldCount\<close> counts them, \<open>ForEachField\<close> visits them until the callback
  stops, and a conversion shows them in the target, followed by the dynamic fields the target had before when
  the entry has none of its own.
\<close>

theorem stack_entry_holds_fields:
  "let e = foldl (\<lambda>e a. se_add a e) (used_before lines) as; fs = concat (map added_field as); t' = ToLogEntry e t in
     se_Fields e = fs \<and> se_FieldCount e = length fs \<and> se_ForEachField fn e s = fst (visit_fields fn fs s)
     \<and> take (nat (le_StaticFieldCount t')) (le_StaticFields t') @ le_Fields t' =
         fs @ (if length fs \<le> 16 then le_Fields t else [])"
proof -
  let ?e = "foldl (\<lambda>e a. se_add a e) (used_before lines) as"
  have ok: "stack_entry_ok ?e" and fs: "se_Fields ?e = concat (map added_field as)"
    using se_adds_ok [of "used_before lines" as] used_before_ok by auto
  let ?s = "take (se_fieldCount ?e) (se_staticFields ?e)"
  have l: "length ?s = se_fieldCount ?e" using ok by (simp add: stack_entry_ok_def)
  have f: "concat (map added_field as) = ?s @ se_dynamicFields ?e" using fs by (simp add: se_Fields_eq)
  have d: "(length (concat (map added_field as)) \<le> 16) = (se_dynamicFields ?e = [])"
    unfolding f using ok l by (auto simp: stack_entry_ok_def)
  have "se_FieldCount ?e = length (concat (map added_field as))" unfolding f using l by (simp add: se_FieldCount_def)
  moreover have "se_ForEachField fn ?e s = fst (visit_fields fn (concat (map added_field as)) s)"
    unfolding f by (simp add: se_ForEachField_def visit_fields_append split: prod.split bool.split)
  moreover have "take (nat (le_StaticFieldCount (ToLogEntry ?e t))) (le_StaticFields (ToLogEntry ?e t)) = ?s"
    using l by (auto simp: ToLogEntry_def Let_def min_def)
  moreover have "le_Fields (ToLogEntry ?e t) = (if se_dynamicFields ?e = [] then le_Fields t else se_dynamicFields ?e)"
    by (simp add: ToLogEntry_def Let_def)
  ultimately show ?thesis using fs d f by (simp add: Let_def)
qed

section \<open>Constructors and the pool of records\<close>

definition NewLogEntry :: "int \<Rightarrow> nat \<Rightarrow> string \<Rightarrow> entry_clock \<Rightarrow> 'd full_entry \<times> entry_clock" where
  "NewLogEntry now level message cc =
     (let (t, cc) = entry_clock_now now cc
      in (empty_entry\<lparr>le_Timestamp := Some t, le_Level := level, le_Message := message,
            le_FieldsSpare := replicate 8 zero_field, le_ContextSpare := replicate 8 zero_field\<rparr>, cc))"

definition new_pooled_entry :: "'d full_entry" where
  "new_pooled_entry = empty_entry\<lparr>le_FieldsSpare := replicate 8 zero_field, le_ContextSpare := replicate 8 zero_field\<rparr>"

definition AcquireLogEntry :: "nat option \<Rightarrow> int \<Rightarrow> 'd full_entry list \<times> entry_clock \<Rightarrow> 'd full_entry \<times> 'd full_entry list \<times> entry_clock" where
  "AcquireLogEntry pick now = (\<lambda>(free, cc).
     let (free, e) = sync_Get pick new_pooled_entry free; (t, cc) = entry_clock_now now cc
     in (e\<lparr>le_Timestamp := Some t, le_Level := 0, le_Message := [], le_Component := [],
           le_Fields := [], le_FieldsSpare := [], le_Context := [], le_ContextSpare := [],
           le_Error := None, le_ErrorMsg := [], le_File := [], le_Line := 0, le_Caller := GNil,
           le_StaticFieldCount := 0, le_StaticContextCount := 0, le_IndexedStore := None, le_UseIndexedStorage := False\<rparr>,
         free, cc))"

definition NewLogEntryWithCaller ::
  "nat option \<Rightarrow> int \<Rightarrow> string \<times> int \<Rightarrow> nat \<Rightarrow> string \<Rightarrow> 'd full_entry list \<times> entry_clock \<Rightarrow> 'd full_entry \<times> 'd full_entry list \<times> entry_clock" where
  "NewLogEntryWithCaller pick now site level message st =
     (let (e, st) = AcquireLogEntry pick now st
      in (e\<lparr>le_Level := level, le_Message := message, le_File := fst site, le_Line := snd site\<rparr>, st))"

definition ReleaseLogEntry :: "'d full_entry option \<Rightarrow> 'd full_entry list \<Rightarrow> 'd full_entry list" where
  "ReleaseLogEntry entry free =
     (case entry of
        None \<Rightarrow> free
      | Some e \<Rightarrow> free @ [e\<lparr>le_Fields := [], le_FieldsSpare := [], le_Context := [], le_ContextSpare := [], le_Error := None,
          le_Caller := GNil, le_IndexedStore := None, le_UseIndexedStorage := False\<rparr>])"

text \<open>
  An entry taken from the pool shows no field, message, place or error of its earlier use, whatever that was; but
  its hot-path time is not reset, and where it was set the line is written with the old time.
\<close>

theorem recycled_entry_keeps_time:
  "let (r, free', cc') = AcquireLogEntry (Some (length free)) now (ReleaseLogEntry (Some e) free, cc) in
     le_Fields r = [] \<and> le_StaticFieldCount r = 0 \<and> le_Message r = [] \<and> le_File r = [] \<and> le_ErrorMsg r = [] \<and> free' = free \<and>
     entryUnixNanos (log_entry.truncate r) = (if le_TimestampUnix e \<noteq> 0 then le_TimestampUnix e else fst (entry_clock_now now cc))"
  by (simp add: AcquireLogEntry_def ReleaseLogEntry_def sync_Get_def Let_def entryUnixNanos_def log_entry.truncate_def case_prod_beta)

end
