(* ===== verification/Spec2Isabelle.thy ===== *)
theory Spec2Isabelle
  imports String_Helpers Bit_Vector Field_Dict Indexed_Store Json_Line Sensitive_Registry Masking Ring_Adapter
    Encryption File_Sink Sampling Core_Pool Pipeline_Session Async_Delivery Retry
    Field_Types Config_Loader Alert_Senders Otel_Bridge
    Slog_Bridge Syslog_Sink Race_Prevention Pipeline_Metrics Metrics_Collector
    Default_Rules Worker_Cache File_Lock Color_Registry Legacy_Entries
begin

text \<open>
  HaloLog is a structured logging library written in Go. A logger (\<^verbatim>\<open>core/\<close>) collects the fields of
  a line in pooled state, lets a sampler decide, masks the record, encodes it as JSON and hands it to
  adapters (console, file, ring, HTTP, syslog, OpenTelemetry, an asynchronous wrapper). Beside it there are
  pipelines, a configuration that builds loggers and maskers, and bookkeeping: metrics, alerts, a detector of races,
  tables of colours and of worker pools. This development models that program function by function,
  proves what its parts promise, and composes the parts the way the code does.

  \<^bold>\<open>How the model reads.\<close> A Go string or byte slice is a list of 8-bit characters, a Go integer is an
  integer with its wrap-around written out (or a word where the code works on bits), a struct is a
  record whose fields carry the struct's names behind a short prefix, an operation takes the record
  and returns it updated, and a panic or an endless wait is \<open>None\<close>. Interfaces, the clock, the regular
  expression engine, AES-GCM, \<^verbatim>\<open>net/http\<close>, the OpenTelemetry API, the failures of the file system and the choices of
  \<open>sync.Pool\<close> are arguments. Floating-point numbers are the text Go prints for them, or reals in the
  samplers and statistics. Goroutines are step relations, labelled steps or explicit lists of calls.

  \<^bold>\<open>Data.\<close>
  \<^item> \<open>Halo_Prelude\<close>, \<open>Bit_Fields\<close>: integers, decimal digits, lists, fields inside words.
  \<^item> \<open>String_Helpers\<close>: \<^verbatim>\<open>utils/string_helpers.go\<close>. Templates, numbers, timestamps.
  \<^item> \<open>Field_Dict\<close>, \<open>Bit_Vector\<close>, \<open>Sensitive_Registry\<close>: \<^verbatim>\<open>fielddict/\<close> and \<^verbatim>\<open>registry/\<close>. The dictionary
    of field names, the bit sets and the two registries of sensitive names.
  \<^item> \<open>Indexed_Store\<close>: \<^verbatim>\<open>types/indexed_field_store.go\<close>. The locale \<open>field_ids\<close> states what the
    store needs of its dictionary; \<open>Field_Dict\<close> provides it.
  \<^item> \<open>Field_Buffer\<close>, \<open>Field_Types\<close>: the bounded field buffer, which refines a map with a capacity, and the typed,
    static and styled fields with the inference of types (\<^verbatim>\<open>types/\<close>).
  \<^item> \<open>Log_Entry\<close>, \<open>Legacy_Entries\<close>, \<open>Clocks\<close>: the whole record with its methods, the entry pool
    (\<^verbatim>\<open>pool/entry_pool.go\<close>), whose entries carry nothing from one line to the next, the entry of \<^verbatim>\<open>core/entry.go\<close>, the
    record factory, and the three cached clocks with the age of their readings.

  \<^bold>\<open>Lines.\<close>
  \<^item> \<open>Json_String\<close>, \<open>Json_Line\<close>: \<^verbatim>\<open>adapters/formatters/json/\<close>. Strings are escaped eight bytes at a
    time; a reader for JSON strings and lines is the specification.
  \<^item> \<open>Text_Formatter\<close>: \<^verbatim>\<open>adapters/formatters/text/\<close>, with the clock that refreshes its time stamp.
  \<^item> \<open>Masking\<close>, \<open>Default_Rules\<close>, \<open>Encryption\<close>: \<^verbatim>\<open>masking/\<close>. Field rules, regular-expression rules, the built-in rules,
    the field encryptor.
  \<^item> \<open>Core_Logger\<close>, \<open>Core_Dispatch\<close>, \<open>Core_Session\<close>, \<open>Core_Pool\<close>: \<^verbatim>\<open>core/\<close>. Construction and the table of
    level functions; each call equals a reference line; sequences of calls; lines that share the
    pooled state, with 32-bit epochs that tell a finished line from a live one.
  \<^item> \<open>Pipelines\<close>, \<open>Pipeline_Strategy\<close>, \<open>Pipeline_Session\<close>: \<^verbatim>\<open>pipeline/\<close>. The pipelines on the shared entry pool,
    the selection among them, and whole sessions; the locale \<open>entry_masker\<close> is what the full pipeline needs of
    a masker, interpreted on the PII masker.
  \<^item> \<open>Sampling\<close>: \<^verbatim>\<open>sampling/\<close>. Count, window, adaptive and back-pressure samplers.

  \<^bold>\<open>Sinks.\<close>
  \<^item> \<open>Ring\<close>, \<open>Ring_Adapter\<close>: \<^verbatim>\<open>adapters/outputs/asyncring/\<close>. The ring refines a bounded list queue; the
    adapter delivers what it accepted; the shutdown protocol is a step relation.
  \<^item> \<open>Line_Queue\<close>, \<open>File_Resilience\<close>, \<open>File_Sink\<close>, \<open>File_Lock\<close>: \<^verbatim>\<open>adapters/outputs/file/\<close>. The double-buffered
    queue, circuit breaker and rate limiter, the sink with rotation and retention, and the lock between processes, one
    system call a step.
  \<^item> \<open>Console_Sink\<close>, \<open>Syslog_Sink\<close>, \<open>Http_Sink\<close>: the console; syslog on Unix; the batches of the HTTP sink, whose
    entries are accounted for under any interleaving of writes and flushes.
  \<^item> \<open>Async_Adapter\<close>, \<open>Async_Delivery\<close>, \<open>Retry\<close>: \<^verbatim>\<open>adapters/middleware/async.go\<close> and \<^verbatim>\<open>middleware/retry.go\<close>. The
    asynchronous wrapper over a base adapter, stated by the locale \<open>async_base\<close> and interpreted on the console, and
    the retry loop.
  \<^item> \<open>Otel_Adapter\<close>, \<open>Otel_Record\<close>, \<open>Otel_Bridge\<close>, \<open>Slog_Bridge\<close>: \<^verbatim>\<open>otelbridge/\<close> and \<^verbatim>\<open>slogbridge/\<close>. The translation of
    entries into records, its specification, and the ways from a bound span or a slog record through the core
    logger to the output.

  \<^bold>\<open>Surroundings.\<close>
  \<^item> \<open>Config_Builder\<close>, \<open>Config_Ids\<close>, \<open>Config_Loader\<close>: \<^verbatim>\<open>config/\<close>. The builder, the field ids and the masker of a built
    configuration, environment variables and merging.
  \<^item> \<open>Worker_Pool\<close>, \<open>Worker_Cache\<close>: \<^verbatim>\<open>pool/worker_pool.go\<close>. Callers, workers and closers of one pool as labelled steps,
    with the way its shutdown ends; the table of pools, which refines two sets of numbers.
  \<^item> \<open>Pipeline_Metrics\<close>, \<open>Metrics_Collector\<close>, \<open>Alert_Senders\<close>, \<open>Race_Prevention\<close>, \<open>Color_Registry\<close>: counters and their
    totals, the alert senders (the locale \<open>limited_sender\<close> states their rate limit once), the detector of races, and the
    colours, whose current value is the last setting that reaches it.

  \<^bold>\<open>What the lemmas show.\<close> Each component theory ends with its properties: functional behaviour against a
  reference written beside it, an invariant kept by every step, or a refinement of an abstract specification.
  Behaviour that falls short of what comments or names promise is stated as a lemma too, usually on a concrete
  run: the interleavings that lose or duplicate something in the shutdown of the worker pool and in the file lock, the
  batches an HTTP failure drops, the values a defensive copy loses.

  \<^bold>\<open>Bounds.\<close> Loops are structural recursion or carry a measure; no definition uses fuel. Claims about
  pooled line state hold for fewer than 2^32 uses of one slot, those about the ring for 64-bit
  positions that wrap around, those about times for instants within the signed 64-bit range of
  nanoseconds.

  \<^bold>\<open>Not modelled.\<close> The files and locks of Windows and of systems without \<open>flock\<close>, the stand-in for syslog on Windows, the
  HTTP handler that prints metrics, the plain getters of the configuration, the generic extracted pool that nothing
  uses, the generated lists of standard field names, the code generator and the examples.
  Memory ordering inside one atomic operation is not modelled: every atomic action is one step.
\<close>

end
